(* ===== verification/Prelude.thy ===== *)
theory Prelude
  imports Main "HOL-Library.Monad_Syntax"
begin

text \<open>
  The prelude of the development: the result type of code that may throw, texts as sequences of
  character codes, the operations of a JavaScript \<open>Map\<close> in insertion order, decimal
  printing, and the two locales the components share (an insertion-ordered map that evicts its
  oldest key, and a machine whose operations keep an invariant).
\<close>

named_theorems model_simps \<open>unfolding rules of the model's small definitions\<close>
named_theorems keeps \<open>every operation of a component keeps the component's invariant\<close>

section \<open>Results of code that may throw\<close>

text \<open>
  A TypeScript function that throws becomes a function into \<open>'e + 'a\<close>: \<open>Inl\<close> is the thrown
  value, \<open>Inr\<close> the returned one. The code of a \<open>VolundError\<close> is what callers dispatch on, so
  the error of most components is the pair of its code and the dynamic part of its message.
\<close>

type_synonym code = string

datatype volund_error = Volund_Error (err_code: code) (err_detail: string)

type_synonym 'a result = "volund_error + 'a"

abbreviation throw :: "code \<Rightarrow> string \<Rightarrow> 'a result" where
  "throw c d \<equiv> Inl (Volund_Error c d)"

definition bind_result :: "'e + 'a \<Rightarrow> ('a \<Rightarrow> 'e + 'b) \<Rightarrow> 'e + 'b" where
  "bind_result r f = (case r of Inl e \<Rightarrow> Inl e | Inr x \<Rightarrow> f x)"

lemma bind_result_simps [simp]:
  "bind_result (Inl e) f = Inl e"
  "bind_result (Inr x) f = f x"
  by (simp_all add: bind_result_def)

lemma bind_result_Inr_iff:
  "bind_result r f = Inr y \<longleftrightarrow> (\<exists>x. r = Inr x \<and> f x = Inr y)"
  by (cases r) auto

lemma bind_result_Inl_iff:
  "bind_result r f = Inl e \<longleftrightarrow> r = Inl e \<or> (\<exists>x. r = Inr x \<and> f x = Inl e)"
  by (cases r) auto

fun map_result :: "('a \<Rightarrow> 'e + 'b) \<Rightarrow> 'a list \<Rightarrow> 'e + 'b list" where
  "map_result f [] = Inr []"
| "map_result f (x # xs) =
     bind_result (f x) (\<lambda>y. bind_result (map_result f xs) (\<lambda>ys. Inr (y # ys)))"

lemma map_result_Inr_length: "map_result f xs = Inr ys \<Longrightarrow> length ys = length xs"
  by (induction xs arbitrary: ys) (auto simp: bind_result_Inr_iff)

lemma map_result_Inr_nth:
  "map_result f xs = Inr ys \<Longrightarrow> i < length xs \<Longrightarrow> f (xs ! i) = Inr (ys ! i)"
  by (induction xs arbitrary: ys i) (auto simp: bind_result_Inr_iff nth_Cons split: nat.splits)

definition is_ok :: "'e + 'a \<Rightarrow> bool" where
  "is_ok r = (case r of Inl _ \<Rightarrow> False | Inr _ \<Rightarrow> True)"

lemma is_ok_simps [simp]: "is_ok (Inr x)" "\<not> is_ok (Inl e)"
  by (simp_all add: is_ok_def)

section \<open>Texts\<close>

text \<open>
  Identifiers, names and error codes are HOL strings. Text the code computes with (message text,
  prompts, documents) may hold any character, so it is the list of its character codes, and
  \<open>ascii\<close> embeds a literal.
\<close>

type_synonym ustr = "nat list"

definition ascii :: "string \<Rightarrow> ustr" where
  "ascii s = map of_char s"

lemma ascii_simps [simp]:
  "ascii [] = []"
  "ascii (c # cs) = of_char c # ascii cs"
  "ascii (s @ t) = ascii s @ ascii t"
  by (simp_all add: ascii_def)

lemma length_ascii [simp]: "length (ascii s) = length s"
  by (simp add: ascii_def)

lemma ascii_less_256: "\<forall>c \<in> set (ascii s). c < 256"
  by (auto simp: ascii_def)

fun join :: "'a list \<Rightarrow> 'a list list \<Rightarrow> 'a list" where
  "join sep [] = []"
| "join sep [x] = x"
| "join sep (x # y # zs) = x @ sep @ join sep (y # zs)"

fun starts_with :: "'a list \<Rightarrow> 'a list \<Rightarrow> bool" where
  "starts_with s [] = True"
| "starts_with [] (p # ps) = False"
| "starts_with (c # cs) (p # ps) = (c = p \<and> starts_with cs ps)"

lemma starts_with_iff: "starts_with s p \<longleftrightarrow> (\<exists>r. s = p @ r)"
  by (induction s p rule: starts_with.induct) auto

lemma starts_with_append [simp]: "starts_with (p @ r) p"
  by (auto simp: starts_with_iff)

text \<open>\<open>split\<close> on one separator character: as many pieces as separators, plus one.\<close>

fun split_on :: "'a \<Rightarrow> 'a list \<Rightarrow> 'a list list" where
  "split_on d [] = [[]]"
| "split_on d (c # cs) =
     (if c = d then [] # split_on d cs
      else (case split_on d cs of [] \<Rightarrow> [[c]] | w # ws \<Rightarrow> (c # w) # ws))"

lemma split_on_nonempty [simp]: "split_on d s \<noteq> []"
  by (induction s) (auto split: list.splits)

lemma length_split_on: "length (split_on d s) = Suc (count_list s d)"
  by (induction s) (auto split: list.splits)

lemma join_split_on: "join [d] (split_on d s) = s"
proof (induction s)
  case Nil
  then show ?case by simp
next
  case (Cons c s)
  obtain w ws where ws: "split_on d s = w # ws"
    using split_on_nonempty by (cases "split_on d s") auto
  with Cons show ?case by (cases ws) auto
qed

lemma split_on_no_sep: "w \<in> set (split_on d s) \<Longrightarrow> d \<notin> set w"
proof (induction s arbitrary: w)
  case (Cons c s)
  obtain v vs where vs: "split_on d s = v # vs"
    using split_on_nonempty by (cases "split_on d s") auto
  with Cons show ?case by (auto split: if_splits)
qed simp

lemma split_on_no_occurrence: "d \<notin> set s \<Longrightarrow> split_on d s = [s]"
  by (induction s) auto

lemma split_on_append_sep:
  "d \<notin> set w \<Longrightarrow> split_on d (w @ d # s) = w # split_on d s"
  by (induction w) auto

subsection \<open>Decimal numerals\<close>

definition digit_char :: "nat \<Rightarrow> char" where
  "digit_char d = char_of (48 + d)"

fun show_nat :: "nat \<Rightarrow> string" where
  "show_nat n = (if n < 10 then [digit_char n] else show_nat (n div 10) @ [digit_char (n mod 10)])"

declare show_nat.simps [simp del]

definition show_int :: "int \<Rightarrow> string" where
  "show_int i = (if i < 0 then ''-'' @ show_nat (nat (- i)) else show_nat (nat i))"

lemma show_nat_nonempty [simp]: "show_nat n \<noteq> []"
  by (subst show_nat.simps) simp

text \<open>An absent and an empty string are both falsy.\<close>

definition truthy :: "string option \<Rightarrow> string option" where
  "truthy s = (if s = Some [] then None else s)"

lemma truthy_Some_iff: "truthy s = Some x \<longleftrightarrow> s = Some x \<and> x \<noteq> []"
  by (auto simp: truthy_def)

text \<open>White space as \<open>trim\<close> and \<open>\s\<close> have it, up to code 255.\<close>

definition is_space :: "char \<Rightarrow> bool" where
  "is_space c \<longleftrightarrow> of_char c \<in> {9, 10, 11, 12, 13, 32, 160 :: nat}"

text \<open>\<open>toLowerCase\<close> on ASCII letters, and \<open>trim\<close>.\<close>

definition lower_char :: "char \<Rightarrow> char" where
  "lower_char c = (let n = (of_char c :: nat) in if 65 \<le> n \<and> n \<le> 90 then char_of (n + 32) else c)"

definition trim :: "string \<Rightarrow> string" where
  "trim s = rev (dropWhile is_space (rev (dropWhile is_space s)))"

text \<open>All white space, on character codes, and \<open>trim\<close>.\<close>

definition u_space :: "nat \<Rightarrow> bool" where
  "u_space c \<longleftrightarrow> c \<in> {9, 10, 11, 12, 13, 32, 160, 5760, 8232, 8233, 8239, 8287, 12288, 65279} \<or>
     8192 \<le> c \<and> c \<le> 8202"

definition u_trim :: "ustr \<Rightarrow> ustr" where
  "u_trim s = rev (dropWhile u_space (rev (dropWhile u_space s)))"

text \<open>The default of \<open>??\<close>.\<close>

definition given :: "'a option \<Rightarrow> 'a \<Rightarrow> 'a" where
  "given x d = (case x of None \<Rightarrow> d | Some v \<Rightarrow> v)"

lemma given_simps [simp]: "given None d = d" "given (Some v) d = v"
  by (simp_all add: given_def)

section \<open>A JavaScript Map in insertion order\<close>

text \<open>
  \<open>Map\<close> keeps its keys in the order of their first insertion: \<open>set\<close> of a key that is present
  replaces the value in place, of a new key appends it, and \<open>delete\<close> frees the place. The oldest
  key is the first one of \<open>keys()\<close>.
\<close>

type_synonym ('k, 'v) jsmap = "('k \<times> 'v) list"

fun map_set :: "'k \<Rightarrow> 'v \<Rightarrow> ('k, 'v) jsmap \<Rightarrow> ('k, 'v) jsmap" where
  "map_set k v [] = [(k, v)]"
| "map_set k v ((k', v') # m) = (if k = k' then (k, v) # m else (k', v') # map_set k v m)"

fun map_delete :: "'k \<Rightarrow> ('k, 'v) jsmap \<Rightarrow> ('k, 'v) jsmap" where
  "map_delete k [] = []"
| "map_delete k ((k', v') # m) = (if k = k' then m else (k', v') # map_delete k m)"

abbreviation map_get :: "('k, 'v) jsmap \<Rightarrow> 'k \<Rightarrow> 'v option" where
  "map_get \<equiv> map_of"

definition map_keys :: "('k, 'v) jsmap \<Rightarrow> 'k list" where
  "map_keys m = map fst m"

abbreviation map_values :: "('k, 'v) jsmap \<Rightarrow> 'v list" where
  "map_values m \<equiv> map snd m"

definition map_has :: "('k, 'v) jsmap \<Rightarrow> 'k \<Rightarrow> bool" where
  "map_has m k = (map_get m k \<noteq> None)"

definition map_wf :: "('k, 'v) jsmap \<Rightarrow> bool" where
  "map_wf m = distinct (map_keys m)"

lemma map_keys_simps [simp]:
  "map_keys [] = []"
  "map_keys ((k, v) # m) = k # map_keys m"
  by (simp_all add: map_keys_def)

lemma length_map_keys [simp]: "length (map_keys m) = length m"
  by (simp add: map_keys_def)

lemma map_get_set: "map_get (map_set k v m) = (map_get m)(k \<mapsto> v)"
  by (induction m) auto

lemma map_keys_set:
  "map_keys (map_set k v m) = (if k \<in> set (map_keys m) then map_keys m else map_keys m @ [k])"
  by (induction m) auto

lemma map_keys_delete: "map_keys (map_delete k m) = remove1 k (map_keys m)"
  by (induction m) auto

lemma map_get_delete: "map_wf m \<Longrightarrow> map_get (map_delete k m) = (map_get m)(k := None)"
proof (induction m)
  case (Cons p m)
  obtain k' v' where p: "p = (k', v')" by (cases p)
  have "k' \<notin> set (map_keys m) \<Longrightarrow> map_get m k' = None"
    by (auto simp: map_of_eq_None_iff map_keys_def)
  with Cons p show ?case by (auto simp: map_wf_def)
qed simp

lemma map_get_dom: "map_get m k \<noteq> None \<longleftrightarrow> k \<in> set (map_keys m)"
  by (induction m) auto

lemma map_wf_empty [simp]: "map_wf []"
  by (simp add: map_wf_def)

lemma map_wf_set [simp]: "map_wf m \<Longrightarrow> map_wf (map_set k v m)"
  by (simp add: map_wf_def map_keys_set)

lemma map_wf_delete [simp]: "map_wf m \<Longrightarrow> map_wf (map_delete k m)"
  by (simp add: map_wf_def map_keys_delete)

lemma map_set_fresh: "k \<notin> set (map_keys m) \<Longrightarrow> map_set k v m = m @ [(k, v)]"
  by (induction m) auto

lemma in_map_set: "x \<in> set (map_set k v m) \<Longrightarrow> x \<in> set m \<or> x = (k, v)"
  by (induction m) (auto split: if_splits)

lemma in_map_delete: "x \<in> set (map_delete k m) \<Longrightarrow> x \<in> set m"
  by (induction m) (auto split: if_splits)

section \<open>Insertion-ordered maps that evict their oldest key\<close>

text \<open>
  Several components bound a \<open>Map\<close> by deleting \<open>keys().next().value\<close> when it grows past its
  capacity. The contract they rely on: what \<open>keys\<close> lists after a \<open>set\<close> and a \<open>delete\<close>.
\<close>

locale insertion_map =
  fixes get :: "'m \<Rightarrow> 'k \<Rightarrow> 'v option"
    and put :: "'k \<Rightarrow> 'v \<Rightarrow> 'm \<Rightarrow> 'm"
    and del :: "'k \<Rightarrow> 'm \<Rightarrow> 'm"
    and keys :: "'m \<Rightarrow> 'k list"
    and wf :: "'m \<Rightarrow> bool"
  assumes get_put: "wf m \<Longrightarrow> get (put k v m) = (get m)(k \<mapsto> v)"
    and get_del: "wf m \<Longrightarrow> get (del k m) = (get m)(k := None)"
    and keys_put: "wf m \<Longrightarrow>
      keys (put k v m) = (if k \<in> set (keys m) then keys m else keys m @ [k])"
    and keys_del: "wf m \<Longrightarrow> keys (del k m) = remove1 k (keys m)"
    and distinct_keys: "wf m \<Longrightarrow> distinct (keys m)"
    and keys_get: "wf m \<Longrightarrow> k \<in> set (keys m) \<longleftrightarrow> get m k \<noteq> None"
    and wf_put: "wf m \<Longrightarrow> wf (put k v m)"
    and wf_del: "wf m \<Longrightarrow> wf (del k m)"
begin

lemma keys_touch:
  assumes "wf m"
  shows "keys (put k v (del k m)) = remove1 k (keys m) @ [k]"
proof -
  have "k \<notin> set (remove1 k (keys m))"
    using distinct_keys [OF assms] by simp
  then show ?thesis
    using assms by (simp add: keys_put keys_del wf_del)
qed

lemma length_keys_put:
  "wf m \<Longrightarrow> length (keys (put k v m)) \<le> Suc (length (keys m))"
  by (simp add: keys_put)

lemma keys_evict_oldest:
  assumes "wf m" and "keys m = k # ks"
  shows "keys (del (hd (keys m)) m) = ks"
  using assms by (simp add: keys_del)

text \<open>
  One insertion followed by one eviction keeps the size within the capacity, and the entry just
  inserted survives when the capacity is not zero.
\<close>

lemma evict_bounded:
  assumes "wf m" and "length (keys m) \<le> cap" and "0 < cap"
    and "m' = put k v m" and "cap < length (keys m')"
  shows "length (keys (del (hd (keys m')) m')) \<le> cap"
    and "get (del (hd (keys m')) m') k = Some v"
proof -
  have fresh: "k \<notin> set (keys m)"
    using assms by (auto simp: keys_put)
  have wf': "wf m'" using assms by (simp add: wf_put)
  have ks: "keys m' = keys m @ [k]"
    using assms fresh by (simp add: keys_put)
  have ne: "keys m \<noteq> []"
    using assms(3,5) ks by auto
  then obtain o' os where os: "keys m = o' # os" by (cases "keys m") auto
  have "keys (del (hd (keys m')) m') = os @ [k]"
    using wf' ks os by (simp add: keys_del)
  then show "length (keys (del (hd (keys m')) m')) \<le> cap"
    using assms(2) os by simp
  have "o' \<noteq> k" using fresh os by auto
  then show "get (del (hd (keys m')) m') k = Some v"
    using wf' ks os assms(1,4) by (simp add: get_del get_put)
qed

end

interpretation jm: insertion_map
  "map_of :: ('k, 'v) jsmap \<Rightarrow> 'k \<Rightarrow> 'v option" map_set map_delete map_keys map_wf
proof unfold_locales
  fix m :: "('k, 'v) jsmap" and k :: 'k and v :: 'v
  assume wf: "map_wf m"
  show "map_of (map_set k v m) = (map_of m)(k \<mapsto> v)" by (rule map_get_set)
  show "map_of (map_delete k m) = (map_of m)(k := None)" using wf by (rule map_get_delete)
  show "map_keys (map_set k v m) =
      (if k \<in> set (map_keys m) then map_keys m else map_keys m @ [k])" by (rule map_keys_set)
  show "map_keys (map_delete k m) = remove1 k (map_keys m)" by (rule map_keys_delete)
  show "distinct (map_keys m)" using wf by (simp add: map_wf_def)
  show "k \<in> set (map_keys m) \<longleftrightarrow> map_of m k \<noteq> None" by (metis map_get_dom)
  show "map_wf (map_set k v m)" using wf by simp
  show "map_wf (map_delete k m)" using wf by simp
qed

section \<open>Machines whose operations keep an invariant\<close>

text \<open>
  A component's object is driven by a sequence of calls. When each call keeps the invariant, so
  does every sequence of them: proved once here, used by every component with an invariant.
\<close>

locale invariant_machine =
  fixes step :: "'s \<Rightarrow> 'e \<Rightarrow> 's"
    and good :: "'s \<Rightarrow> bool"
  assumes step_good: "good s \<Longrightarrow> good (step s e)"
begin

lemma run_good: "good s \<Longrightarrow> good (foldl step s es)"
  by (induction es arbitrary: s) (simp_all add: step_good)

lemma run_prefix_good: "good s \<Longrightarrow> good (foldl step s (take n es))"
  by (rule run_good)

end

text \<open>The same with a quantity that no call lowers, as version counters and histories have.\<close>

locale monotone_machine = invariant_machine +
  fixes rank :: "'s \<Rightarrow> nat"
  assumes step_rank: "good s \<Longrightarrow> rank s \<le> rank (step s e)"
begin

lemma run_rank: "good s \<Longrightarrow> rank s \<le> rank (foldl step s es)"
proof (induction es arbitrary: s)
  case (Cons e es)
  have "rank s \<le> rank (step s e)" using Cons.prems by (rule step_rank)
  also have "\<dots> \<le> rank (foldl step (step s e) es)"
    using Cons.prems by (intro Cons.IH step_good)
  finally show ?case by simp
qed simp

end

end
