(* ===== verification/Turn_Queue.thy ===== *)
theory Turn_Queue
  imports Prelude
begin

text \<open>
  The serial gate of the gateway (\<open>packages/gateway-server/src/queue.ts\<close>): chat completions and
  WebSocket turns share one FIFO lock made of a chain of promises. A call of \<open>acquire\<close> is
  modelled by the steps at which JavaScript can interleave it with others: the call itself
  (it reads \<open>tail\<close> and replaces it), the continuation after \<open>Promise.race\<close> when the previous
  promise is settled, the timer, and the call of the release closure.
\<close>

section \<open>State and operations\<close>

datatype phase = Waiting | Holding | Released | Timed_Out

text \<open>
  One record per call of \<open>acquire\<close>: the promise it waits for (\<open>None\<close> is the initial
  \<open>Promise.resolve()\<close>), whether its own promise has been resolved, and how far it is.
\<close>

record ticket =
  previous :: "nat option"
  resolved :: bool
  phase :: phase

record turn_queue =
  tail_ticket :: "nat option"
  depth :: int
  tickets :: "ticket list"

definition new_queue :: turn_queue where
  "new_queue = \<lparr>tail_ticket = None, depth = 0, tickets = []\<rparr>"

definition locked :: "turn_queue \<Rightarrow> bool" where
  "locked q = (0 < depth q)"

text \<open>The promise a ticket waits for has been resolved.\<close>

definition previous_resolved :: "turn_queue \<Rightarrow> nat \<Rightarrow> bool" where
  "previous_resolved q t =
     (case previous (tickets q ! t) of None \<Rightarrow> True
      | Some p \<Rightarrow> p < length (tickets q) \<and> resolved (tickets q ! p))"

definition set_ticket :: "nat \<Rightarrow> ticket \<Rightarrow> turn_queue \<Rightarrow> turn_queue" where
  "set_ticket t k q = q\<lparr>tickets := (tickets q)[t := k]\<rparr>"

definition acquire :: "turn_queue \<Rightarrow> turn_queue" where
  "acquire q = q\<lparr>tail_ticket := Some (length (tickets q)),
     tickets := tickets q @ [\<lparr>previous = tail_ticket q, resolved = False, phase = Waiting\<rparr>]\<rparr>"

definition acquire_granted :: "nat \<Rightarrow> turn_queue \<Rightarrow> turn_queue" where
  "acquire_granted t q =
     (if t < length (tickets q) \<and> phase (tickets q ! t) = Waiting \<and> previous_resolved q t
      then (set_ticket t ((tickets q ! t)\<lparr>phase := Holding\<rparr>) q)\<lparr>depth := depth q + 1\<rparr>
      else q)"

text \<open>
  The timer rejects the race only while the previous promise is pending: a settled promise wins
  the race in the microtask queue before any timer callback runs. The catch block then resolves
  the ticket's own promise.
\<close>

definition acquire_timed_out :: "nat \<Rightarrow> turn_queue \<Rightarrow> turn_queue" where
  "acquire_timed_out t q =
     (if t < length (tickets q) \<and> phase (tickets q ! t) = Waiting \<and> \<not> previous_resolved q t
      then set_ticket t ((tickets q ! t)\<lparr>phase := Timed_Out, resolved := True\<rparr>) q
      else q)"

text \<open>The closure returned by \<open>acquire\<close>; a second call finds \<open>released\<close> set and does nothing.\<close>

definition release :: "nat \<Rightarrow> turn_queue \<Rightarrow> turn_queue" where
  "release t q =
     (if t < length (tickets q) \<and> phase (tickets q ! t) = Holding
      then (set_ticket t ((tickets q ! t)\<lparr>phase := Released, resolved := True\<rparr>) q)
             \<lparr>depth := depth q - 1\<rparr>
      else q)"

datatype queue_event = Acquire | Grant nat | Timeout nat | Release nat

fun queue_step :: "turn_queue \<Rightarrow> queue_event \<Rightarrow> turn_queue" where
  "queue_step q Acquire = acquire q"
| "queue_step q (Grant t) = acquire_granted t q"
| "queue_step q (Timeout t) = acquire_timed_out t q"
| "queue_step q (Release t) = release t q"

definition run_queue :: "queue_event list \<Rightarrow> turn_queue" where
  "run_queue es = foldl queue_step new_queue es"

definition holders :: "turn_queue \<Rightarrow> nat" where
  "holders q = count_list (map phase (tickets q)) Holding"

definition timeouts :: "turn_queue \<Rightarrow> nat" where
  "timeouts q = count_list (map phase (tickets q)) Timed_Out"

lemmas queue_defs [model_simps] =
  acquire_def acquire_granted_def acquire_timed_out_def release_def set_ticket_def

section \<open>The chain invariant\<close>

text \<open>
  A ticket waits for the ticket created just before it; its promise is resolved exactly when it
  was released or timed out; and it got past waiting only after its predecessor's promise was
  resolved.
\<close>

definition done_with :: "phase \<Rightarrow> bool" where
  "done_with p = (p = Released \<or> p = Timed_Out)"

definition chain_inv :: "turn_queue \<Rightarrow> bool" where
  "chain_inv q \<longleftrightarrow>
     tail_ticket q = (if tickets q = [] then None else Some (length (tickets q) - 1)) \<and>
     depth q = int (holders q) \<and>
     (\<forall>t < length (tickets q).
        previous (tickets q ! t) = (if t = 0 then None else Some (t - 1)) \<and>
        resolved (tickets q ! t) = done_with (phase (tickets q ! t)) \<and>
        (phase (tickets q ! t) \<in> {Holding, Released} \<longrightarrow> 0 < t \<longrightarrow>
           done_with (phase (tickets q ! (t - 1)))))"

lemma count_list_update:
  "i < length xs \<Longrightarrow> int (count_list (xs[i := y]) z) =
    int (count_list xs z) - (if xs ! i = z then 1 else 0) + (if y = z then 1 else 0)"
proof (induction xs arbitrary: i)
  case (Cons x xs)
  show ?case
  proof (cases i)
    case (Suc j)
    with Cons.prems have "j < length xs" by simp
    from Cons.IH [OF this] Suc show ?thesis
      by (cases "xs ! j = z"; cases "y = z"; simp)
  qed simp
qed simp

lemma map_phase_update: "map phase (ts[t := k]) = (map phase ts)[t := phase k]"
  by (simp add: map_update)

lemma chain_inv_new: "chain_inv new_queue"
  by (simp add: chain_inv_def new_queue_def holders_def)

lemma chain_inv_acquire: "chain_inv q \<Longrightarrow> chain_inv (acquire q)"
  unfolding chain_inv_def
  by (auto simp: acquire_def holders_def nth_append done_with_def less_Suc_eq)

text \<open>Changing the phase of one ticket keeps the chain when the new phase is justified.\<close>

lemma chain_inv_update:
  assumes inv: "chain_inv q" and t: "t < length (tickets q)"
    and p: "p = Holding \<and> 0 < t \<longrightarrow> done_with (phase (tickets q ! (t - 1)))"
    and from_to: "(phase (tickets q ! t), p) \<in>
        {(Waiting, Holding), (Waiting, Timed_Out), (Holding, Released)}"
  shows "chain_inv ((set_ticket t ((tickets q ! t)\<lparr>phase := p, resolved := done_with p\<rparr>) q)
     \<lparr>depth := depth q + (if p = Holding then 1 else 0) - (if p = Released then 1 else 0)\<rparr>)"
  (is "chain_inv ?q'")
proof -
  have old: "\<And>s. s < length (tickets q) \<Longrightarrow>
      previous (tickets q ! s) = (if s = 0 then None else Some (s - 1)) \<and>
      resolved (tickets q ! s) = done_with (phase (tickets q ! s)) \<and>
      (phase (tickets q ! s) \<in> {Holding, Released} \<longrightarrow> 0 < s \<longrightarrow>
         done_with (phase (tickets q ! (s - 1))))"
    using inv by (simp add: chain_inv_def)
  have depth: "depth ?q' = int (holders ?q')"
    using inv t from_to
    by (auto simp: chain_inv_def set_ticket_def holders_def map_phase_update count_list_update)
  have notdone: "\<not> done_with (phase (tickets q ! t))"
    using from_to by (auto simp: done_with_def)
  have "previous (tickets ?q' ! s) = (if s = 0 then None else Some (s - 1)) \<and>
      resolved (tickets ?q' ! s) = done_with (phase (tickets ?q' ! s)) \<and>
      (phase (tickets ?q' ! s) \<in> {Holding, Released} \<longrightarrow> 0 < s \<longrightarrow>
         done_with (phase (tickets ?q' ! (s - 1))))"
    if s: "s < length (tickets ?q')" for s
  proof (cases "s = t")
    case True
    with old [OF t] t from_to p show ?thesis
      by (auto simp: set_ticket_def nth_list_update)
  next
    case False
    with s have "s < length (tickets q)" by (simp add: set_ticket_def)
    with old [OF this] False t notdone show ?thesis
      by (auto simp: set_ticket_def nth_list_update)
  qed
  with inv depth show ?thesis
    by (simp add: chain_inv_def set_ticket_def)
qed

lemma previous_resolved_chain:
  assumes "chain_inv q" and "t < length (tickets q)"
  shows "previous_resolved q t \<longleftrightarrow> t = 0 \<or> done_with (phase (tickets q ! (t - 1)))"
  using assms by (auto simp: previous_resolved_def chain_inv_def)

lemma chain_inv_granted:
  assumes inv: "chain_inv q"
  shows "chain_inv (acquire_granted t q)"
proof (cases "t < length (tickets q) \<and> phase (tickets q ! t) = Waiting \<and> previous_resolved q t")
  case True
  then have "\<not> resolved (tickets q ! t)"
    using inv by (simp add: chain_inv_def done_with_def)
  then have same: "(tickets q ! t)\<lparr>phase := Holding, resolved := done_with Holding\<rparr>
      = (tickets q ! t)\<lparr>phase := Holding\<rparr>"
    by (simp add: done_with_def)
  have "0 < t \<longrightarrow> done_with (phase (tickets q ! (t - 1)))"
    using True previous_resolved_chain [OF inv] by blast
  with True chain_inv_update [OF inv, of t Holding] show ?thesis
    unfolding same by (simp add: acquire_granted_def)
qed (use inv in \<open>auto simp: acquire_granted_def\<close>)

lemma chain_inv_timed_out: "chain_inv q \<Longrightarrow> chain_inv (acquire_timed_out t q)"
  using chain_inv_update [of q t Timed_Out]
  by (auto simp: acquire_timed_out_def done_with_def set_ticket_def)

lemma chain_inv_release: "chain_inv q \<Longrightarrow> chain_inv (release t q)"
  using chain_inv_update [of q t Released]
  by (auto simp: release_def done_with_def)

lemma chain_inv_step [keeps]: "chain_inv q \<Longrightarrow> chain_inv (queue_step q e)"
  by (cases e) (simp_all add: chain_inv_acquire chain_inv_granted chain_inv_timed_out
      chain_inv_release)

interpretation tq: invariant_machine queue_step chain_inv
  by unfold_locales (rule chain_inv_step)

lemma run_queue_inv: "chain_inv (run_queue es)"
  unfolding run_queue_def by (rule tq.run_good) (rule chain_inv_new)

section \<open>How many callers hold the lock\<close>

text \<open>
  A list of phases linked like the tickets: behind a released or timed out end, there are at most
  as many holders as timeouts; in general at most one more.
\<close>

definition linked :: "phase list \<Rightarrow> bool" where
  "linked ps \<longleftrightarrow> (\<forall>t < length ps. ps ! t \<in> {Holding, Released} \<longrightarrow> 0 < t \<longrightarrow>
     done_with (ps ! (t - 1)))"

lemma linked_butlast: "linked (ps @ [p]) \<Longrightarrow> linked ps"
  unfolding linked_def
proof (intro allI impI)
  fix t
  assume l: "\<forall>t < length (ps @ [p]). (ps @ [p]) ! t \<in> {Holding, Released} \<longrightarrow> 0 < t \<longrightarrow>
      done_with ((ps @ [p]) ! (t - 1))"
    and t: "t < length ps" "ps ! t \<in> {Holding, Released}" "0 < t"
  from l [rule_format, of t] t show "done_with (ps ! (t - 1))"
    by (auto simp: nth_append split: if_splits)
qed

lemma linked_last:
  "linked (ps @ [p]) \<Longrightarrow> p \<in> {Holding, Released} \<Longrightarrow> ps \<noteq> [] \<Longrightarrow> done_with (last ps)"
  by (auto simp: linked_def nth_append last_conv_nth dest: spec [of _ "length ps"])

lemma linked_count:
  "linked ps \<Longrightarrow>
     count_list ps Holding \<le> Suc (count_list ps Timed_Out) \<and>
     (ps = [] \<or> done_with (last ps) \<longrightarrow> count_list ps Holding \<le> count_list ps Timed_Out)"
proof (induction ps rule: rev_induct)
  case Nil
  then show ?case by simp
next
  case (snoc p ps)
  note IH = snoc.IH [OF linked_butlast [OF snoc.prems]]
  have "p \<in> {Holding, Released} \<Longrightarrow> count_list ps Holding \<le> count_list ps Timed_Out"
    using IH linked_last [OF snoc.prems] by blast
  with IH show ?case
    by (cases p) (auto simp: done_with_def)
qed

lemma chain_inv_linked: "chain_inv q \<Longrightarrow> linked (map phase (tickets q))"
  by (auto simp: chain_inv_def linked_def)

lemma timeouts_step:
  assumes "\<And>t. e \<noteq> Timeout t"
  shows "timeouts (queue_step q e) = timeouts q"
proof -
  have upd: "int (timeouts (set_ticket t k q)) = int (timeouts q)"
    if "t < length (tickets q)" "phase (tickets q ! t) \<noteq> Timed_Out" "phase k \<noteq> Timed_Out" for t k
    using that by (simp add: timeouts_def set_ticket_def map_phase_update count_list_update)
  show ?thesis
    using assms upd
    by (cases e) (auto simp: acquire_def acquire_granted_def release_def timeouts_def)
qed

lemma timeouts_run:
  "(\<forall>t. Timeout t \<notin> set es) \<Longrightarrow> timeouts (foldl queue_step q es) = timeouts q"
proof (induction es arbitrary: q)
  case (Cons e es)
  then have "timeouts (queue_step q e) = timeouts q"
    by (intro timeouts_step) auto
  with Cons show ?case by simp
qed simp

section \<open>Properties\<close>

text \<open>
  The number of callers inside the gate never exceeds one plus the number of acquisitions
  that timed out so far, in every interleaving of calls, grants, timeouts and releases; and
  \<open>depth\<close>, the source of the \<open>turnRunning\<close> flag, is exactly the number of callers inside.
\<close>
theorem holders_bounded_by_timeouts:
  "holders (run_queue es) \<le> Suc (timeouts (run_queue es)) \<and>
   depth (run_queue es) = int (holders (run_queue es)) \<and>
   locked (run_queue es) = (0 < holders (run_queue es))"
proof -
  have inv: "chain_inv (run_queue es)" by (rule run_queue_inv)
  then have "depth (run_queue es) = int (holders (run_queue es))"
    by (simp add: chain_inv_def)
  moreover have "holders (run_queue es) \<le> Suc (timeouts (run_queue es))"
    using linked_count [OF chain_inv_linked [OF inv]] by (simp add: holders_def timeouts_def)
  ultimately show ?thesis by (simp add: locked_def)
qed

text \<open>
  C1. While no acquisition times out the gate is a mutual exclusion lock: at most one caller is
  inside, in every interleaving.
\<close>
theorem exclusive_without_timeouts:
  assumes "\<forall>t. Timeout t \<notin> set es"
  shows "holders (run_queue es) \<le> 1"
proof -
  have "timeouts (run_queue es) = 0"
    using timeouts_run [OF assms, of new_queue]
    by (simp add: run_queue_def timeouts_def new_queue_def)
  moreover have "holders (run_queue es) \<le> Suc (timeouts (run_queue es))"
    using linked_count [OF chain_inv_linked [OF run_queue_inv]]
    by (simp add: holders_def timeouts_def)
  ultimately show ?thesis by simp
qed

theorem exclusive_without_timeouts_witness:
  "holders (run_queue [Acquire, Grant 0, Acquire, Grant 1, Release 0, Grant 1]) \<le> 1 \<and>
   holders (run_queue [Acquire, Grant 0, Acquire, Grant 1, Release 0, Grant 1]) = 1"
  using exclusive_without_timeouts [of "[Acquire, Grant 0, Acquire, Grant 1, Release 0, Grant 1]"]
  by (simp add: run_queue_def new_queue_def queue_defs holders_def previous_resolved_def)

text \<open>
  A timeout breaks the mutual exclusion: the caller that gives up resolves its own promise,
  which lets the next caller in while the first one is still inside. Three callers suffice.
\<close>
theorem timeout_admits_second_holder:
  "\<exists>es. holders (run_queue es) = 2 \<and> timeouts (run_queue es) = 1 \<and> length es = 6"
  by (rule exI [of _ "[Acquire, Grant 0, Acquire, Timeout 1, Acquire, Grant 2]"])
    (simp add: run_queue_def new_queue_def queue_defs holders_def timeouts_def
      previous_resolved_def)

text \<open>
  C2. The gate never deadlocks: in every reachable state with a waiting caller, either some
  caller is inside or the earliest waiting caller can be let in.
\<close>
theorem waiting_caller_makes_progress:
  assumes "t < length (tickets (run_queue es))"
    and "phase (tickets (run_queue es) ! t) = Waiting"
    and "\<forall>s < t. phase (tickets (run_queue es) ! s) \<noteq> Waiting"
    and "holders (run_queue es) = 0"
  shows "phase (tickets (acquire_granted t (run_queue es)) ! t) = Holding"
proof -
  let ?q = "run_queue es"
  have no_holder: "phase (tickets ?q ! s) \<noteq> Holding" if "s < length (tickets ?q)" for s
  proof
    assume "phase (tickets ?q ! s) = Holding"
    with that have "Holding \<in> set (map phase (tickets ?q))"
      by (metis in_set_conv_nth length_map nth_map)
    with assms(4) show False by (simp add: holders_def count_list_0_iff)
  qed
  have "t = 0 \<or> done_with (phase (tickets ?q ! (t - 1)))"
  proof (cases t)
    case (Suc u)
    with assms(1,3) no_holder [of u] show ?thesis
      by (cases "phase (tickets ?q ! u)") (auto simp: done_with_def)
  qed simp
  then have "previous_resolved ?q t"
    using previous_resolved_chain [OF run_queue_inv assms(1)] by simp
  with assms(1,2) show ?thesis
    by (simp add: acquire_granted_def set_ticket_def)
qed

theorem waiting_caller_makes_progress_witness:
  "phase (tickets (acquire_granted 1 (run_queue [Acquire, Grant 0, Acquire, Release 0])) ! 1)
     = Holding"
  by (rule waiting_caller_makes_progress)
    (simp_all add: run_queue_def new_queue_def queue_defs holders_def previous_resolved_def)

end
