(* ===== verification/Diff.thy ===== *)
theory Diff
  imports Prelude "HOL-Library.Sublist"
begin

text \<open>
  The line diff of \<open>packages/shared/src/diff.ts\<close>: common prefix and suffix are trimmed, the middle
  is diffed over a longest-common-subsequence table (or replaced wholesale above the size guard),
  and the operations are grouped into unified hunks. The lemmas relate the table filled by the
  nested loops to the recursive definition, the walk over it to optimal edit scripts, and the
  hunk loop to the positions its headers name.
\<close>

section \<open>Lines and operations\<close>

datatype op_type = Add | Del | Context

record diff_line_op =
  op_type :: op_type
  op_text :: string

record diff_hunk =
  hunk_header :: string
  hunk_lines :: "diff_line_op list"

abbreviation mk_op :: "op_type \<Rightarrow> string \<Rightarrow> diff_line_op" where
  "mk_op k s \<equiv> \<lparr>op_type = k, op_text = s\<rparr>"

definition lcs_cell_limit :: nat where
  "lcs_cell_limit = 4000000"

definition newline :: char where
  "newline = CHR 0x0A"

definition split_lines :: "string \<Rightarrow> string list" where
  "split_lines content =
     (if content = [] then []
      else let lines = split_on newline content
           in if 1 < length lines \<and> last lines = [] then butlast lines else lines)"

section \<open>The longest-common-subsequence table\<close>

text \<open>
  The two descending loops that fill the table (a flat array of rows of \<open>width\<close> cells), then the
  walk from its first cell. The array has 32-bit cells; \<open>table_fits\<close> below shows that no cell the
  loops write exceeds them.
\<close>

fun fill_row :: "string list \<Rightarrow> string list \<Rightarrow> nat \<Rightarrow> nat \<Rightarrow> nat list \<Rightarrow> nat list" where
  "fill_row a b i 0 table = table"
| "fill_row a b i (Suc j) table =
     (let width = length b + 1 in
      fill_row a b i j
        (table[i * width + j :=
           (if a ! i = b ! j then table ! ((i + 1) * width + j + 1) + 1
            else max (table ! ((i + 1) * width + j)) (table ! (i * width + j + 1)))]))"

fun fill_table :: "string list \<Rightarrow> string list \<Rightarrow> nat \<Rightarrow> nat list \<Rightarrow> nat list" where
  "fill_table a b 0 table = table"
| "fill_table a b (Suc i) table = fill_table a b i (fill_row a b i (length b) table)"

function walk_table ::
  "string list \<Rightarrow> string list \<Rightarrow> nat list \<Rightarrow> nat \<Rightarrow> nat \<Rightarrow> diff_line_op list" where
  "walk_table a b table i j =
     (let width = length b + 1 in
      if i < length a \<and> j < length b then
        (if a ! i = b ! j then mk_op Context (a ! i) # walk_table a b table (Suc i) (Suc j)
         else if table ! ((i + 1) * width + j) \<ge> table ! (i * width + j + 1)
         then mk_op Del (a ! i) # walk_table a b table (Suc i) j
         else mk_op Add (b ! j) # walk_table a b table i (Suc j))
      else map (mk_op Del) (drop i a) @ map (mk_op Add) (drop j b))"
  by pat_completeness auto
termination
  by (relation "measure (\<lambda>(a, b, _, i, j). (length a - i) + (length b - j))") auto

declare walk_table.simps [simp del]

definition append_lcs_ops :: "string list \<Rightarrow> string list \<Rightarrow> diff_line_op list" where
  "append_lcs_ops a b =
     (let table = fill_table a b (length a) (replicate ((length a + 1) * (length b + 1)) 0)
      in walk_table a b table 0 0)"

section \<open>The diff of two texts\<close>

function scan_prefix :: "string list \<Rightarrow> string list \<Rightarrow> nat \<Rightarrow> nat" where
  "scan_prefix a b start =
     (if start < length a \<and> start < length b \<and> a ! start = b ! start
      then scan_prefix a b (Suc start) else start)"
  by pat_completeness auto
termination
  by (relation "measure (\<lambda>(a, b, start). length a - start)") auto

fun scan_suffix :: "string list \<Rightarrow> string list \<Rightarrow> nat \<Rightarrow> nat \<Rightarrow> nat \<Rightarrow> nat \<times> nat" where
  "scan_suffix a b start end_a end_b =
     (if start < end_a \<and> start < end_b \<and> a ! (end_a - 1) = b ! (end_b - 1)
      then scan_suffix a b start (end_a - 1) (end_b - 1) else (end_a, end_b))"

declare scan_prefix.simps [simp del] scan_suffix.simps [simp del]

definition slice :: "'a list \<Rightarrow> nat \<Rightarrow> nat \<Rightarrow> 'a list" where
  "slice xs i j = take (j - i) (drop i xs)"

definition diff_line_ops :: "string \<Rightarrow> string \<Rightarrow> diff_line_op list" where
  "diff_line_ops before after =
     (if before = after then []
      else let a = split_lines before; b = split_lines after;
               start = scan_prefix a b 0;
               (end_a, end_b) = scan_suffix a b start (length a) (length b);
               mid_a = slice a start end_a; mid_b = slice b start end_b
           in map (mk_op Context) (take start a)
              @ (if length mid_a * length mid_b \<le> lcs_cell_limit then append_lcs_ops mid_a mid_b
                 else map (mk_op Del) mid_a @ map (mk_op Add) mid_b)
              @ map (mk_op Context) (drop end_a a))"

fun count_diff_lines :: "diff_line_op list \<Rightarrow> nat \<times> nat" where
  "count_diff_lines [] = (0, 0)"
| "count_diff_lines (x # ops) =
     (let (added, removed) = count_diff_lines ops
      in case op_type x of Add \<Rightarrow> (added + 1, removed) | Del \<Rightarrow> (added, removed + 1)
         | Context \<Rightarrow> (added, removed))"

section \<open>Unified hunks\<close>

definition range_header :: "nat \<Rightarrow> nat \<Rightarrow> string" where
  "range_header start count =
     (if count = 0 then show_nat (start - 1) @ '',0''
      else if count = 1 then show_nat start else show_nat start @ '','' @ show_nat count)"

text \<open>The effect of one operation on the pair of the old and the new line number.\<close>

definition advance_line :: "diff_line_op \<Rightarrow> nat \<times> nat \<Rightarrow> nat \<times> nat" where
  "advance_line x l = (case op_type x of Add \<Rightarrow> (fst l, snd l + 1) | Del \<Rightarrow> (fst l + 1, snd l)
     | Context \<Rightarrow> (fst l + 1, snd l + 1))"

definition change_indices :: "diff_line_op list \<Rightarrow> nat list" where
  "change_indices ops = filter (\<lambda>i. op_type (ops ! i) \<noteq> Context) [0..<length ops]"

function extend_group :: "nat list \<Rightarrow> nat \<Rightarrow> nat \<Rightarrow> nat \<Rightarrow> nat \<times> nat" where
  "extend_group changes context' final group_end =
     (if final + 1 < length changes \<and> changes ! (final + 1) - group_end \<le> context' * 2
      then extend_group changes context' (final + 1) (changes ! (final + 1))
      else (final, group_end))"
  by pat_completeness auto
termination
  by (relation "measure (\<lambda>(changes, _, final, _). length changes - final)") auto

declare extend_group.simps [simp del]

lemma extend_group_last: "final \<le> fst (extend_group changes c final e)"
proof (induction changes c final e rule: extend_group.induct)
  case (1 changes c final e)
  then show ?case by (subst extend_group.simps) (auto dest: Suc_leD)
qed

function hunk_loop ::
  "diff_line_op list \<Rightarrow> nat list \<Rightarrow> nat \<Rightarrow> nat \<Rightarrow> nat \<Rightarrow> nat \<times> nat \<Rightarrow> diff_hunk list" where
  "hunk_loop ops changes context' index cursor lines =
     (if index < length changes then
        let group_start = changes ! index;
            (final, group_end) = extend_group changes context' index group_start;
            from_pos = group_start - context';
            to_pos = min (length ops) (group_end + 1 + context');
            (old_start, new_start) = fold advance_line (slice ops cursor from_pos) lines;
            hunk = slice ops from_pos to_pos;
            (old_count, new_count) = fold advance_line hunk (0, 0)
        in \<lparr>hunk_header = ''-'' @ range_header old_start old_count @ '' +''
              @ range_header new_start new_count, hunk_lines = hunk\<rparr>
           # hunk_loop ops changes context' (final + 1) to_pos
               (old_start + old_count, new_start + new_count)
      else [])"
  by pat_completeness auto
termination
proof (relation "measure (\<lambda>(_, changes, _, index, _). length changes - index)", goal_cases)
  case (2 ops changes c index cursor lines _ p final group_end)
  then have "index \<le> final"
    using extend_group_last [of index changes c "changes ! index"] by (metis fst_conv)
  with 2 show ?case by simp
qed simp

declare hunk_loop.simps [simp del]

definition unified_diff_hunks :: "diff_line_op list \<Rightarrow> nat \<Rightarrow> diff_hunk list" where
  "unified_diff_hunks ops context' =
     (let changes = change_indices ops
      in if changes = [] then [] else hunk_loop ops changes context' 0 0 (1, 1))"

definition unified_diff :: "string \<Rightarrow> string \<Rightarrow> nat \<Rightarrow> diff_hunk list \<times> nat \<times> nat" where
  "unified_diff before after context' =
     (let ops = diff_line_ops before after
      in (unified_diff_hunks ops context', count_diff_lines ops))"

definition op_marker :: "op_type \<Rightarrow> string" where
  "op_marker k = (case k of Add \<Rightarrow> ''+'' | Del \<Rightarrow> ''-'' | Context \<Rightarrow> '' '')"

definition format_unified_diff :: "string \<Rightarrow> diff_hunk list \<Rightarrow> string" where
  "format_unified_diff path hunks =
     (if hunks = [] then []
      else join [newline]
        ([''--- '' @ path, ''+++ '' @ path] @
         concat (map (\<lambda>h. (''@@ '' @ hunk_header h @ '' @@'') #
           map (\<lambda>x. op_marker (op_type x) @ op_text x) (hunk_lines h)) hunks)))"

section \<open>Edit scripts\<close>

text \<open>
  The two sides of a sequence of operations (what a reader of the diff sees as the old and the
  new file) and its cost. A script for \<open>a\<close> and \<open>b\<close> is any sequence with these sides.
\<close>

definition old_side :: "diff_line_op list \<Rightarrow> string list" where
  "old_side ops = map op_text (filter (\<lambda>x. op_type x \<noteq> Add) ops)"

definition new_side :: "diff_line_op list \<Rightarrow> string list" where
  "new_side ops = map op_text (filter (\<lambda>x. op_type x \<noteq> Del) ops)"

definition kept :: "diff_line_op list \<Rightarrow> string list" where
  "kept ops = map op_text (filter (\<lambda>x. op_type x = Context) ops)"

definition changed_lines :: "diff_line_op list \<Rightarrow> nat" where
  "changed_lines ops = length (filter (\<lambda>x. op_type x \<noteq> Context) ops)"

definition script_for :: "string list \<Rightarrow> string list \<Rightarrow> diff_line_op list \<Rightarrow> bool" where
  "script_for a b ops = (old_side ops = a \<and> new_side ops = b)"

lemmas side_defs = old_side_def new_side_def kept_def changed_lines_def

lemma sides_append [simp]:
  "old_side (xs @ ys) = old_side xs @ old_side ys"
  "new_side (xs @ ys) = new_side xs @ new_side ys"
  "kept (xs @ ys) = kept xs @ kept ys"
  by (simp_all add: side_defs)

lemma sides_map_op [simp]:
  "old_side (map (mk_op Context) ls) = ls" "new_side (map (mk_op Context) ls) = ls"
  "kept (map (mk_op Context) ls) = ls"
  "old_side (map (mk_op Del) ls) = ls" "new_side (map (mk_op Del) ls) = []"
  "kept (map (mk_op Del) ls) = []"
  "old_side (map (mk_op Add) ls) = []" "new_side (map (mk_op Add) ls) = ls"
  "kept (map (mk_op Add) ls) = []"
  by (induction ls) (simp_all add: side_defs)

lemma sides_Cons [simp]:
  "old_side (x # ops) = (if op_type x = Add then old_side ops else op_text x # old_side ops)"
  "new_side (x # ops) = (if op_type x = Del then new_side ops else op_text x # new_side ops)"
  "kept (x # ops) = (if op_type x = Context then op_text x # kept ops else kept ops)"
  by (simp_all add: side_defs)

lemma sides_Nil [simp]: "old_side [] = []" "new_side [] = []" "kept [] = []"
  by (simp_all add: side_defs)

lemma kept_subseq: "subseq (kept ops) (old_side ops) \<and> subseq (kept ops) (new_side ops)"
proof (induction ops)
  case (Cons x ops)
  then show ?case by (cases "op_type x") auto
qed simp

lemma changed_lines_eq:
  "changed_lines ops + 2 * length (kept ops) = length (old_side ops) + length (new_side ops)"
proof (induction ops)
  case (Cons x ops)
  then show ?case by (cases "op_type x") (auto simp: changed_lines_def)
qed (simp add: changed_lines_def)

lemma count_diff_lines_eq:
  "count_diff_lines ops =
     (length (filter (\<lambda>x. op_type x = Add) ops), length (filter (\<lambda>x. op_type x = Del) ops))"
proof (induction ops)
  case (Cons x ops)
  then show ?case by (cases "op_type x") simp_all
qed simp

section \<open>Longest common subsequences\<close>

fun lcs :: "'a list \<Rightarrow> 'a list \<Rightarrow> nat" where
  "lcs [] ys = 0"
| "lcs (x # xs) [] = 0"
| "lcs (x # xs) (y # ys) =
     (if x = y then lcs xs ys + 1 else max (lcs xs (y # ys)) (lcs (x # xs) ys))"

lemma lcs_Nil2 [simp]: "lcs xs [] = 0"
  by (cases xs) simp_all

lemma lcs_le: "lcs xs ys \<le> length xs \<and> lcs xs ys \<le> length ys"
  by (induction xs ys rule: lcs.induct) auto

lemma lcs_attained: "\<exists>zs. subseq zs xs \<and> subseq zs ys \<and> length zs = lcs xs ys"
proof (induction xs ys rule: lcs.induct)
  case (3 x xs y ys)
  show ?case
  proof (cases "x = y")
    case True
    with 3 obtain zs where "subseq zs xs" "subseq zs ys" "length zs = lcs xs ys" by auto
    with True show ?thesis by (intro exI [of _ "x # zs"]) simp
  next
    case False
    with 3 obtain us vs where
      "subseq us xs" "subseq us (y # ys)" "length us = lcs xs (y # ys)"
      "subseq vs (x # xs)" "subseq vs ys" "length vs = lcs (x # xs) ys" by auto
    with False show ?thesis by (auto simp: max_def intro: exI [of _ us] exI [of _ vs])
  qed
qed auto

lemma lcs_maximal: "subseq zs xs \<Longrightarrow> subseq zs ys \<Longrightarrow> length zs \<le> lcs xs ys"
proof (induction xs ys arbitrary: zs rule: lcs.induct)
  case (3 x xs y ys)
  show ?case
  proof (cases zs)
    case (Cons z zs')
    show ?thesis
    proof (cases "x = y")
      case True
      have "subseq zs' xs" "subseq zs' ys"
        using "3.prems" Cons True
        by (auto split: if_splits dest: subseq_Cons')
      with "3.IH"(1) True Cons show ?thesis by simp
    next
      case False
      show ?thesis
      proof (cases "z = x")
        case True
        then have "subseq zs ys" using "3.prems"(2) Cons False by simp
        with "3.IH"(3) [OF False "3.prems"(1)] False show ?thesis by simp
      next
        case z: False
        then have "subseq zs xs" using "3.prems"(1) Cons by simp
        with "3.IH"(2) [OF False _ "3.prems"(2)] False show ?thesis by simp
      qed
    qed
  qed simp
qed simp_all

lemma lcs_eqI:
  assumes "\<And>zs. subseq zs xs \<Longrightarrow> subseq zs ys \<Longrightarrow> \<exists>zs'. subseq zs' us \<and> subseq zs' vs \<and> length zs \<le> length zs'"
  shows "lcs xs ys \<le> lcs us vs"
  using lcs_attained [of xs ys] lcs_maximal [of _ us vs] assms by (metis order.trans)

lemma subseq_reversed: "subseq zs xs \<Longrightarrow> subseq (rev zs) (rev xs)"
  by (induction rule: list_emb.induct)
    (auto intro: subseq_rev_drop_many list_emb_append_mono)

lemma lcs_rev: "lcs (rev xs) (rev ys) = lcs xs ys"
proof -
  have "lcs (rev us) (rev vs) \<le> lcs us vs" for us vs :: "'a list"
  proof (rule lcs_eqI)
    fix zs assume "subseq zs (rev us)" "subseq zs (rev vs)"
    then have "subseq (rev zs) us" "subseq (rev zs) vs"
      by (metis rev_rev_ident subseq_reversed)+
    then show "\<exists>zs'. subseq zs' us \<and> subseq zs' vs \<and> length zs \<le> length zs'"
      by (intro exI [of _ "rev zs"]) simp
  qed
  from this [of xs ys] this [of "rev xs" "rev ys"] show ?thesis by simp
qed

lemma lcs_prefix: "lcs (ps @ xs) (ps @ ys) = length ps + lcs xs ys"
  by (induction ps) simp_all

lemma lcs_suffix: "lcs (xs @ ss) (ys @ ss) = lcs xs ys + length ss"
  using lcs_prefix [of "rev ss" "rev xs" "rev ys"] lcs_rev [of "xs @ ss" "ys @ ss"]
    lcs_rev [of xs ys] by simp

text \<open>No script changes fewer lines than the subsequence bound.\<close>

lemma script_cost_lower_bound:
  assumes "script_for a b ops"
  shows "length a + length b - 2 * lcs a b \<le> changed_lines ops"
proof -
  have "length (kept ops) \<le> lcs a b"
    using kept_subseq [of ops] assms by (auto simp: script_for_def intro: lcs_maximal)
  with changed_lines_eq [of ops] assms show ?thesis
    by (simp add: script_for_def)
qed

section \<open>The table and the walk\<close>

text \<open>
  Row-major cell addresses are unambiguous, so an update of one cell leaves the others alone; the
  invariant of the two loops says which cells already hold the subsequence lengths.
\<close>

definition addr :: "string list \<Rightarrow> nat \<Rightarrow> nat \<Rightarrow> nat" where
  "addr b i j = i * (length b + 1) + j"

lemma addr_inj:
  assumes "j \<le> length b" and "j' \<le> length b"
  shows "addr b i j = addr b i' j' \<longleftrightarrow> i = i' \<and> j = j'"
proof
  assume eq: "addr b i j = addr b i' j'"
  have lt: "j < length b + 1" "j' < length b + 1" using assms by simp_all
  have "addr b i j div (length b + 1) = i" "addr b i' j' div (length b + 1) = i'"
    unfolding addr_def using lt by (simp_all only: div_mult_self3 div_less add_0_right)
  with eq have "i = i'" by metis
  with eq show "i = i' \<and> j = j'" by (simp add: addr_def)
qed simp

lemma addr_bound:
  assumes "i \<le> m" and "j \<le> length b"
  shows "addr b i j < (m + 1) * (length b + 1)"
proof -
  have "addr b i j < i * (length b + 1) + (length b + 1)" using assms(2) by (simp add: addr_def)
  also have "\<dots> = (i + 1) * (length b + 1)" by simp
  also have "\<dots> \<le> (m + 1) * (length b + 1)" using assms(1) by (intro mult_le_mono1) simp
  finally show ?thesis .
qed

lemma fill_row_Suc:
  "fill_row a b i (Suc j) table = fill_row a b i j (table[addr b i j :=
     (if a ! i = b ! j then table ! addr b (Suc i) (Suc j) + 1
      else max (table ! addr b (Suc i) j) (table ! addr b i (Suc j)))])"
  by (simp add: addr_def Let_def)

lemma walk_table_addr:
  "walk_table a b table i j =
     (if i < length a \<and> j < length b then
        (if a ! i = b ! j then mk_op Context (a ! i) # walk_table a b table (Suc i) (Suc j)
         else if table ! addr b (Suc i) j \<ge> table ! addr b i (Suc j)
         then mk_op Del (a ! i) # walk_table a b table (Suc i) j
         else mk_op Add (b ! j) # walk_table a b table i (Suc j))
      else map (mk_op Del) (drop i a) @ map (mk_op Add) (drop j b))"
  by (subst walk_table.simps) (simp add: addr_def Let_def)

definition filled :: "string list \<Rightarrow> string list \<Rightarrow> nat \<Rightarrow> nat \<Rightarrow> nat list \<Rightarrow> bool" where
  "filled a b i j table \<longleftrightarrow>
     length table = (length a + 1) * (length b + 1) \<and>
     (\<forall>i' j'. i' \<le> length a \<and> j' \<le> length b \<and>
        (i < i' \<or> i' = i \<and> j \<le> j' \<or> j' = length b) \<longrightarrow>
        table ! addr b i' j' = lcs (drop i' a) (drop j' b))"

lemma filledD:
  "filled a b i j table \<Longrightarrow> i' \<le> length a \<Longrightarrow> j' \<le> length b \<Longrightarrow>
     i < i' \<or> i' = i \<and> j \<le> j' \<or> j' = length b \<Longrightarrow>
     table ! addr b i' j' = lcs (drop i' a) (drop j' b)"
  by (simp add: filled_def)

lemma lcs_drop_step:
  assumes "i < length a" and "j < length b"
  shows "lcs (drop i a) (drop j b) =
    (if a ! i = b ! j then lcs (drop (Suc i) a) (drop (Suc j) b) + 1
     else max (lcs (drop (Suc i) a) (drop j b)) (lcs (drop i a) (drop (Suc j) b)))"
  using assms by (simp add: Cons_nth_drop_Suc [symmetric])

lemma filled_cell:
  assumes "filled a b i (Suc j) table" and i: "i < length a" and j: "j < length b"
  shows "filled a b i j (table[addr b i j := lcs (drop i a) (drop j b)])"
  unfolding filled_def
proof (intro conjI allI impI)
  show "length (table[addr b i j := lcs (drop i a) (drop j b)]) = (length a + 1) * (length b + 1)"
    using assms(1) by (simp add: filled_def)
  fix i' j'
  assume ij: "i' \<le> length a \<and> j' \<le> length b \<and> (i < i' \<or> i' = i \<and> j \<le> j' \<or> j' = length b)"
  show "table[addr b i j := lcs (drop i a) (drop j b)] ! addr b i' j' = lcs (drop i' a) (drop j' b)"
  proof (cases "i' = i \<and> j' = j")
    case True
    moreover have "addr b i j < length table"
      using addr_bound [of i "length a" j b] i j assms(1) unfolding filled_def by simp
    ultimately show ?thesis by simp
  next
    case False
    then have "addr b i' j' \<noteq> addr b i j"
      using addr_inj [of j' b j i' i] ij j by auto
    then have "table[addr b i j := lcs (drop i a) (drop j b)] ! addr b i' j' = table ! addr b i' j'"
      by simp
    also have "\<dots> = lcs (drop i' a) (drop j' b)"
      using ij False by (intro filledD [OF assms(1)]) auto
    finally show ?thesis .
  qed
qed

lemma filled_row:
  "filled a b i j table \<Longrightarrow> i < length a \<Longrightarrow> j \<le> length b \<Longrightarrow> filled a b i 0 (fill_row a b i j table)"
proof (induction j arbitrary: table)
  case (Suc j)
  have cells: "table ! addr b (Suc i) (Suc j) = lcs (drop (Suc i) a) (drop (Suc j) b)"
    "table ! addr b (Suc i) j = lcs (drop (Suc i) a) (drop j b)"
    "table ! addr b i (Suc j) = lcs (drop i a) (drop (Suc j) b)"
    using filledD [OF Suc.prems(1)] Suc.prems(2,3) by auto
  have "filled a b i j (table[addr b i j := lcs (drop i a) (drop j b)])"
    using Suc.prems by (intro filled_cell) auto
  moreover have "i < length a" "j < length b" using Suc.prems(2,3) by auto
  ultimately have "filled a b i 0 (fill_row a b i j (table[addr b i j :=
      lcs (drop i a) (drop j b)]))"
    using Suc.IH by simp
  then show ?case
    unfolding fill_row_Suc cells lcs_drop_step [OF \<open>i < length a\<close> \<open>j < length b\<close>] .
qed simp

lemma filled_next_row: "filled a b (Suc i) 0 table \<Longrightarrow> filled a b i (length b) table"
  unfolding filled_def by (metis Suc_lessI le_eq_less_or_eq le_antisym not_less_eq_eq zero_le)

lemma filled_table:
  "filled a b i 0 table \<Longrightarrow> i \<le> length a \<Longrightarrow> filled a b 0 0 (fill_table a b i table)"
proof (induction i arbitrary: table)
  case (Suc i)
  then have "filled a b i 0 (fill_row a b i (length b) table)"
    by (intro filled_row filled_next_row) auto
  then show ?case using Suc by simp
qed simp

definition lcs_table :: "string list \<Rightarrow> string list \<Rightarrow> nat list" where
  "lcs_table a b =
     fill_table a b (length a) (replicate ((length a + 1) * (length b + 1)) 0)"

lemma filled_lcs_table: "filled a b 0 0 (lcs_table a b)"
proof -
  have "filled a b (length a) 0 (replicate ((length a + 1) * (length b + 1)) 0)"
    unfolding filled_def
  proof (intro conjI allI impI)
    fix i' j' assume ij: "i' \<le> length a \<and> j' \<le> length b \<and>
      (length a < i' \<or> i' = length a \<and> 0 \<le> j' \<or> j' = length b)"
    then have "lcs (drop i' a) (drop j' b) = 0" by auto
    with addr_bound [of i' "length a" j' b] ij
    show "replicate ((length a + 1) * (length b + 1)) 0 ! addr b i' j'
        = lcs (drop i' a) (drop j' b)" by (metis nth_replicate)
  qed simp
  then show ?thesis
    unfolding lcs_table_def by (rule filled_table) simp
qed

lemma filled_all:
  "filled a b 0 0 table \<Longrightarrow> i \<le> length a \<Longrightarrow> j \<le> length b \<Longrightarrow>
     table ! addr b i j = lcs (drop i a) (drop j b)"
  by (cases i) (simp_all add: filledD)

lemma table_fits:
  assumes "length a * length b \<le> lcs_cell_limit" and "i \<le> length a" and "j \<le> length b"
  shows "lcs_table a b ! addr b i j < 2 ^ 32"
proof -
  have "lcs (drop i a) (drop j b) \<le> length a * length b"
  proof (cases "a = [] \<or> b = []")
    case False
    have "lcs (drop i a) (drop j b) \<le> length a"
      using lcs_le [of "drop i a" "drop j b"] by (metis diff_le_self le_trans length_drop)
    also have "\<dots> \<le> length a * length b" using False by (cases b) auto
    finally show ?thesis .
  qed auto
  with assms filled_all [OF filled_lcs_table, of i a j b] show ?thesis
    by (simp add: lcs_cell_limit_def)
qed

lemma walk_table_optimal:
  assumes "filled a b 0 0 table" and "i \<le> length a" and "j \<le> length b"
  shows "script_for (drop i a) (drop j b) (walk_table a b table i j) \<and>
    length (kept (walk_table a b table i j)) = lcs (drop i a) (drop j b)"
  using assms(2,3)
proof (induction "(length a - i) + (length b - j)" arbitrary: i j rule: less_induct)
  case less
  show ?case
  proof (cases "i < length a \<and> j < length b")
    case True
    then have cells: "table ! addr b (Suc i) j = lcs (drop (Suc i) a) (drop j b)"
      "table ! addr b i (Suc j) = lcs (drop i a) (drop (Suc j) b)"
      using filled_all [OF assms(1)] by simp_all
    have step: "lcs (drop i a) (drop j b) =
      (if a ! i = b ! j then lcs (drop (Suc i) a) (drop (Suc j) b) + 1
       else max (lcs (drop (Suc i) a) (drop j b)) (lcs (drop i a) (drop (Suc j) b)))"
      using True by (intro lcs_drop_step) auto
    have heads: "drop i a = a ! i # drop (Suc i) a" "drop j b = b ! j # drop (Suc j) b"
      using True by (simp_all add: Cons_nth_drop_Suc)
    have IH: "script_for (drop i' a) (drop j' b) (walk_table a b table i' j') \<and>
        length (kept (walk_table a b table i' j')) = lcs (drop i' a) (drop j' b)"
      if "i \<le> i'" "j \<le> j'" "i' + j' > i + j" "i' \<le> length a" "j' \<le> length b" for i' j'
      using that by (intro less.hyps) auto
    consider (same) "a ! i = b ! j"
      | (del) "a ! i \<noteq> b ! j" "lcs (drop (Suc i) a) (drop j b) \<ge> lcs (drop i a) (drop (Suc j) b)"
      | (add) "a ! i \<noteq> b ! j" "lcs (drop (Suc i) a) (drop j b) < lcs (drop i a) (drop (Suc j) b)"
      by linarith
    then show ?thesis
    proof cases
      case same
      then have "walk_table a b table i j =
          mk_op Context (a ! i) # walk_table a b table (Suc i) (Suc j)"
        using True by (subst walk_table_addr) simp
      with IH [of "Suc i" "Suc j"] same step True show ?thesis
        by (simp add: script_for_def heads)
    next
      case del
      then have "walk_table a b table i j = mk_op Del (a ! i) # walk_table a b table (Suc i) j"
        using True by (subst walk_table_addr) (simp add: cells)
      with IH [of "Suc i" j] del step True show ?thesis
        by (simp add: script_for_def heads(1))
    next
      case add
      then have "walk_table a b table i j = mk_op Add (b ! j) # walk_table a b table i (Suc j)"
        using True by (subst walk_table_addr) (simp add: cells)
      with IH [of i "Suc j"] add step True show ?thesis
        by (simp add: script_for_def heads(2))
    qed
  next
    case False
    with less.prems have "drop i a = [] \<or> drop j b = []" by auto
    with False show ?thesis
      by (auto simp: script_for_def walk_table_addr [of a b table i j])
  qed
qed

lemma append_lcs_ops_optimal:
  "script_for a b (append_lcs_ops a b) \<and> length (kept (append_lcs_ops a b)) = lcs a b"
  using walk_table_optimal [OF filled_lcs_table, of 0 a 0 b]
  by (simp add: append_lcs_ops_def lcs_table_def)

section \<open>The trimmed diff\<close>

lemma scan_prefix_spec:
  assumes "start \<le> length a" and "start \<le> length b" and "take start a = take start b"
  shows "start \<le> scan_prefix a b start \<and> scan_prefix a b start \<le> length a \<and>
    scan_prefix a b start \<le> length b \<and>
    take (scan_prefix a b start) a = take (scan_prefix a b start) b"
  using assms
proof (induction a b start rule: scan_prefix.induct)
  case (1 a b start)
  show ?case
  proof (cases "start < length a \<and> start < length b \<and> a ! start = b ! start")
    case True
    with "1.prems" have "take (Suc start) a = take (Suc start) b"
      by (simp add: take_Suc_conv_app_nth)
    with "1.IH" True have "Suc start \<le> scan_prefix a b (Suc start) \<and>
        scan_prefix a b (Suc start) \<le> length a \<and> scan_prefix a b (Suc start) \<le> length b \<and>
        take (scan_prefix a b (Suc start)) a = take (scan_prefix a b (Suc start)) b" by simp
    with True show ?thesis by (subst (1 2 3 4 5) scan_prefix.simps) auto
  next
    case False
    with "1.prems" show ?thesis by (subst (1 2 3 4 5) scan_prefix.simps) auto
  qed
qed

lemma scan_suffix_spec:
  assumes "s \<le> ea" and "s \<le> eb" and "ea \<le> length a" and "eb \<le> length b"
    and "drop ea a = drop eb b" and "scan_suffix a b s ea eb = (ea', eb')"
  shows "s \<le> ea' \<and> s \<le> eb' \<and> ea' \<le> length a \<and> eb' \<le> length b \<and> drop ea' a = drop eb' b"
  using assms
proof (induction a b s ea eb rule: scan_suffix.induct)
  case (1 a b s ea eb)
  show ?case
  proof (cases "s < ea \<and> s < eb \<and> a ! (ea - 1) = b ! (eb - 1)")
    case True
    then have "drop (ea - 1) a = a ! (ea - 1) # drop ea a"
      "drop (eb - 1) b = b ! (eb - 1) # drop eb b"
      using "1.prems"(3,4) by (metis Cons_nth_drop_Suc Suc_pred' diff_less le_zero_eq
          less_le_trans not_gr_zero zero_less_one less_zeroE le_less_trans order_refl)+
    with True "1.prems" have "drop (ea - 1) a = drop (eb - 1) b" by simp
    moreover have "scan_suffix a b s (ea - 1) (eb - 1) = (ea', eb')"
      using True "1.prems"(6) by (simp add: scan_suffix.simps [of a b s ea eb])
    moreover have "s \<le> ea - 1" "s \<le> eb - 1" "ea - 1 \<le> length a" "eb - 1 \<le> length b"
      using True "1.prems"(3,4) by linarith+
    ultimately show ?thesis
      using "1.IH" True by blast
  next
    case False
    with "1.prems" show ?thesis by (auto simp: scan_suffix.simps [of a b s ea eb])
  qed
qed

text \<open>The two inputs cut by the scans: a shared head, two middles, a shared tail.\<close>

lemma trimmed:
  assumes "start = scan_prefix a b 0" and "scan_suffix a b start (length a) (length b) = (ea, eb)"
  shows "a = take start a @ slice a start ea @ drop ea a"
    and "b = take start a @ slice b start eb @ drop ea a"
    and "start \<le> ea" and "start \<le> eb"
proof -
  have pre: "start \<le> length a" "start \<le> length b" "take start a = take start b"
    using scan_prefix_spec [of 0 a b] assms(1) by auto
  have suf: "start \<le> ea \<and> start \<le> eb \<and> ea \<le> length a \<and> eb \<le> length b \<and> drop ea a = drop eb b"
    using pre by (intro scan_suffix_spec [OF _ _ _ _ _ assms(2)]) auto
  have cut: "xs = take start xs @ slice xs start e @ drop e xs" if "start \<le> e" for xs e
    using that by (metis append.assoc append_take_drop_id slice_def take_add take_drop
        le_add_diff_inverse drop_take)
  show "a = take start a @ slice a start ea @ drop ea a" using suf by (intro cut) simp
  show "b = take start a @ slice b start eb @ drop ea a"
    using cut [of eb b] suf pre(3) by simp
  show "start \<le> ea" "start \<le> eb" using suf by simp_all
qed

lemma diff_line_ops_cases:
  assumes "before \<noteq> after"
  obtains ps ma mb ss where
    "split_lines before = ps @ ma @ ss" "split_lines after = ps @ mb @ ss"
    "diff_line_ops before after = map (mk_op Context) ps
       @ (if length ma * length mb \<le> lcs_cell_limit then append_lcs_ops ma mb
          else map (mk_op Del) ma @ map (mk_op Add) mb) @ map (mk_op Context) ss"
proof -
  let ?a = "split_lines before" and ?b = "split_lines after"
  let ?start = "scan_prefix ?a ?b 0"
  obtain ea eb where suf: "scan_suffix ?a ?b ?start (length ?a) (length ?b) = (ea, eb)"
    by (cases "scan_suffix ?a ?b ?start (length ?a) (length ?b)")
  note cut = trimmed [OF refl suf]
  show thesis
    by (rule that [OF cut(1,2)])
      (use assms suf in \<open>simp add: diff_line_ops_def Let_def\<close>)
qed





section \<open>Hunks name the right lines\<close>

text \<open>
  What a hunk over the positions from \<open>f\<close> to \<open>t\<close> should be: its lines, and in the header the
  line numbers and counts of both files, counted from the start of the diff.
\<close>

definition hunk_at :: "diff_line_op list \<Rightarrow> nat \<times> nat \<Rightarrow> diff_hunk" where
  "hunk_at ops s = (case s of (f, t) \<Rightarrow>
     \<lparr>hunk_header = ''-'' @ range_header (1 + length (old_side (take f ops)))
          (length (old_side (slice ops f t)))
        @ '' +'' @ range_header (1 + length (new_side (take f ops)))
          (length (new_side (slice ops f t))),
      hunk_lines = slice ops f t\<rparr>)"

definition hunks_over :: "diff_line_op list \<Rightarrow> (nat \<times> nat) list \<Rightarrow> nat \<Rightarrow> bool" where
  "hunks_over ops spans start \<longleftrightarrow>
     sorted_wrt (\<lambda>s t. snd s \<le> fst t) spans \<and>
     (\<forall>s \<in> set spans. start \<le> fst s \<and> fst s < snd s \<and> snd s \<le> length ops)"

definition covered :: "(nat \<times> nat) list \<Rightarrow> nat \<Rightarrow> bool" where
  "covered spans k \<longleftrightarrow> (\<exists>s \<in> set spans. fst s \<le> k \<and> k < snd s)"

lemma fold_advance_line:
  "fold advance_line ops (p, q) = (p + length (old_side ops), q + length (new_side ops))"
proof (induction ops arbitrary: p q)
  case (Cons x ops)
  then show ?case by (cases "op_type x") (simp_all add: advance_line_def)
qed simp

lemma extend_group_spec:
  assumes "idx < length cs" and "extend_group cs c idx (cs ! idx) = (final, e)"
  shows "idx \<le> final \<and> final < length cs \<and> e = cs ! final \<and>
    (final + 1 < length cs \<longrightarrow> c * 2 < cs ! (final + 1) - e)"
  using assms
proof (induction cs c idx "cs ! idx" rule: extend_group.induct)
  case (1 cs c idx)
  show ?case
  proof (cases "idx + 1 < length cs \<and> cs ! (idx + 1) - cs ! idx \<le> c * 2")
    case True
    with "1.prems" have "extend_group cs c (idx + 1) (cs ! (idx + 1)) = (final, e)"
      by (simp add: extend_group.simps [of cs c idx])
    with "1.hyps" [OF True] True show ?thesis by fastforce
  next
    case False
    with "1.prems" show ?thesis by (auto simp: extend_group.simps [of cs c idx])
  qed
qed

lemma slice_append: "i \<le> j \<Longrightarrow> take j xs = take i xs @ slice xs i j"
  by (metis le_add_diff_inverse slice_def take_add)

lemma hunk_loop_spec:
  assumes "cs = change_indices ops" and "index \<le> length cs" and "cursor \<le> length ops"
    and "lines = (1 + length (old_side (take cursor ops)), 1 + length (new_side (take cursor ops)))"
    and "index < length cs \<longrightarrow> cursor \<le> cs ! index - c"
  shows "\<exists>spans. hunk_loop ops cs c index cursor lines = map (hunk_at ops) spans \<and>
    hunks_over ops spans cursor \<and> (\<forall>k. index \<le> k \<and> k < length cs \<longrightarrow> covered spans (cs ! k))"
  using assms
proof (induction "length cs - index" arbitrary: index cursor lines rule: less_induct)
  case less
  show ?case
  proof (cases "index < length cs")
    case False
    then show ?thesis
      by (intro exI [of _ "[]"]) (auto simp: hunk_loop.simps [of ops cs] hunks_over_def)
  next
    case True
    obtain final e where grp: "extend_group cs c index (cs ! index) = (final, e)"
      by (cases "extend_group cs c index (cs ! index)")
    note spec = extend_group_spec [OF True grp]
    have sorted: "sorted_wrt (<) cs"
      using less.prems(1) by (simp add: change_indices_def sorted_wrt_filter)
    have bound: "cs ! k < length ops" if "k < length cs" for k
    proof -
      from that have "cs ! k \<in> set cs" by simp
      then show ?thesis unfolding less.prems(1) change_indices_def by simp
    qed
    have mono: "cs ! i \<le> cs ! j" if "i \<le> j" "j < length cs" for i j
      using that sorted_wrt_nth_less [OF sorted, of i j] by (cases "i = j") auto
    let ?f = "cs ! index - c" and ?t = "min (length ops) (e + 1 + c)"
    have lines: "fold advance_line (slice ops cursor ?f) lines =
        (1 + length (old_side (take ?f ops)), 1 + length (new_side (take ?f ops)))"
      using less.prems(4,5) True slice_append [of cursor ?f ops]
      by (simp add: fold_advance_line)
    have ft: "?f \<le> ?t" using bound [OF True] spec mono [of index final] by linarith
    have step: "hunk_loop ops cs c index cursor lines =
        hunk_at ops (?f, ?t) # hunk_loop ops cs c (final + 1) ?t
          (1 + length (old_side (take ?t ops)), 1 + length (new_side (take ?t ops)))"
      using True grp lines slice_append [OF ft, of ops]
      by (subst hunk_loop.simps) (simp add: Let_def fold_advance_line hunk_at_def)
    have "\<exists>spans. hunk_loop ops cs c (final + 1) ?t
          (1 + length (old_side (take ?t ops)), 1 + length (new_side (take ?t ops)))
        = map (hunk_at ops) spans \<and> hunks_over ops spans ?t \<and>
        (\<forall>k. final + 1 \<le> k \<and> k < length cs \<longrightarrow> covered spans (cs ! k))"
      using spec less.prems(1) by (intro less.hyps) auto
    then obtain spans where
      sp: "hunk_loop ops cs c (final + 1) ?t
          (1 + length (old_side (take ?t ops)), 1 + length (new_side (take ?t ops)))
        = map (hunk_at ops) spans" "hunks_over ops spans ?t"
        "\<And>k. final + 1 \<le> k \<and> k < length cs \<Longrightarrow> covered spans (cs ! k)" by blast
    have here: "covered [(?f, ?t)] (cs ! k)" if "index \<le> k" "k \<le> final" for k
      using that spec mono [of index k] mono [of k final] bound [of k] by (simp add: covered_def)
    show ?thesis
    proof (intro exI conjI allI impI)
      show "hunk_loop ops cs c index cursor lines = map (hunk_at ops) ((?f, ?t) # spans)"
        using step sp(1) by simp
      have "?f < ?t" using bound [OF True] spec mono [of index final] by linarith
      then show "hunks_over ops ((?f, ?t) # spans) cursor"
        using sp(2) less.prems(5) True unfolding hunks_over_def by fastforce
      fix k assume k: "index \<le> k \<and> k < length cs"
      show "covered ((?f, ?t) # spans) (cs ! k)"
      proof (cases "k \<le> final")
        case True
        with k here show ?thesis by (simp add: covered_def)
      next
        case False
        with k sp(3) show ?thesis by (auto simp: covered_def)
      qed
    qed
  qed
qed

text \<open>
  The hunks of a diff are disjoint stretches of it, in order, that cover every changed line,
  and each header gives the true line numbers and line counts of its stretch in both files, for
  every amount of context.
\<close>
theorem hunks_cover_and_locate_changes:
  "\<exists>spans. unified_diff_hunks ops c = map (hunk_at ops) spans \<and> hunks_over ops spans 0 \<and>
     (\<forall>k < length ops. op_type (ops ! k) \<noteq> Context \<longrightarrow> covered spans k)"
proof -
  let ?cs = "change_indices ops"
  have mem: "k \<in> set ?cs \<longleftrightarrow> k < length ops \<and> op_type (ops ! k) \<noteq> Context" for k
    by (auto simp: change_indices_def)
  obtain spans where sp: "hunk_loop ops ?cs c 0 0 (1, 1) = map (hunk_at ops) spans"
    "hunks_over ops spans 0" "\<forall>k. 0 \<le> k \<and> k < length ?cs \<longrightarrow> covered spans (?cs ! k)"
    using hunk_loop_spec [of ?cs ops 0 0 "(1, 1)" c] by auto
  have "unified_diff_hunks ops c = map (hunk_at ops) spans"
    using sp(1) by (auto simp: unified_diff_hunks_def Let_def hunk_loop.simps [of ops "[]"])
  moreover have "covered spans k" if "k < length ops" "op_type (ops ! k) \<noteq> Context" for k
    using sp(3) that mem [of k] by (metis in_set_conv_nth zero_le)
  ultimately show ?thesis using sp(2) by blast
qed

theorem hunks_cover_and_locate_changes_witness:
  "\<exists>spans. unified_diff_hunks [mk_op Context ''a'', mk_op Del ''b'', mk_op Add ''c''] 1 =
      map (hunk_at [mk_op Context ''a'', mk_op Del ''b'', mk_op Add ''c'']) spans \<and>
    covered spans 1 \<and> covered spans 2"
proof -
  obtain spans where
    "unified_diff_hunks [mk_op Context ''a'', mk_op Del ''b'', mk_op Add ''c''] 1 =
       map (hunk_at [mk_op Context ''a'', mk_op Del ''b'', mk_op Add ''c'']) spans"
    and cov: "\<forall>k < length [mk_op Context ''a'', mk_op Del ''b'', mk_op Add ''c''].
      op_type ([mk_op Context ''a'', mk_op Del ''b'', mk_op Add ''c''] ! k) \<noteq> Context \<longrightarrow>
      covered spans k"
    using hunks_cover_and_locate_changes
      [of "[mk_op Context ''a'', mk_op Del ''b'', mk_op Add ''c'']" 1] by blast
  moreover have "covered spans 1" using cov [rule_format, of 1] by simp
  moreover have "covered spans 2" using cov [rule_format, of 2] by simp
  ultimately show ?thesis by blast
qed

end
