(* ===== verification/Provider.thy ===== *)
theory Provider
  imports Prelude Complex_Main
begin

text \<open>
  The vocabulary of \<open>packages/provider-kit/src/index.ts\<close>: content parts, messages, usage, stream
  chunks, provider capabilities and errors, and the in-memory provider registry. JavaScript
  numbers that the code tests for finiteness are \<open>jsnum\<close>; arithmetic on finite ones is exact
  (the rounding of binary floating point is not modelled).
\<close>

section \<open>Numbers\<close>

datatype jsnum = Fin rat | Pos_Inf | Neg_Inf | Not_A_Number

fun js_ge :: "jsnum \<Rightarrow> jsnum \<Rightarrow> bool" where
  "js_ge Not_A_Number _ = False"
| "js_ge _ Not_A_Number = False"
| "js_ge Pos_Inf _ = True"
| "js_ge _ Neg_Inf = True"
| "js_ge Neg_Inf _ = False"
| "js_ge _ Pos_Inf = False"
| "js_ge (Fin x) (Fin y) = (y \<le> x)"

definition is_finite :: "jsnum \<Rightarrow> bool" where
  "is_finite x = (case x of Fin _ \<Rightarrow> True | _ \<Rightarrow> False)"

definition js_negative :: "jsnum \<Rightarrow> bool" where
  "js_negative x = (case x of Fin r \<Rightarrow> r < 0 | Neg_Inf \<Rightarrow> True | _ \<Rightarrow> False)"

definition fin_val :: "jsnum \<Rightarrow> rat" where
  "fin_val x = (case x of Fin r \<Rightarrow> r | _ \<Rightarrow> 0)"

lemma fin_val_Fin [simp]: "fin_val (Fin r) = r"
  by (simp add: fin_val_def)

section \<open>Messages\<close>

record usage =
  u_input :: int
  u_output :: int
  u_cache_read :: "int option"
  u_cache_write :: "int option"
  u_cost :: "rat option"

datatype attachment_ref = Inline "nat list" | Path ustr | Handle ustr

text \<open>
  \<open>'j\<close> is the type of JSON values (the arguments of a tool call), which the modelled code passes
  through without looking inside.
\<close>

datatype 'j content_part =
    Text ustr
  | Thinking ustr "ustr option"
  | Image attachment_ref ustr
  | File attachment_ref ustr ustr
  | Tool_Use string string 'j
  | Tool_Result string "'j content_part list" "bool option"

datatype role = Assistant | System | User

datatype stop_reason = End_Turn | Tool_Use_Stop | Max_Tokens | Stop_Sequence | Error_Stop

record meta =
  m_provider :: "string option"
  m_model :: "string option"
  m_usage :: "usage option"
  m_stop_reason :: "stop_reason option"
  m_compacted :: bool
  m_compacted_ids :: "string list option"
  m_turn_id :: "string option"
  m_pinned :: bool

record 'j message =
  msg_id :: string
  msg_role :: role
  msg_content :: "'j content_part list"
  msg_created_at :: int
  msg_meta :: "meta option"

definition empty_meta :: meta where
  "empty_meta = \<lparr>m_provider = None, m_model = None, m_usage = None, m_stop_reason = None,
     m_compacted = False, m_compacted_ids = None, m_turn_id = None, m_pinned = False\<rparr>"

datatype 'j provider_chunk =
    Message_Start string
  | Text_Delta ustr
  | Thinking_Delta ustr "ustr option"
  | Tool_Use_Start string string
  | Tool_Use_Delta string ustr
  | Tool_Use_End string
  | Usage_Chunk usage
  | Message_Stop stop_reason
  | Message_Interrupted ustr
  | Error_Chunk ustr

section \<open>Capabilities, clients and errors\<close>

datatype tool_use_mode = No_Tools | Sequential | Parallel
datatype cache_mode = No_Cache | Ephemeral | Persistent
datatype result_schema = Anthropic_Schema | Openai_Schema | Gemini_Schema | Json_String_Schema
datatype system_location = System_Field | First_User_Message

text \<open>\<open>None\<close> stands for \<open>false\<close>; a supported modality lists its formats and its size limit.\<close>

record capabilities =
  cap_max_context_tokens :: int
  cap_max_output_tokens :: int
  cap_tool_use :: tool_use_mode
  cap_tool_result_schema :: result_schema
  cap_vision :: "(string list \<times> int) option"
  cap_files :: "(string list \<times> int) option"
  cap_thinking :: "bool option"
  cap_streaming :: bool
  cap_stream_resume :: bool
  cap_streaming_reasoning :: bool
  cap_cache :: cache_mode
  cap_json_mode :: bool
  cap_structured_output :: bool
  cap_system_location :: system_location
  cap_tool_choice_required :: bool
  cap_interleaved_thinking :: bool

text \<open>A client object; \<open>client_ref\<close> is its identity, which \<open>===\<close> compares.\<close>

record client =
  client_ref :: nat
  client_name :: string
  client_caps :: capabilities

datatype category =
    Network | Auth | Rate_Limit | Quota | Invalid_Request | Content_Filter | Model_Not_Found
  | Server | Context_Length | Stream_Truncated | Protocol | Permission_Cat | Sandbox | Timeout_Cat
  | Cancelled | Resource_Exhausted | Unknown

record provider_error =
  pe_message :: ustr
  pe_provider :: string
  pe_model :: "string option"
  pe_status :: "int option"
  pe_category :: category
  pe_retryable :: bool
  pe_retry_after :: "int option"

text \<open>The fail-closed check of a resume request (mode, cursor, idempotency key).\<close>

datatype resume_request = Not_An_Object | Resume "string option" "string option" "string option"

definition assert_stream_resume_supported :: "capabilities \<Rightarrow> resume_request \<Rightarrow> unit result" where
  "assert_stream_resume_supported caps request =
     (if \<not> cap_stream_resume caps
      then throw ''stream_resume_unsupported'' ''stream_resume_unsupported''
      else case request of
        Not_An_Object \<Rightarrow> throw ''stream_resume_invalid'' ''stream_resume_invalid''
      | Resume mode cursor key \<Rightarrow>
          if mode \<noteq> Some ''opaque-cursor'' \<or> cursor = None \<or> cursor = Some []
             \<or> key = None \<or> key = Some []
          then throw ''stream_resume_invalid'' ''stream_resume_invalid'' else Inr ())"

section \<open>The provider registry\<close>

datatype provider_source = Core_Source | Plugin_Source string

record model_descriptor =
  md_id :: string
  md_max_context :: "int option"

record provider_meta =
  pm_capabilities :: capabilities
  pm_display_name :: string
  pm_models :: "model_descriptor list option"

text \<open>\<open>reg_token\<close> is the identity of the frozen record that \<open>dispose\<close> compares with \<open>===\<close>.\<close>

record registered =
  reg_token :: nat
  reg_name :: string
  reg_source :: provider_source
  reg_meta :: provider_meta
  reg_client :: client

record registry =
  rg_providers :: "(string, registered) jsmap"
  rg_next_token :: nat
  rg_disposed :: "nat list"

definition new_registry :: registry where
  "new_registry = \<lparr>rg_providers = [], rg_next_token = 0, rg_disposed = []\<rparr>"

definition registry_register ::
  "client \<Rightarrow> provider_source \<Rightarrow> provider_meta \<Rightarrow> registry \<Rightarrow> registered result \<times> registry" where
  "registry_register c source m g =
     (if map_has (rg_providers g) (client_name c)
      then (throw ''provider_name_conflict'' (client_name c), g)
      else if client_caps c \<noteq> pm_capabilities m
      then (throw ''provider_capabilities_mismatch'' (client_name c), g)
      else let r = \<lparr>reg_token = rg_next_token g, reg_name = client_name c, reg_source = source,
                     reg_meta = m, reg_client = c\<rparr>
           in (Inr r, g\<lparr>rg_providers := map_set (client_name c) r (rg_providers g),
                        rg_next_token := rg_next_token g + 1\<rparr>))"

definition registry_dispose :: "registered \<Rightarrow> registry \<Rightarrow> registry" where
  "registry_dispose r g =
     (if reg_token r \<in> set (rg_disposed g) then g
      else (let g' = g\<lparr>rg_disposed := reg_token r # rg_disposed g\<rparr>
            in if map_option reg_token (map_get (rg_providers g) (reg_name r)) = Some (reg_token r)
               then g'\<lparr>rg_providers := map_delete (reg_name r) (rg_providers g)\<rparr> else g'))"

definition registry_get :: "registry \<Rightarrow> string \<Rightarrow> client option" where
  "registry_get g name = map_option reg_client (map_get (rg_providers g) name)"

definition registry_describe :: "registry \<Rightarrow> string \<Rightarrow> registered option" where
  "registry_describe g name = map_get (rg_providers g) name"

definition registry_list :: "registry \<Rightarrow> registered list" where
  "registry_list g = map_values (rg_providers g)"

subsection \<open>Invariant of the registry\<close>

text \<open>Entries sit under their own names and agree with their client on name and capabilities.\<close>

definition registry_inv :: "registry \<Rightarrow> bool" where
  "registry_inv g \<longleftrightarrow> map_wf (rg_providers g) \<and>
     (\<forall>(n, r) \<in> set (rg_providers g). n = reg_name r \<and> client_name (reg_client r) = n \<and>
        client_caps (reg_client r) = pm_capabilities (reg_meta r) \<and>
        reg_token r < rg_next_token g)"

lemma set_map_delete_subset: "set (map_delete k m) \<subseteq> set m"
  by (induction k m rule: map_delete.induct) (auto split: if_splits)

lemma registry_inv_new: "registry_inv new_registry"
  by (simp add: registry_inv_def new_registry_def)

lemma registry_inv_register [keeps]:
  assumes "registry_inv g"
  shows "registry_inv (snd (registry_register c s m g))"
proof (cases "map_has (rg_providers g) (client_name c) \<or> client_caps c \<noteq> pm_capabilities m")
  case False
  then have fresh: "client_name c \<notin> set (map_keys (rg_providers g))"
    by (metis map_get_dom map_has_def)
  with False assms show ?thesis
    by (fastforce simp: registry_register_def registry_inv_def Let_def map_set_fresh map_wf_def
        map_keys_def less_Suc_eq)
qed (use assms in \<open>auto simp: registry_register_def\<close>)

lemma registry_inv_dispose [keeps]: "registry_inv g \<Longrightarrow> registry_inv (registry_dispose r g)"
  using set_map_delete_subset [of "reg_name r" "rg_providers g"]
  by (auto simp: registry_dispose_def registry_inv_def Let_def dest: subsetD)

datatype registry_call = Register client provider_source provider_meta | Dispose registered

fun registry_step :: "registry \<Rightarrow> registry_call \<Rightarrow> registry" where
  "registry_step g (Register c s m) = snd (registry_register c s m g)"
| "registry_step g (Dispose r) = registry_dispose r g"

interpretation reg: monotone_machine registry_step registry_inv rg_next_token
proof unfold_locales
  fix g c assume "registry_inv g"
  then show "registry_inv (registry_step g c)"
    by (cases c) (auto intro: keeps)
  show "rg_next_token g \<le> rg_next_token (registry_step g c)"
    by (cases c) (auto simp: registry_register_def registry_dispose_def Let_def)
qed

text \<open>
  After any sequence of registrations and disposals the registry resolves a name only to a
  client of that name whose capabilities are the ones it was registered with, and disposing a
  stale registration (its name registered again by a later one) removes nothing.
\<close>
theorem registry_resolves_names:
  assumes "g = foldl registry_step new_registry calls"
    and "registry_describe g n = Some r"
  shows "client_name (reg_client r) = n \<and> registry_get g n = Some (reg_client r) \<and>
    client_caps (reg_client r) = pm_capabilities (reg_meta r) \<and>
    (\<forall>old. reg_name old = n \<and> reg_token old \<noteq> reg_token r \<longrightarrow>
       registry_describe (registry_dispose old g) n = Some r)"
proof -
  have inv: "registry_inv g"
    unfolding assms(1) by (rule reg.run_good) (rule registry_inv_new)
  moreover have "(n, r) \<in> set (rg_providers g)"
    using assms(2) by (auto simp: registry_describe_def dest: map_of_SomeD)
  ultimately have "client_name (reg_client r) = n \<and> client_caps (reg_client r) = pm_capabilities (reg_meta r)"
    by (auto simp: registry_inv_def)
  with assms(2) show ?thesis
    by (auto simp: registry_describe_def registry_get_def registry_dispose_def Let_def)
qed

definition demo_caps :: capabilities where
  "demo_caps = \<lparr>cap_max_context_tokens = 200000, cap_max_output_tokens = 8192,
     cap_tool_use = Parallel, cap_tool_result_schema = Anthropic_Schema, cap_vision = None,
     cap_files = None, cap_thinking = None, cap_streaming = True, cap_stream_resume = False,
     cap_streaming_reasoning = False, cap_cache = Ephemeral, cap_json_mode = True,
     cap_structured_output = True, cap_system_location = System_Field,
     cap_tool_choice_required = False, cap_interleaved_thinking = False\<rparr>"

definition demo_client :: "nat \<Rightarrow> string \<Rightarrow> client" where
  "demo_client k n = \<lparr>client_ref = k, client_name = n, client_caps = demo_caps\<rparr>"

definition demo_meta :: provider_meta where
  "demo_meta = \<lparr>pm_capabilities = demo_caps, pm_display_name = ''demo'', pm_models = None\<rparr>"

lemmas demo_defs = demo_caps_def demo_client_def demo_meta_def

theorem registry_resolves_names_witness:
  "registry_get (foldl registry_step new_registry
      [Register (demo_client 0 ''a'') Core_Source demo_meta]) ''a'' = Some (demo_client 0 ''a'')"
  using registry_resolves_names [OF refl, of
      "[Register (demo_client 0 ''a'') Core_Source demo_meta]" "''a''"
      "\<lparr>reg_token = 0, reg_name = ''a'', reg_source = Core_Source, reg_meta = demo_meta,
        reg_client = demo_client 0 ''a''\<rparr>"]
  by (simp add: new_registry_def registry_register_def map_has_def registry_describe_def Let_def
      demo_client_def demo_meta_def)

end
