(* ===== verification/Router.thy ===== *)
theory Router
  imports Provider "HOL-Library.Multiset"
begin

text \<open>
  The single-provider and the fallback router of \<open>packages/router/src/index.ts\<close>: retries with
  backoff, per-provider cooldown, one half-open probe after a cooldown, sticky providers and
  budgets. The clock and the sleeper are arguments of the operations: \<open>now\<close> is the value of
  \<open>clock()\<close> and \<open>sleep ms\<close> the outcome of the wait (\<open>Inl\<close> when the signal aborts it). An
  operation returns its result and the router after it; giving up is \<open>None\<close>.
\<close>

section \<open>Contexts, hints and decisions\<close>

record router_session =
  rs_id :: string
  rs_cost :: jsnum
  rs_last_provider :: "string option"
  rs_sticky :: "string option"

record budget =
  b_cost_max :: "jsnum option"
  b_time_max :: "jsnum option"

record token_estimate =
  te_input :: jsnum
  te_output :: jsnum

record router_context =
  rc_session :: router_session
  rc_turn_id :: string
  rc_attempts :: nat
  rc_budget :: "budget option"
  rc_elapsed :: "jsnum option"
  rc_estimated :: "token_estimate option"
  rc_aborted :: bool

datatype router_role = Planner | Coder | Reviewer | Chat | Reflection
datatype cost_preference = Cheap | Balanced | Quality

record router_hint =
  h_explicit :: "string option"
  h_role :: "router_role option"
  h_cost_preference :: "cost_preference option"
  h_preferred :: "string option"

record 'm decision =
  d_provider :: client
  d_model :: string
  d_reason :: string
  d_metadata :: "'m option"

text \<open>
  \<open>explicit?.includes('/')\<close> and the split of \<open>provider/model\<close>: the first piece is the provider,
  the rest joined again the model.
\<close>

definition explicit_model :: "router_hint option \<Rightarrow> string option" where
  "explicit_model hint = (case hint of None \<Rightarrow> None | Some h \<Rightarrow> h_explicit h)"

definition split_explicit :: "string option \<Rightarrow> (string \<times> string) option" where
  "split_explicit e = (case e of None \<Rightarrow> None
     | Some s \<Rightarrow> if CHR ''/'' \<in> set s
                then (let parts = split_on (CHR ''/'') s in Some (hd parts, join ''/'' (tl parts)))
                else None)"

lemma split_explicit_roundtrip:
  assumes "split_explicit (Some s) = Some (p, m)"
  shows "s = p @ ''/'' @ m \<and> CHR ''/'' \<notin> set p"
proof -
  obtain w ws where ws: "split_on (CHR ''/'') s = w # ws"
    using split_on_nonempty by (cases "split_on (CHR ''/'') s") auto
  have mem: "CHR ''/'' \<in> set s" using assms by (auto simp: split_explicit_def split: if_splits)
  have "length (w # ws) = Suc (count_list s (CHR ''/''))"
    using length_split_on [of "CHR ''/''" s] ws by simp
  with mem have "ws \<noteq> []" by (auto simp: count_list_0_iff)
  then obtain v vs where "ws = v # vs" by (cases ws) auto
  moreover have "p = w" "m = join ''/'' ws"
    using assms mem ws by (auto simp: split_explicit_def Let_def)
  ultimately show ?thesis
    using join_split_on [of "CHR ''/''" s] ws split_on_no_sep [of w "CHR ''/''" s] by simp
qed

section \<open>The single-provider router\<close>

definition single_pick ::
  "client \<Rightarrow> string \<Rightarrow> registry option \<Rightarrow> router_hint option \<Rightarrow> 'm decision result" where
  "single_pick c default_model reg hint =
     (case split_explicit (explicit_model hint) of
        Some (p, m) \<Rightarrow>
          (case Option.bind reg (\<lambda>g. registry_get g p) of
             None \<Rightarrow> throw ''provider_not_registered'' p
           | Some c' \<Rightarrow> Inr \<lparr>d_provider = c', d_model = m, d_reason = ''explicit-provider'',
                             d_metadata = None\<rparr>)
      | None \<Rightarrow> Inr \<lparr>d_provider = c,
          d_model = (case explicit_model hint of None \<Rightarrow> default_model | Some m \<Rightarrow> m),
          d_reason = ''single-provider'', d_metadata = None\<rparr>)"

definition backoff_ms :: "provider_error \<Rightarrow> nat \<Rightarrow> int" where
  "backoff_ms e retry = (case pe_retry_after e of Some ms \<Rightarrow> ms | None \<Rightarrow> 1000 * 4 ^ retry)"

definition single_on_error ::
  "(int \<Rightarrow> unit result) \<Rightarrow> client \<Rightarrow> string \<Rightarrow> provider_error \<Rightarrow> router_context \<Rightarrow>
     'm decision option result" where
  "single_on_error sleep c default_model e ctx =
     (if \<not> pe_retryable e \<or> pe_category e = Context_Length \<or> rc_attempts ctx \<ge> 3 then Inr None
      else bind_result (sleep (backoff_ms e (rc_attempts ctx)))
        (\<lambda>_. Inr (Some \<lparr>d_provider = c, d_model = default_model, d_reason = ''retry'',
                        d_metadata = None\<rparr>)))"

section \<open>The fallback router\<close>

record route =
  r_provider :: client
  r_model :: string
  r_priority :: rat

abbreviation route_name :: "route \<Rightarrow> string" where
  "route_name r \<equiv> client_name (r_provider r)"

record health =
  retry_count :: nat
  cooldown_until :: int
  half_open :: bool
  failures :: "provider_error list"

definition fresh_health :: health where
  "fresh_health = \<lparr>retry_count = 0, cooldown_until = 0, half_open = False, failures = []\<rparr>"

record 'm fallback_options =
  fo_cooldown_ms :: "int option"
  fo_max_attempts :: "nat option"
  fo_max_retries :: "nat option"
  fo_jitter :: "(int \<Rightarrow> int) option"
  fo_policy :: "(route \<Rightarrow> router_context \<Rightarrow> bool result) option"
  fo_metadata :: "(route \<Rightarrow> router_context \<Rightarrow> 'm option) option"

record 'm fallback =
  fb_chain :: "route list"
  fb_health :: "(string, health) jsmap"
  fb_cooldown_ms :: int
  fb_max_attempts :: nat
  fb_max_retries :: nat
  fb_jitter :: "int \<Rightarrow> int"
  fb_policy :: "route \<Rightarrow> router_context \<Rightarrow> bool result"
  fb_metadata :: "(route \<Rightarrow> router_context \<Rightarrow> 'm option) option"

definition no_retry :: "category \<Rightarrow> bool" where
  "no_retry c \<longleftrightarrow> c \<in> {Auth, Invalid_Request, Context_Length, Protocol, Permission_Cat, Sandbox,
     Cancelled}"

definition fallback_immediately :: "category \<Rightarrow> bool" where
  "fallback_immediately c \<longleftrightarrow> c \<in> {Rate_Limit, Quota, Content_Filter, Model_Not_Found}"

fun initial_health :: "route list \<Rightarrow> (string, health) jsmap \<Rightarrow> (string, health) jsmap result" where
  "initial_health [] m = Inr m"
| "initial_health (r # rs) m =
     (if map_has m (route_name r) then throw ''fallback_provider_duplicate'' (route_name r)
      else initial_health rs (map_set (route_name r) fresh_health m))"

definition or_default :: "'a option \<Rightarrow> 'a \<Rightarrow> 'a" where
  "or_default x d = (case x of None \<Rightarrow> d | Some y \<Rightarrow> y)"

lemma or_default_simps [simp]: "or_default None d = d" "or_default (Some x) d = x"
  by (simp_all add: or_default_def)

definition new_fallback :: "route list \<Rightarrow> 'm fallback_options \<Rightarrow> 'm fallback result" where
  "new_fallback chain opts =
     (if chain = [] then throw ''fallback_chain_empty'' ''fallback_chain_empty''
      else bind_result (initial_health chain []) (\<lambda>hs.
        Inr \<lparr>fb_chain = sort_key (\<lambda>r. - r_priority r) chain, fb_health = hs,
             fb_cooldown_ms = or_default (fo_cooldown_ms opts) 60000,
             fb_max_attempts = or_default (fo_max_attempts opts) 6,
             fb_max_retries = or_default (fo_max_retries opts) 2,
             fb_jitter = or_default (fo_jitter opts) (\<lambda>ms. ms),
             fb_policy = or_default (fo_policy opts) (\<lambda>_ _. Inr True),
             fb_metadata = fo_metadata opts\<rparr>))"

definition find_route :: "'m fallback \<Rightarrow> string \<Rightarrow> route option" where
  "find_route f name = find (\<lambda>r. route_name r = name) (fb_chain f)"

definition mk_decision :: "'m fallback \<Rightarrow> route \<Rightarrow> string \<Rightarrow> string \<Rightarrow> router_context \<Rightarrow> 'm decision" where
  "mk_decision f r reason model ctx =
     \<lparr>d_provider = r_provider r, d_model = model, d_reason = reason,
      d_metadata = (case fb_metadata f of None \<Rightarrow> None | Some g \<Rightarrow> g r ctx)\<rparr>"

definition exhausted :: "'m fallback \<Rightarrow> router_context \<Rightarrow> bool" where
  "exhausted f ctx =
     (rc_aborted ctx \<or> rc_attempts ctx \<ge> fb_max_attempts f \<or>
      (case Option.bind (rc_budget ctx) b_cost_max of None \<Rightarrow> False
       | Some m \<Rightarrow> js_ge (rs_cost (rc_session ctx)) m) \<or>
      (case Option.bind (rc_budget ctx) b_time_max of None \<Rightarrow> False
       | Some m \<Rightarrow> js_ge (or_default (rc_elapsed ctx) (Fin 0)) m))"

definition set_health :: "string \<Rightarrow> health \<Rightarrow> 'm fallback \<Rightarrow> 'm fallback" where
  "set_health n h f = f\<lparr>fb_health := map_set n h (fb_health f)\<rparr>"

text \<open>
  A route is open when it is not cooling down, or its cooldown is over and no probe is under way;
  taking it in the second case starts the probe.
\<close>

fun first_available ::
  "int \<Rightarrow> router_context \<Rightarrow> string option \<Rightarrow> route list \<Rightarrow> 'm fallback \<Rightarrow>
     route option result \<times> 'm fallback" where
  "first_available now ctx excl [] f = (Inr None, f)"
| "first_available now ctx excl (r # rs) f =
     (if Some (route_name r) = excl then first_available now ctx excl rs f
      else case fb_policy f r ctx of
        Inl e \<Rightarrow> (Inl e, f)
      | Inr False \<Rightarrow> first_available now ctx excl rs f
      | Inr True \<Rightarrow>
          (case map_get (fb_health f) (route_name r) of
             None \<Rightarrow> (throw ''TypeError'' (route_name r), f)
           | Some h \<Rightarrow>
               if cooldown_until h = 0 then (Inr (Some r), f)
               else if cooldown_until h \<le> now \<and> \<not> half_open h
               then (Inr (Some r), set_health (route_name r) (h\<lparr>half_open := True\<rparr>) f)
               else first_available now ctx excl rs f))"

definition available_route ::
  "int \<Rightarrow> router_context \<Rightarrow> string option \<Rightarrow> 'm fallback \<Rightarrow> route option result \<times> 'm fallback"
where
  "available_route now ctx excl f = first_available now ctx excl (fb_chain f) f"

definition fallback_pick ::
  "int \<Rightarrow> router_context \<Rightarrow> router_hint option \<Rightarrow> 'm fallback \<Rightarrow> 'm decision result \<times> 'm fallback"
where
  "fallback_pick now ctx hint f =
     (case truthy (rs_sticky (rc_session ctx)) of
        Some sticky \<Rightarrow>
          (case find_route f sticky of
             None \<Rightarrow> (throw ''sticky_provider_not_in_fallback_chain'' sticky, f)
           | Some r \<Rightarrow>
               (bind_result (fb_policy f r ctx) (\<lambda>ok.
                  if ok then Inr (mk_decision f r ''sticky-provider'' (r_model r) ctx)
                  else throw ''router_route_not_eligible'' ''router_route_not_eligible''), f))
      | None \<Rightarrow>
          if exhausted f ctx then (throw ''router_budget_exhausted'' ''router_budget_exhausted'', f)
          else case split_explicit (explicit_model hint) of
            Some (p, m) \<Rightarrow>
              (case find_route f p of
                 None \<Rightarrow> (throw ''provider_not_in_fallback_chain'' p, f)
               | Some r \<Rightarrow>
                   (Inr ((mk_decision f r ''explicit-provider'' (r_model r) ctx)\<lparr>d_model := m\<rparr>), f))
          | None \<Rightarrow>
              (case available_route now ctx None f of
                 (Inl e, f') \<Rightarrow> (Inl e, f')
               | (Inr None, f') \<Rightarrow>
                   (throw ''all_providers_cooling_down'' ''all_providers_cooling_down'', f')
               | (Inr (Some r), f') \<Rightarrow>
                   (Inr (mk_decision f' r ''fallback-primary''
                      (or_default (explicit_model hint) (r_model r)) ctx), f')))"

text \<open>
  \<open>safeError\<close> copies message, provider, category and the optional fields of an error (and drops
  every other property of it, such as its cause): on the modelled fields it is the identity.
\<close>

definition safe_error :: "provider_error \<Rightarrow> provider_error" where
  "safe_error e = \<lparr>pe_message = pe_message e, pe_provider = pe_provider e, pe_model = pe_model e,
     pe_status = pe_status e, pe_category = pe_category e, pe_retryable = pe_retryable e,
     pe_retry_after = pe_retry_after e\<rparr>"

definition wait_ms :: "'m fallback \<Rightarrow> provider_error \<Rightarrow> nat \<Rightarrow> int" where
  "wait_ms f e retry = max 0 (fb_jitter f (backoff_ms e retry))"

text \<open>
  One backoff: \<open>retryCount++\<close> happens before the wait, the eligibility check after it.
  \<open>k\<close> is what the code does between the two (resetting the cooldown in the rate-limit branch).
\<close>

definition retry_after_backoff ::
  "(int \<Rightarrow> unit result) \<Rightarrow> provider_error \<Rightarrow> router_context \<Rightarrow> route \<Rightarrow> string \<Rightarrow>
     (health \<Rightarrow> health) \<Rightarrow> health \<Rightarrow> 'm fallback \<Rightarrow> 'm decision option result \<times> 'm fallback" where
  "retry_after_backoff sleep e ctx r reason k h f =
     (let h' = h\<lparr>retry_count := retry_count h + 1\<rparr>; f' = set_health (pe_provider e) h' f
      in case sleep (wait_ms f e (retry_count h)) of
           Inl x \<Rightarrow> (Inl x, f')
         | Inr _ \<Rightarrow>
             let f'' = set_health (pe_provider e) (k h') f' in
             (bind_result (fb_policy f r ctx) (\<lambda>ok.
                if ok then Inr (Some (mk_decision f r reason (r_model r) ctx)) else Inr None), f''))"

text \<open>
  The end of \<open>onError\<close>: the failing provider starts its cooldown, another open route takes over,
  and only a rate limit with no other route left is retried on the same provider.
\<close>

definition switch_provider ::
  "int \<Rightarrow> (int \<Rightarrow> unit result) \<Rightarrow> provider_error \<Rightarrow> router_context \<Rightarrow> route \<Rightarrow> health \<Rightarrow>
     'm fallback \<Rightarrow> 'm decision option result \<times> 'm fallback" where
  "switch_provider now sleep e ctx r h f =
     (let h2 = h\<lparr>cooldown_until :=
           now + max (fb_cooldown_ms f) (or_default (pe_retry_after e) 0)\<rparr>;
          f2 = set_health (pe_provider e) h2 f
      in case available_route now ctx (Some (pe_provider e)) f2 of
           (Inl x, f3) \<Rightarrow> (Inl x, f3)
         | (Inr (Some fb), f3) \<Rightarrow>
             (Inr (Some (mk_decision f3 fb ''fallback'' (r_model fb) ctx)),
              set_health (pe_provider e) (h2\<lparr>retry_count := 0\<rparr>) f3)
         | (Inr None, f3) \<Rightarrow>
             if pe_category e = Rate_Limit \<and> retry_count h2 < fb_max_retries f
             then retry_after_backoff sleep e ctx r ''retry''
                    (\<lambda>h. h\<lparr>cooldown_until := 0\<rparr>) h2 f3
             else (Inr None, f3))"

definition fallback_on_error ::
  "int \<Rightarrow> (int \<Rightarrow> unit result) \<Rightarrow> provider_error \<Rightarrow> router_context \<Rightarrow> 'm fallback \<Rightarrow>
     'm decision option result \<times> 'm fallback" where
  "fallback_on_error now sleep e ctx f =
     (case find_route f (pe_provider e) of
        None \<Rightarrow> (Inr None, f)
      | Some r \<Rightarrow>
          if exhausted f ctx \<or> no_retry (pe_category e) \<or>
             (\<not> pe_retryable e \<and> \<not> fallback_immediately (pe_category e))
          then (Inr None, f)
          else case map_get (fb_health f) (pe_provider e) of
            None \<Rightarrow> (throw ''TypeError'' (pe_provider e), f)
          | Some h0 \<Rightarrow>
            let h = h0\<lparr>failures := failures h0 @ [safe_error e], half_open := False\<rparr>;
                f1 = set_health (pe_provider e) h f
            in case truthy (rs_sticky (rc_session ctx)) of
                 Some sticky \<Rightarrow>
                   if sticky \<noteq> pe_provider e \<or> retry_count h \<ge> fb_max_retries f
                   then (Inr None, f1)
                   else retry_after_backoff sleep e ctx r ''sticky-retry'' (\<lambda>h. h) h f1
               | None \<Rightarrow>
                   if \<not> fallback_immediately (pe_category e) \<and> retry_count h < fb_max_retries f
                   then retry_after_backoff sleep e ctx r ''retry'' (\<lambda>h. h) h f1
                   else switch_provider now sleep e ctx r h f1)"

definition fallback_on_success :: "string \<Rightarrow> 'm fallback \<Rightarrow> 'm fallback" where
  "fallback_on_success name f =
     (case map_get (fb_health f) name of
        None \<Rightarrow> f
      | Some h \<Rightarrow> set_health name fresh_health f)"

definition failures_report :: "'m fallback \<Rightarrow> (string \<times> provider_error list) list" where
  "failures_report f = map (\<lambda>(n, h). (n, failures h)) (fb_health f)"

section \<open>Invariant of the fallback router\<close>

text \<open>
  Every provider of the chain has exactly one health record, provider names are distinct, and no
  provider has been retried more often than allowed since its last success or switch.
\<close>

definition names :: "'m fallback \<Rightarrow> string set" where
  "names f = route_name ` set (fb_chain f)"

definition fallback_inv :: "'m fallback \<Rightarrow> bool" where
  "fallback_inv f \<longleftrightarrow> map_wf (fb_health f) \<and> set (map_keys (fb_health f)) = names f \<and>
     distinct (map route_name (fb_chain f)) \<and>
     (\<forall>n h. map_get (fb_health f) n = Some h \<longrightarrow> retry_count h \<le> fb_max_retries f)"

text \<open>An operation changes health records only: chain, limits, policy and metadata are fixed.\<close>

definition same_config :: "'m fallback \<Rightarrow> 'm fallback \<Rightarrow> bool" where
  "same_config f g \<longleftrightarrow> g = f\<lparr>fb_health := fb_health g\<rparr>"

lemma same_config_refl [simp]: "same_config f f"
  by (simp add: same_config_def)

lemma same_config_trans: "same_config f g \<Longrightarrow> same_config g h \<Longrightarrow> same_config f h"
  by (cases f; cases g; cases h) (simp add: same_config_def)

lemma same_config_set_health [simp]: "same_config f (set_health n h f)"
  by (simp add: same_config_def set_health_def)

lemma same_configD:
  "same_config f g \<Longrightarrow> fb_chain g = fb_chain f \<and> fb_policy g = fb_policy f \<and>
     fb_metadata g = fb_metadata f \<and> fb_max_retries g = fb_max_retries f \<and>
     fb_max_attempts g = fb_max_attempts f \<and> fb_cooldown_ms g = fb_cooldown_ms f \<and>
     fb_jitter g = fb_jitter f"
  by (cases f; cases g) (simp add: same_config_def)

lemma set_health_simps [simp]:
  "fb_chain (set_health n h f) = fb_chain f"
  "fb_policy (set_health n h f) = fb_policy f"
  "fb_metadata (set_health n h f) = fb_metadata f"
  "fb_max_retries (set_health n h f) = fb_max_retries f"
  "fb_max_attempts (set_health n h f) = fb_max_attempts f"
  "fb_cooldown_ms (set_health n h f) = fb_cooldown_ms f"
  "fb_jitter (set_health n h f) = fb_jitter f"
  "map_get (fb_health (set_health n h f)) = (map_get (fb_health f))(n \<mapsto> h)"
  "names (set_health n h f) = names f"
  by (simp_all add: set_health_def map_get_set names_def)

lemma fallback_inv_set_health [keeps]:
  "fallback_inv f \<Longrightarrow> n \<in> names f \<Longrightarrow> retry_count h \<le> fb_max_retries f \<Longrightarrow>
     fallback_inv (set_health n h f)"
  by (auto simp: fallback_inv_def) (auto simp: set_health_def map_keys_set)

lemma fallback_inv_get:
  "fallback_inv f \<Longrightarrow> n \<in> names f \<longleftrightarrow> (\<exists>h. map_get (fb_health f) n = Some h)"
  by (metis fallback_inv_def map_get_dom not_None_eq)

lemma fallback_inv_bound:
  "fallback_inv f \<Longrightarrow> map_get (fb_health f) n = Some h \<Longrightarrow> retry_count h \<le> fb_max_retries f"
  by (simp add: fallback_inv_def)

lemma find_route_SomeD:
  "find_route f n = Some r \<Longrightarrow> r \<in> set (fb_chain f) \<and> route_name r = n"
  by (auto simp: find_route_def find_Some_iff)

lemma find_route_names: "find_route f n = Some r \<Longrightarrow> n \<in> names f"
  by (auto dest!: find_route_SomeD simp: names_def)

text \<open>What \<open>first_available\<close> does to the router: nothing, or start the probe of the route it found.\<close>

lemma first_available_frame:
  "first_available now ctx excl rs f = (res, g) \<Longrightarrow>
     g = f \<or> (\<exists>r h. res = Inr (Some r) \<and> r \<in> set rs \<and> Some (route_name r) \<noteq> excl \<and>
       map_get (fb_health f) (route_name r) = Some h \<and> cooldown_until h \<noteq> 0 \<and>
       cooldown_until h \<le> now \<and> \<not> half_open h \<and>
       g = set_health (route_name r) (h\<lparr>half_open := True\<rparr>) f)"
proof (induction now ctx excl rs f rule: first_available.induct)
  case (2 now ctx excl r rs f)
  then show ?case
    by (auto split: if_splits sum.splits bool.splits option.splits)
qed simp

lemma first_available_config: "same_config f (snd (first_available now ctx excl rs f))"
  using first_available_frame [of now ctx excl rs f]
  by (cases "first_available now ctx excl rs f") auto

lemma first_available_inv:
  assumes "fallback_inv f"
  shows "fallback_inv (snd (first_available now ctx excl rs f))"
proof -
  obtain res g where g: "first_available now ctx excl rs f = (res, g)"
    by (cases "first_available now ctx excl rs f")
  with first_available_frame [OF g] assms show ?thesis
    by (auto intro!: keeps simp: fallback_inv_get fallback_inv_bound)
qed

text \<open>The route it finds is the first eligible open one; those before it were not.\<close>

definition open_route :: "int \<Rightarrow> 'm fallback \<Rightarrow> route \<Rightarrow> bool" where
  "open_route now f r = (case map_get (fb_health f) (route_name r) of
     None \<Rightarrow> False
   | Some h \<Rightarrow> cooldown_until h = 0 \<or> cooldown_until h \<le> now \<and> \<not> half_open h)"

definition candidate :: "int \<Rightarrow> router_context \<Rightarrow> string option \<Rightarrow> 'm fallback \<Rightarrow> route \<Rightarrow> bool" where
  "candidate now ctx excl f r \<longleftrightarrow>
     Some (route_name r) \<noteq> excl \<and> fb_policy f r ctx = Inr True \<and> open_route now f r"

lemma first_available_take:
  "first_available now ctx excl (q # rs) f = (Inr (Some r), g) \<Longrightarrow> candidate now ctx excl f q \<Longrightarrow> r = q"
  by (auto simp: candidate_def open_route_def split: option.splits if_splits)

lemma first_available_skip:
  "first_available now ctx excl (q # rs) f = (Inr x, g) \<Longrightarrow> \<not> candidate now ctx excl f q \<Longrightarrow>
     first_available now ctx excl rs f = (Inr x, g)"
  by (auto simp: candidate_def open_route_def split: option.splits if_splits sum.splits bool.splits)

lemma first_available_first:
  "first_available now ctx excl rs f = (Inr (Some r), g) \<Longrightarrow>
     \<exists>ps qs. rs = ps @ r # qs \<and> candidate now ctx excl f r \<and>
       (\<forall>p \<in> set ps. \<not> candidate now ctx excl f p)"
proof (induction rs)
  case (Cons q rs)
  show ?case
  proof (cases "candidate now ctx excl f q")
    case True
    with first_available_take [OF Cons.prems] show ?thesis
      by (intro exI [of _ "[]"] exI [of _ rs]) simp
  next
    case False
    from Cons.IH [OF first_available_skip [OF Cons.prems False]]
    obtain ps qs where "rs = ps @ r # qs" "candidate now ctx excl f r"
      "\<forall>p \<in> set ps. \<not> candidate now ctx excl f p" by blast
    with False show ?thesis by (intro exI [of _ "q # ps"] exI [of _ qs]) simp
  qed
qed simp

lemma first_available_None:
  "first_available now ctx excl rs f = (Inr None, g) \<Longrightarrow> \<forall>r \<in> set rs. \<not> candidate now ctx excl f r"
proof (induction rs)
  case (Cons q rs)
  have "\<not> candidate now ctx excl f q"
    using Cons.prems by (auto simp: candidate_def open_route_def split: option.splits if_splits)
  with Cons.IH [OF first_available_skip [OF Cons.prems]] show ?case by simp
qed simp

subsection \<open>Every operation keeps the invariant\<close>

definition evolves :: "'m fallback \<Rightarrow> 'm fallback \<Rightarrow> bool" where
  "evolves f g \<longleftrightarrow> same_config f g \<and> fallback_inv g"

lemma evolves_trans: "evolves f g \<Longrightarrow> evolves g h \<Longrightarrow> evolves f h"
  by (auto simp: evolves_def intro: same_config_trans)

lemma evolves_refl: "fallback_inv f \<Longrightarrow> evolves f f"
  by (simp add: evolves_def)

lemma evolves_set_health:
  "fallback_inv f \<Longrightarrow> n \<in> names f \<Longrightarrow> retry_count h \<le> fb_max_retries f \<Longrightarrow>
     evolves f (set_health n h f)"
  by (simp add: evolves_def fallback_inv_set_health)

lemma evolves_names: "evolves f g \<Longrightarrow> names g = names f \<and> fb_max_retries g = fb_max_retries f"
  by (auto simp: evolves_def names_def dest!: same_configD)

lemma evolves_available:
  assumes "fallback_inv f" and "available_route now ctx excl f = (res, g)"
  shows "evolves f g"
  using first_available_config [of f now ctx excl "fb_chain f"]
    first_available_inv [OF assms(1), of now ctx excl "fb_chain f"] assms(2)
  by (simp add: available_route_def evolves_def)

lemma evolves_pick:
  assumes "fallback_inv f"
  shows "evolves f (snd (fallback_pick now ctx hint f))"
  using evolves_available [OF assms] evolves_refl [OF assms]
  by (auto simp: fallback_pick_def split: option.splits prod.splits sum.splits)

lemma evolves_backoff:
  assumes "fallback_inv f" and "pe_provider e \<in> names f" and "retry_count h < fb_max_retries f"
    and "\<And>h. retry_count (k h) = retry_count h"
  shows "evolves f (snd (retry_after_backoff sleep e ctx r reason k h f))"
proof -
  let ?f' = "set_health (pe_provider e) (h\<lparr>retry_count := retry_count h + 1\<rparr>) f"
  have f': "evolves f ?f'"
    using assms by (intro evolves_set_health) auto
  then have "evolves ?f' (set_health (pe_provider e) (k (h\<lparr>retry_count := retry_count h + 1\<rparr>)) ?f')"
    using assms by (intro evolves_set_health) (auto simp: evolves_def)
  with f' show ?thesis
    by (auto simp: retry_after_backoff_def Let_def split: sum.splits intro: evolves_trans)
qed

lemma evolves_switch:
  assumes inv: "fallback_inv f" and n: "pe_provider e \<in> names f"
    and le: "retry_count h \<le> fb_max_retries f"
  shows "evolves f (snd (switch_provider now sleep e ctx r h f))"
proof -
  let ?h2 = "h\<lparr>cooldown_until := now + max (fb_cooldown_ms f) (or_default (pe_retry_after e) 0)\<rparr>"
  let ?f2 = "set_health (pe_provider e) ?h2 f"
  have f2: "evolves f ?f2" using inv n le by (intro evolves_set_health) auto
  then have inv2: "fallback_inv ?f2" by (simp add: evolves_def)
  obtain res f3 where av: "available_route now ctx (Some (pe_provider e)) ?f2 = (res, f3)"
    by (cases "available_route now ctx (Some (pe_provider e)) ?f2")
  have f3: "evolves f f3"
    using f2 evolves_available [OF inv2 av] by (rule evolves_trans)
  then have inv3: "fallback_inv f3" and n3: "pe_provider e \<in> names f3"
    and max3: "fb_max_retries f3 = fb_max_retries f"
    using n evolves_names [OF f3] by (auto simp: evolves_def)
  have reset: "evolves f (set_health (pe_provider e) (?h2\<lparr>retry_count := 0\<rparr>) f3)"
    by (rule evolves_trans [OF f3 evolves_set_health]) (use inv3 n3 in auto)
  have "evolves f (snd (retry_after_backoff sleep e ctx r ''retry'' (\<lambda>h. h\<lparr>cooldown_until := 0\<rparr>)
      ?h2 f3))" if "retry_count h < fb_max_retries f"
    using that inv3 n3 max3 by (intro evolves_trans [OF f3 evolves_backoff]) auto
  with f3 reset av show ?thesis
    by (auto simp: switch_provider_def Let_def split: sum.splits option.splits)
qed

lemma evolves_on_error:
  assumes inv: "fallback_inv f"
  shows "evolves f (snd (fallback_on_error now sleep e ctx f))"
proof (cases "find_route f (pe_provider e)")
  case None
  then show ?thesis using inv by (simp add: fallback_on_error_def evolves_refl)
next
  case (Some r)
  then have n: "pe_provider e \<in> names f" by (rule find_route_names)
  with inv obtain h0 where h0: "map_get (fb_health f) (pe_provider e) = Some h0"
    using fallback_inv_get by blast
  let ?h = "h0\<lparr>failures := failures h0 @ [safe_error e], half_open := False\<rparr>"
  let ?f1 = "set_health (pe_provider e) ?h f"
  have le: "retry_count ?h \<le> fb_max_retries f" using fallback_inv_bound [OF inv h0] by simp
  have f1: "evolves f ?f1" by (rule evolves_set_health [OF inv n le])
  then have inv1: "fallback_inv ?f1" by (simp add: evolves_def)
  have backoff: "evolves f (snd (retry_after_backoff sleep e ctx r reason (\<lambda>h. h) ?h ?f1))"
    if "retry_count h0 < fb_max_retries f" for reason
    using that n inv1 by (intro evolves_trans [OF f1 evolves_backoff]) auto
  have switch: "evolves f (snd (switch_provider now sleep e ctx r ?h ?f1))"
    using le n inv1 by (intro evolves_trans [OF f1 evolves_switch]) auto
  show ?thesis
    using Some h0 f1 backoff switch evolves_refl [OF inv]
    by (auto simp: fallback_on_error_def Let_def split: option.splits)
qed

lemma evolves_on_success: "fallback_inv f \<Longrightarrow> evolves f (fallback_on_success n f)"
  by (auto simp: fallback_on_success_def fresh_health_def fallback_inv_get evolves_refl
      intro!: evolves_set_health split: option.splits)

datatype fallback_call =
    Pick int router_context "router_hint option"
  | On_Error int "int \<Rightarrow> unit result" provider_error router_context
  | On_Success string

fun fallback_step :: "'m fallback \<Rightarrow> fallback_call \<Rightarrow> 'm fallback" where
  "fallback_step f (Pick now ctx hint) = snd (fallback_pick now ctx hint f)"
| "fallback_step f (On_Error now sleep e ctx) = snd (fallback_on_error now sleep e ctx f)"
| "fallback_step f (On_Success n) = fallback_on_success n f"

lemma evolves_step: "fallback_inv f \<Longrightarrow> evolves f (fallback_step f c)"
  by (cases c) (simp_all add: evolves_pick evolves_on_error evolves_on_success)

interpretation fbm: invariant_machine fallback_step fallback_inv
  by unfold_locales (use evolves_step in \<open>auto simp: evolves_def\<close>)

lemma evolves_run: "fallback_inv f \<Longrightarrow> evolves f (foldl fallback_step f cs)"
proof (induction cs arbitrary: f)
  case (Cons c cs)
  have "evolves f (fallback_step f c)" using Cons.prems by (rule evolves_step)
  moreover from this have "evolves (fallback_step f c) (foldl fallback_step (fallback_step f c) cs)"
    by (intro Cons.IH) (simp add: evolves_def)
  ultimately show ?case by (auto intro: evolves_trans)
qed (simp add: evolves_refl)

lemma initial_health_ok:
  "initial_health rs m = Inr m' \<Longrightarrow> map_wf m \<Longrightarrow>
     map_wf m' \<and> map_keys m' = map_keys m @ map route_name rs \<and>
     (\<forall>n h. map_get m' n = Some h \<longrightarrow> map_get m n = Some h \<or> h = fresh_health)"
proof (induction rs arbitrary: m)
  case (Cons r rs)
  then have fresh: "route_name r \<notin> set (map_keys m)"
    and rec: "initial_health rs (map_set (route_name r) fresh_health m) = Inr m'"
    by (auto simp: map_has_def map_get_dom [symmetric] split: if_splits)
  from Cons.IH [OF rec] Cons.prems(2) fresh show ?case
    by (auto simp: map_keys_set map_get_set split: if_splits)
qed simp

lemma new_fallback_inv:
  assumes "new_fallback chain opts = Inr f"
  shows "fallback_inv f \<and> mset (fb_chain f) = mset chain"
proof -
  obtain hs where hs: "initial_health chain [] = Inr hs"
    and f: "f = \<lparr>fb_chain = sort_key (\<lambda>r. - r_priority r) chain, fb_health = hs,
             fb_cooldown_ms = or_default (fo_cooldown_ms opts) 60000,
             fb_max_attempts = or_default (fo_max_attempts opts) 6,
             fb_max_retries = or_default (fo_max_retries opts) 2,
             fb_jitter = or_default (fo_jitter opts) (\<lambda>ms. ms),
             fb_policy = or_default (fo_policy opts) (\<lambda>_ _. Inr True),
             fb_metadata = fo_metadata opts\<rparr>"
    using assms by (auto simp: new_fallback_def bind_result_Inr_iff split: if_splits)
  note ok = initial_health_ok [OF hs map_wf_empty]
  then have "distinct (map route_name chain)" by (auto simp: map_wf_def)
  then have "distinct (map route_name (sort_key (\<lambda>r. - r_priority r) chain))"
    by (metis mset_map mset_eq_imp_distinct_iff mset_sort)
  moreover have "retry_count h = 0" if "map_get hs n = Some h" for n h
  proof -
    from ok that have "h = fresh_health" by auto
    then show ?thesis by (simp add: fresh_health_def)
  qed
  ultimately show ?thesis
    using ok f by (simp add: fallback_inv_def names_def)
qed

section \<open>Concrete routers\<close>

definition demo_route :: "nat \<Rightarrow> string \<Rightarrow> rat \<Rightarrow> route" where
  "demo_route k n p = \<lparr>r_provider = demo_client k n, r_model = ''m'', r_priority = p\<rparr>"

definition demo_ctx :: "string option \<Rightarrow> nat \<Rightarrow> router_context" where
  "demo_ctx sticky n = \<lparr>rc_session = \<lparr>rs_id = ''s'', rs_cost = Fin 0, rs_last_provider = None,
      rs_sticky = sticky\<rparr>, rc_turn_id = ''t'', rc_attempts = n, rc_budget = None,
     rc_elapsed = None, rc_estimated = None, rc_aborted = False\<rparr>"

definition demo_options :: "unit fallback_options" where
  "demo_options = \<lparr>fo_cooldown_ms = None, fo_max_attempts = None, fo_max_retries = Some 1,
     fo_jitter = None, fo_policy = None, fo_metadata = None\<rparr>"

definition demo_error :: "string \<Rightarrow> category \<Rightarrow> provider_error" where
  "demo_error n c = \<lparr>pe_message = [], pe_provider = n, pe_model = None, pe_status = None,
     pe_category = c, pe_retryable = True, pe_retry_after = None\<rparr>"

lemmas demo_router_defs = demo_route_def demo_ctx_def demo_options_def demo_error_def
  demo_client_def

section \<open>Properties of the fallback router\<close>

lemma sort_key_priority: "sorted (map (\<lambda>r. - r_priority r) (sort_key (\<lambda>r. - r_priority r) rs))"
  by simp

text \<open>
  In every reachable state of a fallback router, a pick without a sticky provider and without
  an explicit model returns an eligible open route of the chain such that every route before it in
  the priority order is ineligible, cooling down, or already being probed.
\<close>
theorem pick_takes_first_open_route:
  assumes "new_fallback chain opts = Inr f0" and "f = foldl fallback_step f0 calls"
    and "truthy (rs_sticky (rc_session ctx)) = None" and "split_explicit (explicit_model hint) = None"
    and "fst (fallback_pick now ctx hint f) = Inr d"
  shows "\<exists>ps r qs. sort_key (\<lambda>r. - r_priority r) chain = ps @ r # qs \<and>
    d_provider d = r_provider r \<and> candidate now ctx None f r \<and>
    (\<forall>p \<in> set ps. \<not> candidate now ctx None f p) \<and> \<not> exhausted f ctx"
proof -
  obtain res g where av: "available_route now ctx None f = (res, g)"
    by (cases "available_route now ctx None f")
  then obtain r where r: "res = Inr (Some r)" "d_provider d = r_provider r" "\<not> exhausted f ctx"
    using assms(3-5)
    by (auto simp: fallback_pick_def mk_decision_def split: if_splits sum.splits option.splits)
  have "fb_chain f = fb_chain f0"
    using evolves_run [of f0 calls] new_fallback_inv [OF assms(1)] assms(2)
    by (auto simp: evolves_def dest!: same_configD)
  moreover have "fb_chain f0 = sort_key (\<lambda>r. - r_priority r) chain"
    using assms(1) by (auto simp: new_fallback_def bind_result_Inr_iff split: if_splits)
  ultimately show ?thesis
    using first_available_first [OF av [unfolded available_route_def r(1)]] r(2,3) by auto
qed

theorem pick_takes_first_open_route_witness:
  "\<exists>f0. new_fallback [demo_route 0 ''a'' 1, demo_route 1 ''b'' 2] demo_options = Inr f0 \<and>
    (\<exists>ps r qs. sort_key (\<lambda>r. - r_priority r) [demo_route 0 ''a'' 1, demo_route 1 ''b'' 2] = ps @ r # qs \<and>
      candidate 5 (demo_ctx None 0) None (foldl fallback_step f0 [On_Success ''b'']) r)"
proof -
  obtain f0 where f0: "new_fallback [demo_route 0 ''a'' 1, demo_route 1 ''b'' 2] demo_options = Inr f0"
    by (simp add: new_fallback_def map_has_def demo_route_def demo_client_def)
  obtain d where "fst (fallback_pick 5 (demo_ctx None 0) None
      (foldl fallback_step f0 [On_Success ''b''])) = Inr d"
    using f0 by (auto simp: new_fallback_def map_has_def demo_router_defs fallback_pick_def truthy_def
        exhausted_def split_explicit_def explicit_model_def available_route_def fallback_on_success_def
        set_health_def fresh_health_def)
  from pick_takes_first_open_route [OF f0 refl _ _ this]
  have "\<exists>ps r qs. sort_key (\<lambda>r. - r_priority r) [demo_route 0 ''a'' 1, demo_route 1 ''b'' 2] =
      ps @ r # qs \<and> candidate 5 (demo_ctx None 0) None (foldl fallback_step f0 [On_Success ''b'']) r"
    unfolding demo_ctx_def truthy_def split_explicit_def explicit_model_def
    by (simp del: sort_key_simps foldl_Cons) blast
  with f0 show ?thesis by blast
qed

text \<open>
  Bounded retries: however the router is called, no provider is ever retried more often than
  the configured limit without a success or a switch in between, and once the attempt, cost or time
  budget is spent, an error is never answered with another attempt.
\<close>
theorem retries_are_bounded:
  assumes "new_fallback chain opts = Inr f0" and "f = foldl fallback_step f0 calls"
  shows "(\<forall>n h. map_get (fb_health f) n = Some h \<longrightarrow>
      retry_count h \<le> or_default (fo_max_retries opts) 2) \<and>
    (exhausted f ctx \<longrightarrow> fallback_on_error now sleep e ctx f = (Inr None, f))"
proof -
  have inv0: "fallback_inv f0" using new_fallback_inv [OF assms(1)] by simp
  have ev: "evolves f0 f" unfolding assms(2) by (rule evolves_run [OF inv0])
  have "fb_max_retries f0 = or_default (fo_max_retries opts) 2"
    using assms(1) by (auto simp: new_fallback_def bind_result_Inr_iff split: if_splits)
  moreover have "fallback_inv f" "fb_max_retries f = fb_max_retries f0"
    using ev evolves_names [OF ev] by (simp_all add: evolves_def)
  ultimately have "retry_count h \<le> or_default (fo_max_retries opts) 2"
    if "map_get (fb_health f) n = Some h" for n h
    using fallback_inv_bound [of f n h] that by simp
  then show ?thesis
    by (auto simp: fallback_on_error_def split: option.splits)
qed

theorem retries_are_bounded_witness:
  "\<exists>f0. new_fallback [demo_route 0 ''a'' 1] demo_options = Inr f0 \<and>
    (\<forall>n h. map_get (fb_health (foldl fallback_step f0
        [On_Error 0 (\<lambda>_. Inr ()) (demo_error ''a'' Network) (demo_ctx None 0),
         On_Error 0 (\<lambda>_. Inr ()) (demo_error ''a'' Network) (demo_ctx None 1)])) n = Some h \<longrightarrow>
      retry_count h \<le> 1)"
proof -
  obtain f0 where f0: "new_fallback [demo_route 0 ''a'' 1] demo_options = Inr f0"
    by (simp add: new_fallback_def map_has_def demo_route_def demo_client_def)
  from retries_are_bounded [OF f0 refl, of
      "[On_Error 0 (\<lambda>_. Inr ()) (demo_error ''a'' Network) (demo_ctx None 0),
        On_Error 0 (\<lambda>_. Inr ()) (demo_error ''a'' Network) (demo_ctx None 1)]"] f0
  show ?thesis by (auto simp: demo_options_def)
qed

text \<open>
  A sticky provider is never replaced: while a session is bound to a provider, a pick or an
  error is answered with that provider or not at all.
\<close>
theorem sticky_provider_is_kept:
  assumes "truthy (rs_sticky (rc_session ctx)) = Some p"
  shows "(fst (fallback_pick now ctx hint f) = Inr d \<longrightarrow> client_name (d_provider d) = p) \<and>
    (fst (fallback_on_error now sleep e ctx f) = Inr (Some d') \<longrightarrow>
       client_name (d_provider d') = p)"
proof -
  have "client_name (d_provider d') = p"
    if res: "fst (fallback_on_error now sleep e ctx f) = Inr (Some d')"
  proof -
    obtain r where r: "find_route f (pe_provider e) = Some r"
      using res by (auto simp: fallback_on_error_def split: option.splits)
    have "d_provider d' = r_provider r \<and> p = pe_provider e"
      using res r assms
      by (auto simp: fallback_on_error_def retry_after_backoff_def Let_def bind_result_Inr_iff
          mk_decision_def split: option.splits if_splits sum.splits)
    with find_route_SomeD [OF r] show ?thesis by simp
  qed
  moreover have "fst (fallback_pick now ctx hint f) = Inr d \<longrightarrow> client_name (d_provider d) = p"
    using assms by (auto simp: fallback_pick_def bind_result_Inr_iff mk_decision_def
        split: option.splits if_splits dest!: find_route_SomeD)
  ultimately show ?thesis by blast
qed

theorem sticky_provider_is_kept_witness:
  "\<exists>f d. new_fallback [demo_route 0 ''a'' 1, demo_route 1 ''b'' 2] demo_options = Inr f \<and>
    fst (fallback_pick 0 (demo_ctx (Some ''a'') 0) None f) = Inr d \<and>
    client_name (d_provider d) = ''a''"
proof -
  obtain f where f: "new_fallback [demo_route 0 ''a'' 1, demo_route 1 ''b'' 2] demo_options = Inr f"
    by (simp add: new_fallback_def map_has_def demo_route_def demo_client_def)
  obtain d where "fst (fallback_pick 0 (demo_ctx (Some ''a'') 0) None f) = Inr d"
    using f by (auto simp: new_fallback_def map_has_def demo_router_defs fallback_pick_def truthy_def
        find_route_def)
  with f sticky_provider_is_kept [of "demo_ctx (Some ''a'') 0" "''a''" 0 None f d] show ?thesis
    by (auto simp: demo_ctx_def truthy_def)
qed

text \<open>
  A half-open probe that fails with an error that is not retried is never closed: the router
  gives up without clearing the flag, and from then on the provider is not picked again at any time,
  whatever errors it reports and however often it is asked, until it happens to succeed.
\<close>
theorem failed_probe_is_stuck:
  assumes "map_get (fb_health f) n = Some h" and "half_open h" and "cooldown_until h \<noteq> 0"
    and "\<forall>c \<in> set calls. (\<exists>now ctx hint. c = Pick now ctx hint) \<or>
      (\<exists>now sleep e ctx. c = On_Error now sleep e ctx \<and> no_retry (pe_category e))"
  shows "\<forall>now ctx excl r. route_name r = n \<longrightarrow>
    \<not> candidate now ctx excl (foldl fallback_step f calls) r"
proof -
  have "map_get (fb_health (foldl fallback_step f calls)) n = Some h"
    using assms(1,4)
  proof (induction calls arbitrary: f)
    case (Cons c calls)
    have "map_get (fb_health (snd (first_available now ctx excl rs f))) n = Some h"
      for now ctx excl rs
      using first_available_frame [of now ctx excl rs f] Cons.prems(1) assms(2)
      by (cases "first_available now ctx excl rs f") auto
    then have pick: "map_get (fb_health (snd (fallback_pick now ctx hint f))) n = Some h"
      for now ctx hint
      using Cons.prems(1)
      by (auto simp: fallback_pick_def available_route_def split: option.splits prod.splits sum.splits)
        (metis snd_conv)+
    have "map_get (fb_health (snd (fallback_on_error now sleep e ctx f))) n = Some h"
      if "no_retry (pe_category e)" for now sleep e ctx
      using that Cons.prems(1) by (auto simp: fallback_on_error_def split: option.splits)
    with pick Cons show ?case by auto
  qed simp
  with assms(2,3) show ?thesis
    by (auto simp: candidate_def open_route_def)
qed

theorem failed_probe_is_stuck_witness:
  "\<exists>f :: unit fallback. map_get (fb_health f) ''a'' = Some \<lparr>retry_count = 0, cooldown_until = 7, half_open = True,
       failures = []\<rparr> \<and>
    \<not> candidate 1000 (demo_ctx None 0) None (foldl fallback_step f
       [On_Error 8 (\<lambda>_. Inr ()) (demo_error ''a'' Auth) (demo_ctx None 0),
        Pick 900 (demo_ctx None 0) None]) (demo_route 0 ''a'' 1)"
proof -
  let ?h = "\<lparr>retry_count = 0, cooldown_until = 7, half_open = True, failures = []\<rparr>"
  obtain f0 :: "unit fallback" where "new_fallback [demo_route 0 ''a'' 1] demo_options = Inr f0"
    by (simp add: new_fallback_def map_has_def demo_route_def demo_client_def)
  let ?f = "set_health ''a'' ?h f0"
  let ?cs = "[On_Error 8 (\<lambda>_. Inr ()) (demo_error ''a'' Auth) (demo_ctx None 0),
      Pick 900 (demo_ctx None 0) None]"
  have "\<forall>now ctx excl r. route_name r = ''a'' \<longrightarrow>
      \<not> candidate now ctx excl (foldl fallback_step ?f ?cs) r"
    by (rule failed_probe_is_stuck [where h = ?h]) (simp_all add: demo_error_def no_retry_def)
  then show ?thesis
    by (intro exI [of _ ?f]) (simp add: demo_route_def demo_client_def)
qed

end
