(* ===== verification/Session.thy ===== *)
theory Session
  imports Provider
begin

text \<open>
  The session state of \<open>packages/core/src/session.ts\<close>: turns, messages, cumulative usage, lineage
  and resource budget, its creation and the versioned update every writer goes through. Also the
  type of JSON values, which instantiates the arguments of tool calls.
\<close>

section \<open>JSON values\<close>

text \<open>An object lists its members in order; a later member of the same name wins.\<close>

datatype json =
    J_Null
  | J_Bool bool
  | J_Num rat
  | J_Str ustr
  | J_Arr "json list"
  | J_Obj "(ustr \<times> json) list"

section \<open>Session state\<close>

datatype turn_status =
  Streaming | Compacting | Awaiting_Tool | Awaiting_User | Turn_Done | Turn_Aborted | Turn_Error

record turn =
  t_id :: string
  t_start_message :: string
  t_end_message :: "string option"
  t_status :: turn_status
  t_parent_turn :: "string option"
  t_parent_depth :: nat
  t_agent_type :: "string option"
  t_sticky :: "string option"

record cumulative_usage =
  cu_input :: int
  cu_output :: int
  cu_cache_read :: "int option"
  cu_cache_write :: "int option"
  cu_cost :: rat

record context_budget =
  cb_max_tokens :: int
  cb_current_tokens :: int
  cb_last_compacted :: "string option"

record lineage =
  l_depth :: nat
  l_parent_session :: "string option"
  l_parent_turn :: "string option"
  l_agent_type :: "string option"
  l_root_session :: "string option"

record resource_budget =
  rb_token_max :: "int option"
  rb_cost_max :: "rat option"
  rb_time_max :: "int option"
  rb_tool_call_max :: "int option"

record session_state =
  ss_id :: string
  ss_cwd :: ustr
  ss_created_at :: int
  ss_version :: nat
  ss_messages :: "json message list"
  ss_turns :: "turn list"
  ss_active_turn :: "string option"
  ss_usage :: cumulative_usage
  ss_budget :: context_budget
  ss_tool_snapshot :: string
  ss_pending_interrupt :: bool
  ss_system_prompt :: "ustr option"
  ss_model :: "string option"
  ss_lineage :: lineage
  ss_resource_budget :: "resource_budget option"

text \<open>\<open>updateSession\<close>: the recipe on a draft, then the version counts one more write.\<close>

definition update_session :: "session_state \<Rightarrow> (session_state \<Rightarrow> session_state) \<Rightarrow> session_state" where
  "update_session s recipe = (let d = recipe s in d\<lparr>ss_version := ss_version d + 1\<rparr>)"

lemma update_session_simps [simp]:
  "ss_id (update_session s f) = ss_id (f s)"
  "ss_cwd (update_session s f) = ss_cwd (f s)"
  "ss_version (update_session s f) = ss_version (f s) + 1"
  "ss_messages (update_session s f) = ss_messages (f s)"
  "ss_turns (update_session s f) = ss_turns (f s)"
  "ss_active_turn (update_session s f) = ss_active_turn (f s)"
  "ss_usage (update_session s f) = ss_usage (f s)"
  "ss_pending_interrupt (update_session s f) = ss_pending_interrupt (f s)"
  "ss_system_prompt (update_session s f) = ss_system_prompt (f s)"
  "ss_model (update_session s f) = ss_model (f s)"
  "ss_lineage (update_session s f) = ss_lineage (f s)"
  "ss_resource_budget (update_session s f) = ss_resource_budget (f s)"
  by (simp_all add: update_session_def Let_def)

definition no_usage :: cumulative_usage where
  "no_usage = \<lparr>cu_input = 0, cu_output = 0, cu_cache_read = None, cu_cache_write = None, cu_cost = 0\<rparr>"

text \<open>
  \<open>createSession\<close>; \<open>now\<close> is \<open>Date.now()\<close>. A session without an explicit lineage root is its own
  root, also when the rest of the lineage is given.
\<close>

definition create_session ::
  "int \<Rightarrow> string \<Rightarrow> ustr \<Rightarrow> string \<Rightarrow> int \<Rightarrow> lineage option \<Rightarrow> resource_budget option \<Rightarrow> session_state"
where
  "create_session now sid cwd snapshot max_tokens lin budget =
     \<lparr>ss_id = sid, ss_cwd = cwd, ss_created_at = now, ss_version = 0, ss_messages = [],
      ss_turns = [], ss_active_turn = None, ss_usage = no_usage,
      ss_budget = \<lparr>cb_max_tokens = max_tokens, cb_current_tokens = 0, cb_last_compacted = None\<rparr>,
      ss_tool_snapshot = snapshot, ss_pending_interrupt = False, ss_system_prompt = None,
      ss_model = None,
      ss_lineage = (case lin of
          Some l \<Rightarrow> l\<lparr>l_root_session :=
            Some (case l_root_session l of Some r \<Rightarrow> r | None \<Rightarrow> sid)\<rparr>
        | None \<Rightarrow> \<lparr>l_depth = 0, l_parent_session = None, l_parent_turn = None,
                   l_agent_type = None, l_root_session = Some sid\<rparr>),
      ss_resource_budget = budget\<rparr>"

definition lineage_root_session_id :: "session_state \<Rightarrow> string" where
  "lineage_root_session_id s =
     (case l_root_session (ss_lineage s) of Some r \<Rightarrow> r | None \<Rightarrow> ss_id s)"

text \<open>
  A child session's lineage, as the dispatcher builds it, names the parent and hands the parent's
  root down. However deep the tree, every descendant then has the root of the top-level session.
\<close>

definition child_lineage :: "session_state \<Rightarrow> string \<Rightarrow> string option \<Rightarrow> lineage" where
  "child_lineage parent turn agent =
     \<lparr>l_depth = l_depth (ss_lineage parent) + 1, l_parent_session = Some (ss_id parent),
      l_parent_turn = Some turn, l_agent_type = agent,
      l_root_session = Some (lineage_root_session_id parent)\<rparr>"

lemma root_of_child:
  "lineage_root_session_id
     (create_session now sid cwd snap n (Some (child_lineage parent turn agent)) b) =
   lineage_root_session_id parent"
  by (simp add: lineage_root_session_id_def create_session_def child_lineage_def)

lemma root_of_top:
  "lineage_root_session_id (create_session now sid cwd snap n None b) = sid"
  by (simp add: lineage_root_session_id_def create_session_def)

section \<open>Turns\<close>

text \<open>The first turn of the given id, as \<open>turns.find\<close>, with its status replaced in place.\<close>

fun set_turn_status :: "string \<Rightarrow> turn_status \<Rightarrow> turn list \<Rightarrow> turn list" where
  "set_turn_status i st [] = []"
| "set_turn_status i st (t # ts) =
     (if t_id t = i then t\<lparr>t_status := st\<rparr> # ts else t # set_turn_status i st ts)"

lemma set_turn_status_ids [simp]: "map t_id (set_turn_status i st ts) = map t_id ts"
  by (induction ts) auto

lemma set_turn_status_length [simp]: "length (set_turn_status i st ts) = length ts"
  by (induction ts) auto

lemma set_turn_status_found:
  "i \<in> t_id ` set ts \<Longrightarrow> \<exists>t \<in> set (set_turn_status i st ts). t_id t = i \<and> t_status t = st"
  by (induction ts) auto

text \<open>Optional counters, where an absent one counts as zero.\<close>

definition or_zero :: "'a::zero option \<Rightarrow> 'a" where
  "or_zero x = (case x of None \<Rightarrow> 0 | Some v \<Rightarrow> v)"

lemma or_zero_simps [simp]: "or_zero None = 0" "or_zero (Some v) = v"
  by (simp_all add: or_zero_def)

definition add_usage :: "cumulative_usage \<Rightarrow> usage \<Rightarrow> cumulative_usage" where
  "add_usage c u =
     \<lparr>cu_input = cu_input c + u_input u, cu_output = cu_output c + u_output u,
      cu_cache_read = Some (or_zero (cu_cache_read c) + or_zero (u_cache_read u)),
      cu_cache_write = Some (or_zero (cu_cache_write c) + or_zero (u_cache_write u)),
      cu_cost = cu_cost c + or_zero (u_cost u)\<rparr>"

end
