(* ===== verification/Events.thy ===== *)
theory Events
  imports Session
begin

text \<open>
  The event contract of \<open>packages/shared/src/events/\<close> and the bus of
  \<open>packages/core/src/event-bus.ts\<close>: one payload constructor per event, one validity predicate per
  schema file, the envelope, \<open>emit\<close> and \<open>forward\<close> over the registered listeners, and the
  de-duplicating subscriber with its bounded memory of event ids. A field of a closed type
  (boolean, integer, enumeration) is valid by typing; the predicates keep what a schema adds.
\<close>

section \<open>Shared sub-schemas\<close>

definition min1 :: "'a list \<Rightarrow> bool" where
  "min1 s \<longleftrightarrow> s \<noteq> []"

definition opt_ok :: "('a \<Rightarrow> bool) \<Rightarrow> 'a option \<Rightarrow> bool" where
  "opt_ok p x = (case x of None \<Rightarrow> True | Some v \<Rightarrow> p v)"

lemma opt_ok_simps [simp]: "opt_ok p None" "opt_ok p (Some v) = p v"
  by (simp_all add: opt_ok_def)

definition nonneg :: "'a::linordered_idom \<Rightarrow> bool" where
  "nonneg x \<longleftrightarrow> 0 \<le> x"

definition positive :: "'a::linordered_idom \<Rightarrow> bool" where
  "positive x \<longleftrightarrow> 0 < x"

definition usage_ok :: "usage \<Rightarrow> bool" where
  "usage_ok u \<longleftrightarrow> nonneg (u_input u) \<and> nonneg (u_output u) \<and> opt_ok nonneg (u_cache_read u) \<and>
     opt_ok nonneg (u_cache_write u) \<and> opt_ok nonneg (u_cost u)"

definition attachment_ref_ok :: "attachment_ref \<Rightarrow> bool" where
  "attachment_ref_ok r = (case r of Inline _ \<Rightarrow> False | Path _ \<Rightarrow> True | Handle _ \<Rightarrow> True)"

fun content_part_ok :: "json content_part \<Rightarrow> bool" where
  "content_part_ok (Text t) = True"
| "content_part_ok (Thinking t s) = True"
| "content_part_ok (Image src mime) = attachment_ref_ok src"
| "content_part_ok (File src mime name) = attachment_ref_ok src"
| "content_part_ok (Tool_Use i n inp) = True"
| "content_part_ok (Tool_Result i cs e) = list_all content_part_ok cs"

section \<open>Payloads\<close>

datatype end_reason = Exit | Signal | Error_End
datatype abort_reason = User_Interrupt | Error_Abort | Stream_Interrupted
datatype exit_reason = Exited | Killed | Session_Ended_Exit
datatype delta_kind = Text_Kind | Thinking_Kind | Tool_Use_Kind
datatype http_method = Get | Post | Put | Delete_Method | Patch
datatype reflection_trigger = On_Error_Trigger | On_Compact | Every_N_Turns | Manual
datatype skip_reason =
  Budget_Exhausted | Disabled | No_New_Content | Preempted | Duplicate | Cooldown
datatype promote_scope = Global_Scope | Project_Scope
datatype settle_status = Completed | Failed | Cancelled_Run
datatype task_fail_reason = Task_Error | Task_Interrupted

record spec_summary =
  sp_fs :: "(string list option \<times> string list option) option"
  sp_bash :: "ustr option"
  sp_net :: "(ustr \<times> http_method) option"
  sp_env :: "string list option option"
  sp_custom :: "(ustr \<times> json) list option"

record dispatched =
  dp_session :: string
  dp_parent_session :: string
  dp_parent_turn :: string
  dp_agent_type :: "string option"
  dp_depth :: int
  dp_tier :: nat
  dp_fork :: bool
  dp_write_paths :: "string list option"
  dp_token_max :: "int option"
  dp_cost_max :: "rat option"
  dp_time_max :: "int option"
  dp_digest :: ustr
  dp_ctx_in :: int

record settled =
  st_session :: string
  st_status :: settle_status
  st_usage :: usage
  st_ctx_out :: int
  st_tool_calls :: int
  st_duration :: int
  st_conflicts :: "int option"
  st_detail :: "ustr option"

record tool_outcome =
  to_id :: string
  to_tool :: string
  to_is_error :: bool
  to_duration :: "int option"
  to_added :: "int option"
  to_removed :: "int option"
  to_blocked :: "bool option"
  to_blocked_by_hook :: bool

record task_ref =
  tr_task :: string
  tr_run :: string
  tr_scheduled :: int

datatype payload =
    Session_Started ustr "string option" "string option"
  | Session_Ended end_reason "int option"
  | Session_Resumed int int
  | Model_Changed string
  | Turn_Started string "string option" "string option"
  | Turn_Completed string usage "stop_reason option"
  | Turn_Aborted_Ev string abort_reason
  | Message_Appended string role "json content_part list"
  | Stream_Started string "string option" "string option"
  | Stream_Delta string delta_kind ustr
  | Stream_Completed string "usage option"
  | Tool_Requested string string json
  | Permission_Asked string string spec_summary
  | Tool_Started string string
  | Tool_Completed tool_outcome
  | Background_Started string ustr ustr
  | Background_Exited string int "exit_reason option" "int option"
  | Subagent_Dispatched dispatched
  | Subagent_Settled settled
  | Context_Compacted int int "string option" "string list option"
  | Router_Switched string "string option" string
  | Error_Raised string "string option" "(ustr \<times> json) list option"
  | Reflection_Scheduled reflection_trigger string
  | Reflection_Started string reflection_trigger "string option"
  | Reflection_Completed string usage int rat
  | Reflection_Failed string string
  | Reflection_Skipped skip_reason
  | Reflection_Promoted string string promote_scope
  | Task_Started task_ref
  | Task_Completed task_ref int
  | Task_Failed task_ref int task_fail_reason

subsection \<open>One predicate per schema\<close>

definition session_started_ok :: "ustr \<Rightarrow> string option \<Rightarrow> string option \<Rightarrow> bool" where
  "session_started_ok cwd hash version \<longleftrightarrow> min1 cwd"

definition session_resumed_ok :: "int \<Rightarrow> int \<Rightarrow> bool" where
  "session_resumed_ok tail_turns skipped \<longleftrightarrow> nonneg tail_turns \<and> nonneg skipped"

definition model_changed_ok :: "string \<Rightarrow> bool" where
  "model_changed_ok model \<longleftrightarrow> min1 model"

definition turn_started_ok :: "string \<Rightarrow> string option \<Rightarrow> string option \<Rightarrow> bool" where
  "turn_started_ok turn parent agent \<longleftrightarrow> min1 turn \<and> opt_ok min1 parent \<and> opt_ok min1 agent"

definition turn_completed_ok :: "string \<Rightarrow> usage \<Rightarrow> bool" where
  "turn_completed_ok turn u \<longleftrightarrow> min1 turn \<and> usage_ok u"

definition turn_aborted_ok :: "string \<Rightarrow> bool" where
  "turn_aborted_ok turn \<longleftrightarrow> min1 turn"

definition message_appended_ok :: "string \<Rightarrow> json content_part list \<Rightarrow> bool" where
  "message_appended_ok message content \<longleftrightarrow> min1 message \<and> list_all content_part_ok content"

definition stream_started_ok :: "string \<Rightarrow> bool" where
  "stream_started_ok message \<longleftrightarrow> min1 message"

definition stream_delta_ok :: "string \<Rightarrow> bool" where
  "stream_delta_ok message \<longleftrightarrow> min1 message"

definition stream_completed_ok :: "string \<Rightarrow> usage option \<Rightarrow> bool" where
  "stream_completed_ok message u \<longleftrightarrow> min1 message \<and> opt_ok usage_ok u"

definition tool_requested_ok :: "string \<Rightarrow> string \<Rightarrow> bool" where
  "tool_requested_ok i tool \<longleftrightarrow> min1 i \<and> min1 tool"

definition permission_asked_ok :: "string \<Rightarrow> string \<Rightarrow> bool" where
  "permission_asked_ok i tool \<longleftrightarrow> min1 i \<and> min1 tool"

definition tool_started_ok :: "string \<Rightarrow> string \<Rightarrow> bool" where
  "tool_started_ok i tool \<longleftrightarrow> min1 i \<and> min1 tool"

definition tool_completed_ok :: "tool_outcome \<Rightarrow> bool" where
  "tool_completed_ok o1 \<longleftrightarrow> min1 (to_id o1) \<and> min1 (to_tool o1) \<and> opt_ok nonneg (to_duration o1) \<and>
     opt_ok nonneg (to_added o1) \<and> opt_ok nonneg (to_removed o1)"

definition background_started_ok :: "string \<Rightarrow> ustr \<Rightarrow> bool" where
  "background_started_ok shell cwd \<longleftrightarrow> min1 shell \<and> min1 cwd"

definition background_exited_ok :: "string \<Rightarrow> int option \<Rightarrow> bool" where
  "background_exited_ok shell dropped \<longleftrightarrow> min1 shell \<and> opt_ok nonneg dropped"

definition subagent_dispatched_ok :: "dispatched \<Rightarrow> bool" where
  "subagent_dispatched_ok d \<longleftrightarrow> min1 (dp_session d) \<and> min1 (dp_parent_session d) \<and>
     min1 (dp_parent_turn d) \<and> opt_ok min1 (dp_agent_type d) \<and> positive (dp_depth d) \<and>
     dp_tier d \<le> 2 \<and> opt_ok (list_all min1) (dp_write_paths d) \<and>
     opt_ok positive (dp_token_max d) \<and> opt_ok positive (dp_cost_max d) \<and>
     opt_ok positive (dp_time_max d) \<and> min1 (dp_digest d) \<and> nonneg (dp_ctx_in d)"

definition subagent_settled_ok :: "settled \<Rightarrow> bool" where
  "subagent_settled_ok s \<longleftrightarrow> min1 (st_session s) \<and> usage_ok (st_usage s) \<and> nonneg (st_ctx_out s) \<and>
     nonneg (st_tool_calls s) \<and> nonneg (st_duration s) \<and> opt_ok nonneg (st_conflicts s)"

definition context_compacted_ok :: "int \<Rightarrow> int \<Rightarrow> bool" where
  "context_compacted_ok before after \<longleftrightarrow> nonneg before \<and> nonneg after"

definition router_switched_ok :: "string \<Rightarrow> string \<Rightarrow> bool" where
  "router_switched_ok source reason \<longleftrightarrow> min1 source \<and> min1 reason"

definition error_raised_ok :: "string \<Rightarrow> bool" where
  "error_raised_ok c \<longleftrightarrow> min1 c"

definition reflection_scheduled_ok :: "string \<Rightarrow> bool" where
  "reflection_scheduled_ok turn \<longleftrightarrow> min1 turn"

definition reflection_started_ok :: "string \<Rightarrow> bool" where
  "reflection_started_ok run \<longleftrightarrow> min1 run"

definition reflection_completed_ok :: "string \<Rightarrow> usage \<Rightarrow> int \<Rightarrow> rat \<Rightarrow> bool" where
  "reflection_completed_ok run u lessons duration \<longleftrightarrow>
     min1 run \<and> usage_ok u \<and> nonneg lessons \<and> nonneg duration"

definition reflection_failed_ok :: "string \<Rightarrow> string \<Rightarrow> bool" where
  "reflection_failed_ok run c \<longleftrightarrow> min1 run \<and> min1 c"

definition reflection_promoted_ok :: "string \<Rightarrow> string \<Rightarrow> bool" where
  "reflection_promoted_ok lesson memory \<longleftrightarrow> min1 lesson \<and> min1 memory"

definition task_run_ref_ok :: "task_ref \<Rightarrow> bool" where
  "task_run_ref_ok r \<longleftrightarrow> min1 (tr_task r) \<and> min1 (tr_run r) \<and> nonneg (tr_scheduled r)"

definition task_completed_ok :: "task_ref \<Rightarrow> int \<Rightarrow> bool" where
  "task_completed_ok r duration \<longleftrightarrow> task_run_ref_ok r \<and> nonneg duration"

definition task_failed_ok :: "task_ref \<Rightarrow> int \<Rightarrow> bool" where
  "task_failed_ok r duration \<longleftrightarrow> task_run_ref_ok r \<and> nonneg duration"

text \<open>\<open>EVENT_SCHEMAS\<close>: the schema of each event, here the check on its payload.\<close>

fun valid_payload :: "payload \<Rightarrow> bool" where
  "valid_payload (Session_Started c h v) = session_started_ok c h v"
| "valid_payload (Session_Ended r c) = True"
| "valid_payload (Session_Resumed t s) = session_resumed_ok t s"
| "valid_payload (Model_Changed m) = model_changed_ok m"
| "valid_payload (Turn_Started t p a) = turn_started_ok t p a"
| "valid_payload (Turn_Completed t u s) = turn_completed_ok t u"
| "valid_payload (Turn_Aborted_Ev t r) = turn_aborted_ok t"
| "valid_payload (Message_Appended m r c) = message_appended_ok m c"
| "valid_payload (Stream_Started m p d) = stream_started_ok m"
| "valid_payload (Stream_Delta m k f) = stream_delta_ok m"
| "valid_payload (Stream_Completed m u) = stream_completed_ok m u"
| "valid_payload (Tool_Requested i t inp) = tool_requested_ok i t"
| "valid_payload (Permission_Asked i t s) = permission_asked_ok i t"
| "valid_payload (Tool_Started i t) = tool_started_ok i t"
| "valid_payload (Tool_Completed o1) = tool_completed_ok o1"
| "valid_payload (Background_Started s c d) = background_started_ok s d"
| "valid_payload (Background_Exited s c r d) = background_exited_ok s d"
| "valid_payload (Subagent_Dispatched d) = subagent_dispatched_ok d"
| "valid_payload (Subagent_Settled s) = subagent_settled_ok s"
| "valid_payload (Context_Compacted b a s r) = context_compacted_ok b a"
| "valid_payload (Router_Switched f t r) = router_switched_ok f r"
| "valid_payload (Error_Raised c g x) = error_raised_ok c"
| "valid_payload (Reflection_Scheduled g t) = reflection_scheduled_ok t"
| "valid_payload (Reflection_Started r g m) = reflection_started_ok r"
| "valid_payload (Reflection_Completed r u n d) = reflection_completed_ok r u n d"
| "valid_payload (Reflection_Failed r c) = reflection_failed_ok r c"
| "valid_payload (Reflection_Skipped r) = True"
| "valid_payload (Reflection_Promoted l m s) = reflection_promoted_ok l m"
| "valid_payload (Task_Started r) = task_run_ref_ok r"
| "valid_payload (Task_Completed r d) = task_completed_ok r d"
| "valid_payload (Task_Failed r d w) = task_failed_ok r d"

lemmas schema_defs = session_started_ok_def session_resumed_ok_def model_changed_ok_def
  turn_started_ok_def turn_completed_ok_def turn_aborted_ok_def message_appended_ok_def
  stream_started_ok_def stream_delta_ok_def stream_completed_ok_def tool_requested_ok_def
  permission_asked_ok_def tool_started_ok_def tool_completed_ok_def background_started_ok_def
  background_exited_ok_def subagent_dispatched_ok_def subagent_settled_ok_def
  context_compacted_ok_def router_switched_ok_def error_raised_ok_def
  reflection_scheduled_ok_def reflection_started_ok_def reflection_completed_ok_def
  reflection_failed_ok_def reflection_promoted_ok_def task_run_ref_ok_def task_completed_ok_def
  task_failed_ok_def min1_def nonneg_def positive_def usage_ok_def

section \<open>Event names and the envelope\<close>

definition event_names :: "string list" where
  "event_names =
    [''session.started'', ''session.ended'', ''session.resumed'', ''session.model_changed'',
     ''turn.started'', ''turn.completed'', ''turn.aborted'', ''message.appended'',
     ''stream.started'', ''stream.delta'', ''stream.completed'', ''tool.requested'',
     ''tool.permission_asked'', ''tool.started'', ''tool.completed'', ''shell.background_started'',
     ''shell.background_exited'', ''subagent.dispatched'', ''subagent.settled'',
     ''context.compacted'', ''router.switched'', ''error.raised'', ''reflection.scheduled'',
     ''reflection.started'', ''reflection.completed'', ''reflection.failed'',
     ''reflection.skipped'', ''reflection.promoted'', ''task.started'', ''task.completed'',
     ''task.failed'']"

fun event_name :: "payload \<Rightarrow> string" where
  "event_name (Session_Started c h v) = ''session.started''"
| "event_name (Session_Ended r c) = ''session.ended''"
| "event_name (Session_Resumed t s) = ''session.resumed''"
| "event_name (Model_Changed m) = ''session.model_changed''"
| "event_name (Turn_Started t p a) = ''turn.started''"
| "event_name (Turn_Completed t u s) = ''turn.completed''"
| "event_name (Turn_Aborted_Ev t r) = ''turn.aborted''"
| "event_name (Message_Appended m r c) = ''message.appended''"
| "event_name (Stream_Started m p d) = ''stream.started''"
| "event_name (Stream_Delta m k f) = ''stream.delta''"
| "event_name (Stream_Completed m u) = ''stream.completed''"
| "event_name (Tool_Requested i t inp) = ''tool.requested''"
| "event_name (Permission_Asked i t s) = ''tool.permission_asked''"
| "event_name (Tool_Started i t) = ''tool.started''"
| "event_name (Tool_Completed o1) = ''tool.completed''"
| "event_name (Background_Started s c d) = ''shell.background_started''"
| "event_name (Background_Exited s c r d) = ''shell.background_exited''"
| "event_name (Subagent_Dispatched d) = ''subagent.dispatched''"
| "event_name (Subagent_Settled s) = ''subagent.settled''"
| "event_name (Context_Compacted b a s r) = ''context.compacted''"
| "event_name (Router_Switched f t r) = ''router.switched''"
| "event_name (Error_Raised c g x) = ''error.raised''"
| "event_name (Reflection_Scheduled g t) = ''reflection.scheduled''"
| "event_name (Reflection_Started r g m) = ''reflection.started''"
| "event_name (Reflection_Completed r u n d) = ''reflection.completed''"
| "event_name (Reflection_Failed r c) = ''reflection.failed''"
| "event_name (Reflection_Skipped r) = ''reflection.skipped''"
| "event_name (Reflection_Promoted l m s) = ''reflection.promoted''"
| "event_name (Task_Started r) = ''task.started''"
| "event_name (Task_Completed r d) = ''task.completed''"
| "event_name (Task_Failed r d w) = ''task.failed''"

lemma event_name_known: "event_name p \<in> set event_names"
  by (cases p) (simp_all add: event_names_def)

record event =
  ev_id :: string
  ev_payload :: payload
  ev_version :: nat
  ev_session :: string
  ev_turn :: "string option"
  ev_parent_turn :: "string option"
  ev_parent_depth :: "int option"
  ev_at :: int

abbreviation ev_type :: "event \<Rightarrow> string" where
  "ev_type e \<equiv> event_name (ev_payload e)"

definition hex_digit :: "char \<Rightarrow> bool" where
  "hex_digit c \<longleftrightarrow> c \<in> set ''0123456789abcdef''"

definition uuid_v7 :: "string \<Rightarrow> bool" where
  "uuid_v7 s \<longleftrightarrow> length s = 36 \<and>
     (\<forall>i < 36. if i \<in> {8, 13, 18, 23} then s ! i = CHR ''-''
               else if i = 14 then s ! i = CHR ''7''
               else if i = 19 then s ! i \<in> set ''89ab'' else hex_digit (s ! i))"

definition envelope_ok :: "event \<Rightarrow> bool" where
  "envelope_ok e \<longleftrightarrow> uuid_v7 (ev_id e) \<and> min1 (ev_session e) \<and> opt_ok min1 (ev_turn e) \<and>
     opt_ok min1 (ev_parent_turn e) \<and> opt_ok nonneg (ev_parent_depth e) \<and> nonneg (ev_at e)"

definition event_envelope_for :: "string \<Rightarrow> event \<Rightarrow> bool" where
  "event_envelope_for name e \<longleftrightarrow> envelope_ok e \<and> ev_type e = name \<and> valid_payload (ev_payload e)"

section \<open>The bus\<close>

text \<open>
  A listener is an asynchronous callback over the state \<open>'w\<close> of its owner. A broadcast starts every
  listener, in subscription order, and rejects with the first rejection.
\<close>

type_synonym 'w listener = "event \<Rightarrow> 'w \<Rightarrow> unit result \<times> 'w"

record 'w event_bus =
  bus_listeners :: "(nat \<times> 'w listener) list"
  bus_next :: nat

definition bus_subscribe :: "'w listener \<Rightarrow> 'w event_bus \<Rightarrow> nat \<times> 'w event_bus" where
  "bus_subscribe l b =
     (bus_next b, b\<lparr>bus_listeners := bus_listeners b @ [(bus_next b, l)], bus_next := bus_next b + 1\<rparr>)"

definition bus_unsubscribe :: "nat \<Rightarrow> 'w event_bus \<Rightarrow> 'w event_bus" where
  "bus_unsubscribe k b = b\<lparr>bus_listeners := filter (\<lambda>(i, l). i \<noteq> k) (bus_listeners b)\<rparr>"

fun broadcast :: "(nat \<times> 'w listener) list \<Rightarrow> event \<Rightarrow> 'w \<Rightarrow> unit result \<times> 'w" where
  "broadcast [] e w = (Inr (), w)"
| "broadcast ((i, l) # ls) e w =
     (let (r, w1) = l e w; (r', w2) = broadcast ls e w1
      in (case r of Inl x \<Rightarrow> Inl x | Inr _ \<Rightarrow> r', w2))"

definition assert_payload_contract :: "payload \<Rightarrow> unit result" where
  "assert_payload_contract p =
     (if valid_payload p then Inr () else throw ''core_internal'' (event_name p))"

text \<open>\<open>fresh\<close> and \<open>now\<close> are the new UUID and the clock reading of the emission.\<close>

definition bus_emit ::
  "'w event_bus \<Rightarrow> string \<Rightarrow> int \<Rightarrow> payload \<Rightarrow> nat \<Rightarrow> string \<Rightarrow> string option \<Rightarrow> 'w \<Rightarrow>
     event result \<times> 'w" where
  "bus_emit b fresh now p version session turn w =
     (case assert_payload_contract p of
        Inl e \<Rightarrow> (Inl e, w)
      | Inr _ \<Rightarrow>
          let e = \<lparr>ev_id = fresh, ev_payload = p, ev_version = version, ev_session = session,
                   ev_turn = turn, ev_parent_turn = None, ev_parent_depth = None, ev_at = now\<rparr>;
              (r, w') = broadcast (bus_listeners b) e w
          in (bind_result r (\<lambda>_. Inr e), w'))"

text \<open>Bubbling to a parent's bus keeps the identity of the event and adds the two tags.\<close>

definition bus_forward ::
  "'w event_bus \<Rightarrow> event \<Rightarrow> string \<Rightarrow> int \<Rightarrow> 'w \<Rightarrow> event result \<times> 'w" where
  "bus_forward b e parent depth w =
     (case assert_payload_contract (ev_payload e) of
        Inl x \<Rightarrow> (Inl x, w)
      | Inr _ \<Rightarrow>
          let e' = e\<lparr>ev_parent_turn := Some parent, ev_parent_depth := Some depth\<rparr>;
              (r, w') = broadcast (bus_listeners b) e' w
          in (bind_result r (\<lambda>_. Inr e'), w'))"

section \<open>The de-duplicating subscriber\<close>

text \<open>
  \<open>seen\<close> is the insertion-ordered map of the event ids delivered so far, trimmed to its capacity
  by deleting the oldest. The result is the new map and whether the listener is called.
\<close>

definition idempotent_step :: "nat \<Rightarrow> (string, unit) jsmap \<Rightarrow> event \<Rightarrow> bool \<times> (string, unit) jsmap"
where
  "idempotent_step capacity seen e =
     (if map_has seen (ev_id e) then (False, seen)
      else let s1 = map_set (ev_id e) () seen;
               s2 = (if capacity < length s1 then map_delete (hd (map_keys s1)) s1 else s1)
           in (True, s2))"

fun idempotent_run :: "nat \<Rightarrow> (string, unit) jsmap \<Rightarrow> event list \<Rightarrow> event list \<times> (string, unit) jsmap"
where
  "idempotent_run capacity seen [] = ([], seen)"
| "idempotent_run capacity seen (e # es) =
     (let (call, s1) = idempotent_step capacity seen e;
          (rest, s2) = idempotent_run capacity s1 es
      in (if call then e # rest else rest, s2))"

lemma idempotent_step_keys:
  assumes "map_wf seen" and "idempotent_step capacity seen e = (call, s)"
  shows "map_wf s \<and>
    map_keys s = (if ev_id e \<in> set (map_keys seen) then map_keys seen
                  else if capacity < Suc (length seen) then tl (map_keys seen @ [ev_id e])
                  else map_keys seen @ [ev_id e]) \<and>
    call = (ev_id e \<notin> set (map_keys seen))"
proof (cases "ev_id e \<in> set (map_keys seen)")
  case True
  then have "map_has seen (ev_id e)" by (metis map_has_def map_get_dom)
  with True assms show ?thesis by (simp add: idempotent_step_def)
next
  case False
  then have no: "\<not> map_has seen (ev_id e)" by (metis map_has_def map_get_dom)
  let ?s1 = "map_set (ev_id e) () seen"
  have ks: "map_keys ?s1 = map_keys seen @ [ev_id e]" using False by (simp add: map_keys_set)
  then have len: "length ?s1 = Suc (length seen)" by (metis length_append_singleton length_map_keys)
  have "remove1 (hd xs) xs = tl xs" for xs :: "string list" by (cases xs) auto
  then have "map_keys (map_delete (hd (map_keys ?s1)) ?s1) = tl (map_keys seen @ [ev_id e])"
    by (simp add: map_keys_delete ks)
  with no False ks len assms show ?thesis
    by (auto simp: idempotent_step_def Let_def split: if_splits)
qed

lemma idempotent_run_small:
  assumes "map_wf seen" and "card (set (map_keys seen) \<union> ev_id ` set es) \<le> capacity"
    and "idempotent_run capacity seen es = (ds, s)"
  shows "distinct (map ev_id ds) \<and> set (map ev_id ds) = ev_id ` set es - set (map_keys seen)"
  using assms
proof (induction es arbitrary: seen ds s)
  case (Cons e es)
  obtain call s1 where s1: "idempotent_step capacity seen e = (call, s1)"
    by (cases "idempotent_step capacity seen e")
  obtain rest s2 where r: "idempotent_run capacity s1 es = (rest, s2)"
    by (cases "idempotent_run capacity s1 es")
  note st = idempotent_step_keys [OF Cons.prems(1) s1]
  have "length seen = card (set (map_keys seen))"
    using Cons.prems(1) by (metis distinct_card length_map_keys map_wf_def)
  moreover have "card (insert (ev_id e) (set (map_keys seen))) \<le>
      card (set (map_keys seen) \<union> ev_id ` set (e # es))"
    by (rule card_mono) auto
  ultimately have room: "\<not> capacity < Suc (length seen)" if "ev_id e \<notin> set (map_keys seen)"
    using that Cons.prems(2) by simp
  then have ks: "set (map_keys s1) = insert (ev_id e) (set (map_keys seen))" using st by auto
  then have "set (map_keys s1) \<union> ev_id ` set es = set (map_keys seen) \<union> ev_id ` set (e # es)" by auto
  with Cons.prems(2) have "card (set (map_keys s1) \<union> ev_id ` set es) \<le> capacity" by simp
  from Cons.IH [OF _ this r] st have
    "distinct (map ev_id rest) \<and> set (map ev_id rest) = ev_id ` set es - set (map_keys s1)" by simp
  then have dist: "distinct (map ev_id rest)"
    and rest: "ev_id ` set rest = ev_id ` set es - insert (ev_id e) (set (map_keys seen))"
    using ks by simp_all
  have ds: "ds = (if ev_id e \<in> set (map_keys seen) then rest else e # rest)"
    using Cons.prems(3) s1 r st by (simp split: if_splits)
  show ?case
  proof (cases "ev_id e \<in> set (map_keys seen)")
    case True
    with ds dist rest show ?thesis by (simp add: insert_absorb)
  next
    case False
    then have "ev_id e \<notin> ev_id ` set rest" using rest by blast
    with False ds dist rest show ?thesis by auto
  qed
qed simp

lemma idempotent_run_bounded:
  assumes "map_wf seen" and "length seen \<le> capacity"
    and "idempotent_run capacity seen es = (ds, s)"
  shows "length s \<le> capacity \<and> map_wf s"
  using assms
proof (induction es arbitrary: seen ds s)
  case (Cons e es)
  obtain call s1 where s1: "idempotent_step capacity seen e = (call, s1)"
    by (cases "idempotent_step capacity seen e")
  note st = idempotent_step_keys [OF Cons.prems(1) s1]
  have "length s1 = length (map_keys s1)" by simp
  also have "\<dots> \<le> capacity"
    using st Cons.prems(2) by (auto simp: not_less)
  finally have le: "length s1 \<le> capacity" .
  obtain rest s2 where r: "idempotent_run capacity s1 es = (rest, s2)"
    by (cases "idempotent_run capacity s1 es")
  have "s2 = s" using Cons.prems(3) s1 r by (simp split: if_splits)
  with Cons.IH [OF _ le r] st show ?case by simp
qed simp

text \<open>
  A subscriber wrapped for idempotence calls its listener exactly once for every event id it
  is sent, as long as the ids fit its capacity, and its memory of ids never exceeds the capacity,
  however many events arrive.
\<close>
theorem idempotent_delivers_once:
  assumes "card (ev_id ` set es) \<le> capacity"
  shows "distinct (map ev_id (fst (idempotent_run capacity [] es))) \<and>
    set (map ev_id (fst (idempotent_run capacity [] es))) = ev_id ` set es \<and>
    length (snd (idempotent_run capacity [] (es @ later))) \<le> capacity"
proof -
  obtain ds s where "idempotent_run capacity [] es = (ds, s)"
    by (cases "idempotent_run capacity [] es")
  moreover from idempotent_run_small [OF _ _ this] assms
  have "distinct (map ev_id ds) \<and> set (map ev_id ds) = ev_id ` set es" by simp
  moreover obtain ds' s' where r: "idempotent_run capacity [] (es @ later) = (ds', s')"
    by (cases "idempotent_run capacity [] (es @ later)")
  moreover have "length s' \<le> capacity" using idempotent_run_bounded [OF _ _ r] by simp
  ultimately show ?thesis by simp
qed

definition demo_event :: "string \<Rightarrow> payload \<Rightarrow> event" where
  "demo_event i p = \<lparr>ev_id = i, ev_payload = p, ev_version = 0, ev_session = ''s'', ev_turn = None,
     ev_parent_turn = None, ev_parent_depth = None, ev_at = 0\<rparr>"

theorem idempotent_delivers_once_witness:
  "map ev_id (fst (idempotent_run 2 [] [demo_event ''a'' (Model_Changed ''m''),
      demo_event ''b'' (Model_Changed ''m''), demo_event ''a'' (Model_Changed ''n'')])) =
    [''a'', ''b''] \<and>
   distinct (map ev_id (fst (idempotent_run 2 [] [demo_event ''a'' (Model_Changed ''m''),
      demo_event ''b'' (Model_Changed ''m''), demo_event ''a'' (Model_Changed ''n'')])))"
  using idempotent_delivers_once [of "[demo_event ''a'' (Model_Changed ''m''),
      demo_event ''b'' (Model_Changed ''m''), demo_event ''a'' (Model_Changed ''n'')]" 2 "[]"]
  by (simp add: demo_event_def idempotent_step_def map_has_def)

end
