(* ===== verification/Replay.thy ===== *)
theory Replay
  imports Events
begin

text \<open>
  Rebuilding a session from its event log: \<open>packages/core/src/replay.ts\<close>. A log row carries the
  name of its type and a payload that may or may not meet the event's schema, or is a snapshot row
  of the old format; \<open>parse_payload\<close> is \<open>safeParse\<close>. The lemmas show which rows decide what of the
  rebuilt state, and that delivering a row again changes nothing.
\<close>

section \<open>Log rows\<close>

datatype raw_payload = Parsed payload | Snapshot_Row "session_state option" | Unparsable "ustr option"

record log_row =
  lr_id :: string
  lr_type :: string
  lr_turn :: "string option"
  lr_parent_turn :: "string option"
  lr_parent_depth :: "nat option"
  lr_at :: string
  lr_payload :: raw_payload

record replay_options =
  ro_max_tokens :: "int option"
  ro_tool_snapshot :: "string option"

record replay_result =
  rp_state :: session_state
  rp_found :: bool
  rp_skipped :: "string list"

definition parse_payload :: "log_row \<Rightarrow> payload option" where
  "parse_payload r = (case lr_payload r of
     Parsed p \<Rightarrow> if event_name p = lr_type r \<and> valid_payload p then Some p else None
   | _ \<Rightarrow> None)"

definition is_bubbled :: "log_row \<Rightarrow> bool" where
  "is_bubbled r \<longleftrightarrow> lr_parent_turn r \<noteq> None \<or> (case lr_parent_depth r of None \<Rightarrow> 0 | Some d \<Rightarrow> d) > 0"

definition depth_of :: "log_row \<Rightarrow> nat" where
  "depth_of r = (case lr_parent_depth r of None \<Rightarrow> 0 | Some d \<Rightarrow> d)"

definition settle_turn :: "session_state \<Rightarrow> string \<Rightarrow> bool \<Rightarrow> session_state" where
  "settle_turn s turn aborted =
     (if turn = [] then s
      else update_session s (\<lambda>d. d\<lparr>ss_turns :=
             set_turn_status turn (if aborted then Turn_Aborted else Turn_Done) (ss_turns d)\<rparr>))"

definition legacy_cwd :: "raw_payload \<Rightarrow> ustr option" where
  "legacy_cwd p = (case p of
     Parsed (Session_Started c h v) \<Rightarrow> Some c
   | Parsed _ \<Rightarrow> None
   | Snapshot_Row s \<Rightarrow> map_option ss_cwd s
   | Unparsable c \<Rightarrow> c)"

fun cwd_of :: "log_row list \<Rightarrow> ustr" where
  "cwd_of [] = []"
| "cwd_of (r # rs) =
     (if lr_type r \<noteq> ''session.started'' then cwd_of rs
      else case parse_payload r of
        Some (Session_Started c h v) \<Rightarrow> c
      | _ \<Rightarrow> (case legacy_cwd (lr_payload r) of Some c \<Rightarrow> c | None \<Rightarrow> cwd_of rs))"

section \<open>The replay loop\<close>

record replay_state =
  rs_draft :: session_state
  rs_found :: bool
  rs_skipped :: "string list"
  rs_seen :: "string list"

definition add_turn :: "turn \<Rightarrow> session_state \<Rightarrow> session_state" where
  "add_turn t d = d\<lparr>ss_turns := ss_turns d @ [t]\<rparr>"

definition replay_turn :: "string \<Rightarrow> nat \<Rightarrow> string option \<Rightarrow> string option \<Rightarrow> turn" where
  "replay_turn i depth parent agent =
     \<lparr>t_id = i, t_start_message = [], t_end_message = None, t_status = Streaming,
      t_parent_turn = parent, t_parent_depth = depth, t_agent_type = agent, t_sticky = None\<rparr>"

definition log_message :: "(string \<Rightarrow> int) \<Rightarrow> log_row \<Rightarrow> string \<Rightarrow> role \<Rightarrow> json content_part list \<Rightarrow> json message"
where
  "log_message date r i role content =
     \<lparr>msg_id = i, msg_role = role, msg_content = content, msg_created_at = date (lr_at r),
      msg_meta = None\<rparr>"

text \<open>
  A row whose payload meets its schema. \<open>date\<close> reads the time stamp of the row
  (\<open>Date.parse\<close>, or the current time when that fails); \<open>has_base\<close> tells that the draft
  started from a snapshot.
\<close>

fun apply_payload ::
  "(string \<Rightarrow> int) \<Rightarrow> bool \<Rightarrow> log_row \<Rightarrow> payload \<Rightarrow> replay_state \<Rightarrow> replay_state" where
  "apply_payload date has_base r (Session_Started cwd h v) st =
     (let st1 = st\<lparr>rs_found := True\<rparr>
      in if cwd \<noteq> [] \<and> \<not> has_base
         then st1\<lparr>rs_draft := update_session (rs_draft st) (\<lambda>d. d\<lparr>ss_cwd := cwd\<rparr>)\<rparr> else st1)"
| "apply_payload date has_base r (Model_Changed m) st =
     st\<lparr>rs_draft := update_session (rs_draft st) (\<lambda>d. d\<lparr>ss_model := Some m\<rparr>)\<rparr>"
| "apply_payload date has_base r (Turn_Started i parent agent) st =
     st\<lparr>rs_found := True,
        rs_draft := update_session (rs_draft st) (add_turn (replay_turn i (depth_of r) parent agent))\<rparr>"
| "apply_payload date has_base r (Turn_Completed i u stop) st =
     st\<lparr>rs_draft := settle_turn
          (if is_bubbled r then rs_draft st
           else update_session (rs_draft st) (\<lambda>d. d\<lparr>ss_usage := add_usage (ss_usage d) u\<rparr>)) i False\<rparr>"
| "apply_payload date has_base r (Turn_Aborted_Ev i reason) st =
     st\<lparr>rs_draft := settle_turn (rs_draft st) i True\<rparr>"
| "apply_payload date has_base r (Message_Appended i role content) st =
     (if is_bubbled r then st
      else st\<lparr>rs_draft := update_session (rs_draft st)
                (\<lambda>d. d\<lparr>ss_messages := ss_messages d @ [log_message date r i role content]\<rparr>)\<rparr>)"
| "apply_payload date has_base r _ st = st"

text \<open>A row of a known type whose payload does not: old turn rows are mapped, others skipped.\<close>

definition apply_legacy :: "log_row \<Rightarrow> replay_state \<Rightarrow> replay_state" where
  "apply_legacy r st =
     (if lr_type r = ''turn.started'' \<and> lr_turn r \<noteq> None \<and> lr_turn r \<noteq> Some []
      then st\<lparr>rs_found := True,
              rs_draft := update_session (rs_draft st)
                (add_turn (replay_turn (the (lr_turn r)) (depth_of r) None None))\<rparr>
      else if lr_type r = ''turn.completed'' \<or> lr_type r = ''turn.aborted''
      then st\<lparr>rs_draft := settle_turn (rs_draft st)
                (case lr_turn r of None \<Rightarrow> [] | Some t \<Rightarrow> t) (lr_type r = ''turn.aborted''),
              rs_found := True\<rparr>
      else st\<lparr>rs_skipped := rs_skipped st @ [lr_id r]\<rparr>)"

definition replay_row :: "(string \<Rightarrow> int) \<Rightarrow> bool \<Rightarrow> replay_state \<Rightarrow> log_row \<Rightarrow> replay_state" where
  "replay_row date has_base st r =
     (if lr_id r \<in> set (rs_seen st) then st
      else let st1 = st\<lparr>rs_seen := lr_id r # rs_seen st\<rparr>
           in if lr_type r \<notin> set event_names then st1
              else case parse_payload r of
                None \<Rightarrow> apply_legacy r st1
              | Some p \<Rightarrow> apply_payload date has_base r p st1)"

text \<open>The last snapshot row, its index, and the replay from there.\<close>

definition snapshot_rows :: "log_row list \<Rightarrow> nat list" where
  "snapshot_rows rows = filter (\<lambda>i. lr_type (rows ! i) = ''session.snapshot'') [0..<length rows]"

definition terminal_status :: "turn_status \<Rightarrow> bool" where
  "terminal_status s \<longleftrightarrow> s \<in> {Turn_Done, Turn_Aborted, Turn_Error}"

definition settle_all :: "session_state \<Rightarrow> session_state" where
  "settle_all s = update_session s (\<lambda>d. d\<lparr>ss_active_turn := None, ss_pending_interrupt := False,
     ss_turns := map (\<lambda>t. if terminal_status (t_status t) then t else t\<lparr>t_status := Turn_Aborted\<rparr>)
       (ss_turns d)\<rparr>)"

definition replay_start ::
  "int \<Rightarrow> string \<Rightarrow> log_row list \<Rightarrow> replay_options \<Rightarrow> session_state" where
  "replay_start now sid rows opts =
     create_session now sid (cwd_of rows)
       (case ro_tool_snapshot opts of None \<Rightarrow> [] | Some s \<Rightarrow> s)
       (case ro_max_tokens opts of None \<Rightarrow> 200000 | Some n \<Rightarrow> n) None None"

definition replay_session_state ::
  "int \<Rightarrow> (string \<Rightarrow> int) \<Rightarrow> string \<Rightarrow> log_row list \<Rightarrow> replay_options \<Rightarrow> replay_result" where
  "replay_session_state now date sid rows opts =
     (let snaps = snapshot_rows rows;
          base = (if snaps = [] then None
                  else case lr_payload (rows ! last snaps) of Snapshot_Row s \<Rightarrow> s | _ \<Rightarrow> None);
          start = (if base = None then 0 else last snaps + 1);
          skipped = (if snaps \<noteq> [] \<and> base = None then [lr_id (rows ! last snaps)] else []);
          draft = (case base of Some s \<Rightarrow> s | None \<Rightarrow> replay_start now sid rows opts);
          found = (base \<noteq> None \<or> list_ex (\<lambda>r. lr_type r = ''session.started'') rows);
          st = foldl (replay_row date (base \<noteq> None))
                 \<lparr>rs_draft = draft, rs_found = found, rs_skipped = skipped, rs_seen = []\<rparr>
                 (drop start rows)
      in \<lparr>rp_state = settle_all (rs_draft st), rp_found = rs_found st, rp_skipped = rs_skipped st\<rparr>)"

section \<open>What a row contributes\<close>

fun fresh_rows :: "string list \<Rightarrow> log_row list \<Rightarrow> log_row list" where
  "fresh_rows seen [] = []"
| "fresh_rows seen (r # rs) =
     (if lr_id r \<in> set seen then fresh_rows seen rs else r # fresh_rows (lr_id r # seen) rs)"

definition own_message :: "(string \<Rightarrow> int) \<Rightarrow> log_row \<Rightarrow> json message option" where
  "own_message date r = (case parse_payload r of
     Some (Message_Appended i role content) \<Rightarrow>
       if is_bubbled r then None else Some (log_message date r i role content)
   | _ \<Rightarrow> None)"

definition own_usage :: "log_row \<Rightarrow> usage option" where
  "own_usage r = (case parse_payload r of
     Some (Turn_Completed i u stop) \<Rightarrow> if is_bubbled r then None else Some u
   | _ \<Rightarrow> None)"

lemma parse_payload_type: "parse_payload r = Some p \<Longrightarrow> lr_type r = event_name p"
  by (auto simp: parse_payload_def split: raw_payload.splits if_splits)

lemma settle_turn_simps [simp]:
  "ss_messages (settle_turn s i a) = ss_messages s"
  "ss_usage (settle_turn s i a) = ss_usage s"
  by (simp_all add: settle_turn_def)

lemma add_turn_simps [simp]:
  "ss_messages (add_turn t s) = ss_messages s"
  "ss_usage (add_turn t s) = ss_usage s"
  by (simp_all add: add_turn_def)

lemma apply_legacy_simps [simp]:
  "ss_messages (rs_draft (apply_legacy r st)) = ss_messages (rs_draft st)"
  "ss_usage (rs_draft (apply_legacy r st)) = ss_usage (rs_draft st)"
  "rs_seen (apply_legacy r st) = rs_seen st"
  by (simp_all add: apply_legacy_def)

lemma apply_payload_seen [simp]: "rs_seen (apply_payload date b r p st) = rs_seen st"
  by (cases p) (simp_all add: Let_def)

lemma apply_payload_messages:
  "parse_payload r = Some p \<Longrightarrow>
     ss_messages (rs_draft (apply_payload date b r p st)) =
     ss_messages (rs_draft st) @ (case own_message date r of None \<Rightarrow> [] | Some m \<Rightarrow> [m])"
  by (cases p) (simp_all add: own_message_def Let_def)

lemma apply_payload_usage:
  "parse_payload r = Some p \<Longrightarrow>
     ss_usage (rs_draft (apply_payload date b r p st)) =
     (case own_usage r of None \<Rightarrow> ss_usage (rs_draft st) | Some u \<Rightarrow> add_usage (ss_usage (rs_draft st)) u)"
  by (cases p) (simp_all add: own_usage_def Let_def)

lemma own_None [simp]:
  "parse_payload r = None \<Longrightarrow> own_message date r = None"
  "parse_payload r = None \<Longrightarrow> own_usage r = None"
  by (simp_all add: own_message_def own_usage_def)

lemma unknown_type_None: "lr_type r \<notin> set event_names \<Longrightarrow> parse_payload r = None"
  using event_name_known parse_payload_type by (metis not_None_eq)

lemma replay_row_seen [simp]:
  "rs_seen (replay_row date b st r) =
     (if lr_id r \<in> set (rs_seen st) then rs_seen st else lr_id r # rs_seen st)"
  by (simp add: replay_row_def Let_def split: option.splits)

lemma replay_row_messages:
  "ss_messages (rs_draft (replay_row date b st r)) = ss_messages (rs_draft st) @
     (if lr_id r \<in> set (rs_seen st) then []
      else case own_message date r of None \<Rightarrow> [] | Some m \<Rightarrow> [m])"
  by (simp add: replay_row_def Let_def apply_payload_messages unknown_type_None split: option.splits)

lemma replay_row_usage:
  "ss_usage (rs_draft (replay_row date b st r)) =
     (if lr_id r \<in> set (rs_seen st) then ss_usage (rs_draft st)
      else case own_usage r of None \<Rightarrow> ss_usage (rs_draft st)
             | Some u \<Rightarrow> add_usage (ss_usage (rs_draft st)) u)"
  by (simp add: replay_row_def Let_def apply_payload_usage unknown_type_None split: option.splits)

lemmas replay_row_simps = replay_row_messages replay_row_usage

lemma replay_fold_messages:
  "ss_messages (rs_draft (foldl (replay_row date b) st rows)) =
     ss_messages (rs_draft st) @ List.map_filter (own_message date) (fresh_rows (rs_seen st) rows)"
  by (induction rows arbitrary: st)
    (auto simp: replay_row_simps List.map_filter_simps split: option.splits)

lemma replay_fold_usage:
  "ss_usage (rs_draft (foldl (replay_row date b) st rows)) =
     foldl add_usage (ss_usage (rs_draft st))
       (List.map_filter own_usage (fresh_rows (rs_seen st) rows))"
  by (induction rows arbitrary: st)
    (auto simp: replay_row_simps List.map_filter_simps split: option.splits)

lemma replay_fold_fresh:
  "foldl (replay_row date b) st rows = foldl (replay_row date b) st (fresh_rows (rs_seen st) rows)"
proof (induction rows arbitrary: st)
  case (Cons r rows)
  have "replay_row date b st r = st" if "lr_id r \<in> set (rs_seen st)"
    using that by (simp add: replay_row_def)
  then show ?case using Cons [of "replay_row date b st r"] by simp
qed simp

lemma fresh_rows_subset: "set (fresh_rows seen rows) \<subseteq> set rows"
  by (induction rows arbitrary: seen) auto

lemma fresh_rows_all:
  "inj_on lr_id (set S \<union> set rows) \<Longrightarrow> r \<in> set rows \<Longrightarrow> r \<notin> set S \<Longrightarrow>
     r \<in> set (fresh_rows (map lr_id S) rows)"
proof (induction rows arbitrary: S)
  case (Cons q rows)
  show ?case
  proof (cases "lr_id q \<in> lr_id ` set S")
    case True
    then have "q \<in> set S" using Cons.prems(1) by (auto simp: inj_on_def)
    with Cons.prems have "r \<in> set rows" "r \<notin> set S" by auto
    moreover have "inj_on lr_id (set S \<union> set rows)"
      using Cons.prems(1) by (rule inj_on_subset) auto
    ultimately show ?thesis using Cons.IH [of S] True by simp
  next
    case False
    show ?thesis
    proof (cases "r = q")
      case diff: False
      have "inj_on lr_id (set (q # S) \<union> set rows)"
        using Cons.prems(1) by (rule inj_on_subset) auto
      from Cons.IH [OF this] diff Cons.prems False show ?thesis by simp
    qed (use False in simp)
  qed
qed simp

text \<open>The working directory comes from the first row that names one.\<close>

definition row_cwd :: "log_row \<Rightarrow> ustr option" where
  "row_cwd r =
     (if lr_type r \<noteq> ''session.started'' then None
      else case parse_payload r of
        Some (Session_Started c h v) \<Rightarrow> Some c | _ \<Rightarrow> legacy_cwd (lr_payload r))"

lemma cwd_of_Cons:
  "cwd_of (r # rs) = (case row_cwd r of Some c \<Rightarrow> c | None \<Rightarrow> cwd_of rs)"
  by (simp add: row_cwd_def split: option.splits payload.splits)

declare cwd_of.simps(2) [simp del]
declare cwd_of_Cons [simp]

lemma cwd_of_fresh:
  "inj_on lr_id (set S \<union> set rows) \<Longrightarrow> \<forall>r \<in> set S. row_cwd r = None \<Longrightarrow>
     cwd_of (fresh_rows (map lr_id S) rows) = cwd_of rows"
proof (induction rows arbitrary: S)
  case (Cons r rows)
  show ?case
  proof (cases "lr_id r \<in> lr_id ` set S")
    case True
    then have "r \<in> set S" using Cons.prems(1) by (auto simp: inj_on_def)
    then have "row_cwd r = None" using Cons.prems(2) by simp
    moreover have "inj_on lr_id (set S \<union> set rows)"
      using Cons.prems(1) by (rule inj_on_subset) auto
    ultimately show ?thesis using Cons.IH [of S] Cons.prems(2) True by simp
  next
    case False
    show ?thesis
    proof (cases "row_cwd r")
      case None
      have "inj_on lr_id (set (r # S) \<union> set rows)"
        using Cons.prems(1) by (rule inj_on_subset) auto
      from Cons.IH [OF this] None Cons.prems(2) False show ?thesis by simp
    qed (use False in simp)
  qed
qed simp

section \<open>Properties\<close>

lemma snapshot_rows_none:
  "\<forall>r \<in> set rows. lr_type r \<noteq> ''session.snapshot'' \<Longrightarrow> snapshot_rows rows = []"
  by (auto simp: snapshot_rows_def filter_empty_conv)

definition initial_replay :: "int \<Rightarrow> string \<Rightarrow> log_row list \<Rightarrow> replay_options \<Rightarrow> replay_state" where
  "initial_replay now sid rows opts =
     \<lparr>rs_draft = replay_start now sid rows opts,
      rs_found = list_ex (\<lambda>r. lr_type r = ''session.started'') rows, rs_skipped = [], rs_seen = []\<rparr>"

lemma replay_without_snapshot:
  assumes "\<forall>r \<in> set rows. lr_type r \<noteq> ''session.snapshot''"
  shows "replay_session_state now date sid rows opts =
    (let st = foldl (replay_row date False) (initial_replay now sid rows opts) rows
     in \<lparr>rp_state = settle_all (rs_draft st), rp_found = rs_found st, rp_skipped = rs_skipped st\<rparr>)"
  using snapshot_rows_none [OF assms]
  by (simp add: replay_session_state_def initial_replay_def Let_def)


text \<open>
  A session is rebuilt from its own rows only: the messages are exactly those of the valid
  message rows that were not bubbled up from a subagent, in log order and each once, and the usage
  adds up exactly the own completed turns.
\<close>
theorem replay_uses_own_rows:
  assumes "\<forall>r \<in> set rows. lr_type r \<noteq> ''session.snapshot''"
  shows "ss_messages (rp_state (replay_session_state now date sid rows opts)) =
      List.map_filter (own_message date) (fresh_rows [] rows) \<and>
    ss_usage (rp_state (replay_session_state now date sid rows opts)) =
      foldl add_usage no_usage (List.map_filter own_usage (fresh_rows [] rows))"
  using replay_without_snapshot [OF assms]
  by (simp add: Let_def settle_all_def replay_fold_messages replay_fold_usage initial_replay_def
      replay_start_def create_session_def)

lemma settle_all_at_rest:
  "ss_active_turn (settle_all s) = None \<and> \<not> ss_pending_interrupt (settle_all s) \<and>
   list_all (\<lambda>t. terminal_status (t_status t)) (ss_turns (settle_all s))"
  by (auto simp: settle_all_def list_all_iff terminal_status_def)

text \<open>
  A rebuilt session is at rest, whatever the log holds (snapshots included): no turn is
  active, no interrupt is pending, and every turn has a terminal status.
\<close>
theorem replay_settles:
  "ss_active_turn (rp_state (replay_session_state now date sid rows opts)) = None \<and>
   \<not> ss_pending_interrupt (rp_state (replay_session_state now date sid rows opts)) \<and>
   list_all (\<lambda>t. terminal_status (t_status t))
     (ss_turns (rp_state (replay_session_state now date sid rows opts)))"
  unfolding replay_session_state_def Let_def replay_result.simps
  using settle_all_at_rest by blast

definition demo_row :: "string \<Rightarrow> string option \<Rightarrow> payload \<Rightarrow> log_row" where
  "demo_row i parent p = \<lparr>lr_id = i, lr_type = event_name p, lr_turn = None, lr_parent_turn = parent,
     lr_parent_depth = None, lr_at = [], lr_payload = Parsed p\<rparr>"

definition demo_log :: "log_row list" where
  "demo_log =
     [demo_row ''1'' None (Message_Appended ''m1'' User []),
      demo_row ''2'' (Some ''t'') (Message_Appended ''m2'' User []),
      demo_row ''1'' None (Message_Appended ''m1'' User [])]"

definition demo_replay :: replay_options where
  "demo_replay = \<lparr>ro_max_tokens = None, ro_tool_snapshot = None\<rparr>"

lemma demo_log_facts:
  "\<forall>r \<in> set demo_log. lr_type r \<noteq> ''session.snapshot''"
  "inj_on lr_id (set demo_log)"
  "fresh_rows [] demo_log = take 2 demo_log"
  by (simp_all add: demo_log_def demo_row_def inj_on_def)


theorem replay_uses_own_rows_witness:
  "map msg_id (ss_messages (rp_state (replay_session_state 0 (\<lambda>_. 0) ''s'' demo_log demo_replay))) =
   [''m1'']"
  using replay_uses_own_rows [OF demo_log_facts(1), of 0 "\<lambda>_. 0" "''s''" demo_replay]
  unfolding demo_log_facts(3)
  by (simp add: demo_log_def demo_row_def own_message_def parse_payload_def is_bubbled_def
      message_appended_ok_def min1_def log_message_def List.map_filter_simps)

end
