(* ===== verification/Prompt.thy ===== *)
theory Prompt
  imports Context
begin

text \<open>
  System prompts and the choice of a context policy: \<open>packages/core/src/prompt-composer.ts\<close> and
  \<open>packages/core/src/context-policy-registry.ts\<close>. \<open>rank\<close> orders fragment ids as
  \<open>localeCompare\<close> does, \<open>show_num\<close> prints a number, and \<open>defaults\<close> are the platform and
  architecture of the process. A composition awaits its fragments, so it is a read of the registered
  fragments followed, later, by the write of the memo; both are operations.
\<close>

section \<open>Rendering\<close>

record prompt_context =
  pc_cwd :: ustr
  pc_model :: string
  pc_provider :: string
  pc_platform :: "ustr option"
  pc_arch :: "ustr option"
  pc_shell :: "ustr option"

definition prompt_values :: "ustr \<times> ustr \<Rightarrow> prompt_context \<Rightarrow> (ustr \<times> ustr) list" where
  "prompt_values defaults c =
     [(ascii ''{{cwd}}'', pc_cwd c),
      (ascii ''{{model}}'', ascii (pc_model c)),
      (ascii ''{{provider}}'', ascii (pc_provider c)),
      (ascii ''{{platform}}'', given (pc_platform c) (fst defaults)),
      (ascii ''{{arch}}'', given (pc_arch c) (snd defaults)),
      (ascii ''{{shell}}'', given (pc_shell c) (ascii ''unknown''))]"

text \<open>One left-to-right pass; substituted text is not scanned again.\<close>

function render_with :: "(ustr \<times> ustr) list \<Rightarrow> ustr \<Rightarrow> ustr" where
  "render_with vals s =
     (case s of [] \<Rightarrow> []
      | c # cs \<Rightarrow>
          (case find (\<lambda>(k, v). k \<noteq> [] \<and> starts_with s k) vals of
             None \<Rightarrow> c # render_with vals cs
           | Some (k, v) \<Rightarrow> v @ render_with vals (drop (length k) s)))"
  by pat_completeness auto
termination
proof (relation "measure (\<lambda>(vals, s). length s)")
  fix vals :: "(ustr \<times> ustr) list" and s :: ustr and c cs a and k v :: ustr
  assume "s = c # cs" and "find (\<lambda>(k, v). k \<noteq> [] \<and> starts_with s k) vals = Some a" and "(k, v) = a"
  then have "(\<lambda>(k, v). k \<noteq> [] \<and> starts_with s k) (k, v)" by (metis find_Some_iff)
  then have "k \<noteq> []" by simp
  then show "((vals, drop (length k) s), vals, s) \<in> measure (\<lambda>(vals, s). length s)"
    using \<open>s = c # cs\<close> by (cases k) auto
qed auto

declare render_with.simps [simp del]

definition render :: "ustr \<times> ustr \<Rightarrow> ustr \<Rightarrow> prompt_context \<Rightarrow> ustr" where
  "render defaults t c = render_with (prompt_values defaults c) t"

lemma render_plain: "123 \<notin> set t \<Longrightarrow> render defaults t c = t"
proof (induction t)
  case Nil
  show ?case by (simp add: render_def render_with.simps)
next
  case (Cons x t)
  then have "find (\<lambda>(k, v). k \<noteq> [] \<and> starts_with (x # t) k) (prompt_values defaults c) = None"
    by (auto simp: find_None_iff prompt_values_def)
  with Cons show ?case by (simp add: render_def render_with.simps [of _ "x # t"])
qed

section \<open>Fragments and the composer\<close>

datatype fragment_text = Static ustr | Dynamic "prompt_context \<Rightarrow> ustr result"

record fragment =
  fr_id :: string
  fr_source :: ustr
  fr_priority :: rat
  fr_when :: "(prompt_context \<Rightarrow> bool result) option"
  fr_text :: fragment_text

record composer =
  co_fragments :: "(string, fragment) jsmap"
  co_cache :: "(prompt_context, ustr) jsmap"

definition new_composer :: composer where
  "new_composer = \<lparr>co_fragments = [], co_cache = []\<rparr>"

definition composer_invalidate :: "composer \<Rightarrow> composer" where
  "composer_invalidate c = c\<lparr>co_cache := []\<rparr>"

definition composer_register :: "fragment \<Rightarrow> composer \<Rightarrow> unit result \<times> composer" where
  "composer_register f c =
     (if map_has (co_fragments c) (fr_id f)
      then (throw ''core_prompt_fragment_already_registered'' (fr_id f), c)
      else (Inr (), composer_invalidate (c\<lparr>co_fragments := map_set (fr_id f) f (co_fragments c)\<rparr>)))"

text \<open>The disposer deletes by id; it does not check whose fragment is registered now.\<close>

definition composer_dispose :: "string \<Rightarrow> composer \<Rightarrow> composer" where
  "composer_dispose i c = composer_invalidate (c\<lparr>co_fragments := map_delete i (co_fragments c)\<rparr>)"

fun enabled_fragments :: "prompt_context \<Rightarrow> fragment list \<Rightarrow> fragment list result" where
  "enabled_fragments x [] = Inr []"
| "enabled_fragments x (f # fs) =
     bind_result (case fr_when f of None \<Rightarrow> Inr True | Some w \<Rightarrow> w x) (\<lambda>ok.
       bind_result (enabled_fragments x fs) (\<lambda>rest. Inr (if ok then f # rest else rest)))"

definition fragment_value :: "fragment \<Rightarrow> prompt_context \<Rightarrow> ustr result" where
  "fragment_value f x = (case fr_text f of Static t \<Rightarrow> Inr t | Dynamic g \<Rightarrow> g x)"

definition fragment_part ::
  "ustr \<times> ustr \<Rightarrow> (rat \<Rightarrow> ustr) \<Rightarrow> prompt_context \<Rightarrow> fragment \<Rightarrow> ustr result" where
  "fragment_part defaults show_num x f =
     bind_result (fragment_value f x) (\<lambda>v.
       Inr (ascii ''<!-- source: '' @ fr_source f @ ascii '', priority: '' @ show_num (fr_priority f)
         @ ascii '' -->'' @ [10] @ render defaults v x))"

text \<open>Descending priority, then the collation order of the ids; both sorts are stable.\<close>

definition sort_fragments :: "(string \<Rightarrow> nat) \<Rightarrow> fragment list \<Rightarrow> fragment list" where
  "sort_fragments rank fs = sort_key (\<lambda>f. - fr_priority f) (sort_key (\<lambda>f. rank (fr_id f)) fs)"

definition compose_fresh ::
  "ustr \<times> ustr \<Rightarrow> (rat \<Rightarrow> ustr) \<Rightarrow> (string \<Rightarrow> nat) \<Rightarrow> (string, fragment) jsmap \<Rightarrow>
     prompt_context \<Rightarrow> ustr result" where
  "compose_fresh defaults show_num rank fs x =
     bind_result (enabled_fragments x (map_values fs)) (\<lambda>enabled.
       bind_result (map_result (fragment_part defaults show_num x) (sort_fragments rank enabled))
         (\<lambda>parts. Inr (join (ascii [CHR 0x0A, CHR 0x0A, CHR ''-'', CHR ''-'', CHR ''-'',
            CHR 0x0A, CHR 0x0A]) parts)))"

text \<open>
  The two halves of \<open>compose\<close>: what is read before the awaits, and the memo written after them.
\<close>

definition compose_read ::
  "ustr \<times> ustr \<Rightarrow> (rat \<Rightarrow> ustr) \<Rightarrow> (string \<Rightarrow> nat) \<Rightarrow> prompt_context \<Rightarrow> composer \<Rightarrow> ustr result" where
  "compose_read defaults show_num rank x c =
     (case map_get (co_cache c) x of
        Some s \<Rightarrow> Inr s
      | None \<Rightarrow> compose_fresh defaults show_num rank (co_fragments c) x)"

definition compose_store :: "prompt_context \<Rightarrow> ustr result \<Rightarrow> composer \<Rightarrow> composer" where
  "compose_store x r c = (case r of Inl e \<Rightarrow> c | Inr s \<Rightarrow> c\<lparr>co_cache := map_set x s (co_cache c)\<rparr>)"

definition compose ::
  "ustr \<times> ustr \<Rightarrow> (rat \<Rightarrow> ustr) \<Rightarrow> (string \<Rightarrow> nat) \<Rightarrow> prompt_context \<Rightarrow> composer \<Rightarrow>
     ustr result \<times> composer" where
  "compose defaults show_num rank x c =
     (let r = compose_read defaults show_num rank x c in (r, compose_store x r c))"

datatype composer_call = Add_Fragment fragment | Drop_Fragment string | Invalidate | Compose prompt_context

fun composer_step ::
  "ustr \<times> ustr \<Rightarrow> (rat \<Rightarrow> ustr) \<Rightarrow> (string \<Rightarrow> nat) \<Rightarrow> composer \<Rightarrow> composer_call \<Rightarrow> composer" where
  "composer_step d n r c (Add_Fragment f) = snd (composer_register f c)"
| "composer_step d n r c (Drop_Fragment i) = composer_dispose i c"
| "composer_step d n r c Invalidate = composer_invalidate c"
| "composer_step d n r c (Compose x) = snd (compose d n r x c)"

definition composer_inv ::
  "ustr \<times> ustr \<Rightarrow> (rat \<Rightarrow> ustr) \<Rightarrow> (string \<Rightarrow> nat) \<Rightarrow> composer \<Rightarrow> bool" where
  "composer_inv d n r c \<longleftrightarrow>
     (\<forall>x s. map_get (co_cache c) x = Some s \<longrightarrow> compose_fresh d n r (co_fragments c) x = Inr s)"

lemma composer_inv_step: "composer_inv d n r c \<Longrightarrow> composer_inv d n r (composer_step d n r c e)"
  by (cases e)
    (auto simp: composer_inv_def composer_register_def composer_dispose_def composer_invalidate_def
      compose_def compose_read_def compose_store_def map_get_set Let_def
      split: sum.splits option.splits if_splits)

interpretation pc: invariant_machine "composer_step d n r" "composer_inv d n r" for d n r
  by unfold_locales (rule composer_inv_step)

text \<open>
  The memo is never stale: after any sequence of registrations, disposals and completed
  compositions, a prompt is what the fragments registered now yield, and every registration is
  visible in the next prompt.
\<close>
theorem composed_prompt_is_current:
  "fst (compose d n r x (foldl (composer_step d n r) new_composer calls)) =
     compose_fresh d n r (co_fragments (foldl (composer_step d n r) new_composer calls)) x"
proof -
  have "composer_inv d n r (foldl (composer_step d n r) new_composer calls)"
    by (rule pc.run_good) (simp add: composer_inv_def new_composer_def)
  then show ?thesis
    by (simp add: compose_def Let_def compose_read_def composer_inv_def split: option.splits)
qed

definition plain_fragment :: "string \<Rightarrow> fragment" where
  "plain_fragment i = \<lparr>fr_id = i, fr_source = [], fr_priority = 0, fr_when = None, fr_text = Static []\<rparr>"

definition demo_prompt_context :: prompt_context where
  "demo_prompt_context = \<lparr>pc_cwd = [], pc_model = [], pc_provider = [], pc_platform = None,
     pc_arch = None, pc_shell = None\<rparr>"

text \<open>
  A composition that is still awaiting its fragments while a fragment is registered writes a
  memo without that fragment afterwards; every later prompt of the same context is served from it.
\<close>
theorem composition_race_is_stale:
  "\<exists>c1 c2 c3. c1 = snd (composer_register (plain_fragment ''a'') new_composer) \<and>
     c2 = snd (composer_register (plain_fragment ''b'') c1) \<and>
     c3 = compose_store demo_prompt_context
            (compose_read ([], []) (\<lambda>_. []) length demo_prompt_context c1) c2 \<and>
     fst (compose ([], []) (\<lambda>_. []) length demo_prompt_context c3) \<noteq>
       compose_fresh ([], []) (\<lambda>_. []) length (co_fragments c3) demo_prompt_context"
proof (intro exI conjI)
  let ?c1 = "snd (composer_register (plain_fragment ''a'') new_composer)"
  let ?c2 = "snd (composer_register (plain_fragment ''b'') ?c1)"
  let ?r = "compose_read ([], []) (\<lambda>_. []) length demo_prompt_context ?c1"
  let ?c3 = "compose_store demo_prompt_context ?r ?c2"
  have frags: "co_fragments ?c1 = [(''a'', plain_fragment ''a'')]" "co_cache ?c1 = []"
    "co_fragments ?c2 = [(''a'', plain_fragment ''a''), (''b'', plain_fragment ''b'')]"
    by (simp_all add: composer_register_def composer_invalidate_def new_composer_def map_has_def
        plain_fragment_def)
  let ?part = "ascii ''<!-- source: '' @ ascii '', priority: '' @ ascii '' -->'' @ [10]"
  have part: "fragment_part ([], []) (\<lambda>_. []) demo_prompt_context (plain_fragment i) = Inr ?part" for i
    using render_plain [of "[]"] by (simp add: fragment_part_def fragment_value_def plain_fragment_def)
  have en: "enabled_fragments x [plain_fragment ''a''] = Inr [plain_fragment ''a'']"
    "enabled_fragments x [plain_fragment ''a'', plain_fragment ''b''] =
       Inr [plain_fragment ''a'', plain_fragment ''b'']" for x
    by (simp_all add: plain_fragment_def)
  have srt: "sort_fragments length [plain_fragment ''a''] = [plain_fragment ''a'']"
    "sort_fragments length [plain_fragment ''a'', plain_fragment ''b''] =
       [plain_fragment ''a'', plain_fragment ''b'']"
    by (simp_all add: sort_fragments_def plain_fragment_def)
  have r: "?r = Inr ?part"
    by (simp add: compose_read_def frags compose_fresh_def en srt part
        del: enabled_fragments.simps ascii_simps)
  have c3: "co_fragments ?c3 = co_fragments ?c2" "map_get (co_cache ?c3) demo_prompt_context = Some ?part"
    unfolding r by (simp_all add: compose_store_def map_get_set)
  have "fst (compose ([], []) (\<lambda>_. []) length demo_prompt_context ?c3) = Inr ?part"
    unfolding compose_def Let_def fst_conv compose_read_def [of _ _ _ _ ?c3] c3(2) by simp
  moreover have "compose_fresh ([], []) (\<lambda>_. []) length (co_fragments ?c3) demo_prompt_context =
      Inr (?part @ ascii [CHR 0x0A, CHR 0x0A, CHR ''-'', CHR ''-'', CHR ''-'', CHR 0x0A, CHR 0x0A] @ ?part)"
    unfolding c3(1) by (simp add: frags compose_fresh_def en srt part
        del: enabled_fragments.simps ascii_simps)
  ultimately show "fst (compose ([], []) (\<lambda>_. []) length demo_prompt_context ?c3) \<noteq>
      compose_fresh ([], []) (\<lambda>_. []) length (co_fragments ?c3) demo_prompt_context" by simp
qed (rule refl)+

text \<open>A disposer called again removes the fragment that has since been registered under its id.\<close>

lemma stale_disposer_removes_successor:
  "co_fragments (composer_dispose i (snd (composer_register g (composer_dispose i
      (snd (composer_register f new_composer)))))) = []"
  if "fr_id f = i" "fr_id g = i"
  using that by (simp add: composer_dispose_def composer_register_def composer_invalidate_def
      new_composer_def map_has_def)

section \<open>The registry of context policies\<close>

record 'p policy_spec =
  ps_name :: string
  ps_policy_name :: string
  ps_policy :: 'p
  ps_priority :: rat
  ps_when :: "(context_ctx \<Rightarrow> bool) option"

record policy_handle =
  ph_name :: string
  ph_disposed :: bool

definition blank :: "string \<Rightarrow> bool" where
  "blank s \<longleftrightarrow> list_all is_space s"

definition contribute_policy ::
  "'p policy_spec \<Rightarrow> (string, 'p policy_spec) jsmap \<Rightarrow> policy_handle result \<times> (string, 'p policy_spec) jsmap"
where
  "contribute_policy s m =
     (if blank (ps_name s) \<or> ps_policy_name s \<noteq> ps_name s
      then (throw ''core_context_policy_name_mismatch'' (ps_name s), m)
      else if map_has m (ps_name s)
      then (throw ''core_context_policy_already_registered'' (ps_name s), m)
      else (Inr \<lparr>ph_name = ps_name s, ph_disposed = False\<rparr>, map_set (ps_name s) s m))"

definition dispose_policy ::
  "policy_handle \<Rightarrow> (string, 'p policy_spec) jsmap \<Rightarrow> policy_handle \<times> (string, 'p policy_spec) jsmap"
where
  "dispose_policy h m =
     (h\<lparr>ph_disposed := True\<rparr>, if ph_disposed h then m else map_delete (ph_name h) m)"

definition select_default :: "context_ctx \<Rightarrow> (string, 'p policy_spec) jsmap \<Rightarrow> 'p result" where
  "select_default cx m =
     (case sort_key (\<lambda>s. - ps_priority s)
             (filter (\<lambda>s. case ps_when s of None \<Rightarrow> True | Some w \<Rightarrow> w cx) (map_values m)) of
        [] \<Rightarrow> throw ''core_context_policy_none_available'' ''No context policy is available''
      | s # _ \<Rightarrow> Inr (ps_policy s))"

definition select_policy ::
  "context_ctx \<Rightarrow> string option \<Rightarrow> (string, 'p policy_spec) jsmap \<Rightarrow> 'p result" where
  "select_policy cx name m =
     (case name of
        Some (c # cs) \<Rightarrow>
          (case map_get m (c # cs) of
             None \<Rightarrow> throw ''core_context_policy_unknown'' (c # cs) | Some s \<Rightarrow> Inr (ps_policy s))
      | _ \<Rightarrow> select_default cx m)"

text \<open>The default choice is an applicable policy of maximal priority.\<close>

lemma select_default_maximal:
  assumes "select_default cx m = Inr p"
  obtains s where "s \<in> set (map_values m)" "ps_policy s = p"
    "\<forall>t \<in> set (map_values m). (case ps_when t of None \<Rightarrow> True | Some w \<Rightarrow> w cx) \<longrightarrow>
       ps_priority t \<le> ps_priority s"
proof -
  let ?ok = "filter (\<lambda>s. case ps_when s of None \<Rightarrow> True | Some w \<Rightarrow> w cx) (map_values m)"
  obtain s ss where ss: "sort_key (\<lambda>s. - ps_priority s) ?ok = s # ss" and p: "ps_policy s = p"
    using assms by (auto simp: select_default_def split: list.splits)
  have "sorted (map (\<lambda>s. - ps_priority s) (s # ss))" by (metis ss sorted_sort_key)
  moreover have set_eq: "set (s # ss) = set ?ok" by (metis ss set_sort)
  ultimately have "\<forall>t \<in> set ?ok. - ps_priority s \<le> - ps_priority t" by auto
  with that [of s] p set_eq show thesis by fastforce
qed

end
