(* ===== verification/Effects.thy ===== *)
theory Effects
  imports Prelude
begin

text \<open>
  Asynchronous code that may throw, as state-passing functions: an action takes the state to a
  result and the state at that moment, so a thrown error keeps every effect made before it. The
  Hoare-style predicate \<open>holds\<close> has one postcondition for returning and one for throwing;
  \<open>keeps\<close> is the special case of an invariant. Their rules carry the proofs of the run loop.
\<close>

type_synonym ('s, 'a) act = "'s \<Rightarrow> 'a result \<times> 's"

definition ret :: "'a \<Rightarrow> ('s, 'a) act" where
  "ret x s = (Inr x, s)"

definition throw_error :: "volund_error \<Rightarrow> ('s, 'a) act" where
  "throw_error e s = (Inl e, s)"

definition seq :: "('s, 'a) act \<Rightarrow> ('a \<Rightarrow> ('s, 'b) act) \<Rightarrow> ('s, 'b) act" where
  "seq m f s = (case m s of (Inl e, s') \<Rightarrow> (Inl e, s') | (Inr x, s') \<Rightarrow> f x s')"

definition modify :: "('s \<Rightarrow> 's) \<Rightarrow> ('s, unit) act" where
  "modify f s = (Inr (), f s)"

definition from_state :: "('s \<Rightarrow> ('s, 'a) act) \<Rightarrow> ('s, 'a) act" where
  "from_state f s = f s s"

definition catch_error :: "('s, 'a) act \<Rightarrow> (volund_error \<Rightarrow> ('s, 'a) act) \<Rightarrow> ('s, 'a) act" where
  "catch_error m h s = (case m s of (Inl e, s') \<Rightarrow> h e s' | (Inr x, s') \<Rightarrow> (Inr x, s'))"

fun each :: "('a \<Rightarrow> ('s, unit) act) \<Rightarrow> 'a list \<Rightarrow> ('s, unit) act" where
  "each f [] = ret ()"
| "each f (x # xs) = seq (f x) (\<lambda>_. each f xs)"

text \<open>
  \<open>Promise.all\<close> over calls that have been started: every call runs, and the first rejection in
  order is the result.
\<close>

fun all_settled :: "('a \<Rightarrow> ('s, 'b) act) \<Rightarrow> 'a list \<Rightarrow> 's \<Rightarrow> 'b result list \<times> 's" where
  "all_settled f [] s = ([], s)"
| "all_settled f (x # xs) s =
     (let (r, s1) = f x s; (rs, s2) = all_settled f xs s1 in (r # rs, s2))"

fun first_error :: "'b result list \<Rightarrow> 'b list result" where
  "first_error [] = Inr []"
| "first_error (r # rs) =
     (case r of Inl e \<Rightarrow> Inl e | Inr x \<Rightarrow> bind_result (first_error rs) (\<lambda>xs. Inr (x # xs)))"

definition promise_all :: "('a \<Rightarrow> ('s, 'b) act) \<Rightarrow> 'a list \<Rightarrow> ('s, 'b list) act" where
  "promise_all f xs s = (let (rs, s') = all_settled f xs s in (first_error rs, s'))"

lemmas act_defs = ret_def throw_error_def seq_def modify_def from_state_def catch_error_def

section \<open>Pre- and postconditions\<close>

definition holds ::
  "('s \<Rightarrow> bool) \<Rightarrow> ('s, 'a) act \<Rightarrow> ('a \<Rightarrow> 's \<Rightarrow> bool) \<Rightarrow> (volund_error \<Rightarrow> 's \<Rightarrow> bool) \<Rightarrow> bool" where
  "holds P m Q E \<longleftrightarrow>
     (\<forall>s. P s \<longrightarrow> (case m s of (Inl e, s') \<Rightarrow> E e s' | (Inr x, s') \<Rightarrow> Q x s'))"

lemma holdsI:
  "(\<And>s e s'. P s \<Longrightarrow> m s = (Inl e, s') \<Longrightarrow> E e s') \<Longrightarrow>
   (\<And>s x s'. P s \<Longrightarrow> m s = (Inr x, s') \<Longrightarrow> Q x s') \<Longrightarrow> holds P m Q E"
  by (auto simp: holds_def split: prod.splits sum.splits)

lemma holds_Inr: "holds P m Q E \<Longrightarrow> P s \<Longrightarrow> m s = (Inr x, s') \<Longrightarrow> Q x s'"
  by (auto simp: holds_def)

lemma holds_Inl: "holds P m Q E \<Longrightarrow> P s \<Longrightarrow> m s = (Inl e, s') \<Longrightarrow> E e s'"
  by (auto simp: holds_def)

lemma holds_ret [intro]: "(\<And>s. P s \<Longrightarrow> Q x s) \<Longrightarrow> holds P (ret x) Q E"
  by (simp add: holds_def ret_def)

lemma holds_throw [intro]: "(\<And>s. P s \<Longrightarrow> E e s) \<Longrightarrow> holds P (throw_error e) Q E"
  by (simp add: holds_def throw_error_def)

lemma holds_modify [intro]: "(\<And>s. P s \<Longrightarrow> Q () (f s)) \<Longrightarrow> holds P (modify f) Q E"
  by (simp add: holds_def modify_def)

lemma holds_seq:
  "holds P m R E \<Longrightarrow> (\<And>x. holds (R x) (f x) Q E) \<Longrightarrow> holds P (seq m f) Q E"
  by (fastforce simp: holds_def seq_def split: prod.splits sum.splits)

lemma holds_from_state:
  "(\<And>s0. P s0 \<Longrightarrow> holds (\<lambda>s. s = s0) (f s0) Q E) \<Longrightarrow> holds P (from_state f) Q E"
  by (simp add: holds_def from_state_def)

lemma holds_catch:
  "holds P m Q R \<Longrightarrow> (\<And>e. holds (R e) (h e) Q E) \<Longrightarrow> holds P (catch_error m h) Q E"
  by (fastforce simp: holds_def catch_error_def split: prod.splits sum.splits)

lemma holds_pre: "holds P m Q E \<Longrightarrow> (\<And>s. P' s \<Longrightarrow> P s) \<Longrightarrow> holds P' m Q E"
  by (simp add: holds_def)

lemma holds_post:
  "holds P m Q E \<Longrightarrow> (\<And>x s. Q x s \<Longrightarrow> Q' x s) \<Longrightarrow> (\<And>e s. E e s \<Longrightarrow> E' e s) \<Longrightarrow> holds P m Q' E'"
  by (fastforce simp: holds_def split: prod.splits sum.splits)

lemma holds_conj:
  "holds P m Q E \<Longrightarrow> holds P' m Q' E' \<Longrightarrow>
     holds (\<lambda>s. P s \<and> P' s) m (\<lambda>x s. Q x s \<and> Q' x s) (\<lambda>e s. E e s \<and> E' e s)"
  by (fastforce simp: holds_def split: prod.splits sum.splits)

lemma holds_if:
  "(b \<Longrightarrow> holds P m Q E) \<Longrightarrow> (\<not> b \<Longrightarrow> holds P m' Q E) \<Longrightarrow> holds P (if b then m else m') Q E"
  by simp

lemma holds_each:
  assumes "\<And>x. x \<in> set xs \<Longrightarrow> holds P (f x) (\<lambda>_. P) E"
  shows "holds P (each f xs) (\<lambda>_. P) E"
  using assms by (induction xs) (auto intro: holds_seq)

section \<open>Invariants\<close>

text \<open>\<open>keeping P m\<close>: from a state with \<open>P\<close>, the action ends in one, whether it returns or throws.\<close>

definition keeping :: "('s \<Rightarrow> bool) \<Rightarrow> ('s, 'a) act \<Rightarrow> bool" where
  "keeping P m \<longleftrightarrow> holds P m (\<lambda>_. P) (\<lambda>_. P)"

lemma keepingD: "keeping P m \<Longrightarrow> P s \<Longrightarrow> m s = (r, s') \<Longrightarrow> P s'"
  by (cases r) (auto simp: keeping_def holds_def)

lemma keeping_snd: "keeping P m \<Longrightarrow> P s \<Longrightarrow> P (snd (m s))"
  by (cases "m s") (auto dest: keepingD)

lemma keepingI: "(\<And>s. P s \<Longrightarrow> P (snd (m s))) \<Longrightarrow> keeping P m"
  by (fastforce simp: keeping_def holds_def split: prod.splits sum.splits)

lemma keeping_ret [intro!, simp]: "keeping P (ret x)"
  by (auto simp: keeping_def)

lemma keeping_throw [intro!, simp]: "keeping P (throw_error e)"
  by (auto simp: keeping_def)

lemma keeping_modify: "(\<And>s. P s \<Longrightarrow> P (f s)) \<Longrightarrow> keeping P (modify f)"
  by (auto simp: keeping_def)

lemma keeping_seq: "keeping P m \<Longrightarrow> (\<And>x. keeping P (f x)) \<Longrightarrow> keeping P (seq m f)"
  by (auto simp: keeping_def intro: holds_seq)

lemma keeping_from_state: "(\<And>s0. P s0 \<Longrightarrow> keeping P (f s0)) \<Longrightarrow> keeping P (from_state f)"
  by (rule keepingI) (simp add: from_state_def keeping_snd)

lemma keeping_catch: "keeping P m \<Longrightarrow> (\<And>e. keeping P (h e)) \<Longrightarrow> keeping P (catch_error m h)"
  by (auto simp: keeping_def intro: holds_catch)

lemma keeping_if: "keeping P m \<Longrightarrow> keeping P m' \<Longrightarrow> keeping P (if b then m else m')"
  by simp

lemma keeping_option:
  "keeping P m \<Longrightarrow> (\<And>x. keeping P (f x)) \<Longrightarrow> keeping P (case o1 of None \<Rightarrow> m | Some x \<Rightarrow> f x)"
  by (cases o1) simp_all

lemma keeping_each: "(\<And>x. x \<in> set xs \<Longrightarrow> keeping P (f x)) \<Longrightarrow> keeping P (each f xs)"
  by (induction xs) (auto intro: keeping_seq)

lemma all_settled_keeping:
  "(\<And>x. x \<in> set xs \<Longrightarrow> keeping P (f x)) \<Longrightarrow> P s \<Longrightarrow> all_settled f xs s = (rs, s') \<Longrightarrow> P s'"
proof (induction xs arbitrary: s rs s')
  case (Cons x xs)
  obtain r s1 where r: "f x s = (r, s1)" by (cases "f x s")
  obtain rs2 s2 where rs: "all_settled f xs s1 = (rs2, s2)" by (cases "all_settled f xs s1")
  have "P s1" using Cons.prems(1,2) r keepingD by fastforce
  with Cons.IH [OF _ this rs] Cons.prems r rs show ?case by auto
qed simp

lemma keeping_promise_all: "(\<And>x. x \<in> set xs \<Longrightarrow> keeping P (f x)) \<Longrightarrow> keeping P (promise_all f xs)"
  by (rule keepingI) (auto simp: promise_all_def split: prod.splits dest: all_settled_keeping [rotated 2])

lemmas keeping_rules = keeping_seq keeping_from_state keeping_if keeping_option keeping_each
  keeping_promise_all keeping_ret keeping_throw

lemma first_error_Inr: "first_error rs = Inr xs \<Longrightarrow> rs = map Inr xs"
  by (induction rs arbitrary: xs) (auto simp: bind_result_Inr_iff split: sum.splits)

lemma all_settled_length: "all_settled f xs s = (rs, s') \<Longrightarrow> length rs = length xs"
  by (induction xs arbitrary: s rs s') (auto simp: Let_def split: prod.splits)

end
