(* ===== verification/Runner.thy ===== *)
theory Runner
  imports Router Prompt Events Effects
begin

text \<open>
  The agent loop of \<open>packages/core/src/runner.ts\<close>. A run is an action over \<open>run_state\<close>: the session,
  the turn's abort flag, the local variables of \<open>run\<close>, the world \<open>'w\<close> behind the ports, and a log
  of what the run emitted and executed (a ghost: no branch reads it). The ports are the run's
  collaborators; each is a function of the world, so it may do anything and depend on everything
  that happened. After every \<open>await\<close> the world decides (\<open>p_poll\<close>) how many calls of \<open>interrupt\<close>
  were delivered meanwhile. A provider stream is the finite list of its pulls, each of which sees
  the abort flag and yields a chunk, ends the stream or throws. Tool executions that the code runs
  concurrently are run in call order.
\<close>

section \<open>Event content and untrusted text\<close>

definition newline_code :: nat where "newline_code = 10"

definition omitted_in_event :: "string \<Rightarrow> ustr \<Rightarrow> ustr" where
  "omitted_in_event kind mime =
     ascii ''[Attachment omitted from event: inline '' @ ascii kind @ ascii '' ('' @ mime @
     ascii '') not referenceable]''"

fun to_event_content :: "json content_part \<Rightarrow> json content_part" where
  "to_event_content (Tool_Result i cs e) = Tool_Result i (map to_event_content cs) e"
| "to_event_content (Image src mime) =
     (case src of Inline b \<Rightarrow> Text (omitted_in_event ''image'' mime) | _ \<Rightarrow> Image src mime)"
| "to_event_content (File src mime name) =
     (case src of Inline b \<Rightarrow> Text (omitted_in_event ''file'' mime) | _ \<Rightarrow> File src mime name)"
| "to_event_content p = p"

definition escape_char :: "nat \<Rightarrow> ustr" where
  "escape_char c = (if c = 38 then ascii ''&amp;'' else if c = 60 then ascii ''&lt;''
     else if c = 62 then ascii ''&gt;'' else [c])"

definition escape :: "ustr \<Rightarrow> ustr" where
  "escape t = concat (map escape_char t)"

definition untrusted_body :: "(json content_part \<Rightarrow> ustr) \<Rightarrow> json content_part list \<Rightarrow> ustr" where
  "untrusted_body part_text parts =
     join [newline_code] (map (\<lambda>p. case p of Text t \<Rightarrow> t | _ \<Rightarrow> part_text p) parts)"

definition untrusted_open :: "ustr \<Rightarrow> string option \<Rightarrow> ustr" where
  "untrusted_open source i =
     ascii ''<untrusted source='' @ [34] @ escape source @ [34] @
     (case truthy i of None \<Rightarrow> [] | Some x \<Rightarrow> ascii '' toolUseId='' @ [34] @ escape (ascii x) @ [34]) @
     ascii ''>'' @ [newline_code]"

definition untrusted_close :: ustr where
  "untrusted_close = [newline_code] @ ascii ''</untrusted>''"

definition wrap_untrusted ::
  "(json content_part \<Rightarrow> ustr) \<Rightarrow> json content_part list \<Rightarrow> ustr \<Rightarrow> string option \<Rightarrow> json content_part list"
where
  "wrap_untrusted part_text parts source i =
     [Text (untrusted_open source i @ escape (untrusted_body part_text parts) @ untrusted_close)]"

text \<open>Attachments a provider cannot take are replaced by a note, at the top level of a message.\<close>

definition part_for_capabilities ::
  "string \<Rightarrow> capabilities \<Rightarrow> json content_part \<Rightarrow> json content_part" where
  "part_for_capabilities provider caps p = (case p of
     Image src mime \<Rightarrow>
       if cap_vision caps = None
       then Text (ascii ''[Attachment omitted: provider '' @ ascii provider @
              ascii '' does not support vision ('' @ mime @ ascii '')]'')
       else p
   | File src mime name \<Rightarrow>
       if cap_files caps = None
       then Text (ascii ''[Attachment omitted: provider '' @ ascii provider @
              ascii '' does not support files ('' @ name @ ascii '', '' @ mime @ ascii '')]'')
       else p
   | _ \<Rightarrow> p)"

definition messages_for_capabilities ::
  "json message list \<Rightarrow> string \<Rightarrow> capabilities \<Rightarrow> json message list" where
  "messages_for_capabilities ms provider caps =
     map (\<lambda>m. m\<lparr>msg_content := map (part_for_capabilities provider caps) (msg_content m)\<rparr>) ms"

section \<open>Aggregating one model response\<close>

record agg_tool =
  ag_id :: string
  ag_name :: string
  ag_fragments :: "ustr list"
  ag_raw :: "ustr option"
  ag_input :: "json option"
  ag_ended :: bool

record in_progress =
  ip_text :: ustr
  ip_thinking :: ustr
  ip_tools :: "(string, agg_tool) jsmap"
  ip_invalid :: "string list"
  ip_usage :: "usage option"
  ip_stop :: "stop_reason option"

definition no_progress :: in_progress where
  "no_progress = \<lparr>ip_text = [], ip_thinking = [], ip_tools = [], ip_invalid = [], ip_usage = None,
     ip_stop = None\<rparr>"

definition end_tool_use :: "(ustr \<Rightarrow> json option) \<Rightarrow> string \<Rightarrow> in_progress \<Rightarrow> in_progress" where
  "end_tool_use parse i cur =
     (case map_get (ip_tools cur) i of
        None \<Rightarrow> cur
      | Some t \<Rightarrow>
          if ag_ended t then cur
          else let raw = concat (ag_fragments t);
                   t1 = t\<lparr>ag_ended := True, ag_raw := Some raw, ag_input := parse raw\<rparr>;
                   cur1 = cur\<lparr>ip_tools := map_set i t1 (ip_tools cur)\<rparr>
               in if parse raw = None
                  then cur1\<lparr>ip_invalid := List.insert i (ip_invalid cur)\<rparr> else cur1)"

fun merge_chunk :: "(ustr \<Rightarrow> json option) \<Rightarrow> json provider_chunk \<Rightarrow> in_progress \<Rightarrow> in_progress" where
  "merge_chunk parse (Text_Delta t) cur = cur\<lparr>ip_text := ip_text cur @ t\<rparr>"
| "merge_chunk parse (Thinking_Delta t s) cur = cur\<lparr>ip_thinking := ip_thinking cur @ t\<rparr>"
| "merge_chunk parse (Tool_Use_Start i n) cur =
     cur\<lparr>ip_tools := map_set i \<lparr>ag_id = i, ag_name = n, ag_fragments = [], ag_raw = None,
        ag_input = None, ag_ended = False\<rparr> (ip_tools cur)\<rparr>"
| "merge_chunk parse (Tool_Use_Delta i t) cur =
     (case map_get (ip_tools cur) i of
        None \<Rightarrow> cur
      | Some a \<Rightarrow> cur\<lparr>ip_tools := map_set i (a\<lparr>ag_fragments := ag_fragments a @ [t]\<rparr>) (ip_tools cur)\<rparr>)"
| "merge_chunk parse (Tool_Use_End i) cur = end_tool_use parse i cur"
| "merge_chunk parse (Usage_Chunk u) cur = cur\<lparr>ip_usage := Some u\<rparr>"
| "merge_chunk parse (Message_Stop s) cur = cur\<lparr>ip_stop := Some s\<rparr>"
| "merge_chunk parse _ cur = cur"

fun delta_fragment :: "json provider_chunk \<Rightarrow> (delta_kind \<times> ustr) option" where
  "delta_fragment (Text_Delta t) = Some (Text_Kind, t)"
| "delta_fragment (Thinking_Delta t s) = Some (Thinking_Kind, t)"
| "delta_fragment (Tool_Use_Delta i t) = Some (Tool_Use_Kind, t)"
| "delta_fragment _ = None"

definition parse_error_input :: "ustr \<Rightarrow> json" where
  "parse_error_input raw = J_Obj [(ascii ''parseError'', J_Bool True), (ascii ''raw'', J_Str raw)]"

definition tool_part :: "agg_tool \<Rightarrow> json content_part" where
  "tool_part t = Tool_Use (ag_id t) (ag_name t)
     (case ag_input t of Some j \<Rightarrow> j | None \<Rightarrow> parse_error_input (given (ag_raw t) []))"

text \<open>Tools whose end never came are finalized from what was received.\<close>

definition end_all_tools :: "(ustr \<Rightarrow> json option) \<Rightarrow> in_progress \<Rightarrow> in_progress" where
  "end_all_tools parse cur = fold (end_tool_use parse) (map_keys (ip_tools cur)) cur"

definition assistant_content :: "in_progress \<Rightarrow> json content_part list" where
  "assistant_content cur =
     (if ip_thinking cur = [] then [] else [Thinking (ip_thinking cur) None]) @
     (if ip_text cur = [] then [] else [Text (ip_text cur)]) @
     map tool_part (map_values (ip_tools cur))"

definition assistant_message ::
  "in_progress \<Rightarrow> unit decision \<Rightarrow> string \<Rightarrow> int \<Rightarrow> json message" where
  "assistant_message cur d i now =
     \<lparr>msg_id = i, msg_role = Assistant, msg_content = assistant_content cur, msg_created_at = now,
      msg_meta = Some (empty_meta\<lparr>m_provider := Some (client_name (d_provider d)),
        m_model := Some (d_model d), m_usage := ip_usage cur, m_stop_reason := ip_stop cur\<rparr>)\<rparr>"

section \<open>Ports, options and the state of a run\<close>

type_synonym 'w pull = "bool \<Rightarrow> 'w \<Rightarrow> json provider_chunk option result \<times> 'w"

record tool_execution =
  te_id :: string
  te_name :: "string option"
  te_content :: "json content_part list"
  te_is_error :: "bool option"
  te_duration :: "int option"
  te_added :: "int option"
  te_removed :: "int option"

record stream_request =
  sr_model :: string
  sr_messages :: "json message list"
  sr_system :: ustr
  sr_tools :: json
  sr_cache :: "(cache_mode \<times> int option) option"

record 'w context_policy =
  cp_estimate :: "ustr \<Rightarrow> string \<Rightarrow> int"
  cp_should :: "context_ctx \<Rightarrow> bool result"
  cp_compact :: "context_ctx \<Rightarrow> 'w \<Rightarrow> context_snapshot result \<times> 'w"
  cp_build :: "context_ctx \<Rightarrow> context_messages result"

record 'w ports =
  p_bus :: "'w event_bus"
  p_uuid :: "'w \<Rightarrow> string \<times> 'w"
  p_now :: "'w \<Rightarrow> int"
  p_poll :: "'w \<Rightarrow> nat \<times> 'w"
  p_pick :: "router_context \<Rightarrow> router_hint option \<Rightarrow> 'w \<Rightarrow> unit decision result \<times> 'w"
  p_on_error :: "provider_error \<Rightarrow> router_context \<Rightarrow> 'w \<Rightarrow> unit decision option result \<times> 'w"
  p_on_success :: "(unit decision \<Rightarrow> router_context \<Rightarrow> 'w \<Rightarrow> unit result \<times> 'w) option"
  p_compose :: "prompt_context \<Rightarrow> 'w \<Rightarrow> ustr result \<times> 'w"
  p_schemas :: "client \<Rightarrow> 'w \<Rightarrow> json"
  p_stream :: "client \<Rightarrow> stream_request \<Rightarrow> bool \<Rightarrow> 'w \<Rightarrow> 'w pull list \<times> 'w"
  p_execute :: "string \<Rightarrow> string \<Rightarrow> json \<Rightarrow> bool \<Rightarrow> 'w \<Rightarrow> tool_execution result \<times> 'w"
  p_parse :: "ustr \<Rightarrow> json option"
  p_stringify :: "json \<Rightarrow> ustr"
  p_part_text :: "json content_part \<Rightarrow> ustr"
  p_policy :: "'w context_policy option"

datatype cache_strategy = Auto_Cache | Cache_Off

record run_options =
  op_max_loops :: "nat option"
  op_budget :: "resource_budget option"
  op_cache_strategy :: "cache_strategy option"
  op_cache_ttl :: "int option"
  op_task :: "task_ref option"

record last_turn =
  lt_provider :: string
  lt_model :: string
  lt_stop :: "stop_reason option"

datatype obs = Emitted event | Executed string string json

record 'w run_state =
  r_session :: session_state
  r_aborted :: bool
  r_last_turn :: "last_turn option"
  r_world :: 'w
  r_log :: "obs list"
  r_turn :: string
  v_sticky :: "client option"
  v_decision :: "unit decision option"
  v_retry :: "unit decision option"
  v_attempts :: nat
  v_tool_calls :: nat
  v_failed :: bool
  v_reason :: "abort_reason option"
  v_usage :: usage
  v_stop :: "stop_reason option"
  v_started :: int

type_synonym ('w, 'a) run = "('w run_state, 'a) act"

definition interrupt :: "'w run_state \<Rightarrow> 'w run_state" where
  "interrupt s = s\<lparr>r_session := update_session (r_session s) (\<lambda>d. d\<lparr>ss_pending_interrupt := True\<rparr>),
     r_aborted := True\<rparr>"

definition yield :: "'w ports \<Rightarrow> 'w run_state \<Rightarrow> 'w run_state" where
  "yield ports s = (let (n, w) = p_poll ports (r_world s) in (interrupt ^^ n) (s\<lparr>r_world := w\<rparr>))"

definition await :: "'w ports \<Rightarrow> ('w \<Rightarrow> 'a result \<times> 'w) \<Rightarrow> ('w, 'a) run" where
  "await ports f s = (let (r, w) = f (r_world s) in (r, yield ports (s\<lparr>r_world := w\<rparr>)))"

definition in_world :: "('w \<Rightarrow> 'a \<times> 'w) \<Rightarrow> ('w, 'a) run" where
  "in_world f s = (let (x, w) = f (r_world s) in (Inr x, s\<lparr>r_world := w\<rparr>))"

definition lift_result :: "'a result \<Rightarrow> ('s, 'a) act" where
  "lift_result r s = (r, s)"

definition set_session :: "(session_state \<Rightarrow> session_state) \<Rightarrow> ('w, unit) run" where
  "set_session recipe = modify (\<lambda>s. s\<lparr>r_session := update_session (r_session s) recipe\<rparr>)"

text \<open>\<open>emit\<close>: the bus checks the payload, stamps the event and broadcasts it.\<close>

definition emitted_event :: "'w ports \<Rightarrow> payload \<Rightarrow> 'w run_state \<Rightarrow> event" where
  "emitted_event ports p s =
     \<lparr>ev_id = fst (p_uuid ports (r_world s)), ev_payload = p, ev_version = ss_version (r_session s),
      ev_session = ss_id (r_session s), ev_turn = Some (r_turn s), ev_parent_turn = None,
      ev_parent_depth = None, ev_at = p_now ports (snd (p_uuid ports (r_world s)))\<rparr>"

definition emit :: "'w ports \<Rightarrow> payload \<Rightarrow> ('w, unit) run" where
  "emit ports p s =
     (let (i, w1) = p_uuid ports (r_world s);
          (r, w2) = bus_emit (p_bus ports) i (p_now ports w1) p (ss_version (r_session s))
                      (ss_id (r_session s)) (Some (r_turn s)) w1;
          s1 = (if valid_payload p
                then s\<lparr>r_log := r_log s @ [Emitted (emitted_event ports p s)]\<rparr> else s)\<lparr>r_world := w2\<rparr>
      in (case r of Inl e \<Rightarrow> Inl e | Inr _ \<Rightarrow> Inr (), yield ports s1))"

definition new_message :: "'w ports \<Rightarrow> role \<Rightarrow> json content_part list \<Rightarrow> ('w, json message) run" where
  "new_message ports role content =
     seq (in_world (p_uuid ports)) (\<lambda>i s.
       (Inr \<lparr>msg_id = i, msg_role = role, msg_content = content,
             msg_created_at = p_now ports (r_world s), msg_meta = None\<rparr>, s))"

definition append_message :: "json message \<Rightarrow> ('w, unit) run" where
  "append_message m = set_session (\<lambda>d. d\<lparr>ss_messages := ss_messages d @ [m]\<rparr>)"

definition emit_message :: "'w ports \<Rightarrow> json message \<Rightarrow> ('w, unit) run" where
  "emit_message ports m =
     emit ports (Message_Appended (msg_id m) (msg_role m) (map to_event_content (msg_content m)))"

section \<open>Budgets, hints and router contexts\<close>

datatype dimension = Token_Dim | Cost_Dim | Time_Dim | Tool_Call_Dim

definition run_budget :: "run_options \<Rightarrow> session_state \<Rightarrow> resource_budget option" where
  "run_budget opts ss = (case op_budget opts of Some b \<Rightarrow> Some b | None \<Rightarrow> ss_resource_budget ss)"

definition reaches :: "'a::linorder option \<Rightarrow> 'a \<Rightarrow> bool" where
  "reaches limit x = (case limit of None \<Rightarrow> False | Some m \<Rightarrow> m \<le> x)"

definition exhausted_budget ::
  "run_options \<Rightarrow> session_state \<Rightarrow> int \<Rightarrow> nat \<Rightarrow> dimension option" where
  "exhausted_budget opts ss elapsed tool_calls =
     (case run_budget opts ss of
        None \<Rightarrow> None
      | Some b \<Rightarrow>
          if reaches (rb_token_max b) (cu_input (ss_usage ss) + cu_output (ss_usage ss)) then Some Token_Dim
          else if reaches (rb_cost_max b) (cu_cost (ss_usage ss)) then Some Cost_Dim
          else if reaches (rb_time_max b) elapsed then Some Time_Dim
          else if reaches (rb_tool_call_max b) (int tool_calls) then Some Tool_Call_Dim
          else None)"

definition run_context :: "'w ports \<Rightarrow> run_options \<Rightarrow> string option \<Rightarrow> 'w run_state \<Rightarrow> router_context" where
  "run_context ports opts sticky s =
     (let ss = r_session s
      in \<lparr>rc_session = \<lparr>rs_id = ss_id ss, rs_cost = Fin (cu_cost (ss_usage ss)),
             rs_last_provider = None, rs_sticky = sticky\<rparr>,
          rc_turn_id = r_turn s, rc_attempts = v_attempts s,
          rc_budget = map_option (\<lambda>b. \<lparr>b_cost_max = map_option Fin (rb_cost_max b),
             b_time_max = map_option (\<lambda>t. Fin (of_int t)) (rb_time_max b)\<rparr>) (run_budget opts ss),
          rc_elapsed = Some (Fin (of_int (p_now ports (r_world s) - v_started s))),
          rc_estimated = None, rc_aborted = r_aborted s\<rparr>)"

definition lineage_role :: "string option \<Rightarrow> router_role option" where
  "lineage_role agent =
     (if agent = Some ''planner'' then Some Planner else if agent = Some ''coder'' then Some Coder
      else if agent = Some ''reviewer'' then Some Reviewer
      else if agent = Some ''reflection'' then Some Reflection else None)"

definition first_given :: "'a option \<Rightarrow> 'a option \<Rightarrow> 'a option" where
  "first_given x y = (case x of None \<Rightarrow> y | Some v \<Rightarrow> Some v)"

text \<open>
  The hint of the run: after a turn cut off by \<open>max_tokens\<close> the next one prefers the same provider
  and model, unless the caller names a model; the caller's fields win.
\<close>

definition run_hint ::
  "last_turn option \<Rightarrow> string option \<Rightarrow> router_hint option \<Rightarrow> router_hint option" where
  "run_hint prior agent hint =
     (let b7 = (case prior of Some l \<Rightarrow> if lt_stop l = Some Max_Tokens \<and>
                    Option.bind hint h_explicit = None then Some l else None | None \<Rightarrow> None);
          role = lineage_role agent
      in if b7 = None \<and> role = None \<and> hint = None then None
         else Some \<lparr>
           h_explicit = first_given (Option.bind hint h_explicit) (map_option lt_model b7),
           h_role = first_given (Option.bind hint h_role) role,
           h_cost_preference = Option.bind hint h_cost_preference,
           h_preferred = first_given (Option.bind hint h_preferred) (map_option lt_provider b7)\<rparr>)"

definition jstr :: "string \<Rightarrow> json" where "jstr s = J_Str (ascii s)"
definition jint :: "int \<Rightarrow> json" where "jint i = J_Num (of_int i)"

definition dimension_name :: "dimension \<Rightarrow> string" where
  "dimension_name d = (case d of Token_Dim \<Rightarrow> ''token'' | Cost_Dim \<Rightarrow> ''cost'' | Time_Dim \<Rightarrow> ''time''
     | Tool_Call_Dim \<Rightarrow> ''tool-call'')"

definition dimension_label :: "dimension \<Rightarrow> string" where
  "dimension_label d = (case d of Token_Dim \<Rightarrow> ''token usage'' | Cost_Dim \<Rightarrow> ''cost''
     | Time_Dim \<Rightarrow> ''time'' | Tool_Call_Dim \<Rightarrow> ''tool calls'')"

definition opt_member :: "string \<Rightarrow> json option \<Rightarrow> (ustr \<times> json) list" where
  "opt_member n x = (case x of None \<Rightarrow> [] | Some j \<Rightarrow> [(ascii n, j)])"

definition budget_json :: "resource_budget option \<Rightarrow> json" where
  "budget_json b = (case b of None \<Rightarrow> J_Obj [] | Some b \<Rightarrow> J_Obj (
     opt_member ''tokenMax'' (map_option jint (rb_token_max b)) @
     opt_member ''costUSDMax'' (map_option J_Num (rb_cost_max b)) @
     opt_member ''timeMsMax'' (map_option jint (rb_time_max b)) @
     opt_member ''toolCallMax'' (map_option jint (rb_tool_call_max b))))"

definition em_dash :: ustr where "em_dash = [8212]"

definition budget_error :: "run_options \<Rightarrow> session_state \<Rightarrow> int \<Rightarrow> nat \<Rightarrow> dimension \<Rightarrow> payload" where
  "budget_error opts ss elapsed tool_calls d =
     Error_Raised ''subagent_budget_exhausted'' None (Some
       [(ascii ''dimension'', jstr (dimension_name d)),
        (ascii ''message'', J_Str (ascii ''Resource budget exhausted ('' @ ascii (dimension_label d) @
           ascii ''); the turn was aborted. Completed changes are kept '' @ em_dash @
           ascii '' raise the budget to continue.'')),
        (ascii ''consumed'', J_Obj
          [(ascii ''input'', jint (cu_input (ss_usage ss))), (ascii ''output'', jint (cu_output (ss_usage ss))),
           (ascii ''costUSD'', J_Num (cu_cost (ss_usage ss))), (ascii ''timeMs'', jint elapsed),
           (ascii ''toolCalls'', jint (int tool_calls))]),
        (ascii ''budget'', budget_json (run_budget opts ss))])"

definition loop_error :: "nat \<Rightarrow> payload" where
  "loop_error loops = Error_Raised ''tool_loop_exhausted'' None (Some
     [(ascii ''loopCount'', jint (int loops)),
      (ascii ''message'', J_Str (ascii ''Reached the per-turn limit of '' @ ascii (show_nat loops) @
         ascii '' consecutive tool-call rounds; the turn ended here. Completed changes are kept '' @
         em_dash @ ascii '' send a follow-up message to continue in a new turn.''))])"

section \<open>Opening a turn\<close>

definition open_turn :: "string \<Rightarrow> string \<Rightarrow> session_state \<Rightarrow> session_state" where
  "open_turn turn user d =
     d\<lparr>ss_pending_interrupt := False, ss_active_turn := Some turn,
       ss_turns := ss_turns d @
         [\<lparr>t_id = turn, t_start_message = user, t_end_message = None, t_status = Streaming,
           t_parent_turn = truthy (l_parent_turn (ss_lineage d)),
           t_parent_depth = l_depth (ss_lineage d),
           t_agent_type = truthy (l_agent_type (ss_lineage d)), t_sticky = None\<rparr>]\<rparr>"

definition zero_usage :: usage where
  "zero_usage = \<lparr>u_input = 0, u_output = 0, u_cache_read = Some 0, u_cache_write = Some 0,
     u_cost = Some 0\<rparr>"

definition init_locals :: "'w ports \<Rightarrow> 'w run_state \<Rightarrow> 'w run_state" where
  "init_locals ports s =
     s\<lparr>v_sticky := None, v_decision := None, v_retry := None, v_attempts := 0, v_tool_calls := 0,
       v_failed := False, v_reason := None, v_usage := zero_usage, v_stop := None,
       v_started := p_now ports (r_world s)\<rparr>"

definition start_turn :: "'w ports \<Rightarrow> run_options \<Rightarrow> json content_part list \<Rightarrow> ('w, unit) run" where
  "start_turn ports opts content =
     seq (in_world (p_uuid ports)) (\<lambda>turn.
     seq (modify (\<lambda>s. s\<lparr>r_turn := turn, r_aborted := False\<rparr>)) (\<lambda>_.
     seq (new_message ports User content) (\<lambda>user.
     seq (set_session (open_turn turn (msg_id user))) (\<lambda>_.
     seq (from_state (\<lambda>s. emit ports (Turn_Started turn
            (truthy (l_parent_turn (ss_lineage (r_session s))))
            (truthy (l_agent_type (ss_lineage (r_session s))))))) (\<lambda>_.
     seq (case op_task opts of None \<Rightarrow> ret () | Some t \<Rightarrow> emit ports (Task_Started t)) (\<lambda>_.
     seq (append_message user) (\<lambda>_.
     seq (emit_message ports user) (\<lambda>_.
     modify (init_locals ports)))))))))"

section \<open>Preparing a request\<close>

definition pick_decision ::
  "'w ports \<Rightarrow> run_options \<Rightarrow> router_hint option \<Rightarrow> ('w, unit decision) run" where
  "pick_decision ports opts hint =
     from_state (\<lambda>s.
     seq (case v_retry s of
            Some d \<Rightarrow> ret d
          | None \<Rightarrow> (case v_sticky s of
              Some c \<Rightarrow> ret \<lparr>d_provider = c,
                d_model = (case v_decision s of None \<Rightarrow> [] | Some d \<Rightarrow> d_model d),
                d_reason = ''sticky-provider'', d_metadata = None\<rparr>
            | None \<Rightarrow> await ports (p_pick ports (run_context ports opts None s) hint))) (\<lambda>d.
     seq (modify (\<lambda>s. s\<lparr>v_decision := Some d, v_retry := None\<rparr>)) (\<lambda>_. ret d)))"

definition compose_system :: "'w ports \<Rightarrow> unit decision \<Rightarrow> ('w, ustr) run" where
  "compose_system ports d =
     from_state (\<lambda>s.
     seq (await ports (p_compose ports \<lparr>pc_cwd = ss_cwd (r_session s), pc_model = d_model d,
            pc_provider = client_name (d_provider d), pc_platform = None, pc_arch = None,
            pc_shell = None\<rparr>)) (\<lambda>system.
     seq (from_state (\<lambda>s. if ss_system_prompt (r_session s) = Some system then ret ()
            else set_session (\<lambda>d. d\<lparr>ss_system_prompt := Some system\<rparr>))) (\<lambda>_. ret system)))"

definition turn_status_to :: "string \<Rightarrow> turn_status \<Rightarrow> session_state \<Rightarrow> session_state" where
  "turn_status_to turn st d = d\<lparr>ss_turns := set_turn_status turn st (ss_turns d)\<rparr>"

definition policy_context ::
  "'w ports \<Rightarrow> 'w context_policy \<Rightarrow> unit decision \<Rightarrow> ustr \<Rightarrow> 'w run_state \<Rightarrow> context_ctx" where
  "policy_context ports pol d system s =
     \<lparr>cx_session = r_session s, cx_caps = client_caps (d_provider d), cx_turn = r_turn s,
      cx_model = d_model d, cx_system_tokens = Some (cp_estimate pol system (d_model d)),
      cx_tool_tokens = Some (int (rough_tokens (length (p_stringify ports
        (p_schemas ports (d_provider d) (r_world s))))))\<rparr>"

definition compact_session :: "'w ports \<Rightarrow> 'w context_policy \<Rightarrow> context_ctx \<Rightarrow> ('w, unit) run" where
  "compact_session ports pol cx =
     seq (set_session (turn_status_to (cx_turn cx) Compacting)) (\<lambda>_.
     seq (await ports (cp_compact pol cx)) (\<lambda>snap.
     seq (set_session (\<lambda>d. turn_status_to (cx_turn cx) Streaming (d\<lparr>ss_messages := sn_messages snap\<rparr>))) (\<lambda>_.
     emit ports (Context_Compacted (sn_before snap) (sn_after snap) (Some (sn_strategy snap))
       (Some (sn_compacted snap))))))"

definition request_messages ::
  "'w ports \<Rightarrow> unit decision \<Rightarrow> ustr \<Rightarrow> ('w, json message list) run" where
  "request_messages ports d system =
     from_state (\<lambda>s.
     seq (case p_policy ports of
            None \<Rightarrow> ret (ss_messages (r_session s))
          | Some pol \<Rightarrow>
              let cx = policy_context ports pol d system s in
              seq (lift_result (cp_should pol cx)) (\<lambda>yes.
              seq (if yes then compact_session ports pol cx else ret ()) (\<lambda>_.
              from_state (\<lambda>s. lift_result (bind_result (cp_build pol (cx\<lparr>cx_session := r_session s\<rparr>))
                (\<lambda>cm. Inr (cm_messages cm))))))) (\<lambda>ms.
     ret (messages_for_capabilities ms (client_name (d_provider d)) (client_caps (d_provider d)))))"

definition request_cache :: "run_options \<Rightarrow> capabilities \<Rightarrow> (cache_mode \<times> int option) option" where
  "request_cache opts caps =
     (if op_cache_strategy opts \<noteq> Some Cache_Off \<and> cap_cache caps \<noteq> No_Cache
      then Some (if cap_cache caps = Persistent then Persistent else Ephemeral, op_cache_ttl opts)
      else None)"

section \<open>Consuming a stream\<close>

datatype stream_end = Stream_Done | Stream_Break | Stream_Retry

definition fail_stream :: "('w, unit) run" where
  "fail_stream = modify (\<lambda>s. s\<lparr>v_failed := True, v_reason := Some Stream_Interrupted\<rparr>)"

definition stream_error :: "unit decision \<Rightarrow> ustr \<Rightarrow> provider_error" where
  "stream_error d reason =
     \<lparr>pe_message = reason, pe_provider = client_name (d_provider d), pe_model = Some (d_model d),
      pe_status = None, pe_category = Stream_Truncated, pe_retryable = True, pe_retry_after = None\<rparr>"

text \<open>The router is asked with the attempt count before it is incremented.\<close>

definition retry_stream ::
  "'w ports \<Rightarrow> run_options \<Rightarrow> unit decision \<Rightarrow> ustr \<Rightarrow> ('w, stream_end) run" where
  "retry_stream ports opts d reason =
     from_state (\<lambda>s.
     seq (modify (\<lambda>s. s\<lparr>v_attempts := v_attempts s + 1\<rparr>)) (\<lambda>_.
     seq (await ports (p_on_error ports (stream_error d reason)
            (run_context ports opts (map_option client_name (v_sticky s)) s))) (\<lambda>next1.
     case next1 of
       None \<Rightarrow> seq fail_stream (\<lambda>_. ret Stream_Break)
     | Some d' \<Rightarrow>
         from_state (\<lambda>s.
           if v_sticky s \<noteq> None \<and>
              map_option client_ref (v_sticky s) \<noteq> Some (client_ref (d_provider d'))
           then seq fail_stream (\<lambda>_.
                seq (emit ports (Error_Raised ''provider_sticky_violation'' None (Some
                  [(ascii ''reason'', jstr ''tool_use already in flight, cannot switch provider'')])))
                (\<lambda>_. ret Stream_Break))
           else
             seq (if client_ref (d_provider d') = client_ref (d_provider d) then ret ()
                  else emit ports (Router_Switched (client_name (d_provider d))
                         (Some (client_name (d_provider d'))) (d_reason d'))) (\<lambda>_.
             seq (modify (\<lambda>s. s\<lparr>v_retry := Some d'\<rparr>)) (\<lambda>_. ret Stream_Retry))))))"

definition on_interrupted ::
  "'w ports \<Rightarrow> run_options \<Rightarrow> unit decision \<Rightarrow> in_progress \<Rightarrow> ustr \<Rightarrow> ('w, stream_end) run" where
  "on_interrupted ports opts d cur reason =
     (let partial1 = ip_tools cur \<noteq> []
      in seq (emit ports (Error_Raised ''stream_interrupted'' None (Some
                [(ascii ''reason'', J_Str reason), (ascii ''hadPartialToolUse'', J_Bool partial1)]))) (\<lambda>_.
         if partial1
         then seq fail_stream (\<lambda>_.
              seq (emit ports (Error_Raised ''stream_resume_unsafe_partial_tool_use'' None (Some
                [(ascii ''reason'', jstr ''partial tool_use cannot be resumed or replayed safely'')])))
              (\<lambda>_. ret Stream_Break))
         else retry_stream ports opts d reason))"

definition note_sticky :: "unit decision \<Rightarrow> json provider_chunk \<Rightarrow> 'w run_state \<Rightarrow> 'w run_state" where
  "note_sticky d chunk s =
     (case chunk of
        Tool_Use_Start i n \<Rightarrow> if v_sticky s = None then s\<lparr>v_sticky := Some (d_provider d)\<rparr> else s
      | _ \<Rightarrow> s)"

definition emit_delta :: "'w ports \<Rightarrow> string \<Rightarrow> json provider_chunk \<Rightarrow> ('w, unit) run" where
  "emit_delta ports i chunk =
     (case delta_fragment chunk of
        None \<Rightarrow> ret () | Some (kind, t) \<Rightarrow> emit ports (Stream_Delta i kind t))"

definition pull_chunk :: "'w ports \<Rightarrow> 'w pull \<Rightarrow> ('w, json provider_chunk option) run" where
  "pull_chunk ports pull = from_state (\<lambda>s. await ports (pull (r_aborted s)))"

fun consume ::
  "'w ports \<Rightarrow> run_options \<Rightarrow> unit decision \<Rightarrow> string \<Rightarrow> 'w pull list \<Rightarrow> in_progress \<Rightarrow>
     ('w, stream_end \<times> in_progress) run" where
  "consume ports opts d i [] cur =
     seq (modify (yield ports)) (\<lambda>_. ret (Stream_Done, cur))"
| "consume ports opts d i (pull # pulls) cur =
     seq (pull_chunk ports pull) (\<lambda>got.
     case got of
       None \<Rightarrow> ret (Stream_Done, cur)
     | Some chunk \<Rightarrow>
         from_state (\<lambda>s.
           if r_aborted s then ret (Stream_Break, cur)
           else seq (modify (note_sticky d chunk)) (\<lambda>_.
             case chunk of
               Message_Interrupted reason \<Rightarrow>
                 seq (on_interrupted ports opts d cur reason) (\<lambda>e. ret (e, no_progress))
             | _ \<Rightarrow>
                 seq (emit_delta ports i chunk) (\<lambda>_.
                   consume ports opts d i pulls (merge_chunk (p_parse ports) chunk cur)))))"

section \<open>Finishing a response and running its tools\<close>

definition add_turn_usage :: "usage \<Rightarrow> usage \<Rightarrow> usage" where
  "add_turn_usage t u =
     \<lparr>u_input = u_input t + u_input u, u_output = u_output t + u_output u,
      u_cache_read = Some (or_zero (u_cache_read t) + or_zero (u_cache_read u)),
      u_cache_write = Some (or_zero (u_cache_write t) + or_zero (u_cache_write u)),
      u_cost = Some (or_zero (u_cost t) + or_zero (u_cost u))\<rparr>"

definition account_usage :: "in_progress \<Rightarrow> ('w, unit) run" where
  "account_usage cur =
     (case ip_usage cur of
        None \<Rightarrow> ret ()
      | Some u \<Rightarrow>
          seq (modify (\<lambda>s. s\<lparr>v_usage := add_turn_usage (v_usage s) u\<rparr>)) (\<lambda>_.
          set_session (\<lambda>d. d\<lparr>ss_usage := add_usage (ss_usage d) u\<rparr>)))"

definition note_stop :: "in_progress \<Rightarrow> 'w run_state \<Rightarrow> 'w run_state" where
  "note_stop cur s = (case ip_stop cur of None \<Rightarrow> s | Some x \<Rightarrow> s\<lparr>v_stop := Some x\<rparr>)"

type_synonym tool_call = "string \<times> string \<times> json"

definition tool_calls_of :: "json content_part list \<Rightarrow> tool_call list" where
  "tool_calls_of cs =
     List.map_filter (\<lambda>p. case p of Tool_Use i n inp \<Rightarrow> Some (i, n, inp) | _ \<Rightarrow> None) cs"

definition invalid_execution :: "in_progress \<Rightarrow> string \<Rightarrow> string \<Rightarrow> tool_execution" where
  "invalid_execution cur i n =
     (let raw = (case map_get (ip_tools cur) i of None \<Rightarrow> [] | Some t \<Rightarrow> given (ag_raw t) [])
      in \<lparr>te_id = i, te_name = Some n,
          te_content = [Text (ascii ''Invalid JSON arguments for tool '' @ ascii n @
             ascii '' (stream truncated?): '' @ take 200 raw @ ascii ''...'')],
          te_is_error = Some True, te_duration = None, te_added = None, te_removed = None\<rparr>)"

text \<open>
  The synchronous first part of each call runs for all calls before any of them continues: invalid
  arguments are answered at once, the others announce their start.
\<close>

definition start_tool :: "'w ports \<Rightarrow> in_progress \<Rightarrow> tool_call \<Rightarrow> ('w, tool_execution option) run" where
  "start_tool ports cur t =
     (case t of (i, n, inp) \<Rightarrow>
        if i \<in> set (ip_invalid cur) then ret (Some (invalid_execution cur i n))
        else seq (emit ports (Tool_Started i n)) (\<lambda>_. ret None))"

definition execute_tool :: "'w ports \<Rightarrow> tool_call \<Rightarrow> ('w, tool_execution) run" where
  "execute_tool ports t =
     (case t of (i, n, inp) \<Rightarrow>
        from_state (\<lambda>s0.
        seq (modify (\<lambda>s. s\<lparr>r_log := r_log s @ [Executed i n inp]\<rparr>)) (\<lambda>_.
        seq (await ports (p_execute ports i n inp (r_aborted s0))) (\<lambda>x.
        from_state (\<lambda>s. ret (x\<lparr>te_duration :=
          Some (p_now ports (r_world s) - p_now ports (r_world s0))\<rparr>))))))"

definition finish_tool ::
  "'w ports \<Rightarrow> tool_call \<times> tool_execution option result \<Rightarrow> ('w, tool_execution) run" where
  "finish_tool ports tr =
     (case snd tr of
        Inl e \<Rightarrow> throw_error e
      | Inr (Some x) \<Rightarrow> ret x
      | Inr None \<Rightarrow> execute_tool ports (fst tr))"

definition run_tools :: "'w ports \<Rightarrow> in_progress \<Rightarrow> tool_call list \<Rightarrow> ('w, tool_execution list) run" where
  "run_tools ports cur calls s =
     (let (started, s1) = all_settled (start_tool ports cur) calls s
      in promise_all (finish_tool ports) (zip calls started) s1)"

definition result_part :: "'w ports \<Rightarrow> tool_execution \<Rightarrow> json content_part" where
  "result_part ports x =
     Tool_Result (te_id x)
       (wrap_untrusted (p_part_text ports) (te_content x)
          (ascii ''tool:'' @ ascii (given (te_name x) ''unknown'')) (Some (te_id x)))
       (te_is_error x)"

definition record_result :: "'w ports \<Rightarrow> tool_call list \<Rightarrow> tool_execution \<Rightarrow> ('w, unit) run" where
  "record_result ports calls x =
     seq (new_message ports User [result_part ports x]) (\<lambda>m.
     seq (append_message m) (\<lambda>_.
     seq (emit ports (Tool_Completed \<lparr>to_id = te_id x,
            to_tool = (case map_get (map (\<lambda>(i, n, inp). (i, n)) calls) (te_id x) of
               Some n \<Rightarrow> n | None \<Rightarrow> given (te_name x) ''unknown''),
            to_is_error = given (te_is_error x) False, to_duration = te_duration x,
            to_added = te_added x, to_removed = te_removed x, to_blocked = None,
            to_blocked_by_hook = False\<rparr>)) (\<lambda>_.
     emit_message ports m)))"

definition run_tool_phase :: "'w ports \<Rightarrow> in_progress \<Rightarrow> tool_call list \<Rightarrow> ('w, unit) run" where
  "run_tool_phase ports cur calls =
     seq (modify (\<lambda>s. s\<lparr>v_tool_calls := v_tool_calls s + length calls\<rparr>)) (\<lambda>_.
     seq (each (\<lambda>(i, n, inp). emit ports (Tool_Requested i n inp)) calls) (\<lambda>_.
     seq (run_tools ports cur calls) (\<lambda>results.
     each (record_result ports calls) results)))"

datatype flow = Again | Stop

definition finish_response ::
  "'w ports \<Rightarrow> run_options \<Rightarrow> unit decision \<Rightarrow> string \<Rightarrow> in_progress \<Rightarrow> ('w, flow) run" where
  "finish_response ports opts d i cur0 =
     from_state (\<lambda>s.
     seq (case p_on_success ports of
            None \<Rightarrow> modify (yield ports)
          | Some f \<Rightarrow> await ports (f d (run_context ports opts (map_option client_name (v_sticky s)) s))) (\<lambda>_.
     from_state (\<lambda>s.
     let cur = end_all_tools (p_parse ports) cur0;
         m = assistant_message cur d i (p_now ports (r_world s));
         calls = tool_calls_of (msg_content m)
     in seq (append_message m) (\<lambda>_.
        seq (account_usage cur) (\<lambda>_.
        seq (modify (note_stop cur)) (\<lambda>_.
        seq (emit ports (Stream_Completed i (ip_usage cur))) (\<lambda>_.
        seq (emit_message ports m) (\<lambda>_.
        if calls = [] then ret Stop
        else seq (run_tool_phase ports cur calls) (\<lambda>_. ret Again)))))))))"

section \<open>The loop\<close>

text \<open>One iteration, after the checks at its top.\<close>

definition iteration :: "'w ports \<Rightarrow> run_options \<Rightarrow> router_hint option \<Rightarrow> ('w, flow) run" where
  "iteration ports opts hint =
     seq (pick_decision ports opts hint) (\<lambda>d.
     seq (compose_system ports d) (\<lambda>system.
     seq (request_messages ports d system) (\<lambda>ms.
     seq (in_world (p_uuid ports)) (\<lambda>i.
     seq (emit ports (Stream_Started i (Some (client_name (d_provider d))) (Some (d_model d)))) (\<lambda>_.
     from_state (\<lambda>s.
     seq (in_world (p_stream ports (d_provider d)
            \<lparr>sr_model = d_model d, sr_messages = ms, sr_system = system,
             sr_tools = p_schemas ports (d_provider d) (r_world s),
             sr_cache = request_cache opts (client_caps (d_provider d))\<rparr> (r_aborted s))) (\<lambda>pulls.
     seq (consume ports opts d i pulls no_progress) (\<lambda>r.
     case r of
       (Stream_Break, cur) \<Rightarrow> ret Stop
     | (Stream_Retry, cur) \<Rightarrow> ret Again
     | (Stream_Done, cur) \<Rightarrow>
         from_state (\<lambda>s. if r_aborted s then ret Stop
           else finish_response ports opts d i cur)))))))))"

definition max_loops :: "run_options \<Rightarrow> nat" where
  "max_loops opts = given (op_max_loops opts) 25"

definition stop_for_budget :: "'w ports \<Rightarrow> run_options \<Rightarrow> dimension \<Rightarrow> ('w, unit) run" where
  "stop_for_budget ports opts dm =
     seq (from_state (\<lambda>s. emit ports (budget_error opts (r_session s)
            (p_now ports (r_world s) - v_started s) (v_tool_calls s) dm))) (\<lambda>_.
     modify (\<lambda>s. s\<lparr>v_reason := Some Error_Abort, r_aborted := True\<rparr>))"

definition elapsed :: "'w ports \<Rightarrow> 'w run_state \<Rightarrow> int" where
  "elapsed ports s = p_now ports (r_world s) - v_started s"

function run_loop ::
  "'w ports \<Rightarrow> run_options \<Rightarrow> router_hint option \<Rightarrow> nat \<Rightarrow> 'w run_state \<Rightarrow>
     unit result \<times> 'w run_state" where
  "run_loop ports opts hint loops s =
     (if r_aborted s then (Inr (), s)
      else case exhausted_budget opts (r_session s) (elapsed ports s) (v_tool_calls s) of
        Some dm \<Rightarrow> stop_for_budget ports opts dm s
      | None \<Rightarrow>
          if loops \<ge> max_loops opts then emit ports (loop_error loops) s
          else case iteration ports opts hint s of
            (Inl e, s1) \<Rightarrow> (Inl e, s1)
          | (Inr Stop, s1) \<Rightarrow> (Inr (), s1)
          | (Inr Again, s1) \<Rightarrow> run_loop ports opts hint (loops + 1) s1)"
  by pat_completeness auto
termination
  by (relation "measure (\<lambda>(ports, opts, hint, loops, s). max_loops opts - loops)") auto

declare run_loop.simps [simp del]

section \<open>Closing a turn\<close>

definition on_exception :: "'w ports \<Rightarrow> volund_error \<Rightarrow> ('w, unit) run" where
  "on_exception ports e =
     seq (modify (\<lambda>s. s\<lparr>v_failed := True, v_reason := Some Error_Abort\<rparr>)) (\<lambda>_.
     from_state (\<lambda>s. emit ports (Error_Raised ''runner_error'' None (Some
       ((ascii ''message'', jstr (err_detail e)) #
        (case v_decision s of None \<Rightarrow> []
         | Some d \<Rightarrow> [(ascii ''provider'', jstr (client_name (d_provider d))),
                     (ascii ''model'', jstr (d_model d))]))))))"

definition is_aborted :: "'w run_state \<Rightarrow> bool" where
  "is_aborted s \<longleftrightarrow> v_failed s \<or> r_aborted s \<or> ss_pending_interrupt (r_session s)"

definition abort_reason_of :: "'w run_state \<Rightarrow> abort_reason" where
  "abort_reason_of s =
     (if v_reason s = Some Stream_Interrupted then Stream_Interrupted
      else if v_failed s then Error_Abort else User_Interrupt)"

definition close_turn :: "string \<Rightarrow> bool \<Rightarrow> session_state \<Rightarrow> session_state" where
  "close_turn turn aborted d =
     d\<lparr>ss_active_turn := None,
       ss_turns := set_turn_status turn (if aborted then Turn_Aborted else Turn_Done) (ss_turns d)\<rparr>"

definition note_last_turn :: "'w run_state \<Rightarrow> 'w run_state" where
  "note_last_turn s =
     (case v_decision s of
        None \<Rightarrow> s
      | Some d \<Rightarrow> s\<lparr>r_last_turn := Some \<lparr>lt_provider = client_name (d_provider d),
                      lt_model = d_model d, lt_stop = v_stop s\<rparr>\<rparr>)"

definition emit_task_end :: "'w ports \<Rightarrow> run_options \<Rightarrow> bool \<Rightarrow> ('w, unit) run" where
  "emit_task_end ports opts aborted =
     (case op_task opts of
        None \<Rightarrow> ret ()
      | Some t \<Rightarrow> from_state (\<lambda>s.
          let duration = max 0 (elapsed ports s)
          in emit ports (if aborted
               then Task_Failed t duration (if v_failed s then Task_Error else Task_Interrupted)
               else Task_Completed t duration)))"

definition finish_turn :: "'w ports \<Rightarrow> run_options \<Rightarrow> ('w, unit) run" where
  "finish_turn ports opts =
     from_state (\<lambda>s0. let aborted = is_aborted s0 in
     seq (set_session (close_turn (r_turn s0) aborted)) (\<lambda>_.
     seq (if aborted
          then from_state (\<lambda>s. emit ports (Turn_Aborted_Ev (r_turn s0) (abort_reason_of s)))
          else seq (modify note_last_turn) (\<lambda>_.
               from_state (\<lambda>s. emit ports (Turn_Completed (r_turn s0) (v_usage s) (v_stop s))))) (\<lambda>_.
     emit_task_end ports opts aborted)))"

definition run_body :: "'w ports \<Rightarrow> run_options \<Rightarrow> router_hint option \<Rightarrow> ('w, unit) run" where
  "run_body ports opts hint =
     from_state (\<lambda>s. let h = run_hint (r_last_turn s) (l_agent_type (ss_lineage (r_session s))) hint
       in catch_error (run_loop ports opts h 0) (on_exception ports))"

definition run_turn ::
  "'w ports \<Rightarrow> run_options \<Rightarrow> json content_part list \<Rightarrow> router_hint option \<Rightarrow> ('w, session_state) run"
where
  "run_turn ports opts content hint =
     seq (start_turn ports opts content) (\<lambda>_.
     seq (run_body ports opts hint) (\<lambda>_.
     seq (finish_turn ports opts) (\<lambda>_.
     from_state (\<lambda>s. ret (r_session s)))))"

end
