(* ===== verification/Runner_Invariants.thy ===== *)
theory Runner_Invariants
  imports Runner
begin

text \<open>
  What the agent loop preserves. \<open>quiet_invariant\<close> holds of every action that neither changes the
  messages nor starts a stream nor runs a tool, \<open>message_invariant\<close> adds the changes of the messages,
  \<open>loop_invariant\<close> the executions of tools and \<open>run_invariant\<close> the start of a stream; each locale
  proves once, for any such predicate, that every function of the loop keeps it. They are interpreted
  on the number of streams, the terminal events, the identity of the turn and the usage.
\<close>

section \<open>What an await and an emission leave alone\<close>

lemma interrupts_frame [simp]:
  "r_log ((interrupt ^^ n) s) = r_log s"
  "r_turn ((interrupt ^^ n) s) = r_turn s"
  "r_last_turn ((interrupt ^^ n) s) = r_last_turn s"
  "r_world ((interrupt ^^ n) s) = r_world s"
  "v_sticky ((interrupt ^^ n) s) = v_sticky s"
  "v_decision ((interrupt ^^ n) s) = v_decision s"
  "v_retry ((interrupt ^^ n) s) = v_retry s"
  "v_attempts ((interrupt ^^ n) s) = v_attempts s"
  "v_tool_calls ((interrupt ^^ n) s) = v_tool_calls s"
  "v_failed ((interrupt ^^ n) s) = v_failed s"
  "v_reason ((interrupt ^^ n) s) = v_reason s"
  "v_usage ((interrupt ^^ n) s) = v_usage s"
  "v_stop ((interrupt ^^ n) s) = v_stop s"
  "v_started ((interrupt ^^ n) s) = v_started s"
  "ss_messages (r_session ((interrupt ^^ n) s)) = ss_messages (r_session s)"
  "ss_turns (r_session ((interrupt ^^ n) s)) = ss_turns (r_session s)"
  "ss_active_turn (r_session ((interrupt ^^ n) s)) = ss_active_turn (r_session s)"
  "ss_usage (r_session ((interrupt ^^ n) s)) = ss_usage (r_session s)"
  "ss_id (r_session ((interrupt ^^ n) s)) = ss_id (r_session s)"
  "ss_lineage (r_session ((interrupt ^^ n) s)) = ss_lineage (r_session s)"
  "ss_resource_budget (r_session ((interrupt ^^ n) s)) = ss_resource_budget (r_session s)"
  by (induction n) (simp_all add: interrupt_def)

lemma yield_frame [simp]:
  "r_log (yield ports s) = r_log s"
  "r_turn (yield ports s) = r_turn s"
  "r_last_turn (yield ports s) = r_last_turn s"
  "v_sticky (yield ports s) = v_sticky s"
  "v_decision (yield ports s) = v_decision s"
  "v_retry (yield ports s) = v_retry s"
  "v_attempts (yield ports s) = v_attempts s"
  "v_tool_calls (yield ports s) = v_tool_calls s"
  "v_failed (yield ports s) = v_failed s"
  "v_reason (yield ports s) = v_reason s"
  "v_usage (yield ports s) = v_usage s"
  "v_stop (yield ports s) = v_stop s"
  "v_started (yield ports s) = v_started s"
  "ss_messages (r_session (yield ports s)) = ss_messages (r_session s)"
  "ss_turns (r_session (yield ports s)) = ss_turns (r_session s)"
  "ss_active_turn (r_session (yield ports s)) = ss_active_turn (r_session s)"
  "ss_usage (r_session (yield ports s)) = ss_usage (r_session s)"
  "ss_id (r_session (yield ports s)) = ss_id (r_session s)"
  "ss_lineage (r_session (yield ports s)) = ss_lineage (r_session s)"
  "ss_resource_budget (r_session (yield ports s)) = ss_resource_budget (r_session s)"
  by (simp_all add: yield_def split: prod.splits)

text \<open>
  The part of a run state that no await and no emission touches; everything an invariant of the
  run speaks about is a function of it and of the log.
\<close>

definition core :: "'w run_state \<Rightarrow> json message list \<times> turn list \<times> string option \<times> cumulative_usage
    \<times> string \<times> lineage \<times> string \<times> bool \<times> usage \<times> abort_reason option \<times> stop_reason option" where
  "core s = (ss_messages (r_session s), ss_turns (r_session s), ss_active_turn (r_session s),
     ss_usage (r_session s), ss_id (r_session s), ss_lineage (r_session s), r_turn s, v_failed s,
     v_usage s, v_reason s, v_stop s)"

lemma core_yield [simp]: "core (yield ports s) = core s"
  by (simp add: core_def)

lemma core_world [simp]: "core (s\<lparr>r_world := w\<rparr>) = core s"
  by (simp add: core_def)

lemma core_log [simp]: "core (s\<lparr>r_log := l\<rparr>) = core s"
  by (simp add: core_def)

lemma emit_cases:
  obtains r s' where "emit ports p s = (r, s')" "core s' = core s"
    "r_log s' = r_log s @ (if valid_payload p then [Emitted (emitted_event ports p s)] else [])"
    "r = Inr () \<Longrightarrow> valid_payload p" "v_decision s' = v_decision s"
proof -
  obtain i w1 where u: "p_uuid ports (r_world s) = (i, w1)" by (cases "p_uuid ports (r_world s)")
  obtain r w2 where b: "bus_emit (p_bus ports) i (p_now ports w1) p (ss_version (r_session s))
      (ss_id (r_session s)) (Some (r_turn s)) w1 = (r, w2)"
    by (cases "bus_emit (p_bus ports) i (p_now ports w1) p (ss_version (r_session s))
      (ss_id (r_session s)) (Some (r_turn s)) w1")
  have valid: "valid_payload p" if "r = Inr e" for e
    using b that by (auto simp: bus_emit_def assert_payload_contract_def split: if_splits)
  show thesis
    by (rule that [of "case r of Inl e \<Rightarrow> Inl e | Inr _ \<Rightarrow> Inr ()" "yield ports ((if valid_payload p
         then s\<lparr>r_log := r_log s @ [Emitted (emitted_event ports p s)]\<rparr> else s)\<lparr>r_world := w2\<rparr>)"])
      (use u b valid in \<open>auto simp: emit_def Let_def split: sum.splits\<close>)
qed

lemma await_core:
  assumes "await ports f s = (r, s')"
  shows "core s' = core s" "r_log s' = r_log s" "v_decision s' = v_decision s"
  using assms by (auto simp: await_def split: prod.splits)


section \<open>Invariants of the loop\<close>

text \<open>
  The payloads the loop emits besides the start of a stream: the quiet ones, and the two that go
  with a change of the messages.
\<close>

definition quiet :: "payload \<Rightarrow> bool" where
  "quiet p = (case p of Stream_Delta _ _ _ \<Rightarrow> True
     | Stream_Completed _ _ \<Rightarrow> True | Tool_Requested _ _ _ \<Rightarrow> True | Tool_Started _ _ \<Rightarrow> True
     | Tool_Completed _ \<Rightarrow> True | Router_Switched _ _ _ \<Rightarrow> True | Error_Raised _ _ _ \<Rightarrow> True
     | _ \<Rightarrow> False)"

definition routine :: "payload \<Rightarrow> bool" where
  "routine p = (quiet p \<or> (case p of Message_Appended _ _ _ \<Rightarrow> True
     | Context_Compacted _ _ _ _ \<Rightarrow> True | _ \<Rightarrow> False))"

lemma quiet_simps [simp]:
  "quiet (Stream_Delta i k t)" "quiet (Stream_Completed i u)"
  "quiet (Tool_Requested i n inp)" "quiet (Tool_Started i n)" "quiet (Tool_Completed oc)"
  "quiet (Router_Switched fr to w)" "quiet (Error_Raised er g cx)"
  by (simp_all add: quiet_def)

lemma routine_simps [simp]:
  "routine (Message_Appended i r c)" "routine (Context_Compacted bf af st ids)"
  by (simp_all add: routine_def)

lemma quiet_routine: "quiet p \<Longrightarrow> routine p"
  by (simp add: routine_def)

definition benign :: "(session_state \<Rightarrow> session_state) \<Rightarrow> bool" where
  "benign recipe \<longleftrightarrow> (\<forall>d. ss_usage (recipe d) = ss_usage d \<and> ss_id (recipe d) = ss_id d \<and>
     ss_active_turn (recipe d) = ss_active_turn d \<and> map t_id (ss_turns (recipe d)) = map t_id (ss_turns d))"

definition harmless :: "(session_state \<Rightarrow> session_state) \<Rightarrow> bool" where
  "harmless recipe \<longleftrightarrow> benign recipe \<and> (\<forall>d. ss_messages (recipe d) = ss_messages d)"

lemma benign_simps [simp]:
  "benign (\<lambda>d. d\<lparr>ss_messages := ss_messages d @ [m]\<rparr>)"
  "harmless (\<lambda>d. d\<lparr>ss_system_prompt := p\<rparr>)"
  "harmless (turn_status_to t st)"
  "benign (\<lambda>d. turn_status_to t st (d\<lparr>ss_messages := ms\<rparr>))"
  by (simp_all add: benign_def harmless_def turn_status_to_def)

lemma harmless_benign: "harmless recipe \<Longrightarrow> benign recipe"
  by (simp add: harmless_def)

text \<open>An event the bus let through, made by the run itself.\<close>

definition sound_event :: "event \<Rightarrow> bool" where
  "sound_event e \<longleftrightarrow> valid_payload (ev_payload e) \<and> ev_parent_turn e = None \<and> ev_parent_depth e = None"

locale quiet_invariant =
  fixes I :: "'w run_state \<Rightarrow> bool"
  assumes world: "I s \<Longrightarrow> I (s\<lparr>r_world := w\<rparr>)"
    and interrupted: "I s \<Longrightarrow> I (interrupt s)"
    and emitted: "I s \<Longrightarrow> quiet (ev_payload e) \<Longrightarrow> sound_event e \<Longrightarrow> I (s\<lparr>r_log := r_log s @ [Emitted e]\<rparr>)"
    and session: "I s \<Longrightarrow> harmless recipe \<Longrightarrow>
      I (s\<lparr>r_session := update_session (r_session s) recipe\<rparr>)"
    and accounted: "I s \<Longrightarrow> I (s\<lparr>v_usage := add_turn_usage (v_usage s) u,
      r_session := update_session (r_session s) (\<lambda>d. d\<lparr>ss_usage := add_usage (ss_usage d) u\<rparr>)\<rparr>)"
    and locals: "I s \<Longrightarrow> I (s\<lparr>v_sticky := st\<rparr>)" "I s \<Longrightarrow> I (s\<lparr>v_decision := d, v_retry := r\<rparr>)"
      "I s \<Longrightarrow> I (s\<lparr>v_retry := r\<rparr>)" "I s \<Longrightarrow> I (s\<lparr>v_attempts := k\<rparr>)"
      "I s \<Longrightarrow> I (s\<lparr>v_tool_calls := k\<rparr>)" "I s \<Longrightarrow> I (s\<lparr>v_failed := True, v_reason := x\<rparr>)"
      "I s \<Longrightarrow> I (s\<lparr>v_reason := x, r_aborted := True\<rparr>)" "I s \<Longrightarrow> I (s\<lparr>v_stop := y\<rparr>)"
begin

lemma yielded: "I s \<Longrightarrow> I (yield ports s)"
proof -
  assume "I s"
  then have "I ((interrupt ^^ n) (s\<lparr>r_world := w\<rparr>))" for n w
    by (induction n) (simp_all add: world interrupted)
  then show ?thesis by (simp add: yield_def split: prod.splits)
qed

lemma keeps_await: "keeping I (await ports f)"
  by (rule keepingI) (simp add: await_def yielded world split: prod.splits)

lemma keeps_in_world: "keeping I (in_world f)"
  by (rule keepingI) (simp add: in_world_def world split: prod.splits)

lemma keeps_lift: "keeping I (lift_result r)"
  by (rule keepingI) (simp add: lift_result_def)

lemma emit_from:
  assumes "I s" and "\<And>e. ev_payload e = p \<Longrightarrow> sound_event e \<Longrightarrow> J (s\<lparr>r_log := r_log s @ [Emitted e]\<rparr>)"
    and "\<And>s. I s \<Longrightarrow> J s" and "quiet_invariant J"
  shows "J (snd (emit ports p s))"
proof -
  obtain i w1 where u: "p_uuid ports (r_world s) = (i, w1)" by (cases "p_uuid ports (r_world s)")
  obtain r w2 where b: "bus_emit (p_bus ports) i (p_now ports w1) p (ss_version (r_session s))
      (ss_id (r_session s)) (Some (r_turn s)) w1 = (r, w2)"
    by (cases "bus_emit (p_bus ports) i (p_now ports w1) p (ss_version (r_session s))
      (ss_id (r_session s)) (Some (r_turn s)) w1")
  let ?s = "if valid_payload p then s\<lparr>r_log := r_log s @ [Emitted (emitted_event ports p s)]\<rparr> else s"
  have "J (?s\<lparr>r_world := w2\<rparr>)"
    by (rule quiet_invariant.world [OF assms(4)]) (use assms(1-3) in \<open>auto simp: emitted_event_def sound_event_def\<close>)
  then have "J (yield ports (?s\<lparr>r_world := w2\<rparr>))"
    by (rule quiet_invariant.yielded [OF assms(4)])
  then show ?thesis using u b by (simp add: emit_def Let_def)
qed

lemma keeps_emit: "quiet p \<Longrightarrow> keeping I (emit ports p)"
  by (rule keepingI) (rule emit_from, auto intro: emitted quiet_invariant_axioms)

lemma keeps_set_session: "harmless recipe \<Longrightarrow> keeping I (set_session recipe)"
  unfolding set_session_def by (rule keeping_modify) (rule session)

lemma keeps_new_message: "keeping I (new_message ports role content)"
  unfolding new_message_def
  by (intro keeping_seq keeps_in_world keepingI) simp

lemma keeps_modify_yield: "keeping I (modify (yield ports))"
  by (rule keeping_modify) (rule yielded)

lemmas base = keeps_await keeps_in_world keeps_lift keeps_set_session keeps_new_message
  keeps_modify_yield keeps_emit

lemma keeps_pick: "keeping I (pick_decision ports opts hint)"
  unfolding pick_decision_def
  by (intro keeping_rules base keeping_modify locals | assumption)+

lemma keeps_compose: "keeping I (compose_system ports d)"
  unfolding compose_system_def by (intro keeping_rules base) simp

lemma keeps_fail: "keeping I fail_stream"
  unfolding fail_stream_def by (rule keeping_modify) (rule locals)

lemma keeps_retry: "keeping I (retry_stream ports opts d reason)"
  unfolding retry_stream_def
  by (intro keeping_rules base keeps_fail keeping_modify locals quiet_simps | assumption)+

lemma keeps_interrupted: "keeping I (on_interrupted ports opts d cur reason)"
  unfolding on_interrupted_def Let_def
  by (intro keeping_rules base keeps_fail keeps_retry quiet_simps)

lemma keeps_consume: "keeping I (consume ports opts d i pulls cur)"
proof (induction pulls arbitrary: cur)
  case Nil
  show ?case by (simp, intro keeping_rules base)
next
  case (Cons pull pulls)
  have sticky: "keeping I (modify (note_sticky d chunk))" for chunk
    by (rule keeping_modify) (auto simp: note_sticky_def locals split: provider_chunk.splits)
  have delta: "keeping I (emit_delta ports i chunk)" for chunk
    by (auto simp: emit_delta_def intro!: base split: option.splits)
  have pull: "keeping I (pull_chunk ports pull)"
    unfolding pull_chunk_def by (intro keeping_rules base)
  show ?case
    unfolding consume.simps
    by (intro keeping_rules pull sticky)
      (auto intro!: keeping_rules keeps_interrupted delta Cons.IH split: provider_chunk.split)
qed

lemma keeps_account: "keeping I (account_usage cur)"
proof (cases "ip_usage cur")
  case (Some u)
  have "account_usage cur s = modify (\<lambda>s. s\<lparr>v_usage := add_turn_usage (v_usage s) u,
      r_session := update_session (r_session s) (\<lambda>d. d\<lparr>ss_usage := add_usage (ss_usage d) u\<rparr>)\<rparr>) s" for s :: "'w run_state"
    by (simp add: account_usage_def Some act_defs set_session_def)
  then have "account_usage cur = modify (\<lambda>s :: 'w run_state. s\<lparr>v_usage := add_turn_usage (v_usage s) u,
      r_session := update_session (r_session s) (\<lambda>d. d\<lparr>ss_usage := add_usage (ss_usage d) u\<rparr>)\<rparr>)" ..
  then show ?thesis by (simp only:) (rule keeping_modify, rule accounted)
qed (simp add: account_usage_def)

lemma keeps_budget_stop: "keeping I (stop_for_budget ports opts dm)"
  unfolding stop_for_budget_def budget_error_def
  by (intro keeping_rules base keeping_modify locals quiet_simps)

lemma keeps_loop_error: "keeping I (emit ports (loop_error loops))"
  by (rule keeps_emit) (simp add: loop_error_def)

lemma keeps_exception: "keeping I (on_exception ports e)"
  unfolding on_exception_def by (intro keeping_rules base keeping_modify locals quiet_simps)

lemma keeps_start_tool: "keeping I (start_tool ports cur t)"
  unfolding start_tool_def by (cases t) (auto intro!: keeping_rules base)

lemma keeps_execute: "(\<And>s i n inp. I s \<Longrightarrow> I (s\<lparr>r_log := r_log s @ [Executed i n inp]\<rparr>)) \<Longrightarrow> 
     keeping I (execute_tool ports t)"
  unfolding execute_tool_def
  by (cases t) (simp, intro keeping_rules base keeping_modify, simp)

lemma keeps_finish_tool:
  assumes "\<And>s i n inp. I s \<Longrightarrow> I (s\<lparr>r_log := r_log s @ [Executed i n inp]\<rparr>)"
  shows "keeping I (finish_tool ports tr)"
  unfolding finish_tool_def
  by (auto intro!: keeping_rules keeps_execute assms split: sum.splits option.splits)

lemma keeps_run_tools:
  assumes "\<And>s i n inp. I s \<Longrightarrow> I (s\<lparr>r_log := r_log s @ [Executed i n inp]\<rparr>)"
  shows "keeping I (run_tools ports cur calls)"
proof (rule keepingI)
  fix s assume "I s"
  obtain started s1 where st: "all_settled (start_tool ports cur) calls s = (started, s1)"
    by (cases "all_settled (start_tool ports cur) calls s")
  have "I s1" by (rule all_settled_keeping [OF keeps_start_tool \<open>I s\<close> st])
  then show "I (snd (run_tools ports cur calls s))"
    using keeping_snd [OF keeping_promise_all [of _ I "finish_tool ports"]] keeps_finish_tool assms st
    by (auto simp: run_tools_def)
qed

lemma keeps_note_stop: "keeping I (modify (note_stop cur))"
  by (rule keeping_modify) (simp add: note_stop_def locals split: option.splits)

lemma keeps_requested: "keeping I (each (\<lambda>(i, n, inp). emit ports (Tool_Requested i n inp)) calls)"
  by (intro keeping_each) (auto intro: base)

lemma keeps_request_plain: "p_policy ports = None \<Longrightarrow> keeping I (request_messages ports d system)"
  unfolding request_messages_def by (auto intro!: keeping_rules)

end

text \<open>With the changes of the messages and the two events that go with them.\<close>

locale message_invariant = quiet_invariant I for I :: "'w run_state \<Rightarrow> bool" +
  assumes message_emitted: "I s \<Longrightarrow> routine (ev_payload e) \<Longrightarrow> sound_event e \<Longrightarrow> I (s\<lparr>r_log := r_log s @ [Emitted e]\<rparr>)"
    and message_session: "I s \<Longrightarrow> benign recipe \<Longrightarrow>
      I (s\<lparr>r_session := update_session (r_session s) recipe\<rparr>)"
begin

lemma keeps_emit_routine: "routine p \<Longrightarrow> keeping I (emit ports p)"
  by (rule keepingI) (rule emit_from, auto intro: message_emitted quiet_invariant_axioms)

lemma keeps_set_benign: "benign recipe \<Longrightarrow> keeping I (set_session recipe)"
  unfolding set_session_def by (rule keeping_modify) (rule message_session)

lemma keeps_append: "keeping I (append_message m)"
  unfolding append_message_def by (rule keeps_set_benign) simp

lemma keeps_emit_message: "keeping I (emit_message ports m)"
  unfolding emit_message_def by (rule keeps_emit_routine) simp

lemmas message_base = keeps_append keeps_emit_message

lemma keeps_compact: "keeping I (compact_session ports pol cx)"
  unfolding compact_session_def
  by (intro keeping_rules base keeps_set_benign keeps_emit_routine benign_simps routine_simps)

lemma keeps_request: "keeping I (request_messages ports d system)"
  unfolding request_messages_def Let_def by (intro keeping_rules base keeps_compact)

lemma keeps_record: "keeping I (record_result ports calls x)"
  unfolding record_result_def by (intro keeping_rules base message_base quiet_simps)

end

text \<open>With the executions of tools.\<close>

locale loop_invariant = message_invariant I for I :: "'w run_state \<Rightarrow> bool" +
  assumes executed: "I s \<Longrightarrow> I (s\<lparr>r_log := r_log s @ [Executed i n inp]\<rparr>)"
begin

lemma keeps_tool_phase: "keeping I (run_tool_phase ports cur calls)"
  unfolding run_tool_phase_def
  by (intro keeping_rules keeps_run_tools keeps_record keeps_requested keeping_modify locals executed)

lemma keeps_finish: "keeping I (finish_response ports opts d i cur)"
  unfolding finish_response_def Let_def
  by (intro keeping_rules base keeps_account keeps_note_stop keeps_tool_phase message_base quiet_simps)

end

text \<open>The branches of the loop.\<close>

lemma run_loop_cases:
  obtains
    (aborted) "r_aborted s" "run_loop ports opts hint loops s = (Inr (), s)"
  | (budget) dm where "\<not> r_aborted s"
      "exhausted_budget opts (r_session s) (elapsed ports s) (v_tool_calls s) = Some dm"
      "run_loop ports opts hint loops s = stop_for_budget ports opts dm s"
  | (limit) "\<not> r_aborted s"
      "exhausted_budget opts (r_session s) (elapsed ports s) (v_tool_calls s) = None"
      "max_loops opts \<le> loops" "run_loop ports opts hint loops s = emit ports (loop_error loops) s"
  | (stop) r s1 where "\<not> r_aborted s" "iteration ports opts hint s = (r, s1)" "loops < max_loops opts"
      "r \<noteq> Inr Again" "run_loop ports opts hint loops s = (map_sum id (\<lambda>_. ()) r, s1)"
  | (again) s1 where "\<not> r_aborted s"
      "exhausted_budget opts (r_session s) (elapsed ports s) (v_tool_calls s) = None"
      "iteration ports opts hint s = (Inr Again, s1)" "loops < max_loops opts"
      "run_loop ports opts hint loops s = run_loop ports opts hint (loops + 1) s1"
proof (cases "iteration ports opts hint s")
  case (Pair r s1)
  note eq = run_loop.simps [of ports opts hint loops s]
  show thesis
  proof (cases "r_aborted s")
    case False
    note a = this
    show thesis
    proof (cases "exhausted_budget opts (r_session s) (elapsed ports s) (v_tool_calls s)")
      case None
      show thesis
      proof (cases "max_loops opts \<le> loops")
        case True
        with a None limit eq show thesis by simp
      next
        case False
        show thesis
        proof (cases "r = Inr Again")
          case True
          with a None False Pair again eq show thesis by simp
        next
          case r: False
          then have "run_loop ports opts hint loops s = (map_sum id (\<lambda>_. ()) r, s1)"
            using a None False Pair eq by (auto split: sum.split flow.split)
          with a None False Pair r stop show thesis by simp
        qed
      qed
    qed (use a budget eq in simp)
  qed (use aborted eq in simp)
qed

context loop_invariant begin

lemma keeping_holds: "keeping I m \<Longrightarrow> (\<And>s. I s \<Longrightarrow> J s) \<Longrightarrow> holds I m (\<lambda>_. I) (\<lambda>_. J)"
  unfolding keeping_def by (erule holds_post)

lemma iteration_from:
  assumes J: "loop_invariant J" and IJ: "\<And>s. I s \<Longrightarrow> J s"
    and stream: "\<And>s e i p d. I s \<Longrightarrow> ev_payload e = Stream_Started i p d \<Longrightarrow> sound_event e \<Longrightarrow>
      J (s\<lparr>r_log := r_log s @ [Emitted e]\<rparr>)"
  shows "holds I (iteration ports opts hint) (\<lambda>_. J) (\<lambda>_. J)"
proof -
  have Q: "quiet_invariant J"
    by (rule message_invariant.axioms(1) [OF loop_invariant.axioms(1) [OF J]])
  note kJ = quiet_invariant.keeps_in_world [OF Q] quiet_invariant.keeps_consume [OF Q]
    loop_invariant.keeps_finish [OF J]
  have rest: "keeping J (from_state (\<lambda>s.
     seq (in_world (p_stream ports (d_provider d)
            \<lparr>sr_model = d_model d, sr_messages = ms, sr_system = system,
             sr_tools = p_schemas ports (d_provider d) (r_world s),
             sr_cache = request_cache opts (client_caps (d_provider d))\<rparr> (r_aborted s))) (\<lambda>pulls.
     seq (consume ports opts d i pulls no_progress) (\<lambda>r.
     case r of
       (Stream_Break, cur) \<Rightarrow> ret Stop
     | (Stream_Retry, cur) \<Rightarrow> ret Again
     | (Stream_Done, cur) \<Rightarrow>
         from_state (\<lambda>s. if r_aborted s then ret Stop
           else finish_response ports opts d i cur)))))" for d i ms system
    by (intro keeping_rules kJ) (auto intro!: keeping_rules kJ split: prod.split stream_end.split)
  have emit: "holds I (emit ports (Stream_Started i p d)) (\<lambda>_. J) (\<lambda>_. J)" for i p d
  proof (rule holdsI)
    fix s e s' assume "I s" "emit ports (Stream_Started i p d) s = (Inl e, s')"
    then show "J s'" using emit_from [OF \<open>I s\<close> _ IJ Q, of "Stream_Started i p d" ports] stream
      by (metis snd_conv)
  next
    fix s x s' assume "I s" "emit ports (Stream_Started i p d) s = (Inr x, s')"
    then show "J s'" using emit_from [OF \<open>I s\<close> _ IJ Q, of "Stream_Started i p d" ports] stream
      by (metis snd_conv)
  qed
  show ?thesis
    unfolding iteration_def
    by (rule holds_seq [OF keeping_holds [OF keeps_pick IJ]]
        holds_seq [OF keeping_holds [OF keeps_compose IJ]]
        holds_seq [OF keeping_holds [OF keeps_request IJ]]
        holds_seq [OF keeping_holds [OF keeps_in_world IJ]] holds_seq [OF emit] | assumption)+
      (use rest in \<open>simp add: keeping_def\<close>)
qed

end

text \<open>An invariant that the start of a stream keeps, too, is kept by the whole loop.\<close>

locale run_invariant = loop_invariant I for I :: "'w run_state \<Rightarrow> bool" +
  assumes streamed: "I s \<Longrightarrow> ev_payload e = Stream_Started i p d \<Longrightarrow> sound_event e \<Longrightarrow>
    I (s\<lparr>r_log := r_log s @ [Emitted e]\<rparr>)"
begin

lemma keeps_iteration: "keeping I (iteration ports opts hint)"
  unfolding keeping_def by (rule iteration_from [OF loop_invariant_axioms]) (auto intro: streamed)

lemma keeps_loop: "I s \<Longrightarrow> I (snd (run_loop ports opts hint loops s))"
proof (induction ports opts hint loops s rule: run_loop.induct)
  case (1 ports opts hint loops s)
  show ?case
  proof (cases rule: run_loop_cases [of s ports opts hint loops])
    case (budget dm)
    then show ?thesis using keeping_snd [OF keeps_budget_stop 1(2)] by simp
  next
    case limit
    then show ?thesis using keeping_snd [OF keeps_loop_error 1(2)] by simp
  next
    case (stop r s1)
    then show ?thesis using keepingD [OF keeps_iteration 1(2)] by simp
  next
    case (again s1)
    then show ?thesis using 1 keepingD [OF keeps_iteration 1(2)] by simp
  qed (use 1 in simp)
qed

lemma keeps_body: "keeping I (run_body ports opts hint)"
  unfolding run_body_def Let_def
  by (intro keeping_from_state keeping_catch keeps_exception keepingI keeps_loop)

end

section \<open>Three invariants of the loop\<close>

definition stream_count :: "obs list \<Rightarrow> nat" where
  "stream_count l = length (filter (\<lambda>x. case x of
     Emitted e \<Rightarrow> (case ev_payload e of Stream_Started _ _ _ \<Rightarrow> True | _ \<Rightarrow> False)
   | _ \<Rightarrow> False) l)"

definition is_terminal :: "payload \<Rightarrow> bool" where
  "is_terminal p = (case p of Turn_Completed _ _ _ \<Rightarrow> True | Turn_Aborted_Ev _ _ \<Rightarrow> True | _ \<Rightarrow> False)"

definition terminal_events :: "obs list \<Rightarrow> payload list" where
  "terminal_events l = filter is_terminal
     (List.map_filter (\<lambda>x. case x of Emitted e \<Rightarrow> Some (ev_payload e) | _ \<Rightarrow> None) l)"

lemma map_filter_snoc:
  "List.map_filter f (xs @ [x]) = List.map_filter f xs @ (case f x of None \<Rightarrow> [] | Some y \<Rightarrow> [y])"
  by (simp add: List.map_filter_def split: option.split)

lemma map_filter_append:
  "List.map_filter f (xs @ ys) = List.map_filter f xs @ List.map_filter f ys"
  by (simp add: List.map_filter_def)

lemma stream_count_snoc:
  "routine (ev_payload e) \<Longrightarrow> stream_count (l @ [Emitted e]) = stream_count l"
  "stream_count (l @ [Executed i n inp]) = stream_count l"
  "ev_payload e = Stream_Started j p d \<Longrightarrow> stream_count (l @ [Emitted e]) = Suc (stream_count l)"
  by (auto simp: stream_count_def routine_def quiet_def split: payload.splits)

lemma terminal_snoc:
  "routine (ev_payload e) \<Longrightarrow> terminal_events (l @ [Emitted e]) = terminal_events l"
  "terminal_events (l @ [Executed i n inp]) = terminal_events l"
  "ev_payload e = Stream_Started j p d \<Longrightarrow> terminal_events (l @ [Emitted e]) = terminal_events l"
  by (auto simp: terminal_events_def map_filter_snoc is_terminal_def routine_def quiet_def split: payload.splits)

text \<open>What every step of the loop keeps of turn and session besides its messages.\<close>

definition anchored :: "string \<Rightarrow> string \<Rightarrow> string option \<Rightarrow> string list \<Rightarrow> 'w run_state \<Rightarrow> bool" where
  "anchored turn sid active ids s \<longleftrightarrow> r_turn s = turn \<and> ss_id (r_session s) = sid \<and>
     ss_active_turn (r_session s) = active \<and> map t_id (ss_turns (r_session s)) = ids"

definition usage_since :: "cumulative_usage \<Rightarrow> 'w run_state \<Rightarrow> bool" where
  "usage_since u0 s \<longleftrightarrow>
     cu_input (ss_usage (r_session s)) = cu_input u0 + u_input (v_usage s) \<and>
     cu_output (ss_usage (r_session s)) = cu_output u0 + u_output (v_usage s) \<and>
     or_zero (cu_cache_read (ss_usage (r_session s))) =
       or_zero (cu_cache_read u0) + or_zero (u_cache_read (v_usage s)) \<and>
     or_zero (cu_cache_write (ss_usage (r_session s))) =
       or_zero (cu_cache_write u0) + or_zero (u_cache_write (v_usage s)) \<and>
     cu_cost (ss_usage (r_session s)) = cu_cost u0 + or_zero (u_cost (v_usage s))"

interpretation streams: loop_invariant "\<lambda>s :: 'w run_state. stream_count (r_log s) \<le> B" for B
  by unfold_locales (simp_all add: stream_count_snoc interrupt_def quiet_routine)

interpretation terminals: run_invariant "\<lambda>s :: 'w run_state. terminal_events (r_log s) = T" for T
  by unfold_locales (simp_all add: terminal_snoc interrupt_def quiet_routine)

interpretation anchor: run_invariant "anchored turn sid active ids :: 'w run_state \<Rightarrow> bool"
  for turn sid active ids
  by unfold_locales (simp_all add: anchored_def interrupt_def benign_def harmless_def)

interpretation usage: run_invariant "usage_since u0 :: 'w run_state \<Rightarrow> bool" for u0
  by unfold_locales
    (simp_all add: usage_since_def interrupt_def benign_def harmless_def add_usage_def add_turn_usage_def)

lemma run_loop_streams:
  "stream_count (r_log (snd (run_loop ports opts hint loops s))) \<le>
     stream_count (r_log s) + (max_loops opts - loops)"
proof (induction ports opts hint loops s rule: run_loop.induct)
  case (1 ports opts hint loops s)
  have it: "stream_count (r_log s1) \<le> Suc (stream_count (r_log s))"
    if "iteration ports opts hint s = (r, s1)" for r s1
  proof -
    have "holds (\<lambda>s'. stream_count (r_log s') \<le> stream_count (r_log s)) (iteration ports opts hint)
        (\<lambda>_ s'. stream_count (r_log s') \<le> Suc (stream_count (r_log s)))
        (\<lambda>_ s'. stream_count (r_log s') \<le> Suc (stream_count (r_log s)))"
      by (rule streams.iteration_from [OF streams.loop_invariant_axioms])
        (simp_all add: stream_count_snoc)
    with that show ?thesis by (cases r) (auto dest: holds_Inl holds_Inr)
  qed
  show ?case
  proof (cases rule: run_loop_cases [of s ports opts hint loops])
    case (budget dm)
    have "stream_count (r_log (snd (stop_for_budget ports opts dm s))) \<le> stream_count (r_log s)"
      by (rule keeping_snd [OF streams.keeps_budget_stop]) simp
    with budget show ?thesis by simp
  next
    case limit
    have "stream_count (r_log (snd (emit ports (loop_error loops) s))) \<le> stream_count (r_log s)"
      by (rule keeping_snd [OF streams.keeps_loop_error]) simp
    with limit show ?thesis by simp
  next
    case (stop r s1)
    with it [of r s1] show ?thesis by simp
  next
    case (again s1)
    with 1 have "stream_count (r_log (snd (run_loop ports opts hint (loops + 1) s1))) \<le>
        stream_count (r_log s1) + (max_loops opts - (loops + 1))" by auto
    with again it [of "Inr Again" s1] show ?thesis by simp
  qed simp
qed

end
