(* ===== verification/Runner_Turn.thy ===== *)
theory Runner_Turn
  imports Runner_Invariants
begin

text \<open>
  A whole run: how it opens and closes its turn, the single terminal event, the bound on model
  requests, the usage, and which executions of tools the log of a run can hold.
\<close>

section \<open>The frame of a run\<close>

lemma seq_Inr_iff:
  "seq m f s = (Inr y, s') \<longleftrightarrow> (\<exists>x s1. m s = (Inr x, s1) \<and> f x s1 = (Inr y, s'))"
  by (auto simp: seq_def split: prod.splits sum.splits)

lemma emit_spec:
  assumes "emit ports p s = (r, s')"
  shows "core s' = core s"
    "r_log s' = r_log s @ (if valid_payload p then [Emitted (emitted_event ports p s)] else [])"
    "r = Inr x \<Longrightarrow> valid_payload p" "v_decision s' = v_decision s" "r_last_turn s' = r_last_turn s"
  using assms
  by (cases rule: emit_cases [of ports p s], auto simp: emit_def Let_def split: prod.splits if_splits)+

definition payloads :: "obs list \<Rightarrow> payload list" where
  "payloads l = List.map_filter (\<lambda>x. case x of Emitted e \<Rightarrow> Some (ev_payload e) | _ \<Rightarrow> None) l"

lemma payloads_simps [simp]:
  "payloads [] = []" "payloads (l @ m) = payloads l @ payloads m"
  "payloads [Emitted e] = [ev_payload e]" "payloads [Executed i n inp] = []"
  by (simp_all add: payloads_def List.map_filter_simps map_filter_append)

text \<open>The events of a log.\<close>

definition event_log :: "obs list \<Rightarrow> event list" where
  "event_log l = List.map_filter (\<lambda>x. case x of Emitted e \<Rightarrow> Some e | _ \<Rightarrow> None) l"

lemma event_log_simps [simp]:
  "event_log [] = []" "event_log (l @ m) = event_log l @ event_log m"
  "event_log (Emitted e # l) = e # event_log l" "event_log (Executed i n inp # l) = event_log l"
  by (simp_all add: event_log_def List.map_filter_simps map_filter_append)

lemma payloads_Cons [simp]:
  "payloads (Emitted e # l) = ev_payload e # payloads l"
  "payloads (Executed i n inp # l) = payloads l"
  by (simp_all add: payloads_def List.map_filter_simps)

lemma payloads_events: "payloads l = map ev_payload (event_log l)"
proof (induction l)
  case (Cons x l)
  then show ?case by (cases x) simp_all
qed simp

lemma terminal_payloads: "terminal_events l = filter is_terminal (payloads l)"
  by (simp add: terminal_events_def payloads_def)

lemma emitted_event_payload [simp]: "ev_payload (emitted_event ports p s) = p"
  by (simp add: emitted_event_def)

text \<open>An emission that returns adds exactly its payload.\<close>

lemma emit_ok:
  assumes "emit ports p s = (Inr x, s')"
  shows "core s' = core s" "payloads (r_log s') = payloads (r_log s) @ [p]" "valid_payload p"
  using emit_spec [OF assms] by simp_all

lemma coreD:
  assumes "core s' = core s"
  shows "ss_messages (r_session s') = ss_messages (r_session s)"
    "ss_turns (r_session s') = ss_turns (r_session s)"
    "ss_active_turn (r_session s') = ss_active_turn (r_session s)"
    "ss_usage (r_session s') = ss_usage (r_session s)"
    "r_turn s' = r_turn s" "v_failed s' = v_failed s" "v_usage s' = v_usage s"
    "v_reason s' = v_reason s" "v_stop s' = v_stop s" "ss_id (r_session s') = ss_id (r_session s)"
  using assms by (simp_all add: core_def)

lemma new_message_spec:
  assumes "new_message ports role content s = (r, s')"
  obtains m where "r = Inr m" "core s' = core s" "r_log s' = r_log s" "msg_role m = role"
    "msg_content m = content"
proof -
  obtain i w where u: "p_uuid ports (r_world s) = (i, w)" by (cases "p_uuid ports (r_world s)")
  then show thesis using assms by (auto simp: new_message_def seq_def in_world_def intro!: that)
qed

definition task_payloads :: "run_options \<Rightarrow> payload list" where
  "task_payloads opts = (case op_task opts of None \<Rightarrow> [] | Some t \<Rightarrow> [Task_Started t])"

lemma start_turn_spec:
  assumes "start_turn ports opts content s = (Inr (), s')"
  obtains user parent agent where
    "payloads (r_log s') = payloads (r_log s) @ Turn_Started (r_turn s') parent agent #
       task_payloads opts @ [Message_Appended (msg_id user) User (map to_event_content content)]"
    "r_turn s' \<noteq> []" "ss_active_turn (r_session s') = Some (r_turn s')"
    "map t_id (ss_turns (r_session s')) = map t_id (ss_turns (r_session s)) @ [r_turn s']"
    "ss_usage (r_session s') = ss_usage (r_session s)"
    "ss_messages (r_session s') = ss_messages (r_session s) @ [user]"
    "msg_role user = User" "msg_content user = content" "v_usage s' = zero_usage" "\<not> v_failed s'"
    "ss_id (r_session s') = ss_id (r_session s)"
proof -
  obtain turn w where u: "p_uuid ports (r_world s) = (turn, w)" by (cases "p_uuid ports (r_world s)")
  let ?s1 = "s\<lparr>r_world := w, r_turn := turn, r_aborted := False\<rparr>"
  obtain user s2 where m: "new_message ports User content ?s1 = (Inr user, s2)" "core s2 = core ?s1"
    "r_log s2 = r_log ?s1" "msg_role user = User" "msg_content user = content"
    by (cases "new_message ports User content ?s1") (auto elim: new_message_spec)
  let ?s3 = "s2\<lparr>r_session := update_session (r_session s2) (open_turn turn (msg_id user))\<rparr>"
  let ?lin = "ss_lineage (r_session ?s3)"
  let ?p1 = "Turn_Started turn (truthy (l_parent_turn ?lin)) (truthy (l_agent_type ?lin))"
  obtain s4 where e1: "emit ports ?p1 ?s3 = (Inr (), s4)"
    and r1: "seq (case op_task opts of None \<Rightarrow> ret () | Some t \<Rightarrow> emit ports (Task_Started t)) (\<lambda>_.
      seq (append_message user) (\<lambda>_. seq (emit_message ports user) (\<lambda>_. modify (init_locals ports)))) s4
      = (Inr (), s')"
    using assms u m(1)
    by (auto simp: start_turn_def seq_Inr_iff in_world_def modify_def set_session_def from_state_def)
  obtain s5 where e2: "(case op_task opts of None \<Rightarrow> ret () | Some t \<Rightarrow> emit ports (Task_Started t)) s4 = (Inr (), s5)"
    and r2: "seq (append_message user) (\<lambda>_. seq (emit_message ports user) (\<lambda>_. modify (init_locals ports))) s5
      = (Inr (), s')"
    using r1 by (auto simp: seq_Inr_iff)
  let ?s6 = "s5\<lparr>r_session := update_session (r_session s5) (\<lambda>d. d\<lparr>ss_messages := ss_messages d @ [user]\<rparr>)\<rparr>"
  obtain s7 where e3: "emit_message ports user ?s6 = (Inr (), s7)" and s': "s' = init_locals ports s7"
    using r2 by (auto simp: seq_Inr_iff append_message_def set_session_def modify_def)
  have c5: "core s5 = core s4" "payloads (r_log s5) = payloads (r_log s4) @ task_payloads opts"
    using e2 emit_ok [of ports _ s4 "()" s5] by (auto simp: task_payloads_def ret_def split: option.splits)
  note c4 = emit_ok [OF e1]
  note c7 = emit_ok [OF e3 [unfolded emit_message_def]]
  show thesis
  proof (rule that [of "truthy (l_parent_turn ?lin)" "truthy (l_agent_type ?lin)" user])
    show "payloads (r_log s') = payloads (r_log s) @ Turn_Started (r_turn s') (truthy (l_parent_turn ?lin))
        (truthy (l_agent_type ?lin)) # task_payloads opts @
        [Message_Appended (msg_id user) User (map to_event_content content)]"
      using c4 c5 c7 m s' by (simp add: init_locals_def core_def)
    show "r_turn s' \<noteq> []"
      using c4 c5 c7 m s' by (simp add: init_locals_def core_def turn_started_ok_def min1_def)
  qed (use c4 c5 c7 m s' in \<open>simp_all add: init_locals_def core_def open_turn_def\<close>)
qed

text \<open>The end of a run: the session is closed and exactly one terminal event is emitted.\<close>

definition task_end_payload :: "payload \<Rightarrow> bool" where
  "task_end_payload p = (case p of Task_Failed _ _ _ \<Rightarrow> True | Task_Completed _ _ \<Rightarrow> True | _ \<Rightarrow> False)"

lemma finish_turn_spec:
  assumes "finish_turn ports opts s = (Inr (), s')"
  obtains p rest where "payloads (r_log s') = payloads (r_log s) @ p # rest"
    "p = (if is_aborted s then Turn_Aborted_Ev (r_turn s) (abort_reason_of s)
          else Turn_Completed (r_turn s) (v_usage s) (v_stop s))"
    "list_all task_end_payload rest" "r_turn s' = r_turn s"
    "ss_active_turn (r_session s') = None"
    "ss_turns (r_session s') = set_turn_status (r_turn s)
       (if is_aborted s then Turn_Aborted else Turn_Done) (ss_turns (r_session s))"
    "ss_messages (r_session s') = ss_messages (r_session s)"
    "ss_usage (r_session s') = ss_usage (r_session s)"
    "v_usage s' = v_usage s" "v_stop s' = v_stop s"
proof -
  let ?a = "is_aborted s"
  let ?p = "if ?a then Turn_Aborted_Ev (r_turn s) (abort_reason_of s)
          else Turn_Completed (r_turn s) (v_usage s) (v_stop s)"
  let ?s1 = "s\<lparr>r_session := update_session (r_session s) (close_turn (r_turn s) ?a)\<rparr>"
  let ?s2 = "if ?a then ?s1 else note_last_turn ?s1"
  have c2: "core ?s2 = core ?s1" "r_log ?s2 = r_log s"
    by (auto simp: core_def note_last_turn_def split: option.splits)
  have "abort_reason_of ?s1 = abort_reason_of s" by (simp add: abort_reason_of_def)
  then obtain s3 where e: "emit ports ?p ?s2 = (Inr (), s3)"
    and t: "emit_task_end ports opts ?a s3 = (Inr (), s')"
    using assms c2
    by (cases ?a) (auto simp: finish_turn_def from_state_def Let_def seq_Inr_iff set_session_def
        modify_def core_def)
  note c3 = emit_ok [OF e]
  have "core s' = core s3 \<and> (\<exists>rest. payloads (r_log s') = payloads (r_log s3) @ rest \<and>
      list_all task_end_payload rest)"
  proof (cases "op_task opts")
    case None
    then show ?thesis using t by (simp add: emit_task_end_def ret_def)
  next
    case (Some tr)
    then obtain q where q: "emit ports q s3 = (Inr (), s')" "task_end_payload q"
      using t by (auto simp: emit_task_end_def from_state_def Let_def task_end_payload_def split: if_splits)
    with emit_ok [OF q(1)] show ?thesis by auto
  qed
  then obtain rest where c4: "core s' = core s3" "payloads (r_log s') = payloads (r_log s3) @ rest"
    "list_all task_end_payload rest" by blast
  have cs: "core s' = core ?s1" using c4(1) c3(1) c2(1) by (rule_tac trans) simp_all
  show thesis
  proof (rule that [of ?p rest])
    show "payloads (r_log s') = payloads (r_log s) @ ?p # rest"
      using c4 c3 c2 by (simp split: if_splits)
  qed (use c4(3) coreD [OF cs] in \<open>simp_all add: close_turn_def\<close>)
qed

lemma task_end_not_terminal: "list_all task_end_payload ps \<Longrightarrow> filter is_terminal ps = []"
  by (auto simp: filter_empty_conv list_all_iff task_end_payload_def is_terminal_def split: payload.splits)

lemma task_payloads_not_terminal: "filter is_terminal (task_payloads opts) = []"
  by (auto simp: task_payloads_def is_terminal_def split: option.splits)

definition is_stream_start :: "payload \<Rightarrow> bool" where
  "is_stream_start p = (case p of Stream_Started _ _ _ \<Rightarrow> True | _ \<Rightarrow> False)"

lemma stream_payloads: "stream_count l = length (filter is_stream_start (payloads l))"
proof (induction l)
  case (Cons x l)
  then show ?case
    by (cases x) (auto simp: stream_count_def payloads_def List.map_filter_simps is_stream_start_def)
qed (simp add: stream_count_def)

lemma task_end_no_stream: "list_all task_end_payload ps \<Longrightarrow> filter is_stream_start ps = []"
  by (auto simp: filter_empty_conv list_all_iff task_end_payload_def is_stream_start_def
      split: payload.splits)

lemma task_payloads_no_stream: "filter is_stream_start (task_payloads opts) = []"
  by (auto simp: task_payloads_def is_stream_start_def split: option.splits)

lemma run_body_streams:
  assumes "run_body ports opts hint s = (r, s')"
  shows "stream_count (r_log s') \<le> stream_count (r_log s) + max_loops opts"
proof -
  let ?h = "run_hint (r_last_turn s) (l_agent_type (ss_lineage (r_session s))) hint"
  obtain r1 s1 where l: "run_loop ports opts ?h 0 s = (r1, s1)" by (cases "run_loop ports opts ?h 0 s")
  have b: "stream_count (r_log s1) \<le> stream_count (r_log s) + max_loops opts"
    using run_loop_streams [of ports opts ?h 0 s] l by simp
  have "stream_count (r_log (snd (on_exception ports e s1))) \<le> stream_count (r_log s1)" for e
    by (rule keeping_snd [OF streams.keeps_exception]) simp
  then have "stream_count (r_log s') \<le> stream_count (r_log s1)"
    using assms l by (cases r1) (auto simp: run_body_def from_state_def Let_def catch_error_def, metis snd_conv)
  with b show ?thesis by simp
qed

text \<open>The body runs between the two; it keeps every invariant of the loop.\<close>

lemma run_turn_split:
  assumes "run_turn ports opts content hint s = (Inr ss, s')"
  obtains s1 s2 where "start_turn ports opts content s = (Inr (), s1)"
    "run_body ports opts hint s1 = (Inr (), s2)" "finish_turn ports opts s2 = (Inr (), s')"
    "ss = r_session s'"
  using assms by (auto simp: run_turn_def seq_Inr_iff from_state_def ret_def)

lemma run_closes:
  assumes "run_turn ports opts content hint s = (Inr ss, s')"
  shows "\<exists>p st. terminal_events (r_log s') = terminal_events (r_log s) @ [p] \<and>
    (st = Turn_Done \<and> p = Turn_Completed (r_turn s') (v_usage s') (v_stop s') \<or>
     st = Turn_Aborted \<and> (\<exists>why. p = Turn_Aborted_Ev (r_turn s') why)) \<and>
    (\<exists>t \<in> set (ss_turns ss). t_id t = r_turn s' \<and> t_status t = st) \<and> ss_active_turn ss = None"
proof -
  from assms obtain s1 s2 where st: "start_turn ports opts content s = (Inr (), s1)"
    and body: "run_body ports opts hint s1 = (Inr (), s2)"
    and fin: "finish_turn ports opts s2 = (Inr (), s')" and ss: "ss = r_session s'"
    by (rule run_turn_split)
  from st obtain parent agent and user :: "json message" where s1:
    "payloads (r_log s1) = payloads (r_log s) @ Turn_Started (r_turn s1) parent agent #
       task_payloads opts @ [Message_Appended (msg_id user) User (map to_event_content content)]"
    "map t_id (ss_turns (r_session s1)) = map t_id (ss_turns (r_session s)) @ [r_turn s1]"
    by (rule start_turn_spec) blast
  have t1: "terminal_events (r_log s1) = terminal_events (r_log s)"
    unfolding terminal_payloads s1(1) by (simp add: is_terminal_def task_payloads_not_terminal)
  have t2: "terminal_events (r_log s2) = terminal_events (r_log s1)"
    by (rule keepingD [OF terminals.keeps_body _ body]) simp
  have a2: "anchored (r_turn s1) (ss_id (r_session s1)) (ss_active_turn (r_session s1))
      (map t_id (ss_turns (r_session s1))) s2"
    by (rule keepingD [OF anchor.keeps_body _ body]) (simp add: anchored_def)
  obtain p rest where f: "payloads (r_log s') = payloads (r_log s2) @ p # rest"
    "p = (if is_aborted s2 then Turn_Aborted_Ev (r_turn s2) (abort_reason_of s2)
          else Turn_Completed (r_turn s2) (v_usage s2) (v_stop s2))"
    "list_all task_end_payload rest" "r_turn s' = r_turn s2" "ss_active_turn (r_session s') = None"
    "ss_turns (r_session s') = set_turn_status (r_turn s2)
       (if is_aborted s2 then Turn_Aborted else Turn_Done) (ss_turns (r_session s2))"
    "v_usage s' = v_usage s2" "v_stop s' = v_stop s2"
    using fin by (rule finish_turn_spec) blast
  have "terminal_events (r_log s') = terminal_events (r_log s2) @ [p]"
    unfolding terminal_payloads f(1) using f(2) task_end_not_terminal [OF f(3)]
    by (simp add: is_terminal_def)
  with t1 t2 have log: "terminal_events (r_log s') = terminal_events (r_log s) @ [p]" by simp
  have "r_turn s2 = r_turn s1" "r_turn s1 \<in> set (map t_id (ss_turns (r_session s2)))"
    using a2 s1(2) by (auto simp: anchored_def)
  then have "r_turn s2 \<in> t_id ` set (ss_turns (r_session s2))" by auto
  from set_turn_status_found [OF this] f(4,6) ss
  have "\<exists>t \<in> set (ss_turns ss). t_id t = r_turn s' \<and>
      t_status t = (if is_aborted s2 then Turn_Aborted else Turn_Done)" by auto
  with log f ss show ?thesis
    by (intro exI [of _ p] exI [of _ "if is_aborted s2 then Turn_Aborted else Turn_Done"]) auto
qed

text \<open>
  C9. Every run that returns closes its turn exactly once: it emits one terminal event, which is
  \<open>turn.completed\<close> precisely when the turn's final status is done and \<open>turn.aborted\<close> when it is
  aborted, and it leaves no active turn behind.
\<close>
theorem run_ends_with_one_terminal_event:
  assumes "run_turn ports opts content hint s = (Inr ss, s')"
  shows "\<exists>p st. terminal_events (r_log s') = terminal_events (r_log s) @ [p] \<and>
    (st = Turn_Done \<and> p = Turn_Completed (r_turn s') (v_usage s') (v_stop s') \<or>
     st = Turn_Aborted \<and> (\<exists>why. p = Turn_Aborted_Ev (r_turn s') why)) \<and>
    (\<exists>t \<in> set (ss_turns ss). t_id t = r_turn s' \<and> t_status t = st) \<and> ss_active_turn ss = None"
  by (rule run_closes [OF assms])

lemma run_bounded:
  assumes "run_turn ports opts content hint s = (Inr ss, s')"
  shows "stream_count (r_log s') \<le> stream_count (r_log s) + given (op_max_loops opts) 25 \<and>
    usage_since (ss_usage (r_session s)) s'"
proof -
  from assms obtain s1 s2 where st: "start_turn ports opts content s = (Inr (), s1)"
    and body: "run_body ports opts hint s1 = (Inr (), s2)"
    and fin: "finish_turn ports opts s2 = (Inr (), s')"
    by (rule run_turn_split)
  from st obtain parent agent and user :: "json message" where s1:
    "payloads (r_log s1) = payloads (r_log s) @ Turn_Started (r_turn s1) parent agent #
       task_payloads opts @ [Message_Appended (msg_id user) User (map to_event_content content)]"
    "ss_usage (r_session s1) = ss_usage (r_session s)" "v_usage s1 = zero_usage"
    by (rule start_turn_spec) blast
  have "usage_since (ss_usage (r_session s)) s2"
    by (rule keepingD [OF usage.keeps_body _ body])
      (simp add: usage_since_def s1(2,3) zero_usage_def)
  obtain p rest where f: "payloads (r_log s') = payloads (r_log s2) @ p # rest"
    "p = (if is_aborted s2 then Turn_Aborted_Ev (r_turn s2) (abort_reason_of s2)
          else Turn_Completed (r_turn s2) (v_usage s2) (v_stop s2))"
    "list_all task_end_payload rest" "ss_usage (r_session s') = ss_usage (r_session s2)"
    "v_usage s' = v_usage s2"
    using fin by (rule finish_turn_spec) blast
  have use: "usage_since (ss_usage (r_session s)) s'"
    using \<open>usage_since _ s2\<close> f(4,5) by (simp add: usage_since_def)
  have c1: "stream_count (r_log s1) = stream_count (r_log s)"
    unfolding stream_payloads s1(1) by (simp add: is_stream_start_def task_payloads_no_stream)
  have c2: "stream_count (r_log s2) \<le> stream_count (r_log s1) + max_loops opts"
    by (rule run_body_streams [OF body])
  have c3: "stream_count (r_log s') = stream_count (r_log s2)"
    unfolding stream_payloads f(1) using f(2) task_end_no_stream [OF f(3)]
    by (simp add: is_stream_start_def)
  from c1 c2 c3 use show ?thesis by (simp add: max_loops_def)
qed


section \<open>Executions are authorised\<close>

definition authorised :: "(ustr \<Rightarrow> json option) \<Rightarrow> obs list \<Rightarrow> bool" where
  "authorised parse l \<longleftrightarrow> (\<forall>xs i n inp ys. l = xs @ Executed i n inp # ys \<longrightarrow>
     Tool_Requested i n inp \<in> set (payloads xs) \<and> Tool_Started i n \<in> set (payloads xs) \<and>
     (\<exists>raw. parse raw = Some inp))"

lemma authorised_Emitted [simp]: "authorised parse (l @ [Emitted e]) = authorised parse l"
proof -
  have "(\<exists>ys. l @ [Emitted e] = xs @ Executed i n inp # ys) \<longleftrightarrow> (\<exists>ys. l = xs @ Executed i n inp # ys)"
    for xs i n inp
    by (metis append.assoc append_Cons append_butlast_last_id butlast_append butlast_snoc last.simps
        last_appendR last_snoc list.distinct(1) obs.distinct(1))
  then show ?thesis unfolding authorised_def by metis
qed

lemma authorised_Executed:
  "authorised parse l \<Longrightarrow> Tool_Requested i n inp \<in> set (payloads l) \<Longrightarrow>
   Tool_Started i n \<in> set (payloads l) \<Longrightarrow> parse raw = Some inp \<Longrightarrow>
   authorised parse (l @ [Executed i n inp])"
  unfolding authorised_def
  by (metis append_butlast_last_id append_eq_append_conv_if append_self_conv butlast.simps(2)
      butlast_append butlast_snoc last.simps last_appendR last_snoc list.distinct(1) list.inject obs.inject(2))

definition auth :: "(ustr \<Rightarrow> json option) \<Rightarrow> payload set \<Rightarrow> 'w run_state \<Rightarrow> bool" where
  "auth parse R s \<longleftrightarrow> authorised parse (r_log s) \<and> R \<subseteq> set (payloads (r_log s))"

interpretation auth: message_invariant "auth parse R :: 'w run_state \<Rightarrow> bool" for parse R
  by unfold_locales (auto simp: auth_def interrupt_def)

subsection \<open>Aggregated tools carry what was parsed\<close>

definition tools_ok :: "(ustr \<Rightarrow> json option) \<Rightarrow> in_progress \<Rightarrow> bool" where
  "tools_ok parse cur \<longleftrightarrow> map_wf (ip_tools cur) \<and>
     (\<forall>i t. map_get (ip_tools cur) i = Some t \<longrightarrow> ag_id t = i \<and>
       (ag_ended t \<longrightarrow> (\<exists>raw. ag_input t = parse raw \<and> (parse raw = None \<longrightarrow> i \<in> set (ip_invalid cur)))))"

lemma tools_okD:
  assumes "tools_ok parse cur" and "map_get (ip_tools cur) i = Some t"
  shows "ag_id t = i \<and> (ag_ended t \<longrightarrow> (\<exists>raw. ag_input t = parse raw \<and>
    (parse raw = None \<longrightarrow> i \<in> set (ip_invalid cur))))"
  using assms(1) [unfolded tools_ok_def, THEN conjunct2, rule_format, OF assms(2)] by blast

lemma tools_ok_empty [simp]: "tools_ok parse no_progress"
  by (simp add: tools_ok_def no_progress_def)

lemma tools_ok_end: "tools_ok parse cur \<Longrightarrow> tools_ok parse (end_tool_use parse i cur)"
  unfolding tools_ok_def
  by (auto simp: end_tool_use_def Let_def map_get_set split: option.splits if_splits) metis+

lemma tools_ok_merge: "tools_ok parse cur \<Longrightarrow> tools_ok parse (merge_chunk parse chunk cur)"
proof (cases chunk)
  case (Tool_Use_End i)
  then show "tools_ok parse cur \<Longrightarrow> ?thesis" by (simp add: tools_ok_end)
qed (auto simp: tools_ok_def map_get_set split: option.splits if_splits)

lemma end_tool_use_keys [simp]: "map_keys (ip_tools (end_tool_use parse i cur)) = map_keys (ip_tools cur)"
proof (cases "map_get (ip_tools cur) i")
  case (Some t)
  then have "i \<in> set (map_keys (ip_tools cur))" by (metis map_get_dom option.distinct(1))
  with Some show ?thesis by (simp add: end_tool_use_def Let_def map_keys_set)
qed (simp add: end_tool_use_def)

definition ended :: "in_progress \<Rightarrow> string \<Rightarrow> bool" where
  "ended cur i = (case map_get (ip_tools cur) i of None \<Rightarrow> True | Some t \<Rightarrow> ag_ended t)"

lemma ended_end: "ended (end_tool_use parse i cur) i" "ended cur j \<Longrightarrow> ended (end_tool_use parse i cur) j"
  by (auto simp: ended_def end_tool_use_def Let_def map_get_set split: option.splits)

lemma end_fold:
  "tools_ok parse cur \<Longrightarrow>
     tools_ok parse (fold (end_tool_use parse) ks cur) \<and>
     map_keys (ip_tools (fold (end_tool_use parse) ks cur)) = map_keys (ip_tools cur) \<and>
     (\<forall>k. k \<in> set ks \<or> ended cur k \<longrightarrow> ended (fold (end_tool_use parse) ks cur) k)"
proof (induction ks arbitrary: cur)
  case (Cons k ks)
  then show ?case using tools_ok_end [OF Cons.prems, of k] ended_end by fastforce
qed simp

lemma end_all_ended:
  assumes "tools_ok parse cur"
  shows "tools_ok parse (end_all_tools parse cur)" "ended (end_all_tools parse cur) i"
proof -
  note f = end_fold [OF assms, of "map_keys (ip_tools cur)"]
  then show "tools_ok parse (end_all_tools parse cur)" by (simp add: end_all_tools_def)
  show "ended (end_all_tools parse cur) i"
  proof (cases "i \<in> set (map_keys (ip_tools cur))")
    case False
    then have "map_get (ip_tools (end_all_tools parse cur)) i = None"
      using f by (metis end_all_tools_def map_get_dom)
    then show ?thesis by (simp add: ended_def)
  qed (use f in \<open>simp add: end_all_tools_def\<close>)
qed

definition calls_ok :: "(ustr \<Rightarrow> json option) \<Rightarrow> in_progress \<Rightarrow> tool_call list \<Rightarrow> bool" where
  "calls_ok parse cur calls \<longleftrightarrow>
     (\<forall>(i, n, inp) \<in> set calls. i \<notin> set (ip_invalid cur) \<longrightarrow> (\<exists>raw. parse raw = Some inp))"

lemma assistant_calls_ok:
  assumes "tools_ok parse cur0" and "cur = end_all_tools parse cur0"
  shows "calls_ok parse cur (tool_calls_of (msg_content (assistant_message cur d i now)))"
proof -
  have ok: "tools_ok parse cur" and en: "\<And>i. ended cur i"
    using end_all_ended [OF assms(1)] assms(2) by simp_all
  have "\<exists>raw. parse raw = Some inp"
    if mem: "(j, n, inp) \<in> set (tool_calls_of (assistant_content cur))" and nj: "j \<notin> set (ip_invalid cur)"
    for j n inp
  proof -
    have "\<exists>k t. (k, t) \<in> set (ip_tools cur) \<and> tool_part t = Tool_Use j n inp"
      using mem by (auto simp: tool_calls_of_def assistant_content_def List.map_filter_def
          split: content_part.splits if_splits) blast
    then obtain k t where k: "(k, t) \<in> set (ip_tools cur)" and t: "tool_part t = Tool_Use j n inp"
      by blast
    have get: "map_get (ip_tools cur) k = Some t"
      using k ok by (simp add: tools_ok_def map_wf_def map_keys_def)
    then have e: "ag_ended t" using en [of k] by (simp add: ended_def)
    note ok2 = tools_okD [OF ok get]
    obtain raw where raw2: "ag_input t = parse raw \<and> (parse raw = None \<longrightarrow> k \<in> set (ip_invalid cur))"
      using ok2 [THEN conjunct2, rule_format, OF e] ..
    note raw = conjunct1 [OF ok2] conjunct1 [OF raw2] conjunct2 [OF raw2]
    have "k = j" using t raw(1) by (simp add: tool_part_def)
    with raw(3) nj obtain w where "parse raw = Some w" by blast
    with t raw(2) have "parse raw = Some inp" by (simp add: tool_part_def)
    then show ?thesis by blast
  qed
  then show ?thesis by (auto simp: calls_ok_def assistant_message_def)
qed

lemma consume_tools_ok:
  "tools_ok (p_parse ports) cur \<Longrightarrow>
     holds (\<lambda>_. True) (consume ports opts d i pulls cur) (\<lambda>r _. tools_ok (p_parse ports) (snd r)) (\<lambda>_ _. True)"
proof (induction pulls arbitrary: cur)
  case Nil
  then show ?case by (simp, intro holds_seq [where R = "\<lambda>_ _. True"]) (auto intro: holds_ret holds_modify)
next
  case (Cons pull pulls)
  have any: "holds (\<lambda>_. True) m (\<lambda>_ _. True) (\<lambda>_ _. True)" for m :: "('b, 'c) run"
    by (rule holdsI) simp_all
  have rec: "holds (\<lambda>_. True) (consume ports opts d i pulls (merge_chunk (p_parse ports) chunk cur))
      (\<lambda>r _. tools_ok (p_parse ports) (snd r)) (\<lambda>_ _. True)" for chunk
    by (rule Cons.IH [OF tools_ok_merge [OF Cons.prems]])
  have step: "holds (\<lambda>_. True) (case chunk of
       Message_Interrupted reason \<Rightarrow> seq (on_interrupted ports opts d cur reason) (\<lambda>e. ret (e, no_progress))
     | _ \<Rightarrow> seq (emit_delta ports i chunk) (\<lambda>_. consume ports opts d i pulls (merge_chunk (p_parse ports) chunk cur)))
      (\<lambda>r _. tools_ok (p_parse ports) (snd r)) (\<lambda>_ _. True)" for chunk
    by (cases chunk) (auto intro!: holds_seq [OF any] rec simp del: merge_chunk.simps)
  have chunk: "holds (\<lambda>_. True) (from_state (\<lambda>s.
           if r_aborted s then ret (Stream_Break, cur)
           else seq (modify (note_sticky d chunk)) (\<lambda>_. case chunk of
       Message_Interrupted reason \<Rightarrow> seq (on_interrupted ports opts d cur reason) (\<lambda>e. ret (e, no_progress))
     | _ \<Rightarrow> seq (emit_delta ports i chunk) (\<lambda>_. consume ports opts d i pulls (merge_chunk (p_parse ports) chunk cur)))))
      (\<lambda>r _. tools_ok (p_parse ports) (snd r)) (\<lambda>_ _. True)" for chunk
  proof (rule holds_from_state, rule holds_if)
    show "holds (\<lambda>s. s = s0) (ret (Stream_Break, cur)) (\<lambda>r _. tools_ok (p_parse ports) (snd r)) (\<lambda>_ _. True)" for s0
      by (rule holds_ret) (simp add: Cons.prems)
  qed (rule holds_seq [OF holds_pre [OF any] step], simp)
  show ?case
    unfolding consume.simps
  proof (rule holds_seq [OF any])
    fix got show "holds (\<lambda>_. True) (case got of None \<Rightarrow> ret (Stream_Done, cur)
     | Some chunk \<Rightarrow> from_state (\<lambda>s.
           if r_aborted s then ret (Stream_Break, cur)
           else seq (modify (note_sticky d chunk)) (\<lambda>_. case chunk of
       Message_Interrupted reason \<Rightarrow> seq (on_interrupted ports opts d cur reason) (\<lambda>e. ret (e, no_progress))
     | _ \<Rightarrow> seq (emit_delta ports i chunk) (\<lambda>_. consume ports opts d i pulls (merge_chunk (p_parse ports) chunk cur)))))
      (\<lambda>r _. tools_ok (p_parse ports) (snd r)) (\<lambda>_ _. True)"
      using chunk Cons.prems by (cases got) (auto intro: holds_ret)
  qed
qed

subsection \<open>The tool phase\<close>

lemma requested_auth:
  "holds (auth parse R) (each (\<lambda>(i, n, inp). emit ports (Tool_Requested i n inp)) calls)
     (\<lambda>_. auth parse (R \<union> (\<lambda>(i, n, inp). Tool_Requested i n inp) ` set calls)) (\<lambda>_. auth parse R)"
proof (induction calls arbitrary: R)
  case (Cons c calls)
  obtain i n inp where c: "c = (i, n, inp)" by (cases c)
  have e: "holds (auth parse R) (emit ports (Tool_Requested i n inp))
      (\<lambda>_. auth parse (insert (Tool_Requested i n inp) R)) (\<lambda>_. auth parse R)"
  proof (rule holdsI)
    fix s x s' assume s: "auth parse R s" "emit ports (Tool_Requested i n inp) s = (Inr x, s')"
    then have "auth parse R s'" using keepingD [OF auth.keeps_emit] by (metis quiet_simps(3))
    with emit_ok [OF s(2)] show "auth parse (insert (Tool_Requested i n inp) R) s'"
      by (auto simp: auth_def)
  next
    fix s e s' assume s: "auth parse R s" "emit ports (Tool_Requested i n inp) s = (Inl e, s')"
    then show "auth parse R s'" using keepingD [OF auth.keeps_emit] by (metis quiet_simps(3))
  qed
  have "holds (auth parse (insert (Tool_Requested i n inp) R))
      (each (\<lambda>(i, n, inp). emit ports (Tool_Requested i n inp)) calls)
      (\<lambda>_. auth parse (R \<union> (\<lambda>(i, n, inp). Tool_Requested i n inp) ` set (c # calls))) (\<lambda>_. auth parse R)"
    by (rule holds_post [OF Cons.IH]) (auto simp: c auth_def)
  with e c show ?case by (auto intro: holds_seq)
qed (auto intro: holds_ret)

lemma start_tool_spec:
  assumes "start_tool ports cur (i, n, inp) s = (r, s')" and "r = Inr None"
  shows "i \<notin> set (ip_invalid cur) \<and> Tool_Started i n \<in> set (payloads (r_log s'))"
  using assms emit_ok [of ports "Tool_Started i n" s]
  by (auto simp: start_tool_def seq_def ret_def split: if_splits prod.splits sum.splits)

lemma start_tools_log:
  assumes "all_settled (start_tool ports cur) calls s = (rs, s')" and "R \<subseteq> set (payloads (r_log s))"
    and "authorised parse (r_log s)"
  shows "auth parse R s' \<and> (\<forall>((i, n, inp), r) \<in> set (zip calls rs). r = Inr None \<longrightarrow>
     i \<notin> set (ip_invalid cur) \<and> Tool_Started i n \<in> set (payloads (r_log s')))"
  using assms
proof (induction calls arbitrary: s rs R s')
  case (Cons c calls)
  obtain i n inp where c: "c = (i, n, inp)" by (cases c)
  obtain r s1 where r: "start_tool ports cur c s = (r, s1)" by (cases "start_tool ports cur c s")
  obtain rs2 s2 where rs: "all_settled (start_tool ports cur) calls s1 = (rs2, s2)"
    by (cases "all_settled (start_tool ports cur) calls s1")
  have a1: "auth parse R s1"
    using keepingD [OF auth.keeps_start_tool _ r] Cons.prems(2,3) by (auto simp: auth_def)
  let ?R = "set (payloads (r_log s1))"
  from Cons.IH [OF rs order_refl] a1 have
    ih: "auth parse ?R s2" "\<forall>((i, n, inp), r) \<in> set (zip calls rs2). r = Inr None \<longrightarrow>
       i \<notin> set (ip_invalid cur) \<and> Tool_Started i n \<in> set (payloads (r_log s2))"
    by (auto simp: auth_def)
  have eq: "rs = r # rs2" "s' = s2" using Cons.prems(1) r rs by simp_all
  have "auth parse R s2" using ih(1) a1 by (auto simp: auth_def)
  moreover have "r = Inr None \<longrightarrow> i \<notin> set (ip_invalid cur) \<and> Tool_Started i n \<in> set (payloads (r_log s2))"
    using start_tool_spec [OF r [unfolded c]] ih(1) by (auto simp: auth_def)
  ultimately show ?case using ih(2) eq c by auto
qed (simp add: auth_def)

lemma run_tools_auth:
  assumes calls: "calls_ok parse cur calls"
    and s: "auth parse ((\<lambda>(i, n, inp). Tool_Requested i n inp) ` set calls) s"
    and run: "run_tools ports cur calls s = (r, s')"
  shows "auth parse {} s'"
proof -
  obtain started s1 where st: "all_settled (start_tool ports cur) calls s = (started, s1)"
    by (cases "all_settled (start_tool ports cur) calls s")
  let ?R = "set (payloads (r_log s1))"
  note log = start_tools_log [OF st, of "(\<lambda>(i, n, inp). Tool_Requested i n inp) ` set calls" parse]
  have a1: "auth parse ?R s1" "(\<lambda>(i, n, inp). Tool_Requested i n inp) ` set calls \<subseteq> ?R"
    using log s by (auto simp: auth_def)
  have "keeping (auth parse ?R) (finish_tool ports tr)" if tr: "tr \<in> set (zip calls started)" for tr
  proof -
    obtain i n inp x where x: "tr = ((i, n, inp), x)" by (cases tr) auto
    show ?thesis
    proof (cases "x = Inr None")
      case True
      have mem: "(i, n, inp) \<in> set calls" using tr x by (auto dest: set_zip_leftD)
      have "i \<notin> set (ip_invalid cur)" "Tool_Started i n \<in> ?R"
        using log s tr x True by (fastforce simp: auth_def)+
      moreover from this calls mem obtain raw where "parse raw = Some inp" by (auto simp: calls_ok_def)
      moreover have "Tool_Requested i n inp \<in> ?R" using a1(2) mem by auto
      ultimately have "auth parse ?R t \<Longrightarrow> auth parse ?R (t\<lparr>r_log := r_log t @ [Executed i n inp]\<rparr>)"
        for t :: "'a run_state"
        by (auto simp: auth_def intro!: authorised_Executed)
      then show ?thesis
        unfolding finish_tool_def execute_tool_def x True
        by (simp, intro keeping_rules auth.base keeping_modify)
    qed (auto simp: finish_tool_def x split: sum.split option.split)
  qed
  from keepingD [OF keeping_promise_all [of "zip calls started", OF this] a1(1)] run st
  show ?thesis by (auto simp: run_tools_def auth_def)
qed

lemma tool_phase_auth:
  assumes "calls_ok parse cur calls"
  shows "keeping (auth parse {}) (run_tool_phase ports cur calls)"
proof -
  let ?R = "(\<lambda>(i, n, inp). Tool_Requested i n inp) ` set calls"
  have k: "keeping (auth parse {}) m \<Longrightarrow> holds (auth parse {}) m (\<lambda>_. auth parse {}) (\<lambda>_. auth parse {})"
    for m :: "('a, 'b) run" by (simp add: keeping_def)
  have tools: "holds (auth parse ?R) (run_tools ports cur calls) (\<lambda>_. auth parse {}) (\<lambda>_. auth parse {})"
    by (rule holdsI) (blast intro: run_tools_auth [OF assms])+
  have m: "keeping (auth parse {}) (modify (\<lambda>s. s\<lparr>v_tool_calls := v_tool_calls s + length calls\<rparr>))"
    by (rule keeping_modify) (rule auth.locals)
  show ?thesis
    unfolding run_tool_phase_def keeping_def
    by (rule holds_seq [OF k [OF m]],
        rule holds_seq [OF requested_auth [of _ "{}", simplified]],
        rule holds_seq [OF tools], rule k, intro keeping_each auth.keeps_record)
qed

lemma finish_auth:
  assumes "tools_ok (p_parse ports) cur"
  shows "keeping (auth (p_parse ports) {}) (finish_response ports opts d i cur)"
  unfolding finish_response_def Let_def
  by (intro keeping_rules auth.base auth.keeps_account auth.keeps_note_stop auth.message_base
      quiet_simps tool_phase_auth assistant_calls_ok [OF assms] refl)

lemma iteration_auth: "keeping (auth (p_parse ports) {}) (iteration ports opts hint)"
proof -
  let ?A = "auth (p_parse ports) {} :: 'a run_state \<Rightarrow> bool"
  have k: "keeping ?A m \<Longrightarrow> holds ?A m (\<lambda>_. ?A) (\<lambda>_. ?A)" for m :: "('a, 'b) run"
    by (simp add: keeping_def)
  have emit: "keeping ?A (emit ports (Stream_Started i p d))" for i p d
    by (rule keepingI, rule auth.emit_from [where parse = "p_parse ports" and R = "{}",
          OF _ _ _ auth.quiet_invariant_axioms]) (simp_all add: auth_def)
  have "holds ?A (consume ports opts d i pulls no_progress)
      (\<lambda>r s. ?A s \<and> tools_ok (p_parse ports) (snd r)) (\<lambda>_. ?A)" for d i pulls
    using holds_conj [OF k [OF auth.keeps_consume] consume_tools_ok [OF tools_ok_empty]] by simp
  moreover have "holds (\<lambda>s. ?A s \<and> tools_ok (p_parse ports) (snd r)) (case r of
       (Stream_Break, cur) \<Rightarrow> ret Stop
     | (Stream_Retry, cur) \<Rightarrow> ret Again
     | (Stream_Done, cur) \<Rightarrow>
         from_state (\<lambda>s. if r_aborted s then ret Stop
           else finish_response ports opts d i cur)) (\<lambda>_. ?A) (\<lambda>_. ?A)" for r d i
  proof (cases "tools_ok (p_parse ports) (snd r)")
    case True
    then have "keeping ?A (case r of
       (Stream_Break, cur) \<Rightarrow> ret Stop
     | (Stream_Retry, cur) \<Rightarrow> ret Again
     | (Stream_Done, cur) \<Rightarrow>
         from_state (\<lambda>s. if r_aborted s then ret Stop
           else finish_response ports opts d i cur))"
      by (auto intro!: keeping_rules finish_auth split: prod.split stream_end.split)
    then show ?thesis unfolding keeping_def by (rule holds_pre) simp
  qed (simp add: holds_def)
  ultimately have stream: "keeping ?A (seq (consume ports opts d i pulls no_progress) (\<lambda>r.
     case r of
       (Stream_Break, cur) \<Rightarrow> ret Stop
     | (Stream_Retry, cur) \<Rightarrow> ret Again
     | (Stream_Done, cur) \<Rightarrow>
         from_state (\<lambda>s. if r_aborted s then ret Stop
           else finish_response ports opts d i cur)))" for d i pulls
    unfolding keeping_def by (rule holds_seq)
  show ?thesis
    unfolding iteration_def
    by (intro keeping_seq keeping_from_state auth.keeps_pick auth.keeps_compose auth.keeps_request
        auth.keeps_in_world emit stream)
qed

lemma loop_auth:
  "auth (p_parse ports) {} s \<Longrightarrow> auth (p_parse ports) {} (snd (run_loop ports opts hint loops s))"
proof (induction ports opts hint loops s rule: run_loop.induct)
  case (1 ports opts hint loops s)
  show ?case
  proof (cases rule: run_loop_cases [of s ports opts hint loops])
    case (budget dm)
    then show ?thesis using keeping_snd [OF auth.keeps_budget_stop 1(2)] by simp
  next
    case limit
    then show ?thesis using keeping_snd [OF auth.keeps_loop_error 1(2)] by simp
  next
    case (stop r s1)
    then show ?thesis using keepingD [OF iteration_auth 1(2)] by simp
  next
    case (again s1)
    then show ?thesis using 1 keepingD [OF iteration_auth 1(2)] by simp
  qed (use 1 in simp)
qed

lemma body_auth: "keeping (auth (p_parse ports) {}) (run_body ports opts hint)"
  unfolding run_body_def Let_def
  by (intro keeping_from_state keeping_catch auth.keeps_exception keepingI loop_auth)

text \<open>Opening and closing a turn execute nothing.\<close>

lemma emit_auth: "keeping (auth parse {}) (emit ports p)"
  by (rule keepingI, rule auth.emit_from [where parse = parse and R = "{}",
          OF _ _ _ auth.quiet_invariant_axioms]) (simp_all add: auth_def)

lemma auth_modify: "(\<And>s. r_log (f s) = r_log s) \<Longrightarrow> keeping (auth parse {}) (modify f)"
  by (rule keeping_modify) (simp add: auth_def)

lemma start_auth: "keeping (auth parse {}) (start_turn ports opts content)"
  unfolding start_turn_def set_session_def append_message_def emit_message_def
  by (intro keeping_rules auth.keeps_in_world auth.keeps_new_message emit_auth auth_modify)
    (simp_all add: init_locals_def)

lemma finish_turn_auth: "keeping (auth parse {}) (finish_turn ports opts)"
  unfolding finish_turn_def set_session_def emit_task_end_def Let_def
  by (intro keeping_rules emit_auth auth_modify)
    (simp_all add: note_last_turn_def split: option.split)


end
