(* ===== verification/Runner_History.thy ===== *)
theory Runner_History
  imports Runner_Turn
begin

text \<open>
  What a run does to the history: the messages it appends answer every tool call in order, and the
  events announce exactly these messages.
\<close>

section \<open>Messages, their events and the answers to tool calls\<close>

definition is_message :: "payload \<Rightarrow> bool" where
  "is_message p = (case p of Message_Appended _ _ _ \<Rightarrow> True | _ \<Rightarrow> False)"

definition message_payload :: "json message \<Rightarrow> payload" where
  "message_payload m = Message_Appended (msg_id m) (msg_role m) (map to_event_content (msg_content m))"

text \<open>
  The calls still open after a list of messages, or \<open>None\<close> when a message answers a call out of order,
  the assistant speaks before its calls are answered, or a message is neither.
\<close>

definition answer_call :: "string list \<Rightarrow> json message \<Rightarrow> string list option" where
  "answer_call pending m =
     (if msg_role m = Assistant
      then (if pending = [] then Some (map fst (tool_calls_of (msg_content m))) else None)
      else if msg_role m = User
      then (case (pending, msg_content m) of
              (p # ps, [Tool_Result i cs e]) \<Rightarrow> if p = i then Some ps else None
            | _ \<Rightarrow> None)
      else None)"

fun open_calls :: "string list \<Rightarrow> json message list \<Rightarrow> string list option" where
  "open_calls pending [] = Some pending"
| "open_calls pending (m # ms) = Option.bind (answer_call pending m) (\<lambda>p. open_calls p ms)"

lemma open_calls_append:
  "open_calls p (xs @ ys) = Option.bind (open_calls p xs) (\<lambda>q. open_calls q ys)"
  by (induction xs arbitrary: p) (auto split: bind_splits)

definition synced :: "json message list \<Rightarrow> payload list \<Rightarrow> 'w run_state \<Rightarrow> bool" where
  "synced ms es s \<longleftrightarrow> ss_messages (r_session s) = ms \<and> filter is_message (payloads (r_log s)) = es"

lemma is_message_quiet: "quiet p \<Longrightarrow> \<not> is_message p"
  by (auto simp: quiet_def is_message_def split: payload.splits)

interpretation sync: quiet_invariant "synced ms es :: 'w run_state \<Rightarrow> bool" for ms es
  by unfold_locales (auto simp: synced_def interrupt_def harmless_def is_message_quiet)

lemma synced_executed: "synced ms es s \<Longrightarrow> synced ms es (s\<lparr>r_log := r_log s @ [Executed i n inp]\<rparr>)"
  by (simp add: synced_def)

abbreviation yields :: "('w run_state \<Rightarrow> bool) \<Rightarrow> ('w, 'a) run \<Rightarrow> ('a \<Rightarrow> 'w run_state \<Rightarrow> bool) \<Rightarrow> bool" where
  "yields P m Q \<equiv> holds P m Q (\<lambda>_ _. True)"

lemma yields_keeping: "keeping P m \<Longrightarrow> yields P m (\<lambda>_. P)"
  unfolding keeping_def by (erule holds_post) simp_all

lemma append_synced: "yields (synced ms es) (append_message m) (\<lambda>_. synced (ms @ [m]) es)"
  unfolding append_message_def set_session_def by (rule holds_modify) (simp add: synced_def)

lemma emit_message_synced:
  "yields (synced ms es) (emit_message ports m) (\<lambda>_. synced ms (es @ [message_payload m]))"
proof (rule holdsI)
  fix s x s' assume s: "synced ms es s" "emit_message ports m s = (Inr x, s')"
  note e = emit_ok [OF s(2) [unfolded emit_message_def]]
  show "synced ms (es @ [message_payload m]) s'"
    using s(1) e(2) coreD(1) [OF e(1)] by (simp add: synced_def is_message_def message_payload_def)
qed simp

lemma record_synced:
  "yields (synced ms es) (record_result ports calls x) (\<lambda>_ s. \<exists>m. msg_role m = User \<and>
     msg_content m = [result_part ports x] \<and> synced (ms @ [m]) (es @ [message_payload m]) s)"
proof -
  have new: "yields (synced ms es) (new_message ports User [result_part ports x])
      (\<lambda>m s. synced ms es s \<and> msg_role m = User \<and> msg_content m = [result_part ports x])"
  proof (rule holdsI)
    fix s m s' assume s: "synced ms es s" "new_message ports User [result_part ports x] s = (Inr m, s')"
    then have "synced ms es s'" using keepingD [OF sync.keeps_new_message] by blast
    then show "synced ms es s' \<and> msg_role m = User \<and> msg_content m = [result_part ports x]"
      using new_message_spec [OF s(2)] by (metis Inr_inject)
  qed simp
  have rest: "yields (\<lambda>s. synced ms es s \<and> msg_role m = User \<and> msg_content m = [result_part ports x])
      (seq (append_message m) (\<lambda>_. seq (emit ports (Tool_Completed oc)) (\<lambda>_. emit_message ports m)))
      (\<lambda>_ s. \<exists>m. msg_role m = User \<and> msg_content m = [result_part ports x] \<and>
        synced (ms @ [m]) (es @ [message_payload m]) s)" for m oc
  proof (cases "msg_role m = User \<and> msg_content m = [result_part ports x]")
    case True
    have "yields (synced ms es)
      (seq (append_message m) (\<lambda>_. seq (emit ports (Tool_Completed oc)) (\<lambda>_. emit_message ports m)))
      (\<lambda>_. synced (ms @ [m]) (es @ [message_payload m]))"
      by (intro holds_seq [OF append_synced] holds_seq [OF yields_keeping [OF sync.keeps_emit]]
          emit_message_synced quiet_simps)
    then show ?thesis by (rule holds_pre [OF holds_post]) (use True in auto)
  qed (auto simp: holds_def)
  show ?thesis unfolding record_result_def by (rule holds_seq [OF new rest])
qed

text \<open>Recording the results answers the open calls in order.\<close>

lemma records_synced:
  "yields (synced ms es) (each (record_result ports calls) xs) (\<lambda>_ s. \<exists>us.
     open_calls (map te_id xs @ rest) us = Some rest \<and> synced (ms @ us) (es @ map message_payload us) s)"
proof (induction xs arbitrary: ms es)
  case Nil
  show ?case by (auto intro!: holds_ret exI [of _ "[]"])
next
  case (Cons x xs)
  have step: "yields (\<lambda>s. \<exists>m. msg_role m = User \<and> msg_content m = [result_part ports x] \<and>
        synced (ms @ [m]) (es @ [message_payload m]) s) (each (record_result ports calls) xs)
      (\<lambda>_ s. \<exists>us. open_calls (map te_id (x # xs) @ rest) us = Some rest \<and>
        synced (ms @ us) (es @ map message_payload us) s)"
  proof (rule holdsI)
    fix s y s'
    assume "\<exists>m. msg_role m = User \<and> msg_content m = [result_part ports x] \<and>
        synced (ms @ [m]) (es @ [message_payload m]) s"
      and run: "each (record_result ports calls) xs s = (Inr y, s')"
    then obtain m where m: "msg_role m = User" "msg_content m = [result_part ports x]"
      "synced (ms @ [m]) (es @ [message_payload m]) s" by blast
    from holds_Inr [OF Cons.IH m(3) run] obtain us where
      us: "open_calls (map te_id xs @ rest) us = Some rest"
        "synced ((ms @ [m]) @ us) ((es @ [message_payload m]) @ map message_payload us) s'" by blast
    have "open_calls (map te_id (x # xs) @ rest) (m # us) = Some rest"
      using us(1) m(1,2) by (simp add: answer_call_def result_part_def)
    with us(2) show "\<exists>us. open_calls (map te_id (x # xs) @ rest) us = Some rest \<and>
        synced (ms @ us) (es @ map message_payload us) s'"
      by (intro exI [of _ "m # us"]) simp
  qed simp
  show ?case by (simp, rule holds_seq [OF record_synced]) (use step in simp)
qed

subsection \<open>Every call yields one result, in order\<close>

lemma settled_results:
  assumes "all_settled f xs s = (rs, s')" and "\<And>x s r s'. x \<in> set xs \<Longrightarrow> f x s = (r, s') \<Longrightarrow> Q x r"
  shows "list_all2 Q xs rs"
  using assms
proof (induction xs arbitrary: s rs s')
  case (Cons x xs)
  obtain r s1 where r: "f x s = (r, s1)" by (cases "f x s")
  obtain rs2 s2 where rs: "all_settled f xs s1 = (rs2, s2)" by (cases "all_settled f xs s1")
  have "list_all2 Q xs rs2" by (rule Cons.IH [OF rs]) (simp add: Cons.prems(2))
  with Cons.prems r rs show ?case by auto
qed simp

definition same_ids :: "'w ports \<Rightarrow> bool" where
  "same_ids ports \<longleftrightarrow>
     (\<forall>i n inp ab w x w'. p_execute ports i n inp ab w = (Inr x, w') \<longrightarrow> te_id x = i)"

lemma run_tools_ids:
  assumes ids: "same_ids ports" and run: "run_tools ports cur calls s = (Inr xs, s')"
  shows "map te_id xs = map fst calls"
proof -
  obtain started s1 where st: "all_settled (start_tool ports cur) calls s = (started, s1)"
    by (cases "all_settled (start_tool ports cur) calls s")
  obtain rs s2 where rs: "all_settled (finish_tool ports) (zip calls started) s1 = (rs, s2)"
    by (cases "all_settled (finish_tool ports) (zip calls started) s1")
  let ?Q = "\<lambda>c r. \<forall>x. r = Inr (Some x) \<longrightarrow> te_id x = fst c"
  have q: "list_all2 ?Q calls started"
    by (rule settled_results [OF st])
      (auto simp: start_tool_def seq_def ret_def invalid_execution_def Let_def
        split: if_splits prod.splits sum.splits)
  have "list_all2 (\<lambda>tr r. \<forall>x. r = Inr x \<longrightarrow> te_id x = fst (fst tr)) (zip calls started) rs"
  proof (rule settled_results [OF rs], intro allI impI)
    fix tr t r t' x
    assume tr: "tr \<in> set (zip calls started)" and f: "finish_tool ports tr t = (r, t')" and "r = Inr x"
    have "?Q (fst tr) (snd tr)" using q tr by (auto simp: list_all2_iff)
    obtain i n inp so where eq: "tr = ((i, n, inp), so)" by (cases tr) auto
    show "te_id x = fst (fst tr)"
    proof (cases so)
      case (Inl e)
      then show ?thesis using f eq \<open>r = Inr x\<close> by (simp add: finish_tool_def throw_error_def)
    next
      case (Inr o1)
      show ?thesis
      proof (cases o1)
        case None
        have g: "execute_tool ports (i, n, inp) t = (Inr x, t')"
          using f eq Inr None \<open>r = Inr x\<close> by (simp add: finish_tool_def)
        then show ?thesis using ids eq
          by (auto simp: execute_tool_def seq_Inr_iff from_state_def modify_def ret_def await_def
              same_ids_def split: prod.splits) blast
      next
        case (Some y)
        then show ?thesis using f eq Inr \<open>r = Inr x\<close> \<open>?Q (fst tr) (snd tr)\<close>
          by (simp add: finish_tool_def ret_def)
      qed
    qed
  qed
  moreover have "first_error rs = Inr xs" using run st rs by (simp add: run_tools_def promise_all_def)
  then have "rs = map Inr xs" by (rule first_error_Inr)
  ultimately have "list_all2 (\<lambda>tr x. te_id x = fst (fst tr)) (zip calls started) xs"
    by (simp add: list_all2_map2)
  then show ?thesis using list_all2_lengthD [OF q]
    by (simp add: list_all2_conv_all_nth list_eq_iff_nth_eq)
qed

text \<open>One finished response: the assistant's message and the answers to its calls.\<close>

definition extended ::
  "json message list \<Rightarrow> payload list \<Rightarrow> 'w run_state \<Rightarrow> bool" where
  "extended ms es s \<longleftrightarrow> (\<exists>us. open_calls [] us = Some [] \<and> synced (ms @ us) (es @ map message_payload us) s)"

lemma run_tools_synced:
  assumes "same_ids ports"
  shows "yields (synced ms es) (run_tools ports cur calls)
     (\<lambda>xs s. synced ms es s \<and> map te_id xs = map fst calls)"
  using keepingD [OF sync.keeps_run_tools [OF synced_executed]] run_tools_ids [OF assms]
  by (intro holdsI) blast+

lemma tool_phase_synced:
  assumes "same_ids ports"
  shows "yields (synced ms es) (run_tool_phase ports cur calls) (\<lambda>_ s. \<exists>us.
     open_calls (map fst calls) us = Some [] \<and> synced (ms @ us) (es @ map message_payload us) s)"
proof -
  have rec: "yields (\<lambda>s. synced ms es s \<and> map te_id xs = map fst calls) (each (record_result ports calls) xs)
      (\<lambda>_ s. \<exists>us. open_calls (map fst calls) us = Some [] \<and>
        synced (ms @ us) (es @ map message_payload us) s)" for xs
  proof (cases "map te_id xs = map fst calls")
    case True
    have "yields (synced ms es) (each (record_result ports calls) xs)
      (\<lambda>_ s. \<exists>us. open_calls (map fst calls) us = Some [] \<and>
        synced (ms @ us) (es @ map message_payload us) s)"
      using records_synced [where rest = "[]" and xs = xs] True by simp
    then show ?thesis by (rule holds_pre) simp
  qed (auto simp: holds_def)
  have count: "keeping (synced ms es) (modify (\<lambda>s. s\<lparr>v_tool_calls := v_tool_calls s + length calls\<rparr>))"
    by (rule keeping_modify) (rule sync.locals)
  show ?thesis
    unfolding run_tool_phase_def
    by (rule holds_seq [OF yields_keeping [OF count]]
        holds_seq [OF yields_keeping [OF sync.keeps_requested]]
        holds_seq [OF run_tools_synced [OF assms]] rec | assumption)+
qed

lemma response_synced:
  assumes "same_ids ports" and "msg_role m = Assistant" and "calls = tool_calls_of (msg_content m)"
  shows "yields (synced ms es)
     (seq (append_message m) (\<lambda>_.
        seq (account_usage cur) (\<lambda>_.
        seq (modify (note_stop cur)) (\<lambda>_.
        seq (emit ports (Stream_Completed i (ip_usage cur))) (\<lambda>_.
        seq (emit_message ports m) (\<lambda>_.
        if calls = [] then ret Stop
        else seq (run_tool_phase ports cur calls) (\<lambda>_. ret Again)))))))
     (\<lambda>_. extended ms es)"
proof -
  have last: "yields (synced (ms @ [m]) (es @ [message_payload m]))
     (if calls = [] then ret Stop else seq (run_tool_phase ports cur calls) (\<lambda>_. ret Again))
     (\<lambda>_. extended ms es)"
  proof (rule holds_if)
    assume "calls = []"
    then show "yields (synced (ms @ [m]) (es @ [message_payload m])) (ret Stop) (\<lambda>_. extended ms es)"
      using assms(2,3) by (intro holds_ret) (auto simp: extended_def answer_call_def intro!: exI [of _ "[m]"])
  next
    have "yields (\<lambda>s. \<exists>us. open_calls (map fst calls) us = Some [] \<and>
        synced ((ms @ [m]) @ us) ((es @ [message_payload m]) @ map message_payload us) s)
       (ret Again) (\<lambda>_. extended ms es)"
    proof (rule holds_ret, elim exE conjE)
      fix s us assume "open_calls (map fst calls) us = Some []"
        and "synced ((ms @ [m]) @ us) ((es @ [message_payload m]) @ map message_payload us) s"
      then show "extended ms es s" unfolding extended_def using assms(2,3)
        by (intro exI [of _ "m # us"]) (simp add: answer_call_def)
    qed
    then show "yields (synced (ms @ [m]) (es @ [message_payload m]))
       (seq (run_tool_phase ports cur calls) (\<lambda>_. ret Again)) (\<lambda>_. extended ms es)"
      by (rule holds_seq [OF tool_phase_synced [OF assms(1)]])
  qed
  show ?thesis
    by (intro holds_seq [OF append_synced] holds_seq [OF yields_keeping [OF sync.keeps_account]]
        holds_seq [OF yields_keeping [OF sync.keeps_note_stop]]
        holds_seq [OF yields_keeping [OF sync.keeps_emit]] holds_seq [OF emit_message_synced]
        last quiet_simps)
qed

lemma finish_synced:
  assumes "same_ids ports"
  shows "yields (synced ms es) (finish_response ports opts d i cur0) (\<lambda>_. extended ms es)"
proof -
  have first: "yields (synced ms es) (from_state (\<lambda>s. case p_on_success ports of
            None \<Rightarrow> modify (yield ports)
          | Some f \<Rightarrow> await ports (f d (run_context ports opts (map_option client_name (v_sticky s)) s))))
      (\<lambda>_. synced ms es)"
    by (intro yields_keeping keeping_from_state) (auto intro: sync.keeps_modify_yield sync.keeps_await split: option.split)
  have eq: "from_state (\<lambda>s. seq (f s) g) = seq (from_state f) g" for f :: "'a run_state \<Rightarrow> ('a, 'b) run" and g :: "'b \<Rightarrow> ('a, 'c) run"
    by (rule ext) (simp add: from_state_def seq_def)
  show ?thesis
    unfolding finish_response_def Let_def
    unfolding eq
    apply (rule holds_seq [OF first])
    apply (rule holds_from_state)
    apply (rule holds_pre [OF response_synced [OF assms]])
    apply (simp_all add: assistant_message_def)
    done
qed

lemma extended_refl: "synced ms es s \<Longrightarrow> extended ms es s"
  unfolding extended_def by (rule exI [of _ "[]"]) simp

lemma iteration_synced:
  assumes policy: "p_policy ports = None" and ids: "same_ids ports"
  shows "yields (synced ms es) (iteration ports opts hint) (\<lambda>_. extended ms es)"
proof -
  have emit: "keeping (synced ms es) (emit ports (Stream_Started i p d))" for i p d
    by (rule keepingI, rule sync.emit_from [where ms = ms and es = es,
          OF _ _ _ sync.quiet_invariant_axioms]) (simp_all add: synced_def is_message_def)
  have stream: "yields (synced ms es) (case r of
       (Stream_Break, cur) \<Rightarrow> ret Stop
     | (Stream_Retry, cur) \<Rightarrow> ret Again
     | (Stream_Done, cur) \<Rightarrow>
         from_state (\<lambda>s. if r_aborted s then ret Stop
           else finish_response ports opts d i cur)) (\<lambda>_. extended ms es)" for r d i
  proof (cases r)
    case (Pair e cur)
    have "yields (synced ms es) (from_state (\<lambda>s. if r_aborted s then ret Stop
           else finish_response ports opts d i cur)) (\<lambda>_. extended ms es)"
    proof (rule holds_from_state, rule holds_if)
      fix s0 :: "'a run_state" assume s0: "synced ms es s0"
      show "yields (\<lambda>s. s = s0) (ret Stop) (\<lambda>_. extended ms es)"
        by (rule holds_ret) (use s0 extended_refl in blast)
      show "yields (\<lambda>s. s = s0) (finish_response ports opts d i cur) (\<lambda>_. extended ms es)"
        by (rule holds_pre [OF finish_synced [OF ids]]) (use s0 in simp)
    qed
    then show ?thesis using Pair by (cases e) (auto intro: holds_ret extended_refl)
  qed
  show ?thesis
    unfolding iteration_def
    by (rule holds_seq [OF yields_keeping [OF sync.keeps_pick]]
        holds_seq [OF yields_keeping [OF sync.keeps_compose]]
        holds_seq [OF yields_keeping [OF sync.keeps_request_plain [OF policy]]]
        holds_seq [OF yields_keeping [OF sync.keeps_in_world]] holds_seq [OF yields_keeping [OF emit]]
      | assumption)+
     (rule holds_from_state,
      rule holds_pre [where P = "synced ms es"],
      rule holds_seq [OF yields_keeping [OF sync.keeps_in_world]],
      rule holds_seq [OF yields_keeping [OF sync.keeps_consume]], rule stream, simp)
qed

lemma extended_trans:
  assumes "extended ms es s" and "\<And>ms es. synced ms es s \<Longrightarrow> extended ms es s'"
  shows "extended ms es s'"
proof -
  from assms(1) obtain us where us: "open_calls [] us = Some []"
    "synced (ms @ us) (es @ map message_payload us) s" unfolding extended_def by blast
  from assms(2) [OF us(2)] obtain vs where vs: "open_calls [] vs = Some []"
    "synced ((ms @ us) @ vs) ((es @ map message_payload us) @ map message_payload vs) s'"
    unfolding extended_def by blast
  show ?thesis
    unfolding extended_def using us vs by (intro exI [of _ "us @ vs"]) (simp add: open_calls_append)
qed

lemma loop_synced:
  assumes "p_policy ports = None" and "same_ids ports"
    and "run_loop ports opts hint loops s = (Inr (), s')" and "synced ms es s"
  shows "extended ms es s'"
  using assms
proof (induction ports opts hint loops s arbitrary: ms es rule: run_loop.induct)
  case (1 ports opts hint loops s)
  show ?case
  proof (cases rule: run_loop_cases [of s ports opts hint loops])
    case (budget dm)
    then have "stop_for_budget ports opts dm s = (Inr (), s')" using 1(4) by simp
    from extended_refl [OF keepingD [OF sync.keeps_budget_stop 1(5) this]] show ?thesis .
  next
    case limit
    then have "emit ports (loop_error loops) s = (Inr (), s')" using 1(4) by simp
    from extended_refl [OF keepingD [OF sync.keeps_loop_error 1(5) this]] show ?thesis .
  next
    case (stop r s1)
    then obtain f where "iteration ports opts hint s = (Inr f, s')" using 1(4) by (cases r) auto
    from holds_Inr [OF iteration_synced [OF 1(2,3)] 1(5) this] show ?thesis .
  next
    case (again s1)
    have "extended ms es s1" by (rule holds_Inr [OF iteration_synced [OF 1(2,3)] 1(5) again(3)])
    then show ?thesis
    proof (rule extended_trans)
      fix ms es assume "synced ms es s1"
      with 1 again show "extended ms es s'" by simp
    qed
  qed (use 1 extended_refl in auto)
qed

definition runner_failed :: "obs list \<Rightarrow> bool" where
  "runner_failed l \<longleftrightarrow> list_ex (\<lambda>p. case p of Error_Raised c _ _ \<Rightarrow> c = ''runner_error'' | _ \<Rightarrow> False) (payloads l)"

lemma body_synced:
  assumes "p_policy ports = None" and "same_ids ports"
    and body: "run_body ports opts hint s = (Inr (), s')" and "synced ms es s"
  shows "extended ms es s' \<or> runner_failed (r_log s')"
proof -
  let ?h = "run_hint (r_last_turn s) (l_agent_type (ss_lineage (r_session s))) hint"
  obtain r s1 where l: "run_loop ports opts ?h 0 s = (r, s1)" by (cases "run_loop ports opts ?h 0 s")
  show ?thesis
  proof (cases r)
    case (Inr u)
    then show ?thesis using body l loop_synced [OF assms(1,2) _ assms(4), of opts ?h 0]
      by (simp add: run_body_def from_state_def catch_error_def)
  next
    case (Inl e)
    then have ex: "on_exception ports e s1 = (Inr (), s')"
      using body l by (simp add: run_body_def from_state_def catch_error_def)
    then obtain g cx t where "emit ports (Error_Raised ''runner_error'' g cx) t = (Inr (), s')"
      by (auto simp: on_exception_def seq_Inr_iff modify_def from_state_def)
    from emit_ok(2) [OF this] show ?thesis by (simp add: runner_failed_def)
  qed
qed

lemma run_history:
  assumes run: "run_turn ports opts content hint s = (Inr ss, s')"
    and policy: "p_policy ports = None" and ids: "same_ids ports" and ok: "\<not> runner_failed (r_log s')"
  shows "\<exists>user us. ss_messages ss = ss_messages (r_session s) @ user # us \<and>
    msg_role user = User \<and> msg_content user = content \<and> open_calls [] us = Some [] \<and>
    filter is_message (payloads (r_log s')) =
      filter is_message (payloads (r_log s)) @ map message_payload (user # us)"
proof -
  from run obtain s1 s2 where st: "start_turn ports opts content s = (Inr (), s1)"
    and body: "run_body ports opts hint s1 = (Inr (), s2)"
    and fin: "finish_turn ports opts s2 = (Inr (), s')" and ss: "ss = r_session s'"
    by (rule run_turn_split)
  from st obtain parent agent and user :: "json message" where s1:
    "payloads (r_log s1) = payloads (r_log s) @ Turn_Started (r_turn s1) parent agent #
       task_payloads opts @ [Message_Appended (msg_id user) User (map to_event_content content)]"
    "ss_messages (r_session s1) = ss_messages (r_session s) @ [user]"
    "msg_role user = User" "msg_content user = content"
    by (rule start_turn_spec) blast
  have task: "filter is_message (task_payloads opts) = []"
    by (simp add: task_payloads_def is_message_def split: option.split)
  let ?ms = "ss_messages (r_session s) @ [user]"
  let ?es = "filter is_message (payloads (r_log s)) @ [message_payload user]"
  have "synced ?ms ?es s1"
    by (simp add: synced_def s1 task is_message_def message_payload_def)
  note b = body_synced [OF policy ids body this]
  obtain p rest where f: "payloads (r_log s') = payloads (r_log s2) @ p # rest"
    "p = (if is_aborted s2 then Turn_Aborted_Ev (r_turn s2) (abort_reason_of s2)
          else Turn_Completed (r_turn s2) (v_usage s2) (v_stop s2))"
    "list_all task_end_payload rest" "ss_messages (r_session s') = ss_messages (r_session s2)"
    using fin by (rule finish_turn_spec) blast
  have rest: "filter is_message rest = []" "\<not> is_message p"
    using f(2,3) by (auto simp: filter_empty_conv list_all_iff task_end_payload_def is_message_def
        split: payload.splits)
  from ok f(1) have "\<not> runner_failed (r_log s2)" by (auto simp: runner_failed_def)
  with b obtain us where us: "open_calls [] us = Some []"
    "synced (?ms @ us) (?es @ map message_payload us) s2" unfolding extended_def by blast
  then show ?thesis
    using f rest s1(3,4) ss by (intro exI [of _ user] exI [of _ us]) (simp add: synced_def)
qed


end
