(* ===== verification/Runner_Safety.thy ===== *)
theory Runner_Safety
  imports Runner_History
begin

text \<open>
  Two more properties of runs: what the reported reason of a budget stop is, and that the output of
  a tool cannot leave the envelope the runner puts around it.
\<close>

section \<open>A budget stop is reported as an interruption\<close>

lemma unpolled_yield: "fst (p_poll ports (r_world s)) = 0 \<Longrightarrow> r_aborted (yield ports s) = r_aborted s"
  by (cases "p_poll ports (r_world s)") (simp add: yield_def)

lemma emit_aborted:
  assumes "\<And>w. fst (p_poll ports w) = 0" and "emit ports p s = (r, s')"
  shows "r_aborted s' = r_aborted s"
  using assms(2) by (auto simp: emit_def Let_def unpolled_yield assms(1) split: prod.splits if_splits)

lemma start_not_aborted:
  assumes "\<And>w. fst (p_poll ports w) = 0" and "start_turn ports opts content s = (Inr (), s')"
  shows "\<not> r_aborted s'"
proof -
  let ?P = "\<lambda>s. \<not> r_aborted s"
  have e: "keeping ?P (emit ports p)" for p
    by (rule keepingI) (metis assms(1) emit_aborted surjective_pairing)
  have n: "keeping ?P (new_message ports User content)"
    by (rule keepingI) (simp add: new_message_def seq_def in_world_def split: prod.splits)
  have m: "(\<And>s. r_aborted (f s) = r_aborted s) \<Longrightarrow> keeping ?P (modify f)" for f
    by (rule keeping_modify) simp
  have "holds (\<lambda>_. True) (start_turn ports opts content) (\<lambda>_. ?P) (\<lambda>_ _. True)"
    unfolding start_turn_def set_session_def append_message_def emit_message_def
    apply (rule holds_seq [where R = "\<lambda>_ _. True"], simp add: holds_def split: prod.split sum.split)
    apply (rule holds_seq [where R = "\<lambda>_. ?P"], simp add: holds_def modify_def)
    apply (rule yields_keeping)
    apply (intro keeping_rules e n m)
    apply (simp_all add: init_locals_def)
    done
  from holds_Inr [OF this _ assms(2)] show ?thesis by simp
qed

lemma runner_failed_mono: "payloads l' = payloads l @ ps \<Longrightarrow> runner_failed l \<Longrightarrow> runner_failed l'"
  by (simp add: runner_failed_def)

text \<open>
  A turn that is stopped because its token budget is used up, with nobody interrupting it, ends
  with \<open>turn.aborted\<close> and the reason \<open>user_interrupt\<close>: the code notes the reason \<open>error\<close> when it stops
  the loop, but the reason it reports is computed from the failure flag, which the stop does not set.
\<close>
theorem budget_stop_reads_as_interrupt:
  assumes run: "run_turn ports opts content hint s = (Inr ss, s')"
    and quiet: "\<And>w. fst (p_poll ports w) = 0"
    and budget: "op_budget opts = Some b" "rb_token_max b = Some m"
    and used: "m \<le> cu_input (ss_usage (r_session s)) + cu_output (ss_usage (r_session s))"
    and ok: "\<not> runner_failed (r_log s')"
  shows "terminal_events (r_log s') =
      terminal_events (r_log s) @ [Turn_Aborted_Ev (r_turn s') User_Interrupt] \<and>
    (\<exists>cx. Error_Raised ''subagent_budget_exhausted'' None cx \<in> set (payloads (r_log s')))"
proof -
  from run obtain s1 s2 where st: "start_turn ports opts content s = (Inr (), s1)"
    and body: "run_body ports opts hint s1 = (Inr (), s2)"
    and fin: "finish_turn ports opts s2 = (Inr (), s')"
    by (rule run_turn_split)
  from st obtain parent agent and user :: "json message" where s1:
    "payloads (r_log s1) = payloads (r_log s) @ Turn_Started (r_turn s1) parent agent #
       task_payloads opts @ [Message_Appended (msg_id user) User (map to_event_content content)]"
    "ss_usage (r_session s1) = ss_usage (r_session s)" "\<not> v_failed s1"
    by (rule start_turn_spec) blast
  obtain p rest where f: "payloads (r_log s') = payloads (r_log s2) @ p # rest"
    "p = (if is_aborted s2 then Turn_Aborted_Ev (r_turn s2) (abort_reason_of s2)
          else Turn_Completed (r_turn s2) (v_usage s2) (v_stop s2))"
    "list_all task_end_payload rest" "r_turn s' = r_turn s2"
    using fin by (rule finish_turn_spec) blast
  have nf: "\<not> runner_failed (r_log s2)" using ok f(1) runner_failed_mono by blast
  let ?h = "run_hint (r_last_turn s1) (l_agent_type (ss_lineage (r_session s1))) hint"
  have "exhausted_budget opts (r_session s1) (elapsed ports s1) (v_tool_calls s1) = Some Token_Dim"
    using budget used s1(2) by (simp add: exhausted_budget_def run_budget_def reaches_def)
  then have loop: "run_loop ports opts ?h 0 s1 = stop_for_budget ports opts Token_Dim s1"
    using start_not_aborted [OF quiet st] by (simp add: run_loop.simps)
  obtain r s3 where stop: "stop_for_budget ports opts Token_Dim s1 = (r, s3)"
    by (cases "stop_for_budget ports opts Token_Dim s1")
  have "r = Inr () \<and> s3 = s2"
  proof (cases r)
    case (Inl e)
    then have "on_exception ports e s3 = (Inr (), s2)"
      using body loop stop by (simp add: run_body_def from_state_def catch_error_def Let_def)
    then obtain g cx t where "emit ports (Error_Raised ''runner_error'' g cx) t = (Inr (), s2)"
      by (auto simp: on_exception_def seq_Inr_iff modify_def from_state_def)
    from emit_ok(2) [OF this] nf show ?thesis by (simp add: runner_failed_def)
  qed (use body loop stop in \<open>simp add: run_body_def from_state_def catch_error_def Let_def\<close>)
  then obtain s4 where e: "emit ports (budget_error opts (r_session s1)
      (p_now ports (r_world s1) - v_started s1) (v_tool_calls s1) Token_Dim) s1 = (Inr (), s4)"
    and s2: "s2 = s4\<lparr>v_reason := Some Error_Abort, r_aborted := True\<rparr>"
    using stop by (auto simp: stop_for_budget_def seq_Inr_iff from_state_def modify_def)
  note c = emit_ok [OF e]
  have "is_aborted s2" "abort_reason_of s2 = User_Interrupt"
    using s2 coreD [OF c(1)] s1(3) by (simp_all add: is_aborted_def abort_reason_of_def)
  then have p: "p = Turn_Aborted_Ev (r_turn s') User_Interrupt" using f(2,4) by simp
  have "filter is_terminal (payloads (r_log s2)) = filter is_terminal (payloads (r_log s))"
    using s2 c(2) s1(1) by (simp add: is_terminal_def budget_error_def task_payloads_not_terminal)
  then have "terminal_events (r_log s') = terminal_events (r_log s) @ [p]"
    unfolding terminal_payloads f(1) using task_end_not_terminal [OF f(3)] p
    by (simp add: is_terminal_def)
  moreover have "\<exists>cx. Error_Raised ''subagent_budget_exhausted'' None cx \<in> set (payloads (r_log s'))"
    using f(1) s2 c(2) by (auto simp: budget_error_def)
  ultimately show ?thesis using p by simp
qed

section \<open>Tool output stays inside its envelope\<close>

fun unescape :: "ustr \<Rightarrow> ustr" where
  "unescape [] = []"
| "unescape (c # cs) =
     (if c = 38 then
        (if take 4 cs = [97, 109, 112, 59] then 38 # unescape (drop 4 cs)
         else if take 3 cs = [108, 116, 59] then 60 # unescape (drop 3 cs)
         else if take 3 cs = [103, 116, 59] then 62 # unescape (drop 3 cs)
         else c # unescape cs)
      else c # unescape cs)"

lemma unescape_escape: "unescape (escape t) = t"
  by (induction t) (simp_all add: escape_def escape_char_def)

lemma escape_no_brackets: "60 \<notin> set (escape t) \<and> 62 \<notin> set (escape t)"
  by (induction t) (auto simp: escape_def escape_char_def)

text \<open>
  What a tool returns reaches the model inside one envelope it cannot close or open: the text
  handed to the model is the opening tag, a body without angle brackets and the closing tag, and
  the body decodes to exactly the tool's output.
\<close>
theorem untrusted_output_is_contained:
  "\<exists>body. wrap_untrusted part_text parts source i =
      [Text (untrusted_open source i @ body @ untrusted_close)] \<and>
    60 \<notin> set body \<and> 62 \<notin> set body \<and> unescape body = untrusted_body part_text parts"
  using escape_no_brackets unescape_escape unfolding wrap_untrusted_def by blast

end
