(* ===== verification/Runner_Demo.thy ===== *)
theory Runner_Demo
  imports Runner_Safety
begin

text \<open>
  A concrete run, on which the theorems about runs are applied: the provider asks for one tool call
  and then answers, the world is a counter of the ids given out, and nobody interrupts.
\<close>

definition demo_session :: session_state where
  "demo_session = create_session 0 ''s'' [] [] 1000 None None"

definition demo_pulls :: "json provider_chunk list \<Rightarrow> nat pull list" where
  "demo_pulls cs = map (\<lambda>c ab w. (Inr (Some c), w)) cs"

text \<open>A provider that asks for one tool and then answers; nobody interrupts.\<close>

definition demo_ports :: "nat ports" where
  "demo_ports = \<lparr>p_bus = \<lparr>bus_listeners = [], bus_next = 0\<rparr>,
     p_uuid = (\<lambda>w. (replicate (Suc w) CHR ''i'', Suc w)), p_now = (\<lambda>w. 0), p_poll = (\<lambda>w. (0, w)),
     p_pick = (\<lambda>cx h w. (Inr \<lparr>d_provider = demo_client 0 ''p'', d_model = ''m'', d_reason = [],
        d_metadata = None\<rparr>, w)),
     p_on_error = (\<lambda>e cx w. (Inr None, w)), p_on_success = None, p_compose = (\<lambda>cx w. (Inr [], w)),
     p_schemas = (\<lambda>c w. J_Null),
     p_stream = (\<lambda>c r ab w. (demo_pulls (if length (sr_messages r) < 2
        then [Tool_Use_Start ''t'' ''g'', Tool_Use_Delta ''t'' [1], Tool_Use_End ''t''] else [Text_Delta [1]]), w)),
     p_execute = (\<lambda>i n inp ab w. (Inr \<lparr>te_id = i, te_name = Some n, te_content = [], te_is_error = None,
        te_duration = None, te_added = None, te_removed = None\<rparr>, w)),
     p_parse = (\<lambda>t. Some (J_Obj [])), p_stringify = (\<lambda>j. []), p_part_text = (\<lambda>p. []), p_policy = None\<rparr>"

definition demo_run_options :: run_options where
  "demo_run_options = \<lparr>op_max_loops = None, op_budget = None, op_cache_strategy = None,
     op_cache_ttl = None, op_task = None\<rparr>"

definition demo_state :: "nat run_state" where
  "demo_state = \<lparr>r_session = demo_session, r_aborted = False, r_last_turn = None, r_world = 0,
     r_log = [], r_turn = [], v_sticky = None, v_decision = None, v_retry = None, v_attempts = 0,
     v_tool_calls = 0, v_failed = False, v_reason = None, v_usage = zero_usage, v_stop = None,
     v_started = 0\<rparr>"

lemmas demo_steps = act_defs in_world_def new_message_def set_session_def append_message_def
  emit_message_def emit_def bus_emit_def assert_payload_contract_def await_def yield_def
  emitted_event_def bind_result_def

lemma demo_port_simps [simp]:
  "p_bus demo_ports = \<lparr>bus_listeners = [], bus_next = 0\<rparr>"
  "p_uuid demo_ports w = (replicate (Suc w) CHR ''i'', Suc w)" "p_now demo_ports w = 0"
  "p_poll demo_ports w = (0, w)"
  "p_pick demo_ports cx h w = (Inr \<lparr>d_provider = demo_client 0 ''p'', d_model = ''m'', d_reason = [],
        d_metadata = None\<rparr>, w)"
  "p_on_success demo_ports = None" "p_compose demo_ports pcx w = (Inr [], w)"
  "p_schemas demo_ports c w = J_Null" "p_policy demo_ports = None"
  "p_stream demo_ports c q ab w = (demo_pulls (if length (sr_messages q) < 2
        then [Tool_Use_Start ''t'' ''g'', Tool_Use_Delta ''t'' [1], Tool_Use_End ''t''] else [Text_Delta [1]]), w)"
  "p_execute demo_ports i n inp ab w = (Inr \<lparr>te_id = i, te_name = Some n, te_content = [], te_is_error = None,
        te_duration = None, te_added = None, te_removed = None\<rparr>, w)"
  "p_parse demo_ports t = Some (J_Obj [])"
  by (simp_all add: demo_ports_def)

lemma demo_client_simps [simp]:
  "client_name (demo_client k n) = n" "client_caps (demo_client k n) = demo_caps"
  "cap_vision demo_caps = None" "cap_files demo_caps = None" "cap_cache demo_caps = Ephemeral"
  by (simp_all add: demo_client_def demo_caps_def)

lemma result_part_ok [simp]: "content_part_ok (to_event_content (result_part ports x)) "
  by (simp add: result_part_def wrap_untrusted_def)

lemmas demo_values = demo_run_options_def demo_state_def demo_session_def create_session_def
  demo_pulls_def

lemmas demo_payloads = turn_started_ok_def message_appended_ok_def min1_def stream_started_ok_def
  stream_delta_ok_def stream_completed_ok_def tool_requested_ok_def tool_started_ok_def
  tool_completed_ok_def turn_completed_ok_def usage_ok_def nonneg_def

lemmas demo_code = run_turn_def start_turn_def run_body_def finish_turn_def iteration_def
  pick_decision_def compose_system_def request_messages_def messages_for_capabilities_def
  pull_chunk_def note_sticky_def emit_delta_def account_usage_def note_stop_def
  run_tools_def start_tool_def execute_tool_def finish_tool_def promise_all_def
  record_result_def open_turn_def truthy_def update_session_def run_hint_def lineage_role_def
  first_given_def exhausted_budget_def run_budget_def max_loops_def init_locals_def elapsed_def
  end_all_tools_def end_tool_use_def assistant_message_def assistant_content_def tool_calls_of_def
  is_aborted_def close_turn_def note_last_turn_def emit_task_end_def no_progress_def
  request_cache_def map_has_def map_keys_def zero_usage_def tool_part_def
  List.map_filter_simps part_for_capabilities_def

text \<open>The ids of the demo world grow in length.\<close>

definition growing :: "event list \<Rightarrow> nat \<Rightarrow> bool" where
  "growing es w \<longleftrightarrow> (\<forall>e \<in> set es. length (ev_id e) \<le> w) \<and> sorted_wrt (\<lambda>x y. length (ev_id x) < length (ev_id y)) es"

lemma growing_simps [simp]:
  "growing [] w"
  "growing es w \<Longrightarrow> w \<le> v \<Longrightarrow> growing es v"
  by (auto simp: growing_def)

lemma growing_append:
  assumes "growing es w" "\<forall>e \<in> set fs. w < length (ev_id e) \<and> length (ev_id e) \<le> v"
    "sorted_wrt (\<lambda>x y. length (ev_id x) < length (ev_id y)) fs" "w \<le> v"
  shows "growing (es @ fs) v"
  using assms by (fastforce simp: growing_def sorted_wrt_append)

lemma growing_distinct: "growing es w \<Longrightarrow> distinct (map ev_id es)"
  unfolding growing_def distinct_map distinct_conv_nth inj_on_def in_set_conv_nth sorted_wrt_iff_nth_less
  by (metis length_map less_irrefl nat_neq_iff nth_map)

definition calm :: "nat run_state \<Rightarrow> bool" where
  "calm s \<longleftrightarrow> \<not> r_aborted s \<and> v_retry s = None \<and> v_sticky s \<in> {None, Some (demo_client 0 ''p'')} \<and>
     \<not> v_failed s \<and> \<not> ss_pending_interrupt (r_session s) \<and> ss_resource_budget (r_session s) = None \<and>
     r_turn s \<noteq> [] \<and> v_usage s = zero_usage \<and> \<not> runner_failed (r_log s) \<and>
     growing (event_log (r_log s)) (r_world s)"

lemma run_loop_steps:
  assumes "\<not> r_aborted s"
    "exhausted_budget opts (r_session s) (elapsed ports s) (v_tool_calls s) = None" "loops < max_loops opts"
  shows "fst (iteration ports opts hint s) = Inr Again \<Longrightarrow>
      run_loop ports opts hint loops s = run_loop ports opts hint (loops + 1) (snd (iteration ports opts hint s))"
    "fst (iteration ports opts hint s) = Inr Stop \<Longrightarrow>
      run_loop ports opts hint loops s = (Inr (), snd (iteration ports opts hint s))"
  using assms by (subst run_loop.simps, auto split: prod.split)+

lemma calmI:
  "\<not> r_aborted s \<Longrightarrow> v_retry s = None \<Longrightarrow> v_sticky s \<in> {None, Some (demo_client 0 ''p'')} \<Longrightarrow>
     \<not> v_failed s \<Longrightarrow> \<not> ss_pending_interrupt (r_session s) \<Longrightarrow> ss_resource_budget (r_session s) = None \<Longrightarrow>
     r_turn s \<noteq> [] \<Longrightarrow> v_usage s = zero_usage \<Longrightarrow> \<not> runner_failed (r_log s) \<Longrightarrow>
     growing (event_log (r_log s)) (r_world s) \<Longrightarrow> calm s"
  by (simp add: calm_def)

lemma runner_failed_append [simp]:
  "runner_failed (l @ m) \<longleftrightarrow> runner_failed l \<or> runner_failed m" "\<not> runner_failed []"
  "runner_failed (Emitted e # l) \<longleftrightarrow>
     (case ev_payload e of Error_Raised c _ _ \<Rightarrow> c = ''runner_error'' | _ \<Rightarrow> False) \<or> runner_failed l"
  "runner_failed (Executed i n inp # l) \<longleftrightarrow> runner_failed l"
  by (auto simp: runner_failed_def)

lemma demo_phase:
  assumes "calm s" and "ip_invalid cur = []"
  shows "\<exists>s'. run_tool_phase demo_ports cur [(''t'', ''g'', inp)] s = (Inr (), s') \<and> calm s' \<and>
    length (ss_messages (r_session s')) = Suc (length (ss_messages (r_session s)))"
  using assms(2) assms(1) [unfolded calm_def]
  by (simp add: run_tool_phase_def demo_code demo_steps demo_values demo_payloads Let_def calmI growing_append [of _ "r_world s"]
      del: ascii_simps)

lemma demo_finish:
  assumes "calm s" and "ip_invalid cur = []" "ip_usage cur = None" "ip_stop cur = None"
    "ip_thinking cur = []" "ip_text cur = []"
    "ip_tools cur = [(''t'', \<lparr>ag_id = ''t'', ag_name = ''g'', ag_fragments = fs, ag_raw = r,
       ag_input = Some (J_Obj []), ag_ended = True\<rparr>)]"
  shows "\<exists>s'. finish_response demo_ports demo_run_options d (CHR ''i'' # i) cur s = (Inr Again, s') \<and> calm s' \<and>
    length (ss_messages (r_session s')) = Suc (Suc (length (ss_messages (r_session s))))"
proof -
  obtain ph where "\<And>s. calm s \<Longrightarrow> run_tool_phase demo_ports cur [(''t'', ''g'', J_Obj [])] s = (Inr (), ph s)"
    "\<And>s. calm s \<Longrightarrow> calm (ph s)" 
    "\<And>s. calm s \<Longrightarrow> length (ss_messages (r_session (ph s))) = Suc (length (ss_messages (r_session s)))"
    using demo_phase [OF _ assms(2), of _ "J_Obj []"] by metis
  with assms(2-) assms(1) [unfolded calm_def] show ?thesis
    by (simp add: finish_response_def demo_code demo_steps demo_values demo_payloads Let_def calmI growing_append [of _ "r_world s"]
      del: ascii_simps)
qed

lemma demo_iteration:
  assumes "calm s" "length (ss_messages (r_session s)) = 1"
  shows "\<exists>s'. iteration demo_ports demo_run_options h s = (Inr Again, s') \<and> calm s' \<and>
    2 \<le> length (ss_messages (r_session s'))"
proof -
  let ?cur = "\<lambda>fs r. no_progress\<lparr>ip_tools := [(''t'', \<lparr>ag_id = ''t'', ag_name = ''g'', ag_fragments = fs, ag_raw = r,
       ag_input = Some (J_Obj []), ag_ended = True\<rparr>)]\<rparr>"
  define cur where "cur = (\<lambda>fs r. \<lparr>ip_text = [], ip_thinking = [], ip_tools = [(''t'', \<lparr>ag_id = ''t'',
     ag_name = ''g'', ag_fragments = fs, ag_raw = r, ag_input = Some (J_Obj []), ag_ended = True\<rparr>)],
     ip_invalid = [], ip_usage = None, ip_stop = None\<rparr>)"
  have fi: "\<exists>s'. finish_response demo_ports demo_run_options d (CHR ''i'' # i) (cur fs r) s = (Inr Again, s') \<and>
      calm s' \<and> 2 \<le> length (ss_messages (r_session s'))" if "calm s" for d i fs r s
    using demo_finish [OF that, of "cur fs r" fs r d i] by (auto simp: cur_def)
  note step = demo_code demo_steps demo_pulls_def demo_payloads Let_def calmI growing_append [of _ "r_world s"]
  have "v_sticky s = None \<or> v_sticky s = Some (demo_client 0 ''p'')" using assms(1) by (auto simp: calm_def)
  then show ?thesis
    using assms(2) assms(1) [unfolded calm_def]
    by (cases "ss_system_prompt (r_session s) = Some []"; elim disjE)
      (simp_all add: step fi [unfolded cur_def] del: ascii_simps)
qed

lemma demo_answer:
  assumes "calm s" "2 \<le> length (ss_messages (r_session s))"
  shows "\<exists>s'. iteration demo_ports demo_run_options h s = (Inr Stop, s') \<and> calm s'"
proof -
  have "v_sticky s = None \<or> v_sticky s = Some (demo_client 0 ''p'')" using assms(1) by (auto simp: calm_def)
  then show ?thesis
    using assms(2) assms(1) [unfolded calm_def]
    by (cases "ss_system_prompt (r_session s) = Some []"; elim disjE)
      (simp_all add: finish_response_def demo_code demo_steps demo_pulls_def demo_payloads Let_def calmI growing_append [of _ "r_world s"] del: ascii_simps)
qed

lemma demo_start:
  "\<exists>s'. start_turn demo_ports demo_run_options [] demo_state = (Inr (), s') \<and> calm s' \<and>
     length (ss_messages (r_session s')) = 1"
  by (simp add: demo_code demo_steps demo_values demo_payloads Let_def calmI growing_def del: ascii_simps)

lemma demo_body:
  assumes "calm s" "length (ss_messages (r_session s)) = 1"
  shows "\<exists>s'. run_body demo_ports demo_run_options h s = (Inr (), s') \<and> calm s'"
proof -
  have b: "exhausted_budget demo_run_options (r_session s) e k = None" if "calm s" for s e k
    using that by (simp add: calm_def exhausted_budget_def run_budget_def demo_run_options_def)
  have m: "max_loops demo_run_options = 25" by (simp add: max_loops_def demo_run_options_def)
  let ?h = "run_hint (r_last_turn s) (l_agent_type (ss_lineage (r_session s))) h"
  obtain s1 where s1: "iteration demo_ports demo_run_options ?h s = (Inr Again, s1)" "calm s1"
    "2 \<le> length (ss_messages (r_session s1))" using demo_iteration [OF assms] by blast
  obtain s2 where s2: "iteration demo_ports demo_run_options ?h s1 = (Inr Stop, s2)" "calm s2"
    using demo_answer [OF s1(2,3)] by blast
  have a: "\<not> r_aborted s" "\<not> r_aborted s1" using assms(1) s1(2) by (simp_all add: calm_def)
  have "run_loop demo_ports demo_run_options ?h 0 s = (Inr (), s2)"
    using a b [OF assms(1)] b [OF s1(2)] m s1(1) s2(1) by (simp add: run_loop.simps)
  then show ?thesis using s2(2) by (simp add: run_body_def from_state_def catch_error_def Let_def)
qed

lemma demo_end:
  assumes "calm s"
  shows "\<exists>s'. finish_turn demo_ports demo_run_options s = (Inr (), s') \<and> \<not> runner_failed (r_log s') \<and>
     growing (event_log (r_log s')) (r_world s')"
  using assms [unfolded calm_def]
  by (cases "v_decision s") (simp_all add: demo_code demo_steps demo_values demo_payloads Let_def calmI growing_append [of _ "r_world s"] del: ascii_simps)

lemma demo_runs:
  "\<exists>ss s'. run_turn demo_ports demo_run_options [] None demo_state = (Inr ss, s') \<and> \<not> runner_failed (r_log s') \<and>
     growing (event_log (r_log s')) (r_world s')"
proof -
  obtain s1 where s1: "start_turn demo_ports demo_run_options [] demo_state = (Inr (), s1)" "calm s1"
    "length (ss_messages (r_session s1)) = 1" using demo_start by blast
  obtain s2 where s2: "run_body demo_ports demo_run_options None s1 = (Inr (), s2)" "calm s2"
    using demo_body [OF s1(2,3)] by blast
  obtain s3 where "finish_turn demo_ports demo_run_options s2 = (Inr (), s3)" "\<not> runner_failed (r_log s3)"
    "growing (event_log (r_log s3)) (r_world s3)"
    using demo_end [OF s2(2)] by blast
  with s1(1) s2(1) show ?thesis by (simp add: run_turn_def seq_def from_state_def ret_def)
qed

section \<open>The theorems about runs, applied\<close>

lemma demo_same_ids: "same_ids demo_ports"
  by (simp add: same_ids_def demo_ports_def)

lemma demo_fresh:
  "r_log demo_state = []" "ss_messages (r_session demo_state) = []" "ss_usage (r_session demo_state) = no_usage"
  by (simp_all add: demo_state_def demo_session_def create_session_def)

theorem run_ends_with_one_terminal_event_witness:
  "\<exists>ss s' p. run_turn demo_ports demo_run_options [] None demo_state = (Inr ss, s') \<and>
     terminal_events (r_log s') = [p] \<and> ss_active_turn ss = None"
proof -
  obtain ss s' where "run_turn demo_ports demo_run_options [] None demo_state = (Inr ss, s')"
    using demo_runs by blast
  with run_ends_with_one_terminal_event [OF this] show ?thesis
    by (auto simp: demo_fresh terminal_payloads)
qed




definition demo_no_tokens :: run_options where
  "demo_no_tokens = demo_run_options\<lparr>op_budget := Some \<lparr>rb_token_max = Some 0, rb_cost_max = None,
     rb_time_max = None, rb_tool_call_max = None\<rparr>\<rparr>"

lemma demo_stops:
  "\<exists>ss s'. run_turn demo_ports demo_no_tokens [] None demo_state = (Inr ss, s') \<and> \<not> runner_failed (r_log s')"
proof -
  obtain s1 where s1: "start_turn demo_ports demo_no_tokens [] demo_state = (Inr (), s1)"
    "\<not> r_aborted s1" "\<not> v_failed s1" "r_turn s1 \<noteq> []" "\<not> runner_failed (r_log s1)" "v_reason s1 = None"
    "ss_usage (r_session s1) = no_usage"
    by (simp add: demo_no_tokens_def demo_code demo_steps demo_values demo_payloads Let_def del: ascii_simps)
  have x: "exhausted_budget demo_no_tokens (r_session s1) (elapsed demo_ports s1) (v_tool_calls s1) = Some Token_Dim"
    using s1(7) by (simp add: exhausted_budget_def run_budget_def demo_no_tokens_def reaches_def no_usage_def)
  obtain s2 where s2: "stop_for_budget demo_ports demo_no_tokens Token_Dim s1 = (Inr (), s2)"
    "r_aborted s2" "\<not> v_failed s2" "r_turn s2 \<noteq> []" "\<not> runner_failed (r_log s2)"
    using s1 by (simp add: stop_for_budget_def budget_error_def demo_steps error_raised_ok_def min1_def Let_def
        del: ascii_simps)
  have body: "run_body demo_ports demo_no_tokens None s1 = (Inr (), s2)"
    using x s1(2) s2(1) by (simp add: run_body_def from_state_def catch_error_def Let_def run_loop.simps)
  obtain s3 where "finish_turn demo_ports demo_no_tokens s2 = (Inr (), s3)" "\<not> runner_failed (r_log s3)"
    using s2(2-) by (simp add: demo_no_tokens_def demo_code demo_steps demo_values demo_payloads
        turn_aborted_ok_def Let_def abort_reason_of_def del: ascii_simps)
  with s1(1) body show ?thesis by (simp add: run_turn_def seq_def from_state_def ret_def)
qed

theorem budget_stop_reads_as_interrupt_witness:
  "\<exists>ss s'. run_turn demo_ports demo_no_tokens [] None demo_state = (Inr ss, s') \<and>
     terminal_events (r_log s') = [Turn_Aborted_Ev (r_turn s') User_Interrupt]"
proof -
  obtain ss s' where run: "run_turn demo_ports demo_no_tokens [] None demo_state = (Inr ss, s')"
    and ok: "\<not> runner_failed (r_log s')" using demo_stops by blast
  have "terminal_events (r_log s') = terminal_events (r_log demo_state) @ [Turn_Aborted_Ev (r_turn s') User_Interrupt]"
    using budget_stop_reads_as_interrupt [OF run _ _ _ _ ok, of
        "\<lparr>rb_token_max = Some 0, rb_cost_max = None, rb_time_max = None, rb_tool_call_max = None\<rparr>" 0]
    by (simp add: demo_no_tokens_def demo_fresh no_usage_def)
  with run show ?thesis by (auto simp: demo_fresh terminal_payloads)
qed

end
