(* ===== verification/Session_Store.thy ===== *)
theory Session_Store
  imports Replay
begin

text \<open>
  The append-only log of a session: \<open>SessionStore\<close> of \<open>packages/storage/src/index.ts\<close>. The file is
  its list of lines, each with its format version; writing and parsing JSON is left out. The store is
  a subscriber of the event bus: it drops stream deltas and events it has seen and refuses payloads
  that carry bytes.
\<close>

record session_store =
  sto_seen :: "string list"
  sto_lines :: "(nat \<times> log_row) list"

definition new_session_store :: session_store where
  "new_session_store = \<lparr>sto_seen = [], sto_lines = []\<rparr>"

fun part_has_binary :: "json content_part \<Rightarrow> bool" where
  "part_has_binary (Tool_Result i cs e) = list_ex part_has_binary cs"
| "part_has_binary (Image src mime) = (case src of Inline b \<Rightarrow> True | _ \<Rightarrow> False)"
| "part_has_binary (File src mime name) = (case src of Inline b \<Rightarrow> True | _ \<Rightarrow> False)"
| "part_has_binary p = False"

text \<open>Among the payloads only a message can carry bytes.\<close>

definition contains_inline_binary :: "payload \<Rightarrow> bool" where
  "contains_inline_binary p = (case p of
     Message_Appended i r content \<Rightarrow> list_ex part_has_binary content | _ \<Rightarrow> False)"

definition is_delta :: "payload \<Rightarrow> bool" where
  "is_delta p = (case p of Stream_Delta i k t \<Rightarrow> True | _ \<Rightarrow> False)"

definition stored_row :: "string \<Rightarrow> event \<Rightarrow> log_row" where
  "stored_row stamp e =
     \<lparr>lr_id = ev_id e, lr_type = event_name (ev_payload e), lr_turn = truthy (ev_turn e),
      lr_parent_turn = truthy (ev_parent_turn e), lr_parent_depth = map_option nat (ev_parent_depth e), lr_at = stamp,
      lr_payload = Parsed (ev_payload e)\<rparr>"

definition store_append :: "payload \<Rightarrow> log_row \<Rightarrow> session_store \<Rightarrow> unit result \<times> session_store" where
  "store_append p r st =
     (if contains_inline_binary p then (throw ''storage_session_binary_rejected'' (lr_id r), st)
      else (Inr (), st\<lparr>sto_lines := sto_lines st @ [(1, r)]\<rparr>))"

text \<open>The event is marked as seen before it is written.\<close>

definition append_core :: "string \<Rightarrow> event \<Rightarrow> session_store \<Rightarrow> unit result \<times> session_store" where
  "append_core stamp e st =
     (if is_delta (ev_payload e) \<or> ev_id e \<in> set (sto_seen st) then (Inr (), st)
      else store_append (ev_payload e) (stored_row stamp e) (st\<lparr>sto_seen := ev_id e # sto_seen st\<rparr>))"

fun store_load :: "(nat \<times> log_row) list \<Rightarrow> log_row list result" where
  "store_load [] = Inr []"
| "store_load ((v, r) # ls) =
     (if v > 1 then throw ''storage_session_version_unsupported'' (lr_id r)
      else bind_result (store_load ls) (\<lambda>rs. Inr (r # rs)))"

definition store_resume :: "nat \<Rightarrow> (nat \<times> log_row) list \<Rightarrow> log_row list result" where
  "store_resume tail_turns ls =
     bind_result (store_load ls) (\<lambda>all1.
       let starts = filter (\<lambda>i. lr_type (all1 ! i) = ''turn.started'') [0..<length all1];
           from1 = (if starts = [] then 0 else if tail_turns = 0 then hd starts
                    else if tail_turns \<le> length starts then starts ! (length starts - tail_turns) else 0)
       in Inr (drop from1 all1))"

text \<open>The listener \<open>attach\<close> subscribes, over a world that is the store and a clock for the rows.\<close>

definition store_listener :: "(session_store \<Rightarrow> string) \<Rightarrow> session_store listener" where
  "store_listener clock e st = append_core (clock st) e st"

section \<open>What the log holds\<close>

definition store_all :: "(event \<Rightarrow> string) \<Rightarrow> event list \<Rightarrow> session_store \<Rightarrow> session_store" where
  "store_all stamp es st = foldl (\<lambda>st e. snd (append_core (stamp e) e st)) st es"

lemma store_load_rows: "list_all (\<lambda>(v, r). v \<le> 1) ls \<Longrightarrow> store_load ls = Inr (map snd ls)"
  by (induction ls) auto

definition storable :: "event \<Rightarrow> bool" where
  "storable e \<longleftrightarrow> \<not> is_delta (ev_payload e) \<and> \<not> contains_inline_binary (ev_payload e)"

lemma disjoint_grow: "A \<subseteq> insert x B \<Longrightarrow> x \<notin> C \<Longrightarrow> C \<inter> B = {} \<Longrightarrow> C \<inter> A = {}"
  by blast

lemma store_all_lines:
  assumes "distinct (map ev_id es)" and "set (map ev_id es) \<inter> set (sto_seen st) = {}"
    and "list_all (\<lambda>e. \<not> contains_inline_binary (ev_payload e)) es"
  shows "sto_lines (store_all stamp es st) = sto_lines st @
    map (\<lambda>e. (1, stored_row (stamp e) e)) (filter (\<lambda>e. \<not> is_delta (ev_payload e)) es)"
  using assms
proof (induction es arbitrary: st)
  case (Cons e es)
  let ?st = "snd (append_core (stamp e) e st)"
  have "set (sto_seen ?st) \<subseteq> insert (ev_id e) (set (sto_seen st))"
    by (auto simp: append_core_def store_append_def)
  moreover have "ev_id e \<notin> ev_id ` set es" "ev_id ` set es \<inter> set (sto_seen st) = {}"
    using Cons.prems by auto
  ultimately have "set (map ev_id es) \<inter> set (sto_seen ?st) = {}"
    unfolding set_map by (rule disjoint_grow)
  moreover have "sto_lines ?st = sto_lines st @
      (if is_delta (ev_payload e) then [] else [(1, stored_row (stamp e) e)])"
    using Cons.prems by (simp add: append_core_def store_append_def)
  ultimately show ?case using Cons.IH [of ?st] Cons.prems by (simp add: store_all_def)
qed (simp add: store_all_def)

lemma append_core_idempotent:
  "append_core stamp2 e (snd (append_core stamp1 e st)) = (Inr (), snd (append_core stamp1 e st))"
  by (simp add: append_core_def store_append_def)


definition demo_event :: "string \<Rightarrow> payload \<Rightarrow> event" where
  "demo_event i p = \<lparr>ev_id = i, ev_payload = p, ev_version = 0, ev_session = ''s'', ev_turn = None,
     ev_parent_turn = None, ev_parent_depth = None, ev_at = 0\<rparr>"


end
