(* ===== verification/Recovery.thy ===== *)
theory Recovery
  imports Runner_Demo Session_Store
begin

text \<open>
  The run, the log and the replay together: what a session log written during a run rebuilds.
\<close>

section \<open>Every logged event is sound\<close>

definition all_sound :: "'w run_state \<Rightarrow> bool" where
  "all_sound s \<longleftrightarrow> list_all sound_event (event_log (r_log s))"

interpretation sound: run_invariant "all_sound :: 'w run_state \<Rightarrow> bool"
  by unfold_locales (simp_all add: all_sound_def interrupt_def)

lemma sound_emit: "keeping all_sound (emit ports p)"
  by (rule keepingI, rule sound.emit_from [OF _ _ _ sound.quiet_invariant_axioms])
    (simp_all add: all_sound_def)

lemma sound_modify: "(\<And>s. r_log (f s) = r_log s) \<Longrightarrow> keeping all_sound (modify f)"
  by (rule keeping_modify) (simp add: all_sound_def)

lemma run_sound: "keeping all_sound (run_turn ports opts content hint)"
proof -
  have "keeping all_sound (start_turn ports opts content)"
    unfolding start_turn_def set_session_def append_message_def emit_message_def
    by (intro keeping_rules sound.keeps_in_world sound.keeps_new_message sound_emit sound_modify)
      (simp_all add: init_locals_def)
  moreover have "keeping all_sound (finish_turn ports opts)"
    unfolding finish_turn_def set_session_def emit_task_end_def Let_def
    by (intro keeping_rules sound_emit sound_modify)
      (simp_all add: note_last_turn_def split: option.split)
  ultimately show ?thesis
    unfolding run_turn_def by (intro keeping_rules sound.keeps_body)
qed

section \<open>Rows of sound events\<close>

lemma stored_parses: "sound_event e \<Longrightarrow> parse_payload (stored_row at0 e) = Some (ev_payload e)"
  by (simp add: parse_payload_def stored_row_def sound_event_def)

lemma stored_own: "sound_event e \<Longrightarrow> \<not> is_bubbled (stored_row at0 e)"
  by (simp add: is_bubbled_def stored_row_def sound_event_def truthy_def)

definition message_view :: "json message \<Rightarrow> string \<times> role \<times> json content_part list" where
  "message_view m = (msg_id m, msg_role m, msg_content m)"

definition event_view :: "json message \<Rightarrow> string \<times> role \<times> json content_part list" where
  "event_view m = (msg_id m, msg_role m, map to_event_content (msg_content m))"

definition payload_view :: "payload \<Rightarrow> string \<times> role \<times> json content_part list" where
  "payload_view p = (case p of Message_Appended i r c \<Rightarrow> (i, r, c) | _ \<Rightarrow> ([], System, []))"

lemma to_event_content_plain: "\<not> part_has_binary (to_event_content p)"
proof (induction p)
  case (Tool_Result i cs e)
  then show ?case by (auto simp: list_ex_iff)
qed (simp_all split: attachment_ref.split)

lemma own_messages:
  assumes "list_all sound_event es"
  shows "map message_view (List.map_filter (own_message date) (map (\<lambda>e. stored_row (stamp e) e) es)) =
    map payload_view (filter is_message (map ev_payload es))"
  using assms
proof (induction es)
  case (Cons e es)
  then show ?case
    by (cases "ev_payload e")
      (simp_all add: List.map_filter_simps own_message_def stored_parses stored_own is_message_def
        payload_view_def message_view_def log_message_def)
qed (simp add: List.map_filter_simps)

lemma own_usages:
  assumes "list_all sound_event es"
  shows "List.map_filter own_usage (map (\<lambda>e. stored_row (stamp e) e) es) =
    List.map_filter (\<lambda>p. case p of Turn_Completed i u x \<Rightarrow> Some u | _ \<Rightarrow> None)
      (filter is_terminal (map ev_payload es))"
  using assms
proof (induction es)
  case (Cons e es)
  then show ?case
    by (cases "ev_payload e")
      (simp_all add: List.map_filter_simps own_usage_def stored_parses stored_own is_terminal_def)
qed (simp add: List.map_filter_simps)

lemma fresh_rows_distinct:
  "distinct (map lr_id rows) \<Longrightarrow> set (map lr_id rows) \<inter> set seen = {} \<Longrightarrow> fresh_rows seen rows = rows"
  by (induction rows arbitrary: seen) auto

lemma no_snapshots:
  "list_all (\<lambda>r. lr_type r \<noteq> ''session.snapshot'') rows \<Longrightarrow> snapshot_rows rows = []"
  by (simp add: snapshot_rows_def list_all_length)

text \<open>A log without snapshots rebuilds exactly its own messages and usage.\<close>

lemma replay_plain:
  assumes "list_all (\<lambda>r. lr_type r \<noteq> ''session.snapshot'') rows" and "distinct (map lr_id rows)"
  shows "ss_messages (rp_state (replay_session_state now date sid rows opts)) =
      List.map_filter (own_message date) rows"
    "ss_usage (rp_state (replay_session_state now date sid rows opts)) =
      foldl add_usage no_usage (List.map_filter own_usage rows)"
  using assms
  by (simp_all add: replay_session_state_def Let_def no_snapshots replay_fold_messages
      replay_fold_usage fresh_rows_distinct replay_start_def create_session_def settle_all_def)

section \<open>Running, storing, replaying\<close>

lemma messages_plain:
  assumes "filter is_message (map ev_payload es) = map message_payload ms"
  shows "list_all (\<lambda>e. \<not> contains_inline_binary (ev_payload e)) es"
proof -
  have "\<not> contains_inline_binary p" if "p \<in> set (map ev_payload es)" for p
  proof (cases "is_message p")
    case True
    with that have "p \<in> set (filter is_message (map ev_payload es))" by simp
    then have "p \<in> set (map message_payload ms)" unfolding assms .
    then show ?thesis
      by (auto simp: message_payload_def contains_inline_binary_def list_ex_iff to_event_content_plain)
  qed (auto simp: is_message_def contains_inline_binary_def split: payload.splits)
  then show ?thesis by (auto simp: list_all_iff)
qed

lemma logged_rows:
  assumes sound: "list_all sound_event es" and ids: "distinct (map ev_id es)"
    and msgs: "filter is_message (map ev_payload es) = map message_payload ms"
    and rows: "store_load (sto_lines (store_all stamp es new_session_store)) = Inr rows"
  shows "map message_view (ss_messages (rp_state (replay_session_state now date sid rows opts))) = map event_view ms"
    "ss_usage (rp_state (replay_session_state now date sid rows opts)) = foldl add_usage no_usage
      (List.map_filter (\<lambda>p. case p of Turn_Completed i u x \<Rightarrow> Some u | _ \<Rightarrow> None)
        (filter is_terminal (map ev_payload es)))"
proof -
  let ?es = "filter (\<lambda>e. \<not> is_delta (ev_payload e)) es"
  have lines: "sto_lines (store_all stamp es new_session_store) = map (\<lambda>e. (1, stored_row (stamp e) e)) ?es"
    using store_all_lines [OF ids _ messages_plain [OF msgs], of new_session_store stamp]
    by (simp add: new_session_store_def)
  have eq: "rows = map (\<lambda>e. stored_row (stamp e) e) ?es"
    using rows unfolding lines by (subst (asm) store_load_rows) (simp_all add: list_all_iff comp_def)
  have sound2: "list_all sound_event ?es" using sound by (auto simp: list_all_iff)
  have names: "event_name p \<noteq> ''session.snapshot''" for p by (cases p) simp_all
  have "distinct (map ev_id ?es)" using ids by (simp add: distinct_map_filter)
  then have plain: "list_all (\<lambda>r. lr_type r \<noteq> ''session.snapshot'') rows" "distinct (map lr_id rows)"
    by (simp_all add: eq list_all_iff stored_row_def names comp_def)
  have keep: "filter is_message (map ev_payload ?es) = filter is_message (map ev_payload es)"
    "filter is_terminal (map ev_payload ?es) = filter is_terminal (map ev_payload es)"
    by (auto simp: filter_map comp_def is_message_def is_delta_def is_terminal_def
        intro!: arg_cong [where f = "map ev_payload"] filter_cong split: payload.splits)
  show "map message_view (ss_messages (rp_state (replay_session_state now date sid rows opts))) = map event_view ms"
    unfolding replay_plain [OF plain] unfolding eq own_messages [OF sound2] keep msgs
    by (simp add: message_payload_def payload_view_def event_view_def)
  show "ss_usage (rp_state (replay_session_state now date sid rows opts)) = foldl add_usage no_usage
      (List.map_filter (\<lambda>p. case p of Turn_Completed i u x \<Rightarrow> Some u | _ \<Rightarrow> None)
        (filter is_terminal (map ev_payload es)))"
    unfolding replay_plain [OF plain] unfolding eq own_usages [OF sound2] keep ..
qed



end
