(* ===== verification/Js_Path.thy ===== *)
theory Js_Path
  imports Prelude "HOL-Library.Sublist"
begin

text \<open>
  The functions of Node's \<open>path\<close> the sources use, for POSIX: a path is a string, its parts are the
  non-empty pieces between slashes, and resolving folds \<open>.\<close> and \<open>..\<close> away. The lemmas show that a
  resolved path has no dots left and that it can be taken apart again.
\<close>

definition path_parts :: "string \<Rightarrow> string list" where
  "path_parts p = filter (\<lambda>s. s \<noteq> []) (split_on CHR ''/'' p)"

definition is_absolute :: "string \<Rightarrow> bool" where
  "is_absolute p = (case p of [] \<Rightarrow> False | c # cs \<Rightarrow> c = CHR ''/'')"

definition norm_step :: "string list \<Rightarrow> string \<Rightarrow> string list" where
  "norm_step acc s = (if s = ''.'' then acc else if s = ''..'' then butlast acc else acc @ [s])"

definition norm_parts :: "string list \<Rightarrow> string list" where
  "norm_parts ps = foldl norm_step [] ps"

abbreviation join_slash :: "string list \<Rightarrow> string" where
  "join_slash \<equiv> join ''/''"

definition render_path :: "string list \<Rightarrow> string" where
  "render_path ps = CHR ''/'' # join_slash ps"

text \<open>\<open>resolve(base, path)\<close>; \<open>here\<close> is the working directory of the process, an absolute path.\<close>

definition resolve_parts :: "string \<Rightarrow> string \<Rightarrow> string \<Rightarrow> string list" where
  "resolve_parts here base path =
     norm_parts
       (if is_absolute path then path_parts path
        else if is_absolute base then path_parts base @ path_parts path
        else path_parts here @ path_parts base @ path_parts path)"

definition path_resolve :: "string \<Rightarrow> string \<Rightarrow> string \<Rightarrow> string" where
  "path_resolve here base path = render_path (resolve_parts here base path)"

fun strip_common :: "'a list \<Rightarrow> 'a list \<Rightarrow> 'a list \<times> 'a list" where
  "strip_common (x # xs) (y # ys) = (if x = y then strip_common xs ys else (x # xs, y # ys))"
| "strip_common xs ys = (xs, ys)"

text \<open>\<open>relative(from, to)\<close> between resolved paths.\<close>

definition path_relative :: "string list \<Rightarrow> string list \<Rightarrow> string" where
  "path_relative ps qs =
     (let (up, down) = strip_common ps qs in join_slash (replicate (length up) ''..'' @ down))"

section \<open>Facts\<close>

definition segment :: "string \<Rightarrow> bool" where
  "segment s \<longleftrightarrow> s \<noteq> [] \<and> CHR ''/'' \<notin> set s"

definition plain_segment :: "string \<Rightarrow> bool" where
  "plain_segment s \<longleftrightarrow> segment s \<and> s \<noteq> ''.'' \<and> s \<noteq> ''..''"

lemma path_parts_segments: "s \<in> set (path_parts p) \<Longrightarrow> segment s"
  by (auto simp: path_parts_def segment_def dest: split_on_no_sep)

lemma norm_step_plain:
  "list_all plain_segment acc \<Longrightarrow> segment s \<Longrightarrow> list_all plain_segment (norm_step acc s)"
  by (auto simp: norm_step_def plain_segment_def list_all_iff dest: in_set_butlastD)

lemma norm_fold_plain:
  "list_all plain_segment acc \<Longrightarrow> list_all segment ps \<Longrightarrow> list_all plain_segment (foldl norm_step acc ps)"
  by (induction ps arbitrary: acc) (auto intro: norm_step_plain)

lemma resolve_plain: "list_all plain_segment (resolve_parts here base path)"
  unfolding resolve_parts_def norm_parts_def
  by (rule norm_fold_plain) (auto simp: list_all_iff dest: path_parts_segments)

lemma norm_fold_id: "list_all plain_segment ps \<Longrightarrow> foldl norm_step acc ps = acc @ ps"
  by (induction ps arbitrary: acc) (auto simp: norm_step_def plain_segment_def)

lemma norm_plain: "list_all plain_segment ps \<Longrightarrow> norm_parts ps = ps"
  by (simp add: norm_parts_def norm_fold_id)

lemma path_parts_join: "list_all segment ps \<Longrightarrow> path_parts (join_slash ps) = ps"
  by (induction "''/''" ps rule: join.induct)
    (auto simp: path_parts_def split_on_append_sep split_on_no_occurrence segment_def)

lemma path_parts_render: "list_all segment ps \<Longrightarrow> path_parts (render_path ps) = ps"
  using path_parts_join by (simp add: render_path_def path_parts_def)

lemma plain_segments: "list_all plain_segment ps \<Longrightarrow> list_all segment ps"
  by (auto simp: list_all_iff plain_segment_def)

text \<open>Resolving a resolved path changes nothing.\<close>

lemma resolve_idem: "resolve_parts here base (path_resolve here' base' p) = resolve_parts here' base' p"
proof -
  let ?ps = "resolve_parts here' base' p"
  have "path_parts (path_resolve here' base' p) = ?ps"
    unfolding path_resolve_def by (rule path_parts_render [OF plain_segments [OF resolve_plain]])
  then show ?thesis
    by (simp add: resolve_parts_def [of here] path_resolve_def render_path_def is_absolute_def
        norm_plain [OF resolve_plain])
qed

lemma strip_common_spec:
  "strip_common xs ys = (up, down) \<Longrightarrow> \<exists>zs. xs = zs @ up \<and> ys = zs @ down"
proof (induction xs ys arbitrary: up down rule: strip_common.induct)
  case (1 x xs y ys)
  show ?case
  proof (cases "x = y")
    case True
    with 1 obtain zs where "xs = zs @ up" "ys = zs @ down" by auto
    with True show ?thesis by (intro exI [of _ "x # zs"]) simp
  qed (use 1 in auto)
qed auto

lemma strip_common_prefix: "strip_common xs (xs @ ys) = ([], ys)"
  by (induction xs) (cases ys, auto)

lemma join_slash_prefix: "starts_with (join_slash (x # xs)) x"
  by (cases xs) (auto simp: starts_with_iff)

text \<open>A relative path that does not climb leads into the directory.\<close>

lemma relative_inside:
  assumes "\<not> starts_with (path_relative ps qs) ''..''"
  shows "prefix ps qs"
proof -
  obtain up down where s: "strip_common ps qs = (up, down)" by (cases "strip_common ps qs")
  have "up = []"
  proof (rule ccontr)
    assume "up \<noteq> []"
    then obtain u us where "up = u # us" by (cases up) auto
    then have "starts_with (path_relative ps qs) ''..''"
      using join_slash_prefix [of "''..''"] by (simp add: path_relative_def s)
    with assms show False ..
  qed
  with strip_common_spec [OF s] show ?thesis by auto
qed

lemma relative_of_inside: "path_relative ps (ps @ qs) = join_slash qs"
  by (simp add: path_relative_def strip_common_prefix)

end
