(* ===== verification/Permission.thy ===== *)
theory Permission
  imports Js_Path Events
begin

text \<open>
  The permission manager: \<open>packages/permission/src/index.ts\<close>, \<open>path-pattern.ts\<close> and
  \<open>net-origin.ts\<close>, for POSIX paths. What the code takes from outside is the record \<open>perm_env\<close>: the
  URL parser of the runtime, the file system's \<open>realpath\<close>, the home and working directory and the
  glob matcher. The manager is a state machine: a request is decided at once or waits in the queue of
  prompts, which are shown one at a time. The key of a request is the tool and spec themselves where
  the code takes their JSON text.
\<close>

section \<open>Requests, decisions, surroundings\<close>

record fs_spec =
  fs_read :: "string list option"
  fs_write :: "string list option"

record bash_spec =
  bs_command :: string
  bs_background :: "bool option"

record net_spec =
  nt_url :: string
  nt_method :: http_method

record permission_spec =
  ps_fs :: "fs_spec option"
  ps_bash :: "bash_spec option"
  ps_net :: "net_spec option"
  ps_env :: "string list option option"
  ps_custom :: "(ustr \<times> json) list option"

record request =
  rq_tool :: string
  rq_spec :: permission_spec
  rq_cwd :: string

datatype decision_kind =
  Allow_Once | Allow_Session | Allow_All_Session | Allow_Project | Allow_Forever | Deny
  | Deny_Forever | Allow_Mcp_Server | Allow_Batch_Once | Deny_Batch

datatype deny_reason = Timed_Out_Card | Fatigue

record permission_decision =
  dc_kind :: decision_kind
  dc_reason :: "deny_reason option"

definition plain_decision :: "decision_kind \<Rightarrow> permission_decision" where
  "plain_decision k = \<lparr>dc_kind = k, dc_reason = None\<rparr>"

definition denies :: "decision_kind \<Rightarrow> bool" where
  "denies k \<longleftrightarrow> k \<in> {Deny, Deny_Forever, Deny_Batch}"

record parsed_url =
  pu_protocol :: string
  pu_hostname :: string
  pu_port :: string

record perm_env =
  pe_url :: "string \<Rightarrow> parsed_url option"
  pe_realpath :: "string list \<Rightarrow> string list option"
  pe_home :: string
  pe_here :: string
  pe_path_glob :: "string \<Rightarrow> string \<Rightarrow> bool"
  pe_command_glob :: "string \<Rightarrow> string \<Rightarrow> bool"

record rule =
  ru_tool :: string
  ru_spec :: permission_spec

section \<open>Origins, patterns and paths\<close>

definition normalize_origin :: "perm_env \<Rightarrow> string \<Rightarrow> string result" where
  "normalize_origin env url = (case pe_url env url of
     None \<Rightarrow> throw ''permission_net_url_invalid'' url
   | Some u \<Rightarrow>
       if pu_hostname u = [] then throw ''permission_net_url_invalid'' url
       else Inr (pu_protocol u @ ''//'' @ pu_hostname u @
              (if pu_port u = [] then [] else CHR '':'' # pu_port u)))"

definition expand_home :: "perm_env \<Rightarrow> string \<Rightarrow> string result" where
  "expand_home env path =
     (if path = ''~'' then Inr (pe_home env)
      else if starts_with path ''~/''
      then Inr (render_path (norm_parts (path_parts (pe_home env) @ path_parts (drop 2 path))))
      else if starts_with path ''~'' then throw ''permission_path_pattern_invalid'' path
      else Inr path)"

definition supported_pattern :: "string \<Rightarrow> bool" where
  "supported_pattern p \<longleftrightarrow> \<not> starts_with p ''!'' \<and>
     (is_absolute p \<or> p = ''~'' \<or> starts_with p ''~/'' \<or> p = ''.'' \<or> p = ''..'' \<or>
      starts_with p ''./'' \<or> starts_with p ''../'')"

text \<open>\<open>realpath\<close>, falling back to the nearest ancestor that exists.\<close>

function realpath_best_effort :: "perm_env \<Rightarrow> string list \<Rightarrow> string list" where
  "realpath_best_effort env ps =
     (case pe_realpath env ps of
        Some qs \<Rightarrow> qs
      | None \<Rightarrow> if ps = [] then []
                else norm_parts (realpath_best_effort env (butlast ps) @ [last ps]))"
  by pat_completeness auto
termination
  by (relation "measure (\<lambda>(env, ps). length ps)") auto

declare realpath_best_effort.simps [simp del]

definition canonicalize_pattern :: "perm_env \<Rightarrow> string \<Rightarrow> string \<Rightarrow> string result" where
  "canonicalize_pattern env cwd pattern =
     (if \<not> supported_pattern pattern then throw ''permission_path_pattern_invalid'' pattern
      else bind_result (expand_home env pattern) (\<lambda>p. Inr (path_resolve (pe_here env) cwd p)))"

definition canonicalize_path :: "perm_env \<Rightarrow> string \<Rightarrow> string \<Rightarrow> string result" where
  "canonicalize_path env cwd path =
     bind_result (expand_home env path) (\<lambda>p.
       Inr (render_path (realpath_best_effort env (resolve_parts (pe_here env) cwd p))))"

definition match_path :: "perm_env \<Rightarrow> string \<Rightarrow> string \<Rightarrow> string \<Rightarrow> bool result" where
  "match_path env cwd pattern path =
     bind_result (canonicalize_pattern env cwd pattern) (\<lambda>pt.
     bind_result (canonicalize_path env cwd path) (\<lambda>pa. Inr (pe_path_glob env pt pa)))"

definition in_cwd :: "perm_env \<Rightarrow> string \<Rightarrow> string \<Rightarrow> bool" where
  "in_cwd env path cwd =
     (let base = resolve_parts (pe_here env) [] cwd;
          full = (if is_absolute path then resolve_parts (pe_here env) [] path
                  else resolve_parts (pe_here env) cwd path);
          rel = path_relative base full
      in rel = [] \<or> (\<not> starts_with rel ''..'' \<and> \<not> is_absolute rel))"

section \<open>Keys and rules\<close>

text \<open>The key of a net request has the origin in place of the URL.\<close>

definition permission_key :: "perm_env \<Rightarrow> string \<Rightarrow> permission_spec \<Rightarrow> (string \<times> permission_spec) result" where
  "permission_key env tool spec = (case ps_net spec of
     None \<Rightarrow> Inr (tool, spec)
   | Some n \<Rightarrow> bind_result (normalize_origin env (nt_url n)) (\<lambda>origin.
       Inr (tool, \<lparr>ps_fs = None, ps_bash = None, ps_net = Some (n\<lparr>nt_url := origin\<rparr>), ps_env = None,
                   ps_custom = None\<rparr>)))"

definition key_of :: "perm_env \<Rightarrow> request \<Rightarrow> (string \<times> permission_spec) result" where
  "key_of env r = permission_key env (rq_tool r) (rq_spec r)"

definition has_glob :: "string \<Rightarrow> bool" where
  "has_glob s \<longleftrightarrow> list_ex (\<lambda>c. c \<in> {CHR ''*'', CHR ''?'', CHR ''[''}) s"

text \<open>\<open>trim\<close> and the split on \<open>/\s+/\<close>.\<close>

definition trim_end :: "string \<Rightarrow> string" where
  "trim_end s = rev (dropWhile is_space (rev s))"

fun words :: "string \<Rightarrow> string list" where
  "words [] = []"
| "words (c # cs) =
     (if is_space c then words cs
      else case cs of
        [] \<Rightarrow> [[c]]
      | d # ds \<Rightarrow> if is_space d then [c] # words ds
                 else (case words cs of [] \<Rightarrow> [[c]] | w # ws \<Rightarrow> (c # w) # ws))"

definition bash_command_prefix_rule :: "string \<Rightarrow> string" where
  "bash_command_prefix_rule command =
     (if words command = [] then command else join '' '' (take 2 (words command)) @ '' *'')"

definition generalize_paths :: "perm_env \<Rightarrow> string \<Rightarrow> string list \<Rightarrow> string list" where
  "generalize_paths env cwd paths =
     fold (\<lambda>p acc. if p \<in> set acc then acc else acc @ [p])
       (map (\<lambda>p. if has_glob p \<or> \<not> in_cwd env p cwd then p
                 else render_path (resolve_parts (pe_here env) [] cwd @ [''**''])) paths) []"

definition generalize_permission_spec :: "perm_env \<Rightarrow> permission_spec \<Rightarrow> string \<Rightarrow> permission_spec" where
  "generalize_permission_spec env spec cwd = (case ps_bash spec of
     Some b \<Rightarrow> spec\<lparr>ps_bash := Some (b\<lparr>bs_command := bash_command_prefix_rule (bs_command b)\<rparr>)\<rparr>
   | None \<Rightarrow> (case (ps_net spec, ps_fs spec) of
       (None, Some f) \<Rightarrow> spec\<lparr>ps_fs := Some
         \<lparr>fs_read = map_option (generalize_paths env cwd) (fs_read f),
          fs_write = map_option (generalize_paths env cwd) (fs_write f)\<rparr>\<rparr>
     | _ \<Rightarrow> spec))"

definition command_matches_prefix :: "string \<Rightarrow> string \<Rightarrow> bool" where
  "command_matches_prefix h command \<longleftrightarrow> command = h \<or> starts_with command (h @ '' '')"

definition ends_with_star :: "string \<Rightarrow> bool" where
  "ends_with_star s \<longleftrightarrow> starts_with (rev s) (rev '' *'')"

definition bash_matches :: "perm_env \<Rightarrow> bash_spec \<Rightarrow> bash_spec \<Rightarrow> bool" where
  "bash_matches env rb qb \<longleftrightarrow>
     (let rc = bs_command rb; qc = bs_command qb
      in (if ends_with_star rc then command_matches_prefix (trim_end (take (length rc - 2) rc)) qc
          else if has_glob rc then pe_command_glob env rc qc
          else rc = qc)) \<and>
     given (bs_background rb) False = given (bs_background qb) False"

definition net_matches :: "perm_env \<Rightarrow> net_spec \<Rightarrow> net_spec \<Rightarrow> bool result" where
  "net_matches env rn qn =
     bind_result (normalize_origin env (nt_url rn)) (\<lambda>a.
     bind_result (normalize_origin env (nt_url qn)) (\<lambda>b.
     Inr (a = b \<and> nt_method rn = nt_method qn)))"

definition covered :: "perm_env \<Rightarrow> string \<Rightarrow> string list option \<Rightarrow> string list option \<Rightarrow> bool" where
  "covered env cwd patterns paths \<longleftrightarrow>
     (let required = given paths []
      in required = [] \<or>
         list_all (\<lambda>p. list_ex (\<lambda>pt. match_path env cwd pt p = Inr True) (given patterns [])) required)"

definition pair_matches :: "('a \<Rightarrow> 'a \<Rightarrow> bool result) \<Rightarrow> 'a option \<Rightarrow> 'a option \<Rightarrow> bool result" where
  "pair_matches f a b = (case (a, b) of
     (None, None) \<Rightarrow> Inr True | (Some x, Some y) \<Rightarrow> f x y | _ \<Rightarrow> Inr False)"

definition permission_rule_matches :: "perm_env \<Rightarrow> rule \<Rightarrow> request \<Rightarrow> bool result" where
  "permission_rule_matches env ru r =
     (let rs = ru_spec ru; qs = rq_spec r
      in if ru_tool ru \<noteq> rq_tool r then Inr False
         else bind_result (pair_matches (\<lambda>a b. Inr (bash_matches env a b)) (ps_bash rs) (ps_bash qs)) (\<lambda>b.
         if \<not> b then Inr False
         else bind_result (pair_matches (net_matches env) (ps_net rs) (ps_net qs)) (\<lambda>n.
         Inr (n \<and>
           covered env (rq_cwd r) (Option.bind (ps_fs rs) fs_read) (Option.bind (ps_fs qs) fs_read) \<and>
           covered env (rq_cwd r) (Option.bind (ps_fs rs) fs_write) (Option.bind (ps_fs qs) fs_write) \<and>
           covered env (rq_cwd r) (Option.bind (ps_env rs) id) (Option.bind (ps_env qs) id) \<and>
           ps_custom rs = ps_custom qs))))"

section \<open>The manager\<close>

datatype session_mode = Ask_Mode | Auto_Mode | Full_Mode

datatype persist_scope = Project_Rules | Global_Rules

record perm_rules =
  pr_project_deny :: "request \<Rightarrow> bool"
  pr_global_deny :: "request \<Rightarrow> bool"
  pr_project_allow :: "request \<Rightarrow> bool"
  pr_global_allow :: "request \<Rightarrow> bool"

record perm_options =
  po_skip :: bool
  po_mode :: session_mode
  po_prompt :: bool
  po_persist :: "(persist_scope \<Rightarrow> request \<Rightarrow> bool \<Rightarrow> unit result) option"

type_synonym perm_key = "string \<times> permission_spec"

record manager =
  pm_cache :: "(perm_key, decision_kind) jsmap"
  pm_ephemeral :: "rule list"
  pm_servers :: "ustr list"
  pm_initial :: session_mode
  pm_mode :: session_mode

definition new_manager :: "perm_options \<Rightarrow> manager" where
  "new_manager opts = \<lparr>pm_cache = [], pm_ephemeral = [], pm_servers = [], pm_initial = po_mode opts,
     pm_mode = po_mode opts\<rparr>"

definition set_mode :: "session_mode \<Rightarrow> manager \<Rightarrow> manager" where
  "set_mode mode m = m\<lparr>pm_mode := mode\<rparr>"

definition grant_ephemeral :: "rule list \<Rightarrow> manager \<Rightarrow> manager" where
  "grant_ephemeral rs m = m\<lparr>pm_ephemeral := pm_ephemeral m @ rs\<rparr>"

definition clear_ephemeral :: "manager \<Rightarrow> manager" where
  "clear_ephemeral m = m\<lparr>pm_ephemeral := []\<rparr>"

definition clear_session :: "manager \<Rightarrow> manager" where
  "clear_session m = m\<lparr>pm_cache := [], pm_mode := pm_initial m\<rparr>"

definition mcp_server :: "request \<Rightarrow> ustr option" where
  "mcp_server r = (case ps_custom (rq_spec r) of
     None \<Rightarrow> None
   | Some ms \<Rightarrow> (case map_of ms (ascii ''mcpServer'') of Some (J_Str s) \<Rightarrow> Some s | _ \<Rightarrow> None))"

definition reads_of :: "request \<Rightarrow> string list" where
  "reads_of r = given (Option.bind (ps_fs (rq_spec r)) fs_read) []"

definition writes_of :: "request \<Rightarrow> string list" where
  "writes_of r = given (Option.bind (ps_fs (rq_spec r)) fs_write) []"

definition quiet_read :: "perm_env \<Rightarrow> request \<Rightarrow> bool" where
  "quiet_read env r \<longleftrightarrow> rq_tool r \<in> {''Read'', ''Grep'', ''Glob''} \<and> reads_of r \<noteq> [] \<and>
     list_all (\<lambda>p. in_cwd env p (rq_cwd r)) (reads_of r)"

definition quiet_write :: "perm_env \<Rightarrow> request \<Rightarrow> bool" where
  "quiet_write env r \<longleftrightarrow> ps_bash (rq_spec r) = None \<and> ps_net (rq_spec r) = None \<and> writes_of r \<noteq> [] \<and>
     list_all (\<lambda>p. in_cwd env p (rq_cwd r)) (writes_of r)"

definition auto_allow :: "perm_env \<Rightarrow> request \<Rightarrow> manager \<Rightarrow> bool" where
  "auto_allow env r m \<longleftrightarrow>
     starts_with (rq_tool r) ''Memory.'' \<or> quiet_read env r \<or>
     pm_mode m = Auto_Mode \<and> quiet_write env r"

text \<open>\<open>some\<close> over the ephemeral rules; a rule whose origin cannot be parsed throws.\<close>

fun some_rule :: "perm_env \<Rightarrow> rule list \<Rightarrow> request \<Rightarrow> bool result" where
  "some_rule env [] r = Inr False"
| "some_rule env (ru # rus) r =
     bind_result (permission_rule_matches env ru r) (\<lambda>b. if b then Inr True else some_rule env rus r)"

datatype verdict = Decided permission_decision | Ask_User

definition permit :: "decision_kind \<Rightarrow> manager \<Rightarrow> (verdict \<times> manager) result" where
  "permit k m = Inr (Decided (plain_decision k), m)"

text \<open>\<open>request\<close> up to the prompt; \<open>stopped\<close> tells that the signal has been aborted already.\<close>

definition check_request ::
  "perm_env \<Rightarrow> perm_rules \<Rightarrow> perm_options \<Rightarrow> request \<Rightarrow> bool \<Rightarrow> manager \<Rightarrow> (verdict \<times> manager) result"
where
  "check_request env rules opts r stopped m =
     (if pr_project_deny rules r \<or> pr_global_deny rules r then permit Deny m
      else bind_result (key_of env r) (\<lambda>k. case map_get (pm_cache m) k of
        Some kind \<Rightarrow> permit kind m
      | None \<Rightarrow>
          if (case mcp_server r of None \<Rightarrow> False | Some s \<Rightarrow> s \<in> set (pm_servers m)) then permit Allow_Session m
          else if pm_mode m = Full_Mode then permit Allow_Session m
          else bind_result (some_rule env (pm_ephemeral m) r) (\<lambda>eph.
            if eph then permit Allow_Session m
            else if pr_project_allow rules r then permit Allow_Project m
            else if pr_global_allow rules r then permit Allow_Forever m
            else if auto_allow env r m
            then permit Allow_Session (m\<lparr>pm_cache := map_set k Allow_Session (pm_cache m)\<rparr>)
            else if po_skip opts then permit Allow_Once m
            else if \<not> po_prompt opts \<or> stopped then permit Deny m
            else Inr (Ask_User, m))))"

definition remembered :: "decision_kind \<Rightarrow> bool" where
  "remembered k \<longleftrightarrow> k \<in> {Allow_Session, Allow_Project, Allow_Forever, Deny_Forever}"

definition persist ::
  "perm_options \<Rightarrow> persist_scope \<Rightarrow> request \<Rightarrow> bool \<Rightarrow> permission_decision \<Rightarrow> permission_decision result" where
  "persist opts scope r allow d = (case po_persist opts of
     None \<Rightarrow> Inr d | Some f \<Rightarrow> bind_result (f scope r allow) (\<lambda>_. Inr d))"

text \<open>What the user answered is remembered and normalised.\<close>

definition record_decision ::
  "perm_env \<Rightarrow> perm_options \<Rightarrow> request \<Rightarrow> permission_decision \<Rightarrow> manager \<Rightarrow>
     permission_decision result \<times> manager" where
  "record_decision env opts r d m =
     (let kind = dc_kind d
      in case (if remembered kind then bind_result (key_of env r) (\<lambda>k. Inr (Some k)) else Inr None) of
        Inl e \<Rightarrow> (Inl e, m)
      | Inr slot \<Rightarrow>
          let m1 = (case slot of None \<Rightarrow> m | Some k \<Rightarrow> m\<lparr>pm_cache := map_set k kind (pm_cache m)\<rparr>);
              m2 = (if kind = Allow_All_Session then m1\<lparr>pm_mode := Full_Mode\<rparr> else m1)
          in if kind = Allow_Mcp_Server
             then (Inr (plain_decision Allow_Session), case mcp_server r of
                     None \<Rightarrow> m2 | Some s \<Rightarrow> m2\<lparr>pm_servers := List.insert s (pm_servers m2)\<rparr>)
             else if kind = Allow_Batch_Once then (Inr (plain_decision Allow_Once), m2)
             else if kind = Deny_Batch then (Inr (plain_decision Deny), m2)
             else if kind = Allow_Project then (persist opts Project_Rules r True d, m2)
             else if kind = Allow_Forever then (persist opts Global_Rules r True d, m2)
             else if kind = Deny_Forever then (persist opts Global_Rules r False d, m2)
             else (Inr d, m2))"

text \<open>\<open>requestAndExecute\<close> after the decision.\<close>

definition execute_permitted :: "request \<Rightarrow> permission_decision \<Rightarrow> 'a result \<Rightarrow> 'a result" where
  "execute_permitted r d operation =
     (if denies (dc_kind d)
      then (if dc_reason d = Some Timed_Out_Card then throw ''permission_timeout'' (rq_tool r)
            else if dc_reason d = Some Fatigue then throw ''mcp_fatigue_rate_limited'' (rq_tool r)
            else throw ''permission_denied'' (rq_tool r))
      else operation)"

section \<open>Requests over time\<close>

text \<open>
  The manager with its queue of prompts. \<open>Begin\<close> is the start of the task at the head of the queue,
  \<open>Answer\<close> the end of its prompt, \<open>Fail\<close> a prompt that throws (the queue goes on), \<open>Abort\<close> the abort
  of the signal of a request. The requests made,
  the events and the answers given are kept beside the state; no step reads them.
\<close>

datatype perm_event =
  Request request bool | Begin | Answer permission_decision | Fail volund_error | Abort nat | Mode session_mode
  | Clear_Session | Grant "rule list" | Clear_Ephemeral

record perm_system =
  sy_manager :: manager
  sy_queue :: "(nat \<times> request \<times> bool) list"
  sy_aborted :: "nat list"
  sy_decided :: "(nat \<times> permission_decision result) list"
  sy_requests :: "request list"
  sy_answers :: "(request \<times> permission_decision) list"
  sy_events :: "perm_event list"

definition new_system :: "perm_options \<Rightarrow> perm_system" where
  "new_system opts = \<lparr>sy_manager = new_manager opts, sy_queue = [], sy_aborted = [], sy_decided = [],
     sy_requests = [], sy_answers = [], sy_events = []\<rparr>"

definition do_request ::
  "perm_env \<Rightarrow> perm_rules \<Rightarrow> perm_options \<Rightarrow> request \<Rightarrow> bool \<Rightarrow> perm_system \<Rightarrow> perm_system" where
  "do_request env rules opts r stopped sy =
     (let i = length (sy_requests sy); sy1 = sy\<lparr>sy_requests := sy_requests sy @ [r]\<rparr>
      in case check_request env rules opts r stopped (sy_manager sy) of
        Inl e \<Rightarrow> sy1\<lparr>sy_decided := sy_decided sy @ [(i, Inl e)]\<rparr>
      | Inr (Decided d, m) \<Rightarrow> sy1\<lparr>sy_manager := m, sy_decided := sy_decided sy @ [(i, Inr d)]\<rparr>
      | Inr (Ask_User, m) \<Rightarrow> sy1\<lparr>sy_manager := m, sy_queue := sy_queue sy @ [(i, r, False)]\<rparr>)"

definition do_begin :: "perm_system \<Rightarrow> perm_system" where
  "do_begin sy = (case sy_queue sy of
     (i, r, False) # q \<Rightarrow>
       if i \<in> set (sy_aborted sy)
       then sy\<lparr>sy_queue := q, sy_decided := sy_decided sy @ [(i, Inr (plain_decision Deny))]\<rparr>
       else sy\<lparr>sy_queue := (i, r, True) # q\<rparr>
   | _ \<Rightarrow> sy)"

definition do_answer :: "perm_env \<Rightarrow> perm_options \<Rightarrow> permission_decision \<Rightarrow> perm_system \<Rightarrow> perm_system" where
  "do_answer env opts d sy = (case sy_queue sy of
     (i, r, True) # q \<Rightarrow>
       let (res, m) = record_decision env opts r d (sy_manager sy)
       in sy\<lparr>sy_manager := m, sy_queue := q, sy_decided := sy_decided sy @ [(i, res)],
             sy_answers := sy_answers sy @ [(r, d)]\<rparr>
   | _ \<Rightarrow> sy)"

definition do_fail :: "volund_error \<Rightarrow> perm_system \<Rightarrow> perm_system" where
  "do_fail e sy = (case sy_queue sy of
     (i, r, True) # q \<Rightarrow> sy\<lparr>sy_queue := q, sy_decided := sy_decided sy @ [(i, Inl e)]\<rparr>
   | _ \<Rightarrow> sy)"

definition change_manager :: "(manager \<Rightarrow> manager) \<Rightarrow> perm_system \<Rightarrow> perm_system" where
  "change_manager f sy = sy\<lparr>sy_manager := f (sy_manager sy)\<rparr>"

fun perm_effect ::
  "perm_env \<Rightarrow> perm_rules \<Rightarrow> perm_options \<Rightarrow> perm_event \<Rightarrow> perm_system \<Rightarrow> perm_system" where
  "perm_effect env rules opts (Request r stopped) sy = do_request env rules opts r stopped sy"
| "perm_effect env rules opts Begin sy = do_begin sy"
| "perm_effect env rules opts (Answer d) sy = do_answer env opts d sy"
| "perm_effect env rules opts (Fail e) sy = do_fail e sy"
| "perm_effect env rules opts (Abort i) sy = sy\<lparr>sy_aborted := i # sy_aborted sy\<rparr>"
| "perm_effect env rules opts (Mode mode) sy = change_manager (set_mode mode) sy"
| "perm_effect env rules opts Clear_Session sy = change_manager clear_session sy"
| "perm_effect env rules opts (Grant rs) sy = change_manager (grant_ephemeral rs) sy"
| "perm_effect env rules opts Clear_Ephemeral sy = change_manager clear_ephemeral sy"

definition perm_step ::
  "perm_env \<Rightarrow> perm_rules \<Rightarrow> perm_options \<Rightarrow> perm_system \<Rightarrow> perm_event \<Rightarrow> perm_system" where
  "perm_step env rules opts sy e = perm_effect env rules opts e (sy\<lparr>sy_events := sy_events sy @ [e]\<rparr>)"

definition perm_run ::
  "perm_env \<Rightarrow> perm_rules \<Rightarrow> perm_options \<Rightarrow> perm_event list \<Rightarrow> perm_system" where
  "perm_run env rules opts es = foldl (perm_step env rules opts) (new_system opts) es"

end
