(* ===== verification/Permission_Safety.thy ===== *)
theory Permission_Safety
  imports Permission
begin

text \<open>
  What holds in every run of the permission manager: each request is decided at most once
  (\<open>booked\<close>), and whatever the manager holds that can allow a request was put there by an answer of
  the user, a mode, a granted rule or a request that is allowed silently (\<open>founded\<close>). Both are
  invariants of the steps, through the locale \<open>invariant_machine\<close>.
\<close>

section \<open>Every request is decided once\<close>

definition booked ::
  "(nat \<times> 'a) list \<Rightarrow> (nat \<times> request \<times> bool) list \<Rightarrow> request list \<Rightarrow> bool" where
  "booked ds q rs \<longleftrightarrow> distinct (map fst ds @ map fst q) \<and>
     set (map fst ds) \<union> set (map fst q) = {..<length rs} \<and> sorted_wrt (<) (map fst q) \<and>
     (\<forall>(i, r, b) \<in> set q. i < length rs \<and> rs ! i = r)"

abbreviation accounted :: "perm_system \<Rightarrow> bool" where
  "accounted sy \<equiv> booked (sy_decided sy) (sy_queue sy) (sy_requests sy)"

lemma booked_fresh: "booked ds q rs \<Longrightarrow> length rs \<notin> fst ` set ds \<and> length rs \<notin> fst ` set q"
  unfolding booked_def set_map by blast

lemma booked_decide: "booked ds q rs \<Longrightarrow> booked (ds @ [(length rs, d)]) q (rs @ [r])"
  using booked_fresh [of ds q rs] by (fastforce simp: booked_def nth_append lessThan_Suc sorted_wrt_append)

lemma booked_ask: "booked ds q rs \<Longrightarrow> booked ds (q @ [(length rs, r, b)]) (rs @ [r])"
  using booked_fresh [of ds q rs] by (fastforce simp: booked_def nth_append lessThan_Suc sorted_wrt_append)

lemma booked_pop: "booked ds ((i, r, b) # q) rs \<Longrightarrow> booked (ds @ [(i, d)]) q rs"
  by (auto simp: booked_def)

lemma booked_start: "booked ds ((i, r, b) # q) rs \<Longrightarrow> booked ds ((i, r, c) # q) rs"
  by (auto simp: booked_def)

lemmas system_steps = perm_step_def do_request_def do_begin_def do_answer_def do_fail_def change_manager_def Let_def

lemma step_accounted: "accounted sy \<Longrightarrow> accounted (perm_step env rules opts sy e)"
  by (cases e) (auto simp: system_steps split: sum.split verdict.split prod.split list.split bool.split
      intro: booked_decide booked_ask booked_pop booked_start)

interpretation psys: invariant_machine "perm_step env rules opts" accounted for env rules opts
  by unfold_locales (rule step_accounted)

lemma run_accounted: "accounted (perm_run env rules opts es)"
  unfolding perm_run_def by (rule psys.run_good) (simp add: new_system_def booked_def)

section \<open>Why a request is allowed\<close>

definition full_reason :: "perm_options \<Rightarrow> perm_event set \<Rightarrow> (request \<times> permission_decision) set \<Rightarrow> bool" where
  "full_reason opts E A \<longleftrightarrow> po_mode opts = Full_Mode \<or> Mode Full_Mode \<in> E \<or>
     (\<exists>r d. (r, d) \<in> A \<and> dc_kind d = Allow_All_Session)"

definition auto_reason :: "perm_options \<Rightarrow> perm_event set \<Rightarrow> bool" where
  "auto_reason opts E \<longleftrightarrow> po_mode opts = Auto_Mode \<or> Mode Auto_Mode \<in> E"

text \<open>What the manager may allow without being told: memory, reads inside the working directory and,
  once the session has been in the automatic mode, writes inside it.\<close>

definition silent :: "perm_env \<Rightarrow> perm_options \<Rightarrow> perm_event set \<Rightarrow> request \<Rightarrow> bool" where
  "silent env opts E r \<longleftrightarrow> starts_with (rq_tool r) ''Memory.'' \<or> quiet_read env r \<or>
     auto_reason opts E \<and> quiet_write env r"

definition key_allowed ::
  "perm_env \<Rightarrow> perm_options \<Rightarrow> perm_event set \<Rightarrow> request set \<Rightarrow> (request \<times> permission_decision) set \<Rightarrow>
     perm_key \<Rightarrow> bool" where
  "key_allowed env opts E R A k \<longleftrightarrow>
     (\<exists>r d. (r, d) \<in> A \<and> \<not> denies (dc_kind d) \<and> key_of env r = Inr k) \<or>
     (\<exists>r \<in> R. key_of env r = Inr k \<and> silent env opts E r)"

definition server_allowed :: "(request \<times> permission_decision) set \<Rightarrow> ustr \<Rightarrow> bool" where
  "server_allowed A s \<longleftrightarrow> (\<exists>r d. (r, d) \<in> A \<and> dc_kind d = Allow_Mcp_Server \<and> mcp_server r = Some s)"

definition granted_rule :: "perm_event set \<Rightarrow> rule \<Rightarrow> bool" where
  "granted_rule E ru \<longleftrightarrow> (\<exists>rus. Grant rus \<in> E \<and> ru \<in> set rus)"

definition justified ::
  "perm_env \<Rightarrow> perm_rules \<Rightarrow> perm_options \<Rightarrow> perm_event set \<Rightarrow> request set \<Rightarrow>
     (request \<times> permission_decision) set \<Rightarrow> request \<Rightarrow> bool" where
  "justified env rules opts E R A r \<longleftrightarrow>
     pr_project_allow rules r \<or> pr_global_allow rules r \<or> po_skip opts \<or> full_reason opts E A \<or>
     (\<exists>k. key_of env r = Inr k \<and> key_allowed env opts E R A k) \<or>
     (\<exists>s. mcp_server r = Some s \<and> server_allowed A s) \<or>
     (\<exists>ru. granted_rule E ru \<and> permission_rule_matches env ru r = Inr True) \<or>
     (\<exists>d. (r, d) \<in> A \<and> \<not> denies (dc_kind d))"

definition founded ::
  "perm_env \<Rightarrow> perm_options \<Rightarrow> perm_event set \<Rightarrow> request set \<Rightarrow> (request \<times> permission_decision) set \<Rightarrow>
     manager \<Rightarrow> bool" where
  "founded env opts E R A m \<longleftrightarrow>
     (\<forall>k kind. map_get (pm_cache m) k = Some kind \<longrightarrow> \<not> denies kind \<longrightarrow> key_allowed env opts E R A k) \<and>
     (\<forall>s \<in> set (pm_servers m). server_allowed A s) \<and> pm_initial m = po_mode opts \<and>
     (pm_mode m = Full_Mode \<longrightarrow> full_reason opts E A) \<and> (pm_mode m = Auto_Mode \<longrightarrow> auto_reason opts E) \<and>
     (\<forall>ru \<in> set (pm_ephemeral m). granted_rule E ru)"

lemmas reason_defs = full_reason_def auto_reason_def silent_def key_allowed_def server_allowed_def
  granted_rule_def

lemma key_allowed_mono:
  "key_allowed env opts E R A k \<Longrightarrow> E \<subseteq> E' \<Longrightarrow> R \<subseteq> R' \<Longrightarrow> A \<subseteq> A' \<Longrightarrow> key_allowed env opts E' R' A' k"
  unfolding key_allowed_def silent_def auto_reason_def by blast

lemma reasons_mono:
  "full_reason opts E A \<Longrightarrow> E \<subseteq> E' \<Longrightarrow> A \<subseteq> A' \<Longrightarrow> full_reason opts E' A'"
  "auto_reason opts E \<Longrightarrow> E \<subseteq> E' \<Longrightarrow> auto_reason opts E'"
  "server_allowed A s \<Longrightarrow> A \<subseteq> A' \<Longrightarrow> server_allowed A' s"
  "granted_rule E ru \<Longrightarrow> E \<subseteq> E' \<Longrightarrow> granted_rule E' ru"
  unfolding full_reason_def auto_reason_def server_allowed_def granted_rule_def by blast+

lemma justified_mono:
  "justified env rules opts E R A r \<Longrightarrow> E \<subseteq> E' \<Longrightarrow> R \<subseteq> R' \<Longrightarrow> A \<subseteq> A' \<Longrightarrow>
     justified env rules opts E' R' A' r"
  unfolding justified_def by (meson key_allowed_mono reasons_mono subset_eq)

lemma founded_mono:
  "founded env opts E R A m \<Longrightarrow> E \<subseteq> E' \<Longrightarrow> R \<subseteq> R' \<Longrightarrow> A \<subseteq> A' \<Longrightarrow> founded env opts E' R' A' m"
  unfolding founded_def by (meson key_allowed_mono reasons_mono)

lemma some_rule_True: "some_rule env rus r = Inr True \<Longrightarrow> \<exists>ru \<in> set rus. permission_rule_matches env ru r = Inr True"
  by (induction rus) (auto simp: bind_result_Inr_iff split: if_splits)

lemma check_outcomes:
  assumes "check_request env rules opts r stopped m = Inr (v, m')"
  shows "m' = m \<and> v = Decided (plain_decision Deny) \<or> m' = m \<and> v = Ask_User \<or>
    (\<exists>k kind. key_of env r = Inr k \<and> map_get (pm_cache m) k = Some kind \<and> m' = m \<and>
      v = Decided (plain_decision kind)) \<or>
    (\<exists>s. mcp_server r = Some s \<and> s \<in> set (pm_servers m) \<and> m' = m) \<or>
    pm_mode m = Full_Mode \<and> m' = m \<or>
    (\<exists>ru \<in> set (pm_ephemeral m). permission_rule_matches env ru r = Inr True \<and> m' = m) \<or>
    (pr_project_allow rules r \<or> pr_global_allow rules r \<or> po_skip opts) \<and> m' = m \<or>
    (\<exists>k. key_of env r = Inr k \<and> auto_allow env r m \<and>
      m' = m\<lparr>pm_cache := map_set k Allow_Session (pm_cache m)\<rparr>)"
  using assms unfolding check_request_def permit_def
  by (auto simp: bind_result_Inr_iff simp del: split_paired_Ex dest!: some_rule_True split: if_splits option.splits)

lemma check_cases:
  assumes "check_request env rules opts r stopped m = Inr (v, m')"
  obtains
    (denied) "m' = m" "v = Decided (plain_decision Deny)"
  | (ask) "m' = m" "v = Ask_User"
  | (cached) k kind where "key_of env r = Inr k" "map_get (pm_cache m) k = Some kind" "m' = m"
      "v = Decided (plain_decision kind)"
  | (server) s where "mcp_server r = Some s" "s \<in> set (pm_servers m)" "m' = m"
  | (full) "pm_mode m = Full_Mode" "m' = m"
  | (ephemeral) ru where "ru \<in> set (pm_ephemeral m)" "permission_rule_matches env ru r = Inr True" "m' = m"
  | (configured) "pr_project_allow rules r \<or> pr_global_allow rules r \<or> po_skip opts" "m' = m"
  | (auto) k where "key_of env r = Inr k" "auto_allow env r m"
      "m' = m\<lparr>pm_cache := map_set k Allow_Session (pm_cache m)\<rparr>"
  using check_outcomes [OF assms] by blast

lemma foundedD:
  assumes "founded env opts E R A m"
  shows "map_get (pm_cache m) k = Some kind \<Longrightarrow> \<not> denies kind \<Longrightarrow> key_allowed env opts E R A k"
    "s \<in> set (pm_servers m) \<Longrightarrow> server_allowed A s" "pm_initial m = po_mode opts"
    "pm_mode m = Full_Mode \<Longrightarrow> full_reason opts E A" "pm_mode m = Auto_Mode \<Longrightarrow> auto_reason opts E"
    "ru \<in> set (pm_ephemeral m) \<Longrightarrow> granted_rule E ru"
  using assms unfolding founded_def by blast+

lemma foundedI:
  assumes "\<And>k kind. map_get (pm_cache m) k = Some kind \<Longrightarrow> \<not> denies kind \<Longrightarrow> key_allowed env opts E R A k"
    "\<And>s. s \<in> set (pm_servers m) \<Longrightarrow> server_allowed A s" "pm_initial m = po_mode opts"
    "pm_mode m = Full_Mode \<Longrightarrow> full_reason opts E A" "pm_mode m = Auto_Mode \<Longrightarrow> auto_reason opts E"
    "\<And>ru. ru \<in> set (pm_ephemeral m) \<Longrightarrow> granted_rule E ru"
  shows "founded env opts E R A m"
  using assms unfolding founded_def by blast

lemma auto_silent:
  "founded env opts E R A m \<Longrightarrow> auto_allow env r m \<Longrightarrow> silent env opts E r"
  by (auto simp: founded_def auto_allow_def silent_def)

lemma check_founded:
  assumes "founded env opts E R A m" and "check_request env rules opts r stopped m = Inr (v, m')"
  shows "founded env opts E (insert r R) A m'"
proof -
  have m: "founded env opts E (insert r R) A m" by (rule founded_mono [OF assms(1)]) auto
  from assms(2) show ?thesis
  proof (cases rule: check_cases)
    case (auto k)
    have k: "key_allowed env opts E (insert r R) A k"
      using auto(1) auto_silent [OF assms(1) auto(2)] by (auto simp: key_allowed_def)
    show ?thesis unfolding auto(3)
      by (rule foundedI) (use foundedD [OF m] k in \<open>auto simp: map_get_set split: if_splits\<close>)
  qed (use m in simp_all)
qed

lemma check_justified:
  assumes "founded env opts E R A m" and "check_request env rules opts r stopped m = Inr (Decided d, m')"
    and "\<not> denies (dc_kind d)"
  shows "justified env rules opts E (insert r R) A r"
proof -
  have m: "founded env opts E (insert r R) A m" by (rule founded_mono [OF assms(1)]) auto
  from assms(2) show ?thesis
  proof (cases rule: check_cases)
    case denied
    then show ?thesis using assms(3) by (simp add: plain_decision_def denies_def)
  next
    case (cached k kind)
    have "\<not> denies kind" using cached(4) assms(3) by (simp add: plain_decision_def)
    with foundedD(1) [OF m cached(2)] cached(1) show ?thesis unfolding justified_def by blast
  next
    case (auto k)
    have "key_allowed env opts E (insert r R) A k"
      using auto(1) auto_silent [OF assms(1) auto(2)] by (auto simp: key_allowed_def)
    with auto(1) show ?thesis unfolding justified_def by blast
  next
    case (server s)
    with foundedD(2) [OF m] show ?thesis unfolding justified_def by blast
  next
    case full
    with foundedD(4) [OF m] show ?thesis unfolding justified_def by blast
  next
    case (ephemeral ru)
    with foundedD(6) [OF m] show ?thesis unfolding justified_def by blast
  next
    case configured
    then show ?thesis unfolding justified_def by blast
  qed simp
qed

lemma record_manager:
  assumes "record_decision env opts r d m = (res, m')"
  shows "pm_cache m' = pm_cache m \<or> (\<exists>k. key_of env r = Inr k \<and> pm_cache m' = map_set k (dc_kind d) (pm_cache m))"
    "set (pm_servers m') \<subseteq> set (pm_servers m) \<or> dc_kind d = Allow_Mcp_Server \<and>
       (\<exists>s. mcp_server r = Some s \<and> set (pm_servers m') = insert s (set (pm_servers m)))"
    "pm_mode m' = pm_mode m \<or> pm_mode m' = Full_Mode \<and> dc_kind d = Allow_All_Session"
    "pm_initial m' = pm_initial m" "pm_ephemeral m' = pm_ephemeral m"
  using assms
  by (auto simp: record_decision_def Let_def bind_result_def
      split: if_splits sum.splits option.splits)

lemma record_founded:
  assumes "founded env opts E R A m" and "record_decision env opts r d m = (res, m')"
  shows "founded env opts E R (insert (r, d) A) m'"
proof -
  have m: "founded env opts E R (insert (r, d) A) m" by (rule founded_mono [OF assms(1)]) auto
  note spec = record_manager [OF assms(2)]
  show ?thesis
  proof (rule foundedI)
    fix k kind assume k: "map_get (pm_cache m') k = Some kind" "\<not> denies kind"
    show "key_allowed env opts E R (insert (r, d) A) k"
    proof (cases "map_get (pm_cache m) k = Some kind")
      case False
      with spec(1) k have "key_of env r = Inr k" "kind = dc_kind d"
        by (auto simp: map_get_set split: if_splits)
      with k(2) show ?thesis by (auto simp: key_allowed_def)
    qed (use foundedD(1) [OF m] k in blast)
  next
    fix s assume s: "s \<in> set (pm_servers m')"
    show "server_allowed (insert (r, d) A) s"
    proof (cases "s \<in> set (pm_servers m)")
      case False
      with spec(2) s have "dc_kind d = Allow_Mcp_Server" "mcp_server r = Some s" by auto
      then show ?thesis unfolding server_allowed_def by blast
    qed (rule foundedD(2) [OF m])
  next
    assume "pm_mode m' = Full_Mode"
    with spec(3) foundedD(4) [OF m] show "full_reason opts E (insert (r, d) A)"
      by (auto simp: full_reason_def)
  next
    assume "pm_mode m' = Auto_Mode"
    with spec(3) foundedD(5) [OF m] show "auto_reason opts E" by auto
  qed (use spec(4,5) foundedD(3,6) [OF m] in auto)
qed

lemma record_allows:
  "record_decision env opts r d m = (Inr d', m') \<Longrightarrow> denies (dc_kind d') = denies (dc_kind d)"
  by (auto simp: record_decision_def Let_def persist_def plain_decision_def denies_def bind_result_Inr_iff
      split: if_splits sum.splits option.splits)

definition all_justified ::
  "perm_env \<Rightarrow> perm_rules \<Rightarrow> perm_options \<Rightarrow> perm_event set \<Rightarrow> (request \<times> permission_decision) set \<Rightarrow>
     request list \<Rightarrow> (nat \<times> permission_decision result) list \<Rightarrow> bool" where
  "all_justified env rules opts E A rs ds \<longleftrightarrow>
     (\<forall>i d. (i, Inr d) \<in> set ds \<longrightarrow> \<not> denies (dc_kind d) \<longrightarrow> i < length rs \<and>
        justified env rules opts E (set rs) A (rs ! i))"

definition sound_system :: "perm_env \<Rightarrow> perm_rules \<Rightarrow> perm_options \<Rightarrow> perm_system \<Rightarrow> bool" where
  "sound_system env rules opts sy \<longleftrightarrow> accounted sy \<and>
     founded env opts (set (sy_events sy)) (set (sy_requests sy)) (set (sy_answers sy)) (sy_manager sy) \<and>
     all_justified env rules opts (set (sy_events sy)) (set (sy_answers sy)) (sy_requests sy) (sy_decided sy)"

lemma all_justified_mono:
  assumes "all_justified env rules opts E A rs ds" and "E \<subseteq> E'" and "A \<subseteq> A'" and "\<exists>xs. rs' = rs @ xs"
  shows "all_justified env rules opts E' A' rs' ds"
  using assms justified_mono [where E' = E' and A' = A' and R' = "set rs'"]
  unfolding all_justified_def by (fastforce simp: nth_append)

lemma soundI:
  "accounted sy \<Longrightarrow>
   founded env opts (set (sy_events sy)) (set (sy_requests sy)) (set (sy_answers sy)) (sy_manager sy) \<Longrightarrow>
   all_justified env rules opts (set (sy_events sy)) (set (sy_answers sy)) (sy_requests sy) (sy_decided sy) \<Longrightarrow>
   sound_system env rules opts sy"
  by (simp add: sound_system_def)

lemma all_justified_snoc:
  "all_justified env rules opts E A rs ds \<Longrightarrow>
   (\<And>d. res = Inr d \<Longrightarrow> \<not> denies (dc_kind d) \<Longrightarrow> i < length rs \<and> justified env rules opts E (set rs) A (rs ! i)) \<Longrightarrow>
   all_justified env rules opts E A rs (ds @ [(i, res)])"
  by (auto simp: all_justified_def)

lemma sound_event_noted:
  "sound_system env rules opts sy \<Longrightarrow> sound_system env rules opts (sy\<lparr>sy_events := sy_events sy @ [e]\<rparr>)"
  unfolding sound_system_def
  by (auto intro: founded_mono all_justified_mono [where E = "set (sy_events sy)"])

lemma request_sound:
  assumes s: "sound_system env rules opts sy"
  shows "sound_system env rules opts (do_request env rules opts r stopped sy)"
proof -
  let ?E = "set (sy_events sy)" and ?A = "set (sy_answers sy)" and ?rs = "sy_requests sy"
  have s: "accounted sy" "founded env opts ?E (set ?rs) ?A (sy_manager sy)"
    "all_justified env rules opts ?E ?A ?rs (sy_decided sy)" using s by (simp_all add: sound_system_def)
  have j: "all_justified env rules opts ?E ?A (?rs @ [r]) (sy_decided sy)"
    by (rule all_justified_mono [OF s(3)]) auto
  have acc: "accounted (do_request env rules opts r stopped sy)"
    using s(1) by (auto simp: do_request_def Let_def split: sum.split verdict.split prod.split
        intro: booked_decide booked_ask)
  show ?thesis
  proof (cases "check_request env rules opts r stopped (sy_manager sy)")
    case (Inl e)
    have "founded env opts ?E (insert r (set ?rs)) ?A (sy_manager sy)" by (rule founded_mono [OF s(2)]) auto
    then show ?thesis
      using acc Inl all_justified_snoc [OF j] by (intro soundI) (auto simp: do_request_def Let_def)
  next
    case (Inr vm)
    obtain v m where vm: "vm = (v, m)" by (cases vm)
    have f: "founded env opts ?E (insert r (set ?rs)) ?A m"
      by (rule check_founded [OF s(2) Inr [unfolded vm]])
    show ?thesis
    proof (cases v)
      case (Decided d)
      have "all_justified env rules opts ?E ?A (?rs @ [r]) (sy_decided sy @ [(length ?rs, Inr d)])"
        by (rule all_justified_snoc [OF j])
          (use check_justified [OF s(2) Inr [unfolded vm Decided]] in auto)
      then show ?thesis
        using acc Inr vm Decided f by (intro soundI) (auto simp: do_request_def Let_def)
    next
      case Ask_User
      then show ?thesis
        using acc Inr vm f j by (intro soundI) (auto simp: do_request_def Let_def)
    qed
  qed
qed

lemma begin_sound:
  assumes s: "sound_system env rules opts sy"
  shows "sound_system env rules opts (do_begin sy)"
proof -
  have acc: "accounted (do_begin sy)"
    using s by (auto simp: sound_system_def do_begin_def split: list.split bool.split prod.split
        intro: booked_pop booked_start)
  show ?thesis
    using s by (intro soundI [OF acc]) (auto simp: sound_system_def do_begin_def plain_decision_def denies_def
        intro!: all_justified_snoc split: list.split bool.split)
qed

lemma fail_sound:
  assumes s: "sound_system env rules opts sy"
  shows "sound_system env rules opts (do_fail e sy)"
proof -
  have acc: "accounted (do_fail e sy)"
    using s by (auto simp: sound_system_def do_fail_def split: list.split bool.split prod.split intro: booked_pop)
  show ?thesis
    using s by (intro soundI [OF acc]) (auto simp: sound_system_def do_fail_def
        intro!: all_justified_snoc split: list.split bool.split)
qed

lemma answer_sound:
  assumes s: "sound_system env rules opts sy"
  shows "sound_system env rules opts (do_answer env opts d sy)"
proof (cases "\<exists>i r q. sy_queue sy = (i, r, True) # q")
  case True
  then obtain i r q where q: "sy_queue sy = (i, r, True) # q" by blast
  obtain res m where rec: "record_decision env opts r d (sy_manager sy) = (res, m)"
    by (cases "record_decision env opts r d (sy_manager sy)")
  let ?E = "set (sy_events sy)" and ?A = "set (sy_answers sy)" and ?rs = "sy_requests sy"
  have sy: "accounted sy" "founded env opts ?E (set ?rs) ?A (sy_manager sy)"
    "all_justified env rules opts ?E ?A ?rs (sy_decided sy)" using s by (simp_all add: sound_system_def)
  have ir: "i < length ?rs" "?rs ! i = r" using sy(1) q by (auto simp: booked_def)
  have "all_justified env rules opts ?E (insert (r, d) ?A) ?rs (sy_decided sy)"
    by (rule all_justified_mono [OF sy(3)]) auto
  then have "all_justified env rules opts ?E (insert (r, d) ?A) ?rs (sy_decided sy @ [(i, res)])"
  proof (rule all_justified_snoc)
    fix d' assume "res = Inr d'" "\<not> denies (dc_kind d')"
    with record_allows rec have "\<not> denies (dc_kind d)" by blast
    then show "i < length ?rs \<and> justified env rules opts ?E (set ?rs) (insert (r, d) ?A) (?rs ! i)"
      using ir by (auto simp: justified_def)
  qed
  with record_founded [OF sy(2) rec] booked_pop sy(1) show ?thesis
    by (intro soundI) (auto simp: do_answer_def q rec intro: booked_pop)
next
  case False
  then have "do_answer env opts d sy = sy"
    by (auto simp: do_answer_def split: list.split bool.split)
  with s show ?thesis by simp
qed

lemma manager_sound:
  assumes "sound_system env rules opts sy"
    and "\<And>R A. founded env opts (set (sy_events sy)) R A (sy_manager sy) \<Longrightarrow>
      founded env opts (set (sy_events sy)) R A (f (sy_manager sy))"
  shows "sound_system env rules opts (change_manager f sy)"
  using assms by (simp add: sound_system_def change_manager_def)

lemma step_sound:
  assumes "sound_system env rules opts sy"
  shows "sound_system env rules opts (perm_step env rules opts sy e)"
proof -
  let ?sy = "sy\<lparr>sy_events := sy_events sy @ [e]\<rparr>"
  have s: "sound_system env rules opts ?sy" by (rule sound_event_noted [OF assms])
  show ?thesis
  proof (cases e)
    case (Mode mode)
    have "sound_system env rules opts (change_manager (set_mode mode) ?sy)"
      by (rule manager_sound [OF s])
        (auto simp: founded_def set_mode_def full_reason_def auto_reason_def Mode)
    then show ?thesis by (simp add: perm_step_def Mode)
  next
    case Clear_Session
    have "sound_system env rules opts (change_manager clear_session ?sy)"
      by (rule manager_sound [OF s])
        (auto simp: founded_def clear_session_def full_reason_def auto_reason_def)
    then show ?thesis by (simp add: perm_step_def Clear_Session)
  next
    case (Grant rs)
    have "sound_system env rules opts (change_manager (grant_ephemeral rs) ?sy)"
      by (rule manager_sound [OF s]) (auto simp: founded_def grant_ephemeral_def granted_rule_def Grant)
    then show ?thesis by (simp add: perm_step_def Grant)
  next
    case Clear_Ephemeral
    have "sound_system env rules opts (change_manager clear_ephemeral ?sy)"
      by (rule manager_sound [OF s]) (auto simp: founded_def clear_ephemeral_def)
    then show ?thesis by (simp add: perm_step_def Clear_Ephemeral)
  next
    case (Abort i)
    then show ?thesis using s by (simp add: perm_step_def sound_system_def)
  qed (use s request_sound begin_sound fail_sound answer_sound in \<open>auto simp: perm_step_def\<close>)
qed

interpretation pjust: invariant_machine "perm_step env rules opts" "sound_system env rules opts"
  for env rules opts
  by unfold_locales (rule step_sound)

lemma perm_run_sound: "sound_system env rules opts (perm_run env rules opts es)"
  unfolding perm_run_def
  by (rule pjust.run_good)
    (auto simp: sound_system_def new_system_def new_manager_def booked_def founded_def all_justified_def
      full_reason_def auto_reason_def)

end
