(* ===== verification/Permission_Claims.thy ===== *)
theory Permission_Claims
  imports Permission_Safety
begin

text \<open>
  The properties of the permission manager, over every run of \<open>perm_run\<close>, and two of its functions
  over paths and commands; the last section runs them on concrete requests.
\<close>

section \<open>Deny rules\<close>

definition rule_denies :: "perm_rules \<Rightarrow> request \<Rightarrow> bool" where
  "rule_denies rules r \<longleftrightarrow> pr_project_deny rules r \<or> pr_global_deny rules r"

definition denials_kept :: "perm_rules \<Rightarrow> perm_system \<Rightarrow> bool" where
  "denials_kept rules sy \<longleftrightarrow> accounted sy \<and> (\<forall>(i, r, b) \<in> set (sy_queue sy). \<not> rule_denies rules r) \<and>
     (\<forall>(i, res) \<in> set (sy_decided sy). rule_denies rules (sy_requests sy ! i) \<longrightarrow>
        res = Inr (plain_decision Deny))"

lemma check_denied:
  "rule_denies rules r \<Longrightarrow> check_request env rules opts r stopped m = Inr (Decided (plain_decision Deny), m)"
  by (simp add: check_request_def rule_denies_def permit_def)

lemma booked_decided_less: "booked ds q rs \<Longrightarrow> (i, d) \<in> set ds \<Longrightarrow> i < length rs"
  unfolding booked_def by force

lemma request_denials:
  assumes "denials_kept rules sy"
  shows "denials_kept rules (do_request env rules opts r stopped sy)"
proof -
  have old: "(sy_requests sy @ [r]) ! i = sy_requests sy ! i" if "(i, res) \<in> set (sy_decided sy)" for i res
    using assms booked_decided_less that by (fastforce simp: denials_kept_def nth_append)
  have acc: "accounted (do_request env rules opts r stopped sy)"
    using assms by (auto simp: denials_kept_def do_request_def Let_def split: sum.split verdict.split prod.split
        intro: booked_decide booked_ask)
  show ?thesis
  proof (cases "rule_denies rules r")
    case True
    then show ?thesis using assms acc old
      by (auto simp: denials_kept_def do_request_def Let_def check_denied)
  next
    case False
    then show ?thesis using assms acc old
      by (auto simp: denials_kept_def do_request_def Let_def split: sum.split verdict.split prod.split)
  qed
qed

lemma step_denials: "denials_kept rules sy \<Longrightarrow> denials_kept rules (perm_step env rules opts sy e)"
proof -
  assume d: "denials_kept rules sy"
  let ?sy = "sy\<lparr>sy_events := sy_events sy @ [e]\<rparr>"
  have s: "denials_kept rules ?sy" using d by (simp add: denials_kept_def)
  have acc: "accounted (perm_step env rules opts sy e)"
    using d by (intro step_accounted) (simp add: denials_kept_def)
  show ?thesis
  proof (cases e)
    case (Request r stopped)
    then show ?thesis using request_denials [OF s] by (simp add: perm_step_def)
  next
    case Begin
    show ?thesis
      using s acc by (auto simp: denials_kept_def perm_step_def Begin do_begin_def booked_def
          split: list.split bool.split prod.split)
  next
    case (Answer a)
    show ?thesis
      using s acc by (auto simp: denials_kept_def perm_step_def Answer do_answer_def booked_def Let_def
          split: list.split bool.split prod.split)
  next
    case (Fail f)
    show ?thesis
      using s acc by (auto simp: denials_kept_def perm_step_def Fail do_fail_def booked_def
          split: list.split bool.split prod.split)
  qed (use s in \<open>simp_all add: denials_kept_def perm_step_def change_manager_def\<close>)
qed

interpretation pdeny: invariant_machine "perm_step env rules opts" "denials_kept rules" for env rules opts
  by unfold_locales (rule step_denials)

lemma run_denials: "denials_kept rules (perm_run env rules opts es)"
  unfolding perm_run_def
  by (rule pdeny.run_good) (simp add: denials_kept_def new_system_def booked_def)

lemma run_events: "sy_events (foldl (perm_step env rules opts) sy es) = sy_events sy @ es"
proof (induction es arbitrary: sy)
  case (Cons e es)
  have "sy_events (perm_step env rules opts sy e) = sy_events sy @ [e]"
    by (cases e) (auto simp: system_steps split: sum.split verdict.split prod.split list.split bool.split)
  with Cons show ?case by simp
qed simp

lemma run_requests:
  "length (sy_requests (foldl (perm_step env rules opts) sy es)) =
     length (sy_requests sy) + length (filter (\<lambda>e. case e of Request _ _ \<Rightarrow> True | _ \<Rightarrow> False) es)"
proof (induction es arbitrary: sy)
  case (Cons e es)
  have "length (sy_requests (perm_step env rules opts sy e)) =
      length (sy_requests sy) + (case e of Request _ _ \<Rightarrow> 1 | _ \<Rightarrow> 0)"
    by (cases e) (auto simp: system_steps split: sum.split verdict.split prod.split list.split bool.split)
  with Cons show ?case by (cases e) simp_all
qed simp

text \<open>
  C13. Whatever the user answers, whatever mode the session is in and in whatever order requests,
  prompts and aborts happen: a request that a deny rule of the project or of the user matches is
  denied, and the operation it guards is not run.
\<close>
theorem deny_rules_always_win:
  assumes "(i, res) \<in> set (sy_decided (perm_run env rules opts es))"
    and "rule_denies rules (sy_requests (perm_run env rules opts es) ! i)"
  shows "res = Inr (plain_decision Deny) \<and>
    execute_permitted (sy_requests (perm_run env rules opts es) ! i) (plain_decision Deny) operation =
      throw ''permission_denied'' (rq_tool (sy_requests (perm_run env rules opts es) ! i))"
  using run_denials [of rules env opts es] assms
  by (auto simp: denials_kept_def execute_permitted_def plain_decision_def denies_def)

text \<open>
  C14. A request is allowed only for a reason: in every run, each allowed request was allowed by the
  user for its key, its server or the whole session, by an allow rule, a temporary rule that was
  granted, the bypass option or the full mode, or its key is that of a memory access, of a read
  inside the working directory or, once the session has been in the automatic mode, of a write
  inside it.
\<close>
theorem allowed_requests_are_justified:
  assumes "sy = perm_run env rules opts es" and "(i, Inr d) \<in> set (sy_decided sy)" and "\<not> denies (dc_kind d)"
  shows "i < length (sy_requests sy) \<and>
    justified env rules opts (set es) (set (sy_requests sy)) (set (sy_answers sy)) (sy_requests sy ! i)"
proof -
  have "sound_system env rules opts sy" unfolding assms(1) by (rule perm_run_sound)
  moreover have "sy_events sy = es"
    unfolding assms(1) perm_run_def by (simp add: run_events new_system_def)
  ultimately show ?thesis using assms(2,3) by (auto simp: sound_system_def all_justified_def)
qed

text \<open>
  Every request is decided at most once and none is lost: after any events, the requests decided
  and the requests waiting are disjoint and together all requests made, and prompts are shown in the
  order of the requests.
\<close>
theorem every_request_is_accounted:
  "let sy = perm_run env rules opts es
   in distinct (map fst (sy_decided sy) @ map fst (sy_queue sy)) \<and>
      set (map fst (sy_decided sy)) \<union> set (map fst (sy_queue sy)) =
        {..<length (filter (\<lambda>e. case e of Request _ _ \<Rightarrow> True | _ \<Rightarrow> False) es)} \<and>
      sorted_wrt (<) (map fst (sy_queue sy))"
proof -
  have "length (sy_requests (perm_run env rules opts es)) =
      length (filter (\<lambda>e. case e of Request _ _ \<Rightarrow> True | _ \<Rightarrow> False) es)"
    unfolding perm_run_def by (simp add: run_requests new_system_def)
  then show ?thesis using run_accounted [of env rules opts es] by (simp add: booked_def Let_def)
qed

section \<open>Inside the working directory\<close>

lemma full_path:
  "(if is_absolute path then resolve_parts here [] path else resolve_parts here cwd path) =
     resolve_parts here cwd path"
  by (simp add: resolve_parts_def)

lemma join_segments_relative: "list_all segment ps \<Longrightarrow> \<not> is_absolute (join_slash ps)"
proof (cases ps)
  case (Cons x xs)
  assume "list_all segment ps"
  then obtain c cs where "x = c # cs" "c \<noteq> CHR ''/''" using Cons by (cases x) (auto simp: segment_def)
  then show ?thesis by (cases xs) (simp_all add: Cons is_absolute_def)
qed (simp add: is_absolute_def)

lemma relative_climbs:
  "strip_common ps qs = (u # us, down) \<Longrightarrow> starts_with (path_relative ps qs) ''..''"
  using join_slash_prefix [of "''..''"] by (simp add: path_relative_def)

text \<open>
  The test for paths inside the working directory is exact up to names that begin with two
  dots: it holds precisely when the resolved directory is a prefix of the resolved path, part by
  part, and the rest of the path does not begin with two dots; both have no dots left in them.
\<close>
theorem in_cwd_exact:
  "in_cwd env path cwd \<longleftrightarrow>
     (\<exists>rest. resolve_parts (pe_here env) cwd path = resolve_parts (pe_here env) [] cwd @ rest \<and>
        list_all plain_segment rest \<and> \<not> starts_with (join_slash rest) ''..'')"
proof -
  let ?B = "resolve_parts (pe_here env) [] cwd" and ?F = "resolve_parts (pe_here env) cwd path"
  have eq: "in_cwd env path cwd \<longleftrightarrow> path_relative ?B ?F = [] \<or>
      \<not> starts_with (path_relative ?B ?F) ''..'' \<and> \<not> is_absolute (path_relative ?B ?F)"
    by (simp add: in_cwd_def Let_def full_path)
  show ?thesis
  proof
    assume "in_cwd env path cwd"
    then have n: "\<not> starts_with (path_relative ?B ?F) ''..''" unfolding eq by auto
    from relative_inside [OF this] obtain rest where r: "?F = ?B @ rest" by (auto elim: prefixE)
    have "list_all plain_segment rest"
      using resolve_plain [of "pe_here env" cwd path] by (simp add: r)
    with r n show "\<exists>rest. ?F = ?B @ rest \<and> list_all plain_segment rest \<and> \<not> starts_with (join_slash rest) ''..''"
      by (auto simp: relative_of_inside)
  next
    assume "\<exists>rest. ?F = ?B @ rest \<and> list_all plain_segment rest \<and> \<not> starts_with (join_slash rest) ''..''"
    then obtain rest where r: "?F = ?B @ rest" "list_all plain_segment rest"
      "\<not> starts_with (join_slash rest) ''..''" by blast
    then show "in_cwd env path cwd"
      unfolding eq using join_segments_relative [OF plain_segments] by (simp add: relative_of_inside)
  qed
qed

section \<open>What a change of mode and a cleared session leave behind\<close>

definition plain_request :: "perm_rules \<Rightarrow> perm_options \<Rightarrow> request \<Rightarrow> bool" where
  "plain_request rules opts r \<longleftrightarrow> \<not> rule_denies rules r \<and> \<not> pr_project_allow rules r \<and>
     \<not> pr_global_allow rules r \<and> \<not> po_skip opts"

text \<open>
  Leaving the automatic mode does not take back what it allowed: a write inside the working
  directory that was allowed without a prompt in the automatic mode is still allowed without a
  prompt after the session has been set to ask before every change.
\<close>
theorem ask_mode_keeps_automatic_grants:
  assumes "plain_request rules opts r" and "quiet_write env r" and "key_of env r = Inr k"
    and "mcp_server r = None"
  shows "let sy = perm_run env rules opts [Mode Auto_Mode, Request r False, Mode Ask_Mode, Request r False]
    in pm_mode (sy_manager sy) = Ask_Mode \<and> sy_answers sy = [] \<and>
       sy_decided sy = [(0, Inr (plain_decision Allow_Session)), (1, Inr (plain_decision Allow_Session))]"
  using assms
  by (simp add: perm_run_def new_system_def new_manager_def system_steps check_request_def permit_def
      plain_request_def rule_denies_def set_mode_def auto_allow_def)

text \<open>
  Clearing the session does not forget the servers the user allowed for the session: the next
  request of the server is allowed without a prompt.
\<close>
theorem cleared_session_keeps_servers:
  assumes "plain_request rules opts r" and "key_of env r = Inr k" and "mcp_server r = Some s"
    and "po_mode opts = Ask_Mode" and "po_prompt opts" and "\<not> auto_allow env r (new_manager opts)"
  shows "let sy = perm_run env rules opts
      [Request r False, Begin, Answer (plain_decision Allow_Mcp_Server), Clear_Session, Request r False]
    in sy_decided sy = [(0, Inr (plain_decision Allow_Session)), (1, Inr (plain_decision Allow_Session))] \<and>
       length (sy_answers sy) = 1"
proof -
  let ?m = "new_manager opts"
  let ?c = "clear_session (?m\<lparr>pm_servers := [s]\<rparr>)"
  have mode: "pm_mode ?m = Ask_Mode" "pm_cache ?m = []" "pm_servers ?m = []" "pm_ephemeral ?m = []"
    using assms(4) by (simp_all add: new_manager_def)
  have ask: "check_request env rules opts r False ?m = Inr (Ask_User, ?m)"
    using assms by (simp add: check_request_def plain_request_def rule_denies_def mode)
  have yes: "record_decision env opts r (plain_decision Allow_Mcp_Server) ?m =
      (Inr (plain_decision Allow_Session), ?m\<lparr>pm_servers := [s]\<rparr>)"
    using assms(3) by (simp add: record_decision_def remembered_def plain_decision_def mode)
  have later: "check_request env rules opts r False ?c = Inr (Decided (plain_decision Allow_Session), ?c)"
    using assms(1,2,3) by (simp add: check_request_def plain_request_def rule_denies_def clear_session_def permit_def)
  show ?thesis
    by (simp add: perm_run_def new_system_def system_steps ask yes later)
qed

section \<open>Remembered commands\<close>

definition solid :: "string \<Rightarrow> bool" where
  "solid w \<longleftrightarrow> w \<noteq> [] \<and> list_all (\<lambda>c. \<not> is_space c) w"

declare words.simps [simp del]

lemma words_nonempty: "\<not> is_space c \<Longrightarrow> words (c # cs) \<noteq> []"
  by (subst words.simps) (simp split: list.split)

lemma words_solid: "list_all solid (words s)"
proof (induction s rule: words.induct)
  case (2 c cs)
  consider "is_space c" | "\<not> is_space c" "cs = []" | d ds where "\<not> is_space c" "cs = d # ds" "is_space d"
    | d ds w ws where "\<not> is_space c" "cs = d # ds" "\<not> is_space d" "words cs = w # ws"
    using words_nonempty by (metis list.exhaust)
  then show ?case
  proof cases
    case (4 d ds w ws)
    then have "list_all solid (w # ws)" using 2(3) by metis
    moreover have "words (c # cs) = (c # w) # ws" using 4 by (simp add: words.simps(2) [of c])
    ultimately show ?thesis using 4(1) by (simp add: solid_def [of w] solid_def [of "c # w"])
  qed (use 2 in \<open>simp_all add: words.simps solid_def\<close>)
qed (simp add: words.simps)

lemma trim_end_first:
  assumes "\<not> is_space c"
  shows "\<exists>s'. trim_end (c # s) = c # s'"
proof -
  have "\<exists>t. dropWhile is_space (xs @ [c]) = t @ [c]" for xs
    using assms by (induction xs) auto
  then obtain t where "dropWhile is_space (rev s @ [c]) = t @ [c]" by blast
  then show ?thesis by (intro exI [of _ "rev t"]) (simp add: trim_end_def)
qed

text \<open>
  A command that begins with white space is not covered by the rule made for it: after the user
  has chosen to remember the command, the same command does not match the stored rule.
\<close>
theorem indented_command_is_not_remembered:
  assumes "is_space c" and "words (c # cs) \<noteq> []" and "bs_command b = c # cs"
  shows "\<not> bash_matches env (b\<lparr>bs_command := bash_command_prefix_rule (bs_command b)\<rparr>) b"
proof -
  obtain w ws where w: "words (c # cs) = w # ws" using assms(2) by (cases "words (c # cs)") auto
  have "solid w" using words_solid [of "c # cs"] by (simp only: w list.pred_inject)
  then obtain d ds where d: "w = d # ds" "\<not> is_space d" by (cases w) (auto simp: solid_def)
  let ?h = "join '' '' (take 2 (w # ws))"
  obtain t where h: "?h = d # t" using d(1) by (cases ws) auto
  have rule: "bash_command_prefix_rule (c # cs) = ?h @ '' *''"
    by (simp add: bash_command_prefix_rule_def w)
  have star: "ends_with_star (?h @ '' *'')" by (simp add: ends_with_star_def)
  obtain t' where t: "trim_end ?h = d # t'" using trim_end_first [OF d(2)] h by metis
  have "c \<noteq> d" using assms(1) d(2) by auto
  then have "\<not> command_matches_prefix (trim_end ?h) (c # cs)" unfolding command_matches_prefix_def t by simp
  with star show ?thesis by (simp add: bash_matches_def assms(3) rule)
qed

section \<open>Concrete runs\<close>

definition demo_env :: perm_env where
  "demo_env = \<lparr>pe_url = (\<lambda>u. None), pe_realpath = (\<lambda>ps. Some ps), pe_home = ''/root'', pe_here = ''/w'',
     pe_path_glob = (=), pe_command_glob = (=)\<rparr>"

definition no_spec :: permission_spec where
  "no_spec = \<lparr>ps_fs = None, ps_bash = None, ps_net = None, ps_env = None, ps_custom = None\<rparr>"

definition demo_write :: request where
  "demo_write = \<lparr>rq_tool = ''Write'',
     rq_spec = no_spec\<lparr>ps_fs := Some \<lparr>fs_read = None, fs_write = Some [''a.txt'']\<rparr>\<rparr>, rq_cwd = ''/w''\<rparr>"

definition demo_mcp :: request where
  "demo_mcp = \<lparr>rq_tool = ''mcp'', rq_spec = no_spec\<lparr>ps_custom := Some [(ascii ''mcpServer'', J_Str [1])]\<rparr>,
     rq_cwd = ''/w''\<rparr>"

definition no_rules :: perm_rules where
  "no_rules = \<lparr>pr_project_deny = (\<lambda>r. False), pr_global_deny = (\<lambda>r. False), pr_project_allow = (\<lambda>r. False),
     pr_global_allow = (\<lambda>r. False)\<rparr>"

definition demo_opts :: perm_options where
  "demo_opts = \<lparr>po_skip = False, po_mode = Ask_Mode, po_prompt = True, po_persist = None\<rparr>"

lemma demo_write_inside: "in_cwd demo_env ''a.txt'' ''/w''"
  by (simp add: in_cwd_def demo_env_def resolve_parts_def is_absolute_def path_parts_def norm_parts_def
      norm_step_def path_relative_def split_on.simps)

lemma deny_rules_always_win_witness:
  "let rules = no_rules\<lparr>pr_project_deny := (\<lambda>r. rq_tool r = ''Write'')\<rparr>;
       sy = perm_run demo_env rules demo_opts [Mode Full_Mode, Request demo_write False]
   in sy_decided sy = [(0, Inr (plain_decision Deny))] \<and>
      execute_permitted (sy_requests sy ! 0) (plain_decision Deny) (Inr ()) =
        throw ''permission_denied'' (rq_tool (sy_requests sy ! 0))"
proof -
  let ?rules = "no_rules\<lparr>pr_project_deny := (\<lambda>r. rq_tool r = ''Write'')\<rparr>"
  let ?sy = "perm_run demo_env ?rules demo_opts [Mode Full_Mode, Request demo_write False]"
  have c: "check_request demo_env ?rules demo_opts demo_write False m = Inr (Decided (plain_decision Deny), m)" for m
    by (rule check_denied) (simp add: rule_denies_def no_rules_def demo_write_def)
  have d: "sy_decided ?sy = [(0, Inr (plain_decision Deny))]" and r: "sy_requests ?sy = [demo_write]"
    by (simp_all add: perm_run_def new_system_def system_steps c)
  have "rule_denies ?rules (sy_requests ?sy ! 0)"
    unfolding r by (simp add: rule_denies_def no_rules_def demo_write_def)
  from deny_rules_always_win [OF _ this, of "Inr (plain_decision Deny)" "Inr ()"] d show ?thesis
    by (simp only: Let_def list.set_intros simp_thms)
qed

lemma demo_ask: "check_request demo_env no_rules demo_opts demo_write False (new_manager demo_opts) =
    Inr (Ask_User, new_manager demo_opts)"
  by (simp add: check_request_def new_manager_def demo_opts_def no_rules_def key_of_def permission_key_def
      demo_write_def no_spec_def mcp_server_def auto_allow_def quiet_read_def starts_with_iff)

lemma allowed_requests_are_justified_witness:
  "let sy = perm_run demo_env no_rules demo_opts [Request demo_write False, Begin, Answer (plain_decision Allow_Once)]
   in sy_decided sy = [(0, Inr (plain_decision Allow_Once))] \<and>
      justified demo_env no_rules demo_opts
        (set [Request demo_write False, Begin, Answer (plain_decision Allow_Once)]) (set (sy_requests sy))
        (set (sy_answers sy)) (sy_requests sy ! 0)"
proof -
  let ?es = "[Request demo_write False, Begin, Answer (plain_decision Allow_Once)]"
  let ?sy = "perm_run demo_env no_rules demo_opts ?es"
  have rec: "record_decision demo_env demo_opts demo_write (plain_decision Allow_Once) (new_manager demo_opts) =
      (Inr (plain_decision Allow_Once), new_manager demo_opts)"
    by (simp add: record_decision_def remembered_def plain_decision_def)
  have d: "sy_decided ?sy = [(0, Inr (plain_decision Allow_Once))]"
    by (simp add: perm_run_def new_system_def system_steps demo_ask rec)
  show ?thesis
    using allowed_requests_are_justified [of ?sy demo_env no_rules demo_opts ?es 0 "plain_decision Allow_Once"] d
    by (simp add: plain_decision_def denies_def Let_def)
qed

lemma ask_mode_keeps_automatic_grants_witness:
  "let sy = perm_run demo_env no_rules demo_opts
      [Mode Auto_Mode, Request demo_write False, Mode Ask_Mode, Request demo_write False]
   in pm_mode (sy_manager sy) = Ask_Mode \<and> sy_answers sy = [] \<and>
      sy_decided sy = [(0, Inr (plain_decision Allow_Session)), (1, Inr (plain_decision Allow_Session))]"
proof (rule ask_mode_keeps_automatic_grants)
  show "plain_request no_rules demo_opts demo_write"
    by (simp add: plain_request_def rule_denies_def no_rules_def demo_opts_def)
  show "quiet_write demo_env demo_write"
    using demo_write_inside by (simp add: quiet_write_def demo_write_def no_spec_def writes_of_def)
  show "key_of demo_env demo_write = Inr (''Write'', rq_spec demo_write)"
    by (simp add: key_of_def permission_key_def demo_write_def no_spec_def)
  show "mcp_server demo_write = None" by (simp add: mcp_server_def demo_write_def no_spec_def)
qed

lemma cleared_session_keeps_servers_witness:
  "let sy = perm_run demo_env no_rules demo_opts
      [Request demo_mcp False, Begin, Answer (plain_decision Allow_Mcp_Server), Clear_Session, Request demo_mcp False]
    in sy_decided sy = [(0, Inr (plain_decision Allow_Session)), (1, Inr (plain_decision Allow_Session))] \<and>
       length (sy_answers sy) = 1"
proof (rule cleared_session_keeps_servers)
  show "plain_request no_rules demo_opts demo_mcp"
    by (simp add: plain_request_def rule_denies_def no_rules_def demo_opts_def)
  show "key_of demo_env demo_mcp = Inr (''mcp'', rq_spec demo_mcp)"
    by (simp add: key_of_def permission_key_def demo_mcp_def no_spec_def)
  show "mcp_server demo_mcp = Some [1]" by (simp add: mcp_server_def demo_mcp_def no_spec_def)
  show "po_mode demo_opts = Ask_Mode" "po_prompt demo_opts" by (simp_all add: demo_opts_def)
  show "\<not> auto_allow demo_env demo_mcp (new_manager demo_opts)"
    by (simp add: auto_allow_def new_manager_def demo_opts_def demo_mcp_def quiet_read_def starts_with_iff)
qed

lemma indented_command_is_not_remembered_witness:
  "\<not> bash_matches demo_env \<lparr>bs_command = bash_command_prefix_rule '' ls -l'', bs_background = None\<rparr>
      \<lparr>bs_command = '' ls -l'', bs_background = None\<rparr>"
proof -
  have s: "is_space CHR '' ''" by (simp add: is_space_def)
  have w: "words ('' '' @ ''ls -l'') \<noteq> []"
    using words_nonempty [of "CHR ''l''" "''s -l''"] s
    by (simp add: words.simps(2) [of "CHR '' ''"] is_space_def)
  show ?thesis
    using indented_command_is_not_remembered [OF s, of "''ls -l''" "\<lparr>bs_command = '' ls -l'', bs_background = None\<rparr>"] w
    by simp
qed

end
