(* ===== verification/Agent_Registry.thy ===== *)
theory Agent_Registry
  imports Prelude
begin

text \<open>
  Agent definitions: \<open>packages/shared/src/agent-schema.ts\<close> and
  \<open>packages/subagent/src/agent-registry.ts\<close>. The two directories are given as lists of files with
  what the YAML parser makes of their front matter; a file that cannot be used is skipped with a
  warning. A definition of the project replaces one of the user with the same name, and is never
  trusted.
\<close>

record agent_definition =
  ad_name :: string
  ad_description :: string
  ad_model :: "(string \<times> string) option"
  ad_tools :: "string list option"
  ad_max_turns :: "int option"

definition name_char :: "char \<Rightarrow> bool" where
  "name_char c \<longleftrightarrow> (let n = (of_char c :: nat) in 97 \<le> n \<and> n \<le> 122 \<or> 48 \<le> n \<and> n \<le> 57 \<or> n = 45)"

definition agent_definition_ok :: "agent_definition \<Rightarrow> bool" where
  "agent_definition_ok d \<longleftrightarrow> ad_name d \<noteq> [] \<and> list_all name_char (ad_name d) \<and> ad_description d \<noteq> [] \<and>
     (case ad_model d of None \<Rightarrow> True | Some (p, m) \<Rightarrow> p \<noteq> [] \<and> m \<noteq> []) \<and>
     (case ad_tools d of None \<Rightarrow> True | Some ts \<Rightarrow> ts \<noteq> [] \<and> list_all (\<lambda>t. t \<noteq> []) ts) \<and>
     (case ad_max_turns d of None \<Rightarrow> True | Some n \<Rightarrow> 1 \<le> n)"

definition unknown_tools :: "string list \<Rightarrow> agent_definition \<Rightarrow> string list" where
  "unknown_tools known d = filter (\<lambda>t. t \<notin> set known) (given (ad_tools d) [])"

text \<open>\<open>parseAgentDefinition\<close> after the YAML parser; a shape the schema refuses is \<open>None\<close>.\<close>

definition parse_agent_definition ::
  "agent_definition option \<Rightarrow> string list option \<Rightarrow> agent_definition result" where
  "parse_agent_definition raw allowed = (case raw of
     None \<Rightarrow> throw ''zod'' ''''
   | Some d \<Rightarrow>
       if \<not> agent_definition_ok d then throw ''zod'' (ad_name d)
       else case allowed of
         None \<Rightarrow> Inr d
       | Some known \<Rightarrow>
           if unknown_tools known d \<noteq> [] then throw ''agent_tools_unknown'' (join '', '' (unknown_tools known d))
           else Inr d)"

datatype agent_scope = User_Scope | Project_Agent_Scope

record resolved_agent =
  ra_definition :: agent_definition
  ra_path :: string
  ra_scope :: agent_scope
  ra_trusted :: bool

record agent_file =
  af_name :: string
  af_front :: "agent_definition option"

text \<open>\<open>/^mcp__[^_]+__/\<close>: the tools of a server that is connected later are not checked.\<close>

definition is_dynamic_tool_name :: "string \<Rightarrow> bool" where
  "is_dynamic_tool_name name \<longleftrightarrow> starts_with name ''mcp__'' \<and>
     (let rest = drop 5 name; server = takeWhile (\<lambda>c. c \<noteq> CHR ''_'') rest
      in server \<noteq> [] \<and> starts_with (drop (length server) rest) ''__'')"

definition has_md :: "string \<Rightarrow> bool" where
  "has_md s \<longleftrightarrow> starts_with (rev s) (rev ''.md'')"

definition load_agent ::
  "agent_scope \<Rightarrow> string \<Rightarrow> string list option \<Rightarrow> agent_file \<Rightarrow> resolved_agent result" where
  "load_agent scope dir parents f =
     bind_result (parse_agent_definition (af_front f) None) (\<lambda>d.
     if ad_name d \<noteq> take (length (af_name f) - 3) (af_name f)
     then throw ''VOLUND_SUBAGENT_NAME_MISMATCH'' (ad_name d)
     else case parents of
       Some known \<Rightarrow>
         (let unknown = filter (\<lambda>t. \<not> is_dynamic_tool_name t) (unknown_tools known d)
          in if unknown \<noteq> [] then throw ''VOLUND_SUBAGENT_TOOLS_EXCEED_PARENT'' (join '', '' unknown)
             else Inr \<lparr>ra_definition = d, ra_path = dir @ ''/'' @ af_name f, ra_scope = scope,
                       ra_trusted = (scope = User_Scope)\<rparr>)
     | None \<Rightarrow> Inr \<lparr>ra_definition = d, ra_path = dir @ ''/'' @ af_name f, ra_scope = scope,
                     ra_trusted = (scope = User_Scope)\<rparr>)"

definition scan_file ::
  "agent_scope \<Rightarrow> string \<Rightarrow> string list option \<Rightarrow> (string, resolved_agent) jsmap \<times> string list \<Rightarrow> agent_file \<Rightarrow>
     (string, resolved_agent) jsmap \<times> string list" where
  "scan_file scope dir parents acc f =
     (if \<not> has_md (af_name f) then acc
      else case load_agent scope dir parents f of
        Inr a \<Rightarrow> (map_set (ad_name (ra_definition a)) a (fst acc), snd acc)
      | Inl e \<Rightarrow> (fst acc, snd acc @ [dir @ ''/'' @ af_name f]))"

text \<open>\<open>discover\<close>, with the warnings; the files are those \<open>readdirSync\<close> lists as files.\<close>

definition discover ::
  "string \<Rightarrow> agent_file list \<Rightarrow> string \<Rightarrow> agent_file list \<Rightarrow> string list option \<Rightarrow>
     (string, resolved_agent) jsmap \<times> string list" where
  "discover home user_files cwd project_files parents =
     foldl (scan_file Project_Agent_Scope (cwd @ ''/.volund/agents'') parents)
       (foldl (scan_file User_Scope (home @ ''/agents'') parents) ([], []) user_files) project_files"

section \<open>What discovery guarantees\<close>

definition tools_within :: "string list option \<Rightarrow> agent_definition \<Rightarrow> bool" where
  "tools_within parents d = (case parents of
     None \<Rightarrow> True
   | Some known \<Rightarrow> list_all (\<lambda>t. t \<in> set known \<or> is_dynamic_tool_name t) (given (ad_tools d) []))"

definition resolved_ok :: "string list option \<Rightarrow> (string, resolved_agent) jsmap \<Rightarrow> bool" where
  "resolved_ok parents m \<longleftrightarrow> map_wf m \<and> (\<forall>n a. map_get m n = Some a \<longrightarrow>
     ad_name (ra_definition a) = n \<and> agent_definition_ok (ra_definition a) \<and>
     ra_trusted a = (ra_scope a = User_Scope) \<and> tools_within parents (ra_definition a))"

lemma parse_agent_Inr: "parse_agent_definition raw None = Inr d \<Longrightarrow> agent_definition_ok d"
  by (auto simp: parse_agent_definition_def split: option.splits if_splits)

lemma load_agent_ok:
  assumes "load_agent scope dir parents f = Inr a"
  shows "agent_definition_ok (ra_definition a)" "ra_scope a = scope" "ra_trusted a = (scope = User_Scope)"
    "tools_within parents (ra_definition a)"
proof -
  obtain d where d: "parse_agent_definition (af_front f) None = Inr d"
    using assms by (auto simp: load_agent_def bind_result_Inr_iff)
  show "agent_definition_ok (ra_definition a)" "ra_scope a = scope" "ra_trusted a = (scope = User_Scope)"
    "tools_within parents (ra_definition a)"
    using assms parse_agent_Inr [OF d]
    by (cases parents; force simp: load_agent_def d Let_def tools_within_def unknown_tools_def
        filter_empty_conv list_all_iff split: if_splits)+
qed

lemma scan_file_ok: "resolved_ok parents (fst acc) \<Longrightarrow> resolved_ok parents (fst (scan_file scope dir parents acc f))"
  by (auto simp: scan_file_def resolved_ok_def map_get_set load_agent_ok split: sum.split if_splits)

interpretation scan: invariant_machine "scan_file scope dir parents" "\<lambda>acc. resolved_ok parents (fst acc)"
  for scope dir parents
  by unfold_locales (rule scan_file_ok)

lemma discovered_ok: "resolved_ok parents (fst (discover home us cwd ps parents))"
  unfolding discover_def by (intro scan.run_good) (simp add: resolved_ok_def)

text \<open>A usable definition of the project wins over one of the user with the same name.\<close>

lemma scan_project_keeps:
  assumes "map_get (fst acc) n = Some a" "ra_scope a = Project_Agent_Scope"
  shows "\<exists>b. map_get (fst (foldl (scan_file Project_Agent_Scope dir parents) acc fs)) n = Some b \<and>
    ra_scope b = Project_Agent_Scope"
  using assms
proof (induction fs arbitrary: acc a)
  case (Cons f fs)
  have "\<exists>c. map_get (fst (scan_file Project_Agent_Scope dir parents acc f)) n = Some c \<and>
      ra_scope c = Project_Agent_Scope"
    using Cons.prems by (auto simp: scan_file_def map_get_set load_agent_ok split: sum.split)
  then obtain c where "map_get (fst (scan_file Project_Agent_Scope dir parents acc f)) n = Some c"
    "ra_scope c = Project_Agent_Scope" by blast
  from Cons.IH [OF this] show ?case by (simp only: foldl.simps)
qed auto

lemma project_overrides_user:
  assumes "f \<in> set ps" "has_md (af_name f)" "load_agent Project_Agent_Scope (cwd @ ''/.volund/agents'') parents f = Inr a"
  shows "\<exists>b. map_get (fst (discover home us cwd ps parents)) (ad_name (ra_definition a)) = Some b \<and> \<not> ra_trusted b"
proof -
  let ?n = "ad_name (ra_definition a)" and ?scan = "scan_file Project_Agent_Scope (cwd @ ''/.volund/agents'') parents"
  obtain xs ys where ps: "ps = xs @ f # ys" using split_list [OF assms(1)] by blast
  let ?acc = "foldl (scan_file User_Scope (home @ ''/agents'') parents) ([], []) us"
  have "map_get (fst (?scan (foldl ?scan ?acc xs) f)) ?n = Some a"
    using assms(2,3) by (simp add: scan_file_def map_get_set)
  from scan_project_keeps [OF this, of "cwd @ ''/.volund/agents''" parents ys] load_agent_ok(2) [OF assms(3)]
  obtain b where b: "map_get (fst (discover home us cwd ps parents)) ?n = Some b" "ra_scope b = Project_Agent_Scope"
    by (auto simp: discover_def ps)
  with discovered_ok [of parents home us cwd ps] have "\<not> ra_trusted b" by (auto simp: resolved_ok_def)
  with b show ?thesis by blast
qed

end
