(* ===== verification/Subagent.thy ===== *)
theory Subagent
  imports Events Session Agent_Registry
begin

text \<open>
  The dispatcher of subagents, \<open>packages/subagent/src/index.ts\<close>. A dispatch runs in three steps
  that other calls can come between: the checks, up to the wait for the runner (\<open>Dispatch\<close>); the
  registration and the announcement, up to the wait for the run (\<open>Runner_Ready\<close>); and the settlement
  (\<open>Runner_Done\<close>). What the runner and the listeners of the parent's bus do is part of the step. The
  runner of a child is identified with the child's session, which the dispatcher creates for it, and
  the log is that of the payloads the parent's bus accepted.
\<close>

section \<open>Budgets\<close>

text \<open>The dimensions in the order of \<open>BUDGET_DIMENSIONS\<close>; the result names the first one exceeded.\<close>

definition above :: "'a::linorder option \<Rightarrow> 'a option \<Rightarrow> bool" where
  "above requested cap = (case (requested, cap) of (Some r, Some c) \<Rightarrow> c < r | _ \<Rightarrow> False)"

definition or_else :: "'a option \<Rightarrow> 'a option \<Rightarrow> 'a option" where
  "or_else x y = (case x of Some _ \<Rightarrow> x | None \<Rightarrow> y)"

definition no_budget :: resource_budget where
  "no_budget = \<lparr>rb_token_max = None, rb_cost_max = None, rb_time_max = None, rb_tool_call_max = None\<rparr>"

definition exceeded_dimension :: "resource_budget \<Rightarrow> resource_budget \<Rightarrow> string option" where
  "exceeded_dimension b d =
     (if above (rb_token_max b) (rb_token_max d) then Some ''tokenMax''
      else if above (rb_cost_max b) (rb_cost_max d) then Some ''costUSDMax''
      else if above (rb_time_max b) (rb_time_max d) then Some ''timeMsMax''
      else if above (rb_tool_call_max b) (rb_tool_call_max d) then Some ''toolCallMax''
      else None)"

definition merge_budget :: "resource_budget \<Rightarrow> resource_budget \<Rightarrow> resource_budget" where
  "merge_budget b d = \<lparr>rb_token_max = or_else (rb_token_max b) (rb_token_max d),
     rb_cost_max = or_else (rb_cost_max b) (rb_cost_max d), rb_time_max = or_else (rb_time_max b) (rb_time_max d),
     rb_tool_call_max = or_else (rb_tool_call_max b) (rb_tool_call_max d)\<rparr>"

definition resolve_budget :: "resource_budget option \<Rightarrow> resource_budget option \<Rightarrow> resource_budget result" where
  "resolve_budget defaults input = (case input of
     None \<Rightarrow> Inr (given defaults no_budget)
   | Some b \<Rightarrow> (case Option.bind defaults (exceeded_dimension b) of
       Some dimension \<Rightarrow> throw ''VOLUND_SUBAGENT_BUDGET_EXCEEDS_DEFAULT'' dimension
     | None \<Rightarrow> Inr (merge_budget b (given defaults no_budget))))"

definition registered_max :: "'a::linordered_idom option \<Rightarrow> 'a option" where
  "registered_max m = (case m of Some x \<Rightarrow> if 0 < x then Some x else None | None \<Rightarrow> None)"

text \<open>\<open>eventBudgetOf\<close>: no tool calls, and only positive limits; tokens and time are whole numbers.\<close>

definition event_budget_of :: "resource_budget \<Rightarrow> resource_budget" where
  "event_budget_of b = \<lparr>rb_token_max = registered_max (rb_token_max b), rb_cost_max = registered_max (rb_cost_max b),
     rb_time_max = registered_max (rb_time_max b), rb_tool_call_max = None\<rparr>"

section \<open>Texts\<close>

definition ellipsis :: nat where "ellipsis = 8230"

definition prompt_digest_of :: "ustr \<Rightarrow> ustr" where
  "prompt_digest_of prompt =
     (let first_line = hd (split_on 10 prompt);
          digest = (if 80 < length first_line then take 79 first_line @ [ellipsis] else first_line)
      in if digest \<noteq> [] then digest
         else if take 80 prompt \<noteq> [] then take 80 prompt
         else ascii ''(empty prompt)'')"

definition estimate_tokens :: "ustr \<Rightarrow> nat" where
  "estimate_tokens t = (length t + 3) div 4"

definition texts_of :: "json content_part list \<Rightarrow> ustr list" where
  "texts_of ps = concat (map (\<lambda>p. case p of Text t \<Rightarrow> [t] | _ \<Rightarrow> []) ps)"

definition last_assistant_text :: "json message list \<Rightarrow> ustr" where
  "last_assistant_text ms = (case filter (\<lambda>m. msg_role m = Assistant) ms of
     [] \<Rightarrow> [] | m # rest \<Rightarrow> join [10] (texts_of (msg_content (List.last (m # rest)))))"

definition tool_uses_of :: "json message list \<Rightarrow> nat" where
  "tool_uses_of ms = sum_list (map (\<lambda>m. length (filter (\<lambda>p. case p of Tool_Use _ _ _ \<Rightarrow> True | _ \<Rightarrow> False)
     (msg_content m))) ms)"

text \<open>Of \<open>trim\<close> only the front matters: the note ends in a bracket.\<close>

definition budget_note :: "ustr \<Rightarrow> ustr" where
  "budget_note t = dropWhile u_space (t @ [10] @ ascii ''[budget exhausted, partial result]'')"

section \<open>The registry of runs\<close>

datatype run_status = Running | Run_Completed | Partial_Run | Run_Failed | Run_Cancelled | Interrupted

record run_entry =
  en_session :: string
  en_parent :: string
  en_agent :: "string option"
  en_depth :: int
  en_status :: run_status
  en_started :: int
  en_ended :: "int option"
  en_preview :: ustr
  en_prompt :: ustr
  en_budget :: "resource_budget option"
  en_usage :: "(int \<times> int \<times> rat) option"
  en_tool_calls :: "nat option"
  en_detail :: "ustr option"

record dispatch_input =
  di_prompt :: ustr
  di_agent :: "string option"
  di_budget :: "resource_budget option"

record dispatch_parent =
  pa_state :: session_state
  pa_turn :: string

datatype dispatch_status = Done_Completed | Done_Partial | Done_Failed | Done_Cancelled

record dispatch_result =
  dr_session :: string
  dr_status :: dispatch_status
  dr_text :: ustr
  dr_error :: "(code \<times> ustr) option"

record pending =
  pd_parent :: dispatch_parent
  pd_input :: dispatch_input
  pd_state :: session_state
  pd_budget :: resource_budget
  pd_agent :: "resolved_agent option"

record flight =
  fl_index :: nat
  fl_parent :: dispatch_parent
  fl_entry :: run_entry
  fl_listening :: bool

record subagent_options =
  so_default :: "resource_budget option"
  so_max_depth :: "int option"
  so_max_concurrency :: "int option"
  so_agents :: "(string, resolved_agent) jsmap option"
  so_history_limit :: "nat option"

text \<open>\<open>ds_interrupts\<close> lists the calls of a runner's \<open>interrupt\<close>, \<open>ds_aborted\<close> the dispatches whose
  signal has been aborted, \<open>ds_results\<close> what the promises of the dispatches became.\<close>

record dispatcher =
  ds_pending :: "(nat, pending) jsmap"
  ds_active :: "(string, flight) jsmap"
  ds_runs :: "run_entry list"
  ds_cancelled :: "string list"
  ds_aborted :: "nat list"
  ds_interrupts :: "string list"
  ds_results :: "(nat \<times> dispatch_result result) list"
  ds_log :: "(int option \<times> payload) list"
  ds_next :: nat

definition new_dispatcher :: dispatcher where
  "new_dispatcher = \<lparr>ds_pending = [], ds_active = [], ds_runs = [], ds_cancelled = [], ds_aborted = [],
     ds_interrupts = [], ds_results = [], ds_log = [], ds_next = 0\<rparr>"

definition max_depth :: "subagent_options \<Rightarrow> int" where
  "max_depth opts = min (given (so_max_depth opts) 3) 3"

definition max_concurrency :: "subagent_options \<Rightarrow> int" where
  "max_concurrency opts = max 1 (given (so_max_concurrency opts) 4)"

definition history_limit :: "subagent_options \<Rightarrow> nat" where
  "history_limit opts = given (so_history_limit opts) 100"

definition builtin_agent_types :: "string list" where
  "builtin_agent_types = [''main'', ''task-agent'', ''review-agent'', ''planner'', ''coder'', ''reviewer'']"

definition resolve_agent_type ::
  "(string, resolved_agent) jsmap \<Rightarrow> string \<Rightarrow> resolved_agent option result" where
  "resolve_agent_type agents name = (case map_get agents name of
     Some a \<Rightarrow> Inr (Some a)
   | None \<Rightarrow> if name \<in> set builtin_agent_types then Inr None
             else throw ''VOLUND_SUBAGENT_UNKNOWN_AGENT'' name)"

definition trim_runs :: "subagent_options \<Rightarrow> run_entry list \<Rightarrow> run_entry list" where
  "trim_runs opts rs = drop (length rs - history_limit opts) rs"

definition list_runs :: "dispatcher \<Rightarrow> run_entry list" where
  "list_runs ds = rev (ds_runs ds)"

definition new_entry ::
  "subagent_options \<Rightarrow> string \<Rightarrow> string \<Rightarrow> dispatch_input \<Rightarrow> int \<Rightarrow> resource_budget \<Rightarrow> int \<Rightarrow> run_entry" where
  "new_entry opts sid parent input depth budget now =
     \<lparr>en_session = sid, en_parent = parent, en_agent = truthy (di_agent input), en_depth = depth,
      en_status = Running, en_started = now, en_ended = None, en_preview = prompt_digest_of (di_prompt input),
      en_prompt = (if 2000 < length (di_prompt input) then take 1999 (di_prompt input) @ [ellipsis]
                   else di_prompt input),
      en_budget = (if di_budget input \<noteq> None \<or> so_default opts \<noteq> None then Some budget else None),
      en_usage = None, en_tool_calls = None, en_detail = None\<rparr>"

text \<open>\<open>#finishRun\<close> on the entry: a run the user cancelled is cancelled, whatever became of it.\<close>

definition finished ::
  "run_status \<Rightarrow> session_state option \<Rightarrow> ustr option \<Rightarrow> bool \<Rightarrow> int \<Rightarrow> run_entry \<Rightarrow> run_entry" where
  "finished status final detail cancelled now e =
     (let e1 = e\<lparr>en_status := if cancelled then Run_Cancelled else status, en_ended := Some now\<rparr>;
          e2 = (case final of
             None \<Rightarrow> e1
           | Some s \<Rightarrow> e1\<lparr>en_usage := Some (cu_input (ss_usage s), cu_output (ss_usage s), cu_cost (ss_usage s)),
                           en_tool_calls := Some (tool_uses_of (ss_messages s))\<rparr>)
      in case detail of Some (c # cs) \<Rightarrow> e2\<lparr>en_detail := detail\<rparr> | _ \<Rightarrow> e2)"

text \<open>The entry is shared with the registry: the row that is this entry, if it is still there, changes.\<close>

definition replace_entry :: "run_entry \<Rightarrow> run_entry \<Rightarrow> run_entry list \<Rightarrow> run_entry list" where
  "replace_entry e e' rs = map (\<lambda>r. if r = e then e' else r) rs"

definition finish_run ::
  "string \<Rightarrow> run_status \<Rightarrow> session_state option \<Rightarrow> ustr option \<Rightarrow> int \<Rightarrow> flight \<Rightarrow> dispatcher \<Rightarrow> flight \<times> dispatcher"
where
  "finish_run sid status final detail now fl ds =
     (let e = fl_entry fl; e' = finished status final detail (sid \<in> set (ds_cancelled ds)) now e
      in (fl\<lparr>fl_entry := e'\<rparr>,
          ds\<lparr>ds_runs := replace_entry e e' (ds_runs ds), ds_cancelled := removeAll sid (ds_cancelled ds)\<rparr>))"

definition settled_status :: "run_status \<Rightarrow> settle_status" where
  "settled_status s = (if s = Run_Failed then Failed else if s = Run_Cancelled then Cancelled_Run else Completed)"

definition settled_payload :: "run_entry \<Rightarrow> nat \<Rightarrow> int \<Rightarrow> settled" where
  "settled_payload e ctx_out now =
     \<lparr>st_session = en_session e, st_status = settled_status (en_status e),
      st_usage = (case en_usage e of
          None \<Rightarrow> \<lparr>u_input = 0, u_output = 0, u_cache_read = None, u_cache_write = None, u_cost = None\<rparr>
        | Some (i, out, cost) \<Rightarrow>
            \<lparr>u_input = i, u_output = out, u_cache_read = None, u_cache_write = None, u_cost = Some cost\<rparr>),
      st_ctx_out = int ctx_out, st_tool_calls = int (given (en_tool_calls e) 0),
      st_duration = max 0 (given (en_ended e) now - en_started e), st_conflicts = None,
      st_detail = (case en_detail e of Some (c # cs) \<Rightarrow> en_detail e | _ \<Rightarrow> None)\<rparr>"

text \<open>
  Emission on the parent's bus, with a clock reading of its own: the contract first, then the
  listeners, whose answer is given.
\<close>

definition emit_log :: "payload \<Rightarrow> unit result \<Rightarrow> int \<Rightarrow> dispatcher \<Rightarrow> unit result \<times> dispatcher" where
  "emit_log p heard at_time ds = (case assert_payload_contract p of
     Inl x \<Rightarrow> (Inl x, ds)
   | Inr _ \<Rightarrow> (case heard of
       Inl x \<Rightarrow> (Inl x, ds)
     | Inr _ \<Rightarrow> (Inr (), ds\<lparr>ds_log := ds_log ds @ [(Some at_time, p)]\<rparr>)))"

section \<open>Dispatching\<close>

definition settle_dispatch :: "nat \<Rightarrow> dispatch_result result \<Rightarrow> dispatcher \<Rightarrow> dispatcher" where
  "settle_dispatch i res ds = ds\<lparr>ds_results := ds_results ds @ [(i, res)]\<rparr>"

definition check_dispatch ::
  "subagent_options \<Rightarrow> dispatch_parent \<Rightarrow> dispatch_input \<Rightarrow> nat \<Rightarrow> (resolved_agent option \<times> resource_budget) result"
where
  "check_dispatch opts parent input active =
     (if max_depth opts < int (l_depth (ss_lineage (pa_state parent))) + 1
      then throw ''VOLUND_SUBAGENT_DEPTH_EXCEEDED'' ''''
      else if max_concurrency opts \<le> int active then throw ''VOLUND_SUBAGENT_CONCURRENCY_EXCEEDED'' ''''
      else bind_result (case (truthy (di_agent input), so_agents opts) of
              (Some name, Some agents) \<Rightarrow> resolve_agent_type agents name
            | _ \<Rightarrow> Inr None) (\<lambda>agent.
           bind_result (resolve_budget (so_default opts) (di_budget input)) (\<lambda>budget. Inr (agent, budget))))"

definition child_state :: "dispatch_parent \<Rightarrow> dispatch_input \<Rightarrow> string \<Rightarrow> resource_budget \<Rightarrow> int \<Rightarrow> session_state" where
  "child_state parent input sid budget now =
     create_session now sid (ss_cwd (pa_state parent)) (ss_tool_snapshot (pa_state parent))
       (cb_max_tokens (ss_budget (pa_state parent)))
       (Some (child_lineage (pa_state parent) (pa_turn parent) (truthy (di_agent input)))) (Some budget)"

definition do_dispatch ::
  "subagent_options \<Rightarrow> dispatch_parent \<Rightarrow> dispatch_input \<Rightarrow> bool \<Rightarrow> string \<Rightarrow> int \<Rightarrow> dispatcher \<Rightarrow> dispatcher" where
  "do_dispatch opts parent input aborted sid now ds =
     (let i = ds_next ds; ds1 = ds\<lparr>ds_next := i + 1\<rparr>
      in case check_dispatch opts parent input (length (ds_active ds)) of
        Inl e \<Rightarrow> settle_dispatch i (Inl e) ds1
      | Inr (agent, budget) \<Rightarrow>
          if aborted
          then settle_dispatch i (Inr \<lparr>dr_session = [], dr_status = Done_Cancelled, dr_text = [], dr_error = None\<rparr>) ds1
          else ds1\<lparr>ds_pending := map_set i
                 \<lparr>pd_parent = parent, pd_input = input, pd_state = child_state parent input sid budget now,
                  pd_budget = budget, pd_agent = agent\<rparr> (ds_pending ds)\<rparr>)"

definition dispatched_payload :: "pending \<Rightarrow> run_entry \<Rightarrow> dispatched" where
  "dispatched_payload p e =
     \<lparr>dp_session = ss_id (pd_state p), dp_parent_session = ss_id (pa_state (pd_parent p)),
      dp_parent_turn = pa_turn (pd_parent p), dp_agent_type = truthy (di_agent (pd_input p)), dp_depth = en_depth e,
      dp_tier = 0, dp_fork = False, dp_write_paths = None,
      dp_token_max = rb_token_max (event_budget_of (pd_budget p)),
      dp_cost_max = rb_cost_max (event_budget_of (pd_budget p)),
      dp_time_max = rb_time_max (event_budget_of (pd_budget p)), dp_digest = en_preview e,
      dp_ctx_in = int (estimate_tokens (di_prompt (pd_input p)))\<rparr>"

definition child_depth :: "pending \<Rightarrow> int" where
  "child_depth p = int (l_depth (ss_lineage (pa_state (pd_parent p)))) + 1"

text \<open>
  The runner is there: it is registered before the announcement, and an announcement that fails
  leaves it registered. The listener for the abort of the parent's signal does not fire for an abort
  that has already happened.
\<close>

definition do_ready ::
  "subagent_options \<Rightarrow> nat \<Rightarrow> unit result \<Rightarrow> int \<Rightarrow> int \<Rightarrow> unit result \<Rightarrow> dispatcher \<Rightarrow> dispatcher" where
  "do_ready opts i made now at_time heard ds = (case map_get (ds_pending ds) i of
     None \<Rightarrow> ds
   | Some p \<Rightarrow>
       let ds1 = ds\<lparr>ds_pending := map_delete i (ds_pending ds)\<rparr>
       in case made of
         Inl e \<Rightarrow> settle_dispatch i (Inl e) ds1
       | Inr _ \<Rightarrow>
           let sid = ss_id (pd_state p);
               e = new_entry opts sid (ss_id (pa_state (pd_parent p))) (pd_input p) (child_depth p) (pd_budget p) now;
               fl = \<lparr>fl_index = i, fl_parent = pd_parent p, fl_entry = e, fl_listening = i \<notin> set (ds_aborted ds)\<rparr>;
               ds2 = ds1\<lparr>ds_active := map_set sid fl (ds_active ds), ds_runs := trim_runs opts (ds_runs ds @ [e])\<rparr>;
               (r, ds3) = emit_log (Subagent_Dispatched (dispatched_payload p e)) heard at_time ds2
           in case r of Inl x \<Rightarrow> settle_dispatch i (Inl x) ds3 | Inr _ \<Rightarrow> ds3)"

datatype run_outcome = Returned session_state | Threw ustr

definition last_turn_aborted :: "session_state \<Rightarrow> bool" where
  "last_turn_aborted s = (case rev (ss_turns s) of [] \<Rightarrow> False | t # ts \<Rightarrow> t_status t = Turn_Aborted)"

text \<open>How a run that returned is settled: status, note of the entry and the answer.\<close>

definition returned_as :: "bool \<Rightarrow> session_state \<Rightarrow> run_status \<times> ustr option \<times> dispatch_status \<times> ustr" where
  "returned_as aborted final =
     (let t = last_assistant_text (ss_messages final)
      in if aborted then (Run_Cancelled, None, Done_Cancelled, t)
         else if last_turn_aborted final
         then (Partial_Run, Some (ascii ''budget exhausted, partial result''), Done_Partial, budget_note t)
         else (Run_Completed, None, Done_Completed, t))"

definition fail_dispatch ::
  "string \<Rightarrow> ustr \<Rightarrow> int \<Rightarrow> int \<Rightarrow> unit result \<Rightarrow> flight \<Rightarrow> dispatcher \<Rightarrow> dispatch_result result \<times> dispatcher" where
  "fail_dispatch sid msg now at_time heard fl ds =
     (let (fl1, ds1) = finish_run sid Run_Failed None (Some msg) now fl ds;
          (r, ds2) = emit_log (Subagent_Settled (settled_payload (fl_entry fl1) 0 now)) heard at_time ds1
      in (bind_result r (\<lambda>_. Inr \<lparr>dr_session = sid, dr_status = Done_Failed, dr_text = [],
            dr_error = Some (''VOLUND_SUBAGENT_FAILED'', msg)\<rparr>), ds2))"

definition complete_dispatch ::
  "string \<Rightarrow> session_state \<Rightarrow> bool \<Rightarrow> int \<Rightarrow> int \<Rightarrow> unit result \<Rightarrow> unit result \<Rightarrow> flight \<Rightarrow> dispatcher \<Rightarrow>
     dispatch_result result \<times> dispatcher" where
  "complete_dispatch sid final aborted now at_time heard heard2 fl ds =
     (let (status, detail, answer, t) = returned_as aborted final;
          (fl1, ds1) = finish_run sid status (Some final) detail now fl ds;
          (r, ds2) = emit_log (Subagent_Settled (settled_payload (fl_entry fl1) (estimate_tokens t) now)) heard at_time ds1
      in case r of
        Inr _ \<Rightarrow> (Inr \<lparr>dr_session = ss_id final, dr_status = answer, dr_text = t, dr_error = None\<rparr>, ds2)
      | Inl x \<Rightarrow> fail_dispatch sid (ascii (err_detail x)) now at_time heard2 fl1 ds2)"

definition do_done ::
  "string \<Rightarrow> run_outcome \<Rightarrow> int \<Rightarrow> int \<Rightarrow> unit result \<Rightarrow> unit result \<Rightarrow> dispatcher \<Rightarrow> dispatcher" where
  "do_done sid outcome now at_time heard heard2 ds = (case map_get (ds_active ds) sid of
     None \<Rightarrow> ds
   | Some fl \<Rightarrow>
       let (res, ds1) = (case outcome of
              Returned final \<Rightarrow>
                complete_dispatch sid final (fl_index fl \<in> set (ds_aborted ds)) now at_time heard heard2 fl ds
            | Threw msg \<Rightarrow> fail_dispatch sid msg now at_time heard fl ds)
       in settle_dispatch (fl_index fl) res (ds1\<lparr>ds_active := map_delete sid (ds_active ds1)\<rparr>))"

section \<open>Cancelling\<close>

definition do_cancel :: "string \<Rightarrow> dispatcher \<Rightarrow> dispatcher" where
  "do_cancel sid ds =
     (if map_has (ds_active ds) sid
      then ds\<lparr>ds_cancelled := List.insert sid (ds_cancelled ds), ds_interrupts := ds_interrupts ds @ [sid]\<rparr>
      else ds)"

definition do_cancel_all :: "dispatcher \<Rightarrow> dispatcher" where
  "do_cancel_all ds =
     (let live = map_keys (ds_active ds)
      in ds\<lparr>ds_cancelled := fold List.insert live (ds_cancelled ds), ds_interrupts := ds_interrupts ds @ live\<rparr>)"

definition do_abort :: "nat \<Rightarrow> dispatcher \<Rightarrow> dispatcher" where
  "do_abort i ds =
     (if i \<in> set (ds_aborted ds) then ds
      else ds\<lparr>ds_aborted := i # ds_aborted ds,
              ds_interrupts := ds_interrupts ds @
                map fst (filter (\<lambda>(sid, fl). fl_index fl = i \<and> fl_listening fl) (ds_active ds))\<rparr>)"

section \<open>The registry rebuilt from the log\<close>

definition entry_of_dispatched :: "int \<Rightarrow> int option \<Rightarrow> dispatched \<Rightarrow> run_entry" where
  "entry_of_dispatched now at_time d =
     \<lparr>en_session = dp_session d, en_parent = dp_parent_session d, en_agent = truthy (dp_agent_type d),
      en_depth = dp_depth d, en_status = Running, en_started = given at_time now, en_ended = None,
      en_preview = dp_digest d, en_prompt = dp_digest d,
      en_budget = Some (event_budget_of \<lparr>rb_token_max = dp_token_max d, rb_cost_max = dp_cost_max d,
        rb_time_max = dp_time_max d, rb_tool_call_max = None\<rparr>),
      en_usage = None, en_tool_calls = None, en_detail = None\<rparr>"

definition run_status_of :: "settle_status \<Rightarrow> run_status" where
  "run_status_of s = (case s of Completed \<Rightarrow> Run_Completed | Failed \<Rightarrow> Run_Failed | Cancelled_Run \<Rightarrow> Run_Cancelled)"

definition settle_entry :: "int option \<Rightarrow> settled \<Rightarrow> run_entry \<Rightarrow> run_entry" where
  "settle_entry at_time s e =
     (let e1 = e\<lparr>en_status := run_status_of (st_status s), en_ended := Some (given at_time (en_started e)),
          en_usage := Some (u_input (st_usage s), u_output (st_usage s), or_zero (u_cost (st_usage s))),
          en_tool_calls := Some (nat (st_tool_calls s))\<rparr>
      in case st_detail s of Some (c # cs) \<Rightarrow> e1\<lparr>en_detail := st_detail s\<rparr> | _ \<Rightarrow> e1)"

definition journal_step ::
  "int \<Rightarrow> string list \<Rightarrow> run_entry list \<Rightarrow> int option \<times> payload \<Rightarrow> run_entry list" where
  "journal_step now known rows ev = (case ev of
     (at_time, Subagent_Dispatched d) \<Rightarrow>
       if \<not> subagent_dispatched_ok d \<or> dp_session d \<in> set known \<or> dp_session d \<in> en_session ` set rows then rows
       else rows @ [entry_of_dispatched now at_time d]
   | (at_time, Subagent_Settled s) \<Rightarrow>
       if \<not> subagent_settled_ok s then rows
       else map (\<lambda>e. if en_session e = st_session s then settle_entry at_time s e else e) rows
   | _ \<Rightarrow> rows)"

definition interrupted_if_running :: "run_entry \<Rightarrow> run_entry" where
  "interrupted_if_running e = (if en_status e = Running then e\<lparr>en_status := Interrupted\<rparr> else e)"

definition merge_runs :: "subagent_options \<Rightarrow> run_entry list \<Rightarrow> dispatcher \<Rightarrow> dispatcher" where
  "merge_runs opts rows ds =
     (if rows = [] then ds
      else ds\<lparr>ds_runs := trim_runs opts (sort_key en_started (ds_runs ds @ rows))\<rparr>)"

definition rebuild_from_journal ::
  "subagent_options \<Rightarrow> int \<Rightarrow> (int option \<times> payload) list \<Rightarrow> dispatcher \<Rightarrow> nat \<times> dispatcher" where
  "rebuild_from_journal opts now events ds =
     (let rows = foldl (journal_step now (map en_session (ds_runs ds))) [] events
      in (length rows, merge_runs opts (map interrupted_if_running rows) ds))"

definition inherit_runs :: "subagent_options \<Rightarrow> dispatcher \<Rightarrow> dispatcher \<Rightarrow> nat \<times> dispatcher" where
  "inherit_runs opts previous ds =
     (let rows = filter (\<lambda>e. en_session e \<notin> en_session ` set (ds_runs ds)) (ds_runs previous)
      in (length rows, merge_runs opts rows ds))"

section \<open>Runs of the dispatcher\<close>

datatype dispatch_event =
    Dispatch dispatch_parent dispatch_input bool string int
  | Runner_Ready nat "unit result" int int "unit result"
  | Runner_Done string run_outcome int int "unit result" "unit result"
  | Cancel_One string
  | Cancel_All
  | Parent_Abort nat
  | Rebuild int "(int option \<times> payload) list"
  | Inherit dispatcher

fun dispatch_step :: "subagent_options \<Rightarrow> dispatcher \<Rightarrow> dispatch_event \<Rightarrow> dispatcher" where
  "dispatch_step opts ds (Dispatch parent input aborted sid now) = do_dispatch opts parent input aborted sid now ds"
| "dispatch_step opts ds (Runner_Ready i made now at_time heard) = do_ready opts i made now at_time heard ds"
| "dispatch_step opts ds (Runner_Done sid outcome now at_time heard heard2) =
    do_done sid outcome now at_time heard heard2 ds"
| "dispatch_step opts ds (Cancel_One sid) = do_cancel sid ds"
| "dispatch_step opts ds Cancel_All = do_cancel_all ds"
| "dispatch_step opts ds (Parent_Abort i) = do_abort i ds"
| "dispatch_step opts ds (Rebuild now events) = snd (rebuild_from_journal opts now events ds)"
| "dispatch_step opts ds (Inherit previous) = snd (inherit_runs opts previous ds)"

definition dispatch_run :: "subagent_options \<Rightarrow> dispatch_event list \<Rightarrow> dispatcher" where
  "dispatch_run opts es = foldl (dispatch_step opts) new_dispatcher es"

end
