(* ===== verification/Subagent_Registry.thy ===== *)
theory Subagent_Registry
  imports Subagent "HOL-Library.Multiset"
begin

text \<open>
  Budgets can only be tightened, and the registry of runs agrees with the log: \<open>journal_inv\<close> relates
  the rows the log replays to (\<open>same_row\<close>) to the entries of the registry, step by step, and
  \<open>dispatcher_inv\<close> bounds the registry.
\<close>

section \<open>Budgets\<close>

definition no_looser :: "'a::linorder option \<Rightarrow> 'a option \<Rightarrow> bool" where
  "no_looser cap x = (case cap of None \<Rightarrow> True | Some c \<Rightarrow> (case x of None \<Rightarrow> False | Some v \<Rightarrow> v \<le> c))"

definition budget_within :: "resource_budget \<Rightarrow> resource_budget \<Rightarrow> bool" where
  "budget_within d b \<longleftrightarrow> no_looser (rb_token_max d) (rb_token_max b) \<and> no_looser (rb_cost_max d) (rb_cost_max b) \<and>
     no_looser (rb_time_max d) (rb_time_max b) \<and> no_looser (rb_tool_call_max d) (rb_tool_call_max b)"

lemma above_iff: "above r c \<longleftrightarrow> (\<exists>x y. r = Some x \<and> c = Some y \<and> y < x)"
  by (auto simp: above_def split: option.splits)

lemma no_looser_or_else: "no_looser c (or_else r c) \<longleftrightarrow> \<not> above r c"
  by (auto simp: no_looser_def or_else_def above_def split: option.splits)

lemma no_looser_refl [simp]: "no_looser c c"
  by (simp add: no_looser_def split: option.split)

lemma exceeded_None_iff: "exceeded_dimension b d = None \<longleftrightarrow> budget_within d (merge_budget b d)"
  by (auto simp: exceeded_dimension_def budget_within_def merge_budget_def no_looser_or_else)

text \<open>
  A budget can only be tightened: a dispatch either runs with a budget that is, in every
  dimension the default limits, within the default, and that is the request completed with the
  default; or it is refused, naming a dimension in which the request exceeds the default.
\<close>
theorem budget_only_tightens:
  "case resolve_budget (Some d) input of
     Inr b \<Rightarrow> budget_within d b \<and> b = (case input of None \<Rightarrow> d | Some r \<Rightarrow> merge_budget r d)
   | Inl e \<Rightarrow> err_code e = ''VOLUND_SUBAGENT_BUDGET_EXCEEDS_DEFAULT'' \<and>
       (\<exists>r. input = Some r \<and> exceeded_dimension r d = Some (err_detail e) \<and> \<not> budget_within d (merge_budget r d))"
proof (cases input)
  case None
  then show ?thesis by (simp add: resolve_budget_def budget_within_def)
next
  case (Some r)
  then show ?thesis using exceeded_None_iff [of r d]
    by (auto simp: resolve_budget_def split: option.splits)
qed

section \<open>The registry and the log\<close>

text \<open>What the log keeps of an entry: the digest of the prompt, the announced budget, and of a run
  that has ended the settled status and figures. Clock readings are set aside.\<close>

definition announced :: "run_entry \<Rightarrow> run_entry" where
  "announced e =
     (let e1 = e\<lparr>en_prompt := en_preview e, en_budget := Some (event_budget_of (given (en_budget e) no_budget))\<rparr>
      in if en_status e = Running then e1
         else e1\<lparr>en_status := run_status_of (settled_status (en_status e)),
                 en_usage := Some (given (en_usage e) (0, 0, 0)),
                 en_tool_calls := Some (given (en_tool_calls e) 0)\<rparr>)"

definition untimed :: "run_entry \<Rightarrow> run_entry" where
  "untimed e = e\<lparr>en_started := 0, en_ended := None\<rparr>"

definition same_row :: "run_entry \<Rightarrow> run_entry \<Rightarrow> bool" where
  "same_row row e \<longleftrightarrow> untimed row = untimed (announced e)"

definition pending_id :: "nat \<times> pending \<Rightarrow> string" where
  "pending_id ip = ss_id (pd_state (snd ip))"

definition parent_ok :: "dispatch_parent \<Rightarrow> bool" where
  "parent_ok p \<longleftrightarrow> ss_id (pa_state p) \<noteq> [] \<and> pa_turn p \<noteq> []"

definition pending_ok :: "subagent_options \<Rightarrow> pending \<Rightarrow> bool" where
  "pending_ok opts p \<longleftrightarrow> parent_ok (pd_parent p) \<and> ss_id (pd_state p) \<noteq> [] \<and>
     (di_budget (pd_input p) = None \<longrightarrow> so_default opts = None \<longrightarrow> pd_budget p = no_budget)"

definition live_entry :: "string \<Rightarrow> run_entry \<Rightarrow> bool" where
  "live_entry sid e \<longleftrightarrow> en_session e = sid \<and> en_status e = Running \<and> en_usage e = None \<and>
     en_tool_calls e = None \<and> en_detail e = None \<and> sid \<noteq> []"

definition logged_session :: "int option \<times> payload \<Rightarrow> string option" where
  "logged_session ev = (case snd ev of Subagent_Dispatched d \<Rightarrow> Some (dp_session d) | _ \<Rightarrow> None)"

fun child_ids :: "dispatch_event list \<Rightarrow> string list" where
  "child_ids [] = []"
| "child_ids (Dispatch p i a sid now # es) = sid # child_ids es"
| "child_ids (e # es) = child_ids es"

lemma child_ids_append [simp]: "child_ids (xs @ ys) = child_ids xs @ child_ids ys"
  by (induction xs rule: child_ids.induct) simp_all

definition usage_sane :: "session_state \<Rightarrow> bool" where
  "usage_sane s \<longleftrightarrow> 0 \<le> cu_input (ss_usage s) \<and> 0 \<le> cu_output (ss_usage s) \<and> 0 \<le> cu_cost (ss_usage s)"

text \<open>Events of a dispatcher whose parents are well formed and whose log accepts what it is given.\<close>

fun orderly :: "dispatch_event \<Rightarrow> bool" where
  "orderly (Dispatch p i a sid now) = (parent_ok p \<and> sid \<noteq> [])"
| "orderly (Runner_Ready i made now at_time heard) = (heard = Inr ())"
| "orderly (Runner_Done sid outcome now at_time heard heard2) =
     (heard = Inr () \<and> (case outcome of Returned s \<Rightarrow> usage_sane s | Threw m \<Rightarrow> True))"
| "orderly (Rebuild now events) = False"
| "orderly (Inherit previous) = False"
| "orderly e = True"

definition journal_inv :: "subagent_options \<Rightarrow> int \<Rightarrow> string list \<Rightarrow> dispatcher \<Rightarrow> bool" where
  "journal_inv opts now ids ds \<longleftrightarrow>
     list_all2 same_row (foldl (journal_step now []) [] (ds_log ds)) (ds_runs ds) \<and>
     map_wf (ds_active ds) \<and> map_wf (ds_pending ds) \<and>
     distinct (map en_session (ds_runs ds) @ map pending_id (ds_pending ds)) \<and>
     set (map en_session (ds_runs ds)) \<union> set (map pending_id (ds_pending ds)) \<subseteq> set ids \<and>
     (\<forall>(i, p) \<in> set (ds_pending ds). pending_ok opts p) \<and>
     (\<forall>(sid, fl) \<in> set (ds_active ds). live_entry sid (fl_entry fl) \<and> fl_entry fl \<in> set (ds_runs ds)) \<and>
     length (ds_runs ds) + length (ds_pending ds) \<le> length ids \<and>
     (\<forall>ev \<in> set (ds_log ds). \<forall>s. logged_session ev = Some s \<longrightarrow> s \<in> en_session ` set (ds_runs ds))"

lemma event_budget_idem: "event_budget_of (event_budget_of b) = event_budget_of b"
  by (auto simp: event_budget_of_def registered_max_def split: option.splits)

lemma truthy_idem [simp]: "truthy (truthy x) = truthy x"
  by (simp add: truthy_def)

lemma digest_nonempty: "prompt_digest_of p \<noteq> []"
  by (simp add: prompt_digest_of_def Let_def)

lemma dispatched_ok:
  assumes "pending_ok opts p"
  shows "subagent_dispatched_ok (dispatched_payload p (new_entry opts sid par (pd_input p) (child_depth p) b now))"
  using assms digest_nonempty
  by (auto simp: subagent_dispatched_ok_def dispatched_payload_def pending_ok_def parent_ok_def min1_def opt_ok_def
      positive_def nonneg_def new_entry_def child_depth_def event_budget_of_def registered_max_def truthy_def
      split: option.splits)

lemma dispatched_row:
  assumes "pending_ok opts p"
  shows "same_row (entry_of_dispatched clock (Some at_time)
        (dispatched_payload p (new_entry opts (ss_id (pd_state p)) (ss_id (pa_state (pd_parent p))) (pd_input p)
          (child_depth p) (pd_budget p) now)))
      (new_entry opts (ss_id (pd_state p)) (ss_id (pa_state (pd_parent p))) (pd_input p) (child_depth p) (pd_budget p) now)"
  using assms event_budget_idem [of "pd_budget p"] event_budget_idem [of no_budget]
  by (auto simp: same_row_def untimed_def announced_def entry_of_dispatched_def dispatched_payload_def new_entry_def
      pending_ok_def event_budget_of_def)


lemma same_row_iff:
  "same_row row e \<longleftrightarrow> en_session row = en_session e \<and> en_parent row = en_parent e \<and> en_agent row = en_agent e \<and>
     en_depth row = en_depth e \<and> en_preview row = en_preview e \<and> en_prompt row = en_preview e \<and>
     en_budget row = Some (event_budget_of (given (en_budget e) no_budget)) \<and> en_detail row = en_detail e \<and>
     (if en_status e = Running
      then en_status row = Running \<and> en_usage row = en_usage e \<and> en_tool_calls row = en_tool_calls e
      else en_status row = run_status_of (settled_status (en_status e)) \<and>
           en_usage row = Some (given (en_usage e) (0, 0, 0)) \<and>
           en_tool_calls row = Some (given (en_tool_calls e) 0))"
  by (cases row; cases e) (auto simp: same_row_def untimed_def announced_def)

definition nonempty :: "ustr option \<Rightarrow> ustr option \<Rightarrow> ustr option" where
  "nonempty d old = (case d of Some (c # cs) \<Rightarrow> d | _ \<Rightarrow> old)"

lemma finished_simps [simp]:
  "en_session (finished status final detail c now e) = en_session e"
  "en_parent (finished status final detail c now e) = en_parent e"
  "en_agent (finished status final detail c now e) = en_agent e"
  "en_depth (finished status final detail c now e) = en_depth e"
  "en_preview (finished status final detail c now e) = en_preview e"
  "en_prompt (finished status final detail c now e) = en_prompt e"
  "en_budget (finished status final detail c now e) = en_budget e"
  "en_status (finished status final detail c now e) = (if c then Run_Cancelled else status)"
  "en_usage (finished status final detail c now e) = (case final of None \<Rightarrow> en_usage e
     | Some s \<Rightarrow> Some (cu_input (ss_usage s), cu_output (ss_usage s), cu_cost (ss_usage s)))"
  "en_tool_calls (finished status final detail c now e) =
     (case final of None \<Rightarrow> en_tool_calls e | Some s \<Rightarrow> Some (tool_uses_of (ss_messages s)))"
  "en_detail (finished status final detail c now e) = nonempty detail (en_detail e)"
  by (simp_all add: finished_def Let_def nonempty_def split: option.split list.split)

lemma settle_entry_simps [simp]:
  "en_session (settle_entry a s e) = en_session e"
  "en_parent (settle_entry a s e) = en_parent e"
  "en_agent (settle_entry a s e) = en_agent e"
  "en_depth (settle_entry a s e) = en_depth e"
  "en_preview (settle_entry a s e) = en_preview e"
  "en_prompt (settle_entry a s e) = en_prompt e"
  "en_budget (settle_entry a s e) = en_budget e"
  "en_status (settle_entry a s e) = run_status_of (st_status s)"
  "en_usage (settle_entry a s e) = Some (u_input (st_usage s), u_output (st_usage s), or_zero (u_cost (st_usage s)))"
  "en_tool_calls (settle_entry a s e) = Some (nat (st_tool_calls s))"
  "en_detail (settle_entry a s e) = nonempty (st_detail s) (en_detail e)"
  by (simp_all add: settle_entry_def Let_def nonempty_def split: option.split list.split)

lemma settled_payload_simps [simp]:
  "st_session (settled_payload e ctx t) = en_session e"
  "st_status (settled_payload e ctx t) = settled_status (en_status e)"
  "st_tool_calls (settled_payload e ctx t) = int (given (en_tool_calls e) 0)"
  "st_detail (settled_payload e ctx t) = nonempty (en_detail e) None"
  "u_input (st_usage (settled_payload e ctx t)) = fst (given (en_usage e) (0, 0, 0))"
  "u_output (st_usage (settled_payload e ctx t)) = fst (snd (given (en_usage e) (0, 0, 0)))"
  "or_zero (u_cost (st_usage (settled_payload e ctx t))) = snd (snd (given (en_usage e) (0, 0, 0)))"
  by (simp_all add: settled_payload_def nonempty_def given_def or_zero_def split: option.split list.split)

lemma nonempty_None [simp]: "nonempty (nonempty d None) None = nonempty d None"
  by (simp add: nonempty_def split: option.split list.split)

lemma settled_row:
  assumes live: "live_entry sid e" and row: "same_row row e" and st: "status \<noteq> Running"
  shows "same_row (settle_entry at_time (settled_payload (finished status final detail c now e) ctx t) row)
    (finished status final detail c now e)"
proof -
  have s: "(if c then Run_Cancelled else status) \<noteq> Running" using st by simp
  have d: "en_detail e = None" "en_status e = Running" using live by (simp_all add: live_entry_def)
  show ?thesis
    using row d s by (simp add: same_row_iff [of _ "finished status final detail c now e"]) (simp add: same_row_iff)
qed

lemma settled_ok:
  assumes "live_entry sid e" and "\<And>s. final = Some s \<Longrightarrow> usage_sane s"
  shows "subagent_settled_ok (settled_payload (finished status final detail c now e) ctx t)"
proof (cases final)
  case None
  with assms(1) show ?thesis
    by (simp add: subagent_settled_ok_def live_entry_def min1_def nonneg_def usage_ok_def) (simp add: settled_payload_def)
next
  case (Some s)
  with assms show ?thesis
    by (simp add: subagent_settled_ok_def live_entry_def min1_def nonneg_def usage_ok_def usage_sane_def)
      (simp add: settled_payload_def nonneg_def)
qed

lemma replace_rows:
  assumes rows: "list_all2 same_row rows rs" and d: "distinct (map en_session rs)" and e: "e \<in> set rs"
    and new: "\<And>row. same_row row e \<Longrightarrow> same_row (f row) e'"
  shows "list_all2 same_row (map (\<lambda>r. if en_session r = en_session e then f r else r) rows) (replace_entry e e' rs)"
  using rows d e
proof (induction rows rs rule: list_all2_induct)
  case (Cons row rows r rs)
  have s: "en_session row = en_session r" using Cons.hyps(1) by (simp add: same_row_iff)
  show ?case
  proof (cases "r = e")
    case True
    have *: "\<forall>x \<in> set rs. en_session x \<noteq> en_session e" 
    proof -
      have "en_session e \<notin> set (map en_session rs)" using Cons.prems(1) True by simp
      then show ?thesis by (metis image_eqI set_map)
    qed
    then have "replace_entry e e' rs = rs" unfolding replace_entry_def by (intro map_idI) auto
    moreover have "map (\<lambda>r. if en_session r = en_session e then f r else r) rows = rows"
    proof (rule map_idI)
      fix x assume "x \<in> set rows"
      then obtain i where "i < length rows" "x = rows ! i" by (auto simp: in_set_conv_nth)
      then have "rs ! i \<in> set rs" "same_row x (rs ! i)"
        using Cons.hyps(2) by (simp_all add: list_all2_conv_all_nth)
      with * show "(if en_session x = en_session e then f x else x) = x" by (auto simp: same_row_iff)
    qed
    moreover have "replace_entry e e' (r # rs) = e' # replace_entry e e' rs"
      using True by (simp add: replace_entry_def)
    moreover have "same_row (f row) e'" using Cons.hyps(1) True by (intro new) simp
    moreover have "en_session row = en_session e" using s True by simp
    ultimately show ?thesis using Cons.hyps(2) by (simp only: list.map if_True list_all2_Cons simp_thms)
  next
    case False
    with Cons.prems have "e \<in> set rs" "en_session r \<noteq> en_session e" by auto
    with Cons False s show ?thesis by (simp add: replace_entry_def)
  qed
qed simp

lemma replace_sessions: "en_session e' = en_session e \<Longrightarrow> map en_session (replace_entry e e' rs) = map en_session rs"
  by (auto simp: replace_entry_def)

lemma emit_heard: "valid_payload p \<Longrightarrow> emit_log p (Inr ()) at_time ds = (Inr (), ds\<lparr>ds_log := ds_log ds @ [(Some at_time, p)]\<rparr>)"
  by (simp add: emit_log_def assert_payload_contract_def)

text \<open>Finishing an entry and announcing it moves the registry and the log together.\<close>

lemma rows_sessions: "list_all2 same_row rows rs \<Longrightarrow> map en_session rows = map en_session rs"
  by (induction rows rs rule: list_all2_induct) (auto simp: same_row_iff)

lemma settle_keeps:
  fixes now :: int and detail :: "ustr option"
  assumes inv: "journal_inv opts clock ids ds" and fl: "map_get (ds_active ds) sid = Some fl"
    and st: "status \<noteq> Running" and use: "\<And>s. final = Some s \<Longrightarrow> usage_sane s"
  defines "e' \<equiv> finished status final detail (sid \<in> set (ds_cancelled ds)) now (fl_entry fl)"
  shows "journal_inv opts clock ids
    (ds\<lparr>ds_runs := replace_entry (fl_entry fl) e' (ds_runs ds), ds_cancelled := xs,
        ds_log := ds_log ds @ [(Some at_time, Subagent_Settled (settled_payload e' ctx t))],
        ds_active := map_delete sid (ds_active ds), ds_results := res\<rparr>)"
proof -
  have live: "live_entry sid (fl_entry fl)" "fl_entry fl \<in> set (ds_runs ds)"
    using inv map_of_SomeD [OF fl] by (auto simp: journal_inv_def)
  have ok: "subagent_settled_ok (settled_payload e' ctx t)" unfolding e'_def by (rule settled_ok [OF live(1) use])
  have ss: "st_session (settled_payload e' ctx t) = en_session (fl_entry fl)"
    by (simp add: e'_def)
  have d: "distinct (map en_session (ds_runs ds))" using inv by (simp add: journal_inv_def)
  have rows: "list_all2 same_row (foldl (journal_step clock []) [] (ds_log ds @ [(Some at_time, Subagent_Settled (settled_payload e' ctx t))]))
      (replace_entry (fl_entry fl) e' (ds_runs ds))"
  proof -
    have "list_all2 same_row (foldl (journal_step clock []) [] (ds_log ds)) (ds_runs ds)"
      using inv by (simp add: journal_inv_def)
    from replace_rows [OF this d live(2) settled_row [OF live(1) _ st]]
    show ?thesis using ok ss by (simp add: journal_step_def e'_def)
  qed
  have ses: "map en_session (replace_entry (fl_entry fl) e' (ds_runs ds)) = map en_session (ds_runs ds)"
    by (rule replace_sessions) (simp add: e'_def)
  then have ses': "en_session ` set (replace_entry (fl_entry fl) e' (ds_runs ds)) = en_session ` set (ds_runs ds)"
    by (metis set_map)
  have act: "live_entry s (fl_entry g) \<and> fl_entry g \<in> set (replace_entry (fl_entry fl) e' (ds_runs ds))"
    if "(s, g) \<in> set (map_delete sid (ds_active ds))" for s g
  proof -
    have wf: "map_wf (ds_active ds)" using inv by (simp add: journal_inv_def)
    have "map_get (map_delete sid (ds_active ds)) s = Some g"
      using that wf by (metis distinct_map map_keys_def map_of_is_SomeI map_wf_def map_wf_delete)
    with map_get_delete [OF wf] have s: "s \<noteq> sid" "(s, g) \<in> set (ds_active ds)"
      by (auto split: if_splits dest: map_of_SomeD)
    with inv have "live_entry s (fl_entry g)" "fl_entry g \<in> set (ds_runs ds)" by (auto simp: journal_inv_def)
    with s live(1) show ?thesis by (force simp: live_entry_def replace_entry_def)
  qed
  have len: "length (replace_entry (fl_entry fl) e' (ds_runs ds)) = length (ds_runs ds)" by (simp add: replace_entry_def)
  have log: "logged_session (Some at_time, Subagent_Settled (settled_payload e' ctx t)) = None" by (simp add: logged_session_def)
  show ?thesis
    using inv rows act unfolding journal_inv_def
    by (auto simp: ses ses' len log simp del: set_map)
qed


lemma inv_same:
  assumes "journal_inv opts clock ids ds" "ds_log ds' = ds_log ds" "ds_runs ds' = ds_runs ds"
    "ds_active ds' = ds_active ds" "ds_pending ds' = ds_pending ds" "set ids \<subseteq> set ids'" "length ids \<le> length ids'"
  shows "journal_inv opts clock ids' ds'"
  using assms unfolding journal_inv_def by force

lemma journal_invI:
  assumes "list_all2 same_row (foldl (journal_step clock []) [] lg) rs"
    "map_wf act" "map_wf pend" "distinct (map en_session rs @ map pending_id pend)"
    "set (map en_session rs) \<union> set (map pending_id pend) \<subseteq> set ids" "\<forall>(i, p) \<in> set pend. pending_ok opts p"
    "\<forall>(sid, fl) \<in> set act. live_entry sid (fl_entry fl) \<and> fl_entry fl \<in> set rs"
    "length rs + length pend \<le> length ids"
    "\<forall>ev \<in> set lg. \<forall>s. logged_session ev = Some s \<longrightarrow> s \<in> en_session ` set rs"
    "ds_log ds = lg" "ds_runs ds = rs" "ds_active ds = act" "ds_pending ds = pend"
  shows "journal_inv opts clock ids ds"
  unfolding journal_inv_def using assms by blast

lemma cancel_keeps:
  assumes "journal_inv opts clock ids ds"
  shows "journal_inv opts clock ids (do_cancel sid ds)" "journal_inv opts clock ids (do_cancel_all ds)"
    "journal_inv opts clock ids (do_abort i ds)"
  by (rule inv_same [OF assms]; simp add: do_cancel_def do_cancel_all_def do_abort_def Let_def)+

lemma settle_only: "journal_inv opts clock ids ds \<Longrightarrow> journal_inv opts clock ids (settle_dispatch i res ds)"
  by (erule inv_same) (simp_all add: settle_dispatch_def)

lemma done_keeps:
  assumes inv: "journal_inv opts clock ids ds"
    and out: "case outcome of Returned s \<Rightarrow> usage_sane s | Threw m \<Rightarrow> True"
  shows "journal_inv opts clock ids (do_done sid outcome now at_time (Inr ()) heard2 ds)"
proof (cases "map_get (ds_active ds) sid")
  case (Some fl)
  have live: "live_entry sid (fl_entry fl)" using inv map_of_SomeD [OF Some] by (auto simp: journal_inv_def)
  show ?thesis
  proof (cases outcome)
    case (Returned s)
    obtain status detail answer t where r: "returned_as (fl_index fl \<in> set (ds_aborted ds)) s = (status, detail, answer, t)"
      by (cases "returned_as (fl_index fl \<in> set (ds_aborted ds)) s")
    have st: "status \<noteq> Running" using r by (auto simp: returned_as_def Let_def split: if_splits)
    have ok: "\<And>x. Some s = Some x \<Longrightarrow> usage_sane x" using out Returned by simp
    show ?thesis
      using settle_keeps [OF inv Some st ok, where final = "Some s" and detail = detail and now = now and at_time = at_time] settled_ok [OF live ok, where final = "Some s"]
      by (simp add: do_done_def Some Returned complete_dispatch_def r finish_run_def Let_def emit_heard settle_dispatch_def)
  next
    case (Threw m)
    have no: "\<And>s. None = Some s \<Longrightarrow> usage_sane s" by simp
    show ?thesis
      using settle_keeps [OF inv Some _ no, where final = None and status = Run_Failed and detail = "Some m" and now = now and at_time = at_time] settled_ok [OF live no, where final = None]
      by (simp add: do_done_def Some Threw fail_dispatch_def finish_run_def Let_def emit_heard settle_dispatch_def)
  qed
qed (use inv in \<open>simp add: do_done_def\<close>)

lemma check_budget:
  "check_dispatch opts parent input n = Inr (agent, b) \<Longrightarrow> di_budget input = None \<Longrightarrow> so_default opts = None \<Longrightarrow> b = no_budget"
  by (auto simp: check_dispatch_def bind_result_Inr_iff resolve_budget_def split: if_splits)

lemma dispatch_keeps:
  assumes inv: "journal_inv opts clock ids ds" and new: "sid \<notin> set ids" "sid \<noteq> []" "parent_ok parent"
    and index: "\<forall>(i, p) \<in> set (ds_pending ds). i < ds_next ds"
  shows "journal_inv opts clock (ids @ [sid]) (do_dispatch opts parent input aborted sid now ds)"
proof -
  have old: "journal_inv opts clock (ids @ [sid]) ds" by (rule inv_same [OF inv]) auto
  show ?thesis
  proof (cases "check_dispatch opts parent input (length (ds_active ds))")
    case (Inl e)
    have "journal_inv opts clock (ids @ [sid]) (settle_dispatch i (Inl e) (ds\<lparr>ds_next := n\<rparr>))" for i n
      by (rule inv_same [OF old]) (simp_all add: settle_dispatch_def)
    then show ?thesis by (simp add: do_dispatch_def Let_def Inl)
  next
    case (Inr ab)
    obtain agent b where ab: "ab = (agent, b)" by (cases ab)
    show ?thesis
    proof (cases aborted)
      case True
      have "journal_inv opts clock (ids @ [sid]) (settle_dispatch i r (ds\<lparr>ds_next := n\<rparr>))" for i r n
        by (rule inv_same [OF old]) (simp_all add: settle_dispatch_def)
      then show ?thesis by (simp add: do_dispatch_def Let_def Inr ab True)
    next
      case False
      let ?p = "\<lparr>pd_parent = parent, pd_input = input, pd_state = child_state parent input sid b now, pd_budget = b,
        pd_agent = agent\<rparr>"
      have id: "pending_id (i, ?p) = sid" for i
        by (simp add: pending_id_def child_state_def create_session_def)
      have pok: "pending_ok opts ?p"
        using new check_budget [OF Inr [unfolded ab]]
        by (simp add: pending_ok_def child_state_def create_session_def)
      have fresh: "ds_next ds \<notin> set (map_keys (ds_pending ds))" using index by (auto simp: map_keys_def)
      have set: "map_set (ds_next ds) ?p (ds_pending ds) = ds_pending ds @ [(ds_next ds, ?p)]"
        by (rule map_set_fresh [OF fresh])
      have wf: "map_wf (ds_pending ds @ [(ds_next ds, ?p)])"
        unfolding set [symmetric] using inv by (simp add: journal_inv_def)
      have sid: "sid \<notin> en_session ` set (ds_runs ds)" "sid \<notin> pending_id ` set (ds_pending ds)"
        using inv new(1) by (auto simp: journal_inv_def)
      show ?thesis
        using inv sid wf pok
        by (simp add: do_dispatch_def Let_def Inr ab False set journal_inv_def id) blast
    qed
  qed
qed

lemma ready_keeps:
  assumes inv: "journal_inv opts clock ids ds" and small: "length ids \<le> history_limit opts"
  shows "journal_inv opts clock ids (do_ready opts i made now at_time (Inr ()) ds)"
proof (cases "map_get (ds_pending ds) i")
  case (Some p)
  have wfp: "map_wf (ds_pending ds)" using inv by (simp add: journal_inv_def)
  have pin: "(i, p) \<in> set (ds_pending ds)" by (rule map_of_SomeD [OF Some])
  then obtain xs ys where sp: "ds_pending ds = xs @ (i, p) # ys" by (meson split_list)
  have ni: "i \<notin> fst ` set xs" using wfp unfolding sp by (auto simp: map_wf_def map_keys_def)
  have del: "map_delete i (ds_pending ds) = xs @ ys" unfolding sp using ni by (induction xs) auto
  have wfd: "map_wf (xs @ ys)" unfolding del [symmetric] using wfp by simp
  have pok: "pending_ok opts p" using inv pin by (auto simp: journal_inv_def)
  define ds1 where "ds1 = ds\<lparr>ds_pending := xs @ ys\<rparr>"
  have inv1: "journal_inv opts clock ids ds1"
    using inv wfd by (auto simp: journal_inv_def ds1_def sp)
  show ?thesis
  proof (cases made)
    case (Inl e)
    then show ?thesis using settle_only [OF inv1] by (simp add: do_ready_def Some Let_def del ds1_def)
  next
    case (Inr u)
    let ?e = "new_entry opts (ss_id (pd_state p)) (ss_id (pa_state (pd_parent p))) (pd_input p) (child_depth p) (pd_budget p) now"
    let ?d = "dispatched_payload p ?e"
    have ses: "en_session ?e = pending_id (i, p)" "en_session ?e \<noteq> []"
      using pok by (simp_all add: new_entry_def pending_id_def pending_ok_def)
    have room: "trim_runs opts (ds_runs ds @ [?e]) = ds_runs ds @ [?e]"
      using inv small sp by (simp add: trim_runs_def journal_inv_def)
    have ok: "subagent_dispatched_ok ?d" by (rule dispatched_ok [OF pok])
    have sd: "dp_session ?d = en_session ?e" by (simp add: dispatched_payload_def new_entry_def)
    have fresh: "en_session ?e \<notin> en_session ` set (ds_runs ds)"
      using inv unfolding ses sp by (auto simp: journal_inv_def sp)
    let ?rows = "foldl (journal_step clock []) [] (ds_log ds)"
    have rows: "list_all2 same_row ?rows (ds_runs ds)" using inv by (simp add: journal_inv_def)
    then have "en_session ?e \<notin> en_session ` set ?rows" using fresh rows_sessions by (metis set_map)
    then have rows': "list_all2 same_row
        (foldl (journal_step clock []) [] (ds_log ds @ [(Some at_time, Subagent_Dispatched ?d)])) (ds_runs ds @ [?e])"
      using rows dispatched_row [OF pok] ok sd by (simp add: journal_step_def list_all2_appendI)
    have live: "live_entry (ss_id (pd_state p)) ?e"
      using ses by (simp add: live_entry_def new_entry_def)
    have act: "live_entry s (fl_entry f) \<and> fl_entry f \<in> set (ds_runs ds @ [?e])"
      if "(s, f) \<in> set (map_set (ss_id (pd_state p)) g (ds_active ds))" "fl_entry g = ?e" for s f g
    proof -
      have "(s, f) \<in> set (ds_active ds) \<or> s = ss_id (pd_state p) \<and> f = g"
        using in_map_set [OF that(1)] by auto
      with inv live that(2) show ?thesis by (auto simp: journal_inv_def)
    qed
    have lg: "logged_session (Some at_time, Subagent_Dispatched ?d) = Some (en_session ?e)"
      by (simp add: logged_session_def sd)
    let ?fl = "\<lparr>fl_index = i, fl_parent = pd_parent p, fl_entry = ?e, fl_listening = i \<notin> set (ds_aborted ds)\<rparr>"
    have eq: "do_ready opts i made now at_time (Inr ()) ds =
        ds1\<lparr>ds_active := map_set (ss_id (pd_state p)) ?fl (ds_active ds), ds_runs := ds_runs ds @ [?e],
            ds_log := ds_log ds @ [(Some at_time, Subagent_Dispatched ?d)]\<rparr>"
      by (simp add: do_ready_def Some Inr Let_def del emit_heard ok room ds1_def)
    have act': "\<forall>(s, f) \<in> set (map_set (ss_id (pd_state p)) ?fl (ds_active ds)).
        live_entry s (fl_entry f) \<and> fl_entry f \<in> set (ds_runs ds @ [?e])"
      using act [of _ _ ?fl] by auto
    have log': "\<forall>ev \<in> set (ds_log ds @ [(Some at_time, Subagent_Dispatched ?d)]). \<forall>s. logged_session ev = Some s \<longrightarrow>
        s \<in> en_session ` set (ds_runs ds @ [?e])"
      using inv lg by (auto simp: journal_inv_def)
    have d': "distinct (map en_session (ds_runs ds @ [?e]) @ map pending_id (xs @ ys))"
      using inv ses(1) by (simp add: journal_inv_def sp)
    have sub: "set (map en_session (ds_runs ds @ [?e])) \<union> set (map pending_id (xs @ ys)) \<subseteq> set ids"
      using inv ses(1) by (simp add: journal_inv_def sp)
    have pend: "\<forall>(i, p) \<in> set (xs @ ys). pending_ok opts p" and len: "length (ds_runs ds @ [?e]) + length (xs @ ys) \<le> length ids"
      using inv by (auto simp: journal_inv_def sp)
    have wfa: "map_wf (map_set (ss_id (pd_state p)) ?fl (ds_active ds))" using inv by (simp add: journal_inv_def)
    show ?thesis unfolding eq
      by (rule journal_invI [OF rows' wfa wfd d' sub pend act' len log']) (simp_all add: ds1_def)
  qed
qed (use inv in \<open>simp add: do_ready_def\<close>)


text \<open>Promises are numbered in the order of the calls; the registry never outgrows its limit.\<close>

definition dispatcher_inv :: "subagent_options \<Rightarrow> dispatcher \<Rightarrow> bool" where
  "dispatcher_inv opts ds \<longleftrightarrow> (\<forall>(i, p) \<in> set (ds_pending ds). i < ds_next ds) \<and> length (ds_runs ds) \<le> history_limit opts"

lemma emit_keeps:
  assumes "emit_log p heard at_time ds = (r, ds')"
  shows "ds_pending ds' = ds_pending ds \<and> ds_next ds' = ds_next ds \<and> ds_runs ds' = ds_runs ds \<and>
    ds_active ds' = ds_active ds \<and> ds_interrupts ds' = ds_interrupts ds \<and> ds_aborted ds' = ds_aborted ds"
  using assms by (auto simp: emit_log_def split: sum.splits)

lemma finish_keeps:
  assumes "finish_run sid status final detail now fl ds = (fl', ds')"
  shows "ds_pending ds' = ds_pending ds \<and> ds_next ds' = ds_next ds \<and> length (ds_runs ds') = length (ds_runs ds)"
  using assms by (auto simp: finish_run_def Let_def replace_entry_def)

lemma fail_keeps:
  assumes "fail_dispatch sid m now at_time heard fl ds = (res, ds')"
  shows "ds_pending ds' = ds_pending ds \<and> ds_next ds' = ds_next ds \<and> length (ds_runs ds') = length (ds_runs ds)"
  using assms by (auto simp: fail_dispatch_def split: prod.splits dest!: emit_keeps finish_keeps)

lemma complete_keeps:
  assumes "complete_dispatch sid final aborted now at_time heard heard2 fl ds = (res, ds')"
  shows "ds_pending ds' = ds_pending ds \<and> ds_next ds' = ds_next ds \<and> length (ds_runs ds') = length (ds_runs ds)"
  using assms
  by (auto simp: complete_dispatch_def split: prod.splits sum.splits dest!: emit_keeps finish_keeps fail_keeps)

lemma length_trim: "length (trim_runs opts rs) \<le> history_limit opts"
  by (simp add: trim_runs_def)

lemma dispatcher_invI:
  "dispatcher_inv opts ds \<Longrightarrow> set (ds_pending ds') \<subseteq> set (ds_pending ds) \<Longrightarrow> ds_next ds \<le> ds_next ds' \<Longrightarrow>
   length (ds_runs ds') \<le> history_limit opts \<Longrightarrow> dispatcher_inv opts ds'"
  by (fastforce simp: dispatcher_inv_def)

lemma done_inv:
  assumes "dispatcher_inv opts ds"
  shows "dispatcher_inv opts (do_done sid outcome now at_time heard heard2 ds)"
proof (cases "map_get (ds_active ds) sid")
  case (Some fl)
  obtain res ds1 where e: "(case outcome of
        Returned final \<Rightarrow> complete_dispatch sid final (fl_index fl \<in> set (ds_aborted ds)) now at_time heard heard2 fl ds
      | Threw msg \<Rightarrow> fail_dispatch sid msg now at_time heard fl ds) = (res, ds1)" by fastforce
  then have "ds_pending ds1 = ds_pending ds" "ds_next ds1 = ds_next ds" "length (ds_runs ds1) = length (ds_runs ds)"
    using complete_keeps fail_keeps by (cases outcome; fastforce)+
  then show ?thesis
    using assms by (intro dispatcher_invI [OF assms]) (simp_all add: do_done_def Some e settle_dispatch_def dispatcher_inv_def)
qed (use assms in \<open>simp add: do_done_def\<close>)

lemma ready_inv:
  assumes "dispatcher_inv opts ds"
  shows "dispatcher_inv opts (do_ready opts i made now at_time heard ds)"
  using assms
  by (auto simp: do_ready_def Let_def settle_dispatch_def dispatcher_inv_def length_trim
      dest!: emit_keeps in_map_delete split: option.split sum.split prod.split)

lemma step_inv: "dispatcher_inv opts ds \<Longrightarrow> dispatcher_inv opts (dispatch_step opts ds e)"
proof (cases e)
  case (Dispatch parent input aborted sid now)
  assume "dispatcher_inv opts ds"
  then show ?thesis
    by (fastforce simp: Dispatch do_dispatch_def Let_def settle_dispatch_def dispatcher_inv_def dest: in_map_set
        split: sum.splits prod.splits)
next
  case (Runner_Ready i made now at_time heard)
  assume "dispatcher_inv opts ds"
  then show ?thesis by (simp add: Runner_Ready ready_inv)
next
  case (Runner_Done sid outcome now at_time heard heard2)
  assume "dispatcher_inv opts ds"
  then show ?thesis by (simp add: Runner_Done done_inv)
qed (auto simp: do_cancel_def do_cancel_all_def do_abort_def Let_def rebuild_from_journal_def inherit_runs_def
    merge_runs_def length_trim dispatcher_inv_def)

interpretation disp: invariant_machine "dispatch_step opts" "dispatcher_inv opts" for opts
  by unfold_locales (rule step_inv)

lemma run_inv: "dispatcher_inv opts (dispatch_run opts es)"
  unfolding dispatch_run_def by (rule disp.run_good) (simp add: dispatcher_inv_def new_dispatcher_def)

lemma run_journal:
  assumes "list_all orderly es" and "distinct (child_ids es)" and "length (child_ids es) \<le> history_limit opts"
  shows "journal_inv opts clock (child_ids es) (dispatch_run opts es)"
  using assms
proof (induction es rule: rev_induct)
  case Nil
  then show ?case by (simp add: journal_inv_def dispatch_run_def new_dispatcher_def)
next
  case (snoc e es)
  let ?ds = "dispatch_run opts es"
  have IH: "journal_inv opts clock (child_ids es) ?ds" using snoc by (simp add: distinct_append)
  have ok: "orderly e" using snoc.prems by simp
  have small: "length (child_ids es) \<le> history_limit opts" using snoc.prems by simp
  have run: "dispatch_run opts (es @ [e]) = dispatch_step opts ?ds e" by (simp add: dispatch_run_def)
  show ?case
  proof (cases e)
    case (Dispatch parent input aborted sid now)
    have "\<forall>(i, p) \<in> set (ds_pending ?ds). i < ds_next ?ds" using run_inv by (simp add: dispatcher_inv_def)
    then show ?thesis
      using dispatch_keeps [OF IH, of sid parent] snoc.prems ok unfolding run by (simp add: Dispatch)
  next
    case (Runner_Ready i made now at_time heard)
    then show ?thesis using ready_keeps [OF IH small] ok unfolding run by simp
  next
    case (Runner_Done sid outcome now at_time heard heard2)
    then show ?thesis using done_keeps [OF IH] ok unfolding run by simp
  qed (use IH ok in \<open>auto simp: dispatch_run_def dest: cancel_keeps\<close>)
qed

definition restored :: "run_entry \<Rightarrow> run_entry" where
  "restored e = interrupted_if_running (announced e)"

lemma untimed_restored: "same_row row e \<Longrightarrow> untimed (interrupted_if_running row) = untimed (restored e)"
  by (cases row; cases e)
    (auto simp: same_row_def untimed_def restored_def announced_def interrupted_if_running_def Let_def split: if_splits)

lemma journal_known: "\<forall>ev \<in> set lg. \<forall>s. logged_session ev = Some s \<longrightarrow> s \<in> set known \<Longrightarrow>
    foldl (journal_step now known) [] lg = []"
  by (induction lg rule: rev_induct)
    (auto simp: journal_step_def logged_session_def split: payload.splits prod.splits)

lemma ds_runs_new: "ds_runs new_dispatcher = []"
  by (simp add: new_dispatcher_def)


end
