(* ===== verification/Subagent_Claims.thy ===== *)
theory Subagent_Claims
  imports Subagent_Registry
begin

text \<open>
  Dispatches that overlap: what happens between the checks of a dispatch and its registration, while
  the runner is being made; and concrete runs of the dispatcher.
\<close>

section \<open>What the wait for the runner lets through\<close>

definition waiting :: "dispatch_parent \<Rightarrow> dispatch_input \<Rightarrow> resolved_agent option \<Rightarrow> resource_budget \<Rightarrow> int \<Rightarrow> string \<Rightarrow> pending" where
  "waiting parent input agent b now sid = \<lparr>pd_parent = parent, pd_input = input,
     pd_state = child_state parent input sid b now, pd_budget = b, pd_agent = agent\<rparr>"

lemma waiting_id [simp]: "ss_id (pd_state (waiting parent input agent b now sid)) = sid"
  by (simp add: waiting_def child_state_def create_session_def)

lemma do_dispatch_waits:
  assumes "check_dispatch opts parent input (length (ds_active ds)) = Inr (agent, b)"
  shows "do_dispatch opts parent input False sid now ds =
    ds\<lparr>ds_next := ds_next ds + 1, ds_pending := map_set (ds_next ds) (waiting parent input agent b now sid) (ds_pending ds)\<rparr>"
  by (simp add: do_dispatch_def Let_def assms waiting_def)

lemma dispatches_wait:
  assumes "check_dispatch opts parent input 0 = Inr (agent, b)"
  shows "dispatch_run opts (map (\<lambda>sid. Dispatch parent input False sid now) ids) =
    new_dispatcher\<lparr>ds_next := length ids,
      ds_pending := zip [0..<length ids] (map (waiting parent input agent b now) ids)\<rparr>"
proof (induction ids rule: rev_induct)
  case Nil
  show ?case by (simp add: dispatch_run_def new_dispatcher_def)
next
  case (snoc sid ids)
  let ?ds = "dispatch_run opts (map (\<lambda>sid. Dispatch parent input False sid now) ids)"
  have a: "ds_active ?ds = []" by (simp add: snoc new_dispatcher_def)
  have "map_set (length ids) p (zip [0..<length ids] (map (waiting parent input agent b now) ids)) =
      zip [0..<length ids] (map (waiting parent input agent b now) ids) @ [(length ids, p)]" for p
    by (rule map_set_fresh) (auto simp: map_keys_def)
  then have "do_dispatch opts parent input False sid now ?ds =
      new_dispatcher\<lparr>ds_next := length (ids @ [sid]),
        ds_pending := zip [0..<length (ids @ [sid])] (map (waiting parent input agent b now) (ids @ [sid]))\<rparr>"
    using assms do_dispatch_waits [of opts parent input ?ds agent b] a by (simp add: snoc new_dispatcher_def)
  then show ?case by (simp add: dispatch_run_def)
qed

lemma ready_activates:
  assumes "map_get (ds_pending ds) i = Some p" and "made = Inr ()"
  shows "map_keys (ds_active (do_ready opts i made now at_time heard ds)) =
      (if ss_id (pd_state p) \<in> set (map_keys (ds_active ds)) then map_keys (ds_active ds)
       else map_keys (ds_active ds) @ [ss_id (pd_state p)])"
    "ds_pending (do_ready opts i made now at_time heard ds) = map_delete i (ds_pending ds)"
  using assms
  by (auto simp: do_ready_def Let_def settle_dispatch_def map_keys_set dest!: emit_keeps
      split: sum.split prod.split)

lemma readies_activate:
  assumes "distinct (ks @ ids)" and "map_keys (ds_active ds) = ks"
    and "ds_pending ds = zip [n..<n + length ids] (map (waiting parent input agent b now) ids)"
  shows "map_keys (ds_active (foldl (dispatch_step opts) ds
      (map (\<lambda>i. Runner_Ready i (Inr ()) now at_time heard) [n..<n + length ids]))) = ks @ ids"
  using assms
proof (induction ids arbitrary: ks n ds)
  case (Cons sid ids)
  let ?ds = "do_ready opts n (Inr ()) now at_time heard ds"
  have up: "[n..<n + length (sid # ids)] = n # [Suc n..<Suc n + length ids]" 
    using upt_conv_Cons [of n "n + length (sid # ids)"] by (simp del: upt_Suc)
  have p: "map_get (ds_pending ds) n = Some (waiting parent input agent b now sid)"
    by (simp only: Cons.prems(3) up) simp
  have "map_keys (ds_active ?ds) = ks @ [sid]" using ready_activates(1) [OF p] Cons.prems(1,2) by simp
  moreover have "ds_pending ?ds = zip [Suc n..<Suc n + length ids] (map (waiting parent input agent b now) ids)"
    using ready_activates(2) [OF p] by (simp only: Cons.prems(3) up) simp
  ultimately have "map_keys (ds_active (foldl (dispatch_step opts) ?ds
      (map (\<lambda>i. Runner_Ready i (Inr ()) now at_time heard) [Suc n..<Suc n + length ids]))) = (ks @ [sid]) @ ids"
    using Cons.prems(1) by (intro Cons.IH) simp_all
  then show ?case by (simp only: up list.map foldl.simps dispatch_step.simps) simp
qed simp

text \<open>
  The limit on concurrent subagents is checked before the wait for the runner but counted after
  it: dispatches that start while no runner is ready all pass, and all of them run at the same time,
  however many they are and whatever the limit is.
\<close>
theorem concurrent_dispatches_exceed_limit:
  assumes "check_dispatch opts parent input 0 = Inr (agent, b)" and "distinct ids"
  shows "map_keys (ds_active (dispatch_run opts
      (map (\<lambda>sid. Dispatch parent input False sid now) ids @
       map (\<lambda>i. Runner_Ready i (Inr ()) now at_time heard) [0..<length ids]))) = ids"
proof -
  let ?ds = "dispatch_run opts (map (\<lambda>sid. Dispatch parent input False sid now) ids)"
  have p: "ds_pending ?ds = zip [0..<0 + length ids] (map (waiting parent input agent b now) ids)"
    and a: "map_keys (ds_active ?ds) = []"
    by (simp_all add: dispatches_wait [OF assms(1)] new_dispatcher_def)
  from readies_activate [OF _ a p, of opts at_time heard] show ?thesis
    using assms(2) by (simp add: dispatch_run_def)
qed

text \<open>An abort during the wait is not passed to the runner, which then runs to its end.\<close>

lemma abort_while_starting_is_missed:
  assumes "check_dispatch opts parent input 0 = Inr (agent, b)"
  shows "let ds = dispatch_run opts [Dispatch parent input False sid now, Parent_Abort 0,
      Runner_Ready 0 (Inr ()) now at_time heard]
    in map_keys (ds_active ds) = [sid] \<and> ds_interrupts ds = []"
proof -
  let ?ds = "do_abort 0 (dispatch_run opts [Dispatch parent input False sid now])"
  have ds: "?ds = new_dispatcher\<lparr>ds_next := 1, ds_pending := [(0, waiting parent input agent b now sid)], ds_aborted := [0]\<rparr>"
    using dispatches_wait [OF assms, of now "[sid]"] by (simp add: do_abort_def new_dispatcher_def)
  have "ds_interrupts (do_ready opts 0 (Inr ()) now at_time heard ?ds) = []"
    by (auto simp: ds do_ready_def Let_def settle_dispatch_def new_dispatcher_def dest!: emit_keeps split: sum.split prod.split)
  moreover have "map_keys (ds_active (do_ready opts 0 (Inr ()) now at_time heard ?ds)) = [sid]"
    using ready_activates(1) [of ?ds 0 "waiting parent input agent b now sid" "Inr ()"]
    by (simp add: ds new_dispatcher_def)
  ultimately show ?thesis by (simp add: dispatch_run_def Let_def)
qed

text \<open>An announcement that a listener refuses fails the dispatch and leaves its runner registered.\<close>

lemma refused_announcement_keeps_slot:
  assumes "check_dispatch opts parent input 0 = Inr (agent, b)"
  shows "\<exists>e. let ds = dispatch_run opts [Dispatch parent input False sid now,
      Runner_Ready 0 (Inr ()) now at_time (Inl x)]
    in ds_results ds = [(0, Inl e)] \<and> map_keys (ds_active ds) = [sid]"
proof -
  let ?ds = "dispatch_run opts [Dispatch parent input False sid now]"
  have ds: "?ds = new_dispatcher\<lparr>ds_next := 1, ds_pending := [(0, waiting parent input agent b now sid)]\<rparr>"
    using dispatches_wait [OF assms, of now "[sid]"] by simp
  have "\<exists>e. ds_results (do_ready opts 0 (Inr ()) now at_time (Inl x) ?ds) = [(0, Inl e)]"
    by (simp add: ds do_ready_def Let_def settle_dispatch_def new_dispatcher_def emit_log_def assert_payload_contract_def)
  moreover have "map_keys (ds_active (do_ready opts 0 (Inr ()) now at_time (Inl x) ?ds)) = [sid]"
    using ready_activates(1) [of ?ds 0 "waiting parent input agent b now sid" "Inr ()"]
    by (simp add: ds new_dispatcher_def)
  ultimately show ?thesis by (auto simp: dispatch_run_def Let_def)
qed

section \<open>Concrete runs\<close>

definition demo_parent :: dispatch_parent where
  "demo_parent = \<lparr>pa_state = create_session 0 ''root'' [] '''' 1000 None None, pa_turn = ''t''\<rparr>"

definition demo_input :: dispatch_input where
  "demo_input = \<lparr>di_prompt = ascii ''look'', di_agent = Some ''coder'', di_budget = None\<rparr>"

definition demo_subagents :: subagent_options where
  "demo_subagents = \<lparr>so_default = None, so_max_depth = None, so_max_concurrency = Some 1, so_agents = None,
     so_history_limit = None\<rparr>"

lemma demo_check: "check_dispatch demo_subagents demo_parent demo_input 0 = Inr (None, no_budget)"
  by (simp add: check_dispatch_def demo_subagents_def demo_parent_def demo_input_def create_session_def max_depth_def
      max_concurrency_def resolve_budget_def truthy_def)

lemma concurrent_dispatches_exceed_limit_witness:
  "max_concurrency demo_subagents = 1 \<and>
   map_keys (ds_active (dispatch_run demo_subagents
      (map (\<lambda>sid. Dispatch demo_parent demo_input False sid 0) [''a'', ''b'', ''c''] @
       map (\<lambda>i. Runner_Ready i (Inr ()) 0 0 (Inr ())) [0..<length [''a'', ''b'', ''c'']]))) = [''a'', ''b'', ''c'']"
  using concurrent_dispatches_exceed_limit [OF demo_check, of "[''a'', ''b'', ''c'']" 0 0 "Inr ()"]
  by (simp add: max_concurrency_def demo_subagents_def)

definition demo_final :: session_state where
  "demo_final = create_session 0 ''a'' [] '''' 1000 None None"

definition demo_dispatches :: "dispatch_event list" where
  "demo_dispatches =
     [Dispatch demo_parent demo_input False ''a'' 0, Runner_Ready 0 (Inr ()) 1 1 (Inr ()),
      Runner_Done ''a'' (Returned demo_final) 2 2 (Inr ()) (Inr ()),
      Dispatch demo_parent demo_input False ''b'' 3, Runner_Ready 1 (Inr ()) 4 4 (Inr ())]"


end
