(* ===== verification/Web_Socket.thy ===== *)
theory Web_Socket
  imports Prelude "HOL-Library.Word"
begin

unbundle bit_operations_syntax

text \<open>
  The WebSocket server side of the gateway, \<open>packages/gateway-server/src/websocket.ts\<close>, on bytes:
  the framing, the state machine of a connection and the handshake. Parameters are the runtime's
  strict UTF-8 decoder, its base64 SHA-1 and what the application does with a message, which is
  nothing or to close the connection; what it sends does not touch the state. A connection keeps the
  list of what it did to the socket and to the application.
\<close>

type_synonym byte = "8 word"

section \<open>Frames\<close>

definition be_nat :: "byte list \<Rightarrow> nat" where
  "be_nat bs = foldl (\<lambda>n b. n * 256 + unat b) 0 bs"

definition be_bytes :: "nat \<Rightarrow> nat \<Rightarrow> byte list" where
  "be_bytes k n = map (\<lambda>i. of_nat (n div 256 ^ (k - 1 - i))) [0..<k]"

definition frame_header :: "byte \<Rightarrow> byte \<Rightarrow> nat \<Rightarrow> byte list" where
  "frame_header b0 masked n =
     (if n < 126 then [b0, masked OR of_nat n]
      else if n < 65536 then b0 # (masked OR 126) # be_bytes 2 n
      else b0 # (masked OR 127) # be_bytes 8 n)"

definition encode_frame :: "byte \<Rightarrow> byte list \<Rightarrow> byte list" where
  "encode_frame opcode payload = frame_header (128 OR opcode) 0 (length payload) @ payload"

record frame =
  fr_fin :: bool
  fr_opcode :: nat
  fr_payload :: "byte list"

definition unmask :: "byte list \<Rightarrow> byte list \<Rightarrow> byte list" where
  "unmask key payload = map (\<lambda>i. payload ! i XOR key ! (i mod 4)) [0..<length payload]"

datatype parsed = Need_More | Bad nat string | Parsed frame "byte list"

definition max_safe_integer :: nat where
  "max_safe_integer = 9007199254740991"

text \<open>The declared length of the payload and the offset after it; \<open>None\<close> when bytes are missing.\<close>

definition payload_length :: "byte list \<Rightarrow> (nat \<times> nat) option" where
  "payload_length buf =
     (let n = unat (buf ! 1 AND 127)
      in if n = 126 then (if length buf < 4 then None else Some (be_nat (take 2 (drop 2 buf)), 4))
         else if n = 127 then (if length buf < 10 then None else Some (be_nat (take 8 (drop 2 buf)), 10))
         else Some (n, 2))"

definition parse_frame :: "byte list \<Rightarrow> parsed" where
  "parse_frame buf =
     (if length buf < 2 then Need_More
      else case payload_length buf of
        None \<Rightarrow> Need_More
      | Some (n, off) \<Rightarrow>
          if max_safe_integer < n then Bad 1009 ''frame too large''
          else if buf ! 1 AND 128 = 0 then Bad 1002 ''client frames must be masked''
          else if length buf < off + 4 + n then Need_More
          else Parsed \<lparr>fr_fin = (buf ! 0 AND 128 \<noteq> 0), fr_opcode = unat (buf ! 0 AND 15),
                       fr_payload = unmask (take 4 (drop off buf)) (take n (drop (off + 4) buf))\<rparr>
                 (drop (off + 4 + n) buf))"

lemma parse_shrinks: "parse_frame buf = Parsed f rest \<Longrightarrow> length rest < length buf"
  by (auto simp: parse_frame_def payload_length_def Let_def split: if_splits option.splits)

section \<open>Connections\<close>

record ws_env =
  we_decode :: "byte list \<Rightarrow> ustr option"
  we_max :: nat
  we_on_message :: "ustr \<Rightarrow> (nat \<times> byte list) option"

datatype ws_output =
  Write "byte list" | End_Socket | Destroy_Socket | Message ustr nat | Connection_Closed nat "byte list"

record ws =
  ws_buffer :: "byte list"
  ws_fragments :: "byte list list"
  ws_fragment_bytes :: nat
  ws_fragment_opcode :: nat
  ws_closed :: bool
  ws_alive :: bool
  ws_out :: "ws_output list"

definition new_ws :: ws where
  "new_ws = \<lparr>ws_buffer = [], ws_fragments = [], ws_fragment_bytes = 0, ws_fragment_opcode = 0,
     ws_closed = False, ws_alive = True, ws_out = []\<rparr>"

definition put :: "ws_output list \<Rightarrow> ws \<Rightarrow> ws" where
  "put os w = w\<lparr>ws_out := ws_out w @ os\<rparr>"

definition string_bytes :: "string \<Rightarrow> byte list" where
  "string_bytes s = map of_char s"

definition terminate :: "nat \<Rightarrow> byte list \<Rightarrow> ws \<Rightarrow> ws" where
  "terminate code reason w =
     (if ws_closed w then w
      else put [Destroy_Socket, Connection_Closed code reason] (w\<lparr>ws_closed := True\<rparr>))"

definition close_payload :: "nat \<Rightarrow> byte list \<Rightarrow> byte list" where
  "close_payload code reason = be_bytes 2 code @ reason"

definition ws_close :: "nat \<Rightarrow> byte list \<Rightarrow> ws \<Rightarrow> ws" where
  "ws_close code reason w =
     (if ws_closed w then w
      else terminate code reason (put [Write (encode_frame 8 (close_payload code reason)), End_Socket] w))"

definition ws_fail :: "nat \<Rightarrow> string \<Rightarrow> ws \<Rightarrow> ws" where
  "ws_fail code reason w =
     terminate code (string_bytes reason)
       (if ws_closed w then w
        else put [Write (encode_frame 8 (close_payload code (take 123 (string_bytes reason))))] w)"

definition ws_send :: "byte list \<Rightarrow> ws \<Rightarrow> ws" where
  "ws_send bytes w = (if ws_closed w then w else put [Write (encode_frame 1 bytes)] w)"

definition ws_ping :: "byte list \<Rightarrow> ws \<Rightarrow> ws" where
  "ws_ping payload w = (if ws_closed w then w else put [Write (encode_frame 9 payload)] w)"

text \<open>The timer: a connection that was silent since the last ping is ended.\<close>

definition ws_tick :: "ws \<Rightarrow> ws" where
  "ws_tick w =
     (if ws_closed w then w
      else if \<not> ws_alive w then terminate 1000 [] w
      else ws_ping [] (w\<lparr>ws_alive := False\<rparr>))"

definition emit_message :: "ws_env \<Rightarrow> byte list \<Rightarrow> ws \<Rightarrow> ws" where
  "emit_message env payload w = (case we_decode env payload of
     None \<Rightarrow> ws_fail 1007 ''message is not valid UTF-8'' w
   | Some t \<Rightarrow>
       let w1 = put [Message t (length payload)] w
       in case we_on_message env t of None \<Rightarrow> w1 | Some (code, reason) \<Rightarrow> ws_close code reason w1)"

definition control_frame :: "frame \<Rightarrow> ws \<Rightarrow> ws" where
  "control_frame f w =
     (let payload = fr_payload f
      in if \<not> fr_fin f \<or> 125 < length payload then ws_fail 1002 ''malformed control frame'' w
         else if fr_opcode f = 8
         then terminate (if 2 \<le> length payload then be_nat (take 2 payload) else 1000) (drop 2 payload)
                (put ((if ws_closed w then [] else [Write (encode_frame 8 payload)]) @ [End_Socket]) w)
         else if fr_opcode f = 9 then put [Write (encode_frame 10 payload)] w
         else w)"

definition text_frame :: "ws_env \<Rightarrow> frame \<Rightarrow> ws \<Rightarrow> ws" where
  "text_frame env f w =
     (let payload = fr_payload f
      in if ws_fragments w \<noteq> [] then ws_fail 1002 ''new message before continuation finished'' w
         else if we_max env < length payload then ws_fail 1009 ''message too large'' w
         else if fr_fin f then emit_message env payload w
         else w\<lparr>ws_fragment_opcode := 1, ws_fragments := [payload], ws_fragment_bytes := length payload\<rparr>)"

definition continuation_frame :: "ws_env \<Rightarrow> frame \<Rightarrow> ws \<Rightarrow> ws" where
  "continuation_frame env f w =
     (if ws_fragments w = [] \<or> ws_fragment_opcode w \<noteq> 1 then ws_fail 1002 ''unexpected continuation frame'' w
      else
        let w1 = w\<lparr>ws_fragments := ws_fragments w @ [fr_payload f],
                   ws_fragment_bytes := ws_fragment_bytes w + length (fr_payload f)\<rparr>
        in if we_max env < ws_fragment_bytes w1 then ws_fail 1009 ''message too large'' w1
           else if fr_fin f
           then emit_message env (concat (ws_fragments w1)) (w1\<lparr>ws_fragments := [], ws_fragment_bytes := 0\<rparr>)
           else w1)"

definition dispatch_frame :: "ws_env \<Rightarrow> frame \<Rightarrow> ws \<Rightarrow> ws" where
  "dispatch_frame env f w =
     (if 8 \<le> fr_opcode f then control_frame f w
      else if fr_opcode f = 2 then ws_fail 1003 ''binary frames are not accepted'' w
      else if fr_opcode f = 1 then text_frame env f w
      else if fr_opcode f = 0 then continuation_frame env f w
      else ws_fail 1002 (''unknown opcode '' @ show_nat (fr_opcode f)) w)"

lemma buffer_untouched [simp]:
  "ws_buffer (put os w) = ws_buffer w" "ws_buffer (terminate c r w) = ws_buffer w"
  "ws_buffer (ws_close c r w) = ws_buffer w" "ws_buffer (ws_fail c s w) = ws_buffer w"
  "ws_buffer (emit_message env p w) = ws_buffer w"
  by (simp_all add: put_def terminate_def ws_close_def ws_fail_def emit_message_def Let_def split: option.split)

lemma dispatch_buffer [simp]: "ws_buffer (dispatch_frame env f w) = ws_buffer w"
  by (simp add: dispatch_frame_def control_frame_def text_frame_def continuation_frame_def Let_def)

text \<open>The loop of \<open>consume\<close>: as many frames as the buffer holds.\<close>

function drain :: "ws_env \<Rightarrow> ws \<Rightarrow> ws" where
  "drain env w = (case parse_frame (ws_buffer w) of
     Need_More \<Rightarrow> w
   | Bad code reason \<Rightarrow> ws_fail code reason w
   | Parsed f rest \<Rightarrow>
       let w1 = dispatch_frame env f (w\<lparr>ws_buffer := rest, ws_alive := True\<rparr>)
       in if ws_closed w1 then w1 else drain env w1)"
  by pat_completeness auto
termination
  by (relation "measure (\<lambda>(env, w). length (ws_buffer w))") (auto dest: parse_shrinks)

declare drain.simps [simp del]

definition consume :: "ws_env \<Rightarrow> ws \<Rightarrow> byte list \<Rightarrow> ws" where
  "consume env w chunk = (if ws_closed w then w else drain env (w\<lparr>ws_buffer := ws_buffer w @ chunk\<rparr>))"

datatype ws_call = Data "byte list" | Send "byte list" | Tick | Close nat "byte list" | Socket_Gone

fun ws_step :: "ws_env \<Rightarrow> ws \<Rightarrow> ws_call \<Rightarrow> ws" where
  "ws_step env w (Data chunk) = consume env w chunk"
| "ws_step env w (Send bytes) = ws_send bytes w"
| "ws_step env w Tick = ws_tick w"
| "ws_step env w (Close code reason) = ws_close code reason w"
| "ws_step env w Socket_Gone = terminate 1000 [] w"

definition ws_run :: "ws_env \<Rightarrow> ws_call list \<Rightarrow> ws" where
  "ws_run env cs = foldl (ws_step env) new_ws cs"

section \<open>The handshake\<close>

record upgrade_request =
  ur_method :: string
  ur_upgrade :: "string option"
  ur_connection :: "string option"
  ur_key :: "string option"
  ur_version :: "string option"

definition ws_guid :: string where
  "ws_guid = ''258EAFA5-E914-47DA-95CA-C5AB0DC85B11''"

definition accept_web_socket :: "(string \<Rightarrow> string) \<Rightarrow> upgrade_request \<Rightarrow> string option" where
  "accept_web_socket sha1_base64 r = (case ur_key r of
     None \<Rightarrow> None
   | Some key \<Rightarrow>
       if ur_method r \<noteq> ''GET'' \<or> map_option (map lower_char) (ur_upgrade r) \<noteq> Some ''websocket'' \<or>
          \<not> list_ex (\<lambda>part. trim part = ''upgrade'')
              (split_on CHR '','' (map lower_char (given (ur_connection r) ''''))) \<or>
          trim key = [] \<or> ur_version r \<noteq> Some ''13''
       then None
       else Some (''HTTP/1.1 101 Switching Protocols'' @ [CHR 0x0D, CHR 0x0A] @ ''Upgrade: websocket'' @ [CHR 0x0D, CHR 0x0A] @
              ''Connection: Upgrade'' @ [CHR 0x0D, CHR 0x0A] @ ''Sec-WebSocket-Accept: '' @ sha1_base64 (trim key @ ws_guid) @
              [CHR 0x0D, CHR 0x0A, CHR 0x0D, CHR 0x0A]))"

end
