(* ===== verification/Web_Socket_Safety.thy ===== *)
theory Web_Socket_Safety
  imports Web_Socket
begin

unbundle bit_operations_syntax

text \<open>
  The framing is undone exactly: a frame as a client masks it parses back, a connection does not see
  where the network cuts the bytes (\<open>same_ws\<close>), and so whole conversations arrive as they were sent.
  \<open>ws_good\<close> is the invariant of every sequence of calls on a connection.
\<close>

section \<open>Frames from a client\<close>

lemma be_nat_snoc: "be_nat (bs @ [b]) = be_nat bs * 256 + unat b"
  by (simp add: be_nat_def)

lemma be_bytes_Suc: "be_bytes (Suc k) n = be_bytes k (n div 256) @ [of_nat n]"
proof -
  have "n div 256 ^ (k - i) = n div 256 div 256 ^ (k - 1 - i)" if "i < k" for i
  proof -
    from that obtain d where d: "k - i = Suc d" by (cases "k - i") auto
    then have "k - 1 - i = d" by simp
    with d show ?thesis by (simp add: div_mult2_eq)
  qed
  then show ?thesis by (simp add: be_bytes_def)
qed

lemma be_round: "n < 256 ^ k \<Longrightarrow> be_nat (be_bytes k n) = n"
proof (induction k arbitrary: n)
  case (Suc k)
  have "be_nat (be_bytes k (n div 256)) = n div 256"
    using Suc.prems by (intro Suc.IH) (simp add: less_mult_imp_div_less mult.commute)
  then show ?case by (simp add: be_bytes_Suc be_nat_snoc unat_of_nat)
qed (simp add: be_nat_def be_bytes_def)

lemma length_be_bytes [simp]: "length (be_bytes k n) = k"
  by (simp add: be_bytes_def)

lemma length_unmask [simp]: "length (unmask key p) = length p"
  by (simp add: unmask_def)

lemma unmask_twice [simp]: "unmask key (unmask key p) = p"
  by (rule nth_equalityI) (simp_all add: unmask_def xor.assoc)

definition client_frame :: "bool \<Rightarrow> byte \<Rightarrow> byte list \<Rightarrow> byte list \<Rightarrow> byte list" where
  "client_frame fin opcode key payload =
     frame_header ((if fin then 128 else 0) OR opcode) 128 (length payload) @ key @ unmask key payload"

lemma masked_length:
  assumes "n < 128"
  shows "unat ((128 OR of_nat n) AND (127 :: byte)) = n"
proof -
  have m: "(127 :: byte) = mask 7" by (simp add: mask_eq_exp_minus_1)
  have "(128 OR of_nat n) AND (127 :: byte) = of_nat n AND 127"
    by (simp add: bit.conj_disj_distrib2)
  also have "\<dots> = take_bit 7 (of_nat n)" unfolding m by (simp add: take_bit_eq_mask)
  also have "\<dots> = of_nat n" using assms by (simp add: take_bit_nat_eq_self flip: of_nat_take_bit)
  finally show ?thesis using assms by (simp add: unat_of_nat)
qed

lemma masked_bit: "(128 OR x) AND (128 :: byte) \<noteq> 0"
  by (simp add: bit.conj_disj_distrib2 or_eq_0_iff)

lemma opcode_bits:
  assumes "opcode < (16 :: byte)"
  shows "unat (((if fin then 128 else 0) OR opcode) AND 15) = unat opcode"
    "((if fin then 128 else 0) OR opcode) AND 128 \<noteq> 0 \<longleftrightarrow> fin"
proof -
  have m: "(15 :: byte) = mask 4" by (simp add: mask_eq_exp_minus_1)
  have o': "take_bit 4 opcode = opcode"
    using assms by (simp add: word_less_nat_alt take_bit_nat_eq_self unsigned_take_bit_eq word_unat_eq_iff)
  have "((if fin then 128 else 0) OR opcode) AND 15 = opcode AND 15"
    by (simp add: bit.conj_disj_distrib2)
  also have "\<dots> = opcode" unfolding m using o' by (simp add: take_bit_eq_mask)
  finally show "unat (((if fin then 128 else 0) OR opcode) AND 15) = unat opcode" by simp
  have "opcode AND 128 = take_bit 4 opcode AND 128" by (simp add: o')
  also have "\<dots> = 0" unfolding take_bit_eq_mask by (simp add: and.assoc mask_eq_exp_minus_1)
  finally show "((if fin then 128 else 0) OR opcode) AND 128 \<noteq> 0 \<longleftrightarrow> fin"
    by (simp add: bit.conj_disj_distrib2)
qed

lemma parse_layout:
  assumes "payload_length (h @ key @ unmask key p @ rest) = Some (length p, length h)" and "2 \<le> length h"
    and "length key = 4" and "length p \<le> max_safe_integer" and "h ! 1 AND 128 \<noteq> 0"
  shows "parse_frame (h @ key @ unmask key p @ rest) =
    Parsed \<lparr>fr_fin = (h ! 0 AND 128 \<noteq> 0), fr_opcode = unat (h ! 0 AND 15), fr_payload = p\<rparr> rest"
proof -
  have "h \<noteq> []" using assms(2) by auto
  then show ?thesis using assms by (simp add: parse_frame_def nth_append)
qed

lemma parse_client_frame:
  assumes "length key = 4" and "opcode < 16" and "length payload \<le> max_safe_integer"
  shows "parse_frame (client_frame fin opcode key payload @ rest) =
    Parsed \<lparr>fr_fin = fin, fr_opcode = unat opcode, fr_payload = payload\<rparr> rest"
proof -
  let ?n = "length payload" and ?b = "(if fin then 128 else 0) OR opcode"
  let ?h = "frame_header ?b 128 ?n"
  note bits = opcode_bits [OF assms(2), of fin]
  have "payload_length (?h @ r) = Some (?n, length ?h) \<and> 2 \<le> length ?h \<and> ?h ! 1 AND 128 \<noteq> 0 \<and> ?h ! 0 = ?b" for r
  proof -
    consider "?n < 126" | "126 \<le> ?n" "?n < 65536" | "65536 \<le> ?n" by linarith
    then show ?thesis
    proof cases
      case 1
      then show ?thesis using masked_length [of ?n] masked_bit
        by (simp add: frame_header_def payload_length_def Let_def)
    next
      case 2
      have l: "length (be_bytes 2 ?n) = 2" by simp
      have r: "be_nat (be_bytes 2 ?n) = ?n" using be_round [of ?n 2] 2 by simp
      show ?thesis using 2 masked_length [of 126] masked_bit [of 126] r l
        by (simp add: frame_header_def payload_length_def Let_def)
    next
      case 3
      have l: "length (be_bytes 8 ?n) = 8" by simp
      have n: "?n < 256 ^ 8" using assms(3) by (simp add: max_safe_integer_def)
      have r: "be_nat (be_bytes 8 ?n) = ?n" by (rule be_round [OF n])
      show ?thesis using 3 masked_length [of 127] masked_bit [of 127] r l
        by (simp add: frame_header_def payload_length_def Let_def)
    qed
  qed
  then show ?thesis
    unfolding client_frame_def append_assoc using parse_layout [OF _ _ assms(1,3), of ?h rest] bits
    by (simp del: unmask_twice)
qed

section \<open>Chunks\<close>

lemma payload_length_append:
  "2 \<le> length buf \<Longrightarrow> payload_length buf = Some x \<Longrightarrow> payload_length (buf @ extra) = Some x"
  by (auto simp: payload_length_def Let_def nth_append split: if_splits)

lemma parse_append:
  assumes "parse_frame buf = Parsed f rest"
  shows "parse_frame (buf @ extra) = Parsed f (rest @ extra)"
  using assms payload_length_append [of buf _ extra]
  by (auto simp: parse_frame_def nth_append split: if_splits option.splits)

lemma parse_append_bad:
  assumes "parse_frame buf = Bad c r"
  shows "parse_frame (buf @ extra) = Bad c r"
  using assms payload_length_append [of buf _ extra]
  by (auto simp: parse_frame_def nth_append split: if_splits option.splits)

lemma buffer_last:
  "w\<lparr>ws_buffer := b, ws_fragments := x\<rparr> = w\<lparr>ws_fragments := x, ws_buffer := b\<rparr>"
  "w\<lparr>ws_buffer := b, ws_fragment_bytes := n\<rparr> = w\<lparr>ws_fragment_bytes := n, ws_buffer := b\<rparr>"
  "w\<lparr>ws_buffer := b, ws_fragment_opcode := n\<rparr> = w\<lparr>ws_fragment_opcode := n, ws_buffer := b\<rparr>"
  "w\<lparr>ws_buffer := b, ws_alive := c\<rparr> = w\<lparr>ws_alive := c, ws_buffer := b\<rparr>"
  by simp_all

lemma buffer_commutes:
  "put os (w\<lparr>ws_buffer := b\<rparr>) = (put os w)\<lparr>ws_buffer := b\<rparr>"
  "terminate c r (w\<lparr>ws_buffer := b\<rparr>) = (terminate c r w)\<lparr>ws_buffer := b\<rparr>"
  "ws_close c r (w\<lparr>ws_buffer := b\<rparr>) = (ws_close c r w)\<lparr>ws_buffer := b\<rparr>"
  "ws_fail c s (w\<lparr>ws_buffer := b\<rparr>) = (ws_fail c s w)\<lparr>ws_buffer := b\<rparr>"
  "emit_message env p (w\<lparr>ws_buffer := b\<rparr>) = (emit_message env p w)\<lparr>ws_buffer := b\<rparr>"
  by (simp_all add: put_def terminate_def ws_close_def ws_fail_def emit_message_def Let_def split: option.split)

lemma dispatch_commutes: "dispatch_frame env f (w\<lparr>ws_buffer := b\<rparr>) = (dispatch_frame env f w)\<lparr>ws_buffer := b\<rparr>"
proof -
  have "control_frame f (w\<lparr>ws_buffer := b\<rparr>) = (control_frame f w)\<lparr>ws_buffer := b\<rparr>"
    by (simp add: control_frame_def Let_def buffer_commutes)
  moreover have "text_frame env f (w\<lparr>ws_buffer := b\<rparr>) = (text_frame env f w)\<lparr>ws_buffer := b\<rparr>"
    by (simp add: text_frame_def Let_def buffer_commutes buffer_last)
  moreover have "continuation_frame env f (w\<lparr>ws_buffer := b\<rparr>) = (continuation_frame env f w)\<lparr>ws_buffer := b\<rparr>"
    by (simp add: continuation_frame_def Let_def buffer_commutes buffer_last)
  ultimately show ?thesis by (simp add: dispatch_frame_def buffer_commutes)
qed

text \<open>Equal but for what a closed connection still holds in its buffer.\<close>

definition same_ws :: "ws \<Rightarrow> ws \<Rightarrow> bool" where
  "same_ws w w' \<longleftrightarrow> w\<lparr>ws_buffer := []\<rparr> = w'\<lparr>ws_buffer := []\<rparr> \<and> (\<not> ws_closed w \<longrightarrow> ws_buffer w = ws_buffer w')"

lemma same_refl [simp]: "same_ws w w" by (simp add: same_ws_def)

lemma same_buffer: "ws_closed w \<Longrightarrow> same_ws w (w\<lparr>ws_buffer := b\<rparr>)"
  by (simp add: same_ws_def)

lemma same_closed: "same_ws w w' \<Longrightarrow> ws_closed w = ws_closed w'"
proof -
  assume "same_ws w w'"
  then have "ws_closed (w\<lparr>ws_buffer := []\<rparr>) = ws_closed (w'\<lparr>ws_buffer := []\<rparr>)" by (simp add: same_ws_def)
  then show ?thesis by simp
qed

lemma same_trans:
  assumes "same_ws a b" and "same_ws b c"
  shows "same_ws a c"
proof -
  have "a\<lparr>ws_buffer := []\<rparr> = c\<lparr>ws_buffer := []\<rparr>" using assms unfolding same_ws_def by (metis (no_types))
  moreover have "\<not> ws_closed a \<longrightarrow> ws_buffer a = ws_buffer c"
    using assms same_closed [OF assms(1)] unfolding same_ws_def by (metis (no_types))
  ultimately show ?thesis unfolding same_ws_def by (rule conjI)
qed

lemma fail_closes [simp]: "ws_closed (ws_fail c r w)"
  by (simp add: ws_fail_def terminate_def put_def)

lemma same_open: "same_ws w w' \<Longrightarrow> \<not> ws_closed w \<Longrightarrow> w = w'"
proof -
  assume s: "same_ws w w'" and "\<not> ws_closed w"
  then have b: "ws_buffer w = ws_buffer w'" by (simp add: same_ws_def)
  have "w = w\<lparr>ws_buffer := []\<rparr>\<lparr>ws_buffer := ws_buffer w\<rparr>" by simp
  also have "\<dots> = w'\<lparr>ws_buffer := []\<rparr>\<lparr>ws_buffer := ws_buffer w'\<rparr>" using s b by (simp only: same_ws_def)
  also have "\<dots> = w'" by simp
  finally show "w = w'" .
qed

lemma drain_append:
  assumes "\<not> ws_closed w"
  shows "same_ws (consume env (drain env w) extra) (drain env (w\<lparr>ws_buffer := ws_buffer w @ extra\<rparr>))"
  using assms
proof (induction env w rule: drain.induct)
  case (1 env w)
  show ?case
  proof (cases "parse_frame (ws_buffer w)")
    case Need_More
    then show ?thesis using 1(2) by (simp add: drain.simps [of env w] consume_def)
  next
    case (Bad c r)
    have "drain env (w\<lparr>ws_buffer := ws_buffer w @ extra\<rparr>) = (ws_fail c r w)\<lparr>ws_buffer := ws_buffer w @ extra\<rparr>"
      using parse_append_bad [OF Bad] by (simp add: drain.simps [of env "w\<lparr>ws_buffer := _\<rparr>"] buffer_commutes)
    then show ?thesis using Bad by (simp add: drain.simps [of env w] consume_def same_buffer)
  next
    case (Parsed f rest)
    let ?w1 = "dispatch_frame env f (w\<lparr>ws_buffer := rest, ws_alive := True\<rparr>)"
    have b: "ws_buffer ?w1 = rest" by simp
    have d2: "dispatch_frame env f (w\<lparr>ws_buffer := rest @ extra, ws_alive := True\<rparr>) = ?w1\<lparr>ws_buffer := rest @ extra\<rparr>"
      using dispatch_commutes [where env = env and f = f and w = "w\<lparr>ws_buffer := rest, ws_alive := True\<rparr>" and b = "rest @ extra"] by (simp add: buffer_last)
    have long: "drain env (w\<lparr>ws_buffer := ws_buffer w @ extra\<rparr>) =
        (if ws_closed ?w1 then ?w1\<lparr>ws_buffer := rest @ extra\<rparr> else drain env (?w1\<lparr>ws_buffer := ws_buffer ?w1 @ extra\<rparr>))"
      using parse_append [OF Parsed] d2 by (simp add: drain.simps [of env "w\<lparr>ws_buffer := _\<rparr>"] Let_def)
    have short: "drain env w = (if ws_closed ?w1 then ?w1 else drain env ?w1)"
      using Parsed by (simp add: drain.simps [of env w] Let_def)
    show ?thesis
    proof (cases "ws_closed ?w1")
      case True
      then show ?thesis unfolding long short by (simp add: consume_def same_buffer)
    next
      case False
      then show ?thesis unfolding long short using 1(1) [OF Parsed refl False False] by simp
    qed
  qed
qed

lemma consume_append: "same_ws (consume env (consume env w a) b) (consume env w (a @ b))"
proof (cases "ws_closed w")
  case False
  then show ?thesis using drain_append [of "w\<lparr>ws_buffer := ws_buffer w @ a\<rparr>" env b] by (simp add: consume_def)
qed (simp add: consume_def)

lemma consume_closed: "ws_closed w \<Longrightarrow> consume env w c = w"
  by (simp add: consume_def)

lemma consume_same: "same_ws w w' \<Longrightarrow> same_ws (consume env w c) (consume env w' c)"
  using same_open same_closed consume_closed by (metis same_refl)

lemma chunks_join: "same_ws (foldl (consume env) w chunks) (consume env w (concat chunks))
    \<or> chunks = []"
proof (induction chunks rule: rev_induct)
  case (snoc c cs)
  show ?case
  proof (cases "cs = []")
    case False
    with snoc have "same_ws (consume env (foldl (consume env) w cs) c) (consume env (consume env w (concat cs)) c)"
      by (intro consume_same) simp
    then show ?thesis using same_trans [OF _ consume_append] by simp
  qed simp
qed simp

section \<open>Messages\<close>

text \<open>A piece of a message as a client sends it: pings, then a fragment, each with its masking key.\<close>

record piece =
  pc_pings :: "(byte list \<times> byte list) list"
  pc_key :: "byte list"
  pc_bytes :: "byte list"

definition client_ping :: "byte list \<times> byte list \<Rightarrow> byte list" where
  "client_ping kp = client_frame True 9 (fst kp) (snd kp)"

definition client_piece :: "bool \<Rightarrow> bool \<Rightarrow> piece \<Rightarrow> byte list" where
  "client_piece first final p = concat (map client_ping (pc_pings p)) @
     client_frame final (if first then 1 else 0) (pc_key p) (pc_bytes p)"

fun client_pieces :: "bool \<Rightarrow> piece list \<Rightarrow> byte list" where
  "client_pieces first [] = []"
| "client_pieces first [p] = client_piece first True p"
| "client_pieces first (p # q # ps) = client_piece first False p @ client_pieces False (q # ps)"

definition body :: "piece list \<Rightarrow> byte list" where
  "body ps = concat (map pc_bytes ps)"

definition pongs :: "piece list \<Rightarrow> ws_output list" where
  "pongs ps = map (\<lambda>kp. Write (encode_frame 10 (snd kp))) (concat (map pc_pings ps))"

definition piece_ok :: "piece \<Rightarrow> bool" where
  "piece_ok p \<longleftrightarrow> length (pc_key p) = 4 \<and> list_all (\<lambda>(k, b). length k = 4 \<and> length b \<le> 125) (pc_pings p)"

definition message_ok :: "ws_env \<Rightarrow> piece list \<Rightarrow> bool" where
  "message_ok env ps \<longleftrightarrow> ps \<noteq> [] \<and> list_all piece_ok ps \<and> length (body ps) \<le> we_max env \<and>
     (case we_decode env (body ps) of None \<Rightarrow> False | Some t \<Rightarrow> we_on_message env t = None)"

definition heard :: "ws_env \<Rightarrow> piece list \<Rightarrow> ws_output list" where
  "heard env ps = pongs ps @ [Message (the (we_decode env (body ps))) (length (body ps))]"

text \<open>An open connection between frames.\<close>

definition open_ws :: "nat \<Rightarrow> byte list list \<Rightarrow> ws_output list \<Rightarrow> byte list \<Rightarrow> ws" where
  "open_ws op frags out buf = \<lparr>ws_buffer = buf, ws_fragments = frags, ws_fragment_bytes = length (concat frags),
     ws_fragment_opcode = op, ws_closed = False, ws_alive = True, ws_out = out\<rparr>"

lemma open_simps [simp]:
  "ws_buffer (open_ws op frags out buf) = buf" "ws_fragments (open_ws op frags out buf) = frags"
  "ws_fragment_bytes (open_ws op frags out buf) = length (concat frags)" "ws_fragment_opcode (open_ws op frags out buf) = op"
  "\<not> ws_closed (open_ws op frags out buf)" "ws_out (open_ws op frags out buf) = out"
  "(open_ws op frags out buf)\<lparr>ws_buffer := rest, ws_alive := True\<rparr> = open_ws op frags out rest"
  "put os (open_ws op frags out buf) = open_ws op frags (out @ os) buf"
  by (simp_all add: open_ws_def put_def)

lemma feed:
  assumes "parse_frame buf = Parsed f rest" and "dispatch_frame env f (open_ws op frags out rest) = open_ws op' frags' out' rest"
  shows "drain env (open_ws op frags out buf) = drain env (open_ws op' frags' out' rest)"
  by (subst drain.simps) (simp add: assms)

lemma feed_ping:
  assumes "length (fst kp) = 4" and "length (snd kp) \<le> 125"
  shows "drain env (open_ws op frags out (client_ping kp @ rest)) =
    drain env (open_ws op frags (out @ [Write (encode_frame 10 (snd kp))]) rest)"
  unfolding client_ping_def
  by (rule feed [OF parse_client_frame]) (use assms in \<open>simp_all add: dispatch_frame_def control_frame_def max_safe_integer_def\<close>)

lemma feed_pings:
  assumes "list_all (\<lambda>(k, b). length k = 4 \<and> length b \<le> 125) pings"
  shows "drain env (open_ws op frags out (concat (map client_ping pings) @ rest)) =
    drain env (open_ws op frags (out @ map (\<lambda>kp. Write (encode_frame 10 (snd kp))) pings) rest)"
  using assms
proof (induction pings arbitrary: out)
  case (Cons kp pings)
  then show ?case using feed_ping [of kp env op frags out "concat (map client_ping pings) @ rest"]
    by (simp add: case_prod_beta)
qed simp

lemma feed_piece:
  assumes "piece_ok p" and "length (concat frags) + length (pc_bytes p) \<le> we_max env"
    and "we_max env \<le> max_safe_integer" and "first \<longleftrightarrow> frags = []"
    and "frags \<noteq> [] \<longrightarrow> op = 1"
  shows "drain env (open_ws op frags out (client_piece first False p @ rest)) =
    drain env (open_ws 1 (frags @ [pc_bytes p]) (out @ pongs [p]) rest)"
proof -
  let ?o = "if first then 1 else (0 :: byte)"
  have f: "parse_frame (client_frame False ?o (pc_key p) (pc_bytes p) @ rest) =
      Parsed \<lparr>fr_fin = False, fr_opcode = unat ?o, fr_payload = pc_bytes p\<rparr> rest"
    using assms by (intro parse_client_frame) (simp_all add: piece_ok_def)
  have d: "dispatch_frame env \<lparr>fr_fin = False, fr_opcode = unat ?o, fr_payload = pc_bytes p\<rparr>
      (open_ws op frags os rest) = open_ws 1 (frags @ [pc_bytes p]) os rest" for os
    using assms(2,4,5)
    by (auto simp: dispatch_frame_def text_frame_def continuation_frame_def Let_def open_ws_def)
  show ?thesis
    using assms(1) feed [OF f d] feed_pings [of "pc_pings p" env op frags out]
    by (simp add: client_piece_def piece_ok_def pongs_def)
qed

lemma feed_last_piece:
  assumes "piece_ok p" and "length (concat frags) + length (pc_bytes p) \<le> we_max env"
    and "we_max env \<le> max_safe_integer" and "first \<longleftrightarrow> frags = []"
    and "frags \<noteq> [] \<longrightarrow> op = 1" and "we_decode env (concat frags @ pc_bytes p) = Some t" and "we_on_message env t = None"
  shows "drain env (open_ws op frags out (client_piece first True p @ rest)) =
    drain env (open_ws op [] (out @ pongs [p] @ [Message t (length (concat frags @ pc_bytes p))]) rest)"
proof -
  let ?o = "if first then 1 else (0 :: byte)"
  have f: "parse_frame (client_frame True ?o (pc_key p) (pc_bytes p) @ rest) =
      Parsed \<lparr>fr_fin = True, fr_opcode = unat ?o, fr_payload = pc_bytes p\<rparr> rest"
    using assms by (intro parse_client_frame) (simp_all add: piece_ok_def)
  have d: "dispatch_frame env \<lparr>fr_fin = True, fr_opcode = unat ?o, fr_payload = pc_bytes p\<rparr>
      (open_ws op frags os rest) = open_ws op [] (os @ [Message t (length (concat frags @ pc_bytes p))]) rest" for os
    using assms(2,4-7)
    by (auto simp: dispatch_frame_def text_frame_def continuation_frame_def emit_message_def put_def Let_def open_ws_def)
  show ?thesis
    using assms(1) feed [OF f d] feed_pings [of "pc_pings p" env op frags out]
    by (simp add: client_piece_def piece_ok_def pongs_def)
qed

lemma feed_message:
  assumes "ps \<noteq> []" and "list_all piece_ok ps" and "length (concat frags) + length (body ps) \<le> we_max env"
    and "we_max env \<le> max_safe_integer" and "first \<longleftrightarrow> frags = []"
    and "frags \<noteq> [] \<longrightarrow> op = 1" and "we_decode env (concat frags @ body ps) = Some t" and "we_on_message env t = None"
  shows "drain env (open_ws op frags out (client_pieces first ps @ rest)) =
    drain env (open_ws (if length ps = 1 then op else 1) [] (out @ pongs ps @ [Message t (length (concat frags @ body ps))]) rest)"
  using assms
proof (induction first ps arbitrary: op frags out rule: client_pieces.induct)
  case (2 first p)
  then show ?case using feed_last_piece [where p = p and frags = frags and env = env and first = first and t = t and op = op and out = out and rest = rest] by (simp add: body_def)
next
  case (3 first p q ps)
  have "drain env (open_ws op frags out (client_piece first False p @ client_pieces False (q # ps) @ rest)) =
      drain env (open_ws 1 (frags @ [pc_bytes p]) (out @ pongs [p]) (client_pieces False (q # ps) @ rest))"
    using 3(3-8) by (intro feed_piece) (simp_all add: body_def)
  also have "\<dots> = drain env (open_ws (if length (q # ps) = 1 then 1 else 1) [] ((out @ pongs [p]) @ pongs (q # ps) @
      [Message t (length (concat (frags @ [pc_bytes p]) @ body (q # ps)))]) rest)"
    using 3(3-9) by (intro "3.IH") (simp_all add: body_def)
  finally show ?case by (simp add: pongs_def body_def)
qed simp

lemma feed_messages:
  assumes "list_all (message_ok env) msgs" and "we_max env \<le> max_safe_integer"
  shows "\<exists>op'. drain env (open_ws op [] out (concat (map (client_pieces True) msgs))) =
    open_ws op' [] (out @ concat (map (heard env) msgs)) []"
  using assms(1)
proof (induction msgs arbitrary: op out)
  case Nil
  show ?case by (rule exI [of _ op], subst drain.simps) (simp add: parse_frame_def)
next
  case (Cons ps msgs)
  then obtain t where t: "we_decode env (body ps) = Some t" "we_on_message env t = None"
    by (auto simp: message_ok_def split: option.splits)
  have "drain env (open_ws op [] out (client_pieces True ps @ concat (map (client_pieces True) msgs))) =
      drain env (open_ws (if length ps = 1 then op else 1) [] (out @ pongs ps @ [Message t (length (concat [] @ body ps))])
        (concat (map (client_pieces True) msgs)))"
    using Cons.prems t assms(2) by (intro feed_message) (simp_all add: message_ok_def)
  moreover have "out @ heard env ps = out @ pongs ps @ [Message t (length (concat [] @ body ps))]"
    using t by (simp add: heard_def)
  ultimately have step: "drain env (open_ws op [] out (client_pieces True ps @ concat (map (client_pieces True) msgs))) =
      drain env (open_ws (if length ps = 1 then op else 1) [] (out @ heard env ps) (concat (map (client_pieces True) msgs)))"
    by simp
  have "list_all (message_ok env) msgs" using Cons.prems by simp
  from Cons.IH [OF this, of "if length ps = 1 then op else 1" "out @ heard env ps"] show ?case
    by (simp only: list.map concat.simps append_assoc step)
qed

text \<open>
  C16. Messages survive any framing: however a client cuts its messages into fragments, with whatever
  masking keys and pings in between, and however the network cuts the bytes into chunks, a
  connection that is not told to close delivers exactly the messages, in order, answers every ping
  with its payload, and ends open with nothing left over.
\<close>
theorem messages_survive_framing:
  assumes "list_all (message_ok env) msgs" and "we_max env \<le> max_safe_integer"
    and "concat chunks = concat (map (client_pieces True) msgs)"
  shows "let w = ws_run env (map Data chunks)
    in ws_out w = concat (map (heard env) msgs) \<and> \<not> ws_closed w \<and> ws_buffer w = [] \<and> ws_fragments w = []"
proof (cases "chunks = []")
  case True
  then have "concat (map (client_pieces True) msgs) = []" using assms(3) by simp
  moreover have "drain env (open_ws 0 [] [] []) = open_ws 0 [] [] []" by (subst drain.simps) (simp add: parse_frame_def)
  moreover obtain op' where "drain env (open_ws 0 [] [] (concat (map (client_pieces True) msgs))) =
      open_ws op' [] ([] @ concat (map (heard env) msgs)) []"
    using feed_messages [OF assms(1,2)] by blast
  ultimately have "open_ws 0 [] [] [] = open_ws op' [] (concat (map (heard env) msgs)) []" by (simp only: append_Nil)
  then have "concat (map (heard env) msgs) = []" by (metis open_simps(6))
  with True show ?thesis by (simp add: ws_run_def new_ws_def Let_def)
next
  case False
  have run: "ws_run env (map Data chunks) = foldl (consume env) new_ws chunks"
    by (simp add: ws_run_def foldl_map)
  obtain op where "consume env new_ws (concat chunks) = open_ws op [] (concat (map (heard env) msgs)) []"
    using feed_messages [OF assms(1,2), of 0 "[]"] assms(3)
    by (auto simp: consume_def new_ws_def open_ws_def)
  moreover have "same_ws (foldl (consume env) new_ws chunks) (consume env new_ws (concat chunks))"
    using chunks_join False by blast
  ultimately have "foldl (consume env) new_ws chunks = open_ws op [] (concat (map (heard env) msgs)) []"
    using same_open same_closed open_simps(5) by metis
  then show ?thesis by (simp add: run)
qed

section \<open>A connection closes once\<close>

definition quiet_output :: "nat \<Rightarrow> ws_output \<Rightarrow> bool" where
  "quiet_output m o' = (case o' of Destroy_Socket \<Rightarrow> False | Connection_Closed c r \<Rightarrow> False
     | Message t n \<Rightarrow> n \<le> m | Write b \<Rightarrow> True | End_Socket \<Rightarrow> True)"

definition ended_with :: "nat \<Rightarrow> ws_output list \<Rightarrow> bool" where
  "ended_with m out \<longleftrightarrow> (\<exists>pre c r. out = pre @ [Destroy_Socket, Connection_Closed c r] \<and> list_all (quiet_output m) pre)"

definition ws_good :: "ws_env \<Rightarrow> ws \<Rightarrow> bool" where
  "ws_good env w \<longleftrightarrow> ws_fragment_bytes w = length (concat (ws_fragments w)) \<and>
     (if ws_closed w then ended_with (we_max env) (ws_out w)
      else list_all (quiet_output (we_max env)) (ws_out w) \<and> ws_fragment_bytes w \<le> we_max env)"

lemma quiet_output_simps [simp]:
  "quiet_output m (Write b)" "quiet_output m End_Socket" "quiet_output m (Message t n) = (n \<le> m)"
  by (simp_all add: quiet_output_def)

lemma terminate_good:
  assumes "ws_fragment_bytes w = length (concat (ws_fragments w))"
    and "if ws_closed w then ended_with (we_max env) (ws_out w) else list_all (quiet_output (we_max env)) (ws_out w)"
  shows "ws_good env (terminate c r w)"
  using assms by (auto simp: ws_good_def terminate_def put_def ended_with_def)

lemma stop_good: "ws_good env w \<Longrightarrow> ws_good env (terminate c r w)"
  unfolding ws_good_def [of env w] by (intro terminate_good) (auto split: if_splits)

lemma put_good: "ws_good env w \<Longrightarrow> \<not> ws_closed w \<Longrightarrow> list_all (quiet_output (we_max env)) os \<Longrightarrow> ws_good env (put os w)"
  by (simp add: ws_good_def put_def)

lemma close_good: "ws_good env w \<Longrightarrow> ws_good env (ws_close c r w)"
  by (auto simp: ws_close_def intro!: terminate_good) (auto simp: ws_good_def put_def)

lemma fail_good:
  assumes "ws_fragment_bytes w = length (concat (ws_fragments w))" and "\<not> ws_closed w"
    and "list_all (quiet_output (we_max env)) (ws_out w)"
  shows "ws_good env (ws_fail c r w)"
  unfolding ws_fail_def using assms by (intro terminate_good) (simp_all add: put_def)

lemma emit_good:
  assumes "ws_good env w" and "\<not> ws_closed w" and "length payload \<le> we_max env"
  shows "ws_good env (emit_message env payload w)"
  using assms
  by (auto simp: emit_message_def Let_def intro!: close_good put_good fail_good split: option.split)
    (auto simp: ws_good_def)

lemma dispatch_good:
  assumes "ws_good env w" and "\<not> ws_closed w"
  shows "ws_good env (dispatch_frame env f w)"
proof -
  have inv: "ws_fragment_bytes w = length (concat (ws_fragments w))" "list_all (quiet_output (we_max env)) (ws_out w)"
    "ws_fragment_bytes w \<le> we_max env"
    using assms by (simp_all add: ws_good_def)
  have fail: "ws_good env (ws_fail c s w)" for c s
    using inv assms(2) by (intro fail_good)
  have c: "ws_good env (control_frame f w)"
    using assms inv fail
    by (auto simp: control_frame_def Let_def intro!: put_good terminate_good) (auto simp: put_def)
  have t: "ws_good env (text_frame env f w)"
    using assms inv fail
    by (auto simp: text_frame_def Let_def intro!: emit_good) (auto simp: ws_good_def)
  have k: "ws_good env (continuation_frame env f w)"
  proof -
    let ?w = "w\<lparr>ws_fragments := ws_fragments w @ [fr_payload f],
      ws_fragment_bytes := ws_fragment_bytes w + length (fr_payload f)\<rparr>"
    have "ws_good env (ws_fail 1009 ''message too large'' ?w)"
      using inv assms(2) by (intro fail_good) simp_all
    moreover have "ws_good env ?w" if "\<not> we_max env < ws_fragment_bytes ?w"
      using that inv assms(2) by (simp add: ws_good_def)
    moreover have "ws_good env (emit_message env (concat (ws_fragments ?w)) (?w\<lparr>ws_fragments := [], ws_fragment_bytes := 0\<rparr>))"
      if "\<not> we_max env < ws_fragment_bytes ?w"
      using that inv assms(2) by (intro emit_good) (simp_all add: ws_good_def)
    ultimately show ?thesis using fail by (simp add: continuation_frame_def Let_def)
  qed
  show ?thesis using c t k fail by (simp add: dispatch_frame_def)
qed

lemma drain_good: "ws_good env w \<Longrightarrow> \<not> ws_closed w \<Longrightarrow> ws_good env (drain env w)"
proof (induction env w rule: drain.induct)
  case (1 env w)
  show ?case
  proof (cases "parse_frame (ws_buffer w)")
    case Need_More
    then show ?thesis using 1(2) by (simp add: drain.simps [of env w])
  next
    case (Bad c r)
    have "ws_good env (ws_fail c r w)" using 1(2,3) by (intro fail_good) (simp_all add: ws_good_def)
    with Bad show ?thesis by (simp add: drain.simps [of env w])
  next
    case (Parsed f rest)
    let ?w = "w\<lparr>ws_buffer := rest, ws_alive := True\<rparr>"
    have good: "ws_good env (dispatch_frame env f ?w)"
      using 1(2,3) by (intro dispatch_good) (simp_all add: ws_good_def)
    show ?thesis
    proof (cases "ws_closed (dispatch_frame env f ?w)")
      case True
      then show ?thesis using good Parsed by (simp add: drain.simps [of env w] Let_def)
    next
      case False
      from 1(1) [OF Parsed refl False good False] show ?thesis
        using False Parsed by (simp add: drain.simps [of env w] Let_def)
    qed
  qed
qed

lemma ws_step_good: "ws_good env w \<Longrightarrow> ws_good env (ws_step env w c)"
proof (cases c)
  case (Data chunk)
  assume g: "ws_good env w"
  then have "ws_good env (w\<lparr>ws_buffer := ws_buffer w @ chunk\<rparr>)" unfolding ws_good_def by (cases "ws_closed w") simp_all
  then show ?thesis using g drain_good by (simp add: Data consume_def)
next
  case Tick
  assume g: "ws_good env w"
  then have "ws_good env (w\<lparr>ws_alive := False\<rparr>)" unfolding ws_good_def by (cases "ws_closed w") simp_all
  then show ?thesis using g
    by (auto simp: Tick ws_tick_def ws_ping_def intro!: put_good stop_good)
next
  case Socket_Gone
  assume "ws_good env w"
  then show ?thesis by (simp add: Socket_Gone stop_good)
next
  case (Send b)
  assume "ws_good env w"
  then show ?thesis by (auto simp: Send ws_send_def intro!: put_good)
next
  case (Close code r)
  assume "ws_good env w"
  then show ?thesis by (simp add: Close close_good)
qed

interpretation wsm: invariant_machine "ws_step env" "ws_good env" for env
  by unfold_locales (rule ws_step_good)

lemma ws_run_good: "ws_good env (ws_run env cs)"
  unfolding ws_run_def by (rule wsm.run_good) (simp add: ws_good_def new_ws_def)

text \<open>
  Whatever the peer sends, and whenever messages are sent, the timer fires, the connection is
  closed or the socket fails: the application is told of the end at most once and as the last thing
  the connection does, nothing has any effect afterwards, no message above the limit is delivered,
  and the fragments kept never exceed the limit.
\<close>
theorem connection_closes_once:
  "let w = ws_run env cs
   in if ws_closed w
      then (\<exists>pre c r. ws_out w = pre @ [Destroy_Socket, Connection_Closed c r] \<and>
              list_all (quiet_output (we_max env)) pre) \<and> (\<forall>d. ws_step env w d = w)
      else list_all (quiet_output (we_max env)) (ws_out w) \<and> length (concat (ws_fragments w)) \<le> we_max env"
proof -
  have "ws_step env w d = w" if "ws_closed w" for w d
    using that by (cases d) (simp_all add: consume_def ws_send_def ws_tick_def ws_close_def terminate_def)
  moreover note ws_run_good [of env cs, unfolded ws_good_def ended_with_def]
  ultimately show ?thesis by (cases "ws_closed (ws_run env cs)") (simp_all add: Let_def)
qed

section \<open>A concrete connection\<close>

definition demo_ws :: ws_env where
  "demo_ws = \<lparr>we_decode = (\<lambda>bs. Some (map unat bs)), we_max = 100, we_on_message = (\<lambda>t. None)\<rparr>"

definition demo_pieces :: "piece list" where
  "demo_pieces = [\<lparr>pc_pings = [], pc_key = [1, 2, 3, 4], pc_bytes = [72, 105]\<rparr>,
     \<lparr>pc_pings = [([9, 8, 7, 6], [5])], pc_key = [0, 0, 0, 255], pc_bytes = [33]\<rparr>]"

lemma messages_survive_framing_witness:
  "let w = ws_run demo_ws (map Data [take 5 (client_pieces True demo_pieces), drop 5 (client_pieces True demo_pieces)])
   in ws_out w = [Write (encode_frame 10 [5]), Message [72, 105, 33] 3] \<and> \<not> ws_closed w \<and> ws_buffer w = [] \<and>
      ws_fragments w = []"
proof -
  have ok: "list_all (message_ok demo_ws) [demo_pieces]"
    by (simp add: message_ok_def demo_pieces_def piece_ok_def body_def demo_ws_def)
  have "concat (map (heard demo_ws) [demo_pieces]) = [Write (encode_frame 10 [5]), Message [72, 105, 33] 3]"
    by (simp add: heard_def pongs_def body_def demo_pieces_def demo_ws_def)
  with messages_survive_framing [OF ok, of "[take 5 (client_pieces True demo_pieces), drop 5 (client_pieces True demo_pieces)]"]
  show ?thesis by (simp add: demo_ws_def [THEN arg_cong, of we_max] max_safe_integer_def)
qed

end
