(* ===== verification/Gateway_Auth.thy ===== *)
theory Gateway_Auth
  imports Prelude
begin

text \<open>
  Tokens and clients of the gateway, \<open>packages/gateway-server/src/oauth.ts\<close>: the signed tokens, the
  parsing of the clients, and the server that authenticates clients and issues and verifies tokens.
  HMAC, SHA-256, base64 and the JSON functions are parameters; bytes are strings.
\<close>

section \<open>Signed tokens\<close>

record claims =
  cl_iss :: "string option"
  cl_sub :: "string option"
  cl_client :: "string option"
  cl_scope :: "string option"
  cl_typ :: "string option"
  cl_iat :: "int option"
  cl_exp :: "int option"
  cl_jti :: "string option"

record crypto =
  cr_b64 :: "string \<Rightarrow> string"
  cr_unb64 :: "string \<Rightarrow> string"
  cr_hmac :: "string \<Rightarrow> string"
  cr_sha :: "string \<Rightarrow> string"
  cr_json :: "claims \<Rightarrow> string"
  cr_parse :: "string \<Rightarrow> claims option"

text \<open>What the code relies on: base64 and JSON are undone exactly, and base64 has no full stop.\<close>

definition crypto_ok :: "crypto \<Rightarrow> bool" where
  "crypto_ok c \<longleftrightarrow> (\<forall>s. cr_unb64 c (cr_b64 c s) = s \<and> CHR ''.'' \<notin> set (cr_b64 c s)) \<and>
     (\<forall>x. cr_parse c (cr_json c x) = Some x)"

definition jwt_header :: string where
  "jwt_header = [CHR 0x7B, CHR 0x22] @ ''alg'' @ [CHR 0x22] @ '':'' @ [CHR 0x22] @ ''HS256'' @ [CHR 0x22] @ '','' @
     [CHR 0x22] @ ''typ'' @ [CHR 0x22] @ '':'' @ [CHR 0x22] @ ''JWT'' @ [CHR 0x22, CHR 0x7D]"

definition sign_jwt :: "crypto \<Rightarrow> claims \<Rightarrow> string" where
  "sign_jwt c x =
     (let header = cr_b64 c jwt_header; payload = cr_b64 c (cr_json c x)
      in header @ ''.'' @ payload @ ''.'' @ cr_b64 c (cr_hmac c (header @ ''.'' @ payload)))"

definition verify_jwt :: "crypto \<Rightarrow> string \<Rightarrow> claims option" where
  "verify_jwt c token = (case split_on CHR ''.'' token of
     [header, payload, signature] \<Rightarrow>
       if header \<noteq> cr_b64 c jwt_header then None
       else if cr_unb64 c signature \<noteq> cr_hmac c (header @ ''.'' @ payload) then None
       else cr_parse c (cr_unb64 c payload)
   | _ \<Rightarrow> None)"

section \<open>Clients\<close>

record oauth_client =
  oc_id :: string
  oc_hash :: string
  oc_scopes :: "string list"

record client_entry =
  ce_id :: "string option"
  ce_secret :: "string option"
  ce_hash :: "string option"
  ce_scopes :: "string list option option"

definition hash_client_secret :: "crypto \<Rightarrow> string \<Rightarrow> string" where
  "hash_client_secret c secret = cr_sha c (''volund-gateway-client-v1:'' @ secret)"

definition client_id_ok :: "string \<Rightarrow> bool" where
  "client_id_ok s \<longleftrightarrow> s \<noteq> [] \<and> length s \<le> 128 \<and> list_all (\<lambda>ch. let n = (of_char ch :: nat) in
     97 \<le> n \<and> n \<le> 122 \<or> 65 \<le> n \<and> n \<le> 90 \<or> 48 \<le> n \<and> n \<le> 57 \<or> n \<in> {45, 46, 95}) s"

definition hash_ok :: "string \<Rightarrow> bool" where
  "hash_ok s \<longleftrightarrow> length s = 64 \<and> list_all (\<lambda>ch. ch \<in> set ''0123456789abcdef'') s"

text \<open>
  One entry of the clients' file after the JSON parser; an entry that is no object is \<open>None\<close>, scopes
  that are no array of strings are \<open>Some None\<close>.
\<close>

definition parse_client :: "crypto \<Rightarrow> string list \<Rightarrow> client_entry option \<Rightarrow> (oauth_client \<times> bool) result" where
  "parse_client c seen entry = (case entry of
     None \<Rightarrow> throw ''config_invalid'' ''gateway client entries must be objects''
   | Some e \<Rightarrow> (case ce_id e of
       None \<Rightarrow> throw ''config_invalid'' ''gateway client requires id''
     | Some i \<Rightarrow>
         if \<not> client_id_ok i then throw ''config_invalid'' ''gateway client requires id''
         else if (ce_secret e \<noteq> None) = (ce_hash e \<noteq> None) then throw ''config_invalid'' i
         else if (case ce_secret e of Some s \<Rightarrow> length s < 16 | None \<Rightarrow> False) then throw ''config_invalid'' i
         else if (case ce_hash e of Some h \<Rightarrow> \<not> hash_ok h | None \<Rightarrow> False) then throw ''config_invalid'' i
         else if i \<in> set seen then throw ''config_invalid'' i
         else if ce_scopes e = Some None then throw ''config_invalid'' i
         else Inr (\<lparr>oc_id = i,
                    oc_hash = (case ce_secret e of Some s \<Rightarrow> hash_client_secret c s | None \<Rightarrow> given (ce_hash e) []),
                    oc_scopes = given (given (ce_scopes e) None) [''chat'']\<rparr>, ce_secret e \<noteq> None)))"

fun parse_entries :: "crypto \<Rightarrow> string list \<Rightarrow> client_entry option list \<Rightarrow> (oauth_client \<times> bool) list result" where
  "parse_entries c seen [] = Inr []"
| "parse_entries c seen (e # es) =
     bind_result (parse_client c seen e) (\<lambda>x.
     bind_result (parse_entries c (oc_id (fst x) # seen) es) (\<lambda>xs. Inr (x # xs)))"

text \<open>\<open>raw\<close> is what the JSON parser returns, \<open>None\<close> unless it is an array.\<close>

definition parse_gateway_clients ::
  "crypto \<Rightarrow> client_entry option list option \<Rightarrow> (oauth_client list \<times> string list) result" where
  "parse_gateway_clients c raw = (case raw of
     None \<Rightarrow> throw ''config_invalid'' ''gateway clients must be a JSON array''
   | Some es \<Rightarrow> bind_result (parse_entries c [] es) (\<lambda>xs.
       if xs = [] then throw ''config_invalid'' ''gateway clients must not be empty''
       else Inr (map fst xs, map (\<lambda>x. oc_id (fst x)) (filter snd xs))))"

section \<open>The server\<close>

record oauth_server =
  os_issuer :: string
  os_ttl :: int
  os_clients :: "(string, oauth_client) jsmap"

definition new_oauth_server :: "string \<Rightarrow> int \<Rightarrow> oauth_client list \<Rightarrow> oauth_server" where
  "new_oauth_server issuer ttl cs =
     \<lparr>os_issuer = issuer, os_ttl = ttl, os_clients = foldl (\<lambda>m c. map_set (oc_id c) c m) [] cs\<rparr>"

definition authenticate :: "crypto \<Rightarrow> oauth_server \<Rightarrow> string \<Rightarrow> string \<Rightarrow> oauth_client option" where
  "authenticate c srv i secret = (case map_get (os_clients srv) i of
     None \<Rightarrow> None
   | Some cl \<Rightarrow> if oc_hash cl = hash_client_secret c secret then Some cl else None)"

definition add_client :: "oauth_client \<Rightarrow> oauth_server \<Rightarrow> oauth_server result" where
  "add_client cl srv =
     (if map_has (os_clients srv) (oc_id cl) then throw ''gateway_internal'' (oc_id cl)
      else Inr (srv\<lparr>os_clients := map_set (oc_id cl) cl (os_clients srv)\<rparr>))"

definition list_clients :: "oauth_server \<Rightarrow> (string \<times> string list) list" where
  "list_clients srv = map (\<lambda>c. (oc_id c, oc_scopes c)) (map_values (os_clients srv))"

text \<open>Clock readings are milliseconds, tokens count seconds.\<close>

definition issue :: "crypto \<Rightarrow> oauth_server \<Rightarrow> oauth_client \<Rightarrow> string list \<Rightarrow> int \<Rightarrow> string \<Rightarrow> (string \<times> int) option" where
  "issue c srv cl requested now jti =
     (let granted = (if requested = [] then oc_scopes cl else filter (\<lambda>s. s \<in> set (oc_scopes cl)) requested)
      in if list_ex (\<lambda>s. s \<notin> set (oc_scopes cl)) requested then None
         else Some (sign_jwt c \<lparr>cl_iss = Some (os_issuer srv), cl_sub = Some (oc_id cl), cl_client = None,
                cl_scope = Some (join '' '' granted), cl_typ = None, cl_iat = Some (now div 1000),
                cl_exp = Some (now div 1000 + os_ttl srv), cl_jti = Some jti\<rparr>, os_ttl srv))"

record token_claims =
  tc_sub :: string
  tc_scopes :: "string list"
  tc_expires :: int

definition scopes_of :: "string option \<Rightarrow> string list" where
  "scopes_of s = (case s of None \<Rightarrow> [] | Some t \<Rightarrow> filter (\<lambda>w. w \<noteq> []) (split_on CHR '' '' t))"

definition verify :: "crypto \<Rightarrow> oauth_server \<Rightarrow> string \<Rightarrow> int \<Rightarrow> token_claims option" where
  "verify c srv token now = (case verify_jwt c token of
     None \<Rightarrow> None
   | Some x \<Rightarrow>
       if cl_iss x \<noteq> Some (os_issuer srv) then None
       else (case (cl_sub x, cl_exp x) of
         (Some sub, Some ex) \<Rightarrow>
           if \<not> map_has (os_clients srv) sub then None
           else if ex \<le> now div 1000 then None
           else Some \<lparr>tc_sub = sub, tc_scopes = scopes_of (cl_scope x), tc_expires = ex\<rparr>
       | _ \<Rightarrow> None))"

section \<open>Facts\<close>

lemma jwt_round: "crypto_ok c \<Longrightarrow> verify_jwt c (sign_jwt c x) = Some x"
  by (simp add: crypto_ok_def verify_jwt_def sign_jwt_def Let_def split_on_append_sep split_on_no_occurrence)

lemma scopes_round:
  assumes "\<forall>s \<in> set ss. s \<noteq> [] \<and> CHR '' '' \<notin> set s"
  shows "scopes_of (Some (join '' '' ss)) = ss"
proof (cases "ss = []")
  case False
  then have "split_on CHR '' '' (join '' '' ss) = ss"
    using assms by (induction "'' ''" ss rule: join.induct) (auto simp: split_on_append_sep split_on_no_occurrence)
  with assms show ?thesis by (simp add: scopes_of_def filter_id_conv)
qed (simp add: scopes_of_def)

lemma parse_entries_ids:
  "parse_entries c seen es = Inr xs \<Longrightarrow> distinct (map (\<lambda>x. oc_id (fst x)) xs) \<and>
     (\<forall>x \<in> set xs. oc_id (fst x) \<notin> set seen \<and> client_id_ok (oc_id (fst x)))"
proof (induction es arbitrary: seen xs)
  case (Cons e es)
  from Cons.prems obtain x ys where x: "parse_client c seen e = Inr x"
    and ys: "parse_entries c (oc_id (fst x) # seen) es = Inr ys" and xs: "xs = x # ys"
    by (auto simp: bind_result_Inr_iff)
  have "oc_id (fst x) \<notin> set seen \<and> client_id_ok (oc_id (fst x))"
    using x by (auto simp: parse_client_def split: option.splits if_splits)
  with Cons.IH [OF ys] show ?case by (auto simp: xs)
qed simp

end
