(* ===== verification/Pairing.thy ===== *)
theory Pairing
  imports Gateway_Auth
begin

text \<open>
  Pairing codes and devices of the gateway, \<open>packages/gateway-server/src/pairing.ts\<close>. A call first
  waits for the registry to be loaded: the call that finds it unloaded marks it loaded and reads the
  file (\<open>Arrive\<close>), later calls go on at once, and the first one continues when the file is there
  (\<open>Loaded\<close>, with what was read). From there a call runs to its write of the file without another
  call changing the store; the write itself is taken as one step that succeeds. Random values and the clock
  are arguments of the call.
\<close>

section \<open>Records\<close>

datatype code_kind = Device_Code | Machine_Code

record pairing_code =
  pc_code :: string
  pc_client :: string
  pc_kind :: code_kind
  pc_created :: int
  pc_expires :: int

record paired_device =
  dv_id :: string
  dv_name :: ustr
  dv_client :: string
  dv_paired :: int
  dv_seen :: int
  dv_ip :: "string option"
  dv_agent :: "string option"

text \<open>What the JSON file may hold: an entry that is no object is \<open>None\<close>, a member of another type too.\<close>

record raw_device =
  rw_id :: "string option"
  rw_name :: "ustr option"
  rw_client :: "string option"
  rw_paired :: "int option"
  rw_seen :: "int option"
  rw_ip :: "string option"
  rw_agent :: "string option"

definition read_device :: "raw_device option \<Rightarrow> paired_device list" where
  "read_device e = (case e of
     None \<Rightarrow> []
   | Some r \<Rightarrow> (case (rw_id r, rw_client r, rw_name r) of
       (Some i, Some c, Some n) \<Rightarrow>
         [\<lparr>dv_id = i, dv_name = n, dv_client = c, dv_paired = given (rw_paired r) 0, dv_seen = given (rw_seen r) 0,
           dv_ip = rw_ip r, dv_agent = rw_agent r\<rparr>]
     | _ \<Rightarrow> []))"

record pairing_options =
  po_issuer :: string
  po_stored :: bool
  po_code_ttl :: int
  po_device_ttl :: int

record store =
  pr_codes :: "(string, pairing_code) jsmap"
  pr_devices :: "paired_device list"
  pr_loaded :: bool
  pr_file :: "paired_device list"

definition new_store :: "paired_device list \<Rightarrow> store" where
  "new_store file = \<lparr>pr_codes = [], pr_devices = [], pr_loaded = False, pr_file = file\<rparr>"

text \<open>A code from eight random bytes: the alphabet leaves out the letters and digits that look alike.\<close>

definition code_alphabet :: string where
  "code_alphabet = ''23456789ABCDEFGHJKMNPQRSTUVWXYZ''"

definition new_pairing_code :: "nat list \<Rightarrow> string" where
  "new_pairing_code bytes = map (\<lambda>b. code_alphabet ! (b mod length code_alphabet)) (take 8 bytes)"

definition touch_throttle :: int where "touch_throttle = 60000"

section \<open>Operations\<close>

definition persist_devices :: "pairing_options \<Rightarrow> store \<Rightarrow> store" where
  "persist_devices opts st = (if po_stored opts then st\<lparr>pr_file := pr_devices st\<rparr> else st)"

definition sweep_codes :: "int \<Rightarrow> store \<Rightarrow> store" where
  "sweep_codes now st = st\<lparr>pr_codes := filter (\<lambda>(k, r). now < pc_expires r) (pr_codes st)\<rparr>"

definition create_code ::
  "pairing_options \<Rightarrow> string \<Rightarrow> code_kind \<Rightarrow> int \<Rightarrow> string \<Rightarrow> store \<Rightarrow> pairing_code \<times> store" where
  "create_code opts client kind now code st =
     (let st1 = sweep_codes now st;
          r = \<lparr>pc_code = code, pc_client = client, pc_kind = kind, pc_created = now, pc_expires = now + po_code_ttl opts\<rparr>
      in (r, st1\<lparr>pr_codes := map_set code r (pr_codes st1)\<rparr>))"

definition default_device_name :: ustr where
  "default_device_name = [31227, 21160, 35774, 22791]"

definition device_name :: "ustr option \<Rightarrow> ustr" where
  "device_name n = (case n of
     None \<Rightarrow> default_device_name
   | Some s \<Rightarrow> if s \<noteq> [] \<and> take 64 (u_trim s) \<noteq> [] then take 64 (u_trim s) else default_device_name)"

record redeem_input =
  ri_name :: "ustr option"
  ri_ip :: "string option"
  ri_agent :: "string option"
  ri_device :: string
  ri_jti :: string

record redeem_result =
  rr_token :: string
  rr_expires :: int
  rr_device :: string

definition matching_code :: "int \<Rightarrow> string \<Rightarrow> store \<Rightarrow> pairing_code option" where
  "matching_code now code st =
     (case rev (filter (\<lambda>r. now < pc_expires r \<and> pc_code r = code) (map_values (pr_codes st))) of
        [] \<Rightarrow> None | r # rs \<Rightarrow> Some r)"

definition device_claims :: "pairing_options \<Rightarrow> pairing_code \<Rightarrow> redeem_input \<Rightarrow> int \<Rightarrow> claims" where
  "device_claims opts r input now =
     \<lparr>cl_iss = Some (po_issuer opts), cl_sub = Some (ri_device input), cl_client = Some (pc_client r),
      cl_scope = Some ''chat'', cl_typ = Some ''device'', cl_iat = Some (now div 1000),
      cl_exp = Some ((now + po_device_ttl opts * 1000) div 1000), cl_jti = Some (ri_jti input)\<rparr>"

definition redeem ::
  "crypto \<Rightarrow> pairing_options \<Rightarrow> string \<Rightarrow> redeem_input \<Rightarrow> int \<Rightarrow> store \<Rightarrow>
     (pairing_code \<times> redeem_result option) option \<times> store" where
  "redeem c opts code input now st =
     (let st1 = sweep_codes now st
      in case matching_code now code st1 of
        None \<Rightarrow> (None, st1)
      | Some r \<Rightarrow>
          let st2 = st1\<lparr>pr_codes := map_delete (pc_code r) (pr_codes st1)\<rparr>
          in if pc_kind r = Machine_Code then (Some (r, None), st2)
             else
               let d = \<lparr>dv_id = ri_device input, dv_name = device_name (ri_name input), dv_client = pc_client r,
                        dv_paired = now, dv_seen = now, dv_ip = truthy (ri_ip input), dv_agent = truthy (ri_agent input)\<rparr>;
                   st3 = persist_devices opts (st2\<lparr>pr_devices := pr_devices st2 @ [d]\<rparr>)
               in (Some (r, Some \<lparr>rr_token = sign_jwt c (device_claims opts r input now),
                                  rr_expires = po_device_ttl opts, rr_device = ri_device input\<rparr>), st3))"

definition list_devices :: "string option \<Rightarrow> store \<Rightarrow> paired_device list" where
  "list_devices client st = (case truthy client of
     None \<Rightarrow> pr_devices st | Some c \<Rightarrow> filter (\<lambda>d. dv_client d = c) (pr_devices st))"

definition revoke_device :: "pairing_options \<Rightarrow> string \<Rightarrow> string \<Rightarrow> store \<Rightarrow> bool \<times> store" where
  "revoke_device opts client i st =
     (let kept = filter (\<lambda>d. \<not> (dv_client d = client \<and> dv_id d = i)) (pr_devices st)
      in if length kept = length (pr_devices st) then (False, st\<lparr>pr_devices := kept\<rparr>)
         else (True, persist_devices opts (st\<lparr>pr_devices := kept\<rparr>)))"

fun touch :: "string \<Rightarrow> string option \<Rightarrow> int \<Rightarrow> paired_device list \<Rightarrow> paired_device list" where
  "touch i ip now [] = []"
| "touch i ip now (d # ds) =
     (if dv_id d = i then d\<lparr>dv_seen := now, dv_ip := (case truthy ip of None \<Rightarrow> dv_ip d | Some a \<Rightarrow> Some a)\<rparr> # ds
      else d # touch i ip now ds)"

record device_token =
  dt_sub :: string
  dt_client :: string
  dt_scopes :: "string list"
  dt_expires :: int

definition find_device :: "string \<Rightarrow> paired_device list \<Rightarrow> paired_device option" where
  "find_device i ds = (case filter (\<lambda>d. dv_id d = i) ds of [] \<Rightarrow> None | d # rest \<Rightarrow> Some d)"

definition verify_device_token ::
  "crypto \<Rightarrow> pairing_options \<Rightarrow> string \<Rightarrow> string option \<Rightarrow> int \<Rightarrow> store \<Rightarrow> device_token option \<times> store" where
  "verify_device_token c opts token ip now st = (case verify_jwt c token of
     None \<Rightarrow> (None, st)
   | Some x \<Rightarrow>
       if cl_typ x \<noteq> Some ''device'' \<or> cl_iss x \<noteq> Some (po_issuer opts) then (None, st)
       else (case (cl_sub x, cl_client x, cl_exp x) of
         (Some sub, Some client, Some ex) \<Rightarrow>
           if ex * 1000 \<le> now then (None, st)
           else (case find_device sub (pr_devices st) of
             None \<Rightarrow> (None, st)
           | Some d \<Rightarrow>
               if dv_client d \<noteq> client then (None, st)
               else (Some \<lparr>dt_sub = sub, dt_client = client, dt_scopes = scopes_of (cl_scope x), dt_expires = ex\<rparr>,
                     if touch_throttle \<le> now - dv_seen d
                     then persist_devices opts (st\<lparr>pr_devices := touch sub ip now (pr_devices st)\<rparr>) else st))
       | _ \<Rightarrow> (None, st)))"

section \<open>Calls over time\<close>

datatype pairing_op =
    Create string code_kind string
  | Redeem string redeem_input
  | List_Devices "string option"
  | Revoke string string
  | Verify string "string option"

datatype pairing_answer =
    Created pairing_code
  | Redeemed "(pairing_code \<times> redeem_result option) option"
  | Listed "paired_device list"
  | Revoked bool
  | Verified "device_token option"

definition run_op :: "crypto \<Rightarrow> pairing_options \<Rightarrow> int \<Rightarrow> pairing_op \<Rightarrow> store \<Rightarrow> pairing_answer \<times> store" where
  "run_op c opts now p st = (case p of
     Create client kind code \<Rightarrow> map_prod Created id (create_code opts client kind now code st)
   | Redeem code input \<Rightarrow> map_prod Redeemed id (redeem c opts code input now st)
   | List_Devices client \<Rightarrow> (Listed (list_devices client st), st)
   | Revoke client i \<Rightarrow> map_prod Revoked id (revoke_device opts client i st)
   | Verify token ip \<Rightarrow> map_prod Verified id (verify_device_token c opts token ip now st))"

text \<open>\<open>ps_log\<close> lists the calls that have run, with their time and answer.\<close>

record pairing =
  ps_store :: store
  ps_waiting :: "pairing_op option"
  ps_log :: "(int \<times> pairing_op \<times> pairing_answer) list"

datatype pairing_event = Arrive int pairing_op | Loaded int "raw_device option list option"

definition perform :: "crypto \<Rightarrow> pairing_options \<Rightarrow> int \<Rightarrow> pairing_op \<Rightarrow> pairing \<Rightarrow> pairing" where
  "perform c opts now p s =
     (let (a, st) = run_op c opts now p (ps_store s) in s\<lparr>ps_store := st, ps_log := ps_log s @ [(now, p, a)]\<rparr>)"

definition pairing_step :: "crypto \<Rightarrow> pairing_options \<Rightarrow> pairing \<Rightarrow> pairing_event \<Rightarrow> pairing" where
  "pairing_step c opts s e = (case e of
     Arrive now p \<Rightarrow>
       if pr_loaded (ps_store s) then perform c opts now p s
       else
         let s1 = s\<lparr>ps_store := (ps_store s)\<lparr>pr_loaded := True\<rparr>\<rparr>
         in if po_stored opts then s1\<lparr>ps_waiting := Some p\<rparr> else perform c opts now p s1
   | Loaded now raw \<Rightarrow> (case ps_waiting s of
       None \<Rightarrow> s
     | Some p \<Rightarrow>
         let st = (case raw of
               None \<Rightarrow> ps_store s
             | Some es \<Rightarrow> (ps_store s)\<lparr>pr_devices := concat (map read_device es)\<rparr>)
         in perform c opts now p (s\<lparr>ps_store := st, ps_waiting := None\<rparr>)))"

definition new_pairing :: "paired_device list \<Rightarrow> pairing" where
  "new_pairing file = \<lparr>ps_store = new_store file, ps_waiting = None, ps_log = []\<rparr>"

definition pairing_run :: "crypto \<Rightarrow> pairing_options \<Rightarrow> paired_device list \<Rightarrow> pairing_event list \<Rightarrow> pairing" where
  "pairing_run c opts file es = foldl (pairing_step c opts) (new_pairing file) es"

end
