(* ===== verification/Pairing_Claims.thy ===== *)
theory Pairing_Claims
  imports Pairing
begin

text \<open>
  What pairing guarantees: a code is redeemed at most once, by the client and for the kind it was
  created with, and a token is accepted exactly as long as the registry of devices has its device.
  The last section shows what happens to calls that arrive while the registry is being loaded.
\<close>

section \<open>Codes\<close>

type_synonym log_entry = "int \<times> pairing_op \<times> pairing_answer"

definition created_of :: "log_entry \<Rightarrow> pairing_code option" where
  "created_of x = (case snd (snd x) of Created r \<Rightarrow> Some r | _ \<Rightarrow> None)"

definition redeemed_of :: "log_entry \<Rightarrow> pairing_code option" where
  "redeemed_of x = (case snd (snd x) of Redeemed (Some (r, res)) \<Rightarrow> Some r | _ \<Rightarrow> None)"

definition times :: "(log_entry \<Rightarrow> pairing_code option) \<Rightarrow> string \<Rightarrow> log_entry list \<Rightarrow> nat" where
  "times f k lg = length (filter (\<lambda>x. map_option pc_code (f x) = Some k) lg)"

definition created_codes :: "log_entry list \<Rightarrow> pairing_code set" where
  "created_codes lg = {r. \<exists>x \<in> set lg. created_of x = Some r}"

text \<open>A code was redeemed as asked for, before it expired, as it was created.\<close>

definition redeemed_well :: "log_entry list \<Rightarrow> log_entry \<Rightarrow> bool" where
  "redeemed_well lg x = (case x of
     (now, Redeem code input, Redeemed (Some (r, res))) \<Rightarrow>
       pc_code r = code \<and> now < pc_expires r \<and> r \<in> created_codes lg \<and> (res = None) = (pc_kind r = Machine_Code)
   | (now, p, Redeemed (Some rr)) \<Rightarrow> False
   | _ \<Rightarrow> True)"

definition codes_inv :: "pairing \<Rightarrow> bool" where
  "codes_inv s \<longleftrightarrow> map_wf (pr_codes (ps_store s)) \<and>
     (\<forall>(k, r) \<in> set (pr_codes (ps_store s)). pc_code r = k \<and> r \<in> created_codes (ps_log s)) \<and>
     (\<forall>k. times redeemed_of k (ps_log s) + (if k \<in> set (map_keys (pr_codes (ps_store s))) then 1 else 0)
        \<le> times created_of k (ps_log s)) \<and>
     list_all (redeemed_well (ps_log s)) (ps_log s)"

lemma created_mono: "r \<in> created_codes lg \<Longrightarrow> r \<in> created_codes (lg @ xs)"
  by (auto simp: created_codes_def)

lemma redeemed_well_mono: "redeemed_well lg x \<Longrightarrow> redeemed_well (lg @ xs) x"
  by (auto simp: redeemed_well_def created_mono split: prod.splits pairing_op.splits pairing_answer.splits option.splits)

lemma all_well_mono: "list_all (redeemed_well lg) ys \<Longrightarrow> list_all (redeemed_well (lg @ xs)) ys"
  by (auto simp: list_all_iff redeemed_well_mono)

lemma sweep_keys: "set (map_keys (pr_codes (sweep_codes now st))) \<subseteq> set (map_keys (pr_codes st))"
  by (auto simp: sweep_codes_def map_keys_def)

lemma sweep_wf: "map_wf (pr_codes st) \<Longrightarrow> map_wf (pr_codes (sweep_codes now st))"
  by (simp add: map_wf_def map_keys_def sweep_codes_def distinct_map_filter)

lemma sweep_in: "x \<in> set (pr_codes (sweep_codes now st)) \<Longrightarrow> x \<in> set (pr_codes st)"
  by (simp add: sweep_codes_def)

lemma codes_invI:
  assumes "map_wf m" "\<And>k r. (k, r) \<in> set m \<Longrightarrow> pc_code r = k \<and> r \<in> created_codes lg"
    "\<And>k. times redeemed_of k lg + (if k \<in> set (map_keys m) then 1 else 0) \<le> times created_of k lg"
    "list_all (redeemed_well lg) lg" "pr_codes (ps_store s) = m" "ps_log s = lg"
  shows "codes_inv s"
  using assms by (auto simp: codes_inv_def)

lemma times_snoc: "times f k (lg @ [x]) = times f k lg + (if map_option pc_code (f x) = Some k then 1 else 0)"
  by (simp add: times_def)

lemma quiet_op:
  assumes "codes_inv s" and "set (pr_codes st) \<subseteq> set (pr_codes (ps_store s))" and "map_wf (pr_codes st)"
    and "created_of x = None" and "redeemed_of x = None" and "redeemed_well [] x"
  shows "codes_inv (s\<lparr>ps_store := st, ps_log := ps_log s @ [x]\<rparr>)"
proof (rule codes_invI)
  let ?lg = "ps_log s @ [x]"
  show "map_wf (pr_codes st)" by (rule assms(3))
  have keys: "set (map_keys (pr_codes st)) \<subseteq> set (map_keys (pr_codes (ps_store s)))"
    using assms(2) by (auto simp: map_keys_def)
  show "pc_code r = k \<and> r \<in> created_codes ?lg" if "(k, r) \<in> set (pr_codes st)" for k r
    using that assms(1,2) created_mono by (fastforce simp: codes_inv_def)
  show "times redeemed_of k ?lg + (if k \<in> set (map_keys (pr_codes st)) then 1 else 0) \<le> times created_of k ?lg" for k
  proof -
    have "times redeemed_of k (ps_log s) + (if k \<in> set (map_keys (pr_codes (ps_store s))) then 1 else 0)
        \<le> times created_of k (ps_log s)" using assms(1) by (simp add: codes_inv_def)
    with keys show ?thesis using assms(4,5) by (auto simp: times_snoc split: if_splits)
  qed
  show "list_all (redeemed_well ?lg) ?lg"
    using assms(1) all_well_mono [of "ps_log s" "ps_log s" "[x]"] redeemed_well_mono [OF assms(6), of ?lg]
    by (simp add: codes_inv_def)
qed simp_all

lemma matching_code_Some:
  assumes "matching_code now code st = Some r" and "\<forall>(k, r) \<in> set (pr_codes st). pc_code r = k"
  shows "pc_code r = code \<and> now < pc_expires r \<and> (code, r) \<in> set (pr_codes st)"
proof -
  obtain rs where "rev (filter (\<lambda>r. now < pc_expires r \<and> pc_code r = code) (map_values (pr_codes st))) = r # rs"
    using assms(1) by (auto simp: matching_code_def split: list.splits)
  then have "r \<in> set (filter (\<lambda>r. now < pc_expires r \<and> pc_code r = code) (map_values (pr_codes st)))"
    by (metis list.set_intros(1) set_rev)
  then show ?thesis using assms(2) by fastforce
qed

lemma create_codes_inv:
  assumes "codes_inv s" and e: "create_code opts client kind now code (ps_store s) = (r, st)"
  shows "codes_inv (s\<lparr>ps_store := st, ps_log := ps_log s @ [(now, Create client kind code, Created r)]\<rparr>)"
proof -
  let ?x = "(now, Create client kind code, Created r)" and ?m = "pr_codes (sweep_codes now (ps_store s))"
  let ?lg = "ps_log s @ [?x]"
  have r: "pc_code r = code" and st: "pr_codes st = map_set code r ?m"
    using e by (auto simp: create_code_def Let_def)
  have new: "created_of ?x = Some r" "redeemed_of ?x = None" by (simp_all add: created_of_def redeemed_of_def)
  show ?thesis
  proof (rule codes_invI)
    show "map_wf (map_set code r ?m)" using assms(1) by (simp add: codes_inv_def sweep_wf)
    show "pc_code r' = k \<and> r' \<in> created_codes ?lg" if "(k, r') \<in> set (map_set code r ?m)" for k r'
    proof -
      have "(k, r') \<in> set ?m \<or> (k, r') = (code, r)"
        using in_map_set [OF that] by simp
      then show ?thesis using assms(1) created_mono [of r' "ps_log s" "[?x]"] r new(1)
        by (auto simp: codes_inv_def created_codes_def dest: sweep_in)
    qed
    show "times redeemed_of k ?lg + (if k \<in> set (map_keys (map_set code r ?m)) then 1 else 0) \<le> times created_of k ?lg" for k
    proof -
      have "times redeemed_of k (ps_log s) + (if k \<in> set (map_keys (pr_codes (ps_store s))) then 1 else 0)
          \<le> times created_of k (ps_log s)" using assms(1) by (simp add: codes_inv_def)
      with sweep_keys [of now "ps_store s"] show ?thesis by (auto simp: times_snoc new r map_keys_set split: if_splits)
    qed
    show "list_all (redeemed_well ?lg) ?lg"
      using assms(1) all_well_mono [of "ps_log s" "ps_log s" "[?x]"] by (simp add: codes_inv_def redeemed_well_def)
  qed (simp_all add: st)
qed

lemma persist_codes [simp]: "pr_codes (persist_devices opts st) = pr_codes st"
  by (simp add: persist_devices_def)

lemma redeem_codes_inv:
  assumes inv: "codes_inv s" and e: "redeem c opts code input now (ps_store s) = (res, st)"
  shows "codes_inv (s\<lparr>ps_store := st, ps_log := ps_log s @ [(now, Redeem code input, Redeemed res)]\<rparr>)"
proof -
  let ?x = "(now, Redeem code input, Redeemed res)" and ?st = "sweep_codes now (ps_store s)"
  let ?lg = "ps_log s @ [?x]" and ?m = "pr_codes ?st"
  have keyed: "\<forall>(k, r) \<in> set ?m. pc_code r = k" using inv by (auto simp: codes_inv_def dest!: sweep_in)
  show ?thesis
  proof (cases "matching_code now code ?st")
    case None
    with e have "res = None" "st = ?st" by (simp_all add: redeem_def)
    then show ?thesis
      using inv by (intro quiet_op) (auto simp: sweep_wf codes_inv_def created_of_def redeemed_of_def redeemed_well_def dest: sweep_in)
  next
    case (Some r)
    note r = matching_code_Some [OF Some keyed]
    have st: "pr_codes st = map_delete code ?m"
      using e r by (auto simp: redeem_def Some Let_def split: if_splits)
    obtain rr where res: "res = Some (r, rr)" "(rr = None) = (pc_kind r = Machine_Code)"
      using e by (auto simp: redeem_def Some Let_def split: if_splits)
    have new: "created_of ?x = None" "redeemed_of ?x = Some r"
      by (simp_all add: created_of_def redeemed_of_def res)
    have old: "(code, r) \<in> set (pr_codes (ps_store s))" using r sweep_in by blast
    have made: "r \<in> created_codes (ps_log s)" using inv old by (auto simp: codes_inv_def)
    show ?thesis
    proof (rule codes_invI)
      show wf: "map_wf (map_delete code ?m)" using inv by (simp add: codes_inv_def sweep_wf)
      show "pc_code r' = k \<and> r' \<in> created_codes ?lg" if "(k, r') \<in> set (map_delete code ?m)" for k r'
      proof -
        have "(k, r') \<in> set ?m" using that by (rule in_map_delete)
        then show ?thesis using inv created_mono [of r' "ps_log s" "[?x]"] by (auto simp: codes_inv_def dest: sweep_in)
      qed
      show "times redeemed_of k ?lg + (if k \<in> set (map_keys (map_delete code ?m)) then 1 else 0) \<le> times created_of k ?lg" for k
      proof -
        have "times redeemed_of k (ps_log s) + (if k \<in> set (map_keys (pr_codes (ps_store s))) then 1 else 0)
            \<le> times created_of k (ps_log s)" using inv by (simp add: codes_inv_def)
        moreover have "code \<in> set (map_keys (pr_codes (ps_store s)))" using old by (force simp: map_keys_def)
        moreover have "distinct (map_keys ?m)" using sweep_wf inv by (auto simp: codes_inv_def map_wf_def)
        ultimately show ?thesis
          using sweep_keys [of now "ps_store s"] r by (auto simp: times_snoc new map_keys_delete split: if_splits)
      qed
      show "list_all (redeemed_well ?lg) ?lg"
        using inv all_well_mono [of "ps_log s" "ps_log s" "[?x]"] r res made created_mono
        by (simp add: codes_inv_def redeemed_well_def)
    qed (simp_all add: st)
  qed
qed

lemma other_codes:
  "pr_codes (snd (revoke_device opts client i st)) = pr_codes st"
  "pr_codes (snd (verify_device_token c opts token ip now st)) = pr_codes st"
  by (auto simp: revoke_device_def verify_device_token_def Let_def split: option.split)

lemma perform_codes_inv: "codes_inv s \<Longrightarrow> codes_inv (perform c opts now p s)"
proof (cases p)
  case (Create client kind code)
  assume "codes_inv s"
  then show ?thesis
    using create_codes_inv by (cases "create_code opts client kind now code (ps_store s)") (simp add: perform_def run_op_def Create)
next
  case (Redeem code input)
  assume "codes_inv s"
  then show ?thesis
    using redeem_codes_inv by (cases "redeem c opts code input now (ps_store s)") (simp add: perform_def run_op_def Redeem)
next
  case (List_Devices client)
  assume "codes_inv s"
  then show ?thesis
    using quiet_op [of s "ps_store s" "(now, List_Devices client, Listed (list_devices client (ps_store s)))"]
    by (simp add: perform_def run_op_def List_Devices codes_inv_def created_of_def redeemed_of_def redeemed_well_def)
next
  case (Revoke client i)
  assume "codes_inv s"
  then show ?thesis unfolding perform_def run_op_def Revoke
    using other_codes(1) [of opts client i "ps_store s"]
    by (cases "revoke_device opts client i (ps_store s)", simp, intro quiet_op)
      (auto simp: codes_inv_def created_of_def redeemed_of_def redeemed_well_def)
next
  case (Verify token ip)
  assume "codes_inv s"
  then show ?thesis unfolding perform_def run_op_def Verify
    using other_codes(2) [of c opts token ip now "ps_store s"]
    by (cases "verify_device_token c opts token ip now (ps_store s)", simp, intro quiet_op)
      (auto simp: codes_inv_def created_of_def redeemed_of_def redeemed_well_def)
qed

lemma codes_inv_cong:
  "codes_inv s \<Longrightarrow> pr_codes (ps_store s') = pr_codes (ps_store s) \<Longrightarrow> ps_log s' = ps_log s \<Longrightarrow> codes_inv s'"
  by (simp add: codes_inv_def)

lemma step_codes_inv: "codes_inv s \<Longrightarrow> codes_inv (pairing_step c opts s e)"
  by (auto simp: pairing_step_def Let_def intro!: perform_codes_inv elim: codes_inv_cong
      split: pairing_event.split option.split)

interpretation pairing_codes: invariant_machine "pairing_step c opts" codes_inv for c opts
  by unfold_locales (rule step_codes_inv)

lemma run_codes_inv: "codes_inv (pairing_run c opts file es)"
  unfolding pairing_run_def
  by (rule pairing_codes.run_good) (simp add: codes_inv_def new_pairing_def new_store_def times_def)

text \<open>
  C17. A pairing code is good for one redemption: in any run, whatever calls overlap with the loading
  of the registry, a code is redeemed at most as often as it was created, and each redemption is of
  the code that was asked for, for the client and of the kind it was created with, before it expires;
  only a device code yields a token.
\<close>
theorem codes_redeem_once:
  "let lg = ps_log (pairing_run c opts file es)
   in (\<forall>k. times redeemed_of k lg \<le> times created_of k lg) \<and> list_all (redeemed_well lg) lg"
proof -
  have inv: "codes_inv (pairing_run c opts file es)" by (rule run_codes_inv)
  then have "\<forall>k. times redeemed_of k (ps_log (pairing_run c opts file es)) \<le> times created_of k (ps_log (pairing_run c opts file es))"
    unfolding codes_inv_def by (meson add_leE)
  with inv show ?thesis by (simp add: codes_inv_def Let_def)
qed

section \<open>Devices\<close>

definition pairs :: "paired_device list \<Rightarrow> (string \<times> string) list" where
  "pairs ds = map (\<lambda>d. (dv_id d, dv_client d)) ds"

text \<open>The abstract registry: a set of device and client, changed by redemptions and revocations.\<close>

definition registry_step :: "(string \<times> string) set \<Rightarrow> log_entry \<Rightarrow> (string \<times> string) set" where
  "registry_step S x = (case snd x of
     (p, Redeemed (Some (r, Some res))) \<Rightarrow> insert (rr_device res, pc_client r) S
   | (Revoke client i, a) \<Rightarrow> S - {(i, client)}
   | _ \<Rightarrow> S)"

fun device_ids :: "(int \<times> pairing_op) list \<Rightarrow> string list" where
  "device_ids [] = []"
| "device_ids ((t, Redeem code input) # cs) = ri_device input # device_ids cs"
| "device_ids (c # cs) = device_ids cs"

definition calls_run :: "crypto \<Rightarrow> pairing_options \<Rightarrow> pairing \<Rightarrow> (int \<times> pairing_op) list \<Rightarrow> pairing" where
  "calls_run c opts s calls = foldl (\<lambda>s (t, p). pairing_step c opts s (Arrive t p)) s calls"

lemma pairs_ids: "map fst (pairs ds) = map dv_id ds"
  by (simp add: pairs_def)

lemma pairs_touch [simp]: "pairs (touch i ip now ds) = pairs ds"
  by (induction ds) (simp_all add: pairs_def)

lemma persist_devices_same [simp]: "pr_devices (persist_devices opts st) = pr_devices st"
  "pr_loaded (persist_devices opts st) = pr_loaded st"
  by (simp_all add: persist_devices_def)

text \<open>One call changes the devices as the abstract registry says.\<close>

lemma op_pairs:
  assumes "run_op c opts now p st = (a, st')"
  shows "set (pairs (pr_devices st')) = registry_step (set (pairs (pr_devices st))) (now, p, a)"
    "pr_loaded st' = pr_loaded st"
    "pairs (pr_devices st') = pairs (pr_devices st) \<or>
       (\<exists>client i. p = Revoke client i \<and> pairs (pr_devices st') = filter (\<lambda>d. d \<noteq> (i, client)) (pairs (pr_devices st))) \<or>
       (\<exists>code input cl. p = Redeem code input \<and> pairs (pr_devices st') = pairs (pr_devices st) @ [(ri_device input, cl)])"
proof -
  have "set (pairs (pr_devices st')) = registry_step (set (pairs (pr_devices st))) (now, p, a) \<and>
    pr_loaded st' = pr_loaded st \<and> (pairs (pr_devices st') = pairs (pr_devices st) \<or>
       (\<exists>client i. p = Revoke client i \<and> pairs (pr_devices st') = filter (\<lambda>d. d \<noteq> (i, client)) (pairs (pr_devices st))) \<or>
       (\<exists>code input cl. p = Redeem code input \<and> pairs (pr_devices st') = pairs (pr_devices st) @ [(ri_device input, cl)]))"
  proof (cases p)
    case (Create client kind code)
    with assms show ?thesis
      by (auto simp: run_op_def create_code_def sweep_codes_def registry_step_def Let_def)
  next
    case (Redeem code input)
    with assms show ?thesis
      by (auto simp: run_op_def redeem_def sweep_codes_def registry_step_def Let_def pairs_def split: option.splits if_splits)
  next
    case (List_Devices client)
    with assms show ?thesis by (auto simp: run_op_def registry_step_def)
  next
    case (Revoke client i)
    have f: "pairs (filter (\<lambda>d. \<not> (dv_client d = client \<and> dv_id d = i)) ds) = filter (\<lambda>d. d \<noteq> (i, client)) (pairs ds)" for ds
      by (induction ds) (auto simp: pairs_def)
    have "pairs (pr_devices st') = filter (\<lambda>d. d \<noteq> (i, client)) (pairs (pr_devices st))"
      using assms f [of "pr_devices st"]
      by (auto simp: run_op_def Revoke revoke_device_def Let_def split: if_splits simp del: filter_False)
    moreover have "pr_loaded st' = pr_loaded st" "\<exists>b. a = Revoked b"
      using assms by (auto simp: run_op_def Revoke revoke_device_def Let_def split: if_splits)
    ultimately show ?thesis by (auto simp: Revoke registry_step_def)
  next
    case (Verify token ip)
    have "pairs (pr_devices (snd (verify_device_token c opts token ip now st))) = pairs (pr_devices st)"
      "pr_loaded (snd (verify_device_token c opts token ip now st)) = pr_loaded st"
      by (auto simp: verify_device_token_def split: option.split)
    with assms show ?thesis
      by (cases "verify_device_token c opts token ip now st") (auto simp: run_op_def Verify registry_step_def)
  qed
  then show "set (pairs (pr_devices st')) = registry_step (set (pairs (pr_devices st))) (now, p, a)"
    "pr_loaded st' = pr_loaded st"
    "pairs (pr_devices st') = pairs (pr_devices st) \<or>
       (\<exists>client i. p = Revoke client i \<and> pairs (pr_devices st') = filter (\<lambda>d. d \<noteq> (i, client)) (pairs (pr_devices st))) \<or>
       (\<exists>code input cl. p = Redeem code input \<and> pairs (pr_devices st') = pairs (pr_devices st) @ [(ri_device input, cl)])"
    by blast+
qed

lemma distinct_filtered: "distinct (map f xs @ ys) \<Longrightarrow> distinct (map f (filter P xs) @ ys)"
  by (auto simp: distinct_map_filter)

lemma calls_registry:
  assumes "pr_loaded (ps_store s)" and "distinct (map fst (pairs (pr_devices (ps_store s))) @ device_ids calls)"
  shows "\<exists>new. ps_log (calls_run c opts s calls) = ps_log s @ new \<and>
    set (pairs (pr_devices (ps_store (calls_run c opts s calls)))) =
      foldl registry_step (set (pairs (pr_devices (ps_store s)))) new \<and>
    distinct (map fst (pairs (pr_devices (ps_store (calls_run c opts s calls)))))"
  using assms
proof (induction calls arbitrary: s)
  case Nil
  then show ?case by (simp add: calls_run_def)
next
  case (Cons tp calls)
  obtain t p where tp: "tp = (t, p)" by (cases tp)
  obtain a st where e: "run_op c opts t p (ps_store s) = (a, st)" by (cases "run_op c opts t p (ps_store s)")
  let ?s = "s\<lparr>ps_store := st, ps_log := ps_log s @ [(t, p, a)]\<rparr>"
  note op = op_pairs [OF e]
  have step: "pairing_step c opts s (Arrive t p) = ?s"
    using Cons.prems(1) by (simp add: pairing_step_def perform_def e)
  have run: "calls_run c opts s (tp # calls) = calls_run c opts ?s calls" by (simp add: calls_run_def tp step)
  have "distinct (map fst (pairs (pr_devices st)) @ device_ids calls)"
    using op(3)
  proof (elim disjE exE conjE)
    assume "pairs (pr_devices st) = pairs (pr_devices (ps_store s))"
    then show ?thesis using Cons.prems(2) by (cases p) (auto simp: tp)
  next
    fix client i assume "p = Revoke client i"
      "pairs (pr_devices st) = filter (\<lambda>d. d \<noteq> (i, client)) (pairs (pr_devices (ps_store s)))"
    then show ?thesis
      using distinct_filtered [where P = "\<lambda>d. d \<noteq> (i, client)", OF Cons.prems(2) [unfolded tp \<open>p = Revoke client i\<close> device_ids.simps]]
      by metis
  next
    fix code input cl assume "p = Redeem code input"
      "pairs (pr_devices st) = pairs (pr_devices (ps_store s)) @ [(ri_device input, cl)]"
    then show ?thesis using Cons.prems(2) by (simp add: tp)
  qed
  then have "\<exists>new. ps_log (calls_run c opts ?s calls) = ps_log ?s @ new \<and>
    set (pairs (pr_devices (ps_store (calls_run c opts ?s calls)))) =
      foldl registry_step (set (pairs (pr_devices (ps_store ?s)))) new \<and>
    distinct (map fst (pairs (pr_devices (ps_store (calls_run c opts ?s calls)))))"
    using Cons.prems(1) op(2) by (intro Cons.IH) simp_all
  then obtain new where new: "ps_log (calls_run c opts ?s calls) = ps_log ?s @ new"
    "set (pairs (pr_devices (ps_store (calls_run c opts ?s calls)))) =
      foldl registry_step (set (pairs (pr_devices (ps_store ?s)))) new"
    "distinct (map fst (pairs (pr_devices (ps_store (calls_run c opts ?s calls)))))" by blast
  show ?case
    unfolding run by (rule exI [of _ "(t, p, a) # new"]) (use new op(1) in simp)
qed

lemma find_device_iff:
  "distinct (map dv_id ds) \<Longrightarrow> (\<exists>d. find_device i ds = Some d \<and> dv_client d = cl) \<longleftrightarrow> (i, cl) \<in> set (pairs ds)"
proof (induction ds)
  case Nil
  show ?case by (simp add: find_device_def pairs_def)
next
  case (Cons d ds)
  have skip: "find_device i (d # ds) = (if dv_id d = i then Some d else find_device i ds)"
    by (simp add: find_device_def)
  show ?case
  proof (cases "dv_id d = i")
    case True
    then have "(i, cl) \<notin> set (pairs ds)" using Cons.prems by (auto simp: pairs_def)
    then show ?thesis using True skip by (auto simp: pairs_def)
  next
    case False
    then show ?thesis using Cons skip by (auto simp: pairs_def)
  qed
qed

text \<open>
  C18. A device token is worth what the registry says: once the registry is loaded, after any calls a
  correctly signed token is accepted exactly when it is a device token of this gateway that has not
  expired, for a device and client that are in the abstract registry, that is, were there at first
  or have been paired since, and have not been revoked since.
\<close>
theorem tokens_follow_registry:
  assumes "crypto_ok c" and "pr_loaded (ps_store s)"
    and "distinct (map dv_id (pr_devices (ps_store s)) @ device_ids calls)"
  shows "let s' = calls_run c opts s calls;
      registry = foldl registry_step (set (pairs (pr_devices (ps_store s)))) (drop (length (ps_log s)) (ps_log s'))
    in (fst (verify_device_token c opts (sign_jwt c x) ip now (ps_store s')) \<noteq> None) =
      (cl_typ x = Some ''device'' \<and> cl_iss x = Some (po_issuer opts) \<and>
       (\<exists>sub client ex. cl_sub x = Some sub \<and> cl_client x = Some client \<and> cl_exp x = Some ex \<and>
          now < ex * 1000 \<and> (sub, client) \<in> registry))"
proof -
  let ?s = "calls_run c opts s calls"
  obtain new where new: "ps_log ?s = ps_log s @ new"
    "set (pairs (pr_devices (ps_store ?s))) = foldl registry_step (set (pairs (pr_devices (ps_store s)))) new"
    "distinct (map dv_id (pr_devices (ps_store ?s)))"
    using calls_registry [of s calls c opts] assms(2,3) by (auto simp: pairs_ids)
  have "(fst (verify_device_token c opts (sign_jwt c x) ip now (ps_store ?s)) \<noteq> None) =
      (cl_typ x = Some ''device'' \<and> cl_iss x = Some (po_issuer opts) \<and>
       (\<exists>sub client ex. cl_sub x = Some sub \<and> cl_client x = Some client \<and> cl_exp x = Some ex \<and>
          now < ex * 1000 \<and> (\<exists>d. find_device sub (pr_devices (ps_store ?s)) = Some d \<and> dv_client d = client)))"
    by (auto simp: verify_device_token_def jwt_round [OF assms(1)] split: option.splits)
  then show ?thesis by (simp add: Let_def find_device_iff [OF new(3)] new(1,2))
qed

section \<open>Calls during the loading\<close>

text \<open>
  The registry is marked as loaded before it is: while the first call still waits for the file,
  every device token is refused, and a device paired in that time is written over the file, alone,
  and then dropped from memory when the loading ends.
\<close>
theorem loading_loses_devices:
  assumes "po_stored opts" and "t2 < t1 + po_code_ttl opts" and "ri_device input \<notin> set (map dv_id (concat (map read_device raw)))"
  shows "let s = pairing_run c opts file [Arrive t0 (List_Devices None), Arrive t1 (Create client Device_Code code),
        Arrive t2 (Verify token ip), Arrive t2 (Redeem code input)];
      s' = pairing_step c opts s (Loaded t3 (Some raw))
    in map (\<lambda>x. snd (snd x)) (drop 1 (take 2 (ps_log s))) = [Verified None] \<and>
       map dv_id (pr_file (ps_store s)) = [ri_device input] \<and>
       ri_device input \<notin> set (map dv_id (pr_devices (ps_store s')))"
proof -
  let ?r = "\<lparr>pc_code = code, pc_client = client, pc_kind = Device_Code, pc_created = t1, pc_expires = t1 + po_code_ttl opts\<rparr>"
  have v: "verify_device_token c opts token ip t2 st = (None, st)" if "pr_devices st = []" for st
    using that by (auto simp: verify_device_token_def find_device_def split: option.split)
  have m: "matching_code t2 code st = Some ?r" if "pr_codes st = [(code, ?r)]" for st
    using that assms(2) by (simp add: matching_code_def)
  show ?thesis
    using assms v
    by (simp add: pairing_run_def pairing_step_def perform_def run_op_def new_pairing_def new_store_def create_code_def
        sweep_codes_def redeem_def m persist_devices_def list_devices_def truthy_def Let_def)
qed


section \<open>Witnesses\<close>

text \<open>A codec without a full stop, and an encoding of claims as its fields separated by full stops.\<close>

definition demo_b64 :: "string \<Rightarrow> string" where
  "demo_b64 s = concat (map (\<lambda>ch. if ch = CHR ''.'' then ''!p'' else if ch = CHR ''!'' then ''!!'' else [ch]) s)"

fun demo_unb64 :: "string \<Rightarrow> string" where
  "demo_unb64 [] = []"
| "demo_unb64 [ch] = [ch]"
| "demo_unb64 (x # y # s) = (if x = CHR ''!'' then (if y = CHR ''p'' then CHR ''.'' else CHR ''!'') # demo_unb64 s else x # demo_unb64 (y # s))"

lemma demo_unb64_plain: "x \<noteq> CHR ''!'' \<Longrightarrow> demo_unb64 (x # s) = x # demo_unb64 s"
  by (cases s) simp_all

lemma demo_unb64_round: "demo_unb64 (demo_b64 s) = s"
  by (induction s) (simp_all add: demo_b64_def demo_unb64_plain)

lemma demo_b64_dot: "CHR ''.'' \<notin> set (demo_b64 s)"
  by (induction s) (simp_all add: demo_b64_def)

definition demo_field :: "string option \<Rightarrow> string" where
  "demo_field x = (case x of None \<Rightarrow> [] | Some s \<Rightarrow> CHR ''s'' # demo_b64 s)"

definition demo_unfield :: "string \<Rightarrow> string option" where
  "demo_unfield s = (case s of [] \<Rightarrow> None | x # r \<Rightarrow> Some (demo_unb64 r))"

definition demo_int :: "int option \<Rightarrow> string" where
  "demo_int x = (case x of None \<Rightarrow> [] | Some i \<Rightarrow> (if i < 0 then CHR ''-'' else CHR ''+'') # replicate (nat \<bar>i\<bar>) CHR ''1'')"

definition demo_unint :: "string \<Rightarrow> int option" where
  "demo_unint s = (case s of [] \<Rightarrow> None | x # r \<Rightarrow> Some (if x = CHR ''-'' then - int (length r) else int (length r)))"

definition demo_json :: "claims \<Rightarrow> string" where
  "demo_json x = demo_field (cl_iss x) @ ''.'' @ demo_field (cl_sub x) @ ''.'' @ demo_field (cl_client x) @ ''.'' @
     demo_field (cl_scope x) @ ''.'' @ demo_field (cl_typ x) @ ''.'' @ demo_int (cl_iat x) @ ''.'' @
     demo_int (cl_exp x) @ ''.'' @ demo_field (cl_jti x)"

definition demo_parse :: "string \<Rightarrow> claims option" where
  "demo_parse s = (case split_on CHR ''.'' s of
     [a, b, c, d, e, f, g, h] \<Rightarrow> Some \<lparr>cl_iss = demo_unfield a, cl_sub = demo_unfield b, cl_client = demo_unfield c,
       cl_scope = demo_unfield d, cl_typ = demo_unfield e, cl_iat = demo_unint f, cl_exp = demo_unint g, cl_jti = demo_unfield h\<rparr>
   | _ \<Rightarrow> None)"

definition demo_crypto :: crypto where
  "demo_crypto = \<lparr>cr_b64 = demo_b64, cr_unb64 = demo_unb64, cr_hmac = rev, cr_sha = rev, cr_json = demo_json, cr_parse = demo_parse\<rparr>"

lemma demo_fields:
  "demo_unfield (demo_field x) = x" "CHR ''.'' \<notin> set (demo_field x)"
  "demo_unint (demo_int i) = i" "CHR ''.'' \<notin> set (demo_int i)"
  by (auto simp: demo_unfield_def demo_field_def demo_unint_def demo_int_def demo_unb64_round demo_b64_dot split: option.split)

lemma demo_crypto_ok: "crypto_ok demo_crypto"
  by (simp add: crypto_ok_def demo_crypto_def demo_unb64_round demo_b64_dot demo_parse_def demo_json_def
      split_on_append_sep split_on_no_occurrence demo_fields)

definition demo_options :: pairing_options where
  "demo_options = \<lparr>po_issuer = ''gw'', po_stored = True, po_code_ttl = 600000, po_device_ttl = 7776000\<rparr>"

definition demo_device :: paired_device where
  "demo_device = \<lparr>dv_id = ''d1'', dv_name = [80], dv_client = ''c1'', dv_paired = 0, dv_seen = 0, dv_ip = None, dv_agent = None\<rparr>"

definition demo_pairing :: pairing where
  "demo_pairing = \<lparr>ps_store = \<lparr>pr_codes = [], pr_devices = [demo_device], pr_loaded = True, pr_file = []\<rparr>,
     ps_waiting = None, ps_log = []\<rparr>"

definition demo_token :: claims where
  "demo_token = \<lparr>cl_iss = Some ''gw'', cl_sub = Some ''d1'', cl_client = Some ''c1'', cl_scope = Some ''chat'',
     cl_typ = Some ''device'', cl_iat = Some 0, cl_exp = Some 1000, cl_jti = Some ''j''\<rparr>"

text \<open>The device of the registry is accepted, and refused once it has been revoked.\<close>

lemma tokens_follow_registry_witness:
  "fst (verify_device_token demo_crypto demo_options (sign_jwt demo_crypto demo_token) None 5
      (ps_store (calls_run demo_crypto demo_options demo_pairing []))) \<noteq> None \<and>
   fst (verify_device_token demo_crypto demo_options (sign_jwt demo_crypto demo_token) None 5
      (ps_store (calls_run demo_crypto demo_options demo_pairing [(1, Revoke ''c1'' ''d1'')]))) = None"
proof -
  note f = demo_pairing_def demo_device_def demo_token_def demo_options_def
  have l: "pr_loaded (ps_store demo_pairing)" by (simp add: f)
  have d: "distinct (map dv_id (pr_devices (ps_store demo_pairing)) @ device_ids [])"
    "distinct (map dv_id (pr_devices (ps_store demo_pairing)) @ device_ids [(1, Revoke ''c1'' ''d1'')])"
    by (simp_all add: f)
  have r: "drop (length (ps_log demo_pairing)) (ps_log (calls_run demo_crypto demo_options demo_pairing [])) = []"
    "drop (length (ps_log demo_pairing)) (ps_log (calls_run demo_crypto demo_options demo_pairing [(1, Revoke ''c1'' ''d1'')]))
      = [(1, Revoke ''c1'' ''d1'', Revoked True)]"
    by (simp_all add: f calls_run_def pairing_step_def perform_def run_op_def revoke_device_def persist_devices_def)
  have p: "set (pairs (pr_devices (ps_store demo_pairing))) = {(''d1'', ''c1'')}" by (simp add: f pairs_def)
  show ?thesis
    using tokens_follow_registry [OF demo_crypto_ok l d(1), where x = demo_token and ip = None and now = 5 and opts = demo_options]
      tokens_follow_registry [OF demo_crypto_ok l d(2), where x = demo_token and ip = None and now = 5 and opts = demo_options]
    unfolding Let_def r p by (simp add: registry_step_def demo_token_def demo_options_def)
qed

definition demo_input :: redeem_input where
  "demo_input = \<lparr>ri_name = None, ri_ip = None, ri_agent = None, ri_device = ''d2'', ri_jti = ''j''\<rparr>"

lemma loading_loses_devices_witness:
  "ri_device demo_input \<notin> set (map dv_id (pr_devices (ps_store (pairing_step demo_crypto demo_options
     (pairing_run demo_crypto demo_options [] [Arrive 0 (List_Devices None), Arrive 1 (Create ''c1'' Device_Code ''AB''),
        Arrive 2 (Verify ''t'' None), Arrive 2 (Redeem ''AB'' demo_input)]) (Loaded 3 (Some []))))))"
  using loading_loses_devices [of demo_options 2 1 demo_input "[]" demo_crypto "[]" 0 "''c1''" "''AB''" "''t''" None 3]
  by (simp add: demo_options_def Let_def)

end
