(* ===== verification/Utf8.thy ===== *)
theory Utf8
  imports Prelude "HOL-Library.List_Lexorder"
begin

text \<open>
  Texts and their UTF-8 bytes: a text is its sequence of UTF-16 code units, as in the language, and
  bytes are numbers below 256. Holds the strict validation of
  \<open>packages/capability-contract/src/canonical.ts\<close>, the runtime's decoder (for valid bytes) and
  encoder, and that both are inverse on well-formed texts.
\<close>

section \<open>Code points of a text\<close>

definition is_high :: "nat \<Rightarrow> bool" where
  "is_high u \<longleftrightarrow> 0xD800 \<le> u \<and> u \<le> 0xDBFF"

definition is_low :: "nat \<Rightarrow> bool" where
  "is_low u \<longleftrightarrow> 0xDC00 \<le> u \<and> u \<le> 0xDFFF"

definition pair_point :: "nat \<Rightarrow> nat \<Rightarrow> nat" where
  "pair_point h l = 0x10000 + (h - 0xD800) * 1024 + (l - 0xDC00)"

text \<open>\<open>String.fromCodePoint\<close> and the iteration of a string; a lone surrogate is a code point of its own.\<close>

definition units_of :: "nat \<Rightarrow> ustr" where
  "units_of cp = (if cp < 0x10000 then [cp]
     else [0xD800 + (cp - 0x10000) div 1024, 0xDC00 + (cp - 0x10000) mod 1024])"

fun code_points :: "ustr \<Rightarrow> nat list" where
  "code_points (h # l # us) = (if is_high h \<and> is_low l then pair_point h l # code_points us else h # code_points (l # us))"
| "code_points us = us"

definition is_scalar :: "nat \<Rightarrow> bool" where
  "is_scalar cp \<longleftrightarrow> cp < 0xD800 \<or> 0xDFFF < cp \<and> cp < 0x110000"

definition text_of_points :: "nat list \<Rightarrow> ustr" where
  "text_of_points cps = concat (map units_of cps)"

definition well_formed :: "ustr \<Rightarrow> bool" where
  "well_formed t \<longleftrightarrow> list_all is_scalar (code_points t) \<and> list_all (\<lambda>u. u < 0x10000) t"

section \<open>Bytes\<close>

definition utf8_point :: "nat \<Rightarrow> nat list" where
  "utf8_point cp =
     (if cp < 0x80 then [cp]
      else if cp < 0x800 then [0xC0 + cp div 64, 0x80 + cp mod 64]
      else if cp < 0x10000 then [0xE0 + cp div 4096, 0x80 + cp div 64 mod 64, 0x80 + cp mod 64]
      else [0xF0 + cp div 262144, 0x80 + cp div 4096 mod 64, 0x80 + cp div 64 mod 64, 0x80 + cp mod 64])"

text \<open>A lone surrogate is encoded as the replacement character.\<close>

definition utf8 :: "ustr \<Rightarrow> nat list" where
  "utf8 t = concat (map (\<lambda>cp. utf8_point (if is_scalar cp then cp else 0xFFFD)) (code_points t))"

text \<open>
  The decoder: a sequence that breaks off is one replacement character for its bytes up to there, any
  other stray byte is one of its own.
\<close>

definition sequence_class :: "nat \<Rightarrow> (nat \<times> nat \<times> nat \<times> nat) option" where
  "sequence_class a =
     (if 0xC2 \<le> a \<and> a \<le> 0xDF then Some (1, 0x80, 0xBF, a - 0xC0)
      else if 0xE0 \<le> a \<and> a \<le> 0xEF
      then Some (2, if a = 0xE0 then 0xA0 else 0x80, if a = 0xED then 0x9F else 0xBF, a - 0xE0)
      else if 0xF0 \<le> a \<and> a \<le> 0xF4
      then Some (3, if a = 0xF0 then 0x90 else 0x80, if a = 0xF4 then 0x8F else 0xBF, a - 0xF0)
      else None)"

fun follow_count :: "nat \<Rightarrow> nat \<Rightarrow> nat \<Rightarrow> nat list \<Rightarrow> nat" where
  "follow_count (Suc n) lo hi (b # bs) = (if lo \<le> b \<and> b \<le> hi then Suc (follow_count n 0x80 0xBF bs) else 0)"
| "follow_count n lo hi bs = 0"

definition sequence_point :: "nat \<Rightarrow> nat list \<Rightarrow> nat" where
  "sequence_point lead bs = foldl (\<lambda>x b. x * 64 + (b - 0x80)) lead bs"

function decode_points :: "nat list \<Rightarrow> nat list" where
  "decode_points [] = []"
| "decode_points (a # bs) =
     (if a < 0x80 then a # decode_points bs
      else case sequence_class a of
        None \<Rightarrow> 0xFFFD # decode_points bs
      | Some (n, lo, hi, lead) \<Rightarrow>
          let k = follow_count n lo hi bs
          in (if k = n then sequence_point lead (take n bs) else 0xFFFD) # decode_points (drop k bs))"
  by pat_completeness auto
termination by (relation "measure length") auto

definition decode_utf8 :: "nat list \<Rightarrow> ustr" where
  "decode_utf8 bs = text_of_points (decode_points bs)"

section \<open>Strict validation\<close>

datatype contract_error = Contract_Error (ce_code: string) (ce_offset: "nat option") (ce_path: "string option")

definition utf8_fail :: "nat \<Rightarrow> contract_error option" where
  "utf8_fail i = Some (Contract_Error ''contract.utf8-invalid'' (Some i) None)"

text \<open>The length of the sequence a lead byte starts and the least second byte.\<close>

definition lead_class :: "nat \<Rightarrow> (nat \<times> nat) option" where
  "lead_class lead =
     (if 0xC2 \<le> lead \<and> lead \<le> 0xDF then Some (2, 0x80)
      else if 0xE0 \<le> lead \<and> lead \<le> 0xEF then Some (3, if lead = 0xE0 then 0xA0 else 0x80)
      else if 0xF0 \<le> lead \<and> lead \<le> 0xF4 then Some (4, if lead = 0xF0 then 0x90 else 0x80)
      else None)"

definition surrogate_half :: "nat list \<Rightarrow> bool" where
  "surrogate_half bs = (case bs of a # b # cs \<Rightarrow> a = 0xED \<and> 0xA0 \<le> b \<and> b \<le> 0xBF | _ \<Rightarrow> False)"

definition continuations_ok :: "nat \<Rightarrow> nat \<Rightarrow> nat list \<Rightarrow> bool" where
  "continuations_ok n least bs \<longleftrightarrow> list_all
     (\<lambda>k. k < length bs \<and> (if k = 1 then least else 0x80) \<le> bs ! k \<and> bs ! k \<le> 0xBF) [1..<n]"

function validate_from :: "nat \<Rightarrow> nat list \<Rightarrow> contract_error option" where
  "validate_from i [] = None"
| "validate_from i (a # bs) =
     (if a < 0x80 then validate_from (Suc i) bs
      else case lead_class a of
        None \<Rightarrow> utf8_fail i
      | Some (n, least) \<Rightarrow>
          if surrogate_half (a # bs) then utf8_fail i
          else if \<not> continuations_ok n least (a # bs) then utf8_fail i
          else validate_from (i + n) (drop (n - 1) bs))"
  by pat_completeness auto
termination by (relation "measure (\<lambda>(i, bs). length bs)") auto

definition validate_utf8 :: "nat list \<Rightarrow> contract_error option" where
  "validate_utf8 bs =
     (if take 3 bs = [0xEF, 0xBB, 0xBF] then Some (Contract_Error ''contract.bom-forbidden'' (Some 0) None)
      else validate_from 0 bs)"


section \<open>Well-formed texts\<close>

text \<open>A text is well formed iff it is made of scalar values.\<close>

definition wf_text :: "ustr \<Rightarrow> bool" where
  "wf_text t \<longleftrightarrow> (\<exists>cps. list_all is_scalar cps \<and> t = text_of_points cps)"

lemma text_of_points_simps [simp]:
  "text_of_points [] = []" "text_of_points (cp # cps) = units_of cp @ text_of_points cps"
  "text_of_points (xs @ ys) = text_of_points xs @ text_of_points ys"
  by (simp_all add: text_of_points_def)

lemma units_of_small: "cp < 0x10000 \<Longrightarrow> units_of cp = [cp]"
  by (simp add: units_of_def)

lemma units_of_big:
  assumes "0x10000 \<le> cp" and "cp < 0x110000"
  obtains h l where "units_of cp = [h, l]" "is_high h" "is_low l" "pair_point h l = cp"
proof
  let ?h = "0xD800 + (cp - 0x10000) div 1024" and ?l = "0xDC00 + (cp - 0x10000) mod 1024"
  have "(cp - 0x10000) div 1024 < 1024" using assms by (simp add: less_mult_imp_div_less)
  moreover have "(cp - 0x10000) mod 1024 < 1024" by simp
  ultimately show "is_high ?h" "is_low ?l" by (auto simp: is_high_def is_low_def)
  show "units_of cp = [?h, ?l]" using assms by (simp add: units_of_def)
  have "(cp - 0x10000) div 1024 * 1024 + (cp - 0x10000) mod 1024 = cp - 0x10000" by (rule div_mult_mod_eq)
  then show "pair_point ?h ?l = cp" using assms by (simp add: pair_point_def)
qed

lemma code_points_plain: "\<not> is_high u \<Longrightarrow> code_points (u # us) = u # code_points us"
  by (cases us) auto

lemma code_points_units: "is_scalar cp \<Longrightarrow> code_points (units_of cp @ us) = cp # code_points us"
proof (cases "cp < 0x10000")
  case True
  assume "is_scalar cp"
  with True have "\<not> is_high cp" by (auto simp: is_scalar_def is_high_def)
  then show ?thesis by (simp add: units_of_small [OF True] code_points_plain)
next
  case False
  assume "is_scalar cp"
  with False have "0x10000 \<le> cp" "cp < 0x110000" by (auto simp: is_scalar_def)
  then obtain h l where "units_of cp = [h, l]" "is_high h" "is_low l" "pair_point h l = cp" by (rule units_of_big)
  then show ?thesis by simp
qed

lemma code_points_text: "list_all is_scalar cps \<Longrightarrow> code_points (text_of_points cps) = cps"
  by (induction cps) (simp_all add: code_points_units)

lemma units_bounded: "is_scalar cp \<Longrightarrow> list_all (\<lambda>u. u < 0x10000) (units_of cp)"
proof (cases "cp < 0x10000")
  case False
  assume "is_scalar cp"
  with False have "0x10000 \<le> cp" "cp < 0x110000" by (auto simp: is_scalar_def)
  then obtain h l where "units_of cp = [h, l]" "is_high h" "is_low l" "pair_point h l = cp" by (rule units_of_big)
  then show ?thesis by (auto simp: is_high_def is_low_def)
qed (simp add: units_of_small)

lemma units_pair:
  assumes "is_high h" and "is_low l"
  shows "units_of (pair_point h l) = [h, l]" "is_scalar (pair_point h l)"
proof -
  define x where "x = h - 0xD800"
  define y where "y = l - 0xDC00"
  have x: "x < 1024" "h = 0xD800 + x" and y: "y < 1024" "l = 0xDC00 + y"
    using assms by (auto simp: x_def y_def is_high_def is_low_def)
  have p: "pair_point (0xD800 + x) (0xDC00 + y) = 0x10000 + (x * 1024 + y)" by (simp add: pair_point_def)
  have "(x * 1024 + y) div 1024 = x" "(x * 1024 + y) mod 1024 = y" using y(1) by simp_all
  then show "units_of (pair_point h l) = [h, l]" unfolding x(2) y(2) p by (simp add: units_of_def)
  have "x * 1024 \<le> 1023 * 1024" using x(1) by (intro mult_le_mono) simp_all
  then show "is_scalar (pair_point h l)" using y(1) unfolding x(2) y(2) p by (simp add: is_scalar_def)
qed

lemma text_code_points: "list_all (\<lambda>u. u < 0x10000) t \<Longrightarrow> text_of_points (code_points t) = t"
  by (induction t rule: code_points.induct) (auto simp: units_of_small units_pair)

lemma well_formed_iff: "well_formed t \<longleftrightarrow> wf_text t"
proof
  assume "well_formed t"
  then show "wf_text t" unfolding wf_text_def well_formed_def by (metis text_code_points)
next
  assume "wf_text t"
  then obtain cps where cps: "list_all is_scalar cps" "t = text_of_points cps" by (auto simp: wf_text_def)
  have "list_all (\<lambda>u. u < 0x10000) (text_of_points cps)"
    using cps(1) by (induction cps) (simp_all add: units_bounded)
  with cps show "well_formed t" by (simp add: well_formed_def code_points_text)
qed

lemma wf_text_Nil [simp]: "wf_text []"
  unfolding wf_text_def by (rule exI [of _ "[]"]) simp

lemma wf_text_append: "wf_text s \<Longrightarrow> wf_text t \<Longrightarrow> wf_text (s @ t)"
  unfolding wf_text_def by (metis list_all_append text_of_points_simps(3))

lemma wf_text_units: "is_scalar cp \<Longrightarrow> wf_text (units_of cp)"
  unfolding wf_text_def by (rule exI [of _ "[cp]"]) simp

lemma wf_text_cases:
  assumes "wf_text (u # t)"
  obtains (plain) "is_scalar u" "\<not> is_high u" "\<not> is_low u" "u < 0x10000" "wf_text t"
    | (pair) l r where "is_high u" "t = l # r" "is_low l" "wf_text r"
proof -
  from assms obtain cps where cps: "list_all is_scalar cps" "u # t = text_of_points cps" by (auto simp: wf_text_def)
  then obtain cp ds where ds: "cps = cp # ds" by (cases cps) auto
  have wf: "wf_text (text_of_points ds)" using cps(1) ds by (auto simp: wf_text_def)
  show thesis
  proof (cases "cp < 0x10000")
    case True
    then show thesis
      using cps ds wf by (intro plain) (auto simp: units_of_small is_scalar_def is_high_def is_low_def)
  next
    case False
    then have "0x10000 \<le> cp" "cp < 0x110000" using cps ds by (auto simp: is_scalar_def)
    then obtain h l where "units_of cp = [h, l]" "is_high h" "is_low l" "pair_point h l = cp" by (rule units_of_big)
    then show thesis using cps(2) ds wf by (intro pair) auto
  qed
qed

lemma wf_text_tl: "wf_text (u # t) \<Longrightarrow> \<not> is_high u \<Longrightarrow> wf_text t"
  by (erule wf_text_cases) auto

lemma wf_text_Cons: "u < 0xD800 \<Longrightarrow> wf_text (u # t) = wf_text t"
proof
  assume u: "u < 0xD800"
  { assume "wf_text (u # t)" then show "wf_text t" using u by (auto intro: wf_text_tl simp: is_high_def) }
  assume "wf_text t"
  then have "wf_text (units_of u @ t)" using u by (intro wf_text_append wf_text_units) (simp add: is_scalar_def)
  then show "wf_text (u # t)" using u by (simp add: units_of_small)
qed

section \<open>Encoding and decoding\<close>

lemma utf8_text: "list_all is_scalar cps \<Longrightarrow> utf8 (text_of_points cps) = concat (map utf8_point cps)"
proof -
  assume s: "list_all is_scalar cps"
  have m: "map (\<lambda>cp. utf8_point (if is_scalar cp then cp else 0xFFFD)) cps = map utf8_point cps"
    using s by (intro map_cong) (auto simp: list_all_iff)
  show ?thesis unfolding utf8_def code_points_text [OF s] m ..
qed

lemma split64: "n = n div 64 * 64 + n mod (64 :: nat)" "n mod 64 < (64 :: nat)"
  by simp_all

text \<open>The digits of a code point in base 64.\<close>

lemma utf8_point_cases:
  assumes "cp < 0x110000"
  obtains (one) "cp < 0x80" "utf8_point cp = [cp]"
    | (two) q r where "2 \<le> q" "q < 32" "r < 64" "cp = q * 64 + r" "utf8_point cp = [0xC0 + q, 0x80 + r]"
    | (three) p q r where "p < 16" "q < 64" "r < 64" "p = 0 \<longrightarrow> 32 \<le> q" "cp = p * 4096 + q * 64 + r" "0x800 \<le> cp"
        "utf8_point cp = [0xE0 + p, 0x80 + q, 0x80 + r]"
    | (four) n p q r where "n < 5" "p < 64" "q < 64" "r < 64" "n = 0 \<longrightarrow> 16 \<le> p" "n = 4 \<longrightarrow> p < 16"
        "cp = n * 262144 + p * 4096 + q * 64 + r" "utf8_point cp = [0xF0 + n, 0x80 + p, 0x80 + q, 0x80 + r]"
proof -
  define r where "r = cp mod 64"
  define a where "a = cp div 64"
  define q where "q = a mod 64"
  define b where "b = a div 64"
  define p where "p = b mod 64"
  define n where "n = b div 64"
  have e: "cp = a * 64 + r" "r < 64" "a = b * 64 + q" "q < 64" "b = n * 64 + p" "p < 64"
    using split64 [of cp] split64 [of a] split64 [of b] by (simp_all add: r_def a_def q_def b_def p_def n_def)
  have d: "cp div 4096 = b" "cp div 262144 = n"
    by (simp_all add: a_def b_def n_def div_mult2_eq [symmetric])
  consider "cp < 0x80" | "0x80 \<le> cp" "cp < 0x800" | "0x800 \<le> cp" "cp < 0x10000" | "0x10000 \<le> cp" by linarith
  then show thesis
  proof cases
    case 1
    then show thesis by (intro one) (simp_all add: utf8_point_def)
  next
    case 2
    have u: "utf8_point cp = [0xC0 + a, 0x80 + r]" using 2 by (simp add: utf8_point_def a_def r_def)
    show thesis by (rule two [OF _ _ e(2) e(1) u]) (use 2 e(1,2) in linarith)+
  next
    case 3
    have u: "utf8_point cp = [0xE0 + b, 0x80 + q, 0x80 + r]"
      using 3 by (simp add: utf8_point_def d q_def r_def a_def [symmetric])
    show thesis by (rule three [OF _ e(4) e(2) _ _ 3(1) u]) (use 3 e(1-4) in linarith)+
  next
    case 4
    have u: "utf8_point cp = [0xF0 + n, 0x80 + p, 0x80 + q, 0x80 + r]"
      using 4 by (simp add: utf8_point_def d q_def r_def p_def a_def [symmetric])
    show thesis by (rule four [OF _ e(6) e(4) e(2) _ _ _ u]) (use 4 e assms in linarith)+
  qed
qed

lemma decode_point:
  assumes "is_scalar cp"
  shows "decode_points (utf8_point cp @ bs) = cp # decode_points bs"
proof -
  have c: "cp < 0x110000" "cp < 0xD800 \<or> 0xDFFF < cp" using assms by (auto simp: is_scalar_def)
  note f = sequence_point_def numeral_2_eq_2 numeral_3_eq_3
  from c(1) show ?thesis
  proof (cases rule: utf8_point_cases)
    case (two q r)
    then have "sequence_class (0xC0 + q) = Some (1, 0x80, 0xBF, q)" by (simp add: sequence_class_def)
    with two show ?thesis by (simp add: f Let_def)
  next
    case (three p q r)
    have "p = 13 \<longrightarrow> q < 32" using three(1-5) c(2) by auto
    moreover have "sequence_class (0xE0 + p) = Some (2, if p = 0 then 0xA0 else 0x80, if p = 13 then 0x9F else 0xBF, p)"
      using three by (simp add: sequence_class_def)
    ultimately show ?thesis using three by (auto simp: f Let_def algebra_simps)
  next
    case (four n p q r)
    have "sequence_class (0xF0 + n) = Some (3, if n = 0 then 0x90 else 0x80, if n = 4 then 0x8F else 0xBF, n)"
      using four by (simp add: sequence_class_def)
    with four show ?thesis by (auto simp: f Let_def algebra_simps)
  qed simp
qed

text \<open>Whatever the bytes, the decoder gives scalar values.\<close>

lemma follow_count_bounds:
  "follow_count n lo hi bs = n \<Longrightarrow> length (take n bs) = n \<and>
     (\<forall>k < n. (if k = 0 then lo else 0x80) \<le> bs ! k \<and> bs ! k \<le> (if k = 0 then hi else 0xBF))"
proof (induction n lo hi bs rule: follow_count.induct)
  case (1 n lo hi b bs)
  then have ok: "lo \<le> b" "b \<le> hi" "follow_count n 0x80 0xBF bs = n" by (auto split: if_splits)
  from 1(1) ok have ih: "length (take n bs) = n"
    "\<forall>k < n. (if k = 0 then 0x80 else 0x80) \<le> bs ! k \<and> bs ! k \<le> (if k = 0 then 0xBF else 0xBF)" by blast+
  with ok show ?case by (auto simp: nth_Cons split: nat.split)
qed auto

lemma sequence_scalar:
  assumes "sequence_class a = Some (n, lo, hi, lead)" and "follow_count n lo hi bs = n"
  shows "is_scalar (sequence_point lead (take n bs))"
proof -
  have b: "length (take n bs) = n"
    "\<forall>k < n. (if k = 0 then lo else 0x80) \<le> bs ! k \<and> bs ! k \<le> (if k = 0 then hi else 0xBF)"
    using follow_count_bounds [OF assms(2)] by blast+
  have n: "n = 1 \<and> lead < 32 \<or> n = 2 \<and> lead < 16 \<and> (lead = 13 \<longrightarrow> hi = 0x9F) \<or> n = 3 \<and> lead < 5 \<and> (lead = 4 \<longrightarrow> hi = 0x8F)" "hi \<le> 0xBF"
    using assms(1) by (auto simp: sequence_class_def split: if_splits)
  define xs where "xs = take n bs"
  have "length xs = n" using b(1) by (simp add: xs_def)
  then consider x where "xs = [x]" "n = 1" | x y where "xs = [x, y]" "n = 2" | x y z where "xs = [x, y, z]" "n = 3"
    using n(1) by (auto simp: numeral_2_eq_2 numeral_3_eq_3 length_Suc_conv)
  then consider x where "take n bs = [x]" "n = 1" | x y where "take n bs = [x, y]" "n = 2" | x y z where "take n bs = [x, y, z]" "n = 3"
    unfolding xs_def by metis
  then show ?thesis
  proof cases
    case 1
    have "bs ! 0 = x" using 1 by (metis One_nat_def lessI nth_Cons_0 nth_take)
    then have "x - 0x80 < 64" using b n 1 by auto
    moreover have "lead < 32" using n 1 by auto
    ultimately have "lead * 64 + (x - 0x80) < 0x800" by linarith
    then show ?thesis unfolding 1(1) by (simp add: sequence_point_def is_scalar_def)
  next
    case 2
    have "bs ! 0 = x" "bs ! 1 = y"
      using 2 nth_take [of 0 2 bs] nth_take [of 1 2 bs] by simp_all
    then have "x \<le> hi" "y \<le> 0xBF" using b(2) [rule_format, of 0] b(2) [rule_format, of 1] 2(2) by simp_all
    then have "x - 0x80 < (if lead = 13 then 32 else 64)" "y - 0x80 < 64" "lead < 16" using n 2(2) by auto
    then have "lead * 4096 + (x - 0x80) * 64 + (y - 0x80) < 0xD800 \<or> 0xDFFF < lead * 4096 + (x - 0x80) * 64 + (y - 0x80) \<and>
        lead * 4096 + (x - 0x80) * 64 + (y - 0x80) < 0x10000"
    proof -
      assume l: "x - 0x80 < (if lead = 13 then 32 else 64)" "y - 0x80 < 64" "lead < 16"
      consider "lead \<le> 12" | "lead = 13" | "14 \<le> lead" by linarith
      then show ?thesis
      proof cases
        case 1
        with l have "lead * 4096 + (x - 128) * 64 + (y - 128) < 0xD800" by (auto split: if_splits)
        then show ?thesis ..
      next
        case 2
        with l have "lead * 4096 + (x - 128) * 64 + (y - 128) < 0xD800" by simp
        then show ?thesis ..
      next
        case 3
        with l have "0xDFFF < lead * 4096 + (x - 128) * 64 + (y - 128)" "lead * 4096 + (x - 128) * 64 + (y - 128) < 0x10000"
          by (auto split: if_splits)
        then show ?thesis by simp
      qed
    qed
    then show ?thesis unfolding 2(1) by (auto simp: sequence_point_def is_scalar_def algebra_simps)
  next
    case 3
    have "bs ! 0 = x" "bs ! 1 = y" "bs ! 2 = z" "lo = (if lead = 0 then 0x90 else 0x80)"
      using 3 nth_take [of 0 3 bs] nth_take [of 1 3 bs] nth_take [of 2 3 bs] assms(1)
      by (auto simp: sequence_class_def split: if_splits)
    then have "x \<le> hi" "(if lead = 0 then 0x90 else 0x80) \<le> x" "y \<le> 0xBF" "z \<le> 0xBF"
      using b(2) [rule_format, of 0] b(2) [rule_format, of 1] b(2) [rule_format, of 2] 3(2) by simp_all
    then have "x - 0x80 < (if lead = 4 then 16 else 64)" "lead = 0 \<longrightarrow> 16 \<le> x - 0x80" "y - 0x80 < 64" "z - 0x80 < 64" "lead < 5"
      using n 3(2) by (auto split: if_splits)
    then have "0xFFFF < lead * 262144 + (x - 0x80) * 4096 + (y - 0x80) * 64 + (z - 0x80)"
        "lead * 262144 + (x - 0x80) * 4096 + (y - 0x80) * 64 + (z - 0x80) < 0x110000"
      by (cases "lead = 0"; cases "lead = 4"; simp; linarith)+
    then show ?thesis unfolding 3(1) by (simp add: sequence_point_def is_scalar_def algebra_simps)
  qed
qed

lemma decode_scalar: "list_all is_scalar (decode_points bs)"
proof (induction bs rule: decode_points.induct)
  case (2 a bs)
  have r: "is_scalar 0xFFFD" "a < 0x80 \<Longrightarrow> is_scalar a" by (simp_all add: is_scalar_def)
  show ?case
    using 2 r sequence_scalar by (auto simp: Let_def split: option.split)
qed simp

lemma wf_decode: "wf_text (decode_utf8 bs)"
  unfolding wf_text_def decode_utf8_def using decode_scalar by blast

lemma decode_encoded: "list_all is_scalar cps \<Longrightarrow> decode_points (concat (map utf8_point cps)) = cps"
  by (induction cps) (simp_all add: decode_point)

lemma decode_utf8_utf8: "wf_text t \<Longrightarrow> decode_utf8 (utf8 t) = t"
  by (auto simp: wf_text_def utf8_text decode_utf8_def decode_encoded)

lemma utf8_inj: "wf_text s \<Longrightarrow> wf_text t \<Longrightarrow> utf8 s = utf8 t \<Longrightarrow> s = t"
  by (metis decode_utf8_utf8)

lemma validate_point:
  assumes "is_scalar cp"
  shows "validate_from i (utf8_point cp @ bs) = validate_from (i + length (utf8_point cp)) bs"
proof -
  have c: "cp < 0x110000" "cp < 0xD800 \<or> 0xDFFF < cp" using assms by (auto simp: is_scalar_def)
  have upts: "[Suc 0..<2] = [1]" "[Suc 0..<3] = [1, 2]" "[Suc 0..<4] = [1, 2, 3]" by (simp_all add: upt_rec)
  have sucs: "i + 3 = Suc (Suc (Suc i))" "i + 4 = Suc (Suc (Suc (Suc i)))" by simp_all
  from c(1) show ?thesis
  proof (cases rule: utf8_point_cases)
    case (two q r)
    then have "lead_class (0xC0 + q) = Some (2, 0x80)" "\<not> surrogate_half ((0xC0 + q) # xs)" for xs
      by (auto simp: lead_class_def surrogate_half_def split: list.split)
    then show ?thesis using two by (simp add: continuations_ok_def upts)
  next
    case (three p q r)
    have "p = 13 \<longrightarrow> q < 32" using three(1-5) c(2) by auto
    then have "lead_class (0xE0 + p) = Some (3, if p = 0 then 0xA0 else 0x80)" "\<not> surrogate_half ((0xE0 + p) # (0x80 + q) # xs)" for xs
      using three by (auto simp: lead_class_def surrogate_half_def)
    then show ?thesis using three by (auto simp: continuations_ok_def upts sucs)
  next
    case (four n p q r)
    then have "lead_class (0xF0 + n) = Some (4, if n = 0 then 0x90 else 0x80)" "\<not> surrogate_half ((0xF0 + n) # xs)" for xs
      by (auto simp: lead_class_def surrogate_half_def split: list.split)
    then show ?thesis using four by (auto simp: continuations_ok_def upts sucs)
  qed simp
qed

lemma validate_encoded: "list_all is_scalar cps \<Longrightarrow> validate_from i (concat (map utf8_point cps)) = None"
  by (induction cps arbitrary: i) (simp_all add: validate_point)


text \<open>
  The validation is not as strict as it means to be: a lead byte \<open>F4\<close> may be followed by any
  continuation byte, beyond the last code point.
\<close>

lemma validation_admits_beyond_unicode:
  "validate_utf8 [0xF4, 0x90, 0x80, 0x80] = None"
  "decode_utf8 [0xF4, 0x90, 0x80, 0x80] = [0xFFFD, 0xFFFD, 0xFFFD, 0xFFFD]"
proof -
  have "[Suc 0..<4] = [1, 2, 3]" by (simp add: upt_rec)
  then show "validate_utf8 [0xF4, 0x90, 0x80, 0x80] = None"
    by (simp add: validate_utf8_def lead_class_def surrogate_half_def continuations_ok_def)
  show "decode_utf8 [0xF4, 0x90, 0x80, 0x80] = [0xFFFD, 0xFFFD, 0xFFFD, 0xFFFD]"
    by (simp add: decode_utf8_def sequence_class_def units_of_def Let_def numeral_3_eq_3)
qed

end
