(* ===== verification/Canonical_Json.thy ===== *)
theory Canonical_Json
  imports Utf8
begin

text \<open>
  Canonical JSON, \<open>packages/capability-contract/src/canonical.ts\<close>: the parser with its error lists,
  the domain of values, the encoder and the admission of documents. The parser's state is the rest of
  the text, from which the position and byte offsets follow; a throw of \<open>PARSE_ABORT\<close> is \<open>Abort\<close>.
  The loops over members run on a fuel of one more than the length of the rest, and \<open>Stuck\<close>, running
  out of it, does not happen. A value read from a number literal is exact as long as it is within the
  safe integers, and the rounding of larger literals does not take them back into that range.
\<close>

section \<open>Values\<close>

datatype json = Null | Bool bool | Num int | Str ustr | Arr "json list" | Obj "(ustr \<times> json) list"

text \<open>
  The entries of an object: array indices first, in numeric order, then the other keys as inserted.
  The key \<open>__proto__\<close> is no entry: assigning to it sets the prototype or does nothing.
\<close>

definition digit :: "nat \<Rightarrow> bool" where
  "digit c \<longleftrightarrow> 48 \<le> c \<and> c \<le> 57"

definition decimal :: "ustr \<Rightarrow> nat" where
  "decimal ds = foldl (\<lambda>n c. n * 10 + (c - 48)) 0 ds"

definition array_index :: "ustr \<Rightarrow> bool" where
  "array_index k \<longleftrightarrow> k \<noteq> [] \<and> list_all digit k \<and> (hd k \<noteq> 48 \<or> k = [48]) \<and> decimal k < 2 ^ 32 - 1"

definition object_entries :: "(ustr \<times> 'a) list \<Rightarrow> (ustr \<times> 'a) list" where
  "object_entries m = sort_key (\<lambda>e. decimal (fst e)) (filter (\<lambda>e. array_index (fst e)) m) @
     filter (\<lambda>e. \<not> array_index (fst e)) m"

definition proto_key :: ustr where
  "proto_key = ascii ''__proto__''"

definition assign :: "ustr \<Rightarrow> 'a \<Rightarrow> (ustr \<times> 'a) list \<Rightarrow> (ustr \<times> 'a) list" where
  "assign k v m = (if k = proto_key then m else map_set k v m)"

section \<open>The parser\<close>

record pst =
  p_rest :: ustr
  p_syntax :: "contract_error list"
  p_duplicates :: "contract_error list"
  p_domain :: "contract_error list"

datatype 'a outcome = Done 'a pst | Abort pst | Stuck

definition and_then :: "'a outcome \<Rightarrow> ('a \<Rightarrow> pst \<Rightarrow> 'b outcome) \<Rightarrow> 'b outcome" where
  "and_then r f = (case r of Done x p \<Rightarrow> f x p | Abort p \<Rightarrow> Abort p | Stuck \<Rightarrow> Stuck)"

lemma and_then_simps [simp]:
  "and_then (Done x p) f = f x p" "and_then (Abort p) f = Abort p" "and_then Stuck f = Stuck"
  by (simp_all add: and_then_def)

definition byte_offset :: "ustr \<Rightarrow> ustr \<Rightarrow> nat" where
  "byte_offset doc r = length (utf8 (take (length doc - length r) doc))"

definition fail_syntax :: "ustr \<Rightarrow> string \<Rightarrow> pst \<Rightarrow> 'a outcome" where
  "fail_syntax doc msg p = Abort (p\<lparr>p_syntax := p_syntax p @
     [Contract_Error ''contract.json-syntax'' (Some (byte_offset doc (p_rest p))) (Some msg)]\<rparr>)"

definition fail_domain :: "ustr \<Rightarrow> pst \<Rightarrow> pst" where
  "fail_domain doc p = p\<lparr>p_domain := p_domain p @
     [Contract_Error ''contract.value-domain'' (Some (byte_offset doc (p_rest p))) None]\<rparr>"

definition json_space :: "nat \<Rightarrow> bool" where
  "json_space c \<longleftrightarrow> c \<in> {32, 9, 10, 13}"

definition skip_space :: "pst \<Rightarrow> pst" where
  "skip_space p = p\<lparr>p_rest := dropWhile json_space (p_rest p)\<rparr>"

text \<open>What \<open>peek\<close> shows at the end of the text compares unequal to every character.\<close>

definition peek_is :: "nat \<Rightarrow> pst \<Rightarrow> bool" where
  "peek_is c p \<longleftrightarrow> p_rest p \<noteq> [] \<and> hd (p_rest p) = c"

definition peek_digit :: "pst \<Rightarrow> bool" where
  "peek_digit p \<longleftrightarrow> p_rest p \<noteq> [] \<and> digit (hd (p_rest p))"

definition advance :: "nat \<Rightarrow> pst \<Rightarrow> pst" where
  "advance n p = p\<lparr>p_rest := drop n (p_rest p)\<rparr>"

definition expect :: "ustr \<Rightarrow> nat \<Rightarrow> string \<Rightarrow> pst \<Rightarrow> unit outcome" where
  "expect doc c msg p =
     (let q = skip_space p in if \<not> peek_is c q then fail_syntax doc msg q else Done () (advance 1 q))"

subsection \<open>Strings\<close>

definition hex_digit :: "nat \<Rightarrow> bool" where
  "hex_digit c \<longleftrightarrow> digit c \<or> 97 \<le> c \<and> c \<le> 102 \<or> 65 \<le> c \<and> c \<le> 70"

definition hex_value :: "nat \<Rightarrow> nat" where
  "hex_value c = (if digit c then c - 48 else if 97 \<le> c then c - 87 else c - 55)"

definition hex4 :: "ustr \<Rightarrow> nat option" where
  "hex4 r = (let h = take 4 r in
     if length h = 4 \<and> list_all hex_digit h then Some (foldl (\<lambda>n c. n * 16 + hex_value c) 0 h) else None)"

definition simple_escape :: "nat \<Rightarrow> nat option" where
  "simple_escape c =
     (if c \<in> {34, 92, 47} then Some c
      else if c = 98 then Some 8 else if c = 102 then Some 12 else if c = 110 then Some 10
      else if c = 114 then Some 13 else if c = 116 then Some 9 else None)"

text \<open>The second half of an escaped pair that follows an escaped high surrogate.\<close>

definition low_escape :: "ustr \<Rightarrow> nat option" where
  "low_escape r = (case r of
     a # b # cs \<Rightarrow>
       if a = 92 \<and> b = 117
       then (case hex4 cs of Some l \<Rightarrow> if is_low l then Some l else None | None \<Rightarrow> None)
       else None
   | _ \<Rightarrow> None)"

text \<open>The code point of \<open>\u\<close>, for the rest after its digits.\<close>

definition unicode_escape :: "ustr \<Rightarrow> nat \<Rightarrow> pst \<Rightarrow> nat \<times> pst" where
  "unicode_escape doc u p =
     (if is_low u then (0xFFFD, fail_domain doc p)
      else if is_high u
      then (case low_escape (p_rest p) of
          Some l \<Rightarrow> (pair_point u l, advance 6 p)
        | None \<Rightarrow> (0xFFFD, fail_domain doc p))
      else (u, p))"

lemma unicode_escape_shrinks: "length (p_rest (snd (unicode_escape doc u p))) \<le> length (p_rest p)"
  by (auto simp: unicode_escape_def fail_domain_def advance_def split: option.split)

text \<open>The loop of \<open>parseString\<close>, after the opening quote.\<close>

function scan_string :: "ustr \<Rightarrow> ustr \<Rightarrow> pst \<Rightarrow> ustr outcome" where
  "scan_string doc acc p = (case p_rest p of
     [] \<Rightarrow> fail_syntax doc ''unterminated string'' p
   | c # r \<Rightarrow>
       if c = 34 then Done acc (advance 1 p)
       else if c = 92
       then (case r of
           [] \<Rightarrow> fail_syntax doc ''unterminated escape'' (advance 1 p)
         | e # s \<Rightarrow>
             (case simple_escape e of
                Some u \<Rightarrow> scan_string doc (acc @ [u]) (p\<lparr>p_rest := s\<rparr>)
              | None \<Rightarrow>
                  if e = 117
                  then (case hex4 s of
                      None \<Rightarrow> fail_syntax doc ''invalid unicode escape'' (advance 1 p)
                    | Some u \<Rightarrow>
                        let w = unicode_escape doc u (p\<lparr>p_rest := drop 4 s\<rparr>)
                        in scan_string doc (acc @ units_of (fst w)) (snd w))
                  else fail_syntax doc ''invalid escape'' (advance 1 p)))
       else if c \<le> 0x1F then fail_syntax doc ''raw control character in string'' p
       else scan_string doc (acc @ [c]) (p\<lparr>p_rest := r\<rparr>))"
  by pat_completeness auto
termination
  by (relation "measure (\<lambda>(doc, acc, p). length (p_rest p))")
    (auto intro: le_less_trans [OF unicode_escape_shrinks])

declare scan_string.simps [simp del]

definition parse_string :: "ustr \<Rightarrow> pst \<Rightarrow> ustr outcome" where
  "parse_string doc p = scan_string doc [] (advance 1 p)"

subsection \<open>Numbers\<close>

definition safe_max :: int where
  "safe_max = 9007199254740991"

definition skip_digits :: "pst \<Rightarrow> pst" where
  "skip_digits p = p\<lparr>p_rest := dropWhile digit (p_rest p)\<rparr>"

definition number_integer :: "ustr \<Rightarrow> pst \<Rightarrow> unit outcome" where
  "number_integer doc p =
     (if peek_is 48 p then Done () (advance 1 p)
      else if peek_digit p then Done () (skip_digits p)
      else fail_syntax doc ''invalid number'' p)"

text \<open>An optional part of a number, with whether it is there.\<close>

definition number_fraction :: "ustr \<Rightarrow> pst \<Rightarrow> bool outcome" where
  "number_fraction doc p =
     (if peek_is 46 p
      then let q = advance 1 p in
        if \<not> peek_digit q then fail_syntax doc ''invalid fraction'' q else Done True (skip_digits q)
      else Done False p)"

definition number_exponent :: "ustr \<Rightarrow> pst \<Rightarrow> bool outcome" where
  "number_exponent doc p =
     (if peek_is 101 p \<or> peek_is 69 p
      then let q = advance 1 p; s = (if peek_is 43 q \<or> peek_is 45 q then advance 1 q else q) in
        if \<not> peek_digit s then fail_syntax doc ''invalid exponent'' s else Done True (skip_digits s)
      else Done False p)"

text \<open>The text between two positions.\<close>

definition between :: "pst \<Rightarrow> pst \<Rightarrow> ustr" where
  "between p q = take (length (p_rest p) - length (p_rest q)) (p_rest p)"

definition literal_value :: "ustr \<Rightarrow> int" where
  "literal_value l = (case l of [] \<Rightarrow> 0 | c # ds \<Rightarrow> if c = 45 then - int (decimal ds) else int (decimal (c # ds)))"

definition out_of_domain :: "ustr \<Rightarrow> pst \<Rightarrow> pst \<Rightarrow> 'a outcome" where
  "out_of_domain doc start p = Abort (fail_domain doc (p\<lparr>p_rest := p_rest start\<rparr>))"

definition parse_number :: "ustr \<Rightarrow> pst \<Rightarrow> int outcome" where
  "parse_number doc p =
     (let p1 = (if peek_is 45 p then advance 1 p else p) in
      and_then (number_integer doc p1) (\<lambda>_ p2.
      let leading_zero = (1 < length (between p1 p2) \<and> peek_is 48 p1) in
      and_then (number_fraction doc p2) (\<lambda>fractional p3.
      and_then (number_exponent doc p3) (\<lambda>exponent p4.
      let literal = between p p4 in
      if leading_zero then fail_syntax doc ''leading zero'' p4
      else if fractional \<or> exponent \<or> literal = [45, 48] then out_of_domain doc p p4
      else let n = literal_value literal in
        if safe_max < n \<or> n < - safe_max then out_of_domain doc p p4 else Done n p4))))"

subsection \<open>Arrays, objects and values\<close>

text \<open>The loops, for a parser of the members.\<close>

primrec array_loop :: "(pst \<Rightarrow> json outcome) \<Rightarrow> ustr \<Rightarrow> nat \<Rightarrow> json list \<Rightarrow> pst \<Rightarrow> json outcome" where
  "array_loop pv doc 0 acc p = Stuck"
| "array_loop pv doc (Suc n) acc p =
     and_then (pv p) (\<lambda>v p1.
     let p2 = skip_space p1 in
     if peek_is 44 p2 then array_loop pv doc n (acc @ [v]) (advance 1 p2)
     else if peek_is 93 p2 then Done (Arr (acc @ [v])) (advance 1 p2)
     else fail_syntax doc ''expected , or ]'' p2)"

definition parse_array :: "(pst \<Rightarrow> json outcome) \<Rightarrow> ustr \<Rightarrow> pst \<Rightarrow> json outcome" where
  "parse_array pv doc p =
     and_then (expect doc 91 ''expected ['' p) (\<lambda>_ p1.
     let p2 = skip_space p1 in
     if peek_is 93 p2 then Done (Arr []) (advance 1 p2)
     else array_loop pv doc (Suc (length (p_rest p2))) [] p2)"

definition note_duplicate :: "ustr \<Rightarrow> bool \<Rightarrow> pst \<Rightarrow> pst" where
  "note_duplicate doc dup p =
     (if dup then p\<lparr>p_duplicates := p_duplicates p @
        [Contract_Error ''contract.duplicate-key'' (Some (byte_offset doc (p_rest p))) None]\<rparr> else p)"

primrec object_loop ::
  "(pst \<Rightarrow> json outcome) \<Rightarrow> ustr \<Rightarrow> nat \<Rightarrow> (ustr \<times> json) list \<Rightarrow> pst \<Rightarrow> json outcome" where
  "object_loop pv doc 0 acc p = Stuck"
| "object_loop pv doc (Suc n) acc p =
     (let p1 = skip_space p in
      if \<not> peek_is 34 p1 then fail_syntax doc ''expected object key'' p1
      else and_then (parse_string doc p1) (\<lambda>key p2.
        and_then (expect doc 58 ''expected :'' p2) (\<lambda>_ p3.
        and_then (pv p3) (\<lambda>v p4.
        let p5 = skip_space (note_duplicate doc (map_has acc key) p4); m = assign key v acc in
        if peek_is 44 p5 then object_loop pv doc n m (advance 1 p5)
        else if peek_is 125 p5 then Done (Obj m) (advance 1 p5)
        else fail_syntax doc ''expected , or }'' p5))))"

definition parse_object :: "(pst \<Rightarrow> json outcome) \<Rightarrow> ustr \<Rightarrow> pst \<Rightarrow> json outcome" where
  "parse_object pv doc p =
     and_then (expect doc 123 ''expected {'' p) (\<lambda>_ p1.
     let p2 = skip_space p1 in
     if peek_is 125 p2 then Done (Obj []) (advance 1 p2)
     else object_loop pv doc (Suc (length (p_rest p2))) [] p2)"

text \<open>\<open>parseValue\<close> by the depth that is left: none is left below depth 32.\<close>

primrec parse_value :: "ustr \<Rightarrow> nat \<Rightarrow> pst \<Rightarrow> json outcome" where
  "parse_value doc 0 p = Abort (fail_domain doc p)"
| "parse_value doc (Suc d) p =
     (let q = skip_space p in
      if peek_is 123 q then parse_object (parse_value doc d) doc q
      else if peek_is 91 q then parse_array (parse_value doc d) doc q
      else if peek_is 34 q then and_then (parse_string doc q) (\<lambda>s. Done (Str s))
      else if peek_is 45 q \<or> peek_digit q then and_then (parse_number doc q) (\<lambda>n. Done (Num n))
      else if starts_with (p_rest q) (ascii ''true'') then Done (Bool True) (advance 4 q)
      else if starts_with (p_rest q) (ascii ''false'') then Done (Bool False) (advance 5 q)
      else if starts_with (p_rest q) (ascii ''null'') then Done Null (advance 4 q)
      else fail_syntax doc ''unexpected token'' q)"

definition max_depth :: nat where
  "max_depth = 32"

section \<open>The domain of scalars\<close>

definition forbidden_scalar :: "nat \<Rightarrow> bool" where
  "forbidden_scalar cp \<longleftrightarrow> cp \<le> 0x1F \<or> 0x7F \<le> cp \<and> cp \<le> 0x9F \<or> 0xFDD0 \<le> cp \<and> cp \<le> 0xFDEF \<or>
     0xFFFE \<le> cp mod 0x10000 \<or> cp = 0x61C \<or> cp = 0x200E \<or> cp = 0x200F \<or>
     0x202A \<le> cp \<and> cp \<le> 0x202E \<or> 0x2066 \<le> cp \<and> cp \<le> 0x2069"

fun index_of :: "ustr \<Rightarrow> ustr \<Rightarrow> nat option" where
  "index_of s [] = (if s = [] then Some 0 else None)"
| "index_of s (c # t) = (if starts_with (c # t) s then Some 0 else map_option Suc (index_of s t))"

text \<open>The text before the first occurrence; without one, \<open>slice(0, -1)\<close>.\<close>

definition scalar_error :: "ustr \<Rightarrow> nat \<Rightarrow> contract_error" where
  "scalar_error doc cp = Contract_Error ''contract.value-domain''
     (Some (length (utf8 (case index_of (units_of cp) doc of Some i \<Rightarrow> take i doc | None \<Rightarrow> butlast doc)))) None"

fun entries_errors :: "(ustr \<times> contract_error list) list \<Rightarrow> contract_error list" where
  "entries_errors [] = []"
| "entries_errors ((k, es) # m) =
     (if list_ex forbidden_scalar (code_points k) then [Contract_Error ''contract.value-domain'' None None]
      else es @ entries_errors m)"

fun validate_scalars :: "ustr \<Rightarrow> json \<Rightarrow> contract_error list" where
  "validate_scalars doc (Str s) =
     (case filter forbidden_scalar (code_points s) of [] \<Rightarrow> [] | cp # cps \<Rightarrow> [scalar_error doc cp])"
| "validate_scalars doc (Arr vs) = concat (map (validate_scalars doc) vs)"
| "validate_scalars doc (Obj m) =
     entries_errors (object_entries (map (\<lambda>(k, v). (k, validate_scalars doc v)) m))"
| "validate_scalars doc v = []"

section \<open>The encoder\<close>

definition write_point :: "nat \<Rightarrow> ustr" where
  "write_point cp =
     (if cp = 34 then [92, 34] else if cp = 92 then [92, 92] else units_of cp)"

definition write_string :: "ustr \<Rightarrow> ustr" where
  "write_string s = [34] @ concat (map write_point (code_points s)) @ [34]"

definition sorted_entries :: "(ustr \<times> 'a) list \<Rightarrow> (ustr \<times> 'a) list" where
  "sorted_entries m = sort_key (\<lambda>e. utf8 (fst e)) (object_entries m)"

fun write_value :: "json \<Rightarrow> ustr" where
  "write_value Null = ascii ''null''"
| "write_value (Bool b) = ascii (if b then ''true'' else ''false'')"
| "write_value (Num n) = ascii (show_int n)"
| "write_value (Str s) = write_string s"
| "write_value (Arr vs) = [91] @ join [44] (map write_value vs) @ [93]"
| "write_value (Obj m) = [123] @ join [44] (map (\<lambda>(k, w). write_string k @ [58] @ w)
     (sorted_entries (map (\<lambda>(k, v). (k, write_value v)) m))) @ [125]"

fun safe_numbers :: "json \<Rightarrow> bool" where
  "safe_numbers (Num n) = (- safe_max \<le> n \<and> n \<le> safe_max)"
| "safe_numbers (Arr vs) = list_all safe_numbers vs"
| "safe_numbers (Obj m) = list_all (\<lambda>(k, v). safe_numbers v) m"
| "safe_numbers v = True"

definition encode_canonical :: "json \<Rightarrow> nat list result" where
  "encode_canonical v =
     (if safe_numbers v then Inr (utf8 (write_value v))
      else throw ''TypeError'' ''canonical encoder requires safe integers'')"

section \<open>Admission\<close>

record limits =
  li_max_bytes :: nat
  li_top_object :: bool

definition occurs :: "nat list \<Rightarrow> nat list \<Rightarrow> bool" where
  "occurs s t = (index_of s t \<noteq> None)"

definition is_object :: "json option \<Rightarrow> bool" where
  "is_object v = (case v of Some (Obj m) \<Rightarrow> True | _ \<Rightarrow> False)"

definition start_pst :: "ustr \<Rightarrow> pst" where
  "start_pst doc = \<lparr>p_rest = doc, p_syntax = [], p_duplicates = [], p_domain = []\<rparr>"

text \<open>The value, if the parser did not abort, and the final state; \<open>None\<close> if it is stuck.\<close>

definition run_parser :: "ustr \<Rightarrow> (json option \<times> pst) option" where
  "run_parser doc = (case parse_value doc max_depth (start_pst doc) of
     Done v p \<Rightarrow>
       let q = skip_space p in
       Some (Some v, if p_rest q \<noteq> []
         then q\<lparr>p_syntax := p_syntax q @ [Contract_Error ''contract.json-syntax'' None (Some ''trailing content'')]\<rparr> else q)
   | Abort p \<Rightarrow> Some (None, p)
   | Stuck \<Rightarrow> None)"

definition reported :: "ustr \<Rightarrow> json option \<Rightarrow> pst \<Rightarrow> contract_error list" where
  "reported doc v p =
     p_syntax p @ p_duplicates p @ p_domain p @
     (if p_syntax p = [] \<and> p_duplicates p = [] then (case v of None \<Rightarrow> [] | Some w \<Rightarrow> validate_scalars doc w) else [])"

definition contract_fail :: "string \<Rightarrow> string option \<Rightarrow> contract_error + 'a" where
  "contract_fail c path = Inl (Contract_Error c None path)"

text \<open>The outer option is \<open>None\<close> when the parser is stuck.\<close>

definition parse_canonical_json :: "limits \<Rightarrow> nat list \<Rightarrow> (contract_error + nat list \<times> json) option" where
  "parse_canonical_json lim bytes =
     (if li_max_bytes lim < length bytes then Some (contract_fail ''contract.input-too-large'' None)
      else case validate_utf8 bytes of
        Some e \<Rightarrow> Some (Inl e)
      | None \<Rightarrow>
          let doc = decode_utf8 bytes in
          if 0xFFFD \<in> set doc \<and> \<not> occurs [0xEF, 0xBF, 0xBD] bytes
          then Some (contract_fail ''contract.utf8-invalid'' None)
          else case run_parser doc of
            None \<Rightarrow> None
          | Some (v, p) \<Rightarrow> Some (case reported doc v p of
              e # es \<Rightarrow> Inl e
            | [] \<Rightarrow>
                if li_top_object lim \<and> \<not> is_object v then contract_fail ''contract.schema-invalid'' (Some [])
                else (case v of
                  None \<Rightarrow> contract_fail ''TypeError'' None
                | Some w \<Rightarrow> (case encode_canonical w of
                    Inl e \<Rightarrow> contract_fail (err_code e) None
                  | Inr out \<Rightarrow> if out \<noteq> bytes then contract_fail ''contract.noncanonical-bytes'' None else Inr (out, w)))))"

end
