(* ===== verification/Canonical_Parse.thy ===== *)
theory Canonical_Parse
  imports Canonical_Json
begin

text \<open>
  What the parser of canonical JSON returns: it shortens the rest at every step, so the fuel of its
  loops suffices, and builds only values that are well typed.
\<close>

section \<open>What the parser returns\<close>

fun fits :: "nat \<Rightarrow> json \<Rightarrow> bool" where
  "fits 0 v = False"
| "fits (Suc d) (Arr vs) = list_all (fits d) vs"
| "fits (Suc d) (Obj m) = list_all (\<lambda>(k, v). fits d v) m"
| "fits (Suc d) v = True"

text \<open>A parsed value before the scalars are checked.\<close>

fun shape :: "json \<Rightarrow> bool" where
  "shape (Num n) = (- safe_max \<le> n \<and> n \<le> safe_max)"
| "shape (Str s) = wf_text s"
| "shape (Arr vs) = list_all shape vs"
| "shape (Obj m) = (distinct (map fst m) \<and> proto_key \<notin> set (map fst m) \<and> list_all (\<lambda>(k, v). wf_text k \<and> shape v) m)"
| "shape v = True"

definition sound_out :: "('a \<Rightarrow> bool) \<Rightarrow> nat \<Rightarrow> 'a outcome \<Rightarrow> bool" where
  "sound_out P n r = (case r of
     Done x q \<Rightarrow> P x \<and> wf_text (p_rest q) \<and> length (p_rest q) \<le> n | Abort q \<Rightarrow> True | Stuck \<Rightarrow> False)"

lemma sound_out_simps [simp]:
  "sound_out P n (Done x q) \<longleftrightarrow> P x \<and> wf_text (p_rest q) \<and> length (p_rest q) \<le> n"
  "sound_out P n (Abort q)" "\<not> sound_out P n Stuck"
  "sound_out P n (fail_syntax doc msg q)" "sound_out P n (out_of_domain doc s q)"
  by (simp_all add: sound_out_def fail_syntax_def out_of_domain_def)

lemma sound_then:
  assumes "sound_out P n r"
    and "\<And>x q. P x \<Longrightarrow> wf_text (p_rest q) \<Longrightarrow> length (p_rest q) \<le> n \<Longrightarrow> sound_out Q m (f x q)"
  shows "sound_out Q m (and_then r f)"
  using assms by (cases r) simp_all

lemma sound_mono: "sound_out P n r \<Longrightarrow> n \<le> m \<Longrightarrow> (\<And>x. P x \<Longrightarrow> Q x) \<Longrightarrow> sound_out Q m r"
  by (cases r) auto

lemma wf_dropWhile: "(\<And>c. P c \<Longrightarrow> c < 0xD800) \<Longrightarrow> wf_text t \<Longrightarrow> wf_text (dropWhile P t)"
  by (induction t) (auto simp: wf_text_Cons)

lemma rest_simps [simp]:
  "p_rest (skip_space p) = dropWhile json_space (p_rest p)"
  "p_rest (skip_digits p) = dropWhile digit (p_rest p)"
  "p_rest (advance n p) = drop n (p_rest p)"
  "p_rest (fail_domain doc p) = p_rest p"
  "p_rest (note_duplicate doc b p) = p_rest p"
  by (simp_all add: skip_space_def skip_digits_def advance_def fail_domain_def note_duplicate_def)

lemma wf_skips:
  "wf_text t \<Longrightarrow> wf_text (dropWhile json_space t)" "wf_text t \<Longrightarrow> wf_text (dropWhile digit t)"
  by (rule wf_dropWhile; auto simp: json_space_def digit_def)+

lemma length_skips: "length (dropWhile P t) \<le> length t"
  by (rule length_dropWhile_le)

lemma wf_advance: "peek_is c p \<Longrightarrow> c < 0xD800 \<Longrightarrow> wf_text (p_rest p) \<Longrightarrow> wf_text (drop (Suc 0) (p_rest p))"
  by (cases "p_rest p") (auto simp: peek_is_def wf_text_Cons)

lemma peek_length: "peek_is c p \<Longrightarrow> 0 < length (p_rest p)" "peek_digit p \<Longrightarrow> 0 < length (p_rest p)"
  by (auto simp: peek_is_def peek_digit_def)

lemma sound_expect:
  assumes "wf_text (p_rest p)" and "c < 0xD800"
  shows "sound_out (\<lambda>_. True) (length (p_rest p) - 1) (expect doc c msg p)"
proof (cases "peek_is c (skip_space p)")
  case True
  have "wf_text (drop (Suc 0) (p_rest (skip_space p)))"
    using True assms(2) by (rule wf_advance) (simp add: wf_skips assms(1))
  then show ?thesis using True length_skips [of json_space "p_rest p"] by (simp add: expect_def Let_def)
qed (simp add: expect_def Let_def)

subsection \<open>Strings\<close>

lemma length_four: "length xs = 4 \<Longrightarrow> \<exists>a b c d. xs = [a, b, c, d]"
  by (auto simp: length_Suc_conv numeral_eq_Suc)

lemma hex4_drop:
  assumes "hex4 s = Some u" and "wf_text s"
  shows "wf_text (drop 4 s)" "u < 0x10000"
proof -
  let ?h = "take 4 s"
  have h: "length ?h = 4" "list_all hex_digit ?h" "u = foldl (\<lambda>n c. n * 16 + hex_value c) 0 ?h"
    using assms(1) by (auto simp: hex4_def Let_def split: if_splits)
  then obtain a b c d where abcd: "?h = [a, b, c, d]"
    using length_four by blast
  then have s: "s = a # b # c # d # drop 4 s" by (metis append_Cons append_Nil append_take_drop_id)
  have lt: "hex_digit x \<Longrightarrow> x < 0xD800" "hex_digit x \<Longrightarrow> hex_value x < 16" for x
    by (auto simp: hex_digit_def digit_def hex_value_def)
  have "a < 0xD800" "b < 0xD800" "c < 0xD800" "d < 0xD800" using h(2) lt(1) by (simp_all add: abcd)
  then show "wf_text (drop 4 s)" using assms(2) s by (metis wf_text_Cons)
  have "hex_value a < 16" "hex_value b < 16" "hex_value c < 16" "hex_value d < 16"
    using h(2) lt(2) by (simp_all add: abcd)
  then show "u < 0x10000" by (simp add: h(3) abcd)
qed

lemma low_escape_Some:
  assumes "low_escape r = Some l" and "wf_text r"
  shows "is_low l" "wf_text (drop 6 r)"
proof -
  obtain cs where r: "r = 92 # 117 # cs" "hex4 cs = Some l" "is_low l"
    using assms(1) by (auto simp: low_escape_def split: list.splits if_splits option.splits)
  then show "is_low l" by simp
  have "wf_text cs" using assms(2) by (simp add: r wf_text_Cons)
  then show "wf_text (drop 6 r)" using hex4_drop(1) [OF r(2)] by (simp add: r(1))
qed

lemma sound_escape:
  assumes "u < 0x10000" and "wf_text (p_rest p)"
  shows "is_scalar (fst (unicode_escape doc u p))" "wf_text (p_rest (snd (unicode_escape doc u p)))"
proof -
  have f: "is_scalar 0xFFFD" by (simp add: is_scalar_def)
  have s: "\<not> is_low u \<Longrightarrow> \<not> is_high u \<Longrightarrow> is_scalar u"
    using assms(1) by (auto simp: is_low_def is_high_def is_scalar_def)
  show "is_scalar (fst (unicode_escape doc u p))" "wf_text (p_rest (snd (unicode_escape doc u p)))"
    using assms(2) f s low_escape_Some
    by (auto simp: unicode_escape_def fail_domain_def units_pair(2) split: option.split)
qed

text \<open>Between the two units of a raw pair the text read so far is not well formed.\<close>

definition midway :: "ustr \<Rightarrow> ustr \<Rightarrow> bool" where
  "midway acc r \<longleftrightarrow> wf_text acc \<and> wf_text r \<or>
     (\<exists>a h l s. acc = a @ [h] \<and> wf_text a \<and> is_high h \<and> r = l # s \<and> is_low l \<and> wf_text s)"

lemma midway_plain: "midway acc (c # r) \<Longrightarrow> c < 0xD800 \<Longrightarrow> wf_text acc \<and> wf_text r"
  by (auto simp: midway_def wf_text_Cons is_low_def)

lemma midway_raw:
  assumes "midway acc (c # r)"
  shows "midway (acc @ [c]) r"
  using assms unfolding midway_def
proof (elim disjE exE conjE)
  assume acc: "wf_text acc" and r: "wf_text (c # r)"
  from r show "wf_text (acc @ [c]) \<and> wf_text r \<or>
    (\<exists>a h l s. acc @ [c] = a @ [h] \<and> wf_text a \<and> is_high h \<and> r = l # s \<and> is_low l \<and> wf_text s)"
  proof (cases rule: wf_text_cases)
    case plain
    then show ?thesis using acc wf_text_units [of c] by (auto simp: units_of_small intro!: wf_text_append)
  next
    case (pair l s)
    with acc show ?thesis by blast
  qed
next
  fix a h l s
  assume "acc = a @ [h]" "wf_text a" "is_high h" "c # r = l # s" "is_low l" "wf_text s"
  moreover have "wf_text (a @ [h, l])"
    using calculation units_pair [of h l] wf_text_units [of "pair_point h l"] by (auto intro: wf_text_append)
  ultimately show "wf_text (acc @ [c]) \<and> wf_text r \<or>
    (\<exists>a h l s. acc @ [c] = a @ [h] \<and> wf_text a \<and> is_high h \<and> r = l # s \<and> is_low l \<and> wf_text s)" by simp
qed

lemma simple_escape_Some: "simple_escape e = Some u \<Longrightarrow> e < 0xD800 \<and> u < 0xD800"
  by (auto simp: simple_escape_def split: if_splits)

lemma sound_scan: "midway acc (p_rest p) \<Longrightarrow> sound_out wf_text (length (p_rest p)) (scan_string doc acc p)"
proof (induction doc acc p rule: scan_string.induct)
  case (1 doc acc p)
  show ?case
  proof (cases "p_rest p")
    case Nil
    then show ?thesis by (subst scan_string.simps) simp
  next
    case (Cons c r)
    have mid: "midway acc (c # r)" using "1.prems" Cons by simp
    consider "c = 34" | "c = 92" "r = []" | e s u where "c = 92" "r = e # s" "simple_escape e = Some u"
      | s u where "c = 92" "r = 117 # s" "hex4 s = Some u"
      | e s where "c = 92" "r = e # s" "simple_escape e = None" "e \<noteq> 117 \<or> hex4 s = None"
      | "c \<noteq> 34" "c \<noteq> 92" "c \<le> 0x1F" | "c \<noteq> 34" "c \<noteq> 92" "\<not> c \<le> 0x1F"
      by (cases r) fastforce+
    then show ?thesis
    proof cases
      case 1
      then show ?thesis using Cons midway_plain [OF mid] by (subst scan_string.simps) simp
    next
      case 2
      then show ?thesis using Cons by (subst scan_string.simps) simp
    next
      case (3 e s u)
      have "wf_text acc" "wf_text s"
        using midway_plain [OF mid] 3 simple_escape_Some [OF 3(3)] by (simp_all add: wf_text_Cons)
      then have "midway (acc @ [u]) (p_rest (p\<lparr>p_rest := s\<rparr>))"
        using simple_escape_Some [OF 3(3)] by (auto simp: midway_def wf_text_Cons intro!: wf_text_append)
      then have "sound_out wf_text (length s) (scan_string doc (acc @ [u]) (p\<lparr>p_rest := s\<rparr>))"
        using "1.IH"(2) [OF Cons _ 3(1-3)] 3(1) by simp
      then show ?thesis using Cons 3 by (subst scan_string.simps) (auto elim: sound_mono)
    next
      case (4 s u)
      let ?w = "unicode_escape doc u (p\<lparr>p_rest := drop 4 s\<rparr>)"
      have e: "simple_escape 117 = None" by (simp add: simple_escape_def)
      have wf: "wf_text acc" "wf_text s" using midway_plain [OF mid] 4 by (simp_all add: wf_text_Cons)
      note h = hex4_drop [OF 4(3) wf(2)]
      have "midway (acc @ units_of (fst ?w)) (p_rest (snd ?w))"
        using wf h sound_escape [of u "p\<lparr>p_rest := drop 4 s\<rparr>" doc]
        by (auto simp: midway_def intro!: wf_text_append wf_text_units)
      then have "sound_out wf_text (length (p_rest (snd ?w))) (scan_string doc (acc @ units_of (fst ?w)) (snd ?w))"
        using "1.IH"(1) [OF Cons _ 4(1,2) e _ 4(3) refl] 4(1) by simp
      moreover have "length (p_rest (snd ?w)) \<le> length (p_rest p)"
        using unicode_escape_shrinks [of doc u "p\<lparr>p_rest := drop 4 s\<rparr>"] Cons 4 by simp
      ultimately show ?thesis using Cons 4 e by (subst scan_string.simps) (auto simp: Let_def elim: sound_mono)
    next
      case (5 e s)
      then show ?thesis using Cons by (subst scan_string.simps) (auto split: option.split)
    next
      case 6
      then show ?thesis using Cons by (subst scan_string.simps) simp
    next
      case 7
      have "sound_out wf_text (length r) (scan_string doc (acc @ [c]) (p\<lparr>p_rest := r\<rparr>))"
        using "1.IH"(3) [OF Cons 7] midway_raw [OF mid] by simp
      then show ?thesis using Cons 7 by (subst scan_string.simps) (auto elim: sound_mono)
    qed
  qed
qed

lemma sound_string:
  assumes "peek_is 34 p" and "wf_text (p_rest p)"
  shows "sound_out wf_text (length (p_rest p) - 1) (parse_string doc p)"
proof -
  have "wf_text (drop (Suc 0) (p_rest p))" using assms wf_advance [of 34 p] by simp
  then have "midway [] (p_rest (advance 1 p))" by (simp add: midway_def)
  from sound_scan [OF this, of doc] show ?thesis by (simp add: parse_string_def)
qed

subsection \<open>Numbers\<close>

lemma sound_skip_digits:
  "wf_text (p_rest p) \<Longrightarrow> peek_digit p \<Longrightarrow>
     wf_text (p_rest (skip_digits p)) \<and> length (p_rest (skip_digits p)) \<le> length (p_rest p) - 1"
  using length_skips [of digit "tl (p_rest p)"] by (cases "p_rest p") (auto simp: wf_skips wf_text_Cons digit_def peek_digit_def)

lemma sound_integer:
  "wf_text (p_rest p) \<Longrightarrow> sound_out (\<lambda>_. True) (length (p_rest p) - 1) (number_integer doc p)"
  using wf_advance [of 48 p] sound_skip_digits [of p] by (auto simp: number_integer_def)

lemma sound_fraction:
  assumes "wf_text (p_rest p)"
  shows "sound_out (\<lambda>_. True) (length (p_rest p)) (number_fraction doc p)"
proof -
  have "peek_is 46 p \<Longrightarrow> wf_text (drop (Suc 0) (p_rest p))" using assms by (intro wf_advance) auto
  with assms sound_skip_digits [of "advance 1 p"] show ?thesis by (auto simp: number_fraction_def Let_def)
qed

lemma sound_exponent:
  assumes "wf_text (p_rest p)"
  shows "sound_out (\<lambda>_. True) (length (p_rest p)) (number_exponent doc p)"
proof -
  define q where "q = advance 1 p"
  define s where "s = (if peek_is 43 q \<or> peek_is 45 q then advance 1 q else q)"
  have q: "wf_text (p_rest q)" if "peek_is 101 p \<or> peek_is 69 p"
    using that assms wf_advance [of 101 p] wf_advance [of 69 p] by (auto simp: q_def)
  have s: "wf_text (p_rest s)" "length (p_rest s) \<le> length (p_rest p)" if "peek_is 101 p \<or> peek_is 69 p"
    using q [OF that] wf_advance [of 43 q] wf_advance [of 45 q] by (auto simp: s_def q_def)
  show ?thesis
    unfolding number_exponent_def Let_def q_def [symmetric] s_def [symmetric]
    using assms s sound_skip_digits [of s] by (auto intro: le_trans [OF _ le_trans [OF diff_le_self]])
qed

lemma sound_number:
  assumes "wf_text (p_rest p)" and "p_rest p \<noteq> []"
  shows "sound_out (\<lambda>n. - safe_max \<le> n \<and> n \<le> safe_max) (length (p_rest p) - 1) (parse_number doc p)"
proof -
  define p1 where "p1 = (if peek_is 45 p then advance 1 p else p)"
  have p1: "wf_text (p_rest p1)" "length (p_rest p1) - 1 \<le> length (p_rest p) - 1"
    using assms wf_advance [of 45 p] by (auto simp: p1_def)
  show ?thesis
    unfolding parse_number_def Let_def p1_def [symmetric]
  proof (rule sound_then [OF sound_integer [OF p1(1)]], goal_cases)
    case (1 x p2)
    show ?case
    proof (rule sound_then [OF sound_fraction [OF 1(2)]], goal_cases)
      case (1 f p3)
      show ?case
      proof (rule sound_then [OF sound_exponent [OF 1(2)]], goal_cases)
        case (1 e p4)
        have "length (p_rest p4) \<le> length (p_rest p) - 1"
          using 1 \<open>length (p_rest p3) \<le> _\<close> \<open>length (p_rest p2) \<le> _\<close> p1(2) by linarith
        with 1 show ?case by simp
      qed
    qed
  qed
qed

subsection \<open>Arrays, objects and values\<close>

lemma sound_array_loop:
  assumes pv: "\<And>p. wf_text (p_rest p) \<Longrightarrow> sound_out P (length (p_rest p) - 1) (pv p)"
  shows "wf_text (p_rest p) \<Longrightarrow> length (p_rest p) < n \<Longrightarrow> list_all P acc \<Longrightarrow>
    sound_out (\<lambda>v. \<exists>vs. v = Arr vs \<and> list_all P vs) (length (p_rest p) - 1) (array_loop pv doc n acc p)"
proof (induction n arbitrary: acc p)
  case (Suc n)
  show ?case unfolding array_loop.simps Let_def
  proof (rule sound_then [OF pv [OF Suc.prems(1)]], goal_cases)
    case (1 v p1)
    let ?p2 = "skip_space p1"
    have p2: "wf_text (p_rest ?p2)" "length (p_rest ?p2) \<le> length (p_rest p) - 1"
      using 1 length_skips [of json_space "p_rest p1"] by (simp_all add: wf_skips)
    have acc: "list_all P (acc @ [v])" using Suc.prems(3) 1 by simp
    consider (comma) "peek_is 44 ?p2" | (close) "\<not> peek_is 44 ?p2" "peek_is 93 ?p2" | (bad) "\<not> peek_is 44 ?p2" "\<not> peek_is 93 ?p2" by blast
    then show ?case
    proof cases
      case comma
      have wf: "wf_text (p_rest (advance 1 ?p2))" using wf_advance [OF comma] p2 by simp
      have len: "length (p_rest (advance 1 ?p2)) < n" "length (p_rest (advance 1 ?p2)) \<le> length (p_rest p)"
        using p2(2) Suc.prems(2) peek_length(1) [OF comma] by (simp_all, linarith+)
      show ?thesis
        using Suc.IH [OF wf len(1) acc] len(2) comma by (auto elim!: sound_mono)
    next
      case close
      then show ?thesis using wf_advance [OF close(2)] p2 acc by auto
    qed simp
  qed
qed simp

lemma sound_array:
  assumes pv: "\<And>p. wf_text (p_rest p) \<Longrightarrow> sound_out P (length (p_rest p) - 1) (pv p)" and "wf_text (p_rest p)"
  shows "sound_out (\<lambda>v. \<exists>vs. v = Arr vs \<and> list_all P vs) (length (p_rest p) - 1) (parse_array pv doc p)"
  unfolding parse_array_def Let_def
proof (rule sound_then [OF sound_expect [OF assms(2)]], simp, goal_cases)
  case (1 x p1)
  let ?p2 = "skip_space p1"
  have p2: "wf_text (p_rest ?p2)" "length (p_rest ?p2) \<le> length (p_rest p) - 1"
    using 1 length_skips [of json_space "p_rest p1"] by (simp_all add: wf_skips)
  have "sound_out (\<lambda>v. \<exists>vs. v = Arr vs \<and> list_all P vs) (length (p_rest p) - 1)
      (array_loop pv doc (Suc (length (p_rest ?p2))) [] ?p2)"
    using p2 by (intro sound_mono [OF sound_array_loop [where P = P, OF pv]]) (auto intro: le_trans [OF diff_le_self])
  moreover have "peek_is 93 ?p2 \<Longrightarrow> wf_text (drop (Suc 0) (p_rest ?p2))" using p2(1) by (intro wf_advance) auto
  ultimately show ?case using p2(2) by auto
qed

lemma assign_props:
  assumes "distinct (map fst m)" and "proto_key \<notin> set (map fst m)"
  shows "distinct (map fst (assign k v m)) \<and> proto_key \<notin> set (map fst (assign k v m)) \<and>
     set (assign k v m) \<subseteq> insert (k, v) (set m)"
proof (cases "k = proto_key")
  case False
  have k: "map fst (map_set k v m) = (if k \<in> set (map fst m) then map fst m else map fst m @ [k])"
    using map_keys_set [of k v m] by (simp add: map_keys_def)
  show ?thesis using assms False in_map_set [of _ k v m] by (auto simp: assign_def k)
qed (use assms in \<open>auto simp: assign_def\<close>)

definition members_ok :: "(json \<Rightarrow> bool) \<Rightarrow> (ustr \<times> json) list \<Rightarrow> bool" where
  "members_ok P m \<longleftrightarrow> distinct (map fst m) \<and> proto_key \<notin> set (map fst m) \<and> list_all (\<lambda>(k, v). wf_text k \<and> P v) m"

lemma members_assign:
  assumes "members_ok P m" and "wf_text k" and "P v"
  shows "members_ok P (assign k v m)"
proof -
  have d: "distinct (map fst m)" "proto_key \<notin> set (map fst m)" "list_all (\<lambda>(k, v). wf_text k \<and> P v) m"
    using assms(1) by (simp_all add: members_ok_def)
  note a = assign_props [OF d(1,2), of k v]
  have "list_all (\<lambda>(k, v). wf_text k \<and> P v) (assign k v m)"
    using a d(3) assms(2,3) unfolding list_all_iff by fastforce
  with a show ?thesis by (simp add: members_ok_def)
qed

lemma sound_object_loop:
  assumes pv: "\<And>p. wf_text (p_rest p) \<Longrightarrow> sound_out P (length (p_rest p) - 1) (pv p)"
  shows "wf_text (p_rest p) \<Longrightarrow> length (p_rest p) < n \<Longrightarrow> members_ok P acc \<Longrightarrow>
    sound_out (\<lambda>v. \<exists>m. v = Obj m \<and> members_ok P m) (length (p_rest p) - 1) (object_loop pv doc n acc p)"
proof (induction n arbitrary: acc p)
  case (Suc n)
  let ?p1 = "skip_space p"
  have p1: "wf_text (p_rest ?p1)" "length (p_rest ?p1) \<le> length (p_rest p)"
    using Suc.prems(1) length_skips [of json_space "p_rest p"] by (simp_all add: wf_skips)
  show ?case
  proof (cases "peek_is 34 ?p1")
    case True
    have "sound_out (\<lambda>v. \<exists>m. v = Obj m \<and> members_ok P m) (length (p_rest p) - 1)
      (and_then (parse_string doc ?p1) (\<lambda>key p2. and_then (expect doc 58 ''expected :'' p2) (\<lambda>_ p3. and_then (pv p3) (\<lambda>v p4.
        let p5 = skip_space (note_duplicate doc (map_has acc key) p4); m = assign key v acc in
        if peek_is 44 p5 then object_loop pv doc n m (advance 1 p5)
        else if peek_is 125 p5 then Done (Obj m) (advance 1 p5)
        else fail_syntax doc ''expected , or }'' p5))))"
    proof (rule sound_then [OF sound_string [OF True p1(1)]], goal_cases)
      case (1 key p2)
      note k = 1
      show ?case
      proof (rule sound_then [OF sound_expect [OF k(2)]], simp, goal_cases)
        case (1 x p3)
        note c = 1
        show ?case
        proof (rule sound_then [OF pv [OF c(2)]], goal_cases)
          case (1 v p4)
          let ?p5 = "skip_space (note_duplicate doc (map_has acc key) p4)" and ?m = "assign key v acc"
          have p5: "wf_text (p_rest ?p5)" "length (p_rest ?p5) \<le> length (p_rest p) - 1"
            using 1 k(3) c(3) p1(2) length_skips [of json_space "p_rest p4"] by (simp_all add: wf_skips)
          have m: "members_ok P ?m" using Suc.prems(3) k(1) 1(1) by (rule members_assign)
          consider (comma) "peek_is 44 ?p5" | (close) "\<not> peek_is 44 ?p5" "peek_is 125 ?p5" | (bad) "\<not> peek_is 44 ?p5" "\<not> peek_is 125 ?p5" by blast
          then show ?case
          proof cases
            case comma
            have wf: "wf_text (p_rest (advance 1 ?p5))" using wf_advance [OF comma] p5 by simp
            have len: "length (p_rest (advance 1 ?p5)) < n" "length (p_rest (advance 1 ?p5)) \<le> length (p_rest p)"
              using p5(2) Suc.prems(2) peek_length(1) [OF comma] by (simp_all, linarith+)
            show ?thesis
              using Suc.IH [OF wf len(1) m] len(2) comma by (auto simp: Let_def elim!: sound_mono)
          next
            case close
            then show ?thesis using wf_advance [OF close(2)] p5 m by (auto simp: Let_def)
          qed (simp add: Let_def)
        qed
      qed
    qed
    then show ?thesis using True by (simp add: Let_def)
  qed (simp add: Let_def)
qed simp

lemma sound_object:
  assumes pv: "\<And>p. wf_text (p_rest p) \<Longrightarrow> sound_out P (length (p_rest p) - 1) (pv p)" and "wf_text (p_rest p)"
  shows "sound_out (\<lambda>v. \<exists>m. v = Obj m \<and> members_ok P m) (length (p_rest p) - 1) (parse_object pv doc p)"
  unfolding parse_object_def Let_def
proof (rule sound_then [OF sound_expect [OF assms(2)]], simp, goal_cases)
  case (1 x p1)
  let ?p2 = "skip_space p1"
  have p2: "wf_text (p_rest ?p2)" "length (p_rest ?p2) \<le> length (p_rest p) - 1"
    using 1 length_skips [of json_space "p_rest p1"] by (simp_all add: wf_skips)
  have "sound_out (\<lambda>v. \<exists>m. v = Obj m \<and> members_ok P m) (length (p_rest p) - 1)
      (object_loop pv doc (Suc (length (p_rest ?p2))) [] ?p2)"
    using p2 by (intro sound_mono [OF sound_object_loop [where P = P, OF pv]]) (auto simp: members_ok_def intro: le_trans [OF diff_le_self])
  moreover have "peek_is 125 ?p2 \<Longrightarrow> wf_text (drop (Suc 0) (p_rest ?p2))" using p2(1) by (intro wf_advance) auto
  ultimately show ?case using p2(2) by (auto simp: members_ok_def)
qed

lemma wf_starts:
  assumes "starts_with r (ascii w)" and "wf_text r" and "w \<noteq> []"
  shows "wf_text (drop (length w) r) \<and> length (drop (length w) r) \<le> length r - 1"
proof -
  obtain s where r: "r = ascii w @ s" using assms(1) by (auto simp: starts_with_iff)
  have "wf_text (ascii w @ s) \<Longrightarrow> wf_text s"
  proof (induction w)
    case (Cons c w)
    have "of_char c < (256 :: nat)" by simp
    then have "of_char c < (0xD800 :: nat)" by linarith
    then show ?case using Cons by (simp add: wf_text_Cons)
  qed simp
  then show ?thesis using assms r by (cases w) auto
qed

lemma sound_if:
  "(c \<Longrightarrow> sound_out P n a) \<Longrightarrow> (\<not> c \<Longrightarrow> sound_out P n b) \<Longrightarrow> sound_out P n (if c then a else b)"
  by simp

lemma sound_value:
  "wf_text (p_rest p) \<Longrightarrow> sound_out (\<lambda>v. fits d v \<and> shape v) (length (p_rest p) - 1) (parse_value doc d p)"
proof (induction d arbitrary: p)
  case (Suc d)
  let ?q = "skip_space p" and ?G = "sound_out (\<lambda>v. fits (Suc d) v \<and> shape v) (length (p_rest p) - 1)"
  have q: "wf_text (p_rest ?q)" "length (p_rest ?q) - 1 \<le> length (p_rest p) - 1"
    using Suc.prems length_skips [of json_space "p_rest p"] by (simp_all add: wf_skips)
  have members: "members_ok (\<lambda>v. fits d v \<and> shape v) m \<Longrightarrow> fits (Suc d) (Obj m) \<and> shape (Obj m)" for m
    by (auto simp: members_ok_def list_all_iff)
  have elements: "list_all (\<lambda>v. fits d v \<and> shape v) vs \<Longrightarrow> fits (Suc d) (Arr vs) \<and> shape (Arr vs)" for vs
    by (auto simp: list_all_iff)
  have g1: "?G (parse_object (parse_value doc d) doc ?q)"
    by (rule sound_mono [OF sound_object [OF Suc.IH q(1)] q(2)]) (auto dest: members)
  have g2: "?G (parse_array (parse_value doc d) doc ?q)"
    by (rule sound_mono [OF sound_array [OF Suc.IH q(1)] q(2)]) (auto dest: elements)
  have g3: "?G (and_then (parse_string doc ?q) (\<lambda>s. Done (Str s)))" if "peek_is 34 ?q"
    by (rule sound_then [OF sound_string [OF that q(1)]]) (use q(2) in auto)
  have g4: "?G (and_then (parse_number doc ?q) (\<lambda>n. Done (Num n)))" if "peek_is 45 ?q \<or> peek_digit ?q"
    by (rule sound_then [OF sound_number [OF q(1)]]) (use that q(2) peek_length [where p = ?q] in auto)
  have g5: "?G (Done (Bool True) (advance 4 ?q))" if "starts_with (p_rest ?q) (ascii ''true'')"
    using wf_starts [OF that q(1)] q(2) by (simp add: eval_nat_numeral)
  have g6: "?G (Done (Bool False) (advance 5 ?q))" if "starts_with (p_rest ?q) (ascii ''false'')"
    using wf_starts [OF that q(1)] q(2) by (simp add: eval_nat_numeral)
  have g7: "?G (Done Null (advance 4 ?q))" if "starts_with (p_rest ?q) (ascii ''null'')"
    using wf_starts [OF that q(1)] q(2) by (simp add: eval_nat_numeral)
  show ?case unfolding parse_value.simps Let_def
    by (intro sound_if sound_out_simps(4) g1 g2 g3 g4 g5 g6 g7)
qed simp

end
