(* ===== verification/Canonical_Claims.thy ===== *)
theory Canonical_Claims
  imports Canonical_Parse "HOL-Library.Multiset"
begin

text \<open>
  Canonical JSON is read back as it was written, and nothing else is admitted: the canonical values,
  the parser on what the encoder writes, and the exact description of the accepted documents.
\<close>

section \<open>Canonical values\<close>

definition string_ok :: "ustr \<Rightarrow> bool" where
  "string_ok s \<longleftrightarrow> wf_text s \<and> list_all (\<lambda>cp. \<not> forbidden_scalar cp) (code_points s)"

definition keys_ordered :: "(ustr \<times> 'a) list \<Rightarrow> bool" where
  "keys_ordered m \<longleftrightarrow> distinct (map fst m) \<and> proto_key \<notin> set (map fst m) \<and> sorted (map (\<lambda>e. utf8 (fst e)) m) \<and>
     list_all (\<lambda>k. string_ok k) (map fst m)"

text \<open>
  The canonical values: safe integers, strings of allowed scalar values, and objects whose keys are
  distinct and ordered by their bytes.
\<close>

fun canonical :: "json \<Rightarrow> bool" where
  "canonical (Num n) = (- safe_max \<le> n \<and> n \<le> safe_max)"
| "canonical (Str s) = string_ok s"
| "canonical (Arr vs) = list_all canonical vs"
| "canonical (Obj m) = (keys_ordered m \<and> list_all (\<lambda>(k, v). canonical v) m)"
| "canonical v = True"

section \<open>Reading what was written\<close>

definition delim :: "ustr \<Rightarrow> bool" where
  "delim r \<longleftrightarrow> r = [] \<or> hd r \<in> {44, 93, 125}"

lemma upd_simps [simp]:
  "advance n (p\<lparr>p_rest := r\<rparr>) = p\<lparr>p_rest := drop n r\<rparr>"
  "skip_space (p\<lparr>p_rest := r\<rparr>) = p\<lparr>p_rest := dropWhile json_space r\<rparr>"
  "skip_digits (p\<lparr>p_rest := r\<rparr>) = p\<lparr>p_rest := dropWhile digit r\<rparr>"
  "peek_is c (p\<lparr>p_rest := r\<rparr>) = (r \<noteq> [] \<and> hd r = c)"
  "peek_digit (p\<lparr>p_rest := r\<rparr>) = (r \<noteq> [] \<and> digit (hd r))"
  "note_duplicate doc False p = p"
  by (auto simp: advance_def skip_space_def skip_digits_def peek_is_def peek_digit_def note_duplicate_def)

subsection \<open>Strings\<close>

lemma scan_raw:
  assumes "c \<noteq> 34" "c \<noteq> 92" "0x1F < c"
  shows "scan_string doc acc (p\<lparr>p_rest := c # r\<rparr>) = scan_string doc (acc @ [c]) (p\<lparr>p_rest := r\<rparr>)"
  using assms by (subst scan_string.simps) simp

lemma scan_escaped:
  assumes "c = 34 \<or> c = 92"
  shows "scan_string doc acc (p\<lparr>p_rest := 92 # c # r\<rparr>) = scan_string doc (acc @ [c]) (p\<lparr>p_rest := r\<rparr>)"
  using assms by (subst scan_string.simps) (auto simp: simple_escape_def)

lemma scan_point:
  assumes "is_scalar cp" and "\<not> forbidden_scalar cp"
  shows "scan_string doc acc (p\<lparr>p_rest := write_point cp @ r\<rparr>) = scan_string doc (acc @ units_of cp) (p\<lparr>p_rest := r\<rparr>)"
proof -
  consider "cp = 34 \<or> cp = 92" | "cp \<noteq> 34" "cp \<noteq> 92" "cp < 0x10000" | "0x10000 \<le> cp" by linarith
  then show ?thesis
  proof cases
    case 1
    then have "write_point cp = [92, cp]" "units_of cp = [cp]" by (auto simp: write_point_def units_of_def)
    then show ?thesis using scan_escaped [OF 1] by simp
  next
    case 2
    then have "write_point cp = [cp]" "units_of cp = [cp]" by (auto simp: write_point_def units_of_def)
    moreover have "0x1F < cp" using assms(2) by (simp add: forbidden_scalar_def)
    ultimately show ?thesis using scan_raw 2 by simp
  next
    case 3
    then have "cp < 0x110000" using assms(1) by (auto simp: is_scalar_def)
    with 3 obtain h l where u: "units_of cp = [h, l]" "is_high h" "is_low l" "pair_point h l = cp" by (rule units_of_big)
    have w: "write_point cp = [h, l]" using 3 u by (simp add: write_point_def)
    have hl: "h \<noteq> 34" "h \<noteq> 92" "0x1F < h" "l \<noteq> 34" "l \<noteq> 92" "0x1F < l" using u(2,3) by (auto simp: is_high_def is_low_def)
    show ?thesis by (simp add: w u(1) scan_raw hl)
  qed
qed

lemma scan_points:
  "list_all is_scalar cps \<Longrightarrow> list_all (\<lambda>cp. \<not> forbidden_scalar cp) cps \<Longrightarrow>
     scan_string doc acc (p\<lparr>p_rest := concat (map write_point cps) @ 34 # r\<rparr>) = Done (acc @ text_of_points cps) (p\<lparr>p_rest := r\<rparr>)"
proof (induction cps arbitrary: acc)
  case Nil
  show ?case by (subst scan_string.simps) simp
next
  case (Cons cp cps)
  then show ?case by (simp add: scan_point)
qed

lemma parse_written_string:
  assumes "string_ok s"
  shows "parse_string doc (p\<lparr>p_rest := write_string s @ r\<rparr>) = Done s (p\<lparr>p_rest := r\<rparr>)"
proof -
  obtain cps where cps: "list_all is_scalar cps" "s = text_of_points cps"
    using assms by (auto simp: string_ok_def wf_text_def)
  with assms have "list_all (\<lambda>cp. \<not> forbidden_scalar cp) cps" by (simp add: string_ok_def code_points_text)
  with cps show ?thesis by (simp add: parse_string_def write_string_def code_points_text scan_points)
qed

lemma write_string_Cons: "\<exists>t. write_string s = 34 # t"
  by (simp add: write_string_def)

subsection \<open>Numbers\<close>

lemma digit_char_value: "d < 10 \<Longrightarrow> (of_char (digit_char d) :: nat) = 48 + d"
  by (simp add: digit_char_def)

lemma decimal_snoc: "decimal (ds @ [c]) = decimal ds * 10 + (c - 48)"
  by (simp add: decimal_def)

lemma show_nat_digits:
  "list_all digit (ascii (show_nat n)) \<and> decimal (ascii (show_nat n)) = n \<and>
     (hd (ascii (show_nat n)) = 48 \<longrightarrow> n = 0) \<and> (n = 0 \<longrightarrow> ascii (show_nat n) = [48])"
proof (induction n rule: show_nat.induct)
  case (1 n)
  show ?case
  proof (cases "n < 10")
    case True
    then show ?thesis by (subst (1 2 3 4) show_nat.simps) (auto simp: digit_char_value digit_def decimal_def)
  next
    case False
    note IH = "1.IH" [OF False]
    have ne: "ascii (show_nat (n div 10)) \<noteq> []" using show_nat_nonempty by (simp add: ascii_def)
    have s: "ascii (show_nat n) = ascii (show_nat (n div 10)) @ [48 + n mod 10]"
      using False by (subst show_nat.simps) (simp add: digit_char_value)
    have "decimal (ascii (show_nat n)) = n" using IH by (simp add: s decimal_snoc)
    moreover have "n mod 10 \<le> 9" by presburger
    then have "digit (48 + n mod 10)" by (simp add: digit_def)
    then have "list_all digit (ascii (show_nat n))" using IH by (simp add: s)
    moreover have "hd (ascii (show_nat n)) = 48 \<longrightarrow> n = 0"
    proof -
      have "n div 10 \<noteq> 0" using False by presburger
      moreover have "hd (ascii (show_nat n)) = hd (ascii (show_nat (n div 10)))" unfolding s using ne by simp
      ultimately show ?thesis using IH by presburger
    qed
    moreover have "n \<noteq> 0" using False by linarith
    ultimately show ?thesis by blast
  qed
qed

lemma parse_digits:
  assumes "delim r"
  shows "number_integer doc (p\<lparr>p_rest := ascii (show_nat n) @ r\<rparr>) = Done () (p\<lparr>p_rest := r\<rparr>)"
proof -
  let ?d = "ascii (show_nat n)"
  note d = show_nat_digits [of n]
  have ne: "?d \<noteq> []" using show_nat_nonempty by (simp add: ascii_def)
  have nd: "dropWhile digit r = r" using assms by (cases r) (auto simp: delim_def digit_def)
  show ?thesis
  proof (cases "n = 0")
    case True
    then have "?d = [48]" using d by simp
    then show ?thesis by (simp add: number_integer_def)
  next
    case False
    have "digit (hd ?d)" using d ne by (cases ?d) auto
    moreover have "dropWhile digit (?d @ r) = r" using d nd by (simp add: dropWhile_append2 list_all_iff)
    ultimately show ?thesis using False d ne by (simp add: number_integer_def)
  qed
qed

lemma no_tail:
  assumes "delim r"
  shows "number_fraction doc (p\<lparr>p_rest := r\<rparr>) = Done False (p\<lparr>p_rest := r\<rparr>)"
    "number_exponent doc (p\<lparr>p_rest := r\<rparr>) = Done False (p\<lparr>p_rest := r\<rparr>)"
  using assms by (auto simp: number_fraction_def number_exponent_def delim_def)

lemma parse_written_number:
  assumes "delim r" and "- safe_max \<le> n" and "n \<le> safe_max"
  shows "parse_number doc (p\<lparr>p_rest := ascii (show_int n) @ r\<rparr>) = Done n (p\<lparr>p_rest := r\<rparr>)"
proof -
  define k where "k = nat \<bar>n\<bar>"
  let ?d = "ascii (show_nat k)"
  note d = show_nat_digits [of k]
  have ne: "?d \<noteq> []" using show_nat_nonempty by (simp add: ascii_def)
  have zero: "\<not> (1 < length ?d \<and> hd ?d = 48)"
  proof
    assume a: "1 < length ?d \<and> hd ?d = 48"
    with d have "?d = [48]" by blast
    then have "length ?d = 1" by (simp only: list.size One_nat_def add_0)
    with a show False by linarith
  qed
  show ?thesis
  proof (cases "n < 0")
    case True
    have s: "ascii (show_int n) = 45 # ?d" using True by (simp add: show_int_def k_def)
    have "?d \<noteq> [48]" using d True by (auto simp: k_def)
    moreover have "literal_value (45 # ?d) = n" using d True by (simp add: literal_value_def k_def)
    ultimately show ?thesis
      using assms zero ne
      by (auto simp: parse_number_def s parse_digits no_tail between_def Let_def)
  next
    case False
    have s: "ascii (show_int n) = ?d" using False by (simp add: show_int_def k_def)
    have hd: "digit (hd ?d)" using d ne by (cases ?d) auto
    then have neq: "hd ?d \<noteq> 45" "?d \<noteq> [45, 48]" by (auto simp: digit_def)
    have "literal_value ?d = n"
      using d False neq ne by (cases ?d) (auto simp: literal_value_def k_def)
    then show ?thesis
      using assms zero ne neq
      by (auto simp: parse_number_def s parse_digits no_tail between_def Let_def)
  qed
qed

subsection \<open>The order of entries\<close>

lemma mset_entries [simp]: "mset (object_entries m) = mset m"
  by (simp add: object_entries_def)

lemma set_entries [simp]: "set (object_entries m) = set m"
  by (metis mset_entries set_mset_mset)

lemma utf8_distinct:
  assumes "distinct (map fst m)" and "list_all (\<lambda>k. wf_text k) (map fst m)"
  shows "inj_on (\<lambda>e. utf8 (fst e)) (set m)"
proof (rule inj_onI)
  fix x y
  assume xy: "x \<in> set m" "y \<in> set m" "utf8 (fst x) = utf8 (fst y)"
  have "wf_text (fst x)" "wf_text (fst y)" using assms(2) xy(1,2) by (simp_all add: list_all_iff)
  then have "fst x = fst y" using xy(3) by (rule utf8_inj)
  then obtain k v w where "x = (k, v)" "y = (k, w)" by (cases x; cases y) auto
  then show "x = y" using eq_key_imp_eq_value [OF assms(1)] xy(1,2) by blast
qed

lemma ordered_wf: "keys_ordered m \<Longrightarrow> list_all (\<lambda>k. wf_text k) (map fst m)"
  by (auto simp: keys_ordered_def string_ok_def list_all_iff)

lemma sorted_entries_ordered: "keys_ordered m \<Longrightarrow> sorted_entries m = m"
  unfolding sorted_entries_def
proof (rule sort_key_inj_key_eq)
  assume k: "keys_ordered m"
  show "inj_on (\<lambda>e. utf8 (fst e)) (set (object_entries m))"
    using utf8_distinct [OF _ ordered_wf [OF k]] k by (simp add: keys_ordered_def)
  show "sorted (map (\<lambda>e. utf8 (fst e)) m)" using k by (simp add: keys_ordered_def)
qed simp

lemma map_snd_keys: "map fst (map (\<lambda>(k, v). (k, g v)) m) = map fst m"
  "map (\<lambda>e. utf8 (fst e)) (map (\<lambda>(k, v). (k, g v)) m) = map (\<lambda>e. utf8 (fst e)) m"
  by (auto simp: case_prod_unfold)

lemma ordered_map: "keys_ordered m \<Longrightarrow> keys_ordered (map (\<lambda>(k, v). (k, g v)) m)"
  unfolding keys_ordered_def map_snd_keys .

lemma write_object:
  "keys_ordered m \<Longrightarrow> write_value (Obj m) = [123] @ join [44] (map (\<lambda>(k, v). write_string k @ [58] @ write_value v) m) @ [125]"
proof -
  assume "keys_ordered m"
  then have "sorted_entries (map (\<lambda>(k, v). (k, write_value v)) m) = map (\<lambda>(k, v). (k, write_value v)) m"
    by (intro sorted_entries_ordered ordered_map)
  then show ?thesis by (simp add: case_prod_unfold comp_def)
qed

subsection \<open>Values\<close>

lemma number_first: "\<exists>c t. ascii (show_int n) = c # t \<and> (c = 45 \<or> digit c)"
proof -
  obtain c t where ct: "ascii (show_nat (nat \<bar>n\<bar>)) = c # t"
    using show_nat_nonempty by (metis ascii_def list.map_disc_iff neq_Nil_conv)
  then have "digit c" using show_nat_digits [of "nat \<bar>n\<bar>"] by simp
  with ct show ?thesis by (cases "n < 0") (auto simp: show_int_def)
qed

lemma write_first: "\<exists>c t. write_value v = c # t \<and> \<not> json_space c \<and> c \<noteq> 93 \<and> c < 0x80"
proof (cases v)
  case (Num n)
  with number_first [of n] show ?thesis by (auto simp: json_space_def digit_def)
qed (auto simp: write_string_def json_space_def)

lemma written_Cons:
  obtains c t where "write_value v = c # t" "\<not> json_space c" "c \<noteq> 93" "c < 0x80"
  using write_first [of v] by blast

lemma length_join: "length xs \<le> Suc (length (join [c] xs))"
  by (induction "[c]" xs rule: join.induct) auto

lemma array_loop_written:
  assumes "vs \<noteq> []" and "length vs \<le> n"
    and "\<And>v p r. v \<in> set vs \<Longrightarrow> delim r \<Longrightarrow> pv (p\<lparr>p_rest := write_value v @ r\<rparr>) = Done v (p\<lparr>p_rest := r\<rparr>)"
  shows "array_loop pv doc n acc (p\<lparr>p_rest := join [44] (map write_value vs) @ 93 # r\<rparr>) = Done (Arr (acc @ vs)) (p\<lparr>p_rest := r\<rparr>)"
  using assms
proof (induction vs arbitrary: acc n)
  case (Cons v vs)
  obtain k where n: "n = Suc k" using Cons.prems(2) by (cases n) auto
  have pv: "delim s \<Longrightarrow> pv (p\<lparr>p_rest := write_value v @ s\<rparr>) = Done v (p\<lparr>p_rest := s\<rparr>)" for s
    using Cons.prems(3) by simp
  show ?case
  proof (cases vs)
    case Nil
    then show ?thesis using pv [of "93 # r"] by (simp add: n delim_def json_space_def)
  next
    case (Cons w ws)
    have "array_loop pv doc k (acc @ [v]) (p\<lparr>p_rest := join [44] (map write_value vs) @ 93 # r\<rparr>)
        = Done (Arr ((acc @ [v]) @ vs)) (p\<lparr>p_rest := r\<rparr>)"
      using Cons Cons.prems n by (intro Cons.IH) auto
    then show ?thesis
      using pv [of "44 # join [44] (map write_value vs) @ 93 # r"] Cons by (simp add: n delim_def json_space_def)
  qed
qed simp

lemma object_loop_written:
  assumes "m \<noteq> []" and "length m \<le> n"
    and "\<And>v p r. v \<in> snd ` set m \<Longrightarrow> delim r \<Longrightarrow> pv (p\<lparr>p_rest := write_value v @ r\<rparr>) = Done v (p\<lparr>p_rest := r\<rparr>)"
    and "distinct (map fst (acc @ m))" and "proto_key \<notin> set (map fst m)" and "list_all (\<lambda>k. string_ok k) (map fst m)"
  shows "object_loop pv doc n acc (p\<lparr>p_rest := join [44] (map (\<lambda>(k, v). write_string k @ [58] @ write_value v) m) @ 125 # r\<rparr>)
    = Done (Obj (acc @ m)) (p\<lparr>p_rest := r\<rparr>)"
  using assms
proof (induction m arbitrary: acc n)
  case (Cons e m)
  obtain j where n: "n = Suc j" using Cons.prems(2) by (cases n) auto
  obtain k v where e: "e = (k, v)" by (cases e)
  let ?wm = "\<lambda>m. join [44] (map (\<lambda>(k, v). write_string k @ [58] @ write_value v) m) :: nat list"
  have pv: "delim s \<Longrightarrow> pv (p\<lparr>p_rest := write_value v @ s\<rparr>) = Done v (p\<lparr>p_rest := s\<rparr>)" for s
    using Cons.prems(3) by (simp add: e)
  have k: "string_ok k" "k \<noteq> proto_key" "k \<notin> set (map_keys acc)"
    using Cons.prems(4-6) by (auto simp: e map_keys_def)
  have acc: "map_has acc k = False" "assign k v acc = acc @ [(k, v)]"
    using k map_get_dom [of acc k] by (auto simp: map_has_def assign_def map_set_fresh)
  have key: "parse_string doc (p\<lparr>p_rest := write_string k @ s\<rparr>) = Done k (p\<lparr>p_rest := s\<rparr>)" for s
    using k(1) by (rule parse_written_string)
  have first: "dropWhile json_space (write_string k @ s) = write_string k @ s" "write_string k @ s \<noteq> []"
      "hd (write_string k @ s) = 34" for s
    by (simp_all add: write_string_def json_space_def)
  show ?case
  proof (cases m)
    case Nil
    then show ?thesis
      using pv [of "125 # r"] by (simp add: n e first key expect_def acc delim_def json_space_def Let_def)
  next
    case (Cons e' m')
    have "object_loop pv doc j (acc @ [(k, v)]) (p\<lparr>p_rest := ?wm m @ 125 # r\<rparr>) = Done (Obj ((acc @ [(k, v)]) @ m)) (p\<lparr>p_rest := r\<rparr>)"
      using Cons Cons.prems n e by (intro Cons.IH) auto
    moreover have "?wm (e # m) @ 125 # r = write_string k @ 58 # write_value v @ 44 # ?wm m @ 125 # r"
      using Cons by (simp add: e)
    ultimately show ?thesis
      using pv [of "44 # ?wm m @ 125 # r"]
      by (simp add: n e first key expect_def acc delim_def json_space_def Let_def)
  qed
qed simp

lemma space_91: "\<not> json_space 91" "\<not> json_space 123"
  by (simp_all add: json_space_def)

lemma value_written:
  "canonical v \<Longrightarrow> fits d v \<Longrightarrow> delim r \<Longrightarrow>
     parse_value doc d (p\<lparr>p_rest := write_value v @ r\<rparr>) = Done v (p\<lparr>p_rest := r\<rparr>)"
proof (induction d arbitrary: v p r)
  case (Suc d)
  show ?case
  proof (cases v)
    case Null
    then show ?thesis by (simp add: json_space_def digit_def ascii_def starts_with_iff)
  next
    case (Bool b)
    then show ?thesis by (cases b) (simp_all add: json_space_def digit_def ascii_def starts_with_iff)
  next
    case (Num n)
    have pn: "parse_number doc (p\<lparr>p_rest := ascii (show_int n) @ r\<rparr>) = Done n (p\<lparr>p_rest := r\<rparr>)"
      using Suc.prems Num by (intro parse_written_number) simp_all
    obtain c t where s: "ascii (show_int n) = c # t" "c = 45 \<or> digit c" using number_first by blast
    then have "\<not> json_space c" "c \<noteq> 123" "c \<noteq> 91" "c \<noteq> 34" by (auto simp: json_space_def digit_def)
    then show ?thesis using pn s by (auto simp: Num)
  next
    case (Str s)
    have "parse_string doc (p\<lparr>p_rest := write_string s @ r\<rparr>) = Done s (p\<lparr>p_rest := r\<rparr>)"
      using Suc.prems Str by (intro parse_written_string) simp
    moreover obtain t where "write_string s = 34 # t" using write_string_Cons by blast
    ultimately show ?thesis by (simp add: Str json_space_def)
  next
    case (Arr vs)
    show ?thesis
    proof (cases vs)
      case Nil
      then show ?thesis by (simp add: Arr parse_array_def expect_def json_space_def Let_def)
    next
      case (Cons w ws)
      have pv: "delim s \<Longrightarrow> parse_value doc d (q\<lparr>p_rest := write_value u @ s\<rparr>) = Done u (q\<lparr>p_rest := s\<rparr>)"
        if "u \<in> set vs" for u q s using Suc.prems Arr that by (intro Suc.IH) (auto simp: list_all_iff)
      obtain c t where w: "write_value w = c # t" "\<not> json_space c" "c \<noteq> 93"
        by (rule written_Cons)
      have j: "\<exists>t. join [44] (map write_value vs) = c # t" using Cons w by (cases ws) auto
      have "array_loop (parse_value doc d) doc (Suc (length (join [44] (map write_value vs) @ 93 # r))) []
          (p\<lparr>p_rest := join [44] (map write_value vs) @ 93 # r\<rparr>) = Done (Arr vs) (p\<lparr>p_rest := r\<rparr>)"
        using Cons pv length_join [of "map write_value vs" 44] by (subst array_loop_written) auto
      moreover have "dropWhile json_space (join [44] (map write_value vs) @ s) = join [44] (map write_value vs) @ s"
        "join [44] (map write_value vs) \<noteq> []" "hd (join [44] (map write_value vs) @ s) \<noteq> 93" for s using j w by auto
      ultimately show ?thesis
        by (simp add: Arr parse_array_def expect_def Let_def space_91 del: array_loop.simps)
    qed
  next
    case (Obj m)
    have o': "keys_ordered m" using Suc.prems Obj by simp
    let ?w = "join [44] (map (\<lambda>(k, v). write_string k @ [58] @ write_value v) m) :: nat list"
    show ?thesis
    proof (cases m)
      case Nil
      then show ?thesis using o' by (simp add: Obj write_object parse_object_def expect_def json_space_def Let_def del: write_value.simps)
    next
      case (Cons e es)
      have pv: "delim s \<Longrightarrow> parse_value doc d (q\<lparr>p_rest := write_value u @ s\<rparr>) = Done u (q\<lparr>p_rest := s\<rparr>)"
        if "u \<in> snd ` set m" for u q s using Suc.prems Obj that by (intro Suc.IH) (auto simp: list_all_iff)
      have j: "\<exists>t. ?w = 34 # t" using Cons by (cases es; cases e) (auto simp: write_string_def)
      have "object_loop (parse_value doc d) doc (Suc (length (?w @ 125 # r))) [] (p\<lparr>p_rest := ?w @ 125 # r\<rparr>)
          = Done (Obj m) (p\<lparr>p_rest := r\<rparr>)"
        using Cons pv o' length_join [of "map (\<lambda>(k, v). write_string k @ [58] @ write_value v) m" 44]
        by (subst object_loop_written) (auto simp: keys_ordered_def)
      moreover have "dropWhile json_space (?w @ s) = ?w @ s" "?w \<noteq> []" "hd (?w @ s) \<noteq> 125" for s
        using j by (auto simp: json_space_def)
      ultimately show ?thesis
        by (simp add: Obj write_object [OF o'] parse_object_def expect_def Let_def space_91 del: object_loop.simps write_value.simps)
    qed
  qed
qed simp

section \<open>Values in canonical order\<close>

fun scalars_ok :: "json \<Rightarrow> bool" where
  "scalars_ok (Str s) = list_all (\<lambda>cp. \<not> forbidden_scalar cp) (code_points s)"
| "scalars_ok (Arr vs) = list_all scalars_ok vs"
| "scalars_ok (Obj m) = list_all (\<lambda>(k, v). list_all (\<lambda>cp. \<not> forbidden_scalar cp) (code_points k) \<and> scalars_ok v) m"
| "scalars_ok v = True"

lemma entries_errors_Nil:
  "entries_errors m = [] \<longleftrightarrow> list_all (\<lambda>(k, es). list_all (\<lambda>cp. \<not> forbidden_scalar cp) (code_points k) \<and> es = []) m"
  by (induction m rule: entries_errors.induct) (auto simp: list_ex_iff list_all_iff)

lemma validate_scalars_Nil: "validate_scalars doc v = [] \<longleftrightarrow> scalars_ok v"
proof (induction v rule: scalars_ok.induct)
  case (1 s)
  have "filter forbidden_scalar (code_points s) = [] \<longleftrightarrow> list_all (\<lambda>cp. \<not> forbidden_scalar cp) (code_points s)"
    by (simp add: filter_empty_conv list_all_iff)
  then show ?case by (auto split: list.splits)
next
  case (3 m)
  then show ?case by (auto simp: entries_errors_Nil list_all_iff)
qed (auto simp: list_all_iff)

fun sort_json :: "json \<Rightarrow> json" where
  "sort_json (Arr vs) = Arr (map sort_json vs)"
| "sort_json (Obj m) = Obj (sorted_entries (map (\<lambda>(k, v). (k, sort_json v)) m))"
| "sort_json v = v"

lemma set_sorted [simp]: "set (sorted_entries m) = set m"
  by (simp add: sorted_entries_def)

lemma mset_sorted [simp]: "mset (sorted_entries m) = mset m"
  by (simp add: sorted_entries_def)

lemma sorted_by_keys: "sorted (map (\<lambda>e. utf8 (fst e)) (sorted_entries m))"
  by (simp add: sorted_entries_def)

lemma sorted_entries_eq:
  assumes "distinct (map fst m)" and "list_all (\<lambda>k. wf_text k) (map fst m)"
    and "mset m' = mset m" and "sorted (map (\<lambda>e. utf8 (fst e)) m')"
  shows "sorted_entries m = m'"
  unfolding sorted_entries_def
  using utf8_distinct [OF assms(1,2)] assms(3,4) by (intro sort_key_inj_key_eq) simp_all

lemma sorted_keys:
  "distinct (map fst (sorted_entries m)) = distinct (map fst m)" "set (map fst (sorted_entries m)) = set (map fst m)"
  by (rule mset_eq_imp_distinct_iff, simp_all)

lemma sort_json_canonical: "shape v \<Longrightarrow> scalars_ok v \<Longrightarrow> canonical (sort_json v)"
proof (induction v rule: sort_json.induct)
  case (2 m)
  let ?m = "map (\<lambda>(k, v). (k, sort_json v)) m"
  have keys: "map fst ?m = map fst m" by (rule map_snd_keys)
  have "distinct (map fst (sorted_entries ?m))" "set (map fst (sorted_entries ?m)) = set (map fst m)"
    using 2(2) by (simp_all only: sorted_keys keys shape.simps)
  then have "keys_ordered (sorted_entries ?m)"
    using 2(2,3) unfolding keys_ordered_def list_all_iff by (auto simp: sorted_by_keys string_ok_def list_all_iff)
  moreover have "canonical (sort_json w)" if "(k, w) \<in> set m" for k w
    using 2(1) [OF that refl] 2(2,3) that by (fastforce simp: list_all_iff)
  then have "list_all (\<lambda>(k, v). canonical v) (sorted_entries ?m)" by (auto simp: list_all_iff)
  ultimately show ?case by simp
qed (auto simp: list_all_iff string_ok_def)

lemma fits_sort: "fits d (sort_json v) = fits d v"
proof (induction d arbitrary: v)
  case (Suc d)
  then show ?case by (cases v) (auto simp: list_all_iff)
qed simp

lemma write_sort: "shape v \<Longrightarrow> write_value (sort_json v) = write_value v"
proof (induction v rule: sort_json.induct)
  case (1 vs)
  then have "map (write_value \<circ> sort_json) vs = map write_value vs" by (auto simp: list_all_iff)
  then show ?case by (simp only: sort_json.simps write_value.simps map_map)
next
  case (2 m)
  let ?m = "map (\<lambda>(k, v). (k, sort_json v)) m" and ?w = "\<lambda>m. map (\<lambda>(k, v). (k, write_value v)) m"
  have m: "distinct (map fst m)" "list_all (\<lambda>k. wf_text k) (map fst m)"
    using 2(2) by (auto simp: list_all_iff)
  have same: "?w ?m = ?w m" using 2 by (auto simp: list_all_iff)
  have "sorted_entries (?w m) = ?w (sorted_entries ?m)"
  proof (rule sorted_entries_eq)
    show "distinct (map fst (?w m))" "list_all (\<lambda>k. wf_text k) (map fst (?w m))" using m by (simp_all only: map_snd_keys)
    have "mset (?w (sorted_entries ?m)) = image_mset (\<lambda>(k, v). (k, write_value v)) (mset ?m)" by simp
    also have "\<dots> = mset (?w ?m)" by (simp only: mset_map)
    finally show "mset (?w (sorted_entries ?m)) = mset (?w m)" by (simp only: same)
    show "sorted (map (\<lambda>e. utf8 (fst e)) (?w (sorted_entries ?m)))" by (simp only: map_snd_keys sorted_by_keys)
  qed
  moreover have "sorted_entries (?w (sorted_entries ?m)) = ?w (sorted_entries ?m)"
  proof (rule sorted_entries_eq)
    show "distinct (map fst (?w (sorted_entries ?m)))" using m(1) by (simp only: map_snd_keys sorted_keys)
    show "list_all (\<lambda>k. wf_text k) (map fst (?w (sorted_entries ?m)))"
      using m(2) unfolding map_snd_keys list_all_iff sorted_keys .
    show "sorted (map (\<lambda>e. utf8 (fst e)) (?w (sorted_entries ?m)))" by (simp only: map_snd_keys sorted_by_keys)
  qed simp
  ultimately show ?case by (simp only: sort_json.simps write_value.simps)
qed simp_all

section \<open>Admission\<close>

lemma wf_ascii: "wf_text (ascii s)"
proof (induction s)
  case (Cons c s)
  have "of_char c < (256 :: nat)" by simp
  then have "of_char c < (0xD800 :: nat)" by linarith
  with Cons show ?case by (simp add: wf_text_Cons)
qed simp

lemma wf_join: "list_all wf_text ts \<Longrightarrow> c < 0xD800 \<Longrightarrow> wf_text (join [c] ts)"
  by (induction "[c]" ts rule: join.induct) (auto simp: wf_text_Cons intro!: wf_text_append)

lemma wf_write_string: "wf_text s \<Longrightarrow> wf_text (write_string s)"
proof -
  assume "wf_text s"
  then obtain cps where cps: "list_all is_scalar cps" "s = text_of_points cps" by (auto simp: wf_text_def)
  have "wf_text (concat (map write_point cps) @ [34])"
    using cps(1)
  proof (induction cps)
    case (Cons cp cps)
    then have "wf_text (write_point cp)" by (auto simp: write_point_def wf_text_Cons intro: wf_text_units)
    with Cons show ?case by (auto intro: wf_text_append)
  qed (simp add: wf_text_Cons)
  with cps show ?thesis by (simp add: write_string_def code_points_text wf_text_Cons)
qed

lemma wf_write: "canonical v \<Longrightarrow> wf_text (write_value v)"
proof (induction v rule: canonical.induct)
  case (3 vs)
  then have "wf_text (join [44] (map write_value vs))" by (intro wf_join) (auto simp: list_all_iff)
  then show ?case by (auto simp: wf_text_Cons intro: wf_text_append)
next
  case (4 m)
  then have o': "keys_ordered m" by simp
  have "wf_text (join [44] (map (\<lambda>(k, v). write_string k @ [58] @ write_value v) m))"
    using 4 by (intro wf_join) (auto simp: list_all_iff keys_ordered_def string_ok_def wf_text_Cons intro!: wf_text_append wf_write_string)
  then show ?case unfolding write_object [OF o'] by (auto simp: wf_text_Cons intro: wf_text_append)
qed (simp_all add: wf_ascii wf_write_string string_ok_def flip: ascii_simps)

lemma canonical_parts: "canonical v \<Longrightarrow> scalars_ok v \<and> safe_numbers v"
  by (induction v rule: canonical.induct) (auto simp: list_all_iff string_ok_def keys_ordered_def)

lemma occurs_middle: "occurs s (a @ s @ b)"
proof -
  have "index_of s (a @ s @ b) \<noteq> None"
  proof (induction a)
    case Nil
    have "starts_with (s @ b) s" by simp
    then show ?case by (cases "s @ b") auto
  next
    case (Cons c a)
    then show ?case by auto
  qed
  then show ?thesis by (simp add: occurs_def)
qed

lemma replacement_occurs:
  assumes "wf_text t" and "0xFFFD \<in> set t"
  shows "occurs [0xEF, 0xBF, 0xBD] (utf8 t)"
proof -
  obtain cps where cps: "list_all is_scalar cps" "t = text_of_points cps" using assms(1) by (auto simp: wf_text_def)
  have "0xFFFD \<in> set cps"
    using assms(2) cps(1) unfolding cps(2)
  proof (induction cps)
    case (Cons cp cps)
    show ?case
    proof (cases "cp < 0x10000")
      case True
      with Cons show ?thesis by (auto simp: units_of_small)
    next
      case False
      then have "0x10000 \<le> cp" "cp < 0x110000" using Cons.prems by (auto simp: is_scalar_def)
      then obtain h l where "units_of cp = [h, l]" "is_high h" "is_low l" "pair_point h l = cp" by (rule units_of_big)
      with Cons show ?thesis by (auto simp: is_high_def is_low_def)
    qed
  qed simp
  then obtain a b where "cps = a @ 0xFFFD # b" by (meson split_list)
  moreover have "utf8_point 0xFFFD = [0xEF, 0xBF, 0xBD]" by (simp add: utf8_point_def)
  moreover have "utf8 t = concat (map utf8_point cps)" using cps by (simp add: utf8_text)
  ultimately have "utf8 t = concat (map utf8_point a) @ [0xEF, 0xBF, 0xBD] @ concat (map utf8_point b)" by simp
  then show ?thesis using occurs_middle by metis
qed

lemma admitted_bytes:
  assumes "canonical v"
  shows "validate_utf8 (utf8 (write_value v)) = None" "decode_utf8 (utf8 (write_value v)) = write_value v"
    "\<not> (0xFFFD \<in> set (write_value v) \<and> \<not> occurs [0xEF, 0xBF, 0xBD] (utf8 (write_value v)))"
proof -
  note wf = wf_write [OF assms]
  show "decode_utf8 (utf8 (write_value v)) = write_value v" using wf by (rule decode_utf8_utf8)
  show "\<not> (0xFFFD \<in> set (write_value v) \<and> \<not> occurs [0xEF, 0xBF, 0xBD] (utf8 (write_value v)))"
    using replacement_occurs [OF wf] by blast
  obtain cps where cps: "list_all is_scalar cps" "write_value v = text_of_points cps" using wf by (auto simp: wf_text_def)
  obtain c t where ct: "write_value v = c # t" "c < 0x80" by (rule written_Cons)
  have "code_points (write_value v) = c # code_points t" using ct by (simp add: code_points_plain is_high_def)
  then have "utf8 (write_value v) = c # utf8 t" using ct(2) by (simp add: utf8_def is_scalar_def utf8_point_def)
  then have "take 3 (utf8 (write_value v)) \<noteq> [0xEF, 0xBB, 0xBF]" using ct(2) by (cases "take 3 (utf8 (write_value v))") auto
  then show "validate_utf8 (utf8 (write_value v)) = None"
    using cps by (simp add: validate_utf8_def utf8_text validate_encoded)
qed

lemma run_parser_written:
  assumes "canonical v" and "fits max_depth v"
  shows "run_parser (write_value v) = Some (Some v, start_pst [])"
proof -
  have s: "(start_pst (write_value v))\<lparr>p_rest := r\<rparr> = (start_pst [])\<lparr>p_rest := r\<rparr>" for r by (simp add: start_pst_def)
  have "start_pst (write_value v) = (start_pst [])\<lparr>p_rest := write_value v @ []\<rparr>" by (simp add: start_pst_def)
  then have "parse_value (write_value v) max_depth (start_pst (write_value v)) = Done v (start_pst [])"
    using value_written [OF assms, of "[]" "write_value v" "start_pst []"] by (simp add: delim_def start_pst_def)
  moreover have "skip_space (start_pst []) = start_pst []" by (simp add: skip_space_def start_pst_def)
  ultimately show ?thesis by (simp add: run_parser_def start_pst_def)
qed

lemma run_parser_sound:
  assumes "run_parser (decode_utf8 bytes) = Some (Some v, p)"
  shows "fits max_depth v \<and> shape v"
proof -
  have "sound_out (\<lambda>v. fits max_depth v \<and> shape v) (length (decode_utf8 bytes) - 1)
      (parse_value (decode_utf8 bytes) max_depth (start_pst (decode_utf8 bytes)))"
    using sound_value [of "start_pst (decode_utf8 bytes)"] wf_decode by (simp add: start_pst_def)
  with assms show ?thesis
    by (cases "parse_value (decode_utf8 bytes) max_depth (start_pst (decode_utf8 bytes))")
      (auto simp: run_parser_def Let_def)
qed

text \<open>
  C20. What the parser builds is well typed, whatever the bytes: nested at most 32 deep, all numbers
  safe integers, all strings sequences of scalar values, and all objects with distinct keys, none of
  them the one that would change the prototype.
\<close>
theorem parsed_values_are_typed:
  "case run_parser (decode_utf8 bytes) of Some (Some v, p) \<Rightarrow> fits max_depth v \<and> shape v | _ \<Rightarrow> True"
  by (auto split: option.split dest: run_parser_sound)

text \<open>
  Admission always returns: the fuel of the loops is never used up, on any bytes.
\<close>
theorem admission_returns: "parse_canonical_json lim bytes \<noteq> None"
proof -
  have "sound_out (\<lambda>v. fits max_depth v \<and> shape v) (length (decode_utf8 bytes) - 1)
      (parse_value (decode_utf8 bytes) max_depth (start_pst (decode_utf8 bytes)))"
    using sound_value [of "start_pst (decode_utf8 bytes)"] wf_decode by (simp add: start_pst_def)
  then have "run_parser (decode_utf8 bytes) \<noteq> None"
    by (cases "parse_value (decode_utf8 bytes) max_depth (start_pst (decode_utf8 bytes))")
      (simp_all add: run_parser_def Let_def)
  then show ?thesis by (auto simp: parse_canonical_json_def Let_def split: option.split)
qed

lemma reported_Nil:
  "reported doc (Some v) p = [] \<longleftrightarrow> p_syntax p = [] \<and> p_duplicates p = [] \<and> p_domain p = [] \<and> scalars_ok v"
  by (auto simp: reported_def validate_scalars_Nil)

lemma admitted_is_canonical:
  assumes "run_parser (decode_utf8 bytes) = Some (Some v, p)" and "reported (decode_utf8 bytes) (Some v) p = []"
    and "utf8 (write_value v) = bytes"
  shows "canonical v"
proof -
  note v = run_parser_sound [OF assms(1)]
  let ?v = "sort_json v"
  have c: "canonical ?v" using v assms(2) by (intro sort_json_canonical) (simp_all add: reported_Nil)
  have b: "bytes = utf8 (write_value ?v)" using v assms(3) by (simp add: write_sort)
  then have "run_parser (decode_utf8 bytes) = Some (Some ?v, start_pst [])"
    using run_parser_written [OF c] v admitted_bytes(2) [OF c] by (simp add: fits_sort)
  with assms(1) have "?v = v" by simp
  with c show ?thesis by simp
qed

text \<open>
  C19. Admission accepts exactly the canonical documents: bytes are accepted with a value iff they are
  the encoding of that value, the value is canonical and nested at most 32 deep, the size is within
  the limit and, where asked for, it is an object. So every canonical value has one accepted document,
  every accepted document one value, and the bytes returned are the bytes given.
\<close>
theorem admission_is_exact:
  "parse_canonical_json lim bytes = Some (Inr (out, v)) \<longleftrightarrow>
     out = bytes \<and> bytes = utf8 (write_value v) \<and> canonical v \<and> fits max_depth v \<and>
     length bytes \<le> li_max_bytes lim \<and> (if li_top_object lim then is_object (Some v) else True)"
proof
  assume a: "parse_canonical_json lim bytes = Some (Inr (out, v))"
  let ?t = "decode_utf8 bytes"
  note d = parse_canonical_json_def Let_def contract_fail_def
  have len: "length bytes \<le> li_max_bytes lim" using a by (simp add: d split: if_splits)
  have u: "validate_utf8 bytes = None" using a len by (cases "validate_utf8 bytes") (simp_all add: d)
  have f: "\<not> (0xFFFD \<in> set ?t \<and> \<not> occurs [0xEF, 0xBF, 0xBD] bytes)" using a len u by (simp add: d split: if_splits)
  obtain x p where r: "run_parser ?t = Some (x, p)" using a len u f by (cases "run_parser ?t") (auto simp: d)
  have n: "reported ?t x p = []" using a len u f r by (cases "reported ?t x p") (simp_all add: d)
  have top: "\<not> (li_top_object lim \<and> \<not> is_object x)" using a len u f r n by (simp add: d split: if_splits)
  obtain y where x: "x = Some y" using a len u f r n top by (cases x) (auto simp: d split: if_splits)
  obtain z where z: "encode_canonical y = Inr z" using a len u f r n top x by (cases "encode_canonical y") (auto simp: d split: if_splits)
  have "z = bytes \<and> out = z \<and> v = y" using a len u f r n top x z by (simp add: d split: if_splits)
  then have p: "run_parser ?t = Some (Some v, p)" "reported ?t (Some v) p = []"
      "\<not> (li_top_object lim \<and> \<not> is_object (Some v))" "encode_canonical v = Inr out" "out = bytes" "length bytes \<le> li_max_bytes lim"
    using r n top x z len by simp_all
  have w: "utf8 (write_value v) = bytes" using p(4,5) by (auto simp: encode_canonical_def split: if_splits)
  show "out = bytes \<and> bytes = utf8 (write_value v) \<and> canonical v \<and> fits max_depth v \<and>
     length bytes \<le> li_max_bytes lim \<and> (if li_top_object lim then is_object (Some v) else True)"
    using p w admitted_is_canonical [OF p(1,2) w] run_parser_sound [OF p(1)] by auto
next
  assume a: "out = bytes \<and> bytes = utf8 (write_value v) \<and> canonical v \<and> fits max_depth v \<and>
     length bytes \<le> li_max_bytes lim \<and> (if li_top_object lim then is_object (Some v) else True)"
  then have c: "canonical v" "fits max_depth v" by simp_all
  have r: "reported (write_value v) (Some v) (start_pst []) = []"
    using canonical_parts [OF c(1)] by (simp add: reported_Nil start_pst_def)
  have e: "encode_canonical v = Inr (utf8 (write_value v))"
    using canonical_parts [OF c(1)] by (simp add: encode_canonical_def)
  show "parse_canonical_json lim bytes = Some (Inr (out, v))"
    using a admitted_bytes [OF c(1)] run_parser_written [OF c] r e
    by (auto simp: parse_canonical_json_def Let_def split: if_splits)
qed

end
