(* ===== verification/File_Lock.thy ===== *)
theory File_Lock
  imports Prelude
begin

text \<open>
  The lock files that guard shared state between processes: \<open>acquireMemoryFileLock\<close> of
  \<open>packages/storage/src/memory-file-lock.ts\<close>, its copy in \<open>packages/storage/src/task-store.ts\<close>
  (\<open>#acquireLock\<close>), and \<open>acquireFileLock\<close> of \<open>packages/shared/src/file-lock.ts\<close>. One caller is one
  call of the function; a step of a caller goes from one wait of the code to the next, so that the
  steps of callers interleave in every order. Files have an identity of their own, as a write through
  a handle does not touch a file created later at the same path. File operations that fail for other
  reasons than a file that exists or is missing are left out.
\<close>

section \<open>State\<close>

datatype lock_kind = Memory_Lock | Task_Lock | Path_Lock

text \<open>A lock file: who wrote it, as process and token; nobody between its creation and its write.\<close>

record lock_file =
  lf_inode :: nat
  lf_owner :: "(nat \<times> nat) option"
  lf_mtime :: int

datatype phase =
    Idle
  | Trying
  | Writing nat
  | Reading
  | Aging "nat option"
  | Removing
  | Retrying
  | Holding nat
  | Releasing nat
  | Unlinking nat
  | Released
  | Failed

record caller =
  ca_pid :: nat
  ca_phase :: phase
  ca_deadline :: int
  ca_attempt :: nat
  ca_reaps :: nat

record lock_world =
  lw_file :: "lock_file option"
  lw_callers :: "nat \<Rightarrow> caller"
  lw_now :: int
  lw_dead :: "nat set"
  lw_next :: nat
  lw_removals :: nat

record lock_options =
  lo_kind :: lock_kind
  lo_timeout :: int

definition grace_ms :: int where "grace_ms = 1000"
definition reap_age_ms :: int where "reap_age_ms = 60000"
definition max_attempts :: nat where "max_attempts = 4"

definition set_caller :: "nat \<Rightarrow> caller \<Rightarrow> lock_world \<Rightarrow> lock_world" where
  "set_caller c a w = w\<lparr>lw_callers := (lw_callers w)(c := a)\<rparr>"

definition enter :: "nat \<Rightarrow> phase \<Rightarrow> lock_world \<Rightarrow> lock_world" where
  "enter c ph w = set_caller c ((lw_callers w c)\<lparr>ca_phase := ph\<rparr>) w"

section \<open>The steps of a call\<close>

text \<open>\<open>open(path, 'wx')\<close>.\<close>

definition try_create :: "lock_options \<Rightarrow> nat \<Rightarrow> lock_world \<Rightarrow> lock_world" where
  "try_create opts c w = (case lw_file w of
     None \<Rightarrow> enter c (Writing (lw_next w))
       (w\<lparr>lw_file := Some \<lparr>lf_inode = lw_next w, lf_owner = None, lf_mtime = lw_now w\<rparr>, lw_next := Suc (lw_next w)\<rparr>)
   | Some f \<Rightarrow>
       if lo_kind opts = Path_Lock \<and> ca_reaps (lw_callers w c) = 0 then enter c Retrying w
       else enter c Reading w)"

definition write_owner :: "nat \<Rightarrow> nat \<Rightarrow> lock_world \<Rightarrow> lock_world" where
  "write_owner c i w = enter c (Holding i) (case lw_file w of
     None \<Rightarrow> w
   | Some f \<Rightarrow>
       if lf_inode f = i
       then w\<lparr>lw_file := Some (f\<lparr>lf_owner := Some (ca_pid (lw_callers w c), c), lf_mtime := lw_now w\<rparr>)\<rparr> else w)"

text \<open>
  Reading the file of another caller: \<open>lockOwnerAlive\<close> and \<open>reapStaleLock\<close>. A missing file counts as
  a dead owner for the first two, and so does an empty one for the second.
\<close>

definition read_owner :: "lock_options \<Rightarrow> nat \<Rightarrow> lock_world \<Rightarrow> lock_world" where
  "read_owner opts c w = enter c (case lw_file w of
     None \<Rightarrow> if lo_kind opts = Path_Lock then Retrying else Removing
   | Some f \<Rightarrow> (case lf_owner f of
       None \<Rightarrow> (case lo_kind opts of Memory_Lock \<Rightarrow> Aging None | Task_Lock \<Rightarrow> Removing | Path_Lock \<Rightarrow> Retrying)
     | Some (p, t) \<Rightarrow>
         if p \<notin> lw_dead w then Retrying
         else if lo_kind opts = Path_Lock then Aging (Some p) else Removing)) w"

text \<open>The age of the file that is there by now, by \<open>stat\<close>.\<close>

definition check_age :: "lock_options \<Rightarrow> nat \<Rightarrow> lock_world \<Rightarrow> lock_world" where
  "check_age opts c w = enter c (case lw_file w of
     None \<Rightarrow> if lo_kind opts = Path_Lock then Retrying else Removing
   | Some f \<Rightarrow>
       if lo_kind opts = Path_Lock
       then (if lw_now w - lf_mtime f < reap_age_ms then Retrying else Removing)
       else (if lw_now w - lf_mtime f < grace_ms then Retrying else Removing)) w"

text \<open>\<open>rm(path, force)\<close> removes whatever file is there.\<close>

definition remove_stale :: "nat \<Rightarrow> lock_world \<Rightarrow> lock_world" where
  "remove_stale c w =
     set_caller c ((lw_callers w c)\<lparr>ca_phase := Trying, ca_reaps := ca_reaps (lw_callers w c) - 1\<rparr>)
       (w\<lparr>lw_file := None, lw_removals := Suc (lw_removals w)\<rparr>)"

definition retry :: "lock_options \<Rightarrow> nat \<Rightarrow> lock_world \<Rightarrow> lock_world" where
  "retry opts c w =
     (let a = lw_callers w c in
      if lo_kind opts = Path_Lock
      then (if ca_attempt a = max_attempts - 1 then enter c Failed w
            else set_caller c (a\<lparr>ca_phase := Trying, ca_attempt := Suc (ca_attempt a)\<rparr>) w)
      else if ca_deadline a \<le> lw_now w then enter c Failed w else enter c Trying w)"

text \<open>The release reads the token before it unlinks; the third lock just unlinks.\<close>

definition release_read :: "nat \<Rightarrow> nat \<Rightarrow> lock_world \<Rightarrow> lock_world" where
  "release_read c i w = enter c (case lw_file w of
     None \<Rightarrow> Released
   | Some f \<Rightarrow> (case lf_owner f of None \<Rightarrow> Failed | Some (p, t) \<Rightarrow> if t = c then Unlinking i else Released)) w"

definition caller_step :: "lock_options \<Rightarrow> nat \<Rightarrow> lock_world \<Rightarrow> lock_world" where
  "caller_step opts c w = (case ca_phase (lw_callers w c) of
     Trying \<Rightarrow> try_create opts c w
   | Writing i \<Rightarrow> write_owner c i w
   | Reading \<Rightarrow> read_owner opts c w
   | Aging p \<Rightarrow> check_age opts c w
   | Removing \<Rightarrow> remove_stale c w
   | Retrying \<Rightarrow> retry opts c w
   | Releasing i \<Rightarrow> release_read c i w
   | Unlinking i \<Rightarrow> enter c Released (w\<lparr>lw_file := None\<rparr>)
   | _ \<Rightarrow> w)"

datatype lock_event = Acquire nat nat | Step nat | Release nat | Wait int | Die nat

definition start_call :: "lock_options \<Rightarrow> nat \<Rightarrow> nat \<Rightarrow> lock_world \<Rightarrow> lock_world" where
  "start_call opts c p w =
     set_caller c \<lparr>ca_pid = p, ca_phase = Trying, ca_deadline = lw_now w + lo_timeout opts, ca_attempt = 0, ca_reaps = 2\<rparr> w"

text \<open>A caller stands for one call, as its token does.\<close>

definition lock_step :: "lock_options \<Rightarrow> lock_world \<Rightarrow> lock_event \<Rightarrow> lock_world" where
  "lock_step opts w e = (case e of
     Acquire c p \<Rightarrow> if ca_phase (lw_callers w c) = Idle \<and> p \<notin> lw_dead w then start_call opts c p w else w
   | Step c \<Rightarrow> if ca_pid (lw_callers w c) \<in> lw_dead w then w else caller_step opts c w
   | Release c \<Rightarrow> (case ca_phase (lw_callers w c) of
       Holding i \<Rightarrow>
         if ca_pid (lw_callers w c) \<in> lw_dead w then w
         else enter c (if lo_kind opts = Path_Lock then Unlinking i else Releasing i) w
     | _ \<Rightarrow> w)
   | Wait d \<Rightarrow> w\<lparr>lw_now := lw_now w + max 0 d\<rparr>
   | Die p \<Rightarrow> w\<lparr>lw_dead := insert p (lw_dead w)\<rparr>)"

definition idle_caller :: caller where
  "idle_caller = \<lparr>ca_pid = 0, ca_phase = Idle, ca_deadline = 0, ca_attempt = 0, ca_reaps = 0\<rparr>"

definition no_locks :: lock_world where
  "no_locks = \<lparr>lw_file = None, lw_callers = (\<lambda>c. idle_caller), lw_now = 0, lw_dead = {}, lw_next = 0, lw_removals = 0\<rparr>"

definition lock_run :: "lock_options \<Rightarrow> lock_event list \<Rightarrow> lock_world" where
  "lock_run opts es = foldl (lock_step opts) no_locks es"

definition holds :: "lock_world \<Rightarrow> nat \<Rightarrow> bool" where
  "holds w c \<longleftrightarrow> (case ca_phase (lw_callers w c) of Holding i \<Rightarrow> True | _ \<Rightarrow> False)"

section \<open>Exclusion\<close>

text \<open>The file a caller takes for its own.\<close>

definition owns :: "lock_world \<Rightarrow> nat \<Rightarrow> nat option" where
  "owns w c = (case ca_phase (lw_callers w c) of
     Writing i \<Rightarrow> Some i | Holding i \<Rightarrow> Some i | Releasing i \<Rightarrow> Some i | Unlinking i \<Rightarrow> Some i | _ \<Rightarrow> None)"

text \<open>As long as no file was removed as stale, whoever takes a file for its own has the one at the path.\<close>

definition exclusive :: "lock_world \<Rightarrow> bool" where
  "exclusive w \<longleftrightarrow> lw_removals w = 0 \<longrightarrow>
     (\<forall>c i. owns w c = Some i \<longrightarrow> map_option lf_inode (lw_file w) = Some i) \<and>
     (\<forall>c d i. owns w c = Some i \<longrightarrow> owns w d = Some i \<longrightarrow> c = d)"

lemma world_simps [simp]:
  "lw_file (enter c ph w) = lw_file w" "lw_removals (enter c ph w) = lw_removals w"
  "lw_file (set_caller c a w) = lw_file w" "lw_removals (set_caller c a w) = lw_removals w"
  "lw_callers (set_caller c a w) = (lw_callers w)(c := a)"
  "lw_callers (enter c ph w) = (lw_callers w)(c := (lw_callers w c)\<lparr>ca_phase := ph\<rparr>)"
  "lw_now (enter c ph w) = lw_now w" "lw_dead (enter c ph w) = lw_dead w" "lw_next (enter c ph w) = lw_next w"
  "lw_now (set_caller c a w) = lw_now w" "lw_dead (set_caller c a w) = lw_dead w" "lw_next (set_caller c a w) = lw_next w"
  by (simp_all add: enter_def set_caller_def)

lemma owns_fun: "owns w c = (case ca_phase (lw_callers w c) of
     Writing i \<Rightarrow> Some i | Holding i \<Rightarrow> Some i | Releasing i \<Rightarrow> Some i | Unlinking i \<Rightarrow> Some i | _ \<Rightarrow> None)"
  by (rule owns_def)

text \<open>A step that lets one caller go on with the file it had, or with none, keeps the invariant.\<close>

lemma exclusive_keep:
  assumes "exclusive w" and "map_option lf_inode (lw_file w') = map_option lf_inode (lw_file w)"
    and "lw_removals w' = lw_removals w" and "\<And>c. owns w' c = owns w c \<or> owns w' c = None"
  shows "exclusive w'"
proof -
  have o: "owns w' c = Some i \<Longrightarrow> owns w c = Some i" for c i using assms(4) [of c] by auto
  show ?thesis using assms(1-3) o unfolding exclusive_def by (metis o)
qed

lemma exclusive_create:
  assumes "exclusive w" and "lw_file w = None"
  shows "exclusive (try_create opts c w)"
  unfolding exclusive_def
proof (rule impI)
  assume r: "lw_removals (try_create opts c w) = 0"
  then have none: "owns w d = None" for d
    using assms unfolding exclusive_def try_create_def by (cases "owns w d") auto
  have "owns (try_create opts c w) d = (if d = c then Some (lw_next w) else None)" for d
    using none [of d] assms(2) by (simp add: try_create_def owns_fun)
  then show "(\<forall>d i. owns (try_create opts c w) d = Some i \<longrightarrow> map_option lf_inode (lw_file (try_create opts c w)) = Some i) \<and>
     (\<forall>d e i. owns (try_create opts c w) d = Some i \<longrightarrow> owns (try_create opts c w) e = Some i \<longrightarrow> d = e)"
    using assms(2) by (auto simp: try_create_def split: if_splits)
qed

lemma exclusive_unlink:
  assumes "exclusive w" and "ca_phase (lw_callers w c) = Unlinking i"
  shows "exclusive (enter c Released (w\<lparr>lw_file := None\<rparr>))"
  unfolding exclusive_def
proof (rule impI)
  let ?w = "enter c Released (w\<lparr>lw_file := None\<rparr>)"
  assume "lw_removals ?w = 0"
  then have e: "\<forall>c i. owns w c = Some i \<longrightarrow> map_option lf_inode (lw_file w) = Some i"
      "\<forall>c d i. owns w c = Some i \<longrightarrow> owns w d = Some i \<longrightarrow> c = d"
    using assms(1) by (simp_all add: exclusive_def)
  have c: "owns w c = Some i" using assms(2) by (simp add: owns_fun)
  have "owns ?w d = None" for d
  proof (cases "d = c")
    case False
    have "owns w d = None"
    proof (cases "owns w d")
      case (Some j)
      with e(1) c have "j = i" by (metis option.inject)
      with Some c e(2) False show ?thesis by blast
    qed
    with False show ?thesis by (simp add: owns_fun)
  qed (simp add: owns_fun)
  then show "(\<forall>d j. owns ?w d = Some j \<longrightarrow> map_option lf_inode (lw_file ?w) = Some j) \<and>
     (\<forall>d e j. owns ?w d = Some j \<longrightarrow> owns ?w e = Some j \<longrightarrow> d = e)" by simp
qed

lemma exclusive_caller_step: "exclusive w \<Longrightarrow> exclusive (caller_step opts c w)"
proof (cases "ca_phase (lw_callers w c)")
  case Trying
  assume e: "exclusive w"
  show ?thesis
  proof (cases "lw_file w")
    case None
    with e exclusive_create show ?thesis by (simp add: caller_step_def Trying)
  next
    case (Some f)
    show ?thesis unfolding caller_step_def Trying phase.case
      by (rule exclusive_keep [OF e]) (auto simp: try_create_def owns_fun Some)
  qed
next
  case (Writing i)
  assume e: "exclusive w"
  show ?thesis unfolding caller_step_def Writing phase.case
    by (rule exclusive_keep [OF e]) (auto simp: write_owner_def owns_fun Writing split: option.split)
next
  case Reading
  assume e: "exclusive w"
  show ?thesis unfolding caller_step_def Reading phase.case
    by (rule exclusive_keep [OF e]) (auto simp: read_owner_def owns_fun split: option.split lock_kind.split)
next
  case (Aging p)
  assume e: "exclusive w"
  show ?thesis unfolding caller_step_def Aging phase.case
    by (rule exclusive_keep [OF e]) (auto simp: check_age_def owns_fun split: option.split)
next
  case Removing
  then show ?thesis by (simp add: caller_step_def exclusive_def remove_stale_def)
next
  case Retrying
  assume e: "exclusive w"
  show ?thesis unfolding caller_step_def Retrying phase.case
    by (rule exclusive_keep [OF e]) (auto simp: retry_def owns_fun Let_def)
next
  case (Releasing i)
  assume e: "exclusive w"
  show ?thesis unfolding caller_step_def Releasing phase.case
    by (rule exclusive_keep [OF e]) (auto simp: release_read_def owns_fun Releasing split: option.split)
next
  case (Unlinking i)
  assume "exclusive w"
  then show ?thesis using exclusive_unlink Unlinking by (simp add: caller_step_def)
qed (simp_all add: caller_step_def)

lemma exclusive_step: "exclusive w \<Longrightarrow> exclusive (lock_step opts w e)"
proof (cases e)
  case (Acquire c p)
  assume "exclusive w"
  then show ?thesis by (rule exclusive_keep) (auto simp: Acquire lock_step_def start_call_def owns_fun)
next
  case (Step c)
  assume "exclusive w"
  then show ?thesis by (simp add: Step lock_step_def exclusive_caller_step)
next
  case (Release c)
  assume "exclusive w"
  then show ?thesis
    by (rule exclusive_keep) (auto simp: Release lock_step_def owns_fun split: phase.split)
next
  case (Wait d)
  assume "exclusive w"
  then show ?thesis by (rule exclusive_keep) (simp_all add: Wait lock_step_def owns_fun)
next
  case (Die p)
  assume "exclusive w"
  then show ?thesis by (rule exclusive_keep) (simp_all add: Die lock_step_def owns_fun)
qed

interpretation locks: invariant_machine "lock_step opts" exclusive for opts
  by unfold_locales (rule exclusive_step)

lemma run_exclusive: "exclusive (lock_run opts es)"
  unfolding lock_run_def
  by (rule locks.run_good) (simp add: exclusive_def no_locks_def owns_fun idle_caller_def)

lemma one_holder:
  assumes "lw_removals (lock_run opts es) = 0" and "holds (lock_run opts es) c" and "holds (lock_run opts es) d"
  shows "c = d"
proof -
  obtain i j where "owns (lock_run opts es) c = Some i" "owns (lock_run opts es) d = Some j"
    using assms(2,3) by (auto simp: holds_def owns_fun split: phase.splits)
  with assms(1) run_exclusive [of opts es] show ?thesis unfolding exclusive_def by (metis option.inject)
qed


text \<open>In runs without a crash the third lock removes no file as stale.\<close>

definition unreaped :: "lock_options \<Rightarrow> lock_world \<Rightarrow> bool" where
  "unreaped opts w \<longleftrightarrow> lo_kind opts = Path_Lock \<and> lw_dead w = {} \<longrightarrow>
     lw_removals w = 0 \<and> (\<forall>c. ca_phase (lw_callers w c) \<noteq> Removing \<and> (\<forall>p. ca_phase (lw_callers w c) \<noteq> Aging p))"

lemma unreapedI:
  assumes "unreaped opts w" and "lw_dead w \<subseteq> lw_dead w'"
    and "lo_kind opts = Path_Lock \<Longrightarrow> lw_dead w = {} \<Longrightarrow> lw_removals w' = lw_removals w"
    and "\<And>c p. lo_kind opts = Path_Lock \<Longrightarrow> lw_dead w = {} \<Longrightarrow> ca_phase (lw_callers w' c) \<in> {Removing, Aging p} \<Longrightarrow>
      ca_phase (lw_callers w' c) = ca_phase (lw_callers w c)"
  shows "unreaped opts w'"
  unfolding unreaped_def
proof (intro impI conjI allI; elim conjE)
  assume k: "lo_kind opts = Path_Lock" "lw_dead w' = {}"
  then have d: "lw_dead w = {}" using assms(2) by simp
  have u: "lw_removals w = 0" "\<And>c. ca_phase (lw_callers w c) \<noteq> Removing" "\<And>c p. ca_phase (lw_callers w c) \<noteq> Aging p"
    using assms(1) k(1) d by (simp_all add: unreaped_def)
  show "lw_removals w' = 0" using assms(3) k(1) d u(1) by simp
  show "ca_phase (lw_callers w' c) \<noteq> Removing" for c using assms(4) [of c] k(1) d u(2) by fastforce
  show "ca_phase (lw_callers w' c) \<noteq> Aging p" for c p using assms(4) [of c p] k(1) d u(3) by fastforce
qed

lemma unreaped_step: "unreaped opts w \<Longrightarrow> unreaped opts (lock_step opts w e)"
proof (cases e)
  case (Step c)
  assume u: "unreaped opts w"
  note d = caller_step_def try_create_def write_owner_def read_owner_def check_age_def retry_def release_read_def Let_def
  have "ca_phase (lw_callers w c) = Removing \<or> (\<exists>p. ca_phase (lw_callers w c) = Aging p) \<Longrightarrow>
      \<not> (lo_kind opts = Path_Lock \<and> lw_dead w = {})"
    using u unfolding unreaped_def by metis
  then have "unreaped opts (caller_step opts c w)"
    using u by (intro unreapedI [OF u])
      (auto simp: d remove_stale_def split: phase.splits option.splits lock_kind.splits if_splits)
  then show ?thesis using u by (simp add: Step lock_step_def)
next
  case (Die p)
  assume u: "unreaped opts w"
  show ?thesis by (rule unreapedI [OF u]) (auto simp: Die lock_step_def)
next
  case (Acquire c p)
  assume u: "unreaped opts w"
  show ?thesis by (rule unreapedI [OF u]) (auto simp: Acquire lock_step_def start_call_def split: if_splits)
next
  case (Release c)
  assume u: "unreaped opts w"
  show ?thesis by (rule unreapedI [OF u]) (auto simp: Release lock_step_def split: if_splits phase.splits)
next
  case (Wait d)
  assume u: "unreaped opts w"
  show ?thesis by (rule unreapedI [OF u]) (auto simp: Wait lock_step_def)
qed

interpretation unreaped_locks: invariant_machine "lock_step opts" "unreaped opts" for opts
  by unfold_locales (rule unreaped_step)

lemma caller_step_dead: "lw_dead (caller_step opts c w) = lw_dead w"
  by (auto simp: caller_step_def try_create_def write_owner_def read_owner_def check_age_def retry_def release_read_def
      remove_stale_def Let_def split: phase.split option.split)

lemma dead_only_by_die: "lw_dead (foldl (lock_step opts) w es) = lw_dead w \<union> {p. Die p \<in> set es}"
proof (induction es arbitrary: w)
  case (Cons e es)
  have "lw_dead (lock_step opts w e) = lw_dead w \<union> {p. Die p = e}"
    by (cases e) (auto simp: lock_step_def start_call_def caller_step_dead split: phase.split)
  with Cons show ?case by auto
qed simp

lemma path_lock_removals:
  assumes "lo_kind opts = Path_Lock" and "\<And>p. Die p \<notin> set es"
  shows "lw_removals (lock_run opts es) = 0"
proof -
  have "unreaped opts (lock_run opts es)"
    unfolding lock_run_def
    by (rule unreaped_locks.run_good) (simp add: unreaped_def no_locks_def idle_caller_def)
  moreover have "lw_dead (lock_run opts es) = {}"
    using dead_only_by_die [of opts no_locks es] assms(2) by (auto simp: lock_run_def no_locks_def)
  ultimately show ?thesis using assms(1) by (simp add: unreaped_def)
qed

text \<open>
  C21. The lock files exclude: however the steps of any number of calls interleave, two calls hold
  the lock at the same time only after some call has removed a lock file as stale; and in runs in
  which no process dies the lock of the shared package never does that.
\<close>
theorem lock_excludes:
  assumes "lw_removals (lock_run opts es) = 0 \<or> lo_kind opts = Path_Lock \<and> (\<forall>p. Die p \<notin> set es)"
    and "holds (lock_run opts es) c" and "holds (lock_run opts es) d"
  shows "c = d"
  using assms path_lock_removals [of opts es] one_holder [OF _ assms(2,3)] by blast

definition demo_lock :: "lock_kind \<Rightarrow> lock_options" where
  "demo_lock k = \<lparr>lo_kind = k, lo_timeout = 10000\<rparr>"

lemma lock_excludes_witness:
  "holds (lock_run (demo_lock Path_Lock) [Acquire 1 10, Step 1, Step 1, Acquire 2 20, Step 2, Step 2]) 1 \<and>
   \<not> holds (lock_run (demo_lock Path_Lock) [Acquire 1 10, Step 1, Step 1, Acquire 2 20, Step 2, Step 2]) 2"
proof
  let ?w = "lock_run (demo_lock Path_Lock) [Acquire 1 10, Step 1, Step 1, Acquire 2 20, Step 2, Step 2]"
  show h: "holds ?w 1"
    by (simp add: lock_run_def lock_step_def start_call_def no_locks_def idle_caller_def caller_step_def try_create_def
        write_owner_def read_owner_def holds_def demo_lock_def)
  show "\<not> holds ?w 2"
    using lock_excludes [of "demo_lock Path_Lock" "[Acquire 1 10, Step 1, Step 1, Acquire 2 20, Step 2, Step 2]" 1 2] h
    by (auto simp: demo_lock_def)
qed

text \<open>
  The recovery of stale locks breaks the exclusion although no process dies: a call that finds the
  file there and then gone takes its owner for dead and removes the file that a third call has created
  meanwhile. In the task store it even removes a file that was created but not yet written.
\<close>
theorem stale_recovery_admits_two_holders:
  "let es = [Acquire 1 10, Step 1, Step 1, Acquire 2 20, Step 2, Release 1, Step 1, Step 1, Step 2,
        Acquire 3 30, Step 3, Step 3, Step 2, Step 2, Step 2];
      fs = [Acquire 1 10, Step 1, Acquire 2 20, Step 2, Step 2, Step 2, Step 2, Step 2, Step 1]
    in holds (lock_run (demo_lock Memory_Lock) es) 2 \<and> holds (lock_run (demo_lock Memory_Lock) es) 3 \<and>
       holds (lock_run (demo_lock Task_Lock) es) 2 \<and> holds (lock_run (demo_lock Task_Lock) es) 3 \<and>
       holds (lock_run (demo_lock Task_Lock) fs) 1 \<and> holds (lock_run (demo_lock Task_Lock) fs) 2 \<and>
       \<not> holds (lock_run (demo_lock Memory_Lock) fs) 2"
  unfolding Let_def by code_simp

text \<open>
  A lock left behind by a crashed process does not block for good: when its owner is dead, and for
  the third lock its file at least a minute old and the call still allowed to reap, a call that runs on
  undisturbed holds the lock after at most six steps.
\<close>
theorem crashed_owner_is_replaced:
  assumes "lw_file w = Some f" and "lf_owner f = Some (p, t)" and "p \<in> lw_dead w"
    and "ca_phase (lw_callers w c) = Trying" and "ca_pid (lw_callers w c) \<notin> lw_dead w"
    and "lo_kind opts = Path_Lock \<Longrightarrow> reap_age_ms \<le> lw_now w - lf_mtime f \<and> 0 < ca_reaps (lw_callers w c)"
  shows "holds (foldl (lock_step opts) w (replicate (if lo_kind opts = Path_Lock then 6 else 5) (Step c))) c"
proof -
  note d = lock_step_def caller_step_def try_create_def write_owner_def read_owner_def check_age_def remove_stale_def holds_def
  show ?thesis
  proof (cases "lo_kind opts = Path_Lock")
    case True
    with assms(6) have age: "reap_age_ms \<le> lw_now w - lf_mtime f" "0 < ca_reaps (lw_callers w c)" by simp_all
    show ?thesis using assms(1-5) True age by (simp add: d eval_nat_numeral)
  next
    case False
    then show ?thesis using assms(1-5) by (simp add: d eval_nat_numeral)
  qed
qed

definition crashed_world :: lock_world where
  "crashed_world = \<lparr>lw_file = Some \<lparr>lf_inode = 7, lf_owner = Some (10, 1), lf_mtime = 0\<rparr>,
     lw_callers = (\<lambda>c. \<lparr>ca_pid = 20, ca_phase = Trying, ca_deadline = 0, ca_attempt = 0, ca_reaps = 2\<rparr>),
     lw_now = 60000, lw_dead = {10}, lw_next = 8, lw_removals = 0\<rparr>"

lemma crashed_owner_is_replaced_witness:
  "holds (foldl (lock_step (demo_lock Path_Lock)) crashed_world (replicate 6 (Step 2))) 2"
  using crashed_owner_is_replaced [of crashed_world "\<lparr>lf_inode = 7, lf_owner = Some (10, 1), lf_mtime = 0\<rparr>" 10 1 2 "demo_lock Path_Lock"]
  by (simp add: crashed_world_def demo_lock_def reap_age_ms_def)

end
