(* ===== verification/Task_Store.thy ===== *)
theory Task_Store
  imports Prelude
begin

text \<open>
  Scheduled tasks and their store: the checks of \<open>packages/shared/src/tasks-schema.ts\<close> on a definition
  of the right shape (without the cost limit, a floating-point number), and \<open>TaskStore\<close> of \<open>packages/storage/src/task-store.ts\<close> with the three files of
  its snapshot. Every operation runs under the lock of the store (theory \<open>File_Lock\<close>), so it is one
  step here, except that a crash may cut a save short after any of its file operations.
\<close>

section \<open>Task definitions\<close>

datatype schedule = Interval int | Daily string | Weekly "int list" string

datatype missed_policy = Skip_Missed | Run_Latest
datatype overlap_policy = Skip_Overlap | Queue_Overlap

record run_constraints =
  rc_model :: "ustr option"
  rc_token_max :: "int option"
  rc_time_max :: "int option"
  rc_tools :: "ustr list option"
  rc_timeout :: "int option"
  rc_retries :: "int option"

record task_definition =
  td_id :: string
  td_name :: ustr
  td_enabled :: bool
  td_prompt :: ustr
  td_cwd :: string
  td_schedule :: schedule
  td_timezone :: "string option"
  td_missed :: missed_policy
  td_overlap :: overlap_policy
  td_constraints :: "run_constraints option"
  td_config_hash :: "string option"
  td_created :: int

definition digit_code :: "char \<Rightarrow> nat option" where
  "digit_code c = (let n = of_char c in if 48 \<le> n \<and> n \<le> (57 :: nat) then Some (n - 48) else None)"

text \<open>\<open>parseHhmm\<close>, whose pattern is also the one of the schema.\<close>

definition parse_hhmm :: "string \<Rightarrow> (int \<times> int) result" where
  "parse_hhmm s = (case s of
     [a, b, sep, c, d] \<Rightarrow> (case (digit_code a, digit_code b, digit_code c, digit_code d) of
       (Some h1, Some h2, Some m1, Some m2) \<Rightarrow>
         if sep = CHR '':'' \<and> (h1 < 2 \<or> h1 = 2 \<and> h2 < 4) \<and> m1 < 6
         then Inr (int (h1 * 10 + h2), int (m1 * 10 + m2)) else throw ''RangeError'' s
     | _ \<Rightarrow> throw ''RangeError'' s)
   | _ \<Rightarrow> throw ''RangeError'' s)"

definition schedule_ok :: "schedule \<Rightarrow> bool" where
  "schedule_ok sch = (case sch of
     Interval ms \<Rightarrow> 60000 \<le> ms
   | Daily at \<Rightarrow> is_ok (parse_hhmm at)
   | Weekly days at \<Rightarrow> is_ok (parse_hhmm at) \<and> days \<noteq> [] \<and> length days \<le> 7 \<and> list_all (\<lambda>d. 0 \<le> d \<and> d \<le> 6) days)"

definition id_start :: "char \<Rightarrow> bool" where
  "id_start c \<longleftrightarrow> (let n = (of_char c :: nat) in 97 \<le> n \<and> n \<le> 122 \<or> 48 \<le> n \<and> n \<le> 57)"

definition task_id_ok :: "string \<Rightarrow> bool" where
  "task_id_ok s = (case s of [] \<Rightarrow> False
     | c # cs \<Rightarrow> id_start c \<and> length cs \<le> 63 \<and> list_all (\<lambda>x. id_start x \<or> x = CHR ''_'' \<or> x = CHR ''-'') cs)"

definition absolute_path :: "string \<Rightarrow> bool" where
  "absolute_path s = (case s of
     [] \<Rightarrow> False
   | c # cs \<Rightarrow> c = CHR ''/'' \<or> (case cs of
       x # y # r \<Rightarrow> (let n = (of_char c :: nat) in 97 \<le> n \<and> n \<le> 122 \<or> 65 \<le> n \<and> n \<le> 90) \<and>
         x = CHR '':'' \<and> (y = CHR ''/'' \<or> y = CHR 0x5C)
     | _ \<Rightarrow> False))"

definition at_least :: "int \<Rightarrow> int option \<Rightarrow> bool" where
  "at_least n x \<longleftrightarrow> (case x of None \<Rightarrow> True | Some v \<Rightarrow> n \<le> v)"

definition constraints_ok :: "run_constraints option \<Rightarrow> bool" where
  "constraints_ok c = (case c of None \<Rightarrow> True | Some rc \<Rightarrow>
     rc_model rc \<noteq> Some [] \<and> at_least 1 (rc_token_max rc) \<and> at_least 1 (rc_time_max rc) \<and>
     (case rc_tools rc of None \<Rightarrow> True | Some ts \<Rightarrow> list_all (\<lambda>t. t \<noteq> []) ts) \<and>
     at_least 1000 (rc_timeout rc) \<and> at_least 0 (rc_retries rc) \<and>
     (case rc_retries rc of None \<Rightarrow> True | Some n \<Rightarrow> n \<le> 10))"

text \<open>\<open>zone_ok\<close> is whether the runtime knows a time zone.\<close>

definition validate_task :: "(string \<Rightarrow> bool) \<Rightarrow> task_definition \<Rightarrow> bool" where
  "validate_task zone_ok d \<longleftrightarrow> task_id_ok (td_id d) \<and> 1 \<le> length (td_name d) \<and> length (td_name d) \<le> 120 \<and>
     1 \<le> length (td_prompt d) \<and> length (td_prompt d) \<le> 32 * 1024 \<and> absolute_path (td_cwd d) \<and>
     schedule_ok (td_schedule d) \<and>
     (case td_timezone d of None \<Rightarrow> True | Some z \<Rightarrow> z \<noteq> [] \<and> zone_ok z) \<and> constraints_ok (td_constraints d) \<and>
     (case td_config_hash d of None \<Rightarrow> True | Some h \<Rightarrow> 8 \<le> length h) \<and> 0 < td_created d"

section \<open>Snapshots\<close>

datatype run_status = Missed | Skipped | Running | Completed | Run_Failed

record run_record =
  rn_id :: string
  rn_task :: string
  rn_status :: run_status
  rn_scheduled :: int
  rn_started :: "int option"
  rn_finished :: "int option"
  rn_session :: "string option"
  rn_exit :: "int option"
  rn_error :: "(string \<times> string) option"

record run_patch =
  pt_status :: "run_status option"
  pt_started :: "int option"
  pt_finished :: "int option"
  pt_session :: "string option"
  pt_exit :: "int option"
  pt_error :: "(string \<times> string) option"

text \<open>A cursor that is not a number is written as \<open>null\<close>, here \<open>None\<close>.\<close>

record snapshot =
  sn_tasks :: "task_definition list"
  sn_runs :: "run_record list"
  sn_cursors :: "(string, int option) jsmap"

definition empty_snapshot :: snapshot where
  "empty_snapshot = \<lparr>sn_tasks = [], sn_runs = [], sn_cursors = []\<rparr>"

definition merge_run :: "run_record \<Rightarrow> run_patch \<Rightarrow> run_record" where
  "merge_run r p = r\<lparr>rn_status := given (pt_status p) (rn_status r),
     rn_started := (if pt_started p = None then rn_started r else pt_started p),
     rn_finished := (if pt_finished p = None then rn_finished r else pt_finished p),
     rn_session := (if pt_session p = None then rn_session r else pt_session p),
     rn_exit := (if pt_exit p = None then rn_exit r else pt_exit p),
     rn_error := (if pt_error p = None then rn_error r else pt_error p)\<rparr>"

text \<open>The names every object inherits; looked up in a plain object they are functions or objects.\<close>

definition inherited_keys :: "string list" where
  "inherited_keys = [''constructor'', ''hasOwnProperty'', ''isPrototypeOf'', ''propertyIsEnumerable'', ''toLocaleString'',
     ''toString'', ''valueOf'', ''__proto__'', ''__defineGetter__'', ''__defineSetter__'', ''__lookupGetter__'', ''__lookupSetter__'']"

datatype cursor = Absent | At int | Not_A_Number

definition cursor_of :: "(string, int option) jsmap \<Rightarrow> string \<Rightarrow> cursor" where
  "cursor_of cs i = (case map_get cs i of
     Some (Some n) \<Rightarrow> At n
   | Some None \<Rightarrow> Not_A_Number
   | None \<Rightarrow> if i \<in> set inherited_keys then Not_A_Number else Absent)"

text \<open>\<open>slice(-n)\<close>, which for zero is the whole list.\<close>

definition slice_last :: "nat \<Rightarrow> 'a list \<Rightarrow> 'a list" where
  "slice_last n xs = (if n = 0 then xs else drop (length xs - n) xs)"

definition upsert :: "task_definition \<Rightarrow> snapshot \<Rightarrow> snapshot" where
  "upsert d s = s\<lparr>sn_tasks :=
     (if \<exists>e \<in> set (sn_tasks s). td_id e = td_id d
      then map (\<lambda>e. if td_id e = td_id d then d else e) (sn_tasks s) else sn_tasks s @ [d])\<rparr>"

definition remove_task :: "string \<Rightarrow> snapshot \<Rightarrow> snapshot option" where
  "remove_task i s =
     (if \<not> (\<exists>e \<in> set (sn_tasks s). td_id e = i) then None
      else Some (s\<lparr>sn_tasks := filter (\<lambda>e. td_id e \<noteq> i) (sn_tasks s), sn_cursors := map_delete i (sn_cursors s)\<rparr>))"

definition next_cursor :: "cursor \<Rightarrow> int \<Rightarrow> int option" where
  "next_cursor c at = (case c of Absent \<Rightarrow> Some (max 0 at) | At n \<Rightarrow> Some (max n at) | Not_A_Number \<Rightarrow> None)"

definition record_run :: "nat \<Rightarrow> run_record \<Rightarrow> snapshot \<Rightarrow> snapshot" where
  "record_run retention r s = s\<lparr>sn_runs := slice_last retention (sn_runs s @ [r]),
     sn_cursors := map_set (rn_task r) (next_cursor (cursor_of (sn_cursors s) (rn_task r)) (rn_scheduled r)) (sn_cursors s)\<rparr>"

definition update_run :: "string \<Rightarrow> run_patch \<Rightarrow> snapshot \<Rightarrow> (run_record \<times> snapshot) option" where
  "update_run i p s =
     (let runs = map (\<lambda>r. if rn_id r = i then merge_run r p else r) (sn_runs s)
      in case filter (\<lambda>r. rn_id r = i) runs of
        [] \<Rightarrow> None | r # rs \<Rightarrow> Some (r, s\<lparr>sn_runs := runs\<rparr>))"

definition recent_runs :: "string option \<Rightarrow> nat option \<Rightarrow> snapshot \<Rightarrow> run_record list" where
  "recent_runs task limit s =
     take (given limit 50) (rev (case truthy task of None \<Rightarrow> sn_runs s | Some t \<Rightarrow> filter (\<lambda>r. rn_task r = t) (sn_runs s)))"

section \<open>Files\<close>

datatype file_content = Torn | Written snapshot

record disk =
  dk_main :: "file_content option"
  dk_bak :: "file_content option"
  dk_tmp :: "file_content option"

definition parse_snapshot :: "(string \<Rightarrow> bool) \<Rightarrow> file_content \<Rightarrow> snapshot option" where
  "parse_snapshot zone_ok f = (case f of
     Torn \<Rightarrow> None
   | Written s \<Rightarrow>
       if list_all (validate_task zone_ok) (sn_tasks s) \<and> list_all (\<lambda>(k, c). c \<noteq> None) (sn_cursors s) then Some s else None)"

definition read_file :: "(string \<Rightarrow> bool) \<Rightarrow> file_content option \<Rightarrow> snapshot option" where
  "read_file zone_ok f = (case f of None \<Rightarrow> None | Some c \<Rightarrow> parse_snapshot zone_ok c)"

definition load_unlocked :: "(string \<Rightarrow> bool) \<Rightarrow> disk \<Rightarrow> snapshot result" where
  "load_unlocked zone_ok d = (case read_file zone_ok (dk_main d) of
     Some s \<Rightarrow> Inr s
   | None \<Rightarrow> (case read_file zone_ok (dk_bak d) of
       Some s \<Rightarrow> Inr s
     | None \<Rightarrow>
         if dk_main d = None \<and> dk_bak d = None then Inr empty_snapshot
         else throw ''task_store_corrupt'' ''Task store snapshot and recovery backup are unreadable''))"

text \<open>The file operations of \<open>#saveUnlocked\<close>, in order.\<close>

definition save_steps :: "snapshot \<Rightarrow> (disk \<Rightarrow> disk) list" where
  "save_steps s =
     [\<lambda>d. d\<lparr>dk_tmp := Some Torn\<rparr>,
      \<lambda>d. d\<lparr>dk_tmp := Some (Written s)\<rparr>,
      \<lambda>d. d\<lparr>dk_bak := None\<rparr>,
      \<lambda>d. if dk_main d = None then d else d\<lparr>dk_bak := dk_main d, dk_main := None\<rparr>,
      \<lambda>d. d\<lparr>dk_main := dk_tmp d, dk_tmp := None\<rparr>]"

definition run_steps :: "(disk \<Rightarrow> disk) list \<Rightarrow> disk \<Rightarrow> disk" where
  "run_steps fs d = foldl (\<lambda>d f. f d) d fs"

definition save_unlocked :: "snapshot \<Rightarrow> disk \<Rightarrow> disk" where
  "save_unlocked s d = run_steps (save_steps s) d"

text \<open>A crash after \<open>k\<close> of them.\<close>

definition crashed_save :: "nat \<Rightarrow> snapshot \<Rightarrow> disk \<Rightarrow> disk" where
  "crashed_save k s d = run_steps (take k (save_steps s)) d"

section \<open>Operations of the store\<close>

record task_store =
  ts_zone_ok :: "string \<Rightarrow> bool"
  ts_retention :: nat

definition modify :: "task_store \<Rightarrow> (snapshot \<Rightarrow> ('a \<times> snapshot) option) \<Rightarrow> disk \<Rightarrow> 'a option result \<times> disk" where
  "modify st f d = (case load_unlocked (ts_zone_ok st) d of
     Inl e \<Rightarrow> (Inl e, d)
   | Inr s \<Rightarrow> (case f s of None \<Rightarrow> (Inr None, d) | Some (a, s') \<Rightarrow> (Inr (Some a), save_unlocked s' d)))"

definition list_tasks :: "task_store \<Rightarrow> disk \<Rightarrow> task_definition list result" where
  "list_tasks st d = bind_result (load_unlocked (ts_zone_ok st) d) (\<lambda>s. Inr (sn_tasks s))"

definition get_task :: "task_store \<Rightarrow> string \<Rightarrow> disk \<Rightarrow> task_definition option result" where
  "get_task st i d = bind_result (load_unlocked (ts_zone_ok st) d)
     (\<lambda>s. Inr (case filter (\<lambda>e. td_id e = i) (sn_tasks s) of [] \<Rightarrow> None | e # es \<Rightarrow> Some e))"

definition store_upsert :: "task_store \<Rightarrow> task_definition \<Rightarrow> disk \<Rightarrow> unit option result \<times> disk" where
  "store_upsert st t d =
     (if \<not> validate_task (ts_zone_ok st) t
      then (throw ''task_definition_invalid'' ''Task definition failed validation'', d)
      else modify st (\<lambda>s. Some ((), upsert t s)) d)"

definition store_remove :: "task_store \<Rightarrow> string \<Rightarrow> disk \<Rightarrow> unit option result \<times> disk" where
  "store_remove st i d = modify st (\<lambda>s. map_option (Pair ()) (remove_task i s)) d"

definition store_record :: "task_store \<Rightarrow> run_record \<Rightarrow> disk \<Rightarrow> unit option result \<times> disk" where
  "store_record st r d = modify st (\<lambda>s. Some ((), record_run (ts_retention st) r s)) d"

definition store_update :: "task_store \<Rightarrow> string \<Rightarrow> run_patch \<Rightarrow> disk \<Rightarrow> run_record option result \<times> disk" where
  "store_update st i p d = modify st (update_run i p) d"

datatype store_op = Upsert_Task task_definition | Remove_Task string | Record_Run run_record | Update_Run string run_patch

text \<open>What an operation makes of the snapshot.\<close>

definition effect :: "task_store \<Rightarrow> store_op \<Rightarrow> snapshot \<Rightarrow> snapshot" where
  "effect st p s = (case p of
     Upsert_Task t \<Rightarrow> if validate_task (ts_zone_ok st) t then upsert t s else s
   | Remove_Task i \<Rightarrow> given (remove_task i s) s
   | Record_Run r \<Rightarrow> record_run (ts_retention st) r s
   | Update_Run i x \<Rightarrow> (case update_run i x s of None \<Rightarrow> s | Some (r, s') \<Rightarrow> s'))"

definition store_apply :: "task_store \<Rightarrow> disk \<Rightarrow> store_op \<Rightarrow> disk" where
  "store_apply st d p = (case p of
     Upsert_Task t \<Rightarrow> snd (store_upsert st t d)
   | Remove_Task i \<Rightarrow> snd (store_remove st i d)
   | Record_Run r \<Rightarrow> snd (store_record st r d)
   | Update_Run i x \<Rightarrow> snd (store_update st i x d))"

definition no_files :: disk where
  "no_files = \<lparr>dk_main = None, dk_bak = None, dk_tmp = None\<rparr>"

end
