(* ===== verification/Task_Store_Claims.thy ===== *)
theory Task_Store_Claims
  imports Task_Store
begin

text \<open>
  What the task store guarantees: its files hold the snapshot that its operations describe, a crash
  during a save loses at most that save, the cursors of the scheduler outlive the journal. And two ways
  to lose the store: a second crash before the first one is repaired, and a task named as an inherited
  property.
\<close>

section \<open>Saving\<close>

lemma read_file_Some [simp]: "read_file z (Some c) = parse_snapshot z c" "read_file z None = None"
  by (simp_all add: read_file_def)

lemma save_main [simp]: "dk_main (save_unlocked s d) = Some (Written s)"
  by (simp add: save_unlocked_def save_steps_def run_steps_def)

lemma load_saved: "parse_snapshot z (Written s) = Some s \<Longrightarrow> load_unlocked z (save_unlocked s d) = Inr s"
  by (simp add: load_unlocked_def)


definition demo_task :: task_definition where
  "demo_task = \<lparr>td_id = ''nightly'', td_name = [78], td_enabled = True, td_prompt = [71, 111], td_cwd = ''/work'',
     td_schedule = Interval 60000, td_timezone = None, td_missed = Skip_Missed, td_overlap = Skip_Overlap,
     td_constraints = None, td_config_hash = None, td_created = 1000\<rparr>"

definition demo_snapshot :: snapshot where
  "demo_snapshot = \<lparr>sn_tasks = [demo_task], sn_runs = [], sn_cursors = [(''nightly'', Some 61000)]\<rparr>"

definition demo_disk :: disk where
  "demo_disk = \<lparr>dk_main = Some (Written demo_snapshot), dk_bak = None, dk_tmp = None\<rparr>"

lemma demo_task_ok: "validate_task z demo_task"
  by (simp add: validate_task_def demo_task_def task_id_ok_def id_start_def absolute_path_def schedule_ok_def constraints_ok_def)

lemma demo_snapshot_ok: "parse_snapshot z (Written demo_snapshot) = Some demo_snapshot"
  using demo_task_ok by (simp add: parse_snapshot_def demo_snapshot_def)


text \<open>
  The backup does not survive a second crash: when one save is cut between its two renames, and the
  next one after it has removed the backup, the store loads as empty, without an error.
\<close>
theorem second_crash_loses_everything:
  "load_unlocked z (crashed_save 3 t (crashed_save 4 s d)) =
     (if dk_main d = None then load_unlocked z (d\<lparr>dk_bak := None\<rparr>) else Inr empty_snapshot)"
  by (simp add: crashed_save_def save_steps_def run_steps_def load_unlocked_def eval_nat_numeral)

section \<open>Operations\<close>

definition plain_op :: "store_op \<Rightarrow> bool" where
  "plain_op p = (case p of Record_Run r \<Rightarrow> rn_task r \<notin> set inherited_keys | _ \<Rightarrow> True)"

definition sound_snapshot :: "(string \<Rightarrow> bool) \<Rightarrow> snapshot \<Rightarrow> bool" where
  "sound_snapshot z s \<longleftrightarrow> list_all (validate_task z) (sn_tasks s) \<and> list_all (\<lambda>(k, c). c \<noteq> None) (sn_cursors s) \<and>
     map_wf (sn_cursors s)"

lemma sound_parse: "sound_snapshot z s \<Longrightarrow> parse_snapshot z (Written s) = Some s"
  by (simp add: sound_snapshot_def parse_snapshot_def)

lemma cursor_known:
  assumes "list_all (\<lambda>(k, c). c \<noteq> None) cs" and "i \<notin> set inherited_keys"
  shows "cursor_of cs i = (case map_get cs i of Some (Some n) \<Rightarrow> At n | _ \<Rightarrow> Absent)"
proof -
  have "map_get cs i \<noteq> Some None"
    using assms(1) by (auto simp: list_all_iff dest: map_of_SomeD)
  with assms(2) show ?thesis by (auto simp: cursor_of_def split: option.split)
qed

lemma all_known_set: "list_all (\<lambda>(k, c). c \<noteq> None) cs \<Longrightarrow> list_all (\<lambda>(k, c). c \<noteq> None) (map_set i (Some v) cs)"
  by (auto simp: list_all_iff dest: in_map_set)

lemma sound_effect:
  assumes "sound_snapshot (ts_zone_ok st) s" and "plain_op p"
  shows "sound_snapshot (ts_zone_ok st) (effect st p s)"
proof (cases p)
  case (Upsert_Task t)
  with assms show ?thesis by (auto simp: effect_def upsert_def sound_snapshot_def list_all_iff)
next
  case (Remove_Task i)
  with assms show ?thesis
    by (auto simp: effect_def remove_task_def sound_snapshot_def list_all_iff dest: in_map_delete)
next
  case (Record_Run r)
  then have n: "rn_task r \<notin> set inherited_keys" using assms(2) by (simp add: plain_op_def)
  have "cursor_of (sn_cursors s) (rn_task r) \<noteq> Not_A_Number"
    using cursor_known [OF _ n] assms(1) by (auto simp: sound_snapshot_def split: option.split)
  then obtain v where v: "next_cursor (cursor_of (sn_cursors s) (rn_task r)) (rn_scheduled r) = Some v"
    by (cases "cursor_of (sn_cursors s) (rn_task r)") (auto simp: next_cursor_def)
  have "list_all (\<lambda>(k, c). c \<noteq> None) (map_set (rn_task r) (Some v) (sn_cursors s))"
    using assms(1) by (intro all_known_set) (simp add: sound_snapshot_def)
  with assms(1) Record_Run v show ?thesis
    by (simp add: effect_def record_run_def sound_snapshot_def)
next
  case (Update_Run i x)
  with assms show ?thesis
    by (auto simp: effect_def update_run_def Let_def sound_snapshot_def split: list.splits option.splits)
qed

lemma apply_loads:
  assumes "load_unlocked (ts_zone_ok st) d = Inr s" and "sound_snapshot (ts_zone_ok st) s" and "plain_op p"
  shows "load_unlocked (ts_zone_ok st) (store_apply st d p) = Inr (effect st p s)"
proof -
  have saved: "load_unlocked (ts_zone_ok st) (save_unlocked (effect st p s) d) = Inr (effect st p s)"
    using sound_effect [OF assms(2,3)] by (intro load_saved sound_parse)
  show ?thesis
  proof (cases p)
    case (Upsert_Task t)
    with saved assms(1) show ?thesis by (auto simp: store_apply_def store_upsert_def modify_def effect_def)
  next
    case (Remove_Task i)
    with saved assms(1) show ?thesis
      by (auto simp: store_apply_def store_remove_def modify_def effect_def split: option.splits)
  next
    case (Record_Run r)
    with saved assms(1) show ?thesis by (simp add: store_apply_def store_record_def modify_def effect_def)
  next
    case (Update_Run i x)
    with saved assms(1) show ?thesis
      by (auto simp: store_apply_def store_update_def modify_def effect_def split: option.splits)
  qed
qed

lemma ops_load:
  assumes "list_all plain_op ps" and "load_unlocked (ts_zone_ok st) d = Inr s" and "sound_snapshot (ts_zone_ok st) s"
  shows "load_unlocked (ts_zone_ok st) (foldl (store_apply st) d ps) = Inr (foldl (\<lambda>s p. effect st p s) s ps)"
  using assms
proof (induction ps arbitrary: d s)
  case (Cons p ps)
  then show ?case using apply_loads [of st d s p] sound_effect [of st s p] by simp
qed simp

lemma empty_sound: "sound_snapshot z empty_snapshot"
  by (simp add: sound_snapshot_def empty_snapshot_def)

text \<open>
  The files implement the snapshot: after any operations on a new store, including refused ones, it
  loads exactly the snapshot that their effects describe, if no run is recorded under the name of an
  inherited property.
\<close>
theorem store_implements_snapshot:
  assumes "list_all plain_op ps"
  shows "load_unlocked (ts_zone_ok st) (foldl (store_apply st) no_files ps) = Inr (foldl (\<lambda>s p. effect st p s) empty_snapshot ps)"
  using assms by (rule ops_load) (simp_all add: load_unlocked_def no_files_def empty_sound)

definition demo_store :: task_store where
  "demo_store = \<lparr>ts_zone_ok = (\<lambda>z. True), ts_retention = 2\<rparr>"

definition demo_run :: "string \<Rightarrow> int \<Rightarrow> run_record" where
  "demo_run t at = \<lparr>rn_id = ''r'', rn_task = t, rn_status = Missed, rn_scheduled = at, rn_started = None,
     rn_finished = None, rn_session = None, rn_exit = None, rn_error = None\<rparr>"

lemma store_implements_snapshot_witness:
  "load_unlocked (\<lambda>z. True) (foldl (store_apply demo_store) no_files
     [Upsert_Task demo_task, Record_Run (demo_run ''nightly'' 61000)]) =
   Inr \<lparr>sn_tasks = [demo_task], sn_runs = [demo_run ''nightly'' 61000], sn_cursors = [(''nightly'', Some 61000)]\<rparr>"
  using store_implements_snapshot [of "[Upsert_Task demo_task, Record_Run (demo_run ''nightly'' 61000)]" demo_store] demo_task_ok
  by (simp add: plain_op_def demo_run_def inherited_keys_def demo_store_def effect_def upsert_def empty_snapshot_def
      record_run_def slice_last_def next_cursor_def cursor_of_def)

section \<open>Cursors\<close>

fun scheduled_for :: "string \<Rightarrow> store_op list \<Rightarrow> int list" where
  "scheduled_for t [] = []"
| "scheduled_for t (Record_Run r # ps) = (if rn_task r = t then rn_scheduled r # scheduled_for t ps else scheduled_for t ps)"
| "scheduled_for t (p # ps) = scheduled_for t ps"

definition cursor_value :: "cursor \<Rightarrow> int list \<Rightarrow> cursor" where
  "cursor_value c xs = (if xs = [] then c else At (foldl max (case c of At n \<Rightarrow> n | _ \<Rightarrow> 0) xs))"

lemma map_set_in: "(i, v) \<in> set (map_set i v cs)"
  by (induction cs) auto

lemma cursor_of_set:
  "cursor_of (map_set i v cs) t = (if t = i then (case v of Some n \<Rightarrow> At n | None \<Rightarrow> Not_A_Number) else cursor_of cs t)"
  by (simp add: cursor_of_def map_get_set)

lemma cursor_step:
  assumes "sound_snapshot (ts_zone_ok st) s" and "t \<notin> set inherited_keys" and "p \<noteq> Remove_Task t" and "plain_op p"
  shows "cursor_of (sn_cursors (effect st p s)) t = cursor_value (cursor_of (sn_cursors s) t) (scheduled_for t [p])"
proof (cases p)
  case (Remove_Task i)
  with assms have "map_get (map_delete i (sn_cursors s)) t = map_get (sn_cursors s) t"
    by (simp add: map_get_delete sound_snapshot_def)
  with Remove_Task show ?thesis
    by (simp add: effect_def remove_task_def cursor_value_def cursor_of_def)
next
  case (Record_Run r)
  have k: "cursor_of (sn_cursors s) t \<noteq> Not_A_Number"
    using cursor_known [OF _ assms(2)] assms(1) by (auto simp: sound_snapshot_def split: option.split)
  with Record_Run assms(2) show ?thesis
    by (cases "cursor_of (sn_cursors s) t")
      (auto simp: effect_def record_run_def cursor_value_def cursor_of_set next_cursor_def)
next
  case (Update_Run i x)
  then show ?thesis by (auto simp: effect_def update_run_def cursor_value_def Let_def split: list.split option.split)
qed (simp add: effect_def upsert_def cursor_value_def)

lemma cursor_value_append: "cursor_value (cursor_value c xs) ys = cursor_value c (xs @ ys)"
  by (simp add: cursor_value_def)

lemma scheduled_append: "scheduled_for t [p] @ scheduled_for t ps = scheduled_for t (p # ps)"
  by (cases p) auto

lemma cursor_ops:
  assumes "list_all plain_op ps" and "sound_snapshot (ts_zone_ok st) s" and "t \<notin> set inherited_keys" and "Remove_Task t \<notin> set ps"
  shows "cursor_of (sn_cursors (foldl (\<lambda>s p. effect st p s) s ps)) t = cursor_value (cursor_of (sn_cursors s) t) (scheduled_for t ps)"
  using assms
proof (induction ps arbitrary: s)
  case (Cons p ps)
  have "cursor_of (sn_cursors (foldl (\<lambda>s p. effect st p s) (effect st p s) ps)) t =
      cursor_value (cursor_of (sn_cursors (effect st p s)) t) (scheduled_for t ps)"
    using Cons.prems sound_effect [of st s p] by (intro Cons.IH) auto
  with cursor_step [of st s t p] Cons.prems show ?case by (auto simp: cursor_value_append scheduled_append)
qed (simp add: cursor_value_def)

lemma runs_bounded:
  "0 < ts_retention st \<Longrightarrow> length (sn_runs s) \<le> ts_retention st \<Longrightarrow> length (sn_runs (effect st p s)) \<le> ts_retention st"
  by (cases p)
    (auto simp: effect_def upsert_def remove_task_def record_run_def slice_last_def update_run_def Let_def
      split: list.split option.split)

text \<open>
  The scheduler's cursors outlive the journal: the journal keeps at most as many runs as its
  retention allows, and the cursor of a task is the latest time any of its runs was scheduled for,
  also when those runs have left the journal.
\<close>
theorem cursors_outlive_journal:
  assumes "list_all plain_op ps" and "t \<notin> set inherited_keys" and "Remove_Task t \<notin> set ps" and "0 < ts_retention st"
  shows "let s = foldl (\<lambda>s p. effect st p s) empty_snapshot ps
    in length (sn_runs s) \<le> ts_retention st \<and>
       cursor_of (sn_cursors s) t =
         (if scheduled_for t ps = [] then Absent else At (foldl max 0 (scheduled_for t ps)))"
proof -
  have "length (sn_runs (foldl (\<lambda>s p. effect st p s) s ps)) \<le> ts_retention st"
    if "length (sn_runs s) \<le> ts_retention st" for s
    using that assms(4) by (induction ps arbitrary: s) (simp_all add: runs_bounded)
  moreover have "cursor_of (sn_cursors empty_snapshot) t = Absent" using assms(2) by (simp add: cursor_of_def empty_snapshot_def)
  ultimately show ?thesis
    using cursor_ops [OF assms(1) empty_sound assms(2,3), of st] by (simp add: Let_def cursor_value_def empty_snapshot_def)
qed

lemma cursors_outlive_journal_witness:
  "let s = foldl (\<lambda>s p. effect demo_store p s) empty_snapshot (map (\<lambda>at. Record_Run (demo_run ''nightly'' at)) [300, 100, 200])
   in length (sn_runs s) \<le> 2 \<and> cursor_of (sn_cursors s) ''nightly'' = At 300"
  using cursors_outlive_journal [of "map (\<lambda>at. Record_Run (demo_run ''nightly'' at)) [300, 100, 200]" "''nightly''" demo_store]
  by (simp add: plain_op_def demo_run_def inherited_keys_def demo_store_def Let_def)

text \<open>
  C26. A task called \<open>constructor\<close>, which is a valid id, destroys the store: its cursor is read from the
  object's prototype, so recording a run writes a cursor that is no number. After the second such record
  neither the main file nor the backup can be read, and every operation fails from then on.
\<close>
theorem inherited_name_destroys_store:
  assumes "parse_snapshot (ts_zone_ok st) (Written s) = Some s" and "dk_main d = Some (Written s)"
    and "map_get (sn_cursors s) ''constructor'' = None" and "rn_task r = ''constructor''" and "rn_task r' = ''constructor''"
  shows "let d' = store_apply st (store_apply st d (Record_Run r)) (Record_Run r')
    in task_id_ok ''constructor'' \<and> (\<forall>p. is_ok (load_unlocked (ts_zone_ok st) (store_apply st d' p)) = False)"
proof -
  note s = assms(1)
  have inh: "''constructor'' \<in> set inherited_keys" by (simp add: inherited_keys_def)
  define s1 where "s1 = record_run (ts_retention st) r s"
  define s2 where "s2 = record_run (ts_retention st) r' s"
  have bad: "parse_snapshot (ts_zone_ok st) (Written s1) = None" "parse_snapshot (ts_zone_ok st) (Written s2) = None"
    using assms(3-5) inh map_set_in [of "''constructor''" None "sn_cursors s"]
    by (auto simp: s1_def s2_def parse_snapshot_def record_run_def cursor_of_def next_cursor_def list_all_iff
        intro!: bexI [where x = "(''constructor'', None)"])
  have d1: "store_apply st d (Record_Run r) = d\<lparr>dk_main := Some (Written s1), dk_bak := Some (Written s), dk_tmp := None\<rparr>"
    using assms(1,2) by (simp add: store_apply_def store_record_def modify_def load_unlocked_def s1_def save_unlocked_def save_steps_def run_steps_def)
  have l1: "load_unlocked (ts_zone_ok st) (d\<lparr>dk_main := Some (Written s1), dk_bak := Some (Written s), dk_tmp := None\<rparr>) = Inr s"
    using bad s by (simp add: load_unlocked_def)
  let ?d2 = "d\<lparr>dk_main := Some (Written s2), dk_bak := Some (Written s1), dk_tmp := None\<rparr>"
  have d2: "store_apply st (store_apply st d (Record_Run r)) (Record_Run r') = ?d2"
    using l1 unfolding d1
    by (simp add: store_apply_def store_record_def modify_def s2_def save_unlocked_def save_steps_def run_steps_def)
  have l2: "load_unlocked (ts_zone_ok st) ?d2 = throw ''task_store_corrupt'' ''Task store snapshot and recovery backup are unreadable''"
    using bad by (simp add: load_unlocked_def)
  have "store_apply st ?d2 p = ?d2" for p
    using l2 by (cases p) (simp_all add: store_apply_def store_upsert_def store_remove_def store_record_def store_update_def modify_def)
  then show ?thesis using l2 unfolding d2 Let_def by (simp add: task_id_ok_def id_start_def)
qed

lemma inherited_name_destroys_store_witness:
  "\<not> is_ok (load_unlocked (\<lambda>z. True) (store_apply demo_store (store_apply demo_store (store_apply demo_store demo_disk
     (Record_Run (demo_run ''constructor'' 1))) (Record_Run (demo_run ''constructor'' 2))) (Upsert_Task demo_task)))"
  using inherited_name_destroys_store [of demo_store demo_snapshot demo_disk "demo_run ''constructor'' 1" "demo_run ''constructor'' 2"]
    demo_snapshot_ok [of "\<lambda>z. True"]
  by (simp add: demo_store_def demo_disk_def load_unlocked_def demo_run_def Let_def demo_snapshot_def)

end
