(* ===== verification/Js_Date.thy ===== *)
theory Js_Date
  imports Prelude
begin

text \<open>
  Dates of the language: \<open>Date.UTC\<close> in milliseconds, and the instants of a text that
  \<open>validIsoInstant\<close> of \<open>packages/storage/src/evolution-store.ts\<close> accepts, which are those the runtime
  prints back as they were, with or without zero milliseconds.
\<close>

text \<open>Days since 1970-01-01 of the first day of a month, from 1 to 12.\<close>

definition days_of_month_start :: "int \<Rightarrow> int \<Rightarrow> int" where
  "days_of_month_start y m =
     (let y' = (if m \<le> 2 then y - 1 else y); era = y' div 400; yoe = y' - era * 400;
          doy = (153 * (m + (if 2 < m then - 3 else 9)) + 2) div 5;
          doe = yoe * 365 + yoe div 4 - yoe div 100 + doy
      in era * 146097 + doe - 719468)"

text \<open>\<open>Date.UTC\<close>, where the day may lie outside the month.\<close>

definition date_utc :: "int \<Rightarrow> int \<Rightarrow> int \<Rightarrow> int \<Rightarrow> int \<Rightarrow> int" where
  "date_utc y m d h mi = (((days_of_month_start y m + d - 1) * 24 + h) * 60 + mi) * 60000"

section \<open>Instants\<close>

definition unit_digit :: "nat \<Rightarrow> nat option" where
  "unit_digit u = (if 48 \<le> u \<and> u \<le> 57 then Some (u - 48) else None)"

text \<open>The digits of a text that follows a pattern, in which \<open>0\<close> stands for any digit.\<close>

fun digits_by :: "string \<Rightarrow> ustr \<Rightarrow> nat list option" where
  "digits_by [] [] = Some []"
| "digits_by (p # ps) (u # us) =
     (if p = CHR ''0'' then (case (unit_digit u, digits_by ps us) of (Some d, Some ds) \<Rightarrow> Some (d # ds) | _ \<Rightarrow> None)
      else if of_char p = u then digits_by ps us else None)"
| "digits_by ps us = None"

definition number_of :: "nat list \<Rightarrow> int" where
  "number_of ds = foldl (\<lambda>n d. n * 10 + int d) 0 ds"

definition days_in_month :: "int \<Rightarrow> int \<Rightarrow> int" where
  "days_in_month y m =
     (if m = 12 then 31 else days_of_month_start y (m + 1) - days_of_month_start y m)"

definition instant_of :: "int \<Rightarrow> int \<Rightarrow> int \<Rightarrow> int \<Rightarrow> int \<Rightarrow> int \<Rightarrow> int \<Rightarrow> int option" where
  "instant_of y mo d h mi s ms =
     (if 1 \<le> mo \<and> mo \<le> 12 \<and> 1 \<le> d \<and> d \<le> days_in_month y mo \<and> h \<le> 23 \<and> mi \<le> 59 \<and> s \<le> 59
      then Some (date_utc y mo d h mi + s * 1000 + ms) else None)"

definition instant_ms :: "ustr \<Rightarrow> int option" where
  "instant_ms t = (case digits_by ''0000-00-00T00:00:00Z'' t of
     Some ds \<Rightarrow> instant_of (number_of (take 4 ds)) (number_of (take 2 (drop 4 ds))) (number_of (take 2 (drop 6 ds)))
       (number_of (take 2 (drop 8 ds))) (number_of (take 2 (drop 10 ds))) (number_of (take 2 (drop 12 ds))) 0
   | None \<Rightarrow> (case digits_by ''0000-00-00T00:00:00.000Z'' t of
       Some ds \<Rightarrow> instant_of (number_of (take 4 ds)) (number_of (take 2 (drop 4 ds))) (number_of (take 2 (drop 6 ds)))
         (number_of (take 2 (drop 8 ds))) (number_of (take 2 (drop 10 ds))) (number_of (take 2 (drop 12 ds))) (number_of (drop 14 ds))
     | None \<Rightarrow> None))"

end
