(* ===== verification/Scheduler.thy ===== *)
theory Scheduler
  imports Task_Store Js_Date
begin

text \<open>
  The decision core of the scheduler, \<open>packages/app-runtime/src/scheduler-domain.ts\<close>. Time is in
  milliseconds. The wall clock of a time zone is a parameter, as it comes from the runtime's time zone
  data; \<open>Date.UTC\<close> is written out. A cursor that is no number, as read for an inherited name, makes
  daily and weekly schedules fail in the date formatter, and the windows of an interval schedule
  strings, which are neither before nor after the boot time.
\<close>

section \<open>Calendar\<close>

record wall_clock =
  wc_year :: int
  wc_month :: int
  wc_day :: int
  wc_hour :: int
  wc_minute :: int
  wc_weekday :: int

record clock =
  ck_wall :: "int \<Rightarrow> string \<Rightarrow> wall_clock"
  ck_host_zone :: string

definition minute_ms :: int where "minute_ms = 60000"

definition tz_offset :: "clock \<Rightarrow> int \<Rightarrow> string \<Rightarrow> int" where
  "tz_offset ck t z = (let w = ck_wall ck t z in
     date_utc (wc_year w) (wc_month w) (wc_day w) (wc_hour w) (wc_minute w) - t div minute_ms * minute_ms)"

section \<open>The next run\<close>

definition solve_wall :: "clock \<Rightarrow> string \<Rightarrow> int \<Rightarrow> int \<Rightarrow> int" where
  "solve_wall ck z wall after =
     (let step = (\<lambda>c. wall - tz_offset ck c z); start = wall - tz_offset ck after z in step (step (step start)))"

definition day_candidate :: "clock \<Rightarrow> string \<Rightarrow> int \<times> int \<Rightarrow> int list option \<Rightarrow> int \<Rightarrow> wall_clock \<Rightarrow> int \<Rightarrow> int option" where
  "day_candidate ck z target days after start shift =
     (let day = ck_wall ck (date_utc (wc_year start) (wc_month start) (wc_day start + shift) 12 0) z in
      if (case days of None \<Rightarrow> False | Some ds \<Rightarrow> wc_weekday day \<notin> set ds) then None
      else
        let c = solve_wall ck z (date_utc (wc_year day) (wc_month day) (wc_day day) (fst target) (snd target)) after in
        if c \<le> after then None
        else let s = ck_wall ck c z in
          if wc_year s = wc_year day \<and> wc_month s = wc_month day \<and> wc_day s = wc_day day \<and>
             wc_hour s = fst target \<and> wc_minute s = snd target then Some c else None)"

fun first_some :: "('a \<Rightarrow> 'b option) \<Rightarrow> 'a list \<Rightarrow> 'b option" where
  "first_some f [] = None"
| "first_some f (x # xs) = (case f x of None \<Rightarrow> first_some f xs | Some y \<Rightarrow> Some y)"

definition next_wall_occurrence :: "clock \<Rightarrow> int \<times> int \<Rightarrow> int list option \<Rightarrow> int \<Rightarrow> string \<Rightarrow> int option" where
  "next_wall_occurrence ck target days after z =
     first_some (day_candidate ck z target days after (ck_wall ck after z)) (map int [0..<9])"

definition compute_next_run_at :: "clock \<Rightarrow> schedule \<Rightarrow> int \<Rightarrow> string option \<Rightarrow> int option result" where
  "compute_next_run_at ck sch after zone = (case sch of
     Interval every \<Rightarrow> Inr (Some (after + every))
   | Daily at \<Rightarrow> bind_result (parse_hhmm at) (\<lambda>t. Inr (next_wall_occurrence ck t None after (given zone (ck_host_zone ck))))
   | Weekly days at \<Rightarrow>
       bind_result (parse_hhmm at) (\<lambda>t. Inr (next_wall_occurrence ck t (Some days) after (given zone (ck_host_zone ck)))))"

section \<open>Windows\<close>

definition max_windows :: nat where "max_windows = 1000"

fun windows_from :: "clock \<Rightarrow> task_definition \<Rightarrow> nat \<Rightarrow> int \<Rightarrow> int \<Rightarrow> int list result" where
  "windows_from ck d 0 anchor now = Inr []"
| "windows_from ck d (Suc n) anchor now =
     bind_result (compute_next_run_at ck (td_schedule d) anchor (td_timezone d)) (\<lambda>r. case r of
       None \<Rightarrow> Inr []
     | Some t \<Rightarrow> if now < t then Inr [] else bind_result (windows_from ck d n t now) (\<lambda>ts. Inr (t # ts)))"

definition enumerate_windows :: "clock \<Rightarrow> task_definition \<Rightarrow> int \<Rightarrow> int \<Rightarrow> int list result" where
  "enumerate_windows ck d anchor now = windows_from ck d max_windows anchor now"

text \<open>The windows from a cursor; with one that is no number nothing is before, at or after the boot.\<close>

definition task_windows :: "clock \<Rightarrow> (string, int option) jsmap \<Rightarrow> int \<Rightarrow> task_definition \<Rightarrow> int list result" where
  "task_windows ck cursors now d = (case cursor_of cursors (td_id d) of
     Absent \<Rightarrow> enumerate_windows ck d (td_created d) now
   | At n \<Rightarrow> enumerate_windows ck d n now
   | Not_A_Number \<Rightarrow> (case td_schedule d of Interval every \<Rightarrow> Inr [] | _ \<Rightarrow> throw ''RangeError'' ''Invalid time value''))"

section \<open>A tick\<close>

record tick_input =
  ti_now :: int
  ti_boot :: int
  ti_tasks :: "task_definition list"
  ti_cursors :: "(string, int option) jsmap"
  ti_running :: "string list"

record task_fire =
  tf_task :: task_definition
  tf_at :: int
  tf_queued :: bool

record task_missed =
  tm_task :: task_definition
  tm_at :: int
  tm_count :: nat
  tm_fires :: bool

record tick_result =
  tr_fires :: "task_fire list"
  tr_missed :: "task_missed list"
  tr_skipped :: "(task_definition \<times> int) list"

definition missed_part :: "tick_input \<Rightarrow> task_definition \<Rightarrow> int list \<Rightarrow> tick_result" where
  "missed_part inp d missed =
     (let running = td_id d \<in> set (ti_running inp); wants = (td_missed d = Run_Latest); blocked = (wants \<and> running) in
      if missed = [] then \<lparr>tr_fires = [], tr_missed = [], tr_skipped = []\<rparr>
      else let report = (\<lambda>f. \<lparr>tm_task = d, tm_at = last missed, tm_count = length missed, tm_fires = f\<rparr>) in
        if wants \<and> \<not> blocked
        then \<lparr>tr_fires = [\<lparr>tf_task = d, tf_at = last missed, tf_queued = False\<rparr>], tr_missed = [report True], tr_skipped = []\<rparr>
        else if wants \<and> blocked \<and> td_overlap d = Queue_Overlap
        then \<lparr>tr_fires = [\<lparr>tf_task = d, tf_at = last missed, tf_queued = True\<rparr>], tr_missed = [report True], tr_skipped = []\<rparr>
        else \<lparr>tr_fires = [], tr_missed = [report False], tr_skipped = []\<rparr>)"

definition due_part :: "tick_input \<Rightarrow> task_definition \<Rightarrow> int list \<Rightarrow> tick_result" where
  "due_part inp d due =
     (if td_id d \<in> set (ti_running inp)
      then (if td_overlap d = Skip_Overlap
            then \<lparr>tr_fires = [], tr_missed = [], tr_skipped = map (\<lambda>t. (d, t)) due\<rparr>
            else \<lparr>tr_fires = map (\<lambda>t. \<lparr>tf_task = d, tf_at = t, tf_queued = True\<rparr>) due, tr_missed = [], tr_skipped = []\<rparr>)
      else \<lparr>tr_fires = map (\<lambda>t. \<lparr>tf_task = d, tf_at = t, tf_queued = False\<rparr>) due, tr_missed = [], tr_skipped = []\<rparr>)"

definition join_results :: "tick_result \<Rightarrow> tick_result \<Rightarrow> tick_result" where
  "join_results a b = \<lparr>tr_fires = tr_fires a @ tr_fires b, tr_missed = tr_missed a @ tr_missed b,
     tr_skipped = tr_skipped a @ tr_skipped b\<rparr>"

definition evaluate_task :: "clock \<Rightarrow> tick_input \<Rightarrow> task_definition \<Rightarrow> tick_result result" where
  "evaluate_task ck inp d =
     (if \<not> td_enabled d then Inr \<lparr>tr_fires = [], tr_missed = [], tr_skipped = []\<rparr>
      else bind_result (task_windows ck (ti_cursors inp) (ti_now inp) d) (\<lambda>ws.
        Inr (join_results (missed_part inp d (filter (\<lambda>t. t < ti_boot inp) ws))
          (due_part inp d (filter (\<lambda>t. ti_boot inp \<le> t) ws)))))"

definition evaluate_tick :: "clock \<Rightarrow> tick_input \<Rightarrow> tick_result result" where
  "evaluate_tick ck inp = bind_result (map_result (evaluate_task ck inp) (ti_tasks inp))
     (\<lambda>rs. Inr (foldl join_results \<lparr>tr_fires = [], tr_missed = [], tr_skipped = []\<rparr> rs))"

section \<open>Facts about windows\<close>

definition rising :: "schedule \<Rightarrow> bool" where
  "rising sch = (case sch of Interval every \<Rightarrow> 0 < every | _ \<Rightarrow> True)"

lemma first_some_Some: "first_some f xs = Some y \<Longrightarrow> \<exists>x \<in> set xs. f x = Some y"
  by (induction xs) (auto split: option.splits)

lemma day_candidate_Some:
  assumes "day_candidate ck z target days after start shift = Some c"
  shows "after < c \<and> wc_hour (ck_wall ck c z) = fst target \<and> wc_minute (ck_wall ck c z) = snd target"
  using assms by (auto simp: day_candidate_def Let_def split: if_splits option.splits)

lemma next_wall_Some:
  "next_wall_occurrence ck target days after z = Some c \<Longrightarrow>
     after < c \<and> wc_hour (ck_wall ck c z) = fst target \<and> wc_minute (ck_wall ck c z) = snd target"
  unfolding next_wall_occurrence_def by (drule first_some_Some) (auto dest: day_candidate_Some)

lemma next_run_later:
  "rising sch \<Longrightarrow> compute_next_run_at ck sch after zone = Inr (Some t) \<Longrightarrow> after < t"
  by (auto simp: compute_next_run_at_def rising_def bind_result_Inr_iff dest: next_wall_Some split: schedule.splits)

lemma windows_rise:
  assumes "rising (td_schedule d)"
  shows "windows_from ck d n anchor now = Inr ws \<Longrightarrow>
    sorted_wrt (<) (anchor # ws) \<and> (\<forall>t \<in> set ws. t \<le> now) \<and> length ws \<le> n"
proof (induction n arbitrary: anchor ws)
  case (Suc n)
  from Suc.prems obtain r where r: "compute_next_run_at ck (td_schedule d) anchor (td_timezone d) = Inr r"
    and ws: "(case r of None \<Rightarrow> Inr [] | Some t \<Rightarrow>
      if now < t then Inr [] else bind_result (windows_from ck d n t now) (\<lambda>ts. Inr (t # ts))) = Inr ws"
    by (auto simp: bind_result_Inr_iff)
  show ?case
  proof (cases "ws = []")
    case False
    then obtain t ts where t: "r = Some t" "t \<le> now" "windows_from ck d n t now = Inr ts" "ws = t # ts"
      using ws by (auto simp: bind_result_Inr_iff split: option.splits if_splits)
    have "anchor < t" using next_run_later [OF assms] r t(1) by simp
    with Suc.IH [OF t(3)] t show ?thesis by (auto dest: less_trans)
  qed simp
qed simp

end
