(* ===== verification/Task_Daemon.thy ===== *)
theory Task_Daemon
  imports Scheduler
begin

text \<open>
  The daemon that runs scheduled tasks, \<open>TaskDaemon\<close> of \<open>apps/cli/src/daemon.ts\<close>, over the snapshot
  of the store, as long as that loads. A tick is cut at its wait for the snapshot and the decision: \<open>Begin_Tick\<close> reads and
  decides, \<open>Commit_Tick\<close> writes the journal and launches; the timer does not wait for a tick to end, so
  a second one may begin in between. Children finish at any time, and a new daemon finds the children
  of the one before still running. Run ids are random in the code and numbers in order here.
\<close>

section \<open>Configuration\<close>

datatype config_value = Number int | Other_Value

definition clamp :: "config_value \<Rightarrow> int \<Rightarrow> int \<Rightarrow> int \<Rightarrow> int" where
  "clamp v fallback lo hi = (case v of Number n \<Rightarrow> min hi (max lo n) | Other_Value \<Rightarrow> fallback)"

record sections =
  se_enabled :: bool
  se_max_concurrent :: int
  se_retention :: int
  se_webhook :: "string option"

definition sections_from_config :: "bool \<Rightarrow> config_value \<Rightarrow> config_value \<Rightarrow> string option \<Rightarrow> sections" where
  "sections_from_config enabled concurrent retention url =
     \<lparr>se_enabled = enabled, se_max_concurrent = clamp concurrent 1 1 8, se_retention = clamp retention 200 10 10000,
      se_webhook = truthy url\<rparr>"

section \<open>The lock of the daemon\<close>

datatype lock_verdict = Busy | Reclaim

text \<open>What a lock file that is there means; the pid is 0 if the file does not parse.\<close>

definition daemon_lock_verdict :: "(nat \<Rightarrow> bool) \<Rightarrow> nat \<Rightarrow> nat \<Rightarrow> lock_verdict" where
  "daemon_lock_verdict alive self owner =
     (let a = (if 0 < owner then alive owner else True) in if a \<and> owner \<noteq> self then Busy else Reclaim)"

text \<open>A lock file that was created and never written is meant to be reclaimed, and is not.\<close>

lemma empty_lock_file_blocks: "0 < self \<Longrightarrow> daemon_lock_verdict alive self 0 = Busy"
  by (simp add: daemon_lock_verdict_def)

section \<open>Notices\<close>

text \<open>
  The attempts of the webhook: what each request returns, \<open>None\<close> if it fails. The result is the number
  of requests made, and whether the notice was delivered.
\<close>

definition permanent_status :: "nat \<Rightarrow> bool" where
  "permanent_status s \<longleftrightarrow> 400 \<le> s \<and> s < 500 \<and> s \<noteq> 408 \<and> s \<noteq> 429"

fun deliver :: "nat \<Rightarrow> nat \<Rightarrow> (nat \<Rightarrow> nat option) \<Rightarrow> nat \<times> bool" where
  "deliver made 0 response = (made, False)"
| "deliver made (Suc left) response = (case response made of
     None \<Rightarrow> if left = 0 then (Suc made, False) else deliver (Suc made) left response
   | Some s \<Rightarrow>
       if 200 \<le> s \<and> s < 300 then (Suc made, True)
       else if permanent_status s \<or> left = 0 then (Suc made, False)
       else deliver (Suc made) left response)"

definition webhook_attempts :: nat where "webhook_attempts = 3"

definition notify :: "string option \<Rightarrow> (nat \<Rightarrow> nat option) \<Rightarrow> nat \<times> bool" where
  "notify url response = (case truthy url of None \<Rightarrow> (0, False) | Some u \<Rightarrow> deliver 0 webhook_attempts response)"

section \<open>Daemon\<close>

record daemon =
  dm_boot :: int
  dm_snap :: snapshot
  dm_in_flight :: "(string, string) jsmap"
  dm_plans :: "tick_result list"
  dm_children :: "(string \<times> string) list"
  dm_orphans :: "(string \<times> string) list"
  dm_launched :: "(string \<times> int) list"
  dm_next :: nat

record daemon_options =
  do_clock :: clock
  do_max_concurrent :: nat
  do_store :: task_store

text \<open>What a launch depends on: the hash of the configuration now and the trusted directories.\<close>

record launch_env =
  le_hash :: string
  le_trusted :: "string list"

definition new_run :: "daemon \<Rightarrow> string \<Rightarrow> run_status \<Rightarrow> int \<Rightarrow> run_record" where
  "new_run m t status at = \<lparr>rn_id = show_nat (dm_next m), rn_task = t, rn_status = status, rn_scheduled = at,
     rn_started = None, rn_finished = None, rn_session = None, rn_exit = None, rn_error = None\<rparr>"

definition journal :: "daemon_options \<Rightarrow> run_record \<Rightarrow> daemon \<Rightarrow> daemon" where
  "journal opts r m = m\<lparr>dm_snap := record_run (ts_retention (do_store opts)) r (dm_snap m), dm_next := Suc (dm_next m)\<rparr>"

definition reject_launch :: "daemon_options \<Rightarrow> task_definition \<Rightarrow> int \<Rightarrow> string \<Rightarrow> daemon \<Rightarrow> daemon" where
  "reject_launch opts d at code m =
     journal opts ((new_run m (td_id d) Run_Failed at)\<lparr>rn_error := Some (code, '''')\<rparr>) m"

definition launch :: "daemon_options \<Rightarrow> launch_env \<Rightarrow> int \<Rightarrow> task_definition \<Rightarrow> int \<Rightarrow> daemon \<Rightarrow> daemon" where
  "launch opts env now d at m =
     (if truthy (td_config_hash d) \<noteq> None \<and> td_config_hash d \<noteq> Some (le_hash env)
      then reject_launch opts d at ''task_config_drift'' m
      else if td_cwd d \<notin> set (le_trusted env) then reject_launch opts d at ''task_trust_missing'' m
      else
        let r = (new_run m (td_id d) Running at)\<lparr>rn_started := Some now\<rparr>; m1 = journal opts r m
        in m1\<lparr>dm_in_flight := map_set (td_id d) (rn_id r) (dm_in_flight m1),
              dm_children := dm_children m1 @ [(td_id d, rn_id r)], dm_launched := dm_launched m1 @ [(td_id d, at)]\<rparr>)"

text \<open>The fires that are not queued, by task in the order of their first fire.\<close>

definition group_fires :: "task_fire list \<Rightarrow> (string, task_fire list) jsmap" where
  "group_fires fs = foldl (\<lambda>g f. map_set (td_id (tf_task f)) (given (map_get g (td_id (tf_task f))) [] @ [f]) g) []
     (filter (\<lambda>f. \<not> tf_queued f) fs)"

definition run_group :: "daemon_options \<Rightarrow> launch_env \<Rightarrow> int \<Rightarrow> daemon \<Rightarrow> task_fire list \<Rightarrow> daemon" where
  "run_group opts env now m g =
     (if g = [] then m
      else if do_max_concurrent opts \<le> length (dm_in_flight m) then m
      else
        let m1 = foldl (\<lambda>m f. journal opts (new_run m (td_id (tf_task f)) Missed (tf_at f)) m) m (butlast g)
        in launch opts env now (tf_task (last g)) (tf_at (last g)) m1)"

definition commit :: "daemon_options \<Rightarrow> launch_env \<Rightarrow> int \<Rightarrow> tick_result \<Rightarrow> daemon \<Rightarrow> daemon" where
  "commit opts env now plan m =
     (let m1 = foldl (\<lambda>m e. journal opts (new_run m (td_id (tm_task e)) Missed (tm_at e)) m) m
            (filter (\<lambda>e. \<not> tm_fires e) (tr_missed plan));
          m2 = foldl (\<lambda>m e. journal opts (new_run m (td_id (fst e)) Skipped (snd e)) m) m1 (tr_skipped plan)
      in foldl (run_group opts env now) m2 (map_values (group_fires (tr_fires plan))))"

definition begin_tick :: "daemon_options \<Rightarrow> int \<Rightarrow> daemon \<Rightarrow> daemon" where
  "begin_tick opts now m = (case evaluate_tick (do_clock opts)
       \<lparr>ti_now = now, ti_boot = dm_boot m, ti_tasks = sn_tasks (dm_snap m), ti_cursors = sn_cursors (dm_snap m),
        ti_running = map_keys (dm_in_flight m)\<rparr> of
     Inl e \<Rightarrow> m
   | Inr plan \<Rightarrow> m\<lparr>dm_plans := dm_plans m @ [plan]\<rparr>)"

definition commit_tick :: "daemon_options \<Rightarrow> launch_env \<Rightarrow> int \<Rightarrow> daemon \<Rightarrow> daemon" where
  "commit_tick opts env now m = (case dm_plans m of
     [] \<Rightarrow> m | plan # ps \<Rightarrow> commit opts env now plan (m\<lparr>dm_plans := ps\<rparr>))"

text \<open>What the runner reports: \<open>None\<close> if it failed to run the child.\<close>

record run_outcome =
  ro_exit :: int
  ro_session :: "string option"
  ro_timed_out :: bool

definition outcome_patch :: "int \<Rightarrow> run_outcome option \<Rightarrow> run_patch" where
  "outcome_patch now out = (case out of
     None \<Rightarrow> \<lparr>pt_status = Some Run_Failed, pt_started = None, pt_finished = Some now, pt_session = None, pt_exit = None,
              pt_error = Some (''task_run_failed'', '''')\<rparr>
   | Some x \<Rightarrow>
       if ro_exit x = 0
       then \<lparr>pt_status = Some Completed, pt_started = None, pt_finished = Some now, pt_session = truthy (ro_session x),
             pt_exit = Some 0, pt_error = None\<rparr>
       else \<lparr>pt_status = Some Run_Failed, pt_started = None, pt_finished = Some now, pt_session = None,
             pt_exit = Some (ro_exit x), pt_error = Some (''task_run_failed'', '''')\<rparr>)"

definition update_snapshot :: "string \<Rightarrow> run_patch \<Rightarrow> snapshot \<Rightarrow> snapshot" where
  "update_snapshot i p s = (case update_run i p s of None \<Rightarrow> s | Some (r, s') \<Rightarrow> s')"

definition finish_child :: "int \<Rightarrow> string \<times> string \<Rightarrow> run_outcome option \<Rightarrow> daemon \<Rightarrow> daemon" where
  "finish_child now c out m =
     (if c \<notin> set (dm_children m) then m
      else m\<lparr>dm_snap := update_snapshot (snd c) (outcome_patch now out) (dm_snap m),
             dm_in_flight := map_delete (fst c) (dm_in_flight m), dm_children := remove1 c (dm_children m)\<rparr>)"

text \<open>
  A new daemon settles the runs that the journal still has as running; their children run on, and
  nobody waits for them.
\<close>

definition boot :: "int \<Rightarrow> daemon \<Rightarrow> daemon" where
  "boot now m = m\<lparr>dm_boot := now, dm_in_flight := [], dm_plans := [], dm_children := [],
     dm_orphans := dm_orphans m @ dm_children m,
     dm_snap := foldl (\<lambda>s r. update_snapshot (rn_id r)
         \<lparr>pt_status = Some Run_Failed, pt_started = None, pt_finished = Some now, pt_session = None, pt_exit = None,
          pt_error = Some (''task_run_failed'', '''')\<rparr> s)
       (dm_snap m) (filter (\<lambda>r. rn_status r = Running) (sn_runs (dm_snap m)))\<rparr>"

datatype daemon_event =
    Begin_Tick int
  | Commit_Tick int launch_env
  | Finish int "string \<times> string" "run_outcome option"
  | Edit task_definition
  | Boot int

definition daemon_step :: "daemon_options \<Rightarrow> daemon \<Rightarrow> daemon_event \<Rightarrow> daemon" where
  "daemon_step opts m e = (case e of
     Begin_Tick now \<Rightarrow> begin_tick opts now m
   | Commit_Tick now env \<Rightarrow> commit_tick opts env now m
   | Finish now c out \<Rightarrow> finish_child now c out m
   | Edit d \<Rightarrow> m\<lparr>dm_snap := effect (do_store opts) (Upsert_Task d) (dm_snap m)\<rparr>
   | Boot now \<Rightarrow> boot now m)"

definition new_daemon :: daemon where
  "new_daemon = \<lparr>dm_boot = 0, dm_snap = empty_snapshot, dm_in_flight = [], dm_plans = [], dm_children = [],
     dm_orphans = [], dm_launched = [], dm_next = 0\<rparr>"

definition daemon_run :: "daemon_options \<Rightarrow> daemon_event list \<Rightarrow> daemon" where
  "daemon_run opts es = foldl (daemon_step opts) new_daemon es"

text \<open>Ticks one after the other: none begins while another is not committed.\<close>

fun serial :: "bool \<Rightarrow> daemon_event list \<Rightarrow> bool" where
  "serial pending [] = True"
| "serial pending (Begin_Tick now # es) = (\<not> pending \<and> serial True es)"
| "serial pending (Commit_Tick now env # es) = serial False es"
| "serial pending (Boot now # es) = serial False es"
| "serial pending (e # es) = serial pending es"

end
