(* ===== verification/Task_Daemon_Launches.thy ===== *)
theory Task_Daemon_Launches
  imports Task_Daemon Task_Store_Claims
begin

text \<open>
  What one commit of a tick does to the daemon: launches stay in order and within the limit.
\<close>

section \<open>Launches\<close>

definition times_of :: "string \<Rightarrow> (string \<times> int) list \<Rightarrow> int list" where
  "times_of t ls = map snd (filter (\<lambda>x. fst x = t) ls)"

lemma times_simps [simp]:
  "times_of t [] = []" "times_of t (ls @ [(u, at)]) = (if u = t then times_of t ls @ [at] else times_of t ls)"
  by (simp_all add: times_of_def)

text \<open>A fire is fresh: its window is after all launches of the task, whose cursor is a number, if any.\<close>

definition before :: "daemon \<Rightarrow> task_fire \<Rightarrow> bool" where
  "before m f \<longleftrightarrow> (\<forall>at \<in> set (times_of (td_id (tf_task f)) (dm_launched m)). at < tf_at f) \<and>
     cursor_of (sn_cursors (dm_snap m)) (td_id (tf_task f)) \<noteq> Not_A_Number"

text \<open>All launches of a task are in order and not after its cursor.\<close>

definition launches_ok :: "daemon \<Rightarrow> bool" where
  "launches_ok m \<longleftrightarrow> (\<forall>t. sorted_wrt (<) (times_of t (dm_launched m)) \<and>
     (\<forall>at \<in> set (times_of t (dm_launched m)). \<exists>n. cursor_of (sn_cursors (dm_snap m)) t = At n \<and> at \<le> n))"

text \<open>The children are the runs in flight, one for a task.\<close>

definition children_ok :: "daemon_options \<Rightarrow> daemon \<Rightarrow> bool" where
  "children_ok opts m \<longleftrightarrow> map_wf (dm_in_flight m) \<and> dm_children m = dm_in_flight m \<and>
     length (dm_in_flight m) \<le> do_max_concurrent opts"

definition plan_ok :: "daemon \<Rightarrow> tick_result \<Rightarrow> bool" where
  "plan_ok m plan \<longleftrightarrow> (\<forall>f \<in> set (tr_fires plan). before m f \<and>
     (tf_queued f \<or> td_id (tf_task f) \<notin> set (map_keys (dm_in_flight m))))"

definition daemon_ok :: "daemon_options \<Rightarrow> bool \<Rightarrow> daemon \<Rightarrow> bool" where
  "daemon_ok opts pending m \<longleftrightarrow> launches_ok m \<and> children_ok opts m \<and>
     list_all (validate_task (ts_zone_ok (do_store opts))) (sn_tasks (dm_snap m)) \<and>
     (dm_plans m = [] \<or> pending \<and> (\<exists>plan. dm_plans m = [plan] \<and> plan_ok m plan))"

lemma journal_simps [simp]:
  "dm_launched (journal opts r m) = dm_launched m" "dm_in_flight (journal opts r m) = dm_in_flight m"
  "dm_children (journal opts r m) = dm_children m" "dm_plans (journal opts r m) = dm_plans m"
  "sn_tasks (dm_snap (journal opts r m)) = sn_tasks (dm_snap m)"
  "sn_cursors (dm_snap (journal opts r m)) = map_set (rn_task r)
     (next_cursor (cursor_of (sn_cursors (dm_snap m)) (rn_task r)) (rn_scheduled r)) (sn_cursors (dm_snap m))"
  by (simp_all add: journal_def record_run_def)

lemma cursor_journal:
  "cursor_of (sn_cursors (dm_snap m)) t = At n \<Longrightarrow>
     \<exists>k. cursor_of (sn_cursors (dm_snap (journal opts r m))) t = At k \<and> n \<le> k"
  by (auto simp: cursor_of_set next_cursor_def)

lemma launches_journal: "launches_ok m \<Longrightarrow> launches_ok (journal opts r m)"
  unfolding launches_ok_def journal_simps(1) by (metis cursor_journal order_trans)

text \<open>What the journal entries of a commit leave alone.\<close>

definition kept :: "daemon \<Rightarrow> daemon \<Rightarrow> bool" where
  "kept m m' \<longleftrightarrow> dm_launched m' = dm_launched m \<and> dm_in_flight m' = dm_in_flight m \<and> dm_children m' = dm_children m \<and>
     dm_plans m' = dm_plans m \<and> sn_tasks (dm_snap m') = sn_tasks (dm_snap m) \<and> (launches_ok m \<longrightarrow> launches_ok m') \<and>
     (\<forall>f. before m f \<longrightarrow> before m' f)"

lemma kept_journal: "kept m (journal opts r m)"
  by (auto simp: kept_def launches_journal before_def cursor_of_set next_cursor_def split: cursor.splits)

lemma kept_fold: "(\<And>m e. kept m (f m e)) \<Longrightarrow> kept m (foldl f m es)"
proof (induction es arbitrary: m)
  case (Cons e es)
  then have "kept m (f m e)" "kept (f m e) (foldl f (f m e) es)" by blast+
  then show ?case by (auto simp: kept_def)
qed (simp add: kept_def)

section \<open>Groups\<close>

definition groups_ok :: "task_fire list \<Rightarrow> (string, task_fire list) jsmap \<Rightarrow> bool" where
  "groups_ok fs g \<longleftrightarrow> map_wf g \<and> (\<forall>(k, xs) \<in> set g. \<forall>f \<in> set xs. td_id (tf_task f) = k \<and> f \<in> set fs \<and> \<not> tf_queued f)"

lemma groups_add:
  assumes "groups_ok fs g" and "f \<in> set fs" and "\<not> tf_queued f"
  shows "groups_ok fs (map_set (td_id (tf_task f)) (given (map_get g (td_id (tf_task f))) [] @ [f]) g)"
proof -
  have old: "\<forall>x \<in> set xs. td_id (tf_task x) = k \<and> x \<in> set fs \<and> \<not> tf_queued x" if "(k, xs) \<in> set g" for k xs
    using assms(1) that by (auto simp: groups_ok_def)
  have "\<forall>x \<in> set (given (map_get g (td_id (tf_task f))) []). td_id (tf_task x) = td_id (tf_task f) \<and> x \<in> set fs \<and> \<not> tf_queued x"
  proof (cases "map_get g (td_id (tf_task f))")
    case (Some xs)
    with old [OF map_of_SomeD [OF Some]] show ?thesis by simp
  qed simp
  then have new: "\<forall>x \<in> set (given (map_get g (td_id (tf_task f))) [] @ [f]). td_id (tf_task x) = td_id (tf_task f) \<and> x \<in> set fs \<and> \<not> tf_queued x"
    using assms(2,3) by simp
  have "\<forall>x \<in> set (snd p). td_id (tf_task x) = fst p \<and> x \<in> set fs \<and> \<not> tf_queued x"
    if "p \<in> set (map_set (td_id (tf_task f)) (given (map_get g (td_id (tf_task f))) [] @ [f]) g)" for p
    using in_map_set [OF that]
  proof
    assume "p \<in> set g"
    then have "(fst p, snd p) \<in> set g" by (simp only: prod.collapse)
    then show ?thesis by (rule old)
  next
    assume "p = (td_id (tf_task f), given (map_get g (td_id (tf_task f))) [] @ [f])"
    then show ?thesis using new by (simp only: fst_conv snd_conv)
  qed
  then have all: "\<forall>p \<in> set (map_set (td_id (tf_task f)) (given (map_get g (td_id (tf_task f))) [] @ [f]) g).
      \<forall>x \<in> set (snd p). td_id (tf_task x) = fst p \<and> x \<in> set fs \<and> \<not> tf_queued x" by (rule ballI)
  have "map_wf g" using assms(1) by (simp add: groups_ok_def)
  then have "map_wf (map_set (td_id (tf_task f)) (given (map_get g (td_id (tf_task f))) [] @ [f]) g)" by simp
  then show ?thesis unfolding groups_ok_def case_prod_beta using all by (rule conjI)
qed

lemma groups_fold:
  "groups_ok fs g \<Longrightarrow> set xs \<subseteq> set fs \<Longrightarrow> (\<forall>f \<in> set xs. \<not> tf_queued f) \<Longrightarrow>
     groups_ok fs (foldl (\<lambda>g f. map_set (td_id (tf_task f)) (given (map_get g (td_id (tf_task f))) [] @ [f]) g) g xs)"
proof (induction xs arbitrary: g)
  case (Cons x xs)
  have "groups_ok fs (map_set (td_id (tf_task x)) (given (map_get g (td_id (tf_task x))) [] @ [x]) g)"
    using Cons.prems by (intro groups_add) simp_all
  then show ?case unfolding foldl_Cons using Cons.prems by (intro Cons.IH) simp_all
qed simp

lemma group_fires_ok: "groups_ok fs (group_fires fs)"
proof -
  have "groups_ok fs []" by (simp add: groups_ok_def)
  then show ?thesis unfolding group_fires_def by (rule groups_fold) simp_all
qed

section \<open>A commit\<close>

definition fires_ready :: "daemon \<Rightarrow> task_fire list \<Rightarrow> bool" where
  "fires_ready m xs \<longleftrightarrow> (\<forall>f \<in> set xs. before m f \<and> td_id (tf_task f) \<notin> set (map_keys (dm_in_flight m)))"

lemma reject_kept: "kept m (reject_launch opts d at code m)"
  unfolding reject_launch_def by (rule kept_journal)

lemma launch_ok:
  assumes "launches_ok m" and "children_ok opts m" and "length (dm_in_flight m) < do_max_concurrent opts"
    and "fires_ready m [f]" and "m' = launch opts env now (tf_task f) (tf_at f) m"
  shows "launches_ok m' \<and> children_ok opts m' \<and> sn_tasks (dm_snap m') = sn_tasks (dm_snap m) \<and> dm_plans m' = dm_plans m \<and>
    (\<forall>xs. fires_ready m xs \<longrightarrow> (\<forall>x \<in> set xs. td_id (tf_task x) \<noteq> td_id (tf_task f)) \<longrightarrow> fires_ready m' xs)"
proof (cases "truthy (td_config_hash (tf_task f)) \<noteq> None \<and> td_config_hash (tf_task f) \<noteq> Some (le_hash env) \<or>
    td_cwd (tf_task f) \<notin> set (le_trusted env)")
  case True
  then have "kept m m'" using assms(5) reject_kept by (auto simp: launch_def)
  with assms(1,2) show ?thesis by (auto simp: kept_def children_ok_def fires_ready_def)
next
  case False
  let ?t = "td_id (tf_task f)" and ?r = "(new_run m (td_id (tf_task f)) Running (tf_at f))\<lparr>rn_started := Some now\<rparr>"
  let ?j = "journal opts ?r m"
  have m': "m' = ?j\<lparr>dm_in_flight := map_set ?t (rn_id ?r) (dm_in_flight m),
      dm_children := dm_children m @ [(?t, rn_id ?r)], dm_launched := dm_launched m @ [(?t, tf_at f)]\<rparr>"
    using False assms(5) by (auto simp: launch_def Let_def)
  have fresh: "?t \<notin> set (map_keys (dm_in_flight m))" and bef: "before m f"
    using assms(4) by (simp_all add: fires_ready_def)
  have r: "rn_task ?r = ?t" "rn_scheduled ?r = tf_at f" by (simp_all add: new_run_def)
  have "launches_ok m'"
    unfolding launches_ok_def
  proof (intro allI conjI ballI)
    fix t
    show "sorted_wrt (<) (times_of t (dm_launched m'))"
      using assms(1) bef by (auto simp: m' launches_ok_def before_def sorted_wrt_append)
    fix at assume "at \<in> set (times_of t (dm_launched m'))"
    then consider "at \<in> set (times_of t (dm_launched m))" | "t = ?t" "at = tf_at f" by (auto simp: m' split: if_splits)
    then show "\<exists>n. cursor_of (sn_cursors (dm_snap m')) t = At n \<and> at \<le> n"
    proof cases
      case 1
      with launches_journal [OF assms(1), of opts ?r] show ?thesis by (simp add: m' launches_ok_def)
    next
      case 2
      have "cursor_of (sn_cursors (dm_snap m)) ?t \<noteq> Not_A_Number" using bef by (simp add: before_def)
      with 2 r show ?thesis
        by (cases "cursor_of (sn_cursors (dm_snap m)) ?t") (auto simp: m' cursor_of_set next_cursor_def)
    qed
  qed
  moreover have "children_ok opts m'"
    using assms(2,3) fresh by (simp add: m' children_ok_def map_set_fresh map_wf_def map_keys_def)
  moreover have "fires_ready m' xs" if "fires_ready m xs" "\<forall>x \<in> set xs. td_id (tf_task x) \<noteq> ?t" for xs
    using that fresh by (auto simp: m' fires_ready_def before_def map_keys_set cursor_of_set r)
  ultimately show ?thesis by (simp add: m')
qed

section \<open>A whole commit\<close>

text \<open>The part of the invariant that the steps of a commit keep.\<close>

definition steady :: "daemon_options \<Rightarrow> daemon \<Rightarrow> daemon \<Rightarrow> bool" where
  "steady opts m m' \<longleftrightarrow> launches_ok m' \<and> children_ok opts m' \<and> sn_tasks (dm_snap m') = sn_tasks (dm_snap m) \<and> dm_plans m' = dm_plans m"

lemma kept_steady:
  "kept m m' \<Longrightarrow> launches_ok m \<Longrightarrow> children_ok opts m \<Longrightarrow> steady opts m m' \<and> (\<forall>xs. fires_ready m xs \<longrightarrow> fires_ready m' xs)"
  by (auto simp: kept_def steady_def children_ok_def fires_ready_def)

lemma kept_trans: "kept m m' \<Longrightarrow> kept m' m'' \<Longrightarrow> kept m m''"
  by (auto simp: kept_def)

lemma run_group_ok:
  assumes "launches_ok m" and "children_ok opts m" and "fires_ready m g" and "m' = run_group opts env now m g"
  shows "steady opts m m' \<and> (\<forall>xs. fires_ready m xs \<longrightarrow> (\<forall>x \<in> set xs. \<forall>f \<in> set g. td_id (tf_task x) \<noteq> td_id (tf_task f)) \<longrightarrow> fires_ready m' xs)"
proof (cases "g = [] \<or> do_max_concurrent opts \<le> length (dm_in_flight m)")
  case True
  then have "m' = m" using assms(4) by (auto simp: run_group_def)
  with assms(1,2) show ?thesis by (simp add: steady_def)
next
  case False
  define m1 where "m1 = foldl (\<lambda>m f. journal opts (new_run m (td_id (tf_task f)) Missed (tf_at f)) m) m (butlast g)"
  have k: "kept m m1" unfolding m1_def by (rule kept_fold) (rule kept_journal)
  note st = kept_steady [OF k assms(1,2)]
  have m': "m' = launch opts env now (tf_task (last g)) (tf_at (last g)) m1"
    using False assms(4) by (simp add: run_group_def m1_def Let_def)
  have l: "last g \<in> set g" using False by simp
  have "fires_ready m [last g]" using assms(3) l by (simp add: fires_ready_def)
  then have r: "fires_ready m1 [last g]" using st by blast
  have n: "length (dm_in_flight m1) < do_max_concurrent opts" using False k by (simp add: kept_def)
  have ok: "launches_ok m1" "children_ok opts m1" using st by (simp_all add: steady_def)
  note L = launch_ok [OF ok n r m']
  have "steady opts m m'" using L st by (simp add: steady_def)
  moreover have "fires_ready m' xs"
    if "fires_ready m xs" "\<forall>x \<in> set xs. \<forall>f \<in> set g. td_id (tf_task x) \<noteq> td_id (tf_task f)" for xs
    using L st that l by blast
  ultimately show ?thesis by blast
qed

lemma groups_run:
  assumes "launches_ok m" and "children_ok opts m" and "map_wf gs"
    and "\<And>k xs. (k, xs) \<in> set gs \<Longrightarrow> fires_ready m xs \<and> (\<forall>f \<in> set xs. td_id (tf_task f) = k)"
  shows "steady opts m (foldl (run_group opts env now) m (map_values gs))"
  using assms
proof (induction gs arbitrary: m)
  case Nil
  then show ?case by (simp add: steady_def)
next
  case (Cons g gs)
  obtain k xs where g: "g = (k, xs)" by (cases g)
  let ?m = "run_group opts env now m xs"
  have here: "fires_ready m xs" "\<forall>f \<in> set xs. td_id (tf_task f) = k" using Cons.prems(4) [of k xs] g by simp_all
  note R = run_group_ok [OF Cons.prems(1,2) here(1) refl, of env now]
  have k: "k \<notin> fst ` set gs" and wf: "map_wf gs" using Cons.prems(3) g by (simp_all add: map_wf_def map_keys_def)
  have later: "fires_ready ?m ys \<and> (\<forall>f \<in> set ys. td_id (tf_task f) = l)" if "(l, ys) \<in> set gs" for l ys
  proof -
    have y: "fires_ready m ys" "\<forall>f \<in> set ys. td_id (tf_task f) = l" using Cons.prems(4) [of l ys] that by simp_all
    have "l \<noteq> k" using k that by force
    then have "\<forall>x \<in> set ys. \<forall>f \<in> set xs. td_id (tf_task x) \<noteq> td_id (tf_task f)" using y(2) here(2) by simp
    with R y show ?thesis by blast
  qed
  have "steady opts ?m (foldl (run_group opts env now) ?m (map_values gs))"
    using R wf later by (intro Cons.IH) (simp_all add: steady_def)
  with R g show ?case by (simp add: steady_def)
qed

lemma commit_ok:
  assumes "launches_ok m" and "children_ok opts m" and "plan_ok m plan"
  shows "steady opts m (commit opts env now plan m)"
proof -
  define m1 where "m1 = foldl (\<lambda>m e. journal opts (new_run m (td_id (tm_task e)) Missed (tm_at e)) m) m
      (filter (\<lambda>e. \<not> tm_fires e) (tr_missed plan))"
  define m2 where "m2 = foldl (\<lambda>m e. journal opts (new_run m (td_id (fst e)) Skipped (snd e)) m) m1 (tr_skipped plan)"
  have "kept m m1" unfolding m1_def by (rule kept_fold) (rule kept_journal)
  moreover have "kept m1 m2" unfolding m2_def by (rule kept_fold) (rule kept_journal)
  ultimately have "kept m m2" by (rule kept_trans)
  note st = kept_steady [OF this assms(1,2)]
  have G: "groups_ok (tr_fires plan) (group_fires (tr_fires plan))" by (rule group_fires_ok)
  have wf: "map_wf (group_fires (tr_fires plan))" using G by (simp add: groups_ok_def)
  have g: "\<forall>f \<in> set xs. td_id (tf_task f) = k \<and> f \<in> set (tr_fires plan) \<and> \<not> tf_queued f"
    if "(k, xs) \<in> set (group_fires (tr_fires plan))" for k xs
    using G that by (auto simp: groups_ok_def)
  have "fires_ready m xs" if "(k, xs) \<in> set (group_fires (tr_fires plan))" for k xs
    using g [OF that] assms(3) by (auto simp: fires_ready_def plan_ok_def)
  then have ready: "fires_ready m2 xs \<and> (\<forall>f \<in> set xs. td_id (tf_task f) = k)"
    if "(k, xs) \<in> set (group_fires (tr_fires plan))" for k xs
    using st g [OF that] that by blast
  have "steady opts m2 (foldl (run_group opts env now) m2 (map_values (group_fires (tr_fires plan))))"
    using st wf ready by (intro groups_run) (simp_all add: steady_def)
  moreover have "commit opts env now plan m = foldl (run_group opts env now) m2 (map_values (group_fires (tr_fires plan)))"
    by (simp add: commit_def m1_def m2_def Let_def)
  ultimately show ?thesis using st by (simp add: steady_def)
qed

end
