(* ===== verification/Task_Daemon_Claims.thy ===== *)
theory Task_Daemon_Claims
  imports Task_Daemon_Launches
begin

text \<open>
  What the daemon guarantees as long as its ticks do not overlap: no window of a task runs twice, and
  the children stay within the limit, one per task. And what happens when they do overlap, when the
  daemon restarts over a running child, and when a task is named as an inherited property.
\<close>

section \<open>A decision\<close>

definition own_windows :: "clock \<Rightarrow> tick_input \<Rightarrow> task_fire \<Rightarrow> bool" where
  "own_windows ck inp f \<longleftrightarrow> tf_task f \<in> set (ti_tasks inp) \<and>
     (\<exists>ws. task_windows ck (ti_cursors inp) (ti_now inp) (tf_task f) = Inr ws \<and> tf_at f \<in> set ws) \<and>
     (tf_queued f \<or> td_id (tf_task f) \<notin> set (ti_running inp))"

lemma missed_fires: "f \<in> set (tr_fires (missed_part inp d ws)) \<Longrightarrow>
   tf_task f = d \<and> tf_at f \<in> set ws \<and> (tf_queued f \<or> td_id d \<notin> set (ti_running inp))"
  by (auto simp: missed_part_def Let_def split: if_splits)

lemma due_fires: "f \<in> set (tr_fires (due_part inp d ws)) \<Longrightarrow>
   tf_task f = d \<and> tf_at f \<in> set ws \<and> (tf_queued f \<or> td_id d \<notin> set (ti_running inp))"
  by (auto simp: due_part_def split: if_splits)

lemma task_fires:
  assumes "evaluate_task ck inp d = Inr r" and "d \<in> set (ti_tasks inp)" and "f \<in> set (tr_fires r)"
  shows "own_windows ck inp f"
proof (cases "td_enabled d")
  case True
  with assms(1) obtain ws where w: "task_windows ck (ti_cursors inp) (ti_now inp) d = Inr ws"
    and r: "r = join_results (missed_part inp d (filter (\<lambda>t. t < ti_boot inp) ws)) (due_part inp d (filter (\<lambda>t. ti_boot inp \<le> t) ws))"
    by (auto simp: evaluate_task_def bind_result_Inr_iff)
  from r assms(3) have "f \<in> set (tr_fires (missed_part inp d (filter (\<lambda>t. t < ti_boot inp) ws))) \<or>
      f \<in> set (tr_fires (due_part inp d (filter (\<lambda>t. ti_boot inp \<le> t) ws)))"
    by (simp add: join_results_def)
  then have "tf_task f = d \<and> tf_at f \<in> set ws \<and> (tf_queued f \<or> td_id d \<notin> set (ti_running inp))"
    by (auto dest!: missed_fires due_fires)
  with w assms(2) show ?thesis by (auto simp: own_windows_def)
next
  case False
  with assms(1,3) show ?thesis by (auto simp: evaluate_task_def)
qed

lemma fires_joined:
  "f \<in> set (tr_fires (foldl join_results a rs)) \<Longrightarrow> f \<in> set (tr_fires a) \<or> (\<exists>r \<in> set rs. f \<in> set (tr_fires r))"
  by (induction rs arbitrary: a) (fastforce simp: join_results_def)+

lemma map_result_set: "map_result g xs = Inr ys \<Longrightarrow> y \<in> set ys \<Longrightarrow> \<exists>x \<in> set xs. g x = Inr y"
  by (induction xs arbitrary: ys) (auto simp: bind_result_Inr_iff)

lemma tick_fires:
  assumes "evaluate_tick ck inp = Inr plan" and "f \<in> set (tr_fires plan)"
  shows "own_windows ck inp f"
proof -
  obtain rs where rs: "map_result (evaluate_task ck inp) (ti_tasks inp) = Inr rs"
    and plan: "plan = foldl join_results \<lparr>tr_fires = [], tr_missed = [], tr_skipped = []\<rparr> rs"
    using assms(1) by (auto simp: evaluate_tick_def bind_result_Inr_iff)
  obtain r where r: "r \<in> set rs" "f \<in> set (tr_fires r)"
    using fires_joined assms(2) plan by fastforce
  with map_result_set [OF rs r(1)] show ?thesis by (auto intro: task_fires)
qed

lemma valid_rising: "validate_task z d \<Longrightarrow> rising (td_schedule d)"
  by (cases "td_schedule d") (simp_all add: validate_task_def schedule_ok_def rising_def)

lemma plan_decided:
  assumes "launches_ok m" and "list_all (validate_task z) (sn_tasks (dm_snap m))"
    and "evaluate_tick ck \<lparr>ti_now = now, ti_boot = b, ti_tasks = sn_tasks (dm_snap m), ti_cursors = sn_cursors (dm_snap m),
      ti_running = map_keys (dm_in_flight m)\<rparr> = Inr plan"
  shows "plan_ok m plan"
  unfolding plan_ok_def
proof
  fix f assume "f \<in> set (tr_fires plan)"
  from tick_fires [OF assms(3) this] obtain ws where d: "tf_task f \<in> set (sn_tasks (dm_snap m))"
    and w: "task_windows ck (sn_cursors (dm_snap m)) now (tf_task f) = Inr ws" "tf_at f \<in> set ws"
    and q: "tf_queued f \<or> td_id (tf_task f) \<notin> set (map_keys (dm_in_flight m))"
    by (auto simp: own_windows_def)
  have ris: "rising (td_schedule (tf_task f))" using assms(2) d by (auto simp: list_all_iff intro: valid_rising)
  let ?t = "td_id (tf_task f)" let ?c = "cursor_of (sn_cursors (dm_snap m)) ?t"
  have "before m f"
  proof (cases ?c)
    case Absent
    have "at \<notin> set (times_of ?t (dm_launched m))" for at
      using assms(1) Absent unfolding launches_ok_def by (metis cursor.distinct(1))
    then have "\<forall>at \<in> set (times_of ?t (dm_launched m)). at < tf_at f" by blast
    with Absent show ?thesis by (simp add: before_def)
  next
    case (At n)
    then have "enumerate_windows ck (tf_task f) n now = Inr ws" using w(1) by (simp add: task_windows_def)
    then have "n < tf_at f" using windows_rise [OF ris] w(2) by (auto simp: enumerate_windows_def)
    moreover have "at \<le> n" if "at \<in> set (times_of ?t (dm_launched m))" for at
    proof -
      have "\<exists>n'. ?c = At n' \<and> at \<le> n'" using assms(1) [unfolded launches_ok_def, rule_format, of ?t, THEN conjunct2] that by (rule bspec)
      then obtain n' where "?c = At n'" "at \<le> n'" by blast
      with At show ?thesis by simp
    qed
    ultimately show ?thesis using At by (auto simp: before_def intro: le_less_trans)
  next
    case Not_A_Number
    then show ?thesis using w by (auto simp: task_windows_def split: schedule.splits)
  qed
  with q show "before m f \<and> (tf_queued f \<or> ?t \<notin> set (map_keys (dm_in_flight m)))" by blast
qed

section \<open>Every event\<close>

lemma update_keeps [simp]:
  "sn_tasks (update_snapshot i p s) = sn_tasks s" "sn_cursors (update_snapshot i p s) = sn_cursors s"
  by (auto simp: update_snapshot_def update_run_def Let_def split: option.split list.split)

lemma updates_keep:
  "sn_tasks (foldl (\<lambda>s r. update_snapshot (g r) (h r) s) s rs) = sn_tasks s \<and>
   sn_cursors (foldl (\<lambda>s r. update_snapshot (g r) (h r) s) s rs) = sn_cursors s"
  by (induction rs arbitrary: s) simp_all

lemma edit_keeps:
  "sn_cursors (effect st (Upsert_Task d) s) = sn_cursors s"
  "list_all (validate_task (ts_zone_ok st)) (sn_tasks s) \<Longrightarrow> list_all (validate_task (ts_zone_ok st)) (sn_tasks (effect st (Upsert_Task d) s))"
  by (auto simp: effect_def upsert_def list_all_iff)

lemma ok_weaken:
  "launches_ok m \<Longrightarrow> dm_launched m' = dm_launched m \<Longrightarrow> sn_cursors (dm_snap m') = sn_cursors (dm_snap m) \<Longrightarrow> launches_ok m'"
  by (simp add: launches_ok_def)

lemma plan_weaken:
  "plan_ok m plan \<Longrightarrow> dm_launched m' = dm_launched m \<Longrightarrow> sn_cursors (dm_snap m') = sn_cursors (dm_snap m) \<Longrightarrow>
     set (map_keys (dm_in_flight m')) \<subseteq> set (map_keys (dm_in_flight m)) \<Longrightarrow> plan_ok m' plan"
  by (auto simp: plan_ok_def before_def)

lemma remove_child: "map_wf g \<Longrightarrow> (k, v) \<in> set g \<Longrightarrow> remove1 (k, v) g = map_delete k g"
  by (induction g) (auto simp: map_wf_def map_keys_def image_iff)

lemma delete_length: "length (map_delete k g) \<le> length g"
  by (induction g) auto

lemma finish_ok:
  assumes "daemon_ok opts pending m"
  shows "daemon_ok opts pending (finish_child now c out m)"
proof (cases "c \<in> set (dm_children m)")
  case True
  let ?m = "finish_child now c out m"
  obtain k v where c: "c = (k, v)" by (cases c)
  have ch: "map_wf (dm_in_flight m)" "dm_children m = dm_in_flight m" "length (dm_in_flight m) \<le> do_max_concurrent opts"
    using assms by (simp_all add: daemon_ok_def children_ok_def)
  have m: "dm_launched ?m = dm_launched m" "sn_cursors (dm_snap ?m) = sn_cursors (dm_snap m)" "sn_tasks (dm_snap ?m) = sn_tasks (dm_snap m)"
    "dm_plans ?m = dm_plans m" "dm_in_flight ?m = map_delete k (dm_in_flight m)" "dm_children ?m = remove1 (k, v) (dm_children m)"
    using True c by (simp_all add: finish_child_def)
  have "children_ok opts ?m"
    using ch True c m(5,6) remove_child [of "dm_in_flight m" k v] delete_length [of k "dm_in_flight m"]
    by (auto simp: children_ok_def)
  moreover have "launches_ok ?m" using assms m(1,2) by (auto simp: daemon_ok_def intro: ok_weaken)
  moreover have "plan_ok ?m plan" if "plan_ok m plan" for plan
    using that m(1,2) by (rule plan_weaken) (auto simp: m(5) map_keys_delete dest: set_remove1_subset [THEN subsetD])
  ultimately show ?thesis using assms by (auto simp: daemon_ok_def m(3,4))
next
  case False
  then show ?thesis using assms by (simp add: finish_child_def)
qed

lemma step_daemon_ok:
  assumes "daemon_ok opts pending m" and "serial pending (e # es)"
  shows "\<exists>pending'. daemon_ok opts pending' (daemon_step opts m e) \<and> serial pending' es"
proof (cases e)
  case (Begin_Tick now)
  have ok: "launches_ok m" "children_ok opts m" "list_all (validate_task (ts_zone_ok (do_store opts))) (sn_tasks (dm_snap m))"
    using assms(1) by (simp_all add: daemon_ok_def)
  have none: "dm_plans m = []" using assms Begin_Tick by (auto simp: daemon_ok_def)
  have "daemon_ok opts True (begin_tick opts now m)"
  proof (cases "evaluate_tick (do_clock opts) \<lparr>ti_now = now, ti_boot = dm_boot m, ti_tasks = sn_tasks (dm_snap m),
      ti_cursors = sn_cursors (dm_snap m), ti_running = map_keys (dm_in_flight m)\<rparr>")
    case (Inl x)
    with none ok show ?thesis by (simp add: begin_tick_def daemon_ok_def)
  next
    case (Inr plan)
    have "plan_ok m plan" using plan_decided [OF ok(1,3) Inr] .
    then have "plan_ok (m\<lparr>dm_plans := [plan]\<rparr>) plan" by (rule plan_weaken) simp_all
    moreover have "launches_ok (m\<lparr>dm_plans := [plan]\<rparr>)" using ok(1) by (rule ok_weaken) simp_all
    ultimately show ?thesis using Inr none ok by (simp add: begin_tick_def daemon_ok_def children_ok_def)
  qed
  with assms(2) Begin_Tick show ?thesis by (auto simp: daemon_step_def)
next
  case (Commit_Tick now env)
  have "daemon_ok opts False (commit_tick opts env now m)"
  proof (cases "dm_plans m")
    case Nil
    with assms(1) show ?thesis by (simp add: commit_tick_def daemon_ok_def)
  next
    case (Cons plan ps)
    with assms(1) have p: "ps = []" "plan_ok m plan" and ok: "launches_ok m" "children_ok opts m"
      "list_all (validate_task (ts_zone_ok (do_store opts))) (sn_tasks (dm_snap m))" by (auto simp: daemon_ok_def)
    let ?m = "m\<lparr>dm_plans := []\<rparr>"
    have "plan_ok ?m plan" using p(2) by (rule plan_weaken) simp_all
    moreover have "launches_ok ?m" using ok(1) by (rule ok_weaken) simp_all
    moreover have "children_ok opts ?m" using ok(2) by (simp add: children_ok_def)
    ultimately have "steady opts ?m (commit opts env now plan ?m)" by (intro commit_ok)
    with Cons p(1) ok(3) show ?thesis by (simp add: commit_tick_def daemon_ok_def steady_def)
  qed
  with assms(2) Commit_Tick show ?thesis by (auto simp: daemon_step_def)
next
  case (Finish now c out)
  with assms show ?thesis by (auto simp: daemon_step_def intro: finish_ok)
next
  case (Edit d)
  let ?m = "m\<lparr>dm_snap := effect (do_store opts) (Upsert_Task d) (dm_snap m)\<rparr>"
  have "launches_ok ?m" using assms(1) by - (rule ok_weaken [of m], simp_all add: daemon_ok_def edit_keeps)
  moreover have "plan_ok ?m plan" if "plan_ok m plan" for plan using that by (rule plan_weaken) (simp_all add: edit_keeps)
  ultimately have "daemon_ok opts pending ?m" using assms(1) by (auto simp: daemon_ok_def children_ok_def edit_keeps)
  with assms(2) Edit show ?thesis by (auto simp: daemon_step_def)
next
  case (Boot now)
  have "launches_ok (boot now m)" using assms(1) by - (rule ok_weaken [of m], simp_all add: daemon_ok_def boot_def updates_keep)
  then have "daemon_ok opts False (boot now m)" using assms(1) by (simp add: daemon_ok_def children_ok_def boot_def updates_keep)
  with assms(2) Boot show ?thesis by (auto simp: daemon_step_def)
qed

lemma steps_daemon_ok:
  "daemon_ok opts pending m \<Longrightarrow> serial pending es \<Longrightarrow> \<exists>pending'. daemon_ok opts pending' (foldl (daemon_step opts) m es)"
proof (induction es arbitrary: m pending)
  case (Cons e es)
  from step_daemon_ok [OF Cons.prems] obtain p where "daemon_ok opts p (daemon_step opts m e)" "serial p es" by blast
  then show ?case unfolding foldl_Cons by (rule Cons.IH)
qed auto

lemma run_daemon_ok: "serial False es \<Longrightarrow> \<exists>pending. daemon_ok opts pending (daemon_run opts es)"
  unfolding daemon_run_def
  by (rule steps_daemon_ok [of opts False])
    (simp_all add: daemon_ok_def new_daemon_def launches_ok_def children_ok_def empty_snapshot_def)

text \<open>
  C22. No window of a task runs twice: as long as no tick begins while another is still committing, the
  times for which a task's runs were launched are strictly increasing, across edits of the task, failing
  and lost children and restarts of the daemon.
\<close>
theorem no_window_runs_twice:
  assumes "serial False es"
  shows "sorted_wrt (<) (times_of t (dm_launched (daemon_run opts es)))"
  using run_daemon_ok [OF assms, of opts] by (auto simp: daemon_ok_def launches_ok_def)


definition demo_clock :: clock where
  "demo_clock = \<lparr>ck_wall = (\<lambda>t z. \<lparr>wc_year = 1970, wc_month = 1, wc_day = 1 + t div 86400000, wc_hour = t div 3600000 mod 24,
     wc_minute = t div 60000 mod 60, wc_weekday = (4 + t div 86400000) mod 7\<rparr>), ck_host_zone = ''UTC''\<rparr>"

definition demo_options :: daemon_options where
  "demo_options = \<lparr>do_clock = demo_clock, do_max_concurrent = 1, do_store = demo_store\<rparr>"

definition demo_env :: launch_env where
  "demo_env = \<lparr>le_hash = '''', le_trusted = [''/work'']\<rparr>"

lemma demo_ticks:
  "dm_launched (daemon_run demo_options [Edit demo_task, Begin_Tick 61000, Commit_Tick 61000 demo_env]) = [(''nightly'', 61000)]"
  by code_simp

lemma no_window_runs_twice_witness:
  "sorted_wrt (<) (times_of ''nightly'' (dm_launched (daemon_run demo_options
     [Edit demo_task, Begin_Tick 61000, Commit_Tick 61000 demo_env, Boot 70000, Begin_Tick 71000, Commit_Tick 71000 demo_env])))"
  by (rule no_window_runs_twice) simp


text \<open>
  Two ticks that overlap run a window twice: the second one begins before the first has recorded its
  run, sees the same cursor and no run in flight, and with a limit of two children both are started for
  the same task and the same window.
\<close>
theorem overlapping_ticks_run_twice:
  "let opts = demo_options\<lparr>do_max_concurrent := 2\<rparr>;
       m = daemon_run opts [Edit demo_task, Begin_Tick 61000, Begin_Tick 62000, Commit_Tick 61000 demo_env, Commit_Tick 62000 demo_env]
   in times_of ''nightly'' (dm_launched m) = [61000, 61000] \<and> map fst (dm_children m) = [''nightly'', ''nightly''] \<and>
      length (dm_in_flight m) = 1"
  by code_simp

text \<open>
  A restart forgets the children that run on: the new daemon marks their runs as failed, and starts
  the next window of a task whose earlier child is still running, although overlaps are to be skipped.
\<close>
theorem restart_overlaps_running_child:
  "let m = daemon_run demo_options [Edit demo_task, Begin_Tick 61000, Commit_Tick 61000 demo_env, Boot 70000,
         Begin_Tick 122000, Commit_Tick 122000 demo_env]
   in td_overlap demo_task = Skip_Overlap \<and> map fst (dm_orphans m) = [''nightly''] \<and> map fst (dm_children m) = [''nightly''] \<and>
      map rn_status (sn_runs (dm_snap m)) = [Run_Failed, Running]"
  by code_simp

section \<open>When a task is due\<close>

text \<open>The weekday that the time zone data gives depends on the date alone.\<close>

definition weekday_by_date :: "clock \<Rightarrow> string \<Rightarrow> bool" where
  "weekday_by_date ck z \<longleftrightarrow> (\<forall>t u. wc_year (ck_wall ck t z) = wc_year (ck_wall ck u z) \<and> wc_month (ck_wall ck t z) = wc_month (ck_wall ck u z) \<and>
     wc_day (ck_wall ck t z) = wc_day (ck_wall ck u z) \<longrightarrow> wc_weekday (ck_wall ck t z) = wc_weekday (ck_wall ck u z))"

definition reads :: "clock \<Rightarrow> string \<Rightarrow> int \<Rightarrow> string \<Rightarrow> bool" where
  "reads ck z t at \<longleftrightarrow> parse_hhmm at = Inr (wc_hour (ck_wall ck t z), wc_minute (ck_wall ck t z))"

lemma day_candidate_weekday:
  assumes "day_candidate ck z target (Some ds) after start shift = Some c" and "weekday_by_date ck z"
  shows "wc_weekday (ck_wall ck c z) \<in> set ds"
proof -
  let ?day = "ck_wall ck (date_utc (wc_year start) (wc_month start) (wc_day start + shift) 12 0) z"
  have "wc_weekday ?day \<in> set ds" and s: "wc_year (ck_wall ck c z) = wc_year ?day" "wc_month (ck_wall ck c z) = wc_month ?day"
    "wc_day (ck_wall ck c z) = wc_day ?day"
    using assms(1) by (auto simp: day_candidate_def Let_def split: if_splits)
  moreover have "wc_weekday (ck_wall ck c z) = wc_weekday ?day"
    using assms(2) s unfolding weekday_by_date_def by blast
  ultimately show ?thesis by simp
qed

lemma next_wall_weekday:
  "next_wall_occurrence ck target (Some ds) after z = Some c \<Longrightarrow> weekday_by_date ck z \<Longrightarrow> wc_weekday (ck_wall ck c z) \<in> set ds"
  unfolding next_wall_occurrence_def by (drule first_some_Some) (auto dest: day_candidate_weekday)

text \<open>
  C24. A computed run time is on time: it is later than the time asked about, an interval is exactly one
  interval later, and for daily and weekly schedules the wall clock of the task's zone, or of the host
  without one, then reads the scheduled hour and minute, on one of the scheduled weekdays, also across
  changes of the zone's offset.
\<close>
theorem next_run_is_on_time:
  assumes "rising sch" and "compute_next_run_at ck sch after zone = Inr (Some t)" and "z = given zone (ck_host_zone ck)"
    and "weekday_by_date ck z"
  shows "after < t \<and> (case sch of
     Interval every \<Rightarrow> t = after + every
   | Daily at \<Rightarrow> reads ck z t at
   | Weekly days at \<Rightarrow> reads ck z t at \<and> wc_weekday (ck_wall ck t z) \<in> set days)"
proof -
  have w: "next_wall_occurrence ck x (Some ds) after (given zone (ck_host_zone ck)) = Some t \<Longrightarrow>
      wc_weekday (ck_wall ck t (given zone (ck_host_zone ck))) \<in> set ds" for x ds
    using assms(4) unfolding assms(3) by (rule next_wall_weekday [rotated])
  show ?thesis
    using assms(2) next_run_later [OF assms(1,2)] assms(3)
    by (cases sch) (auto simp: compute_next_run_at_def bind_result_Inr_iff reads_def dest: next_wall_Some intro: w)
qed

lemma demo_weekday: "weekday_by_date demo_clock z"
  by (auto simp: weekday_by_date_def demo_clock_def)

lemma next_run_is_on_time_witness:
  "compute_next_run_at demo_clock (Weekly [1, 3] ''07:30'') 0 None = Inr (Some 372600000) \<and>
   reads demo_clock ''UTC'' 372600000 ''07:30'' \<and> wc_weekday (ck_wall demo_clock 372600000 ''UTC'') \<in> {1, 3}"
proof -
  have e: "compute_next_run_at demo_clock (Weekly [1, 3] ''07:30'') 0 None = Inr (Some 372600000)" by code_simp
  have "''UTC'' = given None (ck_host_zone demo_clock)" by (simp add: demo_clock_def)
  with e next_run_is_on_time [OF _ e _ demo_weekday] show ?thesis by (simp add: rising_def)
qed

lemma map_result_stuck: "x \<in> set xs \<Longrightarrow> \<not> is_ok (f x) \<Longrightarrow> \<not> is_ok (map_result f xs)"
  by (induction xs) (auto simp: is_ok_def bind_result_def split: sum.splits)

text \<open>
  One task stops the scheduler: a daily or weekly task with the valid id \<open>constructor\<close> and no
  recorded run makes the decision of every tick fail, so that no task of the store is run.
\<close>
theorem constructor_task_stops_scheduler:
  assumes "d \<in> set (sn_tasks (dm_snap m))" and "td_id d = ''constructor''" and "td_enabled d"
    and "td_schedule d = Daily at" and "map_get (sn_cursors (dm_snap m)) ''constructor'' = None"
  shows "task_id_ok (td_id d) \<and> begin_tick opts now m = m"
proof
  show "task_id_ok (td_id d)" unfolding assms(2) by code_simp
  let ?inp = "\<lparr>ti_now = now, ti_boot = dm_boot m, ti_tasks = sn_tasks (dm_snap m), ti_cursors = sn_cursors (dm_snap m),
      ti_running = map_keys (dm_in_flight m)\<rparr>"
  have "cursor_of (sn_cursors (dm_snap m)) ''constructor'' = Not_A_Number"
    using assms(5) by (simp add: cursor_of_def inherited_keys_def)
  then have "\<not> is_ok (evaluate_task (do_clock opts) ?inp d)"
    using assms(2-4) by (simp add: evaluate_task_def task_windows_def is_ok_def)
  with assms(1) have "\<not> is_ok (map_result (evaluate_task (do_clock opts) ?inp) (ti_tasks ?inp))"
    by (intro map_result_stuck) simp_all
  then obtain e where e: "map_result (evaluate_task (do_clock opts) ?inp) (ti_tasks ?inp) = Inl e"
    by (cases "map_result (evaluate_task (do_clock opts) ?inp) (ti_tasks ?inp)") (simp_all add: is_ok_def)
  have "evaluate_tick (do_clock opts) ?inp = Inl e" unfolding evaluate_tick_def e by (simp add: bind_result_def)
  then show "begin_tick opts now m = m" unfolding begin_tick_def by (simp only: sum.case)
qed

definition demo_stopped :: daemon where
  "demo_stopped = new_daemon\<lparr>dm_snap := \<lparr>sn_tasks = [demo_task, demo_task\<lparr>td_id := ''constructor'', td_schedule := Daily ''07:30''\<rparr>],
     sn_runs = [], sn_cursors = []\<rparr>\<rparr>"

lemma constructor_task_stops_scheduler_witness: "begin_tick demo_options 500000000 demo_stopped = demo_stopped"
  using constructor_task_stops_scheduler [of "demo_task\<lparr>td_id := ''constructor'', td_schedule := Daily ''07:30''\<rparr>"
      demo_stopped "''07:30''" demo_options 500000000]
  by (simp add: demo_stopped_def demo_task_def)

end
