(* ===== verification/Js_Number.thy ===== *)
theory Js_Number
  imports Complex_Main "HOL-Library.Log_Nat" Prelude
begin

text \<open>
  The numbers of the language: a finite double is the rational it stands for, and an operation rounds
  the exact result to the nearest number of 53 significant bits, ties to even. Overflow and subnormal
  numbers are left out; what may not be finite is \<open>Not_Finite\<close>.
\<close>

section \<open>Rounding\<close>

text \<open>Rounds a non-negative fraction to the nearest natural number, ties to even.\<close>

definition nearest_even :: "int \<Rightarrow> int \<Rightarrow> int" where
  "nearest_even a b = (let q = a div b; r = a mod b in
     if 2 * r < b then q else if b < 2 * r then q + 1 else if even q then q else q + 1)"

text \<open>The exponent \<open>e\<close> with \<open>2^e \<le> a / b < 2^(e+1)\<close>.\<close>

definition fraction_exponent :: "int \<Rightarrow> int \<Rightarrow> int" where
  "fraction_exponent a b =
     (let e = int (floorlog 2 (nat a)) - int (floorlog 2 (nat b));
          below = (if 0 \<le> e then a < b * 2 ^ nat e else a * 2 ^ nat (- e) < b)
      in if below then e - 1 else e)"

definition round_fraction :: "int \<Rightarrow> int \<Rightarrow> rat" where
  "round_fraction a b =
     (let s = 52 - fraction_exponent a b
      in if 0 \<le> s then Fract (nearest_even (a * 2 ^ nat s) b) (2 ^ nat s)
         else Fract (nearest_even a (b * 2 ^ nat (- s)) * 2 ^ nat (- s)) 1)"

definition rnd :: "rat \<Rightarrow> rat" where
  "rnd x = (let (a, b) = quotient_of x in
     if a = 0 then 0 else if 0 < a then round_fraction a b else - round_fraction (- a) b)"

definition js_add :: "rat \<Rightarrow> rat \<Rightarrow> rat" where "js_add x y = rnd (x + y)"
definition js_sub :: "rat \<Rightarrow> rat \<Rightarrow> rat" where "js_sub x y = rnd (x - y)"
definition js_mul :: "rat \<Rightarrow> rat \<Rightarrow> rat" where "js_mul x y = rnd (x * y)"
definition js_div :: "rat \<Rightarrow> rat \<Rightarrow> rat" where "js_div x y = rnd (x / y)"

text \<open>A decimal literal, and \<open>Number(x.toFixed(4))\<close>, which takes the larger of two nearest decimals.\<close>

definition decimal :: "int \<Rightarrow> nat \<Rightarrow> rat" where "decimal n d = rnd (Fract n (10 ^ d))"

definition fixed4 :: "rat \<Rightarrow> rat" where
  "fixed4 x = decimal (if x < 0 then - \<lfloor>- x * 10000 + 1 / 2\<rfloor> else \<lfloor>x * 10000 + 1 / 2\<rfloor>) 4"

text \<open>\<open>Math.round\<close>.\<close>

definition js_round :: "rat \<Rightarrow> rat" where "js_round x = of_int \<lfloor>x + 1 / 2\<rfloor>"

section \<open>How far a rounding is off\<close>

lemma nearest_close:
  assumes "0 < b"
  shows "\<bar>of_int (nearest_even a b) - of_int a / (of_int b :: rat)\<bar> \<le> 1 / 2"
proof -
  let ?q = "a div b" let ?r = "a mod b"
  have r: "0 \<le> ?r" "?r < b" using assms by simp_all
  have "a = b * ?q + ?r" by simp
  then have "(of_int a :: rat) = of_int b * of_int ?q + of_int ?r" by (metis of_int_add of_int_mult)
  then have e: "of_int a / (of_int b :: rat) = of_int ?q + of_int ?r / of_int b"
    using assms by (simp add: field_simps)
  have b: "(0::rat) < of_int b" using assms by simp
  have rr: "0 \<le> (of_int ?r :: rat)" "(of_int ?r :: rat) < of_int b" using r by simp_all
  have lo: "of_int ?r / (of_int b :: rat) \<le> 1 / 2" if "2 * ?r \<le> b"
  proof -
    have "(of_int (2 * ?r) :: rat) \<le> of_int b" using that by (simp only: of_int_le_iff)
    then show ?thesis using b by (simp add: field_simps)
  qed
  have hi: "1 / 2 \<le> of_int ?r / (of_int b :: rat)" if "b \<le> 2 * ?r"
  proof -
    have "(of_int b :: rat) \<le> of_int (2 * ?r)" using that by (simp only: of_int_le_iff)
    then show ?thesis using b by (simp add: field_simps)
  qed
  have frac: "0 \<le> of_int ?r / (of_int b :: rat)" "of_int ?r / (of_int b :: rat) < 1"
    using b rr by simp_all
  consider "2 * ?r < b" | "b < 2 * ?r" | "b = 2 * ?r" by linarith
  then show ?thesis
  proof cases
    case 1
    then have "nearest_even a b = ?q" by (simp add: nearest_even_def Let_def)
    with 1 lo frac show ?thesis unfolding e by simp
  next
    case 2
    then have "nearest_even a b = ?q + 1" by (simp add: nearest_even_def Let_def)
    with 2 hi frac show ?thesis unfolding e by simp
  next
    case 3
    then have "nearest_even a b = ?q \<or> nearest_even a b = ?q + 1" by (simp add: nearest_even_def Let_def)
    moreover have "of_int ?r / (of_int b :: rat) = 1 / 2" using 3 lo hi by simp
    ultimately show ?thesis unfolding e by auto
  qed
qed

lemma exponent_bounds:
  assumes "0 < a" and "0 < b"
  shows "2 powi fraction_exponent a b \<le> (of_int a / of_int b :: rat)" "(of_int a / of_int b :: rat) < 2 powi (fraction_exponent a b + 1)"
proof -
  define fa fb where "fa = floorlog 2 (nat a)" and "fb = floorlog 2 (nat b)"
  define e where "e = int fa - int fb"
  have A: "2 ^ (fa - 1) \<le> nat a" "nat a < 2 ^ fa" "fa > 0"
    using floorlog_bounds [of "nat a" 2] assms(1) by (auto simp: fa_def floorlog_def)
  have B: "2 ^ (fb - 1) \<le> nat b" "nat b < 2 ^ fb" "fb > 0"
    using floorlog_bounds [of "nat b" 2] assms(2) by (auto simp: fb_def floorlog_def)
  have ra: "(2::rat) ^ (fa - 1) \<le> of_int a" "(of_int a :: rat) < 2 ^ fa"
  proof -
    have "(of_nat (2 ^ (fa - 1)) :: rat) \<le> of_nat (nat a)" using A(1) by (simp only: of_nat_le_iff)
    then show "(2::rat) ^ (fa - 1) \<le> of_int a" using assms(1) by simp
    have "(of_nat (nat a) :: rat) < of_nat (2 ^ fa)" using A(2) by (simp only: of_nat_less_iff)
    then show "(of_int a :: rat) < 2 ^ fa" using assms(1) by simp
  qed
  have rb: "(2::rat) ^ (fb - 1) \<le> of_int b" "(of_int b :: rat) < 2 ^ fb"
  proof -
    have "(of_nat (2 ^ (fb - 1)) :: rat) \<le> of_nat (nat b)" using B(1) by (simp only: of_nat_le_iff)
    then show "(2::rat) ^ (fb - 1) \<le> of_int b" using assms(2) by simp
    have "(of_nat (nat b) :: rat) < of_nat (2 ^ fb)" using B(2) by (simp only: of_nat_less_iff)
    then show "(of_int b :: rat) < 2 ^ fb" using assms(2) by simp
  qed
  have pb: "(0::rat) < of_int b" using assms(2) by simp
  have lower: "2 powi (e - 1) \<le> (of_int a / of_int b :: rat)"
  proof -
    have "2 powi (e - 1) * (of_int b :: rat) \<le> 2 powi (e - 1) * 2 ^ fb" using rb(2) by (simp add: mult_left_mono)
    also have "\<dots> = 2 powi (int fa - 1)" by (simp add: e_def power_int_diff flip: power_int_of_nat)
    also have "\<dots> = 2 ^ (fa - 1)" using A(3) by (simp add: power_int_def nat_diff_distrib)
    also have "\<dots> \<le> of_int a" by (rule ra(1))
    finally show ?thesis using pb by (simp add: field_simps)
  qed
  have upper: "(of_int a / of_int b :: rat) < 2 powi (e + 1)"
  proof -
    have "(of_int a :: rat) < 2 ^ fa" by (rule ra(2))
    also have "\<dots> = 2 powi (e + 1) * 2 powi (int fb - 1)" by (simp add: e_def power_int_diff power_int_add)
    also have "\<dots> = 2 powi (e + 1) * 2 ^ (fb - 1)" using B(3) by (simp add: power_int_def nat_diff_distrib)
    also have "\<dots> \<le> 2 powi (e + 1) * of_int b" using rb(1) by (simp add: mult_left_mono)
    finally show ?thesis using pb by (simp add: field_simps)
  qed
  have below: "(if 0 \<le> e then a < b * 2 ^ nat e else a * 2 ^ nat (- e) < b) \<longleftrightarrow> (of_int a / of_int b :: rat) < 2 powi e"
  proof (cases "0 \<le> e")
    case True
    have "a < b * 2 ^ nat e \<longleftrightarrow> (of_int a :: rat) < of_int (b * 2 ^ nat e)" by (simp only: of_int_less_iff)
    also have "\<dots> \<longleftrightarrow> (of_int a / of_int b :: rat) < 2 ^ nat e" using pb by (simp add: field_simps)
    finally show ?thesis using True by (simp add: power_int_def)
  next
    case False
    have "a * 2 ^ nat (- e) < b \<longleftrightarrow> (of_int (a * 2 ^ nat (- e)) :: rat) < of_int b" by (simp only: of_int_less_iff)
    also have "\<dots> \<longleftrightarrow> (of_int a / of_int b :: rat) < inverse (2 ^ nat (- e))" using pb by (simp add: field_simps)
    finally show ?thesis using False by (simp add: power_int_def inverse_eq_divide power_one_over)
  qed
  have f: "fraction_exponent a b = (if (of_int a / of_int b :: rat) < 2 powi e then e - 1 else e)"
    unfolding fraction_exponent_def Let_def fa_def [symmetric] fb_def [symmetric] e_def [symmetric] below by (rule refl)
  show "2 powi fraction_exponent a b \<le> (of_int a / of_int b :: rat)" using lower by (simp add: f not_less)
  show "(of_int a / of_int b :: rat) < 2 powi (fraction_exponent a b + 1)" using upper by (simp add: f)
qed

text \<open>The relative error of one rounding.\<close>

definition unit_error :: rat where "unit_error = 1 / 2 ^ 53"

lemma round_fraction_close:
  assumes "0 < a" and "0 < b"
  shows "\<bar>round_fraction a b - of_int a / of_int b\<bar> \<le> of_int a / of_int b * unit_error"
proof -
  define e where "e = fraction_exponent a b"
  define s where "s = 52 - e"
  let ?x = "of_int a / of_int b :: rat"
  have pb: "(0::rat) < of_int b" using assms(2) by simp
  have "\<exists>n. round_fraction a b = of_int n * 2 powi (- s) \<and> \<bar>of_int n - ?x * 2 powi s\<bar> \<le> 1 / 2"
  proof (cases "0 \<le> s")
    case True
    let ?n = "nearest_even (a * 2 ^ nat s) b"
    have "round_fraction a b = of_int ?n * 2 powi (- s)"
    proof -
      have "round_fraction a b = Fract ?n (2 ^ nat s)" using True by (simp add: round_fraction_def Let_def e_def s_def)
      also have "\<dots> = of_int ?n / 2 ^ nat s" by (simp add: Fract_of_int_quotient)
      also have "\<dots> = of_int ?n * 2 powi (- s)" unfolding power_int_minus using True by (simp only: power_int_def if_True divide_inverse)
      finally show ?thesis .
    qed
    moreover have "?x * 2 powi s = of_int (a * 2 ^ nat s) / of_int b" using True by (simp add: power_int_def)
    then have "\<bar>of_int ?n - ?x * 2 powi s\<bar> \<le> 1 / 2"
      using nearest_close [OF assms(2), of "a * 2 ^ nat s"] by (simp only:)
    ultimately show ?thesis by blast
  next
    case False
    let ?n = "nearest_even a (b * 2 ^ nat (- s))"
    have "round_fraction a b = of_int ?n * 2 powi (- s)"
    proof -
      have "round_fraction a b = Fract (?n * 2 ^ nat (- s)) 1" using False by (simp add: round_fraction_def Let_def e_def s_def)
      also have "\<dots> = of_int ?n * 2 ^ nat (- s)" by (simp add: Fract_of_int_quotient)
      also have "\<dots> = of_int ?n * 2 powi (- s)" using False by (simp add: power_int_def)
      finally show ?thesis .
    qed
    moreover have "2 powi s = inverse ((2::rat) ^ nat (- s))" using False by (simp add: power_int_def inverse_eq_divide power_one_over)
    then have "?x * 2 powi s = of_int a / of_int (b * 2 ^ nat (- s))" by (simp add: divide_inverse)
    then have "\<bar>of_int ?n - ?x * 2 powi s\<bar> \<le> 1 / 2"
      using nearest_close [of "b * 2 ^ nat (- s)" a] assms(2) by (simp only: mult_pos_pos zero_less_power zero_less_numeral)
    ultimately show ?thesis by blast
  qed
  then obtain n where n: "round_fraction a b = of_int n * 2 powi (- s)" "\<bar>of_int n - ?x * 2 powi s\<bar> \<le> 1 / 2" by blast
  have p: "(0::rat) < 2 powi (- s)" by simp
  have "round_fraction a b - ?x = (of_int n - ?x * 2 powi s) * 2 powi (- s)"
    by (simp add: n(1) algebra_simps power_int_minus)
  then have "\<bar>round_fraction a b - ?x\<bar> = \<bar>of_int n - ?x * 2 powi s\<bar> * 2 powi (- s)" using p by (simp add: abs_mult)
  also have "\<dots> \<le> 1 / 2 * 2 powi (- s)" using n(2) p by (intro mult_right_mono) simp_all
  also have "\<dots> = 2 powi e * unit_error"
    by (simp add: s_def unit_error_def power_int_diff power_int_minus power_int_numeral)
  also have "\<dots> \<le> ?x * unit_error"
    using exponent_bounds(1) [OF assms] by (intro mult_right_mono) (simp_all add: e_def unit_error_def)
  finally show ?thesis .
qed

lemma rnd_close: "\<bar>rnd x - x\<bar> \<le> \<bar>x\<bar> * unit_error"
proof -
  obtain a b where q: "quotient_of x = (a, b)" by (cases "quotient_of x")
  then have x: "x = of_int a / of_int b" and b: "0 < b" by (simp_all add: quotient_of_div quotient_of_denom_pos)
  have pb: "(0::rat) < of_int b" using b by simp
  consider "a = 0" | "0 < a" | "a < 0" by linarith
  then show ?thesis
  proof cases
    case 1
    with q x show ?thesis by (simp add: rnd_def)
  next
    case 2
    then have "0 < x" using pb by (simp add: x)
    then have "\<bar>x\<bar> = of_int a / of_int b" using x by (simp only: abs_of_pos)
    moreover have "rnd x = round_fraction a b" using 2 q by (simp add: rnd_def)
    ultimately show ?thesis using round_fraction_close [OF 2 b] by (simp add: x)
  next
    case 3
    then have "0 < - a" by simp
    have "x < 0" using 3 pb by (simp add: x divide_neg_pos)
    have "rnd x - x = - (round_fraction (- a) b - of_int (- a) / of_int b)" using 3 q by (simp add: rnd_def x)
    then have "\<bar>rnd x - x\<bar> = \<bar>round_fraction (- a) b - of_int (- a) / of_int b\<bar>" by simp
    also have "\<dots> \<le> of_int (- a) / of_int b * unit_error" using \<open>0 < - a\<close> b by (rule round_fraction_close)
    also have "of_int (- a) / of_int b = \<bar>x\<bar>" unfolding abs_of_neg [OF \<open>x < 0\<close>] by (simp add: x)
    finally show ?thesis .
  qed
qed
end
