(* ===== verification/Evolution_Records.thy ===== *)
theory Evolution_Records
  imports Js_Number Js_Date Utf8
begin

text \<open>
  The tuning of the agent's own parameters: the bounds of \<open>packages/core/src/evolution-engine.ts\<close> and
  the records of \<open>packages/storage/src/evolution-store.ts\<close>, how a line of a file is decoded, which
  records of a file count, and the values they add up to. Diagnostics are left out.
\<close>

section \<open>Tunable parameters\<close>

datatype evo_namespace = Ns_Context | Ns_Router | Ns_Retry | Ns_Timeout

definition namespace_name :: "evo_namespace \<Rightarrow> string" where
  "namespace_name n = (case n of Ns_Context \<Rightarrow> ''context'' | Ns_Router \<Rightarrow> ''router'' | Ns_Retry \<Rightarrow> ''retry''
     | Ns_Timeout \<Rightarrow> ''tool-timeout'')"

definition namespace_of :: "ustr \<Rightarrow> evo_namespace option" where
  "namespace_of t = find (\<lambda>n. ascii (namespace_name n) = t) [Ns_Context, Ns_Router, Ns_Retry, Ns_Timeout]"

datatype context_param = Compaction_Threshold | Target_Ratio | Keep_Recent | Summary_Keep_Recent

definition context_params :: "context_param list" where
  "context_params = [Compaction_Threshold, Target_Ratio, Keep_Recent, Summary_Keep_Recent]"

definition context_param_name :: "context_param \<Rightarrow> string" where
  "context_param_name p = (case p of Compaction_Threshold \<Rightarrow> ''compaction_threshold'' | Target_Ratio \<Rightarrow> ''target_ratio''
     | Keep_Recent \<Rightarrow> ''keep_recent'' | Summary_Keep_Recent \<Rightarrow> ''summary_keep_recent'')"

definition context_param_of :: "ustr \<Rightarrow> context_param option" where
  "context_param_of t = find (\<lambda>p. ascii (context_param_name p) = t) context_params"

text \<open>The values in force, all four at once.\<close>

type_synonym tuning = "context_param \<Rightarrow> rat"

definition context_default :: tuning where
  "context_default p = (case p of Compaction_Threshold \<Rightarrow> decimal 85 2 | Target_Ratio \<Rightarrow> decimal 6 1
     | Keep_Recent \<Rightarrow> 20 | Summary_Keep_Recent \<Rightarrow> 20)"

definition param_min :: tuning where
  "param_min p = (case p of Compaction_Threshold \<Rightarrow> decimal 65 2 | Target_Ratio \<Rightarrow> decimal 45 2 | _ \<Rightarrow> 15)"

definition param_max :: tuning where
  "param_max p = (case p of Compaction_Threshold \<Rightarrow> decimal 95 2 | Target_Ratio \<Rightarrow> decimal 75 2 | _ \<Rightarrow> 25)"

definition param_integer :: "context_param \<Rightarrow> bool" where
  "param_integer p \<longleftrightarrow> p = Keep_Recent \<or> p = Summary_Keep_Recent"

definition is_integer :: "rat \<Rightarrow> bool" where
  "is_integer v \<longleftrightarrow> v = of_int \<lfloor>v\<rfloor>"

definition context_value_ok :: "context_param \<Rightarrow> rat \<Rightarrow> bool" where
  "context_value_ok p v \<longleftrightarrow> param_min p \<le> v \<and> v \<le> param_max p \<and> (\<not> param_integer p \<or> is_integer v)"

definition valid_tuning :: "tuning \<Rightarrow> bool" where
  "valid_tuning t \<longleftrightarrow> list_all (\<lambda>p. context_value_ok p (t p)) context_params \<and>
     js_add (t Target_Ratio) (decimal 1 1) \<le> t Compaction_Threshold"

text \<open>The other namespaces have defaults, but no bounds.\<close>

definition other_defaults :: "evo_namespace \<Rightarrow> (string \<times> rat) list" where
  "other_defaults n = (case n of
     Ns_Context \<Rightarrow> []
   | Ns_Router \<Rightarrow> [(''cooldown_ms'', 60000), (''max_attempts'', 6)]
   | Ns_Retry \<Rightarrow> [(''max_retries'', 2), (''backoff_factor'', 4)]
   | Ns_Timeout \<Rightarrow> [(''default_timeout_ms'', 60000)])"

section \<open>Records\<close>

datatype evo_action = Adjusted | Rolled_Back | Stopped | Confirmation_Rejected

definition action_name :: "evo_action \<Rightarrow> string" where
  "action_name a = (case a of Adjusted \<Rightarrow> ''adjusted'' | Rolled_Back \<Rightarrow> ''rolled_back'' | Stopped \<Rightarrow> ''stopped''
     | Confirmation_Rejected \<Rightarrow> ''confirmation_rejected'')"

definition action_of :: "ustr \<Rightarrow> evo_action option" where
  "action_of t = find (\<lambda>a. ascii (action_name a) = t) [Adjusted, Rolled_Back, Stopped, Confirmation_Rejected]"

text \<open>A record; \<open>er_identity\<close> are its id and sequence number, which the store assigns.\<close>

record evo_record =
  er_ns :: evo_namespace
  er_param :: ustr
  er_before :: rat
  er_after :: rat
  er_at :: ustr
  er_reason :: ustr
  er_signal :: "(ustr \<times> rat) list"
  er_action :: evo_action
  er_identity :: "(ustr \<times> nat) option"

text \<open>A parsed value of a file or of a caller; a number may not be finite.\<close>

datatype js_number = Finite rat | Not_Finite

datatype js_value =
    Js_Null
  | Js_Bool bool
  | Js_Number js_number
  | Js_String ustr
  | Js_Array "js_value list"
  | Js_Object "(ustr \<times> js_value) list"

abbreviation field :: "(ustr \<times> js_value) list \<Rightarrow> string \<Rightarrow> js_value option" where
  "field o' k \<equiv> map_get o' (ascii k)"

definition legacy_keys :: "string list" where
  "legacy_keys = [''namespace'', ''param'', ''before'', ''after'', ''at'', ''reason'', ''signal'', ''action'']"

definition exact_keys :: "(ustr \<times> js_value) list \<Rightarrow> string list \<Rightarrow> bool" where
  "exact_keys kvs ks \<longleftrightarrow> length kvs = length ks \<and> list_all (\<lambda>k. ascii k \<in> set (map_keys kvs)) ks"

definition hex_unit :: "nat \<Rightarrow> bool" where
  "hex_unit u \<longleftrightarrow> 48 \<le> u \<and> u \<le> 57 \<or> 97 \<le> u \<and> u \<le> 102"

definition record_id_ok :: "ustr \<Rightarrow> bool" where
  "record_id_ok t \<longleftrightarrow> length t = 32 \<and> list_all hex_unit t"

definition safe_count :: "rat \<Rightarrow> nat option" where
  "safe_count v = (if is_integer v \<and> 0 \<le> v \<and> v \<le> 2 ^ 53 - 1 then Some (nat \<lfloor>v\<rfloor>) else None)"

definition number_ok :: "rat \<Rightarrow> bool" where "number_ok v \<longleftrightarrow> \<bar>v\<bar> \<le> 1000000000"

definition signal_key_unit :: "nat \<Rightarrow> bool" where
  "signal_key_unit u \<longleftrightarrow> 97 \<le> u \<and> u \<le> 122 \<or> 48 \<le> u \<and> u \<le> 57 \<or> u = 95 \<or> u = 46 \<or> u = 58 \<or> u = 45"

definition signal_key_ok :: "ustr \<Rightarrow> bool" where
  "signal_key_ok k \<longleftrightarrow> length (utf8 k) \<le> 64 \<and>
     (case k of [] \<Rightarrow> False | u # us \<Rightarrow> 97 \<le> u \<and> u \<le> 122 \<and> list_all signal_key_unit us)"

fun signal_entries :: "(ustr \<times> js_value) list \<Rightarrow> (ustr \<times> rat) list option" where
  "signal_entries [] = Some []"
| "signal_entries ((k, v) # kvs) =
     (if \<not> signal_key_ok k then None
      else case v of
        Js_Number (Finite x) \<Rightarrow> if 1000000 < \<bar>x\<bar> then None else map_option ((#) (k, x)) (signal_entries kvs)
      | _ \<Rightarrow> None)"

definition decode_signal :: "js_value \<Rightarrow> (ustr \<times> rat) list option" where
  "decode_signal v = (case v of
     Js_Object kvs \<Rightarrow> if 32 < length kvs then None else signal_entries kvs
   | _ \<Rightarrow> None)"

datatype provenance = Legacy_V0 | V1 | V2

datatype version_result = No_Version | Newer_Version | Version provenance "(ustr \<times> nat) option"

definition decode_version :: "(ustr \<times> js_value) list \<Rightarrow> version_result" where
  "decode_version kvs = (case field kvs ''schemaVersion'' of
     None \<Rightarrow> if exact_keys kvs legacy_keys then Version Legacy_V0 None else No_Version
   | Some (Js_Number (Finite v)) \<Rightarrow>
       if is_integer v \<and> 2 < v then Newer_Version
       else if v = 2
       then (if \<not> exact_keys kvs ([''schemaVersion'', ''recordId'', ''sequence''] @ legacy_keys) then No_Version
             else case (field kvs ''recordId'', field kvs ''sequence'') of
               (Some (Js_String i), Some (Js_Number (Finite n))) \<Rightarrow>
                 if record_id_ok i then (case safe_count n of None \<Rightarrow> No_Version | Some s \<Rightarrow> Version V2 (Some (i, s)))
                 else No_Version
             | _ \<Rightarrow> No_Version)
       else if v = 1 \<and> exact_keys kvs (''schemaVersion'' # legacy_keys) then Version V1 None
       else No_Version
   | Some _ \<Rightarrow> No_Version)"

definition known_param :: "evo_namespace \<Rightarrow> ustr \<Rightarrow> bool" where
  "known_param n p \<longleftrightarrow> (if n = Ns_Context then context_param_of p \<noteq> None
     else p \<in> set (map (ascii \<circ> fst) (other_defaults n)))"

text \<open>The checks on the fields of one record.\<close>

definition record_ok :: "evo_record \<Rightarrow> bool" where
  "record_ok r \<longleftrightarrow> known_param (er_ns r) (er_param r) \<and> number_ok (er_before r) \<and> number_ok (er_after r) \<and>
     (er_ns r = Ns_Context \<longrightarrow> (case context_param_of (er_param r) of None \<Rightarrow> True
        | Some p \<Rightarrow> context_value_ok p (er_before r) \<and> context_value_ok p (er_after r))) \<and>
     instant_ms (er_at r) \<noteq> None \<and> length (utf8 (er_reason r)) \<le> 1024 \<and>
     (er_action r = Stopped \<longrightarrow> er_before r = er_after r) \<and>
     (er_action r = Adjusted \<or> er_action r = Rolled_Back \<longrightarrow> er_before r \<noteq> er_after r)"

datatype decode_result = Valid provenance evo_record | Invalid | Future_Schema

definition decode_fields :: "(ustr \<times> js_value) list \<Rightarrow> (ustr \<times> nat) option \<Rightarrow> evo_record option" where
  "decode_fields kvs identity = (case (field kvs ''namespace'', field kvs ''param'', field kvs ''before'', field kvs ''after'',
      field kvs ''at'', field kvs ''reason'', field kvs ''action'') of
     (Some (Js_String n), Some (Js_String p), Some (Js_Number (Finite b)), Some (Js_Number (Finite a)),
      Some (Js_String t), Some (Js_String why), Some (Js_String act)) \<Rightarrow>
       (case (namespace_of n, Option.bind (field kvs ''signal'') decode_signal, action_of act) of
          (Some ns, Some sig, Some ac) \<Rightarrow> Some \<lparr>er_ns = ns, er_param = p, er_before = b, er_after = a, er_at = t, er_reason = why,
             er_signal = sig, er_action = ac, er_identity = identity\<rparr>
        | _ \<Rightarrow> None)
   | _ \<Rightarrow> None)"

text \<open>\<open>clean\<close> is the removal of secrets from a text.\<close>

definition decode_record :: "(ustr \<Rightarrow> ustr) \<Rightarrow> evo_namespace option \<Rightarrow> js_value \<Rightarrow> decode_result" where
  "decode_record clean expected v = (case v of
     Js_Object kvs \<Rightarrow> (case decode_version kvs of
         No_Version \<Rightarrow> Invalid
       | Newer_Version \<Rightarrow> Future_Schema
       | Version prov identity \<Rightarrow> (case decode_fields kvs identity of
           None \<Rightarrow> Invalid
         | Some r \<Rightarrow>
             if record_ok r \<and> (expected = None \<or> expected = Some (er_ns r)) then Valid prov (r\<lparr>er_reason := clean (er_reason r)\<rparr>)
             else Invalid))
   | _ \<Rightarrow> Invalid)"

section \<open>The lines of a file\<close>

definition line_max :: nat where "line_max = 16 * 1024"

text \<open>The lines between newlines, \<open>None\<close> if one is too long; an empty last line is no line.\<close>

definition chomp :: "nat list \<Rightarrow> nat list" where
  "chomp l = (if l \<noteq> [] \<and> last l = 13 then butlast l else l)"

definition bound_line :: "nat list \<Rightarrow> nat list option" where
  "bound_line l = (if line_max < length l then None else Some (chomp l))"

definition bounded_lines :: "nat list \<Rightarrow> nat list option list" where
  "bounded_lines content = (let ls = split_on 10 content in
     map bound_line (butlast ls @ (if last ls = [] then [] else [last ls])))"

text \<open>What the runtime does with text: parsing and printing JSON, hashes, and the removal of secrets.\<close>

record 'h evo_format =
  ef_parse :: "nat list \<Rightarrow> js_value option"
  ef_print :: "js_value \<Rightarrow> nat list"
  ef_clean :: "ustr \<Rightarrow> ustr"
  ef_digest :: "nat list \<Rightarrow> 'h"

record read_result =
  rr_records :: "(provenance \<times> evo_record) list"
  rr_future :: bool
  rr_time :: "int option"
  rr_seq :: "nat option"

definition no_records :: read_result where
  "no_records = \<lparr>rr_records = [], rr_future = False, rr_time = None, rr_seq = None\<rparr>"

definition regresses :: "read_result \<Rightarrow> evo_record \<Rightarrow> bool" where
  "regresses st r \<longleftrightarrow>
     (case (map_option snd (er_identity r), rr_seq st) of (Some n, Some m) \<Rightarrow> n \<le> m | _ \<Rightarrow> False) \<or>
     (case (instant_ms (er_at r), rr_time st) of (Some t, Some u) \<Rightarrow> t < u | _ \<Rightarrow> False)"

definition read_record :: "bool \<Rightarrow> read_result \<Rightarrow> decode_result \<Rightarrow> read_result" where
  "read_record ordered st d = (case d of
     Invalid \<Rightarrow> st
   | Future_Schema \<Rightarrow> st\<lparr>rr_future := True\<rparr>
   | Valid prov r \<Rightarrow>
       if ordered \<and> regresses st r then st
       else st\<lparr>rr_records := rr_records st @ [(prov, r)],
          rr_time := (if ordered then instant_ms (er_at r) else rr_time st),
          rr_seq := (if ordered \<and> er_identity r \<noteq> None then map_option snd (er_identity r) else rr_seq st)\<rparr>)"

definition decode_line :: "'h evo_format \<Rightarrow> evo_namespace option \<Rightarrow> nat list option \<Rightarrow> decode_result" where
  "decode_line fmt expected l = (case Option.bind l (ef_parse fmt) of
     None \<Rightarrow> Invalid | Some v \<Rightarrow> decode_record (ef_clean fmt) expected v)"

definition read_content :: "'h evo_format \<Rightarrow> evo_namespace option \<Rightarrow> nat list \<Rightarrow> read_result" where
  "read_content fmt expected content =
     foldl (read_record (expected \<noteq> None)) no_records (map (decode_line fmt expected) (bounded_lines content))"

section \<open>The values in force\<close>

definition project_step :: "tuning \<Rightarrow> evo_record \<Rightarrow> tuning" where
  "project_step t r = (case (er_ns r, context_param_of (er_param r)) of
     (Ns_Context, Some p) \<Rightarrow>
       if er_before r \<noteq> t p then t
       else if valid_tuning (t(p := er_after r)) then t(p := er_after r) else t
   | _ \<Rightarrow> t)"

definition project_context :: "evo_record list \<Rightarrow> tuning" where
  "project_context rs = foldl project_step context_default rs"

section \<open>Rolling back\<close>

text \<open>
  The order in which a rollback moves the parameters: each time the first one whose move keeps the
  values valid; \<open>None\<close> if there is none. The fuel is the number of parameters.
\<close>

fun rollback_order :: "nat \<Rightarrow> tuning \<Rightarrow> tuning \<Rightarrow> context_param list \<Rightarrow> (context_param \<times> rat \<times> rat) list option" where
  "rollback_order n target now [] = Some []"
| "rollback_order 0 target now (p # ps) = None"
| "rollback_order (Suc n) target now ps = (case find (\<lambda>p. valid_tuning (now(p := target p))) ps of
     None \<Rightarrow> None
   | Some p \<Rightarrow> map_option ((#) (p, now p, target p)) (rollback_order n target (now(p := target p)) (remove1 p ps)))"

definition rollback_plan :: "tuning \<Rightarrow> tuning \<Rightarrow> (context_param \<times> rat \<times> rat) list option" where
  "rollback_plan target now =
     (let ps = filter (\<lambda>p. target p \<noteq> now p) context_params in rollback_order (length ps) target now ps)"

section \<open>The default values are valid\<close>

lemma decimal_bounds:
  assumes "0 < n"
  shows "of_int n / 10 ^ d * (1 - unit_error) \<le> decimal n d" "decimal n d \<le> of_int n / 10 ^ d * (1 + unit_error)"
proof -
  have x: "Fract n (10 ^ d) = of_int n / 10 ^ d" by (simp add: Fract_of_int_quotient)
  have "0 < (of_int n / 10 ^ d :: rat)" using assms by simp
  then have "\<bar>decimal n d - of_int n / 10 ^ d\<bar> \<le> of_int n / 10 ^ d * unit_error"
    using rnd_close [of "of_int n / 10 ^ d"] unfolding decimal_def x by (simp only: abs_of_pos)
  then have "decimal n d - of_int n / 10 ^ d \<le> of_int n / 10 ^ d * unit_error" "- (of_int n / 10 ^ d * unit_error) \<le> decimal n d - of_int n / 10 ^ d"
    by (simp_all only: abs_le_iff) linarith
  then show "of_int n / 10 ^ d * (1 - unit_error) \<le> decimal n d" "decimal n d \<le> of_int n / 10 ^ d * (1 + unit_error)"
    unfolding right_diff_distrib distrib_left mult_1_right by linarith+
qed

lemma valid_tuning_iff:
  "valid_tuning t \<longleftrightarrow> (\<forall>p. context_value_ok p (t p)) \<and> js_add (t Target_Ratio) (decimal 1 1) \<le> t Compaction_Threshold"
  unfolding valid_tuning_def context_params_def
  by (simp, metis context_param.exhaust)

lemma default_valid: "valid_tuning context_default"
proof -
  have lits: "decimal 65 2 \<le> 66 / 100" "84 / 100 \<le> decimal 85 2" "decimal 85 2 \<le> 86 / 100" "94 / 100 \<le> decimal 95 2"
    "decimal 45 2 \<le> 46 / 100" "59 / 100 \<le> decimal 6 1" "decimal 6 1 \<le> 61 / 100" "74 / 100 \<le> decimal 75 2"
    "0 \<le> decimal 1 1" "decimal 1 1 \<le> 11 / 100"
    using decimal_bounds [of 65 2] decimal_bounds [of 85 2] decimal_bounds [of 95 2] decimal_bounds [of 45 2]
      decimal_bounds [of 6 1] decimal_bounds [of 75 2] decimal_bounds [of 1 1]
    by (simp_all add: unit_error_def)
  let ?s = "decimal 6 1 + decimal 1 1"
  have "js_add (decimal 6 1) (decimal 1 1) \<le> ?s + \<bar>?s\<bar> * unit_error"
    using rnd_close [of ?s] by (simp add: js_add_def abs_le_iff)
  also have "\<dots> \<le> 72 / 100 + 72 / 100 * (1 / 100)"
    using lits by (intro add_mono mult_mono) (simp_all add: unit_error_def)
  also have "\<dots> \<le> decimal 85 2" using lits by simp
  finally have "js_add (decimal 6 1) (decimal 1 1) \<le> decimal 85 2" .
  moreover have "context_value_ok p (context_default p)" for p
    using lits by (cases p) (simp_all add: context_value_ok_def context_default_def param_min_def param_max_def param_integer_def is_integer_def)
  ultimately show ?thesis by (simp add: valid_tuning_iff context_default_def)
qed

lemma project_step_valid: "valid_tuning t \<Longrightarrow> valid_tuning (project_step t r)"
  by (auto simp: project_step_def split: evo_namespace.splits option.splits)

lemma project_valid: "valid_tuning (project_context rs)"
proof -
  have "valid_tuning t \<Longrightarrow> valid_tuning (foldl project_step t rs)" for t
    by (induction rs arbitrary: t) (simp_all add: project_step_valid)
  with default_valid show ?thesis by (simp add: project_context_def)
qed

section \<open>A rollback always finds its way\<close>

definition moved :: "tuning \<Rightarrow> (context_param \<times> rat \<times> rat) list \<Rightarrow> tuning" where
  "moved t ms = foldl (\<lambda>t (p, b, a). t(p := a)) t ms"

text \<open>The moves follow on each other, and every one leaves valid values.\<close>

fun moves_ok :: "tuning \<Rightarrow> (context_param \<times> rat \<times> rat) list \<Rightarrow> bool" where
  "moves_ok t [] = True"
| "moves_ok t ((p, b, a) # ms) = (b = t p \<and> b \<noteq> a \<and> valid_tuning (t(p := a)) \<and> moves_ok (t(p := a)) ms)"

lemma safe_move:
  assumes "valid_tuning target" and "valid_tuning now" and "ps \<noteq> []" and "\<forall>p. p \<notin> set ps \<longrightarrow> now p = target p"
  shows "\<exists>p \<in> set ps. valid_tuning (now(p := target p))"
proof -
  have ok: "context_value_ok p (target p)" "context_value_ok p (now p)" for p using assms(1,2) by (simp_all add: valid_tuning_iff)
  have rt: "js_add (target Target_Ratio) (decimal 1 1) \<le> target Compaction_Threshold"
    "js_add (now Target_Ratio) (decimal 1 1) \<le> now Compaction_Threshold" using assms(1,2) by (simp_all add: valid_tuning_iff)
  have free: "valid_tuning (now(p := target p))" if "p = Keep_Recent \<or> p = Summary_Keep_Recent" for p
    using that ok rt(2) by (auto simp: valid_tuning_iff)
  consider p where "p \<in> set ps" "p = Keep_Recent \<or> p = Summary_Keep_Recent"
    | "set ps = {Compaction_Threshold}" | "set ps = {Target_Ratio}" | "set ps = {Compaction_Threshold, Target_Ratio}"
  proof (cases "Keep_Recent \<in> set ps \<or> Summary_Keep_Recent \<in> set ps")
    case False
    have "p \<in> {Compaction_Threshold, Target_Ratio}" if "p \<in> set ps" for p
      using False that by (cases p) simp_all
    then have "set ps \<subseteq> {Compaction_Threshold, Target_Ratio}" by blast
    then have "set ps = {} \<or> set ps = {Compaction_Threshold} \<or> set ps = {Target_Ratio} \<or> set ps = {Compaction_Threshold, Target_Ratio}"
    proof -
      have "set ps = (if Compaction_Threshold \<in> set ps then {Compaction_Threshold} else {}) \<union> (if Target_Ratio \<in> set ps then {Target_Ratio} else {})"
        using \<open>set ps \<subseteq> {Compaction_Threshold, Target_Ratio}\<close> by (intro equalityI subsetI) (auto split: if_splits)
      then show ?thesis by (cases "Compaction_Threshold \<in> set ps"; cases "Target_Ratio \<in> set ps") (simp_all add: insert_commute)
    qed
    with assms(3) that show ?thesis by auto
  qed (use that in blast)
  then show ?thesis
  proof cases
    case (1 p)
    with free show ?thesis by blast
  next
    case 2
    then have "now Target_Ratio = target Target_Ratio" using assms(4) by simp
    with 2 ok rt(1) show ?thesis by (simp add: valid_tuning_iff)
  next
    case 3
    then have "now Compaction_Threshold = target Compaction_Threshold" using assms(4) by simp
    with 3 ok rt(1) show ?thesis by (simp add: valid_tuning_iff)
  next
    case 4
    show ?thesis
    proof (cases "now Compaction_Threshold \<le> target Compaction_Threshold")
      case True
      then have "valid_tuning (now(Compaction_Threshold := target Compaction_Threshold))"
        using ok rt(2) by (auto simp: valid_tuning_iff)
      with 4 show ?thesis by simp
    next
      case False
      then have "valid_tuning (now(Target_Ratio := target Target_Ratio))"
        using ok rt(1) by (auto simp: valid_tuning_iff)
      with 4 show ?thesis by simp
    qed
  qed
qed

lemma order_found:
  assumes "valid_tuning target" and "valid_tuning now" and "distinct ps" and "n = length ps"
    and "\<forall>p. p \<notin> set ps \<longleftrightarrow> now p = target p"
  shows "\<exists>ms. rollback_order n target now ps = Some ms \<and> moves_ok now ms \<and> moved now ms = target"
  using assms
proof (induction n arbitrary: now ps)
  case 0
  then have "now = target" by auto
  with 0 show ?case by (simp add: moved_def)
next
  case (Suc n)
  then have ne: "ps \<noteq> []" by auto
  have "\<exists>p. find (\<lambda>p. valid_tuning (now(p := target p))) ps = Some p"
  proof -
    have "\<exists>p \<in> set ps. valid_tuning (now(p := target p))" using safe_move [OF Suc.prems(1,2) ne] Suc.prems(5) by blast
    then have "find (\<lambda>p. valid_tuning (now(p := target p))) ps \<noteq> None" unfolding find_None_iff by blast
    then show ?thesis by blast
  qed
  then obtain p where p: "find (\<lambda>p. valid_tuning (now(p := target p))) ps = Some p" by blast
  then have pin: "p \<in> set ps" and v: "valid_tuning (now(p := target p))" by (auto simp: find_Some_iff)
  have diff: "now p \<noteq> target p" using Suc.prems(5) pin by blast
  have "\<forall>q. q \<notin> set (remove1 p ps) \<longleftrightarrow> (now(p := target p)) q = target q"
    using Suc.prems(3,5) by auto
  moreover have "n = length (remove1 p ps)" using Suc.prems(4) pin by (simp only: length_remove1 if_True)
  moreover have "distinct (remove1 p ps)" using Suc.prems(3) by simp
  ultimately obtain ms where ms: "rollback_order n target (now(p := target p)) (remove1 p ps) = Some ms"
    "moves_ok (now(p := target p)) ms" "moved (now(p := target p)) ms = target"
    using Suc.IH [OF Suc.prems(1) v, of "remove1 p ps"] by blast
  have "rollback_order (Suc n) target now ps = Some ((p, now p, target p) # ms)" using ne p ms(1) by (cases ps) simp_all
  with ms v diff show ?case by (simp add: moved_def)
qed

lemma plan_found:
  assumes "valid_tuning target" and "valid_tuning now"
  shows "\<exists>ms. rollback_plan target now = Some ms \<and> moves_ok now ms \<and> moved now ms = target"
  unfolding rollback_plan_def Let_def
proof (rule order_found [OF assms])
  have "p \<in> set context_params" for p by (cases p) (simp_all add: context_params_def)
  then show "\<forall>p. p \<notin> set (filter (\<lambda>p. target p \<noteq> now p) context_params) \<longleftrightarrow> now p = target p" by auto
qed (simp_all add: context_params_def)

end
