(* ===== verification/Evolution_Journal.thy ===== *)
theory Evolution_Journal
  imports Evolution_Records
begin

text \<open>
  The journal of \<open>EvolutionStore\<close>, which guards the append of one record to two files, and the
  recovery after a crash. Files are sequences of bytes; a write of a line may be cut after any byte,
  and a rewrite of the journal first empties it. A missing data file and an empty one are the same to
  the code.
\<close>

section \<open>Disk\<close>

datatype journal_state = Prepared | Namespace_Durable | Both_Durable | Recovery_Required

record 'h txn_journal =
  tj_audit_digest :: 'h
  tj_audit_size :: nat
  tj_ns :: evo_namespace
  tj_ns_digest :: 'h
  tj_ns_size :: nat
  tj_id :: ustr
  tj_line :: "nat list"
  tj_seq :: nat
  tj_state :: journal_state

datatype 'h journal_file = Torn_Journal | Journal "'h txn_journal"

record 'h evo_disk =
  ed_ns :: "evo_namespace \<Rightarrow> nat list"
  ed_audit :: "nat list"
  ed_journal :: "'h journal_file option"

text \<open>What one process remembers of the journal.\<close>

record evo_process =
  pc_clean :: bool
  pc_required :: "string option"

definition fresh_process :: evo_process where
  "fresh_process = \<lparr>pc_clean = False, pc_required = None\<rparr>"

definition decode_journal :: "'h journal_file \<Rightarrow> 'h txn_journal option" where
  "decode_journal f = (case f of
     Torn_Journal \<Rightarrow> None
   | Journal j \<Rightarrow>
       if record_id_ok (tj_id j) \<and> tj_line j \<noteq> [] \<and> last (tj_line j) = 10 \<and> length (tj_line j) \<le> line_max + 1
       then Some j else None)"

section \<open>The transaction\<close>

definition digest_prefix :: "(nat list \<Rightarrow> 'h) \<Rightarrow> nat list \<Rightarrow> nat \<Rightarrow> 'h" where
  "digest_prefix H content len = H (take len content)"

definition prepare_journal :: "(nat list \<Rightarrow> 'h) \<Rightarrow> evo_namespace \<Rightarrow> ustr \<Rightarrow> nat \<Rightarrow> nat list \<Rightarrow> 'h evo_disk \<Rightarrow> 'h txn_journal" where
  "prepare_journal H n i s line d =
     \<lparr>tj_audit_digest = digest_prefix H (ed_audit d) (length (ed_audit d)), tj_audit_size = length (ed_audit d), tj_ns = n,
      tj_ns_digest = digest_prefix H (ed_ns d n) (length (ed_ns d n)), tj_ns_size = length (ed_ns d n), tj_id = i,
      tj_line = line, tj_seq = s, tj_state = Prepared\<rparr>"

type_synonym 'h disk_op = "'h evo_disk \<Rightarrow> 'h evo_disk"

definition write_journal :: "'h txn_journal \<Rightarrow> journal_state \<Rightarrow> 'h disk_op list" where
  "write_journal j st = [\<lambda>d. d\<lparr>ed_journal := Some Torn_Journal\<rparr>, \<lambda>d. d\<lparr>ed_journal := Some (Journal (j\<lparr>tj_state := st\<rparr>))\<rparr>]"

definition append_ns :: "evo_namespace \<Rightarrow> nat list \<Rightarrow> 'h disk_op list" where
  "append_ns n line = map (\<lambda>b d. d\<lparr>ed_ns := (ed_ns d)(n := ed_ns d n @ [b])\<rparr>) line"

definition append_audit :: "nat list \<Rightarrow> 'h disk_op list" where
  "append_audit line = map (\<lambda>b d. d\<lparr>ed_audit := ed_audit d @ [b]\<rparr>) line"

definition txn_steps :: "'h txn_journal \<Rightarrow> 'h disk_op list" where
  "txn_steps j = write_journal j Prepared @ append_ns (tj_ns j) (tj_line j) @ write_journal j Namespace_Durable @
     append_audit (tj_line j) @ write_journal j Both_Durable @ [\<lambda>d. d\<lparr>ed_journal := None\<rparr>]"

definition run_ops :: "'h disk_op list \<Rightarrow> 'h evo_disk \<Rightarrow> 'h evo_disk" where
  "run_ops fs d = foldl (\<lambda>d f. f d) d fs"

text \<open>The transaction cut after \<open>k\<close> of its operations, by a crash or by a failing one.\<close>

definition cut_txn :: "nat \<Rightarrow> 'h txn_journal \<Rightarrow> 'h evo_disk \<Rightarrow> 'h evo_disk" where
  "cut_txn k j d = run_ops (take k (txn_steps j)) d"

section \<open>Recovery\<close>

datatype recovery = Was_Clean | Completed_Txn | Aborted_Txn | Required | Already_Required

definition mark_required :: "string \<Rightarrow> 'h txn_journal option \<Rightarrow> evo_process \<Rightarrow> 'h evo_disk \<Rightarrow> recovery \<times> evo_process \<times> 'h evo_disk" where
  "mark_required why j p d = (Required, p\<lparr>pc_required := Some why\<rparr>,
     (case j of None \<Rightarrow> d | Some j \<Rightarrow> run_ops (write_journal j Recovery_Required) d))"

definition is_prefix_of :: "nat list \<Rightarrow> nat list \<Rightarrow> bool" where
  "is_prefix_of extra line \<longleftrightarrow> length extra \<le> length line \<and> take (length extra) line = extra"

definition recover_journal :: "(nat list \<Rightarrow> 'h) \<Rightarrow> 'h txn_journal \<Rightarrow> evo_process \<Rightarrow> 'h evo_disk \<Rightarrow> recovery \<times> evo_process \<times> 'h evo_disk" where
  "recover_journal H j p d =
     (let ns = ed_ns d (tj_ns j); audit = ed_audit d;
          ns_extra = drop (tj_ns_size j) ns; audit_extra = drop (tj_audit_size j) audit;
          closed = (\<lambda>d. d\<lparr>ed_journal := None\<rparr>)
      in if length ns < tj_ns_size j then mark_required ''namespace shorter'' (Some j) p d
         else if digest_prefix H ns (tj_ns_size j) \<noteq> tj_ns_digest j then mark_required ''namespace diverged'' (Some j) p d
         else if length audit < tj_audit_size j then mark_required ''audit shorter'' (Some j) p d
         else if digest_prefix H audit (tj_audit_size j) \<noteq> tj_audit_digest j then mark_required ''audit diverged'' (Some j) p d
         else if tj_state j = Both_Durable
         then (if ns_extra \<noteq> tj_line j \<or> audit_extra \<noteq> tj_line j then mark_required ''bytes do not match'' (Some j) p d
               else (Completed_Txn, p\<lparr>pc_clean := True\<rparr>, closed d))
         else if \<not> is_prefix_of ns_extra (tj_line j) \<or> \<not> is_prefix_of audit_extra (tj_line j)
         then mark_required ''partial bytes do not belong'' (Some j) p d
         else (Aborted_Txn, p\<lparr>pc_clean := True\<rparr>,
           closed (d\<lparr>ed_ns := (ed_ns d)(tj_ns j := take (tj_ns_size j) ns), ed_audit := take (tj_audit_size j) audit\<rparr>)))"

definition recover_locked :: "(nat list \<Rightarrow> 'h) \<Rightarrow> evo_process \<Rightarrow> 'h evo_disk \<Rightarrow> recovery \<times> evo_process \<times> 'h evo_disk" where
  "recover_locked H p d =
     (if pc_required p \<noteq> None then (Already_Required, p, d)
      else case ed_journal d of
        None \<Rightarrow> (Was_Clean, p\<lparr>pc_clean := True\<rparr>, d)
      | Some f \<Rightarrow> (case decode_journal f of
          None \<Rightarrow> mark_required ''journal unreadable'' None p d
        | Some j \<Rightarrow>
            if tj_state j = Recovery_Required then mark_required ''journal marked'' None p d
            else recover_journal H j p d))"

text \<open>What every operation does first; a process that has found the journal clean does not look again.\<close>

definition ensure_recovered :: "(nat list \<Rightarrow> 'h) \<Rightarrow> evo_process \<Rightarrow> 'h evo_disk \<Rightarrow> evo_process \<times> 'h evo_disk" where
  "ensure_recovered H p d =
     (if pc_required p \<noteq> None \<or> pc_clean p then (p, d)
      else if ed_journal d = None then (p\<lparr>pc_clean := True\<rparr>, d)
      else snd (recover_locked H p d))"

section \<open>Cut transactions\<close>

lemma run_ops_simps [simp]:
  "run_ops [] d = d" "run_ops (f # fs) d = run_ops fs (f d)" "run_ops (fs @ gs) d = run_ops gs (run_ops fs d)"
  by (simp_all add: run_ops_def)

lemma run_append_ns: "run_ops (append_ns n line) d = d\<lparr>ed_ns := (ed_ns d)(n := ed_ns d n @ line)\<rparr>"
  by (induction line arbitrary: d) (simp_all add: append_ns_def)

lemma run_append_audit: "run_ops (append_audit line) d = d\<lparr>ed_audit := ed_audit d @ line\<rparr>"
  by (induction line arbitrary: d) (simp_all add: append_audit_def)

lemma length_appends [simp]: "length (append_ns n line) = length line" "length (append_audit line) = length line"
  by (simp_all add: append_ns_def append_audit_def)

lemma take_appends: "take k (append_ns n line) = append_ns n (take k line)" "take k (append_audit line) = append_audit (take k line)"
  by (simp_all add: append_ns_def append_audit_def take_map)

lemma length_txn: "length (txn_steps j) = 2 * length (tj_line j) + 7"
  by (simp add: txn_steps_def write_journal_def)

text \<open>The two data files after a cut: each holds a part of the line.\<close>

definition files_after :: "nat \<Rightarrow> 'h txn_journal \<Rightarrow> 'h evo_disk \<Rightarrow> 'h evo_disk" where
  "files_after k j d = d\<lparr>ed_ns := (ed_ns d)(tj_ns j := ed_ns d (tj_ns j) @ take (k - 2) (tj_line j)),
     ed_audit := ed_audit d @ take (k - (length (tj_line j) + 4)) (tj_line j)\<rparr>"

definition journal_after :: "nat \<Rightarrow> 'h txn_journal \<Rightarrow> 'h journal_file option" where
  "journal_after k j =
     (let n = length (tj_line j); in_state = (\<lambda>s. Some (Journal (j\<lparr>tj_state := s\<rparr>)))
      in if k = 0 \<or> 2 * n + 7 \<le> k then None
         else if k = 1 \<or> k = n + 3 \<or> k = 2 * n + 5 then Some Torn_Journal
         else if k \<le> n + 2 then in_state Prepared
         else if k \<le> 2 * n + 4 then in_state Namespace_Durable
         else in_state Both_Durable)"

lemma cut_eq:
  assumes "ed_journal d = None"
  shows "cut_txn k j d = (files_after k j d)\<lparr>ed_journal := journal_after k j\<rparr>"
proof -
  define n where "n = length (tj_line j)"
  note defs = cut_txn_def txn_steps_def write_journal_def files_after_def journal_after_def Let_def n_def [symmetric]
    take_appends run_append_ns run_append_audit
  have d: "d\<lparr>ed_journal := None\<rparr> = d" using assms by simp
  consider "k = 0" | "k = 1" | "2 \<le> k" "k \<le> n + 2" | "k = n + 3" | "n + 4 \<le> k" "k \<le> 2 * n + 4"
    | "k = 2 * n + 5" | "k = 2 * n + 6" | "2 * n + 7 \<le> k" by linarith
  then show ?thesis
  proof cases
    case 1
    with assms show ?thesis by (simp add: defs)
  next
    case 2
    then show ?thesis by (simp add: defs)
  next
    case 3
    then obtain i where "k = Suc (Suc i)" "i \<le> n" by (metis Suc_le_D le_Suc_eq add_2_eq_Suc' not_less_eq_eq numeral_2_eq_2)
    then show ?thesis by (auto simp: defs)
  next
    case 4
    then have "k = Suc (Suc (Suc n))" by simp
    then show ?thesis by (simp add: defs)
  next
    case 5
    then obtain i where "k = Suc (Suc (Suc (Suc (n + i))))" "i \<le> n"
      by (intro that [of "k - (n + 4)"]) linarith+
    then show ?thesis by (simp add: defs)
  next
    case 6
    then have "k = Suc (Suc (Suc (Suc (Suc (n + n)))))" by simp
    then show ?thesis by (simp add: defs eval_nat_numeral)
  next
    case 7
    then have "k = Suc (Suc (Suc (Suc (Suc (Suc (n + n))))))" by simp
    then show ?thesis by (simp add: defs eval_nat_numeral)
  next
    case 8
    then obtain i where "k = Suc (Suc (Suc (Suc (Suc (Suc (Suc (n + n + i)))))))"
      by (intro that [of "k - (2 * n + 7)"]) linarith
    then show ?thesis using d by (simp add: defs eval_nat_numeral)
  qed
qed

text \<open>The journal that an append writes.\<close>

definition txn_ok :: "'h txn_journal \<Rightarrow> bool" where
  "txn_ok j \<longleftrightarrow> record_id_ok (tj_id j) \<and> tj_line j \<noteq> [] \<and> last (tj_line j) = 10 \<and> length (tj_line j) \<le> line_max + 1"

lemma decode_ok: "txn_ok j \<Longrightarrow> decode_journal (Journal (j\<lparr>tj_state := s\<rparr>)) = Some (j\<lparr>tj_state := s\<rparr>)"
  by (simp add: txn_ok_def decode_journal_def)

lemma prefix_take: "is_prefix_of (take i line) line"
  by (simp add: is_prefix_of_def min_def)

lemma restore_files:
  "tj_ns_size j = length (ed_ns d (tj_ns j)) \<Longrightarrow> tj_audit_size j = length (ed_audit d) \<Longrightarrow> ed_journal d = None \<Longrightarrow>
   (files_after k j d)\<lparr>ed_journal := x, ed_ns := (ed_ns (files_after k j d))(tj_ns j := take (tj_ns_size j) (ed_ns (files_after k j d) (tj_ns j))),
     ed_audit := take (tj_audit_size j) (ed_audit (files_after k j d)), ed_journal := None\<rparr> = d"
  by (simp add: files_after_def)

definition committed :: "'h txn_journal \<Rightarrow> 'h evo_disk \<Rightarrow> 'h evo_disk" where
  "committed j d = d\<lparr>ed_ns := (ed_ns d)(tj_ns j := ed_ns d (tj_ns j) @ tj_line j), ed_audit := ed_audit d @ tj_line j\<rparr>"

lemma recover_cut:
  assumes clean: "ed_journal d = None" and ok: "txn_ok j" and j: "j = prepare_journal H n i s line d"
    and untorn: "journal_after k j \<noteq> Some Torn_Journal"
  shows "\<exists>o' p. recover_locked H fresh_process (cut_txn k j d) = (o', p, if k < 2 * length line + 6 then d else committed j d) \<and>
    o' \<noteq> Required \<and> pc_required p = None \<and> pc_clean p"
proof -
  let ?N = "length line"
  have jf: "tj_ns j = n" "tj_line j = line" "tj_ns_size j = length (ed_ns d n)" "tj_audit_size j = length (ed_audit d)"
    "tj_ns_digest j = H (ed_ns d n)" "tj_audit_digest j = H (ed_audit d)"
    by (simp_all add: j prepare_journal_def digest_prefix_def)
  have dj: "d\<lparr>ed_journal := None\<rparr> = d" using clean by simp
  have cut: "cut_txn k j d = (files_after k j d)\<lparr>ed_journal := journal_after k j\<rparr>" using clean by (rule cut_eq)
  have pending: "\<exists>o' p. recover_locked H fresh_process (cut_txn k j d) = (o', p, d) \<and> o' \<noteq> Required \<and> pc_required p = None \<and> pc_clean p"
    if "journal_after k j = Some (Journal (j\<lparr>tj_state := st\<rparr>))" "st = Prepared \<or> st = Namespace_Durable" for st
  proof -
    have "recover_journal H (j\<lparr>tj_state := st\<rparr>) fresh_process (cut_txn k j d) = (Aborted_Txn, fresh_process\<lparr>pc_clean := True\<rparr>, d)"
      using that(2) clean unfolding cut
      by (auto simp: recover_journal_def Let_def jf files_after_def digest_prefix_def prefix_take)
    moreover have "st \<noteq> Recovery_Required" using that(2) by auto
    ultimately show ?thesis using that(1) ok
      by (simp add: recover_locked_def cut decode_ok fresh_process_def)
  qed
  consider "k = 0" | "2 * ?N + 7 \<le> k" | "k = 1 \<or> k = ?N + 3 \<or> k = 2 * ?N + 5" | "2 \<le> k" "k \<le> ?N + 2"
    | "?N + 4 \<le> k" "k \<le> 2 * ?N + 4" | "k = 2 * ?N + 6" by linarith
  then show ?thesis
  proof cases
    case 1
    then have "cut_txn k j d = d" by (simp add: cut_txn_def)
    with 1 show ?thesis using clean by (simp add: recover_locked_def fresh_process_def)
  next
    case 2
    have "journal_after k j = None" using 2 by (simp add: journal_after_def jf Let_def)
    moreover have "files_after k j d = committed j d" using 2 by (simp add: files_after_def committed_def jf)
    moreover have "(committed j d)\<lparr>ed_journal := None\<rparr> = committed j d" using clean by (simp add: committed_def)
    moreover have "ed_journal (committed j d) = None" using clean by (simp add: committed_def)
    ultimately show ?thesis using 2 by (simp add: cut recover_locked_def fresh_process_def)
  next
    case 3
    then show ?thesis using untorn by (auto simp: journal_after_def Let_def jf)
  next
    case 4
    then have "journal_after k j = Some (Journal (j\<lparr>tj_state := Prepared\<rparr>))" by (simp add: journal_after_def Let_def jf)
    with pending [of Prepared] 4 show ?thesis by simp
  next
    case 5
    then have "journal_after k j = Some (Journal (j\<lparr>tj_state := Namespace_Durable\<rparr>))" by (simp add: journal_after_def Let_def jf)
    with pending [of Namespace_Durable] 5 show ?thesis by simp
  next
    case 6
    have "journal_after k j = Some (Journal (j\<lparr>tj_state := Both_Durable\<rparr>))" using 6 by (simp add: journal_after_def Let_def jf)
    then have "ed_journal (cut_txn k j d) = Some (Journal (j\<lparr>tj_state := Both_Durable\<rparr>))" by (simp add: cut)
    moreover have "recover_journal H (j\<lparr>tj_state := Both_Durable\<rparr>) fresh_process (cut_txn k j d) =
        (Completed_Txn, fresh_process\<lparr>pc_clean := True\<rparr>, committed j d)"
      using 6 clean unfolding cut
      by (simp add: recover_journal_def Let_def jf files_after_def digest_prefix_def committed_def)
    ultimately show ?thesis using 6 ok
      by (simp add: recover_locked_def decode_ok fresh_process_def)
  qed
qed

lemma recover_torn:
  assumes "ed_journal d = Some Torn_Journal"
  shows "recover_locked H fresh_process d = (Required, fresh_process\<lparr>pc_required := Some ''journal unreadable''\<rparr>, d)"
  using assms by (simp add: recover_locked_def fresh_process_def decode_journal_def mark_required_def)

end
