(* ===== verification/Evolution_Store.thy ===== *)
theory Evolution_Store
  imports Evolution_Journal
begin

text \<open>
  The operations of \<open>EvolutionStore\<close> on the disk, each under the store's lock: reading the values in
  force, appending a record, auditing and rolling back. The random ids are drawn from a list, and a
  transaction may fail after any of its file operations. At the end, the lock itself.
\<close>

section \<open>Reading\<close>

definition history :: "'h evo_format \<Rightarrow> evo_namespace \<Rightarrow> 'h evo_disk \<Rightarrow> read_result" where
  "history fmt n d = read_content fmt (Some n) (ed_ns d n)"

definition history_records :: "read_result \<Rightarrow> evo_record list" where
  "history_records h = map snd (rr_records h)"

definition current_context :: "'h evo_format \<Rightarrow> evo_process \<times> 'h evo_disk \<Rightarrow> tuning \<times> evo_process \<times> 'h evo_disk" where
  "current_context fmt w = (case ensure_recovered (ef_digest fmt) (fst w) (snd w) of (p, d) \<Rightarrow>
     let h = history fmt Ns_Context d
     in (if rr_future h then context_default else project_context (history_records h), p, d))"

definition current_other :: "evo_namespace \<Rightarrow> (string \<times> rat) list" where
  "current_other n = other_defaults n"

definition audit_log :: "'h evo_format \<Rightarrow> evo_namespace option \<Rightarrow> int option \<Rightarrow> evo_process \<times> 'h evo_disk \<Rightarrow>
    (provenance \<times> evo_record) list \<times> evo_process \<times> 'h evo_disk" where
  "audit_log fmt n since w = (case ensure_recovered (ef_digest fmt) (fst w) (snd w) of (p, d) \<Rightarrow>
     (filter (\<lambda>(v, r). (n = None \<or> n = Some (er_ns r)) \<and>
        (case since of None \<Rightarrow> True | Some t \<Rightarrow> (case instant_ms (er_at r) of None \<Rightarrow> False | Some u \<Rightarrow> t \<le> u)))
       (rr_records (read_content fmt None (ed_audit d))), p, d))"

definition health :: "(nat list \<Rightarrow> 'h) \<Rightarrow> evo_process \<times> 'h evo_disk \<Rightarrow> string option \<times> evo_process \<times> 'h evo_disk" where
  "health H w = (case ensure_recovered H (fst w) (snd w) of (p, d) \<Rightarrow> (pc_required p, p, d))"

section \<open>Appending\<close>

definition last_sequence :: "evo_record list \<Rightarrow> nat" where
  "last_sequence rs = foldl (\<lambda>m r. case er_identity r of None \<Rightarrow> m | Some (i, s) \<Rightarrow> max m s) 0 rs"

definition known_ids :: "evo_record list \<Rightarrow> ustr list" where
  "known_ids rs = concat (map (\<lambda>r. case er_identity r of None \<Rightarrow> [] | Some (i, s) \<Rightarrow> [i]) rs)"

definition normalize :: "(ustr \<Rightarrow> ustr) \<Rightarrow> evo_record \<Rightarrow> evo_record option" where
  "normalize clean r = (let r' = r\<lparr>er_reason := clean (er_reason r), er_identity := None\<rparr>
     in if record_ok r' then Some (r'\<lparr>er_reason := clean (er_reason r')\<rparr>) else None)"

text \<open>Whether the record may follow a history.\<close>

definition continues :: "evo_record list \<Rightarrow> evo_record \<Rightarrow> bool" where
  "continues rs r \<longleftrightarrow>
     (rs = [] \<or> (case (instant_ms (er_at r), instant_ms (er_at (last rs))) of (Some t, Some u) \<Rightarrow> u \<le> t | _ \<Rightarrow> True)) \<and>
     (case (er_ns r, context_param_of (er_param r)) of
        (Ns_Context, Some p) \<Rightarrow> er_before r = project_context rs p \<and> valid_tuning ((project_context rs)(p := er_after r))
      | _ \<Rightarrow> True)"

definition enrich :: "ustr list \<Rightarrow> evo_record list \<Rightarrow> evo_record \<Rightarrow> evo_record option" where
  "enrich draws rs r = map_option (\<lambda>i. r\<lparr>er_identity := Some (i, Suc (last_sequence rs))\<rparr>) (find (\<lambda>i. i \<notin> set (known_ids rs)) draws)"

definition type_error :: "string \<Rightarrow> 'a result" where
  "type_error why = throw ''TypeError'' why"

definition prepare_append :: "'h evo_format \<Rightarrow> ustr list \<Rightarrow> evo_record \<Rightarrow> evo_process \<times> 'h evo_disk \<Rightarrow>
    evo_record result \<times> evo_process \<times> 'h evo_disk" where
  "prepare_append fmt draws input w = (case ensure_recovered (ef_digest fmt) (fst w) (snd w) of (p, d) \<Rightarrow>
     (case pc_required p of
        Some why \<Rightarrow> type_error why
      | None \<Rightarrow> (case normalize (ef_clean fmt) input of
          None \<Rightarrow> type_error ''invalid sanitized evolution record''
        | Some r \<Rightarrow>
            let h = history fmt (er_ns r) d; rs = history_records h
            in if rr_future h then type_error ''future evolution schema blocks append''
               else case enrich draws rs r of
                 None \<Rightarrow> type_error ''no fresh record id''
               | Some e \<Rightarrow> if continues rs r then Inr e else type_error ''evolution record continuity mismatch''),
      p, d))"

text \<open>The line that is written for a record, always of the newest version.\<close>

definition wire_value :: "evo_record \<Rightarrow> js_value" where
  "wire_value r = Js_Object (
     [(ascii ''schemaVersion'', Js_Number (Finite 2)),
      (ascii ''namespace'', Js_String (ascii (namespace_name (er_ns r)))), (ascii ''param'', Js_String (er_param r)),
      (ascii ''before'', Js_Number (Finite (er_before r))), (ascii ''after'', Js_Number (Finite (er_after r))),
      (ascii ''at'', Js_String (er_at r)), (ascii ''reason'', Js_String (er_reason r)),
      (ascii ''signal'', Js_Object (map (\<lambda>(k, v). (k, Js_Number (Finite v))) (er_signal r))),
      (ascii ''action'', Js_String (ascii (action_name (er_action r))))] @
     (case er_identity r of None \<Rightarrow> [] | Some (i, s) \<Rightarrow>
        [(ascii ''recordId'', Js_String i), (ascii ''sequence'', Js_Number (Finite (of_nat s)))]))"

definition record_line :: "'h evo_format \<Rightarrow> evo_record \<Rightarrow> nat list" where
  "record_line fmt r = ef_print fmt (wire_value r) @ [10]"

text \<open>The transaction, cut if \<open>fail\<close> says so; only a whole one is remembered as clean.\<close>

definition append_txn :: "'h evo_format \<Rightarrow> nat option \<Rightarrow> evo_record \<Rightarrow> evo_process \<times> 'h evo_disk \<Rightarrow>
    evo_record result \<times> evo_process \<times> 'h evo_disk" where
  "append_txn fmt fail e w = (case er_identity e of
     None \<Rightarrow> (type_error ''no identity'', w)
   | Some (i, s) \<Rightarrow>
       let line = record_line fmt e; j = prepare_journal (ef_digest fmt) (er_ns e) i s line (snd w)
       in if line_max + 1 < length line then (type_error ''evolution record line too large'', w)
          else case fail of
            None \<Rightarrow> (Inr e, (fst w)\<lparr>pc_clean := True\<rparr>, run_ops (txn_steps j) (snd w))
          | Some k \<Rightarrow> (throw ''EIO'' ''write failed'', fst w, cut_txn k j (snd w)))"

definition append_locked :: "'h evo_format \<Rightarrow> ustr list \<Rightarrow> nat option \<Rightarrow> evo_record \<Rightarrow> evo_process \<times> 'h evo_disk \<Rightarrow>
    evo_record result \<times> evo_process \<times> 'h evo_disk" where
  "append_locked fmt draws fail r w = (case prepare_append fmt draws r w of
     (Inl e, w') \<Rightarrow> (Inl e, w')
   | (Inr e, w') \<Rightarrow> append_txn fmt fail e w')"

definition append_record :: "'h evo_format \<Rightarrow> ustr list \<Rightarrow> nat option \<Rightarrow> js_value \<Rightarrow> evo_process \<times> 'h evo_disk \<Rightarrow>
    evo_record result \<times> evo_process \<times> 'h evo_disk" where
  "append_record fmt draws fail input w = (case decode_record (ef_clean fmt) None input of
     Valid prov r \<Rightarrow> append_locked fmt draws fail r w
   | _ \<Rightarrow> (type_error ''invalid evolution record'', w))"

section \<open>Rolling back\<close>

definition rollback_record :: "ustr \<Rightarrow> context_param \<times> rat \<times> rat \<Rightarrow> evo_record" where
  "rollback_record now m = \<lparr>er_ns = Ns_Context, er_param = ascii (context_param_name (fst m)), er_before = fst (snd m),
     er_after = snd (snd m), er_at = now, er_reason = ascii ''manual rollback'', er_signal = [], er_action = Rolled_Back,
     er_identity = None\<rparr>"

fun append_all :: "'h evo_format \<Rightarrow> ustr list \<Rightarrow> evo_record list \<Rightarrow> evo_process \<times> 'h evo_disk \<Rightarrow>
    evo_record list result \<times> evo_process \<times> 'h evo_disk" where
  "append_all fmt draws [] w = (Inr [], w)"
| "append_all fmt draws (r # rs) w = (case append_locked fmt draws None r w of
     (Inl e, w') \<Rightarrow> (Inl e, w')
   | (Inr r', w') \<Rightarrow> (case append_all fmt draws rs w' of (res, w'') \<Rightarrow> (bind_result res (\<lambda>rs. Inr (r' # rs)), w'')))"

definition eligible_records :: "int option \<Rightarrow> evo_record list \<Rightarrow> evo_record list" where
  "eligible_records to rs = (case to of
     None \<Rightarrow> butlast rs
   | Some t \<Rightarrow> filter (\<lambda>r. case instant_ms (er_at r) of None \<Rightarrow> False | Some u \<Rightarrow> u \<le> t) rs)"

text \<open>The history is read before the journal is looked at; \<open>now\<close> is the time of all records here.\<close>

definition rollback :: "'h evo_format \<Rightarrow> ustr list \<Rightarrow> ustr \<Rightarrow> int option \<Rightarrow> evo_process \<times> 'h evo_disk \<Rightarrow>
    evo_record list result \<times> evo_process \<times> 'h evo_disk" where
  "rollback fmt draws now to w =
     (let h = history fmt Ns_Context (snd w); rs = history_records h
      in if rr_future h then (Inr [], w)
         else case rollback_plan (project_context (eligible_records to rs)) (project_context rs) of
           None \<Rightarrow> (type_error ''no safe context rollback order'', w)
         | Some ms \<Rightarrow> append_all fmt draws (map (rollback_record now) ms) w)"

section \<open>The lock\<close>

text \<open>
  The lock file holds the process that created it. A process that has the lock lets any of its calls
  in, and the first of them to leave removes the file. The file of a dead process is replaced.
\<close>

record evo_lock =
  el_file :: "nat option"
  el_held :: "nat list"
  el_dead :: "nat list"
  el_inside :: "(nat \<times> nat) list"

datatype lock_event = Acquire nat nat | Release nat nat | Die nat

text \<open>\<open>None\<close> is a call that waits.\<close>

definition acquire_lock :: "nat \<Rightarrow> nat \<Rightarrow> evo_lock \<Rightarrow> evo_lock option" where
  "acquire_lock p c l =
     (if p \<in> set (el_dead l) then None
      else if p \<in> set (el_held l) then Some (l\<lparr>el_inside := (p, c) # el_inside l\<rparr>)
      else case el_file l of
        None \<Rightarrow> Some (l\<lparr>el_file := Some p, el_held := p # el_held l, el_inside := (p, c) # el_inside l\<rparr>)
      | Some q \<Rightarrow>
          if q \<in> set (el_dead l) then Some (l\<lparr>el_file := Some p, el_held := p # el_held l, el_inside := (p, c) # el_inside l\<rparr>)
          else None)"

definition release_lock :: "nat \<Rightarrow> nat \<Rightarrow> evo_lock \<Rightarrow> evo_lock" where
  "release_lock p c l =
     (let l' = l\<lparr>el_inside := removeAll (p, c) (el_inside l)\<rparr>
      in if p \<in> set (el_held l) then l'\<lparr>el_held := removeAll p (el_held l), el_file := None\<rparr> else l')"

definition lock_event_step :: "evo_lock \<Rightarrow> lock_event \<Rightarrow> evo_lock" where
  "lock_event_step l e = (case e of
     Acquire p c \<Rightarrow> given (acquire_lock p c l) l
   | Release p c \<Rightarrow> (if (p, c) \<in> set (el_inside l) then release_lock p c l else l)
   | Die p \<Rightarrow> l\<lparr>el_dead := p # el_dead l, el_held := removeAll p (el_held l), el_inside := filter (\<lambda>x. fst x \<noteq> p) (el_inside l)\<rparr>)"

definition lock_run :: "lock_event list \<Rightarrow> evo_lock" where
  "lock_run es = foldl lock_event_step \<lparr>el_file = None, el_held = [], el_dead = [], el_inside = []\<rparr> es"

end
