(* ===== verification/Evolution_Engine.thy ===== *)
theory Evolution_Engine
  imports Evolution_Store
begin

text \<open>
  The engine of \<open>packages/core/src/evolution-engine.ts\<close>, which proposes changes of the agent's
  parameters, validates them and rolls them back, over any persistence: a record of its three
  operations on a state. Keys of the engine's maps are a namespace and a parameter. The user's answer
  to a confirmation and the time are arguments.
\<close>

section \<open>Persistence and options\<close>

record 's persistence =
  ps_current :: "evo_namespace \<Rightarrow> 's \<Rightarrow> js_value result \<times> 's"
  ps_append :: "evo_record \<Rightarrow> 's \<Rightarrow> unit result \<times> 's"
  ps_audit :: "('s \<Rightarrow> evo_record list result \<times> 's) option"

record evo_options =
  eo_enabled :: bool
  eo_namespaces :: "evo_namespace list"
  eo_window :: nat
  eo_streak :: nat
  eo_deviation :: rat
  eo_tool_timeouts :: "(ustr \<times> rat) list"

type_synonym evo_key = "evo_namespace \<times> ustr"

type_synonym signal = "(ustr \<times> rat) list"

record evo_engine =
  eg_windows :: "(evo_namespace, signal list) jsmap"
  eg_last :: "(evo_key, evo_record) jsmap"
  eg_worsen :: "(evo_key, nat) jsmap"
  eg_stopped :: "evo_key list"
  eg_restored :: bool

definition new_engine :: evo_engine where
  "new_engine = \<lparr>eg_windows = [], eg_last = [], eg_worsen = [], eg_stopped = [], eg_restored = False\<rparr>"

definition engine_enabled :: "evo_options \<Rightarrow> evo_namespace \<Rightarrow> bool" where
  "engine_enabled opts n \<longleftrightarrow> eo_enabled opts \<and> n \<in> set (eo_namespaces opts)"

section \<open>Parameters and defaults\<close>

definition tool_key :: "ustr \<Rightarrow> ustr" where
  "tool_key name = ascii ''tool:'' @ name @ ascii '':timeout_ms''"

definition tool_unit :: "nat \<Rightarrow> bool" where
  "tool_unit u \<longleftrightarrow> 97 \<le> u \<and> u \<le> 122 \<or> 65 \<le> u \<and> u \<le> 90 \<or> 48 \<le> u \<and> u \<le> 57 \<or> u \<in> {95, 46, 58, 45}"

definition is_tool_param :: "ustr \<Rightarrow> bool" where
  "is_tool_param p \<longleftrightarrow> (let name = take (length p - 16) (drop 5 p) in name \<noteq> [] \<and> list_all tool_unit name \<and> p = tool_key name)"

definition param_allowed :: "evo_namespace \<Rightarrow> ustr \<Rightarrow> bool" where
  "param_allowed n p \<longleftrightarrow> known_param n p \<or> n = Ns_Timeout \<and> is_tool_param p"

definition tuning_entries :: "tuning \<Rightarrow> (ustr \<times> rat) list" where
  "tuning_entries t = map (\<lambda>p. (ascii (context_param_name p), t p)) context_params"

definition engine_defaults :: "evo_options \<Rightarrow> evo_namespace \<Rightarrow> (ustr \<times> rat) list" where
  "engine_defaults opts n = (case n of
     Ns_Context \<Rightarrow> tuning_entries context_default
   | Ns_Timeout \<Rightarrow> foldl (\<lambda>m (k, v). map_set (tool_key k) v m) (map (\<lambda>(k, v). (ascii k, v)) (other_defaults n)) (eo_tool_timeouts opts)
   | _ \<Rightarrow> map (\<lambda>(k, v). (ascii k, v)) (other_defaults n))"

text \<open>An untrusted value as a whole set of parameters, or nothing.\<close>

fun project_fields :: "tuning \<Rightarrow> (ustr \<times> js_value) list \<Rightarrow> tuning option" where
  "project_fields t [] = Some t"
| "project_fields t ((k, v) # kvs) = (case (context_param_of k, v) of
     (Some p, Js_Number (Finite x)) \<Rightarrow> if context_value_ok p x then project_fields (t(p := x)) kvs else None
   | _ \<Rightarrow> None)"

definition project_snapshot :: "js_value \<Rightarrow> tuning option" where
  "project_snapshot v = (case v of
     Js_Object kvs \<Rightarrow> (case project_fields context_default kvs of
         None \<Rightarrow> None | Some t \<Rightarrow> if valid_tuning t then Some t else None)
   | _ \<Rightarrow> None)"

definition engine_tuning :: "evo_options \<Rightarrow> 's persistence \<Rightarrow> 's \<Rightarrow> tuning result \<times> 's" where
  "engine_tuning opts ps s =
     (if \<not> engine_enabled opts Ns_Context then (Inr context_default, s)
      else case ps_current ps Ns_Context s of
        (Inl e, s') \<Rightarrow> (Inl e, s')
      | (Inr v, s') \<Rightarrow> (Inr (given (project_snapshot v) context_default), s'))"

definition engine_values :: "evo_options \<Rightarrow> 's persistence \<Rightarrow> evo_namespace \<Rightarrow> 's \<Rightarrow> (ustr \<times> rat) list result \<times> 's" where
  "engine_values opts ps n s =
     (if n = Ns_Context then (case engine_tuning opts ps s of (r, s') \<Rightarrow> (bind_result r (\<lambda>t. Inr (tuning_entries t)), s'))
      else (Inr (engine_defaults opts n), s))"

section \<open>Steps\<close>

definition ends_with :: "ustr \<Rightarrow> string \<Rightarrow> bool" where
  "ends_with t w \<longleftrightarrow> starts_with (rev t) (rev (ascii w))"

definition contains :: "ustr \<Rightarrow> string \<Rightarrow> bool" where
  "contains t w \<longleftrightarrow> (\<exists>i \<in> set [0..<length t]. starts_with (drop i t) (ascii w))"

text \<open>\<open>None\<close> is no limit.\<close>

definition fixed_step :: "evo_namespace \<Rightarrow> ustr \<Rightarrow> rat option" where
  "fixed_step n p =
     (if n = Ns_Timeout then Some 10000
      else if n = Ns_Retry \<and> p = ascii ''max_retries'' then Some 1
      else if n = Ns_Router \<and> p = ascii ''max_attempts'' then Some 1
      else if ends_with p ''recent'' then Some 2
      else if contains p ''threshold'' \<or> contains p ''ratio'' then Some (decimal 5 2)
      else None)"

definition clamp_step :: "evo_namespace \<Rightarrow> ustr \<Rightarrow> rat \<Rightarrow> rat \<Rightarrow> rat" where
  "clamp_step n p before proposed =
     (let tenth = \<bar>js_mul before (decimal 1 1)\<bar>;
          most = (case fixed_step n p of None \<Rightarrow> tenth | Some s \<Rightarrow> min s tenth);
          delta = max (- most) (min most (js_sub proposed before));
          v = fixed4 (js_add before delta)
      in if n = Ns_Timeout then min 300000 (max 1000 v) else v)"

definition clamp_context :: "context_param \<Rightarrow> rat \<Rightarrow> tuning \<Rightarrow> rat" where
  "clamp_context p v t =
     (let lo = (if p = Compaction_Threshold then max (param_min p) (js_add (t Target_Ratio) (decimal 1 1)) else param_min p);
          hi = (if p = Target_Ratio then min (param_max p) (js_sub (t Compaction_Threshold) (decimal 1 1)) else param_max p);
          bounded = max lo (min hi v)
      in if param_integer p then js_round bounded else fixed4 bounded)"

section \<open>Operations\<close>

definition engine_record :: "ustr \<Rightarrow> evo_key \<Rightarrow> rat \<Rightarrow> rat \<Rightarrow> ustr \<Rightarrow> signal \<Rightarrow> evo_action \<Rightarrow> evo_record" where
  "engine_record now k before after why sig act = \<lparr>er_ns = fst k, er_param = snd k, er_before = before, er_after = after,
     er_at = now, er_reason = why, er_signal = sig, er_action = act, er_identity = None\<rparr>"

text \<open>What the engine remembers of the records of earlier processes.\<close>

definition restore_record :: "evo_engine \<Rightarrow> evo_record \<Rightarrow> evo_engine" where
  "restore_record g r = (let k = (er_ns r, er_param r) in
     if er_ns r \<noteq> Ns_Context then g
     else case er_action r of
       Adjusted \<Rightarrow> g\<lparr>eg_last := map_set k r (eg_last g)\<rparr>
     | Rolled_Back \<Rightarrow> g\<lparr>eg_worsen := map_set k (Suc (given (map_get (eg_worsen g) k) 0)) (eg_worsen g)\<rparr>
     | Stopped \<Rightarrow> g\<lparr>eg_stopped := k # eg_stopped g\<rparr>
     | Confirmation_Rejected \<Rightarrow> g\<lparr>eg_stopped := k # eg_stopped g\<rparr>)"

definition restore :: "'s persistence \<Rightarrow> evo_engine \<times> 's \<Rightarrow> unit result \<times> evo_engine \<times> 's" where
  "restore ps w = (case ps_audit ps of
     None \<Rightarrow> (Inr (), w)
   | Some audit \<Rightarrow>
       if eg_restored (fst w) then (Inr (), w)
       else case audit (snd w) of
         (Inl e, s) \<Rightarrow> (Inl e, fst w, s)
       | (Inr rs, s) \<Rightarrow> (Inr (), (foldl restore_record (fst w) rs)\<lparr>eg_restored := True\<rparr>, s))"

text \<open>The change that a proposal comes to: the values before and after, or none.\<close>

definition proposal :: "evo_options \<Rightarrow> tuning \<Rightarrow> (ustr \<times> rat) list \<Rightarrow> evo_key \<Rightarrow> rat \<Rightarrow> (rat \<times> rat \<times> rat) option" where
  "proposal opts t values k proposed = (case map_get (engine_defaults opts (fst k)) (snd k) of
     None \<Rightarrow> None
   | Some dflt \<Rightarrow>
       let before = given (map_get values (snd k)) dflt; after0 = clamp_step (fst k) (snd k) before proposed
       in case (if fst k = Ns_Context then context_param_of (snd k) else None) of
            None \<Rightarrow> if after0 = before then None else Some (dflt, before, after0)
          | Some p \<Rightarrow>
              let after = clamp_context p after0 t
              in if \<not> valid_tuning (t(p := after)) \<or> after = before then None else Some (dflt, before, after))"

definition deviation :: "rat \<Rightarrow> rat \<Rightarrow> rat" where
  "deviation dflt after = (if dflt = 0 then 0 else js_div \<bar>js_sub after dflt\<bar> \<bar>dflt\<bar>)"

definition rejected_suffix :: string where
  "rejected_suffix = ''; cumulative deviation rejected; parameter restored and frozen''"

definition append_and :: "'s persistence \<Rightarrow> evo_record \<Rightarrow> (evo_engine \<Rightarrow> evo_engine) \<Rightarrow> evo_engine \<times> 's \<Rightarrow>
    evo_record option result \<times> evo_engine \<times> 's" where
  "append_and ps r f w = (case ps_append ps r (snd w) of
     (Inl e, s) \<Rightarrow> (Inl e, fst w, s)
   | (Inr u, s) \<Rightarrow> (Inr (Some r), f (fst w), s))"

definition propose_restored :: "evo_options \<Rightarrow> 's persistence \<Rightarrow> bool \<Rightarrow> ustr \<Rightarrow> evo_key \<Rightarrow> rat \<Rightarrow> ustr \<Rightarrow> signal \<Rightarrow>
    evo_engine \<times> 's \<Rightarrow> evo_record option result \<times> evo_engine \<times> 's" where
  "propose_restored opts ps confirmed now k proposed why sig w =
     (if k \<in> set (eg_stopped (fst w)) \<or> map_get (engine_defaults opts (fst k)) (snd k) = None then (Inr None, w)
      else case (if fst k = Ns_Context then engine_tuning opts ps (snd w) else (Inr context_default, snd w)) of
        (Inl e, s) \<Rightarrow> (Inl e, fst w, s)
      | (Inr t, s) \<Rightarrow>
          let values = (if fst k = Ns_Context then tuning_entries t else engine_defaults opts (fst k)); w' = (fst w, s)
          in case proposal opts t values k proposed of
            None \<Rightarrow> (Inr None, w')
          | Some (dflt, before, after) \<Rightarrow>
              if eo_deviation opts < deviation dflt after \<and> \<not> confirmed
              then append_and ps (engine_record now k before dflt (why @ ascii rejected_suffix) sig Confirmation_Rejected)
                (\<lambda>g. g\<lparr>eg_stopped := k # eg_stopped g\<rparr>) w'
              else let r = engine_record now k before after why sig Adjusted
                in append_and ps r (\<lambda>g. g\<lparr>eg_last := map_set k r (eg_last g)\<rparr>) w')"

definition propose :: "evo_options \<Rightarrow> 's persistence \<Rightarrow> bool \<Rightarrow> ustr \<Rightarrow> evo_key \<Rightarrow> rat \<Rightarrow> ustr \<Rightarrow> signal \<Rightarrow>
    evo_engine \<times> 's \<Rightarrow> evo_record option result \<times> evo_engine \<times> 's" where
  "propose opts ps confirmed now k proposed why sig w =
     (if \<not> engine_enabled opts (fst k) \<or> \<not> param_allowed (fst k) (snd k) then (Inr None, w)
      else case restore ps w of
        (Inl e, w') \<Rightarrow> (Inl e, w')
      | (Inr u, w') \<Rightarrow> propose_restored opts ps confirmed now k proposed why sig w')"

definition worsened_reason :: string where
  "worsened_reason = ''validation window worsened; automatic rollback''"

definition stopped_reason :: string where
  "stopped_reason = ''three consecutive worsening validations; automatic tuning stopped''"

definition validate_restored :: "evo_options \<Rightarrow> 's persistence \<Rightarrow> ustr \<Rightarrow> evo_key \<Rightarrow> bool \<Rightarrow> signal \<Rightarrow> evo_engine \<times> 's \<Rightarrow>
    evo_record option result \<times> evo_engine \<times> 's" where
  "validate_restored opts ps now k worsened sig w = (let g = fst w in case map_get (eg_last g) k of
     None \<Rightarrow> (Inr None, if worsened then w else (g\<lparr>eg_worsen := map_set k 0 (eg_worsen g)\<rparr>, snd w))
   | Some prior \<Rightarrow>
       if \<not> worsened then (Inr None, g\<lparr>eg_worsen := map_set k 0 (eg_worsen g)\<rparr>, snd w)
       else
         let streak = Suc (given (map_get (eg_worsen g) k) 0);
             w1 = (g\<lparr>eg_worsen := map_set k streak (eg_worsen g)\<rparr>, snd w);
             r = engine_record now k (er_after prior) (er_before prior) (ascii worsened_reason) sig Rolled_Back
         in case append_and ps r (\<lambda>g. if eo_streak opts \<le> streak then g\<lparr>eg_stopped := k # eg_stopped g\<rparr> else g) w1 of
              (Inl e, w2) \<Rightarrow> (Inl e, w2)
            | (Inr x, w2) \<Rightarrow>
                if eo_streak opts \<le> streak
                then (case append_and ps (engine_record now k (er_before prior) (er_before prior) (ascii stopped_reason) sig Stopped) (\<lambda>g. g) w2 of
                    (Inl e, w3) \<Rightarrow> (Inl e, w3)
                  | (Inr y, w3) \<Rightarrow> (Inr (Some r), w3))
                else (Inr (Some r), w2))"

definition validate :: "evo_options \<Rightarrow> 's persistence \<Rightarrow> ustr \<Rightarrow> evo_key \<Rightarrow> bool \<Rightarrow> signal \<Rightarrow> evo_engine \<times> 's \<Rightarrow>
    evo_record option result \<times> evo_engine \<times> 's" where
  "validate opts ps now k worsened sig w =
     (if \<not> engine_enabled opts (fst k) \<or> \<not> param_allowed (fst k) (snd k) then (Inr None, w)
      else case restore ps w of
        (Inl e, w') \<Rightarrow> (Inl e, w')
      | (Inr u, w') \<Rightarrow> validate_restored opts ps now k worsened sig w')"

section \<open>Observations\<close>

definition rate :: "signal \<Rightarrow> string \<Rightarrow> rat" where
  "rate sig k = given (map_get sig (ascii k)) 0"

definition value_of :: "(ustr \<times> rat) list \<Rightarrow> string \<Rightarrow> rat" where
  "value_of values k = given (map_get values (ascii k)) 0"

text \<open>The average of a window, for every key in the order of its first occurrence.\<close>

definition window_average :: "signal list \<Rightarrow> signal" where
  "window_average bucket =
     map (\<lambda>k. (k, js_div (foldl (\<lambda>sum item. js_add sum (given (map_get item k) 0)) 0 bucket) (of_nat (length bucket))))
       (rev (remdups (rev (concat (map map_keys bucket)))))"

text \<open>The rule that applies to a window: the parameter, the proposed value and the reason.\<close>

definition evaluate_rule :: "evo_namespace \<Rightarrow> (ustr \<times> rat) list \<Rightarrow> signal \<Rightarrow> (string \<times> rat \<times> string) option" where
  "evaluate_rule n values sig =
     (let fifth = decimal 2 1; tenth = decimal 1 1; half = 1 / 2; step = decimal 5 2
      in case n of
        Ns_Context \<Rightarrow>
          if fifth < rate sig ''post_compact_repeat_rate''
          then Some (''compaction_threshold'', js_add (value_of values ''compaction_threshold'') step, ''post-compaction repeat rate exceeded 0.2'')
          else if tenth < rate sig ''context_length_error_rate''
          then Some (''compaction_threshold'', js_sub (value_of values ''compaction_threshold'') step, ''context length error rate exceeded 0.1'')
          else if fifth < rate sig ''immediate_recompact_rate''
          then Some (''target_ratio'', js_sub (value_of values ''target_ratio'') step, ''immediate recompaction rate exceeded 0.2'')
          else if fifth < rate sig ''keep_outside_window_rate''
          then Some (''keep_recent'', js_add (value_of values ''keep_recent'') 2, ''kept messages frequently fell outside the recent window'')
          else if fifth < rate sig ''summary_recent_loss_rate''
          then Some (''summary_keep_recent'', js_add (value_of values ''summary_keep_recent'') 2, ''recent context was frequently lost after summary'')
          else None
      | Ns_Router \<Rightarrow>
          if half < rate sig ''fallback_success_rate''
          then Some (''cooldown_ms'', js_sub (value_of values ''cooldown_ms'') 10000, ''fallback frequently succeeds; reduce cooldown'')
          else None
      | Ns_Retry \<Rightarrow>
          if half < rate sig ''retry_success_rate''
          then Some (''max_retries'', js_add (value_of values ''max_retries'') 1, ''retries frequently succeed'')
          else if half < rate sig ''retry_failure_rate''
          then Some (''max_retries'', js_sub (value_of values ''max_retries'') 1, ''retries frequently fail'')
          else None
      | Ns_Timeout \<Rightarrow>
          if fifth < rate sig ''timeout_rate'' \<and> fifth < rate sig ''user_retry_rate''
          then Some (''default_timeout_ms'', js_add (value_of values ''default_timeout_ms'') 10000, ''tool timeouts are frequently retried by the user'')
          else None)"

definition evaluate_window :: "evo_options \<Rightarrow> 's persistence \<Rightarrow> bool \<Rightarrow> ustr \<Rightarrow> evo_namespace \<Rightarrow> signal \<Rightarrow> evo_engine \<times> 's \<Rightarrow>
    evo_record option result \<times> evo_engine \<times> 's" where
  "evaluate_window opts ps confirmed now n sig w = (case engine_values opts ps n (snd w) of
     (Inl e, s) \<Rightarrow> (Inl e, fst w, s)
   | (Inr values, s) \<Rightarrow> (case evaluate_rule n values sig of
       None \<Rightarrow> (Inr None, fst w, s)
     | Some (p, x, why) \<Rightarrow> propose opts ps confirmed now (n, ascii p) x (ascii why) sig (fst w, s)))"

definition observe :: "evo_options \<Rightarrow> 's persistence \<Rightarrow> bool \<Rightarrow> ustr \<Rightarrow> evo_namespace \<Rightarrow> signal \<Rightarrow> evo_engine \<times> 's \<Rightarrow>
    evo_record option result \<times> evo_engine \<times> 's" where
  "observe opts ps confirmed now n sig w =
     (if \<not> engine_enabled opts n then (Inr None, w)
      else
        let g = fst w; bucket = given (map_get (eg_windows g) n) [] @ [sig]
        in if length bucket < eo_window opts then (Inr None, g\<lparr>eg_windows := map_set n bucket (eg_windows g)\<rparr>, snd w)
           else evaluate_window opts ps confirmed now n (window_average bucket) (g\<lparr>eg_windows := map_set n [] (eg_windows g)\<rparr>, snd w))"

section \<open>The store as persistence\<close>

text \<open>The value that the engine hands to the store for a record.\<close>

definition record_value :: "evo_record \<Rightarrow> js_value" where
  "record_value r = Js_Object
     [(ascii ''schemaVersion'', Js_Number (Finite 1)),
      (ascii ''namespace'', Js_String (ascii (namespace_name (er_ns r)))), (ascii ''param'', Js_String (er_param r)),
      (ascii ''before'', Js_Number (Finite (er_before r))), (ascii ''after'', Js_Number (Finite (er_after r))),
      (ascii ''at'', Js_String (er_at r)), (ascii ''reason'', Js_String (er_reason r)),
      (ascii ''signal'', Js_Object (map (\<lambda>(k, v). (k, Js_Number (Finite v))) (er_signal r))),
      (ascii ''action'', Js_String (ascii (action_name (er_action r))))]"

definition tuning_value :: "(ustr \<times> rat) list \<Rightarrow> js_value" where
  "tuning_value kvs = Js_Object (map (\<lambda>(k, v). (k, Js_Number (Finite v))) kvs)"

definition store_current :: "'h evo_format \<Rightarrow> evo_namespace \<Rightarrow> evo_process \<times> 'h evo_disk \<Rightarrow> js_value result \<times> evo_process \<times> 'h evo_disk" where
  "store_current fmt n w =
     (if n = Ns_Context then (case current_context fmt w of (t, w') \<Rightarrow> (Inr (tuning_value (tuning_entries t)), w'))
      else (Inr (tuning_value (map (\<lambda>(k, v). (ascii k, v)) (current_other n))), ensure_recovered (ef_digest fmt) (fst w) (snd w)))"

definition store_append :: "'h evo_format \<Rightarrow> ustr list \<Rightarrow> evo_record \<Rightarrow> evo_process \<times> 'h evo_disk \<Rightarrow> unit result \<times> evo_process \<times> 'h evo_disk" where
  "store_append fmt draws r w = (case append_record fmt draws None (record_value r) w of
     (res, w') \<Rightarrow> (bind_result res (\<lambda>e. Inr ()), w'))"

definition store_audit :: "'h evo_format \<Rightarrow> evo_process \<times> 'h evo_disk \<Rightarrow> evo_record list result \<times> evo_process \<times> 'h evo_disk" where
  "store_audit fmt w = (case audit_log fmt None None w of (rs, w') \<Rightarrow> (Inr (map snd rs), w'))"

definition store_persistence :: "'h evo_format \<Rightarrow> ustr list \<Rightarrow> (evo_process \<times> 'h evo_disk) persistence" where
  "store_persistence fmt draws = \<lparr>ps_current = store_current fmt, ps_append = store_append fmt draws, ps_audit = Some (store_audit fmt)\<rparr>"

end
