(* ===== verification/Evolution_Claims.thy ===== *)
theory Evolution_Claims
  imports Evolution_Store
begin

text \<open>
  What the store of tuning records guarantees: an append is atomic under crashes and continues the
  history, the values in force are always safe, and a rollback always finds its way. And where the
  guarantees end: a failed append in a process that runs on, and two calls of one process.
\<close>

section \<open>Crashes\<close>

text \<open>
  C27. An append is atomic under crashes: wherever one cuts the transaction, a new process either
  restores both files as they were, or finds the record in both, and then the journal is gone. Only a
  crash while the journal itself is rewritten cannot be resolved: recovery then touches nothing and
  refuses all changes.
\<close>
theorem crash_recovery_is_atomic:
  assumes "ed_journal d = None" and "j = prepare_journal H n i s line d" and "txn_ok j"
  shows "case recover_locked H fresh_process (cut_txn k j d) of (outcome, p, d') \<Rightarrow>
    if ed_journal (cut_txn k j d) = Some Torn_Journal then outcome = Required \<and> pc_required p \<noteq> None \<and> d' = cut_txn k j d
    else outcome \<noteq> Required \<and> pc_required p = None \<and>
      d' = (if k < 2 * length line + 6 then d
        else d\<lparr>ed_ns := (ed_ns d)(n := ed_ns d n @ line), ed_audit := ed_audit d @ line\<rparr>)"
proof (cases "ed_journal (cut_txn k j d) = Some Torn_Journal")
  case True
  then show ?thesis by (simp add: recover_torn)
next
  case False
  then have "journal_after k j \<noteq> Some Torn_Journal" by (simp add: cut_eq [OF assms(1)])
  from recover_cut [OF assms(1,3,2) this] obtain o' p where
    r: "recover_locked H fresh_process (cut_txn k j d) = (o', p, if k < 2 * length line + 6 then d else committed j d)"
    and ok: "o' \<noteq> Required" "pc_required p = None" by blast
  have "committed j d = d\<lparr>ed_ns := (ed_ns d)(n := ed_ns d n @ line), ed_audit := ed_audit d @ line\<rparr>"
    by (simp add: committed_def assms(2) prepare_journal_def)
  with r ok False show ?thesis by simp
qed

definition demo_disk_empty :: "nat list evo_disk" where
  "demo_disk_empty = \<lparr>ed_ns = (\<lambda>n. []), ed_audit = [], ed_journal = None\<rparr>"

definition demo_id :: ustr where "demo_id = replicate 32 97"

definition demo_journal :: "nat list txn_journal" where
  "demo_journal = prepare_journal (\<lambda>b. b) Ns_Context demo_id 1 [123, 125, 10] demo_disk_empty"

lemma demo_journal_ok: "txn_ok demo_journal"
  by (simp add: txn_ok_def demo_journal_def prepare_journal_def demo_id_def record_id_ok_def hex_unit_def line_max_def list_all_iff)

lemma crash_recovery_is_atomic_witness:
  "snd (snd (recover_locked (\<lambda>b. b) fresh_process (cut_txn 8 demo_journal demo_disk_empty))) = demo_disk_empty"
proof -
  have "ed_journal (cut_txn 8 demo_journal demo_disk_empty) \<noteq> Some Torn_Journal"
    by (simp add: cut_eq demo_disk_empty_def journal_after_def demo_journal_def prepare_journal_def)
  with crash_recovery_is_atomic [OF _ demo_journal_def demo_journal_ok, of 8]
  show ?thesis by (simp add: demo_disk_empty_def split: prod.splits)
qed

text \<open>
  A failed append is forgotten by its own process: when writing to the audit file fails after the
  namespace file has the record, the process does not look at the journal again, and its next append
  overwrites it. From then on the first record is in one file only, and the store reports no problem.
\<close>
theorem failed_append_is_forgotten:
  assumes "pc_clean p" and "pc_required p = None" and "ed_journal d = None"
    and "j = prepare_journal H n i s line d" and "d1 = cut_txn (length line + 4) j d"
    and "d2 = run_ops (txn_steps (prepare_journal H n i' s' line' d1)) d1"
  shows "ensure_recovered H p d1 = (p, d1) \<and> ed_ns d2 n = ed_ns d n @ line @ line' \<and> ed_audit d2 = ed_audit d @ line' \<and>
    fst (health H (p, d2)) = None"
proof -
  have d1: "d1 = (files_after (length line + 4) j d)\<lparr>ed_journal := journal_after (length line + 4) j\<rparr>"
    using assms(3,5) cut_eq by simp
  have run: "run_ops (txn_steps j') d1 = d1\<lparr>ed_ns := (ed_ns d1)(tj_ns j' := ed_ns d1 (tj_ns j') @ tj_line j'),
      ed_audit := ed_audit d1 @ tj_line j', ed_journal := None\<rparr>" for j'
    by (simp add: txn_steps_def write_journal_def run_append_ns run_append_audit)
  have "ed_ns d1 n = ed_ns d n @ line" "ed_audit d1 = ed_audit d"
    using assms(4) by (simp_all add: d1 files_after_def prepare_journal_def)
  then have "ed_ns d2 n = ed_ns d n @ line @ line'" "ed_audit d2 = ed_audit d @ line'"
    by (simp_all add: assms(6) run prepare_journal_def)
  then show ?thesis using assms(1,2) by (simp add: ensure_recovered_def health_def)
qed

lemma failed_append_is_forgotten_witness:
  "ed_audit (run_ops (txn_steps (prepare_journal (\<lambda>b. b) Ns_Context demo_id 2 [91, 93, 10] (cut_txn 7 demo_journal demo_disk_empty)))
     (cut_txn 7 demo_journal demo_disk_empty)) = [91, 93, 10]"
  using failed_append_is_forgotten [of "\<lparr>pc_clean = True, pc_required = None\<rparr>" demo_disk_empty demo_journal "\<lambda>b. b" Ns_Context demo_id 1
      "[123, 125, 10]" "cut_txn 7 demo_journal demo_disk_empty" _ demo_id 2 "[91, 93, 10]"]
  by (simp add: demo_disk_empty_def demo_journal_def)

section \<open>Values\<close>

text \<open>
  The values in force are always safe: whatever bytes the file holds, and whatever recovery found,
  they are within their bounds, and the target ratio is below the threshold by the margin.
\<close>
theorem current_is_always_valid: "valid_tuning (fst (current_context fmt w))"
  by (simp add: current_context_def Let_def project_valid default_valid split: prod.split)

text \<open>
  C28. A rollback is never stuck: for any history and any time there is an order of moves from the
  values in force to those of the eligible records, each move starts where the one before left the
  parameter, and the values are valid after every single one.
\<close>
theorem rollback_always_finds_order:
  "\<exists>ms. rollback_plan (project_context (eligible_records to rs)) (project_context rs) = Some ms \<and>
     moves_ok (project_context rs) ms \<and> moved (project_context rs) ms = project_context (eligible_records to rs)"
  by (rule plan_found) (rule project_valid)+

section \<open>Reading back an append\<close>

lemma ascii_inject [simp]: "ascii s = ascii t \<longleftrightarrow> s = t"
proof
  assume "ascii s = ascii t"
  then show "s = t"
    by (induction s arbitrary: t) (auto simp: ascii_def Cons_eq_map_conv map_eq_Cons_conv)
qed simp

lemma names_back [simp]: "namespace_of (ascii (namespace_name n)) = Some n" "action_of (ascii (action_name a)) = Some a"
  by (cases n; simp add: namespace_of_def namespace_name_def) (cases a; simp add: action_of_def action_name_def)

lemma signal_back: "signal_entries kvs = Some sig \<Longrightarrow> kvs = map (\<lambda>(k, v). (k, Js_Number (Finite v))) sig"
  by (induction kvs arbitrary: sig rule: signal_entries.induct)
    (auto split: if_splits js_value.splits js_number.splits)

definition signal_ok :: "(ustr \<times> rat) list \<Rightarrow> bool" where
  "signal_ok sig \<longleftrightarrow> decode_signal (Js_Object (map (\<lambda>(k, v). (k, Js_Number (Finite v))) sig)) = Some sig"

lemma decoded_signal_ok: "decode_signal v = Some sig \<Longrightarrow> signal_ok sig"
  by (auto simp: decode_signal_def signal_ok_def dest: signal_back split: js_value.splits if_splits)

lemma decoded_record:
  assumes "decode_record clean expected v = Valid prov r"
  shows "signal_ok (er_signal r)"
proof -
  obtain kvs identity r0 where "decode_fields kvs identity = Some r0" and r: "r = r0\<lparr>er_reason := clean (er_reason r0)\<rparr>"
    using assms by (auto simp: decode_record_def split: js_value.splits version_result.splits option.splits if_splits)
  then have "signal_ok (er_signal r0)"
    by (auto simp: decode_fields_def bind_eq_Some_conv dest!: decoded_signal_ok split: option.splits js_value.splits js_number.splits)
  with r show ?thesis by simp
qed

lemma wire_fields:
  assumes "er_identity r = Some (i, s)"
  shows "\<exists>kvs. wire_value r = Js_Object kvs \<and> exact_keys kvs ([''schemaVersion'', ''recordId'', ''sequence''] @ legacy_keys) \<and>
    field kvs ''schemaVersion'' = Some (Js_Number (Finite 2)) \<and> field kvs ''recordId'' = Some (Js_String i) \<and>
    field kvs ''sequence'' = Some (Js_Number (Finite (of_nat s))) \<and>
    decode_fields kvs (Some (i, s)) = map_option (\<lambda>sig. r\<lparr>er_signal := sig\<rparr>)
      (decode_signal (Js_Object (map (\<lambda>(k, v). (k, Js_Number (Finite v))) (er_signal r))))"
  using assms by (auto simp: wire_value_def exact_keys_def legacy_keys_def map_keys_def decode_fields_def split: option.split)

lemma wire_back:
  assumes "er_identity r = Some (i, s)" and "record_id_ok i" and "s < 2 ^ 53" and "signal_ok (er_signal r)" and "record_ok r"
    and "expected = None \<or> expected = Some (er_ns r)"
  shows "decode_record clean expected (wire_value r) = Valid V2 (r\<lparr>er_reason := clean (er_reason r)\<rparr>)"
proof -
  obtain kvs where k: "wire_value r = Js_Object kvs" "exact_keys kvs ([''schemaVersion'', ''recordId'', ''sequence''] @ legacy_keys)"
    "field kvs ''schemaVersion'' = Some (Js_Number (Finite 2))" "field kvs ''recordId'' = Some (Js_String i)"
    "field kvs ''sequence'' = Some (Js_Number (Finite (of_nat s)))"
    "decode_fields kvs (Some (i, s)) = map_option (\<lambda>sig. r\<lparr>er_signal := sig\<rparr>)
      (decode_signal (Js_Object (map (\<lambda>(k, v). (k, Js_Number (Finite v))) (er_signal r))))"
    using wire_fields [OF assms(1)] by blast
  have "safe_count (of_nat s) = Some s"
  proof -
    have "(of_nat s :: rat) \<le> of_nat (2 ^ 53 - 1)" using assms(3) by (intro of_nat_mono) simp
    then show ?thesis by (simp add: safe_count_def is_integer_def)
  qed
  then have v: "decode_version kvs = Version V2 (Some (i, s))" using k(2-5) assms(2) by (simp add: decode_version_def)
  have "decode_fields kvs (Some (i, s)) = Some r" using k(6) assms(4) by (simp add: signal_ok_def)
  with v k(1) assms(5,6) show ?thesis by (auto simp: decode_record_def)
qed

text \<open>What printing and parsing do to a value.\<close>

definition printed :: "'h evo_format \<Rightarrow> js_value \<Rightarrow> bool" where
  "printed fmt v \<longleftrightarrow> ef_print fmt v \<noteq> [] \<and> 10 \<notin> set (ef_print fmt v) \<and> last (ef_print fmt v) \<noteq> 13 \<and> ef_parse fmt (ef_print fmt v) = Some v"

lemma split_append: "split_on d (xs @ d # ys) = split_on d xs @ split_on d ys"
proof (induction xs)
  case (Cons x xs)
  show ?case
  proof (cases "x = d")
    case False
    obtain w ws where w: "split_on d xs = w # ws" using split_on_nonempty by (cases "split_on d xs") auto
    with Cons False show ?thesis by simp
  qed (use Cons in simp)
qed simp

definition whole_lines :: "nat list \<Rightarrow> bool" where
  "whole_lines content \<longleftrightarrow> content = [] \<or> last content = 10"

lemma bounded_snoc:
  assumes "whole_lines content" and "10 \<notin> set l"
  shows "bounded_lines (content @ l @ [10]) = bounded_lines content @ [bound_line l]"
proof (cases "content = []")
  case True
  then show ?thesis using assms(2) split_append [of 10 l "[]"] by (simp add: bounded_lines_def split_on_no_occurrence)
next
  case False
  then obtain c where c: "content = c @ [10]" using assms(1) by (metis append_butlast_last_id whole_lines_def)
  have "split_on 10 (content @ l @ [10]) = split_on 10 c @ [l] @ [[]]"
    using split_append [of 10 c "l @ [10]"] split_append [of 10 l "[]"] assms(2) by (simp add: c split_on_no_occurrence)
  moreover have "split_on 10 content = split_on 10 c @ [[]]" using split_append [of 10 c "[]"] by (simp add: c)
  ultimately show ?thesis by (simp add: bounded_lines_def butlast_append)
qed

text \<open>What an ordered reading remembers: the time and a bound on the numbers of what it accepted.\<close>

definition reading_ok :: "read_result \<Rightarrow> bool" where
  "reading_ok st \<longleftrightarrow> rr_time st = (if rr_records st = [] then None else instant_ms (er_at (snd (last (rr_records st))))) \<and>
     (\<forall>m. rr_seq st = Some m \<longrightarrow> m \<le> last_sequence (history_records st))"

lemma last_sequence_snoc:
  "last_sequence (rs @ [r]) = (case er_identity r of None \<Rightarrow> last_sequence rs | Some (i, s) \<Rightarrow> max (last_sequence rs) s)"
  by (simp add: last_sequence_def split: option.split)

lemma read_record_ok: "reading_ok st \<Longrightarrow> reading_ok (read_record True st d)"
  by (auto simp: read_record_def reading_ok_def history_records_def last_sequence_snoc le_max_iff_disj
      split: decode_result.splits option.splits)

lemma read_content_ok: "reading_ok (read_content fmt (Some n) content)"
proof -
  have "reading_ok st \<Longrightarrow> reading_ok (foldl (read_record True) st ds)" for st ds
    by (induction ds arbitrary: st) (simp_all add: read_record_ok)
  moreover have "reading_ok no_records" by (simp add: reading_ok_def no_records_def)
  ultimately show ?thesis by (simp add: read_content_def)
qed

lemma read_snoc:
  assumes "whole_lines content" and "printed fmt v" and "length (ef_print fmt v) \<le> line_max"
  shows "read_content fmt (Some n) (content @ ef_print fmt v @ [10]) =
    read_record True (read_content fmt (Some n) content) (decode_record (ef_clean fmt) (Some n) v)"
proof -
  have "decode_line fmt (Some n) (bound_line (ef_print fmt v)) = decode_record (ef_clean fmt) (Some n) v"
    using assms(2,3) by (simp add: decode_line_def bound_line_def chomp_def printed_def)
  then show ?thesis using assms(1,2) by (simp add: read_content_def bounded_snoc printed_def)
qed

lemma record_ok_other_reason:
  assumes "record_ok x" and "er_ns y = er_ns x" and "er_param y = er_param x" and "er_before y = er_before x"
    and "er_after y = er_after x" and "er_at y = er_at x" and "er_action y = er_action x" and "length (utf8 (er_reason y)) \<le> 1024"
  shows "record_ok y"
  using assms(1,8) unfolding record_ok_def assms(2-7) by blast

text \<open>What a successful append went through.\<close>

lemma append_shape:
  assumes "pc_clean p" and "pc_required p = None" and "append_locked fmt draws None r0 (p, d) = (Inr e, p', d')"
  shows "\<exists>i r. normalize (ef_clean fmt) r0 = Some r \<and> \<not> rr_future (history fmt (er_ns r0) d) \<and>
    i \<in> set draws \<and> i \<notin> set (known_ids (history_records (history fmt (er_ns r0) d))) \<and>
    e = r\<lparr>er_identity := Some (i, Suc (last_sequence (history_records (history fmt (er_ns r0) d))))\<rparr> \<and>
    continues (history_records (history fmt (er_ns r0) d)) r \<and> append_txn fmt None e (p, d) = (Inr e, p', d')"
proof -
  have rec: "ensure_recovered (ef_digest fmt) p d = (p, d)" using assms(1) by (simp add: ensure_recovered_def)
  obtain e' where e': "prepare_append fmt draws r0 (p, d) = (Inr e', p, d)" and t: "append_txn fmt None e' (p, d) = (Inr e, p', d')"
    using assms(3) rec by (auto simp: append_locked_def prepare_append_def split: sum.splits prod.splits)
  have ee: "e' = e" using t by (auto simp: append_txn_def Let_def type_error_def split: option.splits if_splits)
  obtain r where r: "normalize (ef_clean fmt) r0 = Some r" and h: "\<not> rr_future (history fmt (er_ns r) d)"
    and en: "enrich draws (history_records (history fmt (er_ns r) d)) r = Some e"
    and co: "continues (history_records (history fmt (er_ns r) d)) r"
    using e' rec assms(2) unfolding ee
    by (auto simp: prepare_append_def Let_def type_error_def split: option.splits if_splits)
  have ns: "er_ns r = er_ns r0" using r by (auto simp: normalize_def Let_def split: if_splits)
  obtain i where "find (\<lambda>i. i \<notin> set (known_ids (history_records (history fmt (er_ns r0) d)))) draws = Some i"
    "e = r\<lparr>er_identity := Some (i, Suc (last_sequence (history_records (history fmt (er_ns r0) d))))\<rparr>"
    using en by (auto simp: enrich_def ns)
  moreover from this(1) have "i \<in> set draws" "i \<notin> set (known_ids (history_records (history fmt (er_ns r0) d)))"
    by (auto simp: find_Some_iff)
  ultimately show ?thesis using r h co t unfolding ee ns by blast
qed

lemma append_effect:
  assumes "pc_clean p" and "pc_required p = None" and app: "append_locked fmt draws None r0 (p, d) = (Inr e, p', d')"
    and sig0: "signal_ok (er_signal r0)"
    and "whole_lines (ed_ns d (er_ns e))" and "printed fmt (wire_value e)" and "list_all record_id_ok draws"
    and "ef_clean fmt (er_reason e) = er_reason e" and "length (utf8 (er_reason e)) \<le> 1024"
    and "last_sequence (history_records (history fmt (er_ns e) d)) < 2 ^ 53 - 1"
  shows "let rs = history_records (history fmt (er_ns e) d); rs' = history_records (history fmt (er_ns e) d') in
    rs' = rs @ [e] \<and> (\<exists>i. er_identity e = Some (i, Suc (last_sequence rs)) \<and> i \<notin> set (known_ids rs)) \<and>
    ed_audit d' = ed_audit d @ record_line fmt e \<and> ed_journal d' = None \<and> whole_lines (ed_ns d' (er_ns e)) \<and>
    (\<forall>q. er_ns e = Ns_Context \<longrightarrow> context_param_of (er_param e) = Some q \<longrightarrow>
       fst (current_context fmt (p', d')) = (fst (current_context fmt (p, d)))(q := er_after e))"
proof -
  obtain i r where r: "normalize (ef_clean fmt) r0 = Some r" and h: "\<not> rr_future (history fmt (er_ns r0) d)"
    and fresh: "i \<in> set draws" "i \<notin> set (known_ids (history_records (history fmt (er_ns r0) d)))"
    and e: "e = r\<lparr>er_identity := Some (i, Suc (last_sequence (history_records (history fmt (er_ns r0) d))))\<rparr>"
    and co: "continues (history_records (history fmt (er_ns r0) d)) r" and t: "append_txn fmt None e (p, d) = (Inr e, p', d')"
    using append_shape [OF assms(1-3)] by blast
  define rs where "rs = history_records (history fmt (er_ns r0) d)"
  have ns: "er_ns r = er_ns r0" using r by (auto simp: normalize_def Let_def split: if_splits)
  have fields: "er_ns e = er_ns r0" "er_param e = er_param r" "er_before e = er_before r" "er_after e = er_after r" "er_at e = er_at r"
    "er_signal e = er_signal r" "er_identity e = Some (i, Suc (last_sequence rs))" by (simp_all add: e ns rs_def)
  have ok: "record_ok e"
  proof -
    let ?x = "r0\<lparr>er_reason := ef_clean fmt (er_reason r0), er_identity := None\<rparr>"
    have "record_ok ?x" "r = ?x\<lparr>er_reason := ef_clean fmt (er_reason ?x)\<rparr>"
      using r by (simp_all add: normalize_def Let_def split: if_splits)
    then show ?thesis using assms(9) by (intro record_ok_other_reason [of ?x e]) (simp_all add: e)
  qed
  have sig: "signal_ok (er_signal e)"
    using r sig0 by (auto simp: normalize_def Let_def e split: if_splits)
  have lines: "length (record_line fmt e) \<le> line_max + 1"
    using t by (auto simp: append_txn_def Let_def type_error_def fields split: if_splits)
  then have len: "length (ef_print fmt (wire_value e)) \<le> line_max" by (simp add: record_line_def)
  have d': "d' = d\<lparr>ed_ns := (ed_ns d)(er_ns e := ed_ns d (er_ns e) @ record_line fmt e), ed_audit := ed_audit d @ record_line fmt e, ed_journal := None\<rparr>"
    and p': "p' = p\<lparr>pc_clean := True\<rparr>"
    using t lines
    by (auto simp: append_txn_def Let_def fields txn_steps_def write_journal_def run_append_ns run_append_audit prepare_journal_def)
  have dec: "decode_record (ef_clean fmt) (Some (er_ns e)) (wire_value e) = Valid V2 e"
    using wire_back [OF fields(7) _ _ sig ok, of "Some (er_ns e)" "ef_clean fmt"] fresh(1) assms(7,8,10)
    by (simp add: list_all_iff rs_def fields)
  have "ed_ns d' (er_ns e) = ed_ns d (er_ns e) @ ef_print fmt (wire_value e) @ [10]" by (simp add: d' record_line_def)
  then have read: "history fmt (er_ns e) d' = read_record True (history fmt (er_ns e) d) (Valid V2 e)"
    using read_snoc [OF assms(5,6) len, of "er_ns e"] dec by (simp add: history_def)
  have st: "reading_ok (history fmt (er_ns e) d)" unfolding history_def by (rule read_content_ok)
  let ?h = "history fmt (er_ns e) d"
  have rsh: "rs = map snd (rr_records ?h)" by (simp add: rs_def fields history_records_def)
  have "m \<le> last_sequence rs" if "rr_seq ?h = Some m" for m
    using st that by (simp add: reading_ok_def rs_def fields)
  then have number: "\<not> (case (map_option snd (er_identity e), rr_seq ?h) of (Some n, Some m) \<Rightarrow> n \<le> m | _ \<Rightarrow> False)"
    by (cases "rr_seq ?h") (auto simp: fields(7))
  have "rs = [] \<or> (case (instant_ms (er_at e), instant_ms (er_at (last rs))) of (Some t, Some u) \<Rightarrow> u \<le> t | _ \<Rightarrow> True)"
    using co by (simp add: continues_def rs_def fields)
  moreover have "rr_time ?h = (if rs = [] then None else instant_ms (er_at (last rs)))"
    using st by (simp add: reading_ok_def rsh last_map)
  ultimately have time: "\<not> (case (instant_ms (er_at e), rr_time ?h) of (Some t, Some u) \<Rightarrow> t < u | _ \<Rightarrow> False)"
    by (auto split: option.splits if_splits)
  from number time have calm: "\<not> regresses ?h e" by (simp add: regresses_def)
  then have rs': "history_records (history fmt (er_ns e) d') = rs @ [e]"
    unfolding read history_records_def rsh by (simp add: read_record_def)
  have future: "rr_future (history fmt (er_ns e) d') = rr_future ?h" unfolding read using calm by (simp add: read_record_def)
  have "fst (current_context fmt (p', d')) = (fst (current_context fmt (p, d)))(q := er_after e)"
    if q: "er_ns e = Ns_Context" "context_param_of (er_param e) = Some q" for q
  proof -
    have "project_context (rs @ [e]) = (project_context rs)(q := er_after e)"
    proof -
      have "er_before r = project_context rs q" "valid_tuning ((project_context rs)(q := er_after r))" "er_ns r = Ns_Context"
        using co q by (simp_all add: continues_def fields ns rs_def [symmetric])
      then show ?thesis using q by (simp add: fields project_context_def project_step_def)
    qed
    moreover have "fst (current_context fmt (p', d')) = project_context (rs @ [e])"
      using rs' future h q(1) by (simp add: current_context_def ensure_recovered_def p' Let_def fields)
    moreover have "fst (current_context fmt (p, d)) = project_context rs"
      using h q(1) assms(1) by (simp add: current_context_def ensure_recovered_def Let_def fields rs_def)
    ultimately show ?thesis by simp
  qed
  then show ?thesis
    using rs' fresh(2) by (simp add: Let_def fields rs_def [symmetric] d' whole_lines_def record_line_def)
qed

text \<open>
  An append continues the history: when it succeeds, the next reader finds the same records as
  before and the new one at the end, under a new id and the next number, the audit file has the same
  line, the journal is gone, and the values in force are the old ones with the record's parameter set.
  Assumes that the value printed for the record parses back, and that its reason has no secrets left.
\<close>
theorem append_continues_history:
  assumes "pc_clean p" and "pc_required p = None" and "append_record fmt draws None v (p, d) = (Inr e, p', d')"
    and "whole_lines (ed_ns d (er_ns e))" and "printed fmt (wire_value e)" and "list_all record_id_ok draws"
    and "ef_clean fmt (er_reason e) = er_reason e" and "length (utf8 (er_reason e)) \<le> 1024"
    and "last_sequence (history_records (history fmt (er_ns e) d)) < 2 ^ 53 - 1"
  shows "let rs = history_records (history fmt (er_ns e) d); rs' = history_records (history fmt (er_ns e) d') in
    rs' = rs @ [e] \<and> (\<exists>i. er_identity e = Some (i, Suc (last_sequence rs)) \<and> i \<notin> set (known_ids rs)) \<and>
    ed_audit d' = ed_audit d @ record_line fmt e \<and> ed_journal d' = None \<and> whole_lines (ed_ns d' (er_ns e)) \<and>
    (\<forall>q. er_ns e = Ns_Context \<longrightarrow> context_param_of (er_param e) = Some q \<longrightarrow>
       fst (current_context fmt (p', d')) = (fst (current_context fmt (p, d)))(q := er_after e))"
proof -
  obtain prov r0 where r0: "decode_record (ef_clean fmt) None v = Valid prov r0" and a: "append_locked fmt draws None r0 (p, d) = (Inr e, p', d')"
    using assms(3) by (auto simp: append_record_def type_error_def split: decode_result.splits)
  show ?thesis by (rule append_effect [OF assms(1,2) a decoded_record [OF r0] assms(4-9)])
qed

definition demo_evolution :: evo_record where
  "demo_evolution = \<lparr>er_ns = Ns_Context, er_param = ascii ''keep_recent'', er_before = 20, er_after = 22,
     er_at = ascii ''2026-01-02T03:04:05Z'', er_reason = ascii ''why'', er_signal = [], er_action = Adjusted,
     er_identity = Some (demo_id, 1)\<rparr>"

definition demo_input :: js_value where
  "demo_input = Js_Object [(ascii ''namespace'', Js_String (ascii ''context'')), (ascii ''param'', Js_String (ascii ''keep_recent'')),
     (ascii ''before'', Js_Number (Finite 20)), (ascii ''after'', Js_Number (Finite 22)),
     (ascii ''at'', Js_String (ascii ''2026-01-02T03:04:05Z'')), (ascii ''reason'', Js_String (ascii ''why'')),
     (ascii ''signal'', Js_Object []), (ascii ''action'', Js_String (ascii ''adjusted''))]"

definition demo_format :: "nat list evo_format" where
  "demo_format = \<lparr>ef_parse = (\<lambda>l. if l = [123, 125] then Some (wire_value demo_evolution) else None), ef_print = (\<lambda>v. [123, 125]),
     ef_clean = (\<lambda>t. t), ef_digest = (\<lambda>b. b)\<rparr>"

lemma demo_facts:
  "context_param_of (ascii ''keep_recent'') = Some Keep_Recent" "length (utf8 (ascii ''why'')) = 3"
  by (simp_all add: context_param_of_def context_params_def context_param_name_def utf8_def utf8_point_def is_scalar_def
      is_high_def is_low_def)

lemma demo_evolution_ok: "record_ok (demo_evolution\<lparr>er_identity := x\<rparr>)"
proof -
  have "instant_ms (ascii ''2026-01-02T03:04:05Z'') = Some 1767323045000" by code_simp
  then show ?thesis using demo_facts
    by (simp add: record_ok_def demo_evolution_def known_param_def number_ok_def context_value_ok_def param_min_def param_max_def
        param_integer_def is_integer_def)
qed

lemma demo_decoded: "decode_record (\<lambda>t. t) None demo_input = Valid Legacy_V0 (demo_evolution\<lparr>er_identity := None\<rparr>)"
proof -
  have n: "namespace_of (ascii ''context'') = Some Ns_Context" "action_of (ascii ''adjusted'') = Some Adjusted"
    using names_back(1) [of Ns_Context] names_back(2) [of Adjusted] by (simp_all add: namespace_name_def action_name_def)
  show ?thesis
    using demo_evolution_ok [of None] n
    by (simp add: demo_input_def decode_record_def decode_version_def exact_keys_def legacy_keys_def map_keys_def decode_fields_def
        decode_signal_def demo_evolution_def)
qed

lemma demo_continues: "continues [] (demo_evolution\<lparr>er_identity := None\<rparr>)"
proof -
  have "valid_tuning (context_default(Keep_Recent := 22))"
    using default_valid
    by (auto simp: valid_tuning_iff context_value_ok_def param_min_def param_max_def param_integer_def is_integer_def)
  then show ?thesis using demo_facts(1) by (simp add: continues_def demo_evolution_def project_context_def context_default_def)
qed

lemma demo_append:
  "append_record demo_format [demo_id] None demo_input (\<lparr>pc_clean = True, pc_required = None\<rparr>, demo_disk_empty) =
     (Inr demo_evolution, \<lparr>pc_clean = True, pc_required = None\<rparr>,
      \<lparr>ed_ns = (\<lambda>n. [])(Ns_Context := [123, 125, 10]), ed_audit = [123, 125, 10], ed_journal = None\<rparr>)"
proof -
  have "history demo_format Ns_Context demo_disk_empty = no_records"
    by (simp add: history_def demo_disk_empty_def read_content_def bounded_lines_def)
  then have "prepare_append demo_format [demo_id] (demo_evolution\<lparr>er_identity := None\<rparr>) (\<lparr>pc_clean = True, pc_required = None\<rparr>, demo_disk_empty) =
      (Inr demo_evolution, \<lparr>pc_clean = True, pc_required = None\<rparr>, demo_disk_empty)"
    using demo_evolution_ok [of None] demo_continues
    by (simp add: prepare_append_def ensure_recovered_def normalize_def demo_format_def enrich_def history_records_def no_records_def
        known_ids_def last_sequence_def demo_evolution_def Let_def)
  then show ?thesis
    using demo_decoded
    by (simp add: append_record_def append_locked_def append_txn_def demo_format_def record_line_def line_max_def Let_def
        demo_evolution_def prepare_journal_def txn_steps_def write_journal_def append_ns_def append_audit_def demo_disk_empty_def)
qed

lemma append_continues_history_witness:
  "history_records (history demo_format Ns_Context
     \<lparr>ed_ns = (\<lambda>n. [])(Ns_Context := [123, 125, 10]), ed_audit = [123, 125, 10], ed_journal = (None :: nat list journal_file option)\<rparr>) =
   [demo_evolution]"
proof -
  have h: "history_records (history demo_format Ns_Context demo_disk_empty) = []"
    by (simp add: history_def demo_disk_empty_def read_content_def bounded_lines_def history_records_def no_records_def)
  have i: "list_all record_id_ok [demo_id]" by (simp add: demo_id_def record_id_ok_def hex_unit_def list_all_iff)
  have f: "er_ns demo_evolution = Ns_Context" "er_reason demo_evolution = ascii ''why''" by (simp_all add: demo_evolution_def)
  have pr: "printed demo_format (wire_value demo_evolution)" by (simp add: printed_def demo_format_def)
  have "ef_clean demo_format t = t" for t by (simp add: demo_format_def)
  moreover have "whole_lines (ed_ns demo_disk_empty n)" for n by (simp add: whole_lines_def demo_disk_empty_def)
  ultimately have "history_records (history demo_format Ns_Context
      \<lparr>ed_ns = (\<lambda>n. [])(Ns_Context := [123, 125, 10]), ed_audit = [123, 125, 10], ed_journal = None\<rparr>) =
    history_records (history demo_format Ns_Context demo_disk_empty) @ [demo_evolution]"
    using h demo_facts(2)
    by (intro append_continues_history [OF _ _ demo_append _ pr i, unfolded f Let_def, THEN conjunct1])
      (simp_all add: last_sequence_def del: ascii_simps)
  then show ?thesis unfolding h by simp
qed

section \<open>The lock\<close>

text \<open>No call enters while another one of its process is inside.\<close>

fun one_at_a_time :: "evo_lock \<Rightarrow> lock_event list \<Rightarrow> bool" where
  "one_at_a_time l [] = True"
| "one_at_a_time l (e # es) =
     ((case e of Acquire p c \<Rightarrow> p \<notin> set (map fst (el_inside l)) | _ \<Rightarrow> True) \<and> one_at_a_time (lock_event_step l e) es)"

definition lock_inv :: "evo_lock \<Rightarrow> bool" where
  "lock_inv l \<longleftrightarrow> el_inside l = [] \<and> el_held l = [] \<and> (\<forall>q. el_file l = Some q \<longrightarrow> q \<in> set (el_dead l)) \<or>
     (\<exists>p c. el_inside l = [(p, c)] \<and> el_held l = [p] \<and> el_file l = Some p \<and> p \<notin> set (el_dead l))"

lemma lock_inv_step:
  assumes "lock_inv l" and "case e of Acquire p c \<Rightarrow> p \<notin> set (map fst (el_inside l)) | _ \<Rightarrow> True"
  shows "lock_inv (lock_event_step l e)"
  using assms(1) [unfolded lock_inv_def]
proof (elim disjE exE conjE)
  assume a: "el_inside l = []" "el_held l = []" "\<forall>q. el_file l = Some q \<longrightarrow> q \<in> set (el_dead l)"
  show ?thesis
  proof (cases e)
    case (Acquire p c)
    with a show ?thesis by (auto simp: lock_inv_def lock_event_step_def acquire_lock_def split: option.split)
  qed (use a in \<open>auto simp: lock_inv_def lock_event_step_def\<close>)
next
  fix p c assume a: "el_inside l = [(p, c)]" "el_held l = [p]" "el_file l = Some p" "p \<notin> set (el_dead l)"
  show ?thesis
  proof (cases e)
    case (Acquire q c')
    with a assms(2) show ?thesis by (auto simp: lock_inv_def lock_event_step_def acquire_lock_def)
  next
    case (Release q c')
    with a show ?thesis by (auto simp: lock_inv_def lock_event_step_def release_lock_def)
  next
    case (Die q)
    with a show ?thesis by (auto simp: lock_inv_def lock_event_step_def)
  qed
qed

text \<open>
  The lock excludes as long as every process makes one call at a time: at most one call is inside, also
  when processes die and their lock is taken over.
\<close>
theorem lock_excludes_serial_calls:
  assumes "one_at_a_time \<lparr>el_file = None, el_held = [], el_dead = [], el_inside = []\<rparr> es"
  shows "length (el_inside (lock_run es)) \<le> 1"
proof -
  have "lock_inv l \<Longrightarrow> one_at_a_time l es \<Longrightarrow> lock_inv (foldl lock_event_step l es)" for l
  proof (induction es arbitrary: l)
    case (Cons e es)
    then have "lock_inv (lock_event_step l e)" by (intro lock_inv_step) simp_all
    with Cons show ?case by simp
  qed simp
  from this [OF _ assms] have "lock_inv (lock_run es)" by (simp add: lock_run_def lock_inv_def)
  then show ?thesis by (auto simp: lock_inv_def)
qed

text \<open>
  A rollback does not wait for the appends of its own process: it enters beside one, and when that one
  leaves, the lock file is gone and a call of another process is inside together with the rollback.
\<close>
theorem rollback_joins_append:
  "el_inside (lock_run [Acquire 1 1, Acquire 1 2, Release 1 1, Acquire 2 3]) = [(2, 3), (1, 2)]"
  by code_simp

end
