(* ===== verification/Evolution_Engine_Claims.thy ===== *)
theory Evolution_Engine_Claims
  imports Evolution_Engine Evolution_Claims
begin

text \<open>
  What the engine guarantees on the store: the changes it makes are safe and in force for every later
  reader, and a parameter that was frozen stays frozen after a restart. And that its own freezing after
  three worsening validations is out of reach without new adjustments in between.
\<close>

section \<open>Frozen parameters\<close>

definition freezes :: "evo_record \<Rightarrow> bool" where
  "freezes r \<longleftrightarrow> er_ns r = Ns_Context \<and> (er_action r = Stopped \<or> er_action r = Confirmation_Rejected)"

lemma restored_stopped:
  "(\<exists>r \<in> set rs. freezes r \<and> (er_ns r, er_param r) = k) \<or> k \<in> set (eg_stopped g) \<Longrightarrow>
     k \<in> set (eg_stopped (foldl restore_record g rs))"
proof (induction rs arbitrary: g)
  case (Cons r rs)
  have "(\<exists>r \<in> set rs. freezes r \<and> (er_ns r, er_param r) = k) \<or> k \<in> set (eg_stopped (restore_record g r))"
    using Cons.prems by (auto simp: restore_record_def freezes_def Let_def split: evo_action.splits)
  then show ?case by (simp add: Cons.IH)
qed simp

text \<open>
  A frozen parameter stays frozen: if the audit of the persistence has a record that stopped a
  context parameter, or rejected its change, then an engine of a new process proposes no change of it
  any more and writes nothing.
\<close>
theorem frozen_parameter_stays_frozen:
  assumes "ps_audit ps = Some audit" and "audit s = (Inr rs, s')" and "r \<in> set rs" and "freezes r"
  shows "case propose opts ps confirmed now (Ns_Context, er_param r) proposed why sig (new_engine, s) of
    (result, g, s'') \<Rightarrow> result = Inr None \<and> (s'' = s \<or> s'' = s')"
proof (cases "engine_enabled opts Ns_Context \<and> param_allowed Ns_Context (er_param r)")
  case True
  let ?g = "(foldl restore_record new_engine rs)\<lparr>eg_restored := True\<rparr>"
  have res: "restore ps (new_engine, s) = (Inr (), ?g, s')"
    using assms(1,2) by (simp add: restore_def new_engine_def)
  have "(Ns_Context, er_param r) \<in> set (eg_stopped ?g)"
    using restored_stopped [of rs "(Ns_Context, er_param r)" new_engine] assms(3,4) by (auto simp: freezes_def)
  with True res show ?thesis by (simp add: propose_def propose_restored_def)
qed (auto simp: propose_def)

lemma frozen_parameter_stays_frozen_witness:
  "fst (propose \<lparr>eo_enabled = True, eo_namespaces = [Ns_Context], eo_window = 1, eo_streak = 3, eo_deviation = 1, eo_tool_timeouts = []\<rparr>
     \<lparr>ps_current = (\<lambda>n s. (Inr Js_Null, s)), ps_append = (\<lambda>r s. (Inr (), r # s)), ps_audit = Some (\<lambda>s. (Inr s, s))\<rparr>
     True [] (Ns_Context, ascii ''keep_recent'') 22 [] [] (new_engine, [demo_evolution\<lparr>er_action := Stopped\<rparr>])) = Inr None"
  using frozen_parameter_stays_frozen [of
      "\<lparr>ps_current = (\<lambda>n s. (Inr Js_Null, s)), ps_append = (\<lambda>r s. (Inr (), r # s)), ps_audit = Some (\<lambda>s. (Inr s, s))\<rparr>"
      "\<lambda>s. (Inr s, s)" "[demo_evolution\<lparr>er_action := Stopped\<rparr>]" _ _ "demo_evolution\<lparr>er_action := Stopped\<rparr>"
      "\<lparr>eo_enabled = True, eo_namespaces = [Ns_Context], eo_window = 1, eo_streak = 3, eo_deviation = 1, eo_tool_timeouts = []\<rparr>"
      True "[]" 22 "[]" "[]"]
  by (simp add: freezes_def demo_evolution_def del: ascii_simps split: prod.splits)

section \<open>Changes on the store\<close>

lemma entries_back: "valid_tuning t \<Longrightarrow> project_snapshot (tuning_value (tuning_entries t)) = Some t"
proof -
  assume v: "valid_tuning t"
  have n: "context_param_of (ascii (context_param_name p)) = Some p" for p
    by (cases p) (simp_all add: context_param_of_def context_params_def context_param_name_def del: ascii_simps)
  have ok: "context_value_ok p (t p)" for p using v by (simp add: valid_tuning_iff)
  have "context_default(Compaction_Threshold := t Compaction_Threshold, Target_Ratio := t Target_Ratio, Keep_Recent := t Keep_Recent,
      Summary_Keep_Recent := t Summary_Keep_Recent) = t"
  proof
    fix p show "(context_default(Compaction_Threshold := t Compaction_Threshold, Target_Ratio := t Target_Ratio, Keep_Recent := t Keep_Recent,
      Summary_Keep_Recent := t Summary_Keep_Recent)) p = t p" by (cases p) simp_all
  qed
  then show ?thesis
    using v n ok
    by (simp add: project_snapshot_def tuning_value_def tuning_entries_def context_params_def del: ascii_simps)
qed

lemma tuning_of_store:
  assumes "engine_enabled opts Ns_Context"
  shows "engine_tuning opts (store_persistence fmt draws) w = (Inr (fst (current_context fmt w)), snd (current_context fmt w))"
proof -
  have "valid_tuning (fst (current_context fmt w))"
    by (simp add: current_context_def Let_def project_valid default_valid split: prod.split)
  then show ?thesis
    using assms by (cases "current_context fmt w") (simp add: engine_tuning_def store_persistence_def store_current_def entries_back)
qed

lemma value_back:
  assumes "er_identity r = None" and "decode_record clean None (record_value r) = Valid prov r0"
  shows "r0 = r\<lparr>er_reason := clean (er_reason r)\<rparr> \<and> signal_ok (er_signal r0)"
proof -
  have "\<exists>kvs. record_value r = Js_Object kvs \<and> decode_version kvs = Version V1 None \<and>
    decode_fields kvs None = map_option (\<lambda>sig. r\<lparr>er_signal := sig\<rparr>)
      (decode_signal (Js_Object (map (\<lambda>(k, v). (k, Js_Number (Finite v))) (er_signal r))))"
    using assms(1)
    by (auto simp: record_value_def decode_version_def exact_keys_def legacy_keys_def map_keys_def decode_fields_def is_integer_def
        split: option.split simp del: ascii_simps)
  then obtain sig where sig: "decode_signal (Js_Object (map (\<lambda>(k, v). (k, Js_Number (Finite v))) (er_signal r))) = Some sig"
    and r0: "r0 = r\<lparr>er_signal := sig, er_reason := clean (er_reason r)\<rparr>"
    using assms(2) by (auto simp: decode_record_def split: option.splits if_splits)
  have "map (\<lambda>(k, v). (k, Js_Number (Finite v))) (er_signal r) = map (\<lambda>(k, v). (k, Js_Number (Finite v))) sig"
    using sig by (auto simp: decode_signal_def split: if_splits dest: signal_back)
  then have "sig = er_signal r" by (simp add: inj_map_eq_map inj_on_def)
  with r0 decoded_signal_ok [OF sig] show ?thesis by simp
qed

text \<open>What a proposal writes to the store, if anything.\<close>

lemma store_restored:
  assumes "pc_clean p"
  shows "\<exists>g'. restore (store_persistence fmt draws) (g, p, d) = (Inr (), g', p, d)"
  using assms by (simp add: restore_def store_persistence_def store_audit_def audit_log_def ensure_recovered_def)

lemma store_current_state:
  assumes "pc_clean p"
  shows "\<exists>t. current_context fmt (p, d) = (t, p, d)"
  using assms by (simp add: current_context_def ensure_recovered_def Let_def)

lemma propose_on_store:
  assumes "propose opts (store_persistence fmt draws) confirmed now (Ns_Context, prm) proposed why sig (g, p, d) = (Inr (Some r), g', p', d')"
    and "pc_clean p"
  shows "er_ns r = Ns_Context \<and> er_param r = prm \<and> er_identity r = None \<and> context_param_of prm \<noteq> None \<and>
    store_append fmt draws r (p, d) = (Inr (), p', d')"
proof -
  have en: "engine_enabled opts Ns_Context" "param_allowed Ns_Context prm"
    using assms(1) by (auto simp: propose_def split: if_splits)
  obtain g1 where "restore (store_persistence fmt draws) (g, p, d) = (Inr (), g1, p, d)" using store_restored [OF assms(2)] by blast
  with assms(1) en have pr: "propose_restored opts (store_persistence fmt draws) confirmed now (Ns_Context, prm) proposed why sig (g1, p, d) =
      (Inr (Some r), g', p', d')" by (simp add: propose_def)
  obtain t where "current_context fmt (p, d) = (t, p, d)" using store_current_state [OF assms(2)] by blast
  then have "engine_tuning opts (store_persistence fmt draws) (p, d) = (Inr t, p, d)"
    unfolding tuning_of_store [OF en(1), of fmt draws "(p, d)"] by (simp only: fst_conv snd_conv)
  with pr obtain r1 f where r1: "append_and (store_persistence fmt draws) r1 f (g1, p, d) = (Inr (Some r), g', p', d')"
    "er_ns r1 = Ns_Context" "er_param r1 = prm" "er_identity r1 = None"
    by (auto simp: propose_restored_def Let_def engine_record_def split: if_splits option.splits prod.splits)
  then have "r1 = r" "store_append fmt draws r (p, d) = (Inr (), p', d')"
    by (auto simp: append_and_def store_persistence_def split: sum.splits prod.splits)
  with r1 en(2) show ?thesis by (simp add: param_allowed_def known_param_def)
qed

text \<open>
  A change the engine reports is in force: when a proposal on the store returns a record, then for
  every later reader the parameter has the value of the record, all others are as before, and the
  values are safe. Assumes that the record's line parses back and that its reason has no secrets.
\<close>
theorem reported_change_is_in_force:
  assumes "propose opts (store_persistence fmt draws) confirmed now (Ns_Context, prm) proposed why sig (g, p, d) = (Inr (Some r), g', p', d')"
    and "pc_clean p" and "pc_required p = None" and "whole_lines (ed_ns d Ns_Context)" and "list_all record_id_ok draws"
    and "ef_clean fmt (er_reason r) = er_reason r" and "length (utf8 (er_reason r)) \<le> 1024"
    and "\<forall>i \<in> set draws. printed fmt (wire_value (r\<lparr>er_identity := Some (i, Suc (last_sequence (history_records (history fmt Ns_Context d))))\<rparr>))"
    and "last_sequence (history_records (history fmt Ns_Context d)) < 2 ^ 53 - 1"
  shows "\<exists>q. context_param_of prm = Some q \<and>
    fst (current_context fmt (p', d')) = (fst (current_context fmt (p, d)))(q := er_after r) \<and>
    valid_tuning (fst (current_context fmt (p', d')))"
proof -
  have shape: "er_ns r = Ns_Context" "er_param r = prm" "er_identity r = None" "context_param_of prm \<noteq> None"
    and app: "store_append fmt draws r (p, d) = (Inr (), p', d')"
    using propose_on_store [OF assms(1,2)] by simp_all
  obtain e where "append_record fmt draws None (record_value r) (p, d) = (Inr e, p', d')"
    using app by (auto simp: store_append_def bind_result_Inr_iff split: prod.splits)
  then obtain prov r0 where r0: "decode_record (ef_clean fmt) None (record_value r) = Valid prov r0"
    and al: "append_locked fmt draws None r0 (p, d) = (Inr e, p', d')"
    by (auto simp: append_record_def type_error_def split: decode_result.splits)
  have "r0 = r\<lparr>er_reason := ef_clean fmt (er_reason r)\<rparr> \<and> signal_ok (er_signal r0)" by (rule value_back [OF shape(3) r0])
  then have r0r: "r0 = r" and sig: "signal_ok (er_signal r0)" by (auto simp: assms(6))
  obtain i r1 where n: "normalize (ef_clean fmt) r0 = Some r1" and i: "i \<in> set draws"
    and e: "e = r1\<lparr>er_identity := Some (i, Suc (last_sequence (history_records (history fmt (er_ns r0) d))))\<rparr>"
    using append_shape [OF assms(2,3) al] by blast
  have "r1 = r" using n assms(6) shape(3) by (auto simp: normalize_def Let_def r0r split: if_splits)
  then have er: "e = r\<lparr>er_identity := Some (i, Suc (last_sequence (history_records (history fmt Ns_Context d))))\<rparr>"
    by (simp add: e r0r shape(1))
  have f: "er_ns e = Ns_Context" "er_param e = prm" "er_after e = er_after r" "er_reason e = er_reason r"
    by (simp_all add: er shape)
  have "printed fmt (wire_value e)" using assms(8) i by (simp add: er)
  from append_effect [OF assms(2,3) al sig _ this assms(5)] f assms(4,6,7,9) shape(4)
  obtain q where "context_param_of prm = Some q" "fst (current_context fmt (p', d')) = (fst (current_context fmt (p, d)))(q := er_after r)"
    by (auto simp: Let_def)
  moreover have "valid_tuning (fst (current_context fmt (p', d')))"
    by (simp add: current_context_def Let_def project_valid default_valid split: prod.split)
  ultimately show ?thesis by blast
qed

definition demo_evo_options :: evo_options where
  "demo_evo_options = \<lparr>eo_enabled = True, eo_namespaces = [Ns_Context], eo_window = 1, eo_streak = 3, eo_deviation = 1,
     eo_tool_timeouts = []\<rparr>"

lemma rnd_between: "l \<le> x - \<bar>x\<bar> / 1000 \<Longrightarrow> x + \<bar>x\<bar> / 1000 \<le> u \<Longrightarrow> l \<le> rnd x \<and> rnd x \<le> u"
proof -
  assume "l \<le> x - \<bar>x\<bar> / 1000" "x + \<bar>x\<bar> / 1000 \<le> u"
  moreover have "\<bar>x\<bar> * unit_error \<le> \<bar>x\<bar> * (1 / 1000)" by (rule mult_left_mono) (simp_all add: unit_error_def)
  moreover have "rnd x - x \<le> \<bar>rnd x - x\<bar>" "x - rnd x \<le> \<bar>rnd x - x\<bar>" by simp_all
  ultimately show ?thesis using rnd_close [of x] by linarith
qed

lemma demo_clamped: "clamp_context Keep_Recent (clamp_step Ns_Context (ascii ''keep_recent'') 20 22) t = 22"
proof -
  have step: "fixed_step Ns_Context (ascii ''keep_recent'') = Some 2"
    by (simp add: fixed_step_def ends_with_def)
  define tenth where "tenth = \<bar>js_mul 20 (decimal 1 1)\<bar>"
  have "99 / 1000 \<le> decimal 1 1 \<and> decimal 1 1 \<le> 101 / 1000"
    unfolding decimal_def by (rule rnd_between) (simp_all add: Fract_of_int_quotient)
  then have t: "19 / 10 \<le> tenth" "tenth \<le> 21 / 10"
    using rnd_between [of "19 / 10" "20 * decimal 1 1" "21 / 10"] by (simp_all add: tenth_def js_mul_def)
  have s: "19 / 10 \<le> js_sub 22 20 \<and> js_sub 22 20 \<le> 21 / 10" unfolding js_sub_def by (rule rnd_between) simp_all
  define delta where "delta = max (- min 2 tenth) (min (min 2 tenth) (js_sub 22 20))"
  have d: "19 / 10 \<le> delta" "delta \<le> 21 / 10" using t s by (auto simp: delta_def)
  define v where "v = js_add 20 delta"
  have "\<bar>20 + delta\<bar> = 20 + delta" using d by simp
  then have v: "218 / 10 \<le> v \<and> v \<le> 222 / 10" unfolding v_def js_add_def using d by (intro rnd_between) (simp_all add: field_simps)
  define n where "n = \<lfloor>v * 10000 + 1 / 2\<rfloor>"
  have "217999 \<le> n" "n \<le> 222001" using v by (auto simp: n_def le_floor_iff floor_le_iff)
  then have "(of_int 217999 :: rat) \<le> of_int n" "(of_int n :: rat) \<le> of_int 222001" by (simp_all only: of_int_le_iff)
  then have "(217999 :: rat) \<le> of_int n" "(of_int n :: rat) \<le> 222001" by simp_all
  then have "217 / 10 \<le> decimal n 4 \<and> decimal n 4 \<le> 223 / 10"
    unfolding decimal_def by (intro rnd_between) (simp_all add: Fract_of_int_quotient)
  then have f: "217 / 10 \<le> fixed4 v" "fixed4 v \<le> 223 / 10" using v by (simp_all add: fixed4_def n_def)
  have "clamp_step Ns_Context (ascii ''keep_recent'') 20 22 = fixed4 v"
    unfolding clamp_step_def step Let_def by (simp add: v_def delta_def tenth_def)
  moreover have "js_round (max 15 (min 25 (fixed4 v))) = 22"
    using f by (auto simp: js_round_def floor_eq_iff)
  ultimately show ?thesis by (simp add: clamp_context_def Let_def param_min_def param_max_def param_integer_def)
qed

lemma demo_proposed:
  "propose demo_evo_options (store_persistence demo_format [demo_id]) True (ascii ''2026-01-02T03:04:05Z'') (Ns_Context, ascii ''keep_recent'') 22
     (ascii ''why'') [] (new_engine, \<lparr>pc_clean = True, pc_required = None\<rparr>, demo_disk_empty) =
   (Inr (Some (demo_evolution\<lparr>er_identity := None\<rparr>)),
    new_engine\<lparr>eg_last := [((Ns_Context, ascii ''keep_recent''), demo_evolution\<lparr>er_identity := None\<rparr>)], eg_restored := True\<rparr>,
    \<lparr>pc_clean = True, pc_required = None\<rparr>,
    \<lparr>ed_ns = (\<lambda>n. [])(Ns_Context := [123, 125, 10]), ed_audit = [123, 125, 10], ed_journal = None\<rparr>)"
proof -
  let ?w = "(\<lparr>pc_clean = True, pc_required = None\<rparr>, demo_disk_empty)" and ?k = "(Ns_Context, ascii ''keep_recent'')"
  let ?r = "demo_evolution\<lparr>er_identity := None\<rparr>" and ?t = "ascii ''2026-01-02T03:04:05Z''"
  have en: "engine_enabled demo_evo_options Ns_Context" by (simp add: engine_enabled_def demo_evo_options_def)
  have res: "restore (store_persistence demo_format [demo_id]) (new_engine, ?w) = (Inr (), new_engine\<lparr>eg_restored := True\<rparr>, ?w)"
    by (simp add: restore_def store_persistence_def store_audit_def audit_log_def ensure_recovered_def new_engine_def
        read_content_def bounded_lines_def no_records_def demo_disk_empty_def)
  have cur: "current_context demo_format ?w = (context_default, ?w)"
    by (simp add: current_context_def ensure_recovered_def history_def read_content_def bounded_lines_def no_records_def
        demo_disk_empty_def history_records_def project_context_def)
  have tun: "engine_tuning demo_evo_options (store_persistence demo_format [demo_id]) ?w = (Inr context_default, ?w)"
    unfolding tuning_of_store [OF en] cur by (simp only: fst_conv snd_conv)
  have look: "map_get (tuning_entries context_default) (ascii ''keep_recent'') = Some 20"
    by (simp add: tuning_entries_def context_params_def context_param_name_def context_default_def del: ascii_simps)
  have "valid_tuning (context_default(Keep_Recent := 22))"
    using default_valid
    by (auto simp: valid_tuning_iff context_value_ok_def param_min_def param_max_def param_integer_def is_integer_def)
  then have pro: "proposal demo_evo_options context_default (tuning_entries context_default) ?k 22 = Some (20, 20, 22)"
    using look demo_facts(1) demo_clamped
    by (simp add: proposal_def engine_defaults_def Let_def)
  have rec: "engine_record ?t ?k 20 22 (ascii ''why'') [] Adjusted = ?r" by (simp add: engine_record_def demo_evolution_def)
  have n: "namespace_of (ascii ''context'') = Some Ns_Context" "action_of (ascii ''adjusted'') = Some Adjusted"
    using names_back(1) [of Ns_Context] names_back(2) [of Adjusted] by (simp_all add: namespace_name_def action_name_def)
  have "decode_record (\<lambda>t. t) None (record_value ?r) = Valid V1 ?r"
    using demo_evolution_ok [of None]
    by (simp add: record_value_def decode_record_def decode_version_def exact_keys_def legacy_keys_def map_keys_def decode_fields_def
        decode_signal_def is_integer_def demo_evolution_def del: ascii_simps)
  moreover have "append_locked demo_format [demo_id] None ?r ?w = (Inr demo_evolution, \<lparr>pc_clean = True, pc_required = None\<rparr>,
      \<lparr>ed_ns = (\<lambda>n. [])(Ns_Context := [123, 125, 10]), ed_audit = [123, 125, 10], ed_journal = None\<rparr>)"
    using demo_append demo_decoded by (simp add: append_record_def demo_format_def)
  ultimately have app: "store_append demo_format [demo_id] ?r ?w = (Inr (), \<lparr>pc_clean = True, pc_required = None\<rparr>,
      \<lparr>ed_ns = (\<lambda>n. [])(Ns_Context := [123, 125, 10]), ed_audit = [123, 125, 10], ed_journal = None\<rparr>)"
    by (simp add: store_append_def append_record_def demo_format_def)
  have ps: "ps_append (store_persistence demo_format [demo_id]) = store_append demo_format [demo_id]" by (simp add: store_persistence_def)
  have al: "param_allowed Ns_Context (ascii ''keep_recent'')" using demo_facts(1) by (simp add: param_allowed_def known_param_def del: ascii_simps)
  have ed: "map_get (engine_defaults demo_evo_options Ns_Context) (ascii ''keep_recent'') = Some 20" using look by (simp add: engine_defaults_def)
  show ?thesis
    unfolding propose_def fst_conv snd_conv res
    using en al ed pro tun app rec
    by (simp add: propose_restored_def append_and_def ps new_engine_def Let_def del: ascii_simps)
qed

lemma reported_change_is_in_force_witness:
  "fst (current_context demo_format (\<lparr>pc_clean = True, pc_required = None\<rparr>,
     \<lparr>ed_ns = (\<lambda>n. [])(Ns_Context := [123, 125, 10]), ed_audit = [123, 125, 10], ed_journal = (None :: nat list journal_file option)\<rparr>))
   Keep_Recent = 22"
proof -
  have i: "list_all record_id_ok [demo_id]" by (simp add: demo_id_def record_id_ok_def hex_unit_def list_all_iff)
  have h: "history_records (history demo_format Ns_Context demo_disk_empty) = []"
    by (simp add: history_def demo_disk_empty_def read_content_def bounded_lines_def history_records_def no_records_def)
  have r: "demo_evolution\<lparr>er_identity := None, er_identity := Some (demo_id, Suc (last_sequence []))\<rparr> = demo_evolution"
    by (simp add: demo_evolution_def last_sequence_def)
  have pr: "printed demo_format (wire_value demo_evolution)" by (simp add: printed_def demo_format_def)
  have "ef_clean demo_format t = t" for t by (simp add: demo_format_def)
  moreover have "whole_lines (ed_ns demo_disk_empty n)" for n by (simp add: whole_lines_def demo_disk_empty_def)
  moreover have "er_reason (demo_evolution\<lparr>er_identity := None\<rparr>) = ascii ''why''" by (simp add: demo_evolution_def)
  ultimately obtain q where "context_param_of (ascii ''keep_recent'') = Some q"
    "fst (current_context demo_format (\<lparr>pc_clean = True, pc_required = None\<rparr>,
     \<lparr>ed_ns = (\<lambda>n. [])(Ns_Context := [123, 125, 10]), ed_audit = [123, 125, 10], ed_journal = None\<rparr>)) =
     (fst (current_context demo_format (\<lparr>pc_clean = True, pc_required = None\<rparr>, demo_disk_empty)))(q := er_after (demo_evolution\<lparr>er_identity := None\<rparr>))"
    using reported_change_is_in_force [OF demo_proposed _ _ _ i] h r pr demo_facts(2) by (auto simp: last_sequence_def)
  then show ?thesis using demo_facts(1) by (simp add: demo_evolution_def)
qed

end
