(* ===== verification/Web_Fetch.thy ===== *)
theory Web_Fetch
  imports Utf8 Provider "HOL-Library.Word"
begin

unbundle bit_operations_syntax

text \<open>
  The tool that fetches web pages, \<open>packages/tools/src/web-fetch.ts\<close>: the addresses it refuses, the
  limit on requests, and one call of \<open>invoke\<close> with its redirects and the reading of the body. The URL
  parser, the recogniser of IPv6 addresses and the conversion of texts to numbers are parameters, as
  are the resolver and the transport, which act on a world \<open>'w\<close> that also holds the clock and the
  abort signal. What the transport was asked for is logged (a ghost: no branch reads it).
\<close>

section \<open>URLs\<close>

record web_url =
  wu_protocol :: string
  wu_username :: string
  wu_password :: string
  wu_hostname :: string
  wu_host :: string
  wu_pathname :: string
  wu_hash :: string
  wu_origin :: string

definition fetch_parse_url :: "(string \<Rightarrow> web_url option) \<Rightarrow> string \<Rightarrow> web_url result" where
  "fetch_parse_url new_url value = (case new_url value of
     None \<Rightarrow> throw ''web_fetch_url_invalid'' ''WebFetch requires a valid absolute URL''
   | Some url \<Rightarrow>
       if wu_protocol url \<noteq> ''http:'' \<and> wu_protocol url \<noteq> ''https:''
       then throw ''web_fetch_url_invalid'' ''WebFetch only permits http: and https: URLs''
       else if wu_username url \<noteq> [] \<or> wu_password url \<noteq> []
       then throw ''web_fetch_url_invalid'' ''WebFetch forbids URL credentials''
       else Inr (url\<lparr>wu_hash := []\<rparr>))"

definition canonical_web_origin :: "(string \<Rightarrow> web_url option) \<Rightarrow> string \<Rightarrow> string result" where
  "canonical_web_origin new_url value =
     bind_result (fetch_parse_url new_url value) (\<lambda>url. Inr (wu_origin url))"

section \<open>Forbidden addresses\<close>

text \<open>\<open>isIP\<close> of the runtime for version 4: four decimal octets without leading zeros.\<close>

definition digit_of :: "char \<Rightarrow> nat option" where
  "digit_of c = (let n = of_char c :: nat in if 48 \<le> n \<and> n \<le> 57 then Some (n - 48) else None)"

fun decimal_value :: "nat \<Rightarrow> string \<Rightarrow> nat option" where
  "decimal_value acc [] = Some acc"
| "decimal_value acc (c # cs) =
     (case digit_of c of None \<Rightarrow> None | Some d \<Rightarrow> decimal_value (acc * 10 + d) cs)"

definition octet_value :: "string \<Rightarrow> nat option" where
  "octet_value s = (case s of
     [] \<Rightarrow> None
   | c # cs \<Rightarrow> if c = CHR ''0'' \<and> cs \<noteq> [] then None
              else (case decimal_value 0 s of
                      None \<Rightarrow> None | Some n \<Rightarrow> if n \<le> 255 then Some n else None))"

definition ipv4_octets :: "string \<Rightarrow> nat list option" where
  "ipv4_octets s = (let os = map octet_value (split_on CHR ''.'' s) in
     if length os = 4 \<and> None \<notin> set os then Some (map the os) else None)"

datatype ip_version = Ip_None | Ip_V4 | Ip_V6

definition is_ip :: "(string \<Rightarrow> bool) \<Rightarrow> string \<Rightarrow> ip_version" where
  "is_ip is_v6 s = (if ipv4_octets s \<noteq> None then Ip_V4 else if is_v6 s then Ip_V6 else Ip_None)"

definition ipv4_number :: "string \<Rightarrow> 32 word option" where
  "ipv4_number s =
     map_option (foldl (\<lambda>out octet. out * 256 + of_nat octet) 0) (ipv4_octets s)"

text \<open>The bit operators take 32-bit integers; a shift of -1 to the left leaves the ones above.\<close>

definition v4_mask :: "nat \<Rightarrow> 32 word" where
  "v4_mask bits = (if bits = 0 then 0 else push_bit (32 - bits) (- 1))"

definition in_v4_range :: "32 word \<Rightarrow> string \<Rightarrow> nat \<Rightarrow> bool" where
  "in_v4_range v base bits =
     (v AND v4_mask bits = the (ipv4_number base) AND v4_mask bits)"

definition forbidden_v4_ranges :: "(string \<times> nat) list" where
  "forbidden_v4_ranges =
     [(''0.0.0.0'', 8), (''10.0.0.0'', 8), (''100.64.0.0'', 10), (''127.0.0.0'', 8),
      (''169.254.0.0'', 16), (''172.16.0.0'', 12), (''192.0.0.0'', 24), (''192.0.2.0'', 24),
      (''192.168.0.0'', 16), (''198.18.0.0'', 15), (''198.51.100.0'', 24), (''203.0.113.0'', 24),
      (''224.0.0.0'', 4), (''240.0.0.0'', 4)]"

definition normalized_ipv6 :: "string \<Rightarrow> string" where
  "normalized_ipv6 s = hd (split_on CHR ''%'' (map lower_char s))"

definition forbidden_v4 :: "32 word \<Rightarrow> bool" where
  "forbidden_v4 v = list_ex (\<lambda>(base, bits). in_v4_range v base bits) forbidden_v4_ranges"

definition is_forbidden_address :: "(string \<Rightarrow> bool) \<Rightarrow> string \<Rightarrow> bool" where
  "is_forbidden_address is_v6 address = (case is_ip is_v6 address of
     Ip_V4 \<Rightarrow> forbidden_v4 (the (ipv4_number address))
   | Ip_None \<Rightarrow> True
   | Ip_V6 \<Rightarrow>
       let value = normalized_ipv6 address
       in if starts_with value ''::ffff:''
          then (let mapped = drop 7 value
                in if is_ip is_v6 mapped = Ip_V4 then forbidden_v4 (the (ipv4_number mapped)) else True)
          else value = ''::'' \<or> value = ''::1'' \<or> starts_with value ''fc'' \<or> starts_with value ''fd'' \<or>
               (starts_with value ''fe'' \<and> length value > 2 \<and> value ! 2 \<in> set ''89ab'') \<or>
               starts_with value ''ff'' \<or> starts_with value ''2001:db8:'')"

section \<open>Host names and the limit on requests\<close>

definition metadata_hosts :: "string list" where
  "metadata_hosts = [''metadata'', ''metadata.google.internal'', ''instance-data'', ''instance-data.ec2.internal'']"

definition ends_with_text :: "string \<Rightarrow> string \<Rightarrow> bool" where
  "ends_with_text s p = starts_with (rev s) (rev p)"

definition without_final_dot :: "string \<Rightarrow> string" where
  "without_final_dot s = (if ends_with_text s ''.'' then butlast s else s)"

definition validate_hostname :: "string \<Rightarrow> unit result" where
  "validate_hostname hostname =
     (let normalized = without_final_dot (map lower_char hostname)
      in if normalized = ''localhost'' \<or> ends_with_text normalized ''.localhost'' \<or>
            ends_with_text normalized ''.local'' \<or> normalized \<in> set metadata_hosts
         then throw ''web_fetch_target_forbidden'' ''WebFetch blocked a local or metadata hostname''
         else Inr ())"

type_synonym request_log = "(string, int list) jsmap"

definition rate_limit :: "nat \<Rightarrow> string \<Rightarrow> int \<Rightarrow> request_log \<Rightarrow> unit result \<times> request_log" where
  "rate_limit per_minute hostname now reqs =
     (let recent = filter (\<lambda>t. now - t < 60000) (given (map_get reqs hostname) [])
      in if length recent \<ge> per_minute
         then (throw ''web_fetch_rate_limited'' ''WebFetch rate limit exceeded'', reqs)
         else (Inr (), map_set hostname (recent @ [now]) reqs))"

section \<open>One call\<close>

definition allowed_content_type :: "string option \<Rightarrow> bool" where
  "allowed_content_type value = (case truthy value of
     None \<Rightarrow> False
   | Some v \<Rightarrow>
       let type = map lower_char (trim (hd (split_on CHR '';'' v)))
       in starts_with type ''text/'' \<or> type = ''application/json'' \<or> ends_with_text type ''+json'' \<or>
          type = ''application/xml'' \<or> ends_with_text type ''+xml'' \<or> type = ''application/xhtml+xml'')"

text \<open>
  A body is the list of its pulls; a pull yields a chunk (\<open>Inr (Some bytes)\<close>), the end, or rejects.
  A list that is used up has ended.
\<close>

type_synonym 'w body_pull = "'w \<Rightarrow> (volund_error + nat list option) \<times> 'w"

record 'w web_response =
  wr_status :: nat
  wr_location :: "string option"
  wr_type :: "string option"
  wr_encoding :: "string option"
  wr_length :: "string option"
  wr_body :: "'w body_pull list"

record 'w web_ports =
  wp_new_url :: "string \<Rightarrow> web_url option"
  wp_relative :: "string \<Rightarrow> web_url \<Rightarrow> string option"
  wp_is_v6 :: "string \<Rightarrow> bool"
  wp_number :: "string option \<Rightarrow> jsnum"
  wp_resolver :: "string \<Rightarrow> 'w \<Rightarrow> (volund_error + string list) \<times> 'w"
  wp_transport :: "web_url \<Rightarrow> string \<Rightarrow> 'w \<Rightarrow> (volund_error + 'w web_response) \<times> 'w"
  wp_aborted :: "'w \<Rightarrow> bool"
  wp_now :: "'w \<Rightarrow> int"

record web_limits =
  wl_max_bytes :: nat
  wl_max_characters :: nat
  wl_max_redirects :: nat
  wl_per_minute :: nat

definition default_limits :: web_limits where
  "default_limits = \<lparr>wl_max_bytes = 1048576, wl_max_characters = 87500, wl_max_redirects = 5,
     wl_per_minute = 10\<rparr>"

record 'w fetch_state =
  fs_world :: 'w
  fs_requests :: request_log
  fs_contacts :: "(web_url \<times> string) list"

definition signal_abort :: "'a result" where
  "signal_abort = throw ''AbortError'' ''''"

text \<open>
  \<open>abortable\<close>: the operation has begun, so it acts on the world; its result is lost when the signal
  was raised before. A signal raised while it waits is a rejection, which is up to the operation.
\<close>

definition abortable ::
  "'w web_ports \<Rightarrow> ('w \<Rightarrow> 'a result \<times> 'w) \<Rightarrow> 'w fetch_state \<Rightarrow> 'a result \<times> 'w fetch_state" where
  "abortable p operation s = (let (r, w) = operation (fs_world s)
     in (if wp_aborted p (fs_world s) then signal_abort else r, s\<lparr>fs_world := w\<rparr>))"

fun read_body ::
  "'w web_ports \<Rightarrow> nat \<Rightarrow> 'w body_pull list \<Rightarrow> nat list \<Rightarrow> 'w fetch_state
    \<Rightarrow> nat list result \<times> 'w fetch_state" where
  "read_body p max_bytes [] got s =
     (if wp_aborted p (fs_world s) then (signal_abort, s) else (Inr got, s))"
| "read_body p max_bytes (pull # pulls) got s =
     (case abortable p pull s of
        (Inl e, s') \<Rightarrow> (Inl e, s')
      | (Inr None, s') \<Rightarrow> (Inr got, s')
      | (Inr (Some chunk), s') \<Rightarrow>
          if wp_aborted p (fs_world s') then (signal_abort, s')
          else if length got + length chunk > max_bytes
          then (throw ''web_fetch_response_too_large'' ''WebFetch response exceeds the byte limit'', s')
          else read_body p max_bytes pulls (got @ chunk) s')"

definition too_long :: "web_limits \<Rightarrow> jsnum \<Rightarrow> bool" where
  "too_long l declared = (case declared of Fin x \<Rightarrow> x > of_nat (wl_max_bytes l) | _ \<Rightarrow> False)"

definition truncation_note :: ustr where
  "truncation_note = 10 # ascii ''[... WebFetch output truncated ...]''"

record fetched =
  fe_text :: ustr
  fe_bytes :: nat
  fe_truncated :: bool

text \<open>What a response with a status below 300 gives.\<close>

definition read_response ::
  "'w web_ports \<Rightarrow> web_limits \<Rightarrow> 'w web_response \<Rightarrow> 'w fetch_state \<Rightarrow> fetched result \<times> 'w fetch_state" where
  "read_response p l response s =
     (if wr_status response < 200 \<or> wr_status response \<ge> 300
      then (throw ''web_fetch_http_failed'' (''WebFetch received HTTP '' @ show_nat (wr_status response)), s)
      else if \<not> allowed_content_type (wr_type response)
      then (throw ''web_fetch_content_type_unsupported'' ''WebFetch rejected a non-text content type'', s)
      else if truthy (map_option (map lower_char) (wr_encoding response)) \<notin> {None, Some ''identity''}
      then (throw ''web_fetch_encoding_unsupported'' ''WebFetch rejected an encoded response'', s)
      else if too_long l (wp_number p (wr_length response))
      then (throw ''web_fetch_response_too_large'' ''WebFetch response exceeds the byte limit'', s)
      else (case read_body p (wl_max_bytes l) (wr_body response) [] s of
          (Inl e, s') \<Rightarrow> (Inl e, s')
        | (Inr bytes, s') \<Rightarrow>
            (let text = decode_utf8 bytes
             in (Inr (if length text > wl_max_characters l
                      then \<lparr>fe_text = take (wl_max_characters l) text @ truncation_note,
                             fe_bytes = length bytes, fe_truncated = True\<rparr>
                      else \<lparr>fe_text = text, fe_bytes = length bytes, fe_truncated = False\<rparr>), s'))))"

definition limit_requests ::
  "'w web_ports \<Rightarrow> web_limits \<Rightarrow> string \<Rightarrow> 'w fetch_state \<Rightarrow> unit result \<times> 'w fetch_state" where
  "limit_requests p l hostname s =
     (let (r, reqs) = rate_limit (wl_per_minute l) hostname (wp_now p (fs_world s)) (fs_requests s)
      in (r, s\<lparr>fs_requests := reqs\<rparr>))"

text \<open>From the check of the host name to the response.\<close>

definition contact ::
  "'w web_ports \<Rightarrow> web_url \<Rightarrow> 'w fetch_state \<Rightarrow> 'w web_response result \<times> 'w fetch_state" where
  "contact p url s =
     (if wp_aborted p (fs_world s) then (signal_abort, s)
      else (case validate_hostname (wu_hostname url) of
          Inl e \<Rightarrow> (Inl e, s)
        | Inr _ \<Rightarrow> (case abortable p (wp_resolver p (wu_hostname url)) s of
              (Inl e, s1) \<Rightarrow> (Inl e, s1)
            | (Inr addresses, s1) \<Rightarrow>
                if wp_aborted p (fs_world s1) then (signal_abort, s1)
                else if addresses = [] \<or> list_ex (is_forbidden_address (wp_is_v6 p)) addresses
                then (throw ''web_fetch_target_forbidden''
                        ''WebFetch blocked a private, reserved, or unresolved address'', s1)
                else abortable p (wp_transport p url (hd addresses))
                       (s1\<lparr>fs_contacts := fs_contacts s1 @ [(url, hd addresses)]\<rparr>))))"

text \<open>Where a redirect leads: \<open>redirect\<close> were followed before it.\<close>

definition redirect_target ::
  "'w web_ports \<Rightarrow> web_limits \<Rightarrow> string \<Rightarrow> web_url \<Rightarrow> nat \<Rightarrow> 'w web_response \<Rightarrow> web_url result" where
  "redirect_target p l permitted url redirect response = (case truthy (wr_location response) of
     None \<Rightarrow> throw ''web_fetch_redirect_invalid'' ''WebFetch redirect omitted Location''
   | Some location \<Rightarrow>
       if redirect \<ge> wl_max_redirects l
       then throw ''web_fetch_redirect_limit_exceeded'' ''WebFetch redirect limit exceeded''
       else (case wp_relative p location url of
           None \<Rightarrow> throw ''TypeError'' ''Invalid URL''
         | Some href \<Rightarrow> bind_result (fetch_parse_url (wp_new_url p) href) (\<lambda>url'.
             if wu_origin url' \<noteq> permitted
             then throw ''web_fetch_redirect_forbidden''
                    ''WebFetch blocked a redirect outside the permitted origin''
             else Inr url')))"

function fetch_loop ::
  "'w web_ports \<Rightarrow> web_limits \<Rightarrow> string \<Rightarrow> web_url \<Rightarrow> nat \<Rightarrow> 'w fetch_state
    \<Rightarrow> fetched result \<times> 'w fetch_state" where
  "fetch_loop p l permitted url redirect s = (case contact p url s of
     (Inl e, s1) \<Rightarrow> (Inl e, s1)
   | (Inr response, s1) \<Rightarrow>
       if 300 \<le> wr_status response \<and> wr_status response < 400
       then (case redirect_target p l permitted url redirect response of
           Inl e \<Rightarrow> (Inl e, s1)
         | Inr url' \<Rightarrow> (case limit_requests p l (wu_hostname url') s1 of
               (Inl e, s2) \<Rightarrow> (Inl e, s2)
             | (Inr _, s2) \<Rightarrow> fetch_loop p l permitted url' (Suc redirect) s2))
       else read_response p l response s1)"
  by pat_completeness auto

lemma redirect_target_bound:
  "redirect_target p l permitted url redirect response = Inr url' \<Longrightarrow> redirect < wl_max_redirects l"
  by (auto simp: redirect_target_def split: option.splits if_splits)

termination fetch_loop
  by (relation "measure (\<lambda>(p, l, permitted, url, redirect, s). wl_max_redirects l - redirect)")
     (auto dest: redirect_target_bound)

declare fetch_loop.simps [simp del]

datatype fetch_outcome = Fetched fetched | Fetch_Failed volund_error | Fetch_Cancelled

definition fetch_invoke ::
  "'w web_ports \<Rightarrow> web_limits \<Rightarrow> string \<Rightarrow> 'w fetch_state \<Rightarrow> fetch_outcome \<times> 'w fetch_state" where
  "fetch_invoke p l input s =
     (let (r, s') = (case fetch_parse_url (wp_new_url p) input of
          Inl e \<Rightarrow> (Inl e, s)
        | Inr url \<Rightarrow> (case limit_requests p l (wu_hostname url) s of
              (Inl e, s1) \<Rightarrow> (Inl e, s1)
            | (Inr _, s1) \<Rightarrow> fetch_loop p l (wu_origin url) url 0 s1))
      in (case r of
            Inr f \<Rightarrow> Fetched f
          | Inl e \<Rightarrow> if wp_aborted p (fs_world s') then Fetch_Cancelled else Fetch_Failed e, s'))"

end
