(* ===== verification/Web_Fetch_Claims.thy ===== *)
theory Web_Fetch_Claims
  imports Web_Fetch
begin

text \<open>
  What the tool that fetches web pages guarantees: which IPv4 addresses it refuses, whom a call contacts,
  and how many requests the limit lets through; and that some spellings of IPv6 addresses get past it.
\<close>

section \<open>IPv4 addresses\<close>

lemma masked_eq_iff:
  assumes "bits \<le> 32"
  shows "(v AND v4_mask bits = w AND v4_mask bits) \<longleftrightarrow>
    unat v div 2 ^ (32 - bits) = unat w div 2 ^ (32 - bits)"
proof -
  have bit_mask: "bit (v4_mask bits) n \<longleftrightarrow> n < 32 \<and> 32 - bits \<le> n" for n
    using assms by (auto simp: v4_mask_def bit_simps)
  have "(v AND v4_mask bits = w AND v4_mask bits) \<longleftrightarrow> drop_bit (32 - bits) v = drop_bit (32 - bits) w"
  proof
    assume *: "v AND v4_mask bits = w AND v4_mask bits"
    show "drop_bit (32 - bits) v = drop_bit (32 - bits) w"
    proof (rule bit_word_eqI)
      fix n assume "n < LENGTH(32)"
      from * have "bit (v AND v4_mask bits) (32 - bits + n) = bit (w AND v4_mask bits) (32 - bits + n)" by simp
      then show "bit (drop_bit (32 - bits) v) n = bit (drop_bit (32 - bits) w) n"
        by (auto simp: bit_and_iff bit_mask bit_drop_bit_eq dest: bit_imp_le_length)
    qed
  next
    assume *: "drop_bit (32 - bits) v = drop_bit (32 - bits) w"
    show "v AND v4_mask bits = w AND v4_mask bits"
    proof (rule bit_word_eqI)
      fix n assume "n < LENGTH(32)"
      show "bit (v AND v4_mask bits) n = bit (w AND v4_mask bits) n"
      proof (cases "32 - bits \<le> n")
        case True
        from * have "bit (drop_bit (32 - bits) v) (n - (32 - bits)) = bit (drop_bit (32 - bits) w) (n - (32 - bits))"
          by simp
        with True show ?thesis by (simp add: bit_and_iff bit_drop_bit_eq)
      qed (simp add: bit_and_iff bit_mask)
    qed
  qed
  also have "\<dots> \<longleftrightarrow> unat (drop_bit (32 - bits) v) = unat (drop_bit (32 - bits) w)"
    by (rule word_unat_eq_iff)
  also have "\<dots> \<longleftrightarrow> unat v div 2 ^ (32 - bits) = unat w div 2 ^ (32 - bits)"
    by (simp only: unat_drop_bit_eq drop_bit_eq_div [where 'a = nat])
  finally show ?thesis .
qed

lemma ipv4_number_octets:
  assumes "ipv4_octets s = Some [a, b, c, d]" "a < 256" "b < 256" "c < 256" "d < 256"
  shows "ipv4_number s = Some (of_nat (((a * 256 + b) * 256 + c) * 256 + d))"
    and "unat (the (ipv4_number s)) = ((a * 256 + b) * 256 + c) * 256 + d"
proof -
  show *: "ipv4_number s = Some (of_nat (((a * 256 + b) * 256 + c) * 256 + d))"
    by (simp add: ipv4_number_def assms(1))
  have "((a * 256 + b) * 256 + c) * 256 + d < 2 ^ 32" using assms(2-5) by simp
  then show "unat (the (ipv4_number s)) = ((a * 256 + b) * 256 + c) * 256 + d"
    unfolding * option.sel by (simp only: unat_of_nat) simp
qed

lemma octet_value_le: "octet_value s = Some n \<Longrightarrow> n < 256"
  by (auto simp: octet_value_def split: list.splits if_splits option.splits)

lemma ipv4_octets_cases:
  assumes "ipv4_octets s = Some os"
  obtains a b c d where "os = [a, b, c, d]" "a < 256" "b < 256" "c < 256" "d < 256"
proof -
  let ?xs = "map octet_value (split_on CHR ''.'' s)"
  have len: "length ?xs = 4" and none: "None \<notin> set ?xs" and os: "os = map the ?xs"
    using assms by (auto simp: ipv4_octets_def Let_def split: if_splits)
  obtain w x y z where xs: "?xs = [w, x, y, z]"
    using len by (auto simp: numeral_eq_Suc length_Suc_conv)
  have small: "the v < 256" if "v \<in> set ?xs" for v
  proof -
    have "v \<noteq> None" using that none by metis
    with that show ?thesis by (auto dest: octet_value_le)
  qed
  show thesis
  proof (rule that)
    show "os = [the w, the x, the y, the z]" using os xs by simp
    show "the w < 256" "the x < 256" "the y < 256" "the z < 256"
      using small unfolding xs by simp_all
  qed
qed

definition special_v4 :: "nat \<Rightarrow> nat \<Rightarrow> nat \<Rightarrow> bool" where
  "special_v4 a b c \<longleftrightarrow> a \<in> {0, 10, 127} \<or> a \<ge> 224 \<or>
     a = 100 \<and> 64 \<le> b \<and> b < 128 \<or> a = 169 \<and> b = 254 \<or> a = 172 \<and> 16 \<le> b \<and> b < 32 \<or>
     a = 192 \<and> (b = 168 \<or> b = 0 \<and> c \<in> {0, 2}) \<or>
     a = 198 \<and> (b \<in> {18, 19} \<or> b = 51 \<and> c = 100) \<or> a = 203 \<and> b = 0 \<and> c = 113"

lemma base_numbers:
  "ipv4_octets ''0.0.0.0'' = Some [0, 0, 0, 0]" "ipv4_octets ''10.0.0.0'' = Some [10, 0, 0, 0]"
  "ipv4_octets ''100.64.0.0'' = Some [100, 64, 0, 0]" "ipv4_octets ''127.0.0.0'' = Some [127, 0, 0, 0]"
  "ipv4_octets ''169.254.0.0'' = Some [169, 254, 0, 0]" "ipv4_octets ''172.16.0.0'' = Some [172, 16, 0, 0]"
  "ipv4_octets ''192.0.0.0'' = Some [192, 0, 0, 0]" "ipv4_octets ''192.0.2.0'' = Some [192, 0, 2, 0]"
  "ipv4_octets ''192.168.0.0'' = Some [192, 168, 0, 0]" "ipv4_octets ''198.18.0.0'' = Some [198, 18, 0, 0]"
  "ipv4_octets ''198.51.100.0'' = Some [198, 51, 100, 0]" "ipv4_octets ''203.0.113.0'' = Some [203, 0, 113, 0]"
  "ipv4_octets ''224.0.0.0'' = Some [224, 0, 0, 0]" "ipv4_octets ''240.0.0.0'' = Some [240, 0, 0, 0]"
  by code_simp+

lemma in_range_octets:
  assumes "ipv4_octets base = Some [a', b', c', d']" "a' < 256" "b' < 256" "c' < 256" "d' < 256"
    and "unat v = ((a * 256 + b) * 256 + c) * 256 + d" "bits \<le> 32"
  shows "in_v4_range v base bits \<longleftrightarrow>
    (((a * 256 + b) * 256 + c) * 256 + d) div 2 ^ (32 - bits) =
    (((a' * 256 + b') * 256 + c') * 256 + d') div 2 ^ (32 - bits)"
  using masked_eq_iff [OF assms(7)] ipv4_number_octets(2) [OF assms(1-5)] assms(6)
  by (simp add: in_v4_range_def)

lemma range_shapes:
  fixes a b c d :: nat
  assumes "b < 256" "c < 256" "d < 256"
  defines "n \<equiv> ((a * 256 + b) * 256 + c) * 256 + d"
  shows "n div 16777216 = a" "n div 65536 = a * 256 + b" "n div 256 = (a * 256 + b) * 256 + c"
    "n div 4194304 = a * 4 + b div 64" "n div 1048576 = a * 16 + b div 16"
    "n div 131072 = a * 128 + b div 2" "n div 268435456 = a div 16"
proof -
  have d: "d div 256 = 0" and c: "c div 256 = 0" and b: "b div 256 = 0" using assms(1-3) by simp_all
  have n1: "n div 256 = (a * 256 + b) * 256 + c" unfolding n_def using d by simp
  have n2: "n div 65536 = a * 256 + b"
    using c div_mult2_eq [of n 256 256] n1 by simp
  have n3: "n div 16777216 = a"
    using b div_mult2_eq [of n 65536 256] n2 by simp
  show "n div 256 = (a * 256 + b) * 256 + c" by (rule n1)
  show "n div 65536 = a * 256 + b" by (rule n2)
  show "n div 16777216 = a" by (rule n3)
  show "n div 4194304 = a * 4 + b div 64"
    using div_mult2_eq [of n 65536 64] n2 div_mult_self3 [of 64 "a * 4" b] by (simp add: mult.commute)
  show "n div 1048576 = a * 16 + b div 16"
    using div_mult2_eq [of n 65536 16] n2 by (simp add: mult.commute)
  show "n div 131072 = a * 128 + b div 2"
    using div_mult2_eq [of n 65536 2] n2 by (simp add: mult.commute)
  show "n div 268435456 = a div 16"
    using div_mult2_eq [of n 16777216 16] n3 by simp
qed


lemma range_ends:
  fixes a b c d :: nat
  assumes "b < 256" "c < 256" "d < 256"
  defines "n \<equiv> ((a * 256 + b) * 256 + c) * 256 + d"
  shows "n div 2 ^ (32 - 8) = a" "n div 2 ^ (32 - 16) = a * 256 + b"
    "n div 2 ^ (32 - 24) = (a * 256 + b) * 256 + c"
    "n div 2 ^ (32 - 10) = a * 4 + b div 64" "n div 2 ^ (32 - 12) = a * 16 + b div 16"
    "n div 2 ^ (32 - 15) = a * 128 + b div 2" "n div 2 ^ (32 - 4) = a div 16"
  using range_shapes [OF assms(1-3)] by (simp_all add: n_def)

lemma digits_eq_iff:
  fixes a b x y k :: nat
  assumes "b < k" "y < k"
  shows "a * k + b = x * k + y \<longleftrightarrow> a = x \<and> b = y"
proof
  assume *: "a * k + b = x * k + y"
  then have "(a * k + b) div k = (x * k + y) div k" by simp
  with assms have "a = x" by simp
  with * show "a = x \<and> b = y" by simp
qed simp

lemma div_eq_iff_between: "0 < k \<Longrightarrow> (b :: nat) div k = q \<longleftrightarrow> q * k \<le> b \<and> b < Suc q * k"
  by (metis div_nat_eqI dividend_less_div_times mult.commute times_div_less_eq_dividend mult_Suc)

lemma forbidden_v4_cases:
  "forbidden_v4 v \<longleftrightarrow> in_v4_range v ''0.0.0.0'' 8 \<or>
     in_v4_range v ''10.0.0.0'' 8 \<or>
     in_v4_range v ''100.64.0.0'' 10 \<or>
     in_v4_range v ''127.0.0.0'' 8 \<or>
     in_v4_range v ''169.254.0.0'' 16 \<or>
     in_v4_range v ''172.16.0.0'' 12 \<or>
     in_v4_range v ''192.0.0.0'' 24 \<or>
     in_v4_range v ''192.0.2.0'' 24 \<or>
     in_v4_range v ''192.168.0.0'' 16 \<or>
     in_v4_range v ''198.18.0.0'' 15 \<or>
     in_v4_range v ''198.51.100.0'' 24 \<or>
     in_v4_range v ''203.0.113.0'' 24 \<or>
     in_v4_range v ''224.0.0.0'' 4 \<or>
     in_v4_range v ''240.0.0.0'' 4"
  by (simp add: forbidden_v4_def forbidden_v4_ranges_def)

lemma forbidden_v4_octets:
  assumes v: "unat v = ((a * 256 + b) * 256 + c) * 256 + d"
    and small: "a < 256" "b < 256" "c < 256" "d < 256"
  shows "forbidden_v4 v \<longleftrightarrow> special_v4 a b c"
proof -
  note r = in_range_octets [OF _ _ _ _ _ v]
  note e = range_ends [OF small(2-4)]
  have A: "a * 256 + b = x * 256 + y \<longleftrightarrow> a = x \<and> b = y" if "y < 256" for x y :: nat
    by (rule digits_eq_iff [OF small(2) that])
  have B: "(a * 256 + b) * 256 + c = (x * 256 + y) * 256 + z \<longleftrightarrow> a = x \<and> b = y \<and> c = z"
    if "y < 256" "z < 256" for x y z :: nat
    by (simp only: digits_eq_iff [OF small(3) that(2)] A [OF that(1)] conj_assoc)
  have 8: "in_v4_range v ''0.0.0.0'' 8 \<longleftrightarrow> a = 0" "in_v4_range v ''10.0.0.0'' 8 \<longleftrightarrow> a = 10"
    "in_v4_range v ''127.0.0.0'' 8 \<longleftrightarrow> a = 127"
    by (simp_all only: r [OF base_numbers(1)] r [OF base_numbers(2)] r [OF base_numbers(4)] e) simp_all
  have 16: "in_v4_range v ''169.254.0.0'' 16 \<longleftrightarrow> a = 169 \<and> b = 254"
    "in_v4_range v ''192.168.0.0'' 16 \<longleftrightarrow> a = 192 \<and> b = 168"
    by (simp_all only: r [OF base_numbers(5)] r [OF base_numbers(9)] e)
      (simp_all add: A [of 254 169, simplified] A [of 168 192, simplified])
  have 24: "in_v4_range v ''192.0.0.0'' 24 \<longleftrightarrow> a = 192 \<and> b = 0 \<and> c = 0"
    "in_v4_range v ''192.0.2.0'' 24 \<longleftrightarrow> a = 192 \<and> b = 0 \<and> c = 2"
    "in_v4_range v ''198.51.100.0'' 24 \<longleftrightarrow> a = 198 \<and> b = 51 \<and> c = 100"
    "in_v4_range v ''203.0.113.0'' 24 \<longleftrightarrow> a = 203 \<and> b = 0 \<and> c = 113"
    by (simp_all only: r [OF base_numbers(7)] r [OF base_numbers(8)] r [OF base_numbers(11)] r [OF base_numbers(12)] e)
      (simp_all add: B [of 0 0 192, simplified] B [of 0 2 192, simplified] B [of 51 100 198, simplified]
        B [of 0 113 203, simplified])
  have other: "in_v4_range v ''100.64.0.0'' 10 \<longleftrightarrow> a * 4 + b div 64 = 401"
    "in_v4_range v ''172.16.0.0'' 12 \<longleftrightarrow> a * 16 + b div 16 = 2753"
    "in_v4_range v ''198.18.0.0'' 15 \<longleftrightarrow> a * 128 + b div 2 = 25353"
    "in_v4_range v ''224.0.0.0'' 4 \<longleftrightarrow> a div 16 = 14" "in_v4_range v ''240.0.0.0'' 4 \<longleftrightarrow> a div 16 = 15"
    by (simp_all only: r [OF base_numbers(3)] r [OF base_numbers(6)] r [OF base_numbers(10)] r [OF base_numbers(13)]
        r [OF base_numbers(14)] e) simp_all
  have cut: "a * 4 + b div 64 = 401 \<longleftrightarrow> a = 100 \<and> 64 \<le> b \<and> b < 128"
    "a * 16 + b div 16 = 2753 \<longleftrightarrow> a = 172 \<and> 16 \<le> b \<and> b < 32"
    "a * 128 + b div 2 = 25353 \<longleftrightarrow> a = 198 \<and> (b = 18 \<or> b = 19)"
    using small(2) digits_eq_iff [of "b div 64" 4 1 a 100] digits_eq_iff [of "b div 16" 16 1 a 172]
      digits_eq_iff [of "b div 2" 128 9 a 198]
    by (auto simp: div_eq_iff_between)
  have top: "a \<ge> 224 \<longleftrightarrow> a div 16 = 14 \<or> a div 16 = 15"
    using small(1) by (auto simp: div_eq_iff_between)
  show ?thesis
    unfolding forbidden_v4_cases 8 16 24 other cut special_v4_def insert_iff empty_iff top by argo
qed

text \<open>
  C30. The test for IPv4 addresses is exact.
\<close>

theorem forbidden_ipv4_exact:
  assumes "ipv4_octets address = Some [a, b, c, d]"
  shows "is_forbidden_address is_v6 address \<longleftrightarrow> special_v4 a b c"
proof -
  obtain a' b' c' d' where os: "[a, b, c, d] = [a', b', c', d']" "a' < 256" "b' < 256" "c' < 256" "d' < 256"
    using ipv4_octets_cases [OF assms] by metis
  then have small: "a < 256" "b < 256" "c < 256" "d < 256" by simp_all
  have "is_forbidden_address is_v6 address = forbidden_v4 (the (ipv4_number address))"
    by (simp add: is_forbidden_address_def is_ip_def assms)
  also have "\<dots> \<longleftrightarrow> special_v4 a b c"
    by (rule forbidden_v4_octets [OF ipv4_number_octets(2) [OF assms small] small])
  finally show ?thesis .
qed

lemma forbidden_ipv4_exact_witness:
  "ipv4_octets ''172.31.0.9'' = Some [172, 31, 0, 9] \<and> is_forbidden_address (\<lambda>_. False) ''172.31.0.9'' = special_v4 172 31 0 \<and>
   special_v4 172 31 0"
proof -
  have o: "ipv4_octets ''172.31.0.9'' = Some [172, 31, 0, 9]" by code_simp
  show ?thesis using o forbidden_ipv4_exact [OF o, of "\<lambda>_. False"] by (simp add: special_v4_def)
qed


text \<open>Addresses of version 6 that lead to local ones are admitted: translated, and not in the short form.\<close>

lemma local_ipv6_is_admitted:
  "\<not> is_forbidden_address (\<lambda>_. True) ''64:ff9b::7f00:1''"
  "\<not> is_forbidden_address (\<lambda>_. True) ''0:0:0:0:0:0:0:1''"
  by code_simp+

section \<open>Whom a call contacts\<close>

lemma abortable_frame [simp]:
  "fs_contacts (snd (abortable p f s)) = fs_contacts s" "fs_requests (snd (abortable p f s)) = fs_requests s"
  by (simp_all add: abortable_def split: prod.split)

lemma limit_requests_frame [simp]:
  "fs_contacts (snd (limit_requests p l h s)) = fs_contacts s" "fs_world (snd (limit_requests p l h s)) = fs_world s"
  by (simp_all add: limit_requests_def split: prod.split)

lemma read_body_frame: "fs_contacts (snd (read_body p m pulls got s)) = fs_contacts s"
proof (induction pulls arbitrary: got s)
  case (Cons pull pulls)
  obtain r s' where a: "abortable p pull s = (r, s')" by fastforce
  have "fs_contacts s' = fs_contacts s" using abortable_frame(1) [of p pull s] a by simp
  then show ?case
    using Cons.IH by (auto simp: a split: sum.split option.split)
qed simp

lemma read_response_frame: "fs_contacts (snd (read_response p l r s)) = fs_contacts s"
  using read_body_frame [of p "wl_max_bytes l" "wr_body r" "[]" s]
  by (cases "read_body p (wl_max_bytes l) (wr_body r) [] s") (auto simp: read_response_def Let_def split: sum.split)

definition good_url :: "string \<Rightarrow> web_url \<Rightarrow> bool" where
  "good_url permitted url \<longleftrightarrow> wu_origin url = permitted \<and> wu_protocol url \<in> {''http:'', ''https:''} \<and>
     wu_username url = [] \<and> wu_password url = []"

definition good_contact :: "'w web_ports \<Rightarrow> string \<Rightarrow> web_url \<times> string \<Rightarrow> bool" where
  "good_contact p permitted c \<longleftrightarrow> good_url permitted (fst c) \<and>
     is_ok (validate_hostname (wu_hostname (fst c))) \<and> \<not> is_forbidden_address (wp_is_v6 p) (snd c)"

lemma parsed_good: "fetch_parse_url f v = Inr url \<Longrightarrow> good_url (wu_origin url) url"
  by (auto simp: fetch_parse_url_def good_url_def split: option.splits if_splits)

lemma redirect_good:
  "redirect_target p l permitted url n r = Inr url' \<Longrightarrow> good_url permitted url'"
  by (auto simp: redirect_target_def bind_result_Inr_iff dest: parsed_good split: option.splits if_splits)

definition contacts_ok :: "'w web_ports \<Rightarrow> string \<Rightarrow> nat \<Rightarrow> 'w fetch_state \<Rightarrow> 'w fetch_state \<Rightarrow> bool" where
  "contacts_ok p permitted n s s' \<longleftrightarrow>
     (\<exists>new. fs_contacts s' = fs_contacts s @ new \<and> length new \<le> n \<and> list_all (good_contact p permitted) new)"

lemma contacts_ok_none: "fs_contacts s' = fs_contacts s \<Longrightarrow> contacts_ok p permitted n s s'"
  by (simp add: contacts_ok_def)

lemma contacts_ok_trans:
  assumes "contacts_ok p permitted m s s1" "contacts_ok p permitted n s1 s2"
  shows "contacts_ok p permitted (m + n) s s2"
proof -
  obtain xs ys where "fs_contacts s1 = fs_contacts s @ xs" "length xs \<le> m" "list_all (good_contact p permitted) xs"
    "fs_contacts s2 = fs_contacts s1 @ ys" "length ys \<le> n" "list_all (good_contact p permitted) ys"
    using assms unfolding contacts_ok_def by blast
  then show ?thesis unfolding contacts_ok_def by (intro exI [of _ "xs @ ys"]) simp
qed

lemma contact_contacts:
  assumes "good_url permitted url"
  shows "contacts_ok p permitted 1 s (snd (contact p url s))"
proof -
  obtain r1 s1 where 1: "abortable p (wp_resolver p (wu_hostname url)) s = (r1, s1)" by fastforce
  have s1: "fs_contacts s1 = fs_contacts s" using abortable_frame(1) [of p "wp_resolver p (wu_hostname url)" s] 1 by simp
  show ?thesis
  proof (cases "is_ok (validate_hostname (wu_hostname url)) \<and> (\<exists>as. r1 = Inr as \<and> as \<noteq> [] \<and>
      \<not> list_ex (is_forbidden_address (wp_is_v6 p)) as)")
    case True
    then obtain as where as: "r1 = Inr as" "as \<noteq> []" "\<not> list_ex (is_forbidden_address (wp_is_v6 p)) as" by blast
    have "hd as \<in> set as" using as(2) by simp
    with as(3) have "\<not> is_forbidden_address (wp_is_v6 p) (hd as)" by (auto simp: list_ex_iff)
    with assms True have "good_contact p permitted (url, hd as)" by (simp add: good_contact_def)
    then have "contacts_ok p permitted 1 s (snd (contact p url s)) \<or> fs_contacts (snd (contact p url s)) = fs_contacts s"
      using s1 1 as(1) by (auto simp: contact_def contacts_ok_def is_ok_def split: sum.splits)
    then show ?thesis by (auto intro: contacts_ok_none)
  next
    case False
    then have "fs_contacts (snd (contact p url s)) = fs_contacts s"
      using s1 1 by (auto simp: contact_def is_ok_def split: sum.splits)
    then show ?thesis by (rule contacts_ok_none)
  qed
qed

lemma fetch_loop_contacts:
  assumes "good_url permitted url"
  shows "contacts_ok p permitted (Suc (wl_max_redirects l - redirect)) s (snd (fetch_loop p l permitted url redirect s))"
  using assms
proof (induction p l permitted url redirect s rule: fetch_loop.induct)
  case (1 p l permitted url redirect s)
  obtain r s1 where c: "contact p url s = (r, s1)" by fastforce
  have c1: "contacts_ok p permitted 1 s s1" using contact_contacts [OF 1(2), of p s] c by simp
  have le: "contacts_ok p permitted (Suc (wl_max_redirects l - redirect)) s s'" if "fs_contacts s' = fs_contacts s1" for s'
    using c1 that unfolding contacts_ok_def by (auto simp: Suc_le_eq)
  show ?case
  proof (cases r)
    case (Inl e)
    then show ?thesis using le [of s1] c by (simp add: fetch_loop.simps)
  next
    case (Inr response)
    show ?thesis
    proof (cases "300 \<le> wr_status response \<and> wr_status response < 400")
      case False
      then show ?thesis
        using le [OF read_response_frame] c Inr by (subst fetch_loop.simps) (simp only: c Inr False if_False prod.case sum.case)
    next
      case True
      show ?thesis
      proof (cases "redirect_target p l permitted url redirect response")
        case (Inl e)
        then show ?thesis using le [of s1] c Inr True by (simp add: fetch_loop.simps)
      next
        case target: (Inr url')
        obtain q s2 where q: "limit_requests p l (wu_hostname url') s1 = (q, s2)" by fastforce
        have s2: "fs_contacts s2 = fs_contacts s1" using limit_requests_frame(1) [of p l "wu_hostname url'" s1] q by simp
        show ?thesis
        proof (cases q)
          case (Inl e)
          then show ?thesis using le [OF s2] c Inr True target q by (simp add: fetch_loop.simps)
        next
          case qr: (Inr u)
          have rest: "contacts_ok p permitted (Suc (wl_max_redirects l - Suc redirect)) s2
              (snd (fetch_loop p l permitted url' (Suc redirect) s2))"
            using 1(1) [OF c [symmetric] Inr True target q [symmetric] qr redirect_good [OF target]] .
          have "contacts_ok p permitted (1 + Suc (wl_max_redirects l - Suc redirect)) s
              (snd (fetch_loop p l permitted url' (Suc redirect) s2))"
          proof (rule contacts_ok_trans [OF _ rest])
            show "contacts_ok p permitted 1 s s2" using c1 s2 by (simp add: contacts_ok_def)
          qed
          moreover have "1 + Suc (wl_max_redirects l - Suc redirect) = Suc (wl_max_redirects l - redirect)"
            using redirect_target_bound [OF target] by simp
          ultimately show ?thesis using c Inr True target q qr by (subst fetch_loop.simps) simp
        qed
      qed
    qed
  qed
qed

text \<open>
  C29. Whatever the network answers, a call contacts only addresses that are not forbidden, for host names
  that are neither local nor of a metadata service, over HTTP without credentials and only at the origin
  that the permission was asked for; and it does so at most once more than the redirects allow.
\<close>

theorem fetch_contacts_only_permitted:
  "\<exists>new. fs_contacts (snd (fetch_invoke p l input s)) = fs_contacts s @ new \<and>
     length new \<le> Suc (wl_max_redirects l) \<and>
     list_all (\<lambda>(url, address). canonical_web_origin (wp_new_url p) input = Inr (wu_origin url) \<and>
       wu_protocol url \<in> {''http:'', ''https:''} \<and> wu_username url = [] \<and> wu_password url = [] \<and>
       is_ok (validate_hostname (wu_hostname url)) \<and> \<not> is_forbidden_address (wp_is_v6 p) address) new"
proof (cases "fetch_parse_url (wp_new_url p) input")
  case (Inl e)
  then show ?thesis by (simp add: fetch_invoke_def)
next
  case url: (Inr url)
  obtain q s1 where q: "limit_requests p l (wu_hostname url) s = (q, s1)" by fastforce
  have s1: "fs_contacts s1 = fs_contacts s" using limit_requests_frame(1) [of p l "wu_hostname url" s] q by simp
  show ?thesis
  proof (cases q)
    case (Inl e)
    then show ?thesis using url q s1 by (simp add: fetch_invoke_def)
  next
    case (Inr u)
    obtain new where new: "fs_contacts (snd (fetch_loop p l (wu_origin url) url 0 s1)) = fs_contacts s1 @ new"
      "length new \<le> Suc (wl_max_redirects l)" "list_all (good_contact p (wu_origin url)) new"
      using fetch_loop_contacts [OF parsed_good [OF url], of p l 0 s1] unfolding contacts_ok_def by auto
    have o: "canonical_web_origin (wp_new_url p) input = Inr (wu_origin url)"
      by (simp add: canonical_web_origin_def url)
    have "fs_contacts (snd (fetch_invoke p l input s)) = fs_contacts s @ new"
      using url q Inr s1 new(1)
      by (cases "fetch_loop p l (wu_origin url) url 0 s1") (simp add: fetch_invoke_def)
    then show ?thesis
      using new(2,3) o by (intro exI [of _ new]) (auto simp: good_contact_def good_url_def list_all_iff)
  qed
qed


section \<open>The limit on requests\<close>

definition rate_step :: "nat \<Rightarrow> request_log \<times> (string \<times> int) list \<Rightarrow> string \<times> int \<Rightarrow> request_log \<times> (string \<times> int) list" where
  "rate_step n s c = (let (r, reqs) = rate_limit n (fst c) (snd c) (fst s)
     in (reqs, if is_ok r then snd s @ [c] else snd s))"

definition admitted :: "nat \<Rightarrow> (string \<times> int) list \<Rightarrow> (string \<times> int) list" where
  "admitted n calls = snd (foldl (rate_step n) ([], []) calls)"

definition times_at :: "string \<Rightarrow> (string \<times> int) list \<Rightarrow> int list" where
  "times_at h adm = map snd (filter (\<lambda>c. fst c = h) adm)"

definition in_window :: "int \<Rightarrow> int \<Rightarrow> bool" where
  "in_window t0 t \<longleftrightarrow> t0 \<le> t \<and> t < t0 + 60000"

definition rate_inv :: "nat \<Rightarrow> int \<Rightarrow> request_log \<times> (string \<times> int) list \<Rightarrow> bool" where
  "rate_inv n T s \<longleftrightarrow> (\<forall>h. (\<forall>t \<in> set (times_at h (snd s)). t \<le> T) \<and>
     filter (\<lambda>t. T - t < 60000) (given (map_get (fst s) h) []) = filter (\<lambda>t. T - t < 60000) (times_at h (snd s)) \<and>
     (\<forall>t0. length (filter (in_window t0) (times_at h (snd s))) \<le> n))"

lemma times_at_snoc: "times_at h (adm @ [c]) = times_at h adm @ (if fst c = h then [snd c] else [])"
  by (simp add: times_at_def)

lemma rate_inv_later:
  assumes "rate_inv n T s" "T \<le> T'"
  shows "rate_inv n T' s"
proof -
  have "filter (\<lambda>t. T' - t < 60000) xs = filter (\<lambda>t. T' - t < 60000) (filter (\<lambda>t. T - t < 60000) xs)" for xs
    using assms(2) by (auto intro!: filter_cong)
  note shrink = this
  show ?thesis unfolding rate_inv_def
  proof (intro allI conjI ballI)
    fix h t assume "t \<in> set (times_at h (snd s))"
    then have "t \<le> T" using assms(1) by (simp add: rate_inv_def)
    then show "t \<le> T'" using assms(2) by simp
  next
    fix h
    have "filter (\<lambda>t. T - t < 60000) (given (map_get (fst s) h) []) = filter (\<lambda>t. T - t < 60000) (times_at h (snd s))"
      using assms(1) by (simp add: rate_inv_def)
    then show "filter (\<lambda>t. T' - t < 60000) (given (map_get (fst s) h) []) = filter (\<lambda>t. T' - t < 60000) (times_at h (snd s))"
      by (simp only: shrink [of "given (map_get (fst s) h) []"] shrink [of "times_at h (snd s)"])
  next
    fix h t0 show "length (filter (in_window t0) (times_at h (snd s))) \<le> n" using assms(1) by (simp add: rate_inv_def)
  qed
qed

lemma length_filter_le_if:
  "(\<And>x. P x \<Longrightarrow> Q x) \<Longrightarrow> length (filter P xs) \<le> length (filter Q xs)"
  by (induction xs) auto

lemma rate_inv_step:
  assumes inv: "rate_inv n T s" and le: "T \<le> snd c"
  shows "rate_inv n (snd c) (rate_step n s c)"
proof -
  obtain h t where c: "c = (h, t)" by fastforce
  obtain reqs adm where s: "s = (reqs, adm)" by fastforce
  have now: "rate_inv n t (reqs, adm)" using rate_inv_later [OF inv] le c s by simp
  let ?recent = "filter (\<lambda>t'. t - t' < 60000) (given (map_get reqs h) [])"
  have recent: "?recent = filter (\<lambda>t'. t - t' < 60000) (times_at h adm)"
    using now by (simp add: rate_inv_def)
  show ?thesis
  proof (cases "n \<le> length ?recent")
    case True
    then show ?thesis using now by (simp add: rate_step_def rate_limit_def c s)
  next
    case False
    have st: "rate_step n s c = (map_set h (?recent @ [t]) reqs, adm @ [(h, t)])"
      using False by (simp add: rate_step_def rate_limit_def c s Let_def)
    have old: "\<forall>t' \<in> set (times_at h' adm). t' \<le> t" for h' using now by (simp add: rate_inv_def)
    have eq: "filter (\<lambda>t'. t - t' < 60000) (given (map_get (map_set h (?recent @ [t]) reqs) h') []) =
        filter (\<lambda>t'. t - t' < 60000) (times_at h' (adm @ [(h, t)]))" for h'
      using now recent by (simp add: rate_inv_def map_get_set times_at_snoc)
    have bound: "length (filter (in_window t0) (times_at h' (adm @ [(h, t)]))) \<le> n" for t0 h'
    proof (cases "h' = h \<and> in_window t0 t")
      case True
      have "length (filter (in_window t0) (times_at h adm)) \<le> length ?recent"
        unfolding recent by (rule length_filter_le_if) (use True in \<open>auto simp: in_window_def\<close>)
      then show ?thesis using True False by (simp add: times_at_snoc)
    next
      case other: False
      have "length (filter (in_window t0) (times_at h' adm)) \<le> n" using now by (simp add: rate_inv_def)
      then show ?thesis using other by (auto simp: times_at_snoc)
    qed
    show ?thesis
      unfolding st rate_inv_def using old eq bound by (auto simp: c times_at_snoc)
  qed
qed

lemma rate_run_inv:
  "sorted (map snd calls) \<Longrightarrow> calls \<noteq> [] \<Longrightarrow>
    rate_inv n (snd (last calls)) (foldl (rate_step n) ([], []) calls)"
proof (induction calls rule: rev_induct)
  case (snoc c calls)
  have start: "rate_inv n (snd c) ([], [])" by (simp add: rate_inv_def times_at_def)
  show ?case
  proof (cases "calls = []")
    case True
    then show ?thesis using rate_inv_step [OF start] by simp
  next
    case False
    have "snd (last calls) \<le> snd c" using snoc.prems(1) False by (auto simp: sorted_append)
    then show ?thesis using rate_inv_step [OF snoc.IH] snoc.prems(1) False by (simp add: sorted_append)
  qed
qed simp

text \<open>
  While the clock does not go back, at most the configured number of requests to a host are let
  through in any window of a minute.
\<close>

theorem requests_per_minute_bounded:
  assumes "sorted (map snd calls)"
  shows "length (filter (\<lambda>c. fst c = hostname \<and> t0 \<le> snd c \<and> snd c < t0 + 60000) (admitted n calls)) \<le> n"
proof (cases "calls = []")
  case True
  then show ?thesis by (simp add: admitted_def)
next
  case False
  have "length (filter (in_window t0) (times_at hostname (admitted n calls))) \<le> n"
    using rate_run_inv [OF assms False, of n] by (simp add: rate_inv_def admitted_def)
  moreover have "length (filter (in_window t0) (times_at hostname adm)) =
      length (filter (\<lambda>c. fst c = hostname \<and> t0 \<le> snd c \<and> snd c < t0 + 60000) adm)" for adm
    by (induction adm) (auto simp: times_at_def in_window_def)
  ultimately show ?thesis by simp
qed

lemma requests_per_minute_bounded_witness:
  "length (filter (\<lambda>c. fst c = ''h'' \<and> (0::int) \<le> snd c \<and> snd c < 0 + 60000)
     (admitted 2 [(''h'', 0), (''h'', 10), (''h'', 20), (''h'', 60005)])) \<le> 2 \<and>
   admitted 2 [(''h'', 0), (''h'', 10), (''h'', 20), (''h'', 60005)] = [(''h'', 0), (''h'', 10), (''h'', 60005)]"
  using requests_per_minute_bounded [of "[(''h'', 0), (''h'', 10), (''h'', 20), (''h'', 60005)]" "''h''" 0 2]
  by simp code_simp

section \<open>What is returned\<close>

lemma read_body_bound:
  "read_body p m pulls got s = (Inr bytes, s') \<Longrightarrow> length got \<le> m \<Longrightarrow> length bytes \<le> m"
proof (induction pulls arbitrary: got s)
  case (Cons pull pulls)
  obtain r s1 where a: "abortable p pull s = (r, s1)" by fastforce
  show ?case using Cons.prems Cons.IH [of "got @ _" s1] by (auto simp: a signal_abort_def split: sum.splits option.splits if_splits)
qed (auto simp: signal_abort_def split: if_splits)

lemma read_response_bound:
  assumes "read_response p l r s = (Inr f, s')"
  shows "fe_bytes f \<le> wl_max_bytes l \<and>
    length (fe_text f) \<le> wl_max_characters l + (if fe_truncated f then length truncation_note else 0)"
proof -
  obtain b s1 where b: "read_body p (wl_max_bytes l) (wr_body r) [] s = (b, s1)" by fastforce
  then show ?thesis
    using assms read_body_bound [of p "wl_max_bytes l" "wr_body r" "[]" s _ s1]
    by (auto simp: read_response_def Let_def split: if_splits sum.splits)
qed

end
