(* ===== verification/Rpc_Peer.thy ===== *)
theory Rpc_Peer
  imports Utf8 Provider
begin

text \<open>
  The peer of the line protocol with native workers, \<open>packages/native-bridge/src/ipc.ts\<close>. What
  \<open>JSON.parse\<close> makes of a line is a parameter: nothing, the value \<open>null\<close>, or a frame. Promises are
  numbered in the order they are made. \<open>discarding\<close> with \<open>discardedBytes\<close> is an option; what the peer
  does to the outside is a log of effects.
\<close>

section \<open>Frames and state\<close>

text \<open>
  Of \<open>id\<close> counts only a number, of \<open>method\<close> only a non-empty string (other values name no listeners),
  and of \<open>error\<close> a truthy value, with its \<open>message\<close>.
\<close>

record 'v rpc_frame =
  fr_id :: "jsnum option"
  fr_method :: "string option"
  fr_params :: 'v
  fr_result :: 'v
  fr_error :: "string option option"

datatype 'v line_value = Unparsable_Line | Null_Line | Frame_Line "'v rpc_frame"

datatype 'v peer_effect =
    Request_Written jsnum string 'v
  | Rejection_Written "ustr option"
  | Line_Reported nat
  | Notified nat 'v
  | Resolved nat 'v
  | Rejected nat string

record 'v rpc_peer =
  pe_pending :: "(jsnum, nat) jsmap"
  pe_listeners :: "(string, nat list) jsmap"
  pe_next_id :: int
  pe_max :: nat
  pe_buffer :: "nat list"
  pe_discarded :: "nat option"
  pe_promises :: nat
  pe_log :: "'v peer_effect list"

definition default_max_line :: nat where
  "default_max_line = 4 * 1024 * 1024"

definition new_peer :: "nat option \<Rightarrow> 'v rpc_peer" where
  "new_peer max_line = \<lparr>pe_pending = [], pe_listeners = [], pe_next_id = 1,
     pe_max = given max_line default_max_line, pe_buffer = [], pe_discarded = None, pe_promises = 0, pe_log = []\<rparr>"

definition effect :: "'v peer_effect \<Rightarrow> 'v rpc_peer \<Rightarrow> 'v rpc_peer" where
  "effect e p = p\<lparr>pe_log := pe_log p @ [e]\<rparr>"

section \<open>Requests\<close>

text \<open>An entry of the same id is replaced; its promise is then out of reach.\<close>

definition request_with_id :: "jsnum \<Rightarrow> string \<Rightarrow> 'v \<Rightarrow> 'v rpc_peer \<Rightarrow> 'v rpc_peer" where
  "request_with_id i m params p = effect (Request_Written i m params)
     (p\<lparr>pe_pending := map_set i (pe_promises p) (pe_pending p), pe_promises := Suc (pe_promises p)\<rparr>)"

definition rpc_request :: "string \<Rightarrow> 'v \<Rightarrow> 'v rpc_peer \<Rightarrow> 'v rpc_peer" where
  "rpc_request m params p =
     request_with_id (Fin (of_int (pe_next_id p))) m params (p\<lparr>pe_next_id := pe_next_id p + 1\<rparr>)"

definition notification :: "string \<Rightarrow> 'v rpc_peer \<Rightarrow> 'v rpc_peer" where
  "notification m p = p\<lparr>pe_listeners :=
       map_set m (given (map_get (pe_listeners p) m) [] @ [pe_promises p]) (pe_listeners p),
     pe_promises := Suc (pe_promises p)\<rparr>"

definition close_peer :: "string \<Rightarrow> 'v rpc_peer \<Rightarrow> 'v rpc_peer" where
  "close_peer reason p = p\<lparr>pe_pending := [],
     pe_log := pe_log p @ map (\<lambda>n. Rejected n reason) (map_values (pe_pending p))\<rparr>"

section \<open>Lines\<close>

text \<open>The pattern \<open>"id"\s*:\s*(-?\d+)\<close>, at the first place where it matches.\<close>

definition is_decimal :: "nat \<Rightarrow> bool" where
  "is_decimal c \<longleftrightarrow> 48 \<le> c \<and> c \<le> 57"

definition id_here :: "ustr \<Rightarrow> ustr option" where
  "id_here t = (if starts_with t [34, 105, 100, 34]
     then (case dropWhile u_space (drop 4 t) of
         c # r \<Rightarrow>
           let r' = dropWhile u_space r;
               sign = (if starts_with r' [45] then [45] else []);
               digits = takeWhile is_decimal (drop (length sign) r')
           in if c \<noteq> 58 \<or> digits = [] then None else Some (sign @ digits)
       | _ \<Rightarrow> None)
     else None)"

fun id_in_head :: "ustr \<Rightarrow> ustr option" where
  "id_in_head [] = None"
| "id_in_head (c # cs) = (case id_here (c # cs) of Some i \<Rightarrow> Some i | None \<Rightarrow> id_in_head cs)"

definition reject_oversized_head :: "nat list \<Rightarrow> 'v rpc_peer \<Rightarrow> 'v rpc_peer" where
  "reject_oversized_head head = effect (Rejection_Written (id_in_head (decode_utf8 (take 4096 head))))"

definition report_line_too_large :: "nat \<Rightarrow> 'v rpc_peer \<Rightarrow> 'v rpc_peer" where
  "report_line_too_large n = effect (Line_Reported n)"

definition deliver_notification :: "'v rpc_frame \<Rightarrow> 'v rpc_peer \<Rightarrow> 'v rpc_peer" where
  "deliver_notification f p = (case fr_method f of
     None \<Rightarrow> p
   | Some m \<Rightarrow> p\<lparr>
       pe_log := pe_log p @ map (\<lambda>n. Notified n (fr_params f)) (given (map_get (pe_listeners p) m) []),
       pe_listeners := map_delete m (pe_listeners p)\<rparr>)"

definition settle_request :: "'v rpc_frame \<Rightarrow> 'v rpc_peer \<Rightarrow> 'v rpc_peer" where
  "settle_request f p = (case fr_id f of
     None \<Rightarrow> p
   | Some i \<Rightarrow> (case map_get (pe_pending p) i of
         None \<Rightarrow> p
       | Some n \<Rightarrow> effect (case fr_error f of
             Some message \<Rightarrow> Rejected n (given message ''worker RPC failed'')
           | None \<Rightarrow> Resolved n (fr_result f))
           (p\<lparr>pe_pending := map_delete i (pe_pending p)\<rparr>)))"

text \<open>Reading a property of \<open>null\<close> throws, outside the guard around the parser.\<close>

definition handle_line ::
  "(nat list \<Rightarrow> 'v line_value) \<Rightarrow> nat list \<Rightarrow> 'v rpc_peer \<Rightarrow> unit result \<times> 'v rpc_peer" where
  "handle_line parse line p = (case parse line of
     Unparsable_Line \<Rightarrow> (Inr (), p)
   | Null_Line \<Rightarrow> (throw ''TypeError'' [], p)
   | Frame_Line f \<Rightarrow> (Inr (), settle_request f (deliver_notification f p)))"

section \<open>Data\<close>

definition until_newline :: "nat list \<Rightarrow> nat list" where
  "until_newline bs = takeWhile (\<lambda>b. b \<noteq> 10) bs"

function data_loop ::
  "(nat list \<Rightarrow> 'v line_value) \<Rightarrow> nat list \<Rightarrow> 'v rpc_peer \<Rightarrow> unit result \<times> 'v rpc_peer" where
  "data_loop parse rest p =
     (let line = until_newline rest; found = (10 \<in> set rest); rest' = drop (Suc (length line)) rest
      in case pe_discarded p of
           Some n \<Rightarrow>
             if \<not> found then (Inr (), p\<lparr>pe_discarded := Some (n + length rest)\<rparr>)
             else data_loop parse rest'
               (report_line_too_large (n + length line) p\<lparr>pe_discarded := None\<rparr>)
         | None \<Rightarrow>
             if \<not> found
             then (if length rest > pe_max p
                   then (Inr (), reject_oversized_head rest p\<lparr>pe_discarded := Some (length rest)\<rparr>)
                   else (Inr (), p\<lparr>pe_buffer := rest\<rparr>))
             else if length line > pe_max p
             then data_loop parse rest' (report_line_too_large (length line) (reject_oversized_head line p))
             else if line \<noteq> []
             then (case handle_line parse line p of
                 (Inl e, p') \<Rightarrow> (Inl e, p')
               | (Inr _, p') \<Rightarrow> data_loop parse rest' p')
             else data_loop parse rest' p)"
  by pat_completeness auto
termination
  by (relation "measure (\<lambda>(parse, rest, p). length rest)") (auto intro!: diff_less length_pos_if_in_set)

declare data_loop.simps [simp del]

definition on_data ::
  "(nat list \<Rightarrow> 'v line_value) \<Rightarrow> nat list \<Rightarrow> 'v rpc_peer \<Rightarrow> unit result \<times> 'v rpc_peer" where
  "on_data parse chunk p = data_loop parse (pe_buffer p @ chunk) (p\<lparr>pe_buffer := []\<rparr>)"

end
