(* ===== verification/Rpc_Peer_Claims.thy ===== *)
theory Rpc_Peer_Claims
  imports Rpc_Peer "HOL-Library.Multiset"
begin

text \<open>
  What the line protocol guarantees: how the bytes are cut into chunks does not matter, and each promise is
  settled once. And where it does not: an answer that is too long, and a line that holds \<open>null\<close>.
\<close>

section \<open>Cutting the stream into lines\<close>

text \<open>What a complete line does, and what is left of an incomplete one.\<close>

definition line_step :: "(nat list \<Rightarrow> 'v line_value) \<Rightarrow> 'v rpc_peer \<Rightarrow> nat list \<Rightarrow> 'v rpc_peer" where
  "line_step parse p line =
     (if length line > pe_max p then report_line_too_large (length line) (reject_oversized_head line p)
      else if line = [] then p else snd (handle_line parse line p))"

definition tail_step :: "nat list \<Rightarrow> 'v rpc_peer \<Rightarrow> 'v rpc_peer" where
  "tail_step t p = (if length t > pe_max p
     then reject_oversized_head t p\<lparr>pe_discarded := Some (length t)\<rparr> else p\<lparr>pe_buffer := t\<rparr>)"

definition between_lines :: "'v rpc_peer \<Rightarrow> bool" where
  "between_lines p \<longleftrightarrow> pe_buffer p = [] \<and> pe_discarded p = None"

lemma effect_frame [simp]:
  "pe_max (effect e p) = pe_max p" "pe_buffer (effect e p) = pe_buffer p" "pe_discarded (effect e p) = pe_discarded p"
  "pe_pending (effect e p) = pe_pending p" "pe_promises (effect e p) = pe_promises p"
  by (simp_all add: effect_def)

lemma oversized_frame [simp]:
  "pe_max (reject_oversized_head h p) = pe_max p" "pe_buffer (reject_oversized_head h p) = pe_buffer p"
  "pe_discarded (reject_oversized_head h p) = pe_discarded p" "pe_pending (reject_oversized_head h p) = pe_pending p"
  "pe_promises (reject_oversized_head h p) = pe_promises p"
  "pe_max (report_line_too_large n p) = pe_max p" "pe_buffer (report_line_too_large n p) = pe_buffer p"
  "pe_discarded (report_line_too_large n p) = pe_discarded p" "pe_pending (report_line_too_large n p) = pe_pending p"
  "pe_promises (report_line_too_large n p) = pe_promises p"
  by (simp_all add: reject_oversized_head_def report_line_too_large_def)

lemma settle_frame [simp]:
  "pe_max (settle_request f p) = pe_max p" "pe_buffer (settle_request f p) = pe_buffer p"
  "pe_discarded (settle_request f p) = pe_discarded p"
  "pe_max (deliver_notification f p) = pe_max p" "pe_buffer (deliver_notification f p) = pe_buffer p"
  "pe_discarded (deliver_notification f p) = pe_discarded p"
  "pe_pending (deliver_notification f p) = pe_pending p" "pe_promises (deliver_notification f p) = pe_promises p"
  by (simp_all add: settle_request_def deliver_notification_def split: option.split)

lemma handle_frame [simp]:
  "pe_max (snd (handle_line parse line p)) = pe_max p" "pe_buffer (snd (handle_line parse line p)) = pe_buffer p"
  "pe_discarded (snd (handle_line parse line p)) = pe_discarded p"
  by (simp_all add: handle_line_def split: line_value.split)

lemma line_step_frame [simp]:
  "pe_max (line_step parse p line) = pe_max p"
  "between_lines p \<Longrightarrow> between_lines (line_step parse p line)"
  by (simp_all add: line_step_def between_lines_def)

lemma until_newline_found: "10 \<in> set bs \<Longrightarrow> bs = until_newline bs @ 10 # drop (Suc (length (until_newline bs))) bs"
  by (induction bs) (auto simp: until_newline_def)

lemma until_newline_free: "10 \<notin> set (until_newline bs)"
  by (auto simp: until_newline_def dest: set_takeWhileD)

definition never_null :: "(nat list \<Rightarrow> 'v line_value) \<Rightarrow> bool" where
  "never_null parse \<longleftrightarrow> (\<forall>line. parse line \<noteq> Null_Line)"

lemma handle_ok: "never_null parse \<Longrightarrow> handle_line parse line p = (Inr (), snd (handle_line parse line p))"
  by (auto simp: handle_line_def never_null_def split: line_value.split)

lemma buffer_id: "pe_buffer p = [] \<Longrightarrow> p\<lparr>pe_buffer := []\<rparr> = p"
  by (cases p) simp

lemma discarded_id: "pe_discarded p = None \<Longrightarrow> p\<lparr>pe_discarded := None\<rparr> = p"
  by (cases p) simp

lemma data_loop_lines:
  assumes "never_null parse"
  shows "between_lines p \<Longrightarrow> data_loop parse rest p =
    (Inr (), tail_step (last (split_on 10 rest)) (foldl (line_step parse) p (butlast (split_on 10 rest))))"
proof (induction "length rest" arbitrary: rest p rule: less_induct)
  case less
  have d: "pe_discarded p = None" using less.prems by (simp add: between_lines_def)
  show ?case
  proof (cases "10 \<in> set rest")
    case False
    then show ?thesis
      by (subst data_loop.simps) (simp add: d split_on_no_occurrence tail_step_def)
  next
    case True
    let ?line = "until_newline rest" and ?rest = "drop (Suc (length (until_newline rest))) rest"
    have split: "split_on 10 rest = ?line # split_on 10 ?rest"
      using split_on_append_sep [OF until_newline_free, of rest ?rest] until_newline_found [OF True] by simp
    have shorter: "length ?rest < length rest" using True by (cases rest) auto
    obtain p' where h: "handle_line parse ?line p = (Inr (), p')" using handle_ok [OF assms] by metis
    have step: "data_loop parse rest p = data_loop parse ?rest (line_step parse p ?line)"
      using True by (subst data_loop.simps) (simp add: d Let_def line_step_def h)
    show ?thesis
      unfolding step less.hyps [OF shorter line_step_frame(2) [OF less.prems]] by (simp add: split)
  qed
qed

lemma rejected_head_prefix:
  assumes "4096 \<le> pe_max p" "pe_max p < length t"
  shows "reject_oversized_head (t @ x) p = reject_oversized_head t p"
  using assms by (simp add: reject_oversized_head_def)

lemma on_data_tail:
  assumes "never_null parse" "4096 \<le> pe_max p" "between_lines p" "10 \<notin> set t"
  shows "on_data parse c (tail_step t p) =
    (Inr (), tail_step (last (split_on 10 (t @ c))) (foldl (line_step parse) p (butlast (split_on 10 (t @ c)))))"
proof (cases "length t > pe_max p")
  case False
  have "p\<lparr>pe_buffer := t, pe_buffer := []\<rparr> = p" using assms(3) by (cases p) (simp add: between_lines_def)
  then have "on_data parse c (tail_step t p) = data_loop parse (t @ c) p"
    using False by (simp add: on_data_def tail_step_def)
  then show ?thesis using data_loop_lines [OF assms(1,3)] by simp
next
  case True
  let ?q = "reject_oversized_head t p\<lparr>pe_discarded := Some (length t)\<rparr>"
  have b: "pe_buffer ?q = []" using assms(3) by (simp add: between_lines_def)
  have start: "on_data parse c (tail_step t p) = data_loop parse c ?q"
    using True b by (simp add: on_data_def tail_step_def buffer_id)
  show ?thesis
  proof (cases "10 \<in> set c")
    case False
    then have "split_on 10 (t @ c) = [t @ c]" using assms(4) by (simp add: split_on_no_occurrence)
    then show ?thesis
      unfolding start using False True rejected_head_prefix [OF assms(2) True, of c]
      by (subst data_loop.simps) (simp add: tail_step_def)
  next
    case found: True
    let ?line = "until_newline c" and ?rest = "drop (Suc (length (until_newline c))) c"
    have split: "split_on 10 (t @ c) = (t @ ?line) # split_on 10 ?rest"
      using split_on_append_sep [of 10 "t @ ?line" ?rest] assms(4) until_newline_free [of c] until_newline_found [OF found]
      by simp
    have "report_line_too_large (length t + length ?line) ?q\<lparr>pe_discarded := None\<rparr> = line_step parse p (t @ ?line)"
      using True assms(3) rejected_head_prefix [OF assms(2) True, of ?line]
      by (simp add: line_step_def between_lines_def report_line_too_large_def effect_def reject_oversized_head_def discarded_id)
    then have step: "data_loop parse c ?q = data_loop parse ?rest (line_step parse p (t @ ?line))"
      using found by (subst data_loop.simps) (simp add: Let_def)
    show ?thesis
      unfolding start step using data_loop_lines [OF assms(1) line_step_frame(2) [OF assms(3)]] by (simp add: split)
  qed
qed

definition receive_chunks :: "(nat list \<Rightarrow> 'v line_value) \<Rightarrow> 'v rpc_peer \<Rightarrow> nat list list \<Rightarrow> 'v rpc_peer" where
  "receive_chunks parse p chunks = foldl (\<lambda>p c. snd (on_data parse c p)) p chunks"

lemma last_split_free: "d \<notin> set (last (split_on d s))"
  using split_on_no_sep [of "last (split_on d s)" d s] by simp

lemma split_on_append:
  "split_on d (s @ c) = butlast (split_on d s) @ split_on d (last (split_on d s) @ c)"
proof (induction s)
  case (Cons x s)
  obtain w ws where w: "split_on d s = w # ws" using split_on_nonempty by (cases "split_on d s") auto
  show ?case
  proof (cases ws)
    case Nil
    then show ?thesis using Cons w by (cases "split_on d (w @ c)") auto
  next
    case (Cons v vs)
    then show ?thesis using Cons.IH w by auto
  qed
qed simp

text \<open>
  Cutting the stream into chunks does not matter: whatever chunks the bytes arrive in, the peer does
  what the complete lines do one after the other, each handled if it is not empty and fits and rejected and
  reported otherwise, and keeps the incomplete last line.
\<close>

theorem chunks_are_lines:
  assumes "never_null parse" "4096 \<le> pe_max p" "between_lines p"
  shows "receive_chunks parse p chunks =
    tail_step (last (split_on 10 (concat chunks)))
      (foldl (line_step parse) p (butlast (split_on 10 (concat chunks))))"
proof (induction chunks rule: rev_induct)
  case Nil
  have "p\<lparr>pe_buffer := []\<rparr> = p" using assms(3) by (simp add: buffer_id between_lines_def)
  then show ?case by (simp add: receive_chunks_def tail_step_def)
next
  case (snoc c chunks)
  let ?ls = "split_on 10 (concat chunks)" and ?p = "foldl (line_step parse) p (butlast (split_on 10 (concat chunks)))"
  have "pe_max (foldl (line_step parse) p ls) = pe_max p \<and> between_lines (foldl (line_step parse) p ls)" for ls
    using assms(3) by (induction ls rule: rev_induct) simp_all
  note p = this [of "butlast ?ls"]
  have "receive_chunks parse p (chunks @ [c]) = snd (on_data parse c (tail_step (last ?ls) ?p))"
    using snoc by (simp add: receive_chunks_def)
  also have "\<dots> = tail_step (last (split_on 10 (last ?ls @ c))) (foldl (line_step parse) ?p (butlast (split_on 10 (last ?ls @ c))))"
    using on_data_tail [OF assms(1) _ _ last_split_free] p assms(2) by simp
  finally show ?case
    by (simp add: split_on_append [of 10 "concat chunks" c] butlast_append)
qed

section \<open>Every promise is settled once\<close>

datatype 'v peer_op =
    Request_Op string 'v
  | Listen_Op string
  | Data_Op "nat list"
  | Close_Op string

fun peer_step :: "(nat list \<Rightarrow> 'v line_value) \<Rightarrow> 'v rpc_peer \<Rightarrow> 'v peer_op \<Rightarrow> 'v rpc_peer" where
  "peer_step parse p (Request_Op m params) = rpc_request m params p"
| "peer_step parse p (Listen_Op m) = notification m p"
| "peer_step parse p (Data_Op chunk) = snd (on_data parse chunk p)"
| "peer_step parse p (Close_Op reason) = close_peer reason p"

fun settles :: "'v peer_effect \<Rightarrow> nat list" where
  "settles (Resolved n v) = [n]"
| "settles (Rejected n e) = [n]"
| "settles (Notified n v) = [n]"
| "settles (Request_Written i m v) = []"
| "settles (Rejection_Written i) = []"
| "settles (Line_Reported n) = []"

definition settled :: "'v rpc_peer \<Rightarrow> nat list" where
  "settled p = concat (map settles (pe_log p))"

definition waiting_promises :: "'v rpc_peer \<Rightarrow> nat list" where
  "waiting_promises p = map_values (pe_pending p) @ concat (map_values (pe_listeners p))"

definition promises_ok :: "'v rpc_peer \<Rightarrow> bool" where
  "promises_ok p \<longleftrightarrow> mset (settled p) + mset (waiting_promises p) = mset [0..<pe_promises p] \<and>
     (\<forall>i \<in> set (map_keys (pe_pending p)). \<exists>k < pe_next_id p. i = Fin (of_int k))"

lemma settled_append: "settled (p\<lparr>pe_log := pe_log p @ es\<rparr>) = settled p @ concat (map settles es)"
  by (simp add: settled_def)

lemma mset_values_delete:
  "map_get m k = Some v \<Longrightarrow> mset (map_values m) = add_mset v (mset (map_values (map_delete k m)))"
  by (induction m) (auto split: if_splits)

lemma mset_concat_delete:
  "mset (concat (map_values m)) = mset (given (map_get m k) []) + mset (concat (map_values (map_delete k m)))"
  by (induction m) auto

lemma mset_concat_set:
  "mset (concat (map_values (map_set k v m))) + mset (given (map_get m k) []) = mset v + mset (concat (map_values m))"
  by (induction m) auto

lemma keys_delete_subset: "set (map_keys (map_delete k m)) \<subseteq> set (map_keys m)"
  by (metis map_keys_delete set_remove1_subset)

lemma promises_ok_cong:
  assumes "promises_ok p" "pe_pending q = pe_pending p" "pe_listeners q = pe_listeners p"
    "settled q = settled p" "pe_promises q = pe_promises p" "pe_next_id q = pe_next_id p"
  shows "promises_ok q"
  using assms by (simp add: promises_ok_def waiting_promises_def)

lemma request_promises:
  assumes "promises_ok p"
  shows "promises_ok (rpc_request m params p)"
proof -
  have fresh: "Fin (of_int (pe_next_id p)) \<notin> set (map_keys (pe_pending p))"
    using assms by (auto simp: promises_ok_def)
  then have set: "map_set (Fin (of_int (pe_next_id p))) v (pe_pending p) =
      pe_pending p @ [(Fin (of_int (pe_next_id p)), v)]" for v
    by (rule map_set_fresh)
  have keys: "\<exists>k < pe_next_id p + 1. i = Fin (of_int k)" if "i \<in> set (map_keys (pe_pending p))" for i
    using assms that by (metis promises_ok_def less_add_one order.strict_trans)
  have "pe_next_id p < pe_next_id p + 1" by simp
  with keys show ?thesis
    using assms by (auto simp: promises_ok_def rpc_request_def request_with_id_def effect_def set settled_def
        waiting_promises_def map_keys_def)
qed

lemma notification_promises:
  assumes "promises_ok p"
  shows "promises_ok (notification m p)"
proof -
  let ?old = "given (map_get (pe_listeners p) m) []"
  have "mset (concat (map_values (map_set m (?old @ [pe_promises p]) (pe_listeners p)))) + mset ?old =
      mset (?old @ [pe_promises p]) + mset (concat (map_values (pe_listeners p)))"
    by (rule mset_concat_set)
  then have "mset (concat (map_values (map_set m (?old @ [pe_promises p]) (pe_listeners p)))) =
      add_mset (pe_promises p) (mset (concat (map_values (pe_listeners p))))"
    by simp
  then show ?thesis
    using assms by (auto simp: promises_ok_def notification_def settled_def waiting_promises_def)
qed

lemma settles_all [simp]:
  "concat (map settles (map (\<lambda>n. Rejected n e) ns)) = ns" "concat (map settles (map (\<lambda>n. Notified n v) ns)) = ns"
  by (induction ns) simp_all

lemma close_promises:
  assumes "promises_ok p"
  shows "promises_ok (close_peer reason p)"
proof -
  have "settled (close_peer reason p) = settled p @ map_values (pe_pending p)"
    by (simp add: settled_def close_peer_def del: map_map)
  then show ?thesis
    using assms by (simp add: promises_ok_def waiting_promises_def ac_simps) (simp add: close_peer_def)
qed

lemma deliver_promises:
  assumes "promises_ok p"
  shows "promises_ok (deliver_notification f p)"
proof (cases "fr_method f")
  case (Some m)
  have "settled (deliver_notification f p) = settled p @ given (map_get (pe_listeners p) m) []"
    by (simp add: settled_def deliver_notification_def Some del: map_map)
  then show ?thesis
    using assms mset_concat_delete [of "pe_listeners p" m]
    by (simp add: promises_ok_def waiting_promises_def ac_simps) (auto simp: deliver_notification_def Some)
qed (use assms in \<open>simp add: deliver_notification_def\<close>)

lemma settle_promises:
  assumes "promises_ok p"
  shows "promises_ok (settle_request f p)"
proof (cases "\<exists>i n. fr_id f = Some i \<and> map_get (pe_pending p) i = Some n")
  case True
  then obtain i n where i: "fr_id f = Some i" "map_get (pe_pending p) i = Some n" by blast
  show ?thesis
    using assms i mset_values_delete [OF i(2)] keys_delete_subset [of i "pe_pending p"]
    by (cases "fr_error f") (auto simp: promises_ok_def settle_request_def effect_def settled_def waiting_promises_def)
next
  case False
  then have "settle_request f p = p" by (auto simp: settle_request_def split: option.split)
  with assms show ?thesis by simp
qed

lemma handle_promises: "promises_ok p \<Longrightarrow> promises_ok (snd (handle_line parse line p))"
  by (simp add: handle_line_def settle_promises deliver_promises split: line_value.split)

lemma oversized_promises:
  "promises_ok p \<Longrightarrow> promises_ok (reject_oversized_head h p)"
  "promises_ok p \<Longrightarrow> promises_ok (report_line_too_large n p)"
  "promises_ok (p\<lparr>pe_discarded := d\<rparr>) = promises_ok p"
  "promises_ok (p\<lparr>pe_buffer := b\<rparr>) = promises_ok p"
  by (simp_all add: promises_ok_def settled_def waiting_promises_def reject_oversized_head_def
      report_line_too_large_def effect_def)

lemma data_loop_promises: "promises_ok p \<Longrightarrow> promises_ok (snd (data_loop parse rest p))"
proof (induction parse rest p rule: data_loop.induct)
  case (1 parse rest p)
  obtain r p' where h: "handle_line parse (until_newline rest) p = (r, p')" by fastforce
  have p': "promises_ok p'" using handle_promises [OF 1(5), of parse "until_newline rest"] h by simp
  show ?case
  proof (cases "pe_discarded p")
    case (Some n)
    then show ?thesis
      using 1(4) [OF refl refl refl Some] 1(5)
      by (subst data_loop.simps) (simp add: Let_def oversized_promises)
  next
    case None
    show ?thesis
      using 1(1-3) [OF refl refl refl None] 1(5) p' None h
      by (subst data_loop.simps) (cases r; simp add: Let_def oversized_promises)
  qed
qed

lemma peer_step_promises: "promises_ok p \<Longrightarrow> promises_ok (peer_step parse p e)"
  by (cases e) (simp_all add: request_promises notification_promises close_promises on_data_def
      data_loop_promises oversized_promises)

interpretation peer: invariant_machine "peer_step parse" "promises_ok :: 'v rpc_peer \<Rightarrow> bool" for parse
  by unfold_locales (rule peer_step_promises)

text \<open>
  C31. In every sequence of requests, listeners, chunks and closings each promise given out is settled
  exactly once or still waiting: none is lost and none is settled twice.
\<close>

theorem promises_settle_once:
  "mset (settled (foldl (peer_step parse) (new_peer max_line) ops)) +
   mset (waiting_promises (foldl (peer_step parse) (new_peer max_line) ops)) =
   mset [0..<pe_promises (foldl (peer_step parse) (new_peer max_line) ops)]"
proof -
  have "promises_ok (new_peer max_line)"
    by (simp add: promises_ok_def new_peer_def settled_def waiting_promises_def)
  from peer.run_good [OF this, of parse ops] show ?thesis by (simp add: promises_ok_def)
qed

text \<open>
  An answer that is too long never settles its request: it is only reported back to the worker.
\<close>

lemma oversized_answer_leaves_request:
  assumes "pe_max p < length line"
  shows "pe_pending (line_step parse p line) = pe_pending p"
  using assms by (simp add: line_step_def)


definition demo_parse :: "nat list \<Rightarrow> unit line_value" where
  "demo_parse line = (if line = [120]
     then Frame_Line \<lparr>fr_id = Some (Fin 1), fr_method = None, fr_params = (), fr_result = (), fr_error = None\<rparr>
     else Unparsable_Line)"

lemma chunks_are_lines_witness:
  "pe_log (receive_chunks demo_parse (rpc_request ''run'' () (new_peer None)) [[121], [10, 10, 120], [], [10, 120]]) =
     [Request_Written (Fin 1) ''run'' (), Resolved 0 ()]"
proof -
  let ?p = "rpc_request ''run'' () (new_peer None)"
  have "never_null demo_parse" by (simp add: never_null_def demo_parse_def)
  moreover have "4096 \<le> pe_max ?p" "between_lines ?p"
    by (simp_all add: rpc_request_def request_with_id_def effect_def new_peer_def default_max_line_def between_lines_def)
  ultimately have run: "receive_chunks demo_parse ?p [[121], [10, 10, 120], [], [10, 120]] =
      tail_step [120] (foldl (line_step demo_parse) ?p [[121], [], [120]])"
    by (simp add: chunks_are_lines)
  show ?thesis
    unfolding run
    by (simp add: tail_step_def line_step_def handle_line_def demo_parse_def settle_request_def deliver_notification_def
        rpc_request_def request_with_id_def effect_def new_peer_def default_max_line_def)
qed

text \<open>A line that holds \<open>null\<close> throws out of the handler, and what came after it is lost.\<close>

lemma null_line_loses_chunk:
  assumes "parse [110] = Null_Line" "pe_max p \<ge> 1" "between_lines p"
  shows "on_data parse (110 # 10 # rest) p = (throw ''TypeError'' [], p)"
proof -
  have "p\<lparr>pe_buffer := []\<rparr> = p" "pe_discarded p = None" "pe_buffer p = []"
    using assms(3) by (simp_all add: between_lines_def buffer_id)
  then show ?thesis
    using assms(1,2) by (simp add: on_data_def data_loop.simps Let_def until_newline_def handle_line_def)
qed

end
