(* ===== verification/Worker_Pool.thy ===== *)
theory Worker_Pool
  imports Prelude
begin

text \<open>
  The pool of native workers, \<open>packages/native-bridge/src/worker-pool.ts\<close>. A call that finds no worker
  begins a flight, which waits for the path of the binary (\<open>Resolving\<close>) and then for the worker's first
  line (\<open>Handshaking\<close>); later calls join it. Timers, lines and exits of children are steps that come in
  any order; the promise of a flight settles at the moment its last wait ends. Children are numbered
  in the order of their start; calls are the requests sent to a worker, numbered by the caller.
\<close>

section \<open>State\<close>

datatype worker_kind = Search_Worker | Fs_Worker

datatype flight = Resolving | Handshaking nat

text \<open>The parameters of the worker's first line: the right protocol, another value, or none or \<open>null\<close>.\<close>

datatype ready_params = Ready_One | Ready_Other | Ready_Null

datatype kill_signal = Sigkill | Sigterm

datatype ensured = Has_Worker nat | Joins_Flight | Unavailable | Flying

datatype pool_event =
    Spawned worker_kind nat
  | Ready_Worker worker_kind nat
  | Killed nat kill_signal
  | Crashed worker_kind nat
  | Recovered worker_kind
  | Handshake_Timeout worker_kind nat
  | Handshake_Invalid worker_kind nat
  | Handshake_Threw worker_kind nat
  | No_Binary worker_kind
  | Call_Rejected nat

text \<open>
  \<open>po_calls\<close>: the requests outstanding at a child. \<open>po_idle\<close> and \<open>po_stable\<close>: the children whose timers
  are running; setting the idle timer anew leaves one. \<open>po_dead\<close> is the world's: who has exited.
\<close>

record worker_pool =
  po_workers :: "(worker_kind, nat) jsmap"
  po_restarts :: "(worker_kind, nat) jsmap"
  po_ensuring :: "(worker_kind, flight) jsmap"
  po_idle :: "(worker_kind \<times> nat) list"
  po_stable :: "(worker_kind \<times> nat) list"
  po_calls :: "(nat \<times> nat) list"
  po_children :: nat
  po_dead :: "nat list"
  po_log :: "pool_event list"

definition new_pool :: worker_pool where
  "new_pool = \<lparr>po_workers = [], po_restarts = [], po_ensuring = [], po_idle = [], po_stable = [],
     po_calls = [], po_children = 0, po_dead = [], po_log = []\<rparr>"

definition note_pool :: "pool_event \<Rightarrow> worker_pool \<Rightarrow> worker_pool" where
  "note_pool e p = p\<lparr>po_log := po_log p @ [e]\<rparr>"

definition restarts_of :: "worker_kind \<Rightarrow> worker_pool \<Rightarrow> nat" where
  "restarts_of k p = given (map_get (po_restarts p) k) 0"

section \<open>Operations\<close>

definition touch :: "worker_kind \<Rightarrow> nat \<Rightarrow> worker_pool \<Rightarrow> worker_pool" where
  "touch k c p = p\<lparr>po_idle := removeAll (k, c) (po_idle p) @ [(k, c)]\<rparr>"

definition ensure_worker :: "worker_kind \<Rightarrow> worker_pool \<Rightarrow> ensured \<times> worker_pool" where
  "ensure_worker k p = (case map_get (po_workers p) k of
     Some c \<Rightarrow> (Has_Worker c, touch k c p)
   | None \<Rightarrow> (case map_get (po_ensuring p) k of
         Some f \<Rightarrow> (Joins_Flight, p)
       | None \<Rightarrow> if restarts_of k p \<ge> 3 then (Unavailable, p)
                 else (Flying, p\<lparr>po_ensuring := map_set k Resolving (po_ensuring p)\<rparr>)))"

definition flight_resolved :: "worker_kind \<Rightarrow> bool \<Rightarrow> worker_pool \<Rightarrow> worker_pool" where
  "flight_resolved k binary p = (case map_get (po_ensuring p) k of
     Some Resolving \<Rightarrow>
       if \<not> binary then note_pool (No_Binary k) (p\<lparr>po_ensuring := map_delete k (po_ensuring p)\<rparr>)
       else note_pool (Spawned k (po_children p))
         (p\<lparr>po_children := Suc (po_children p),
            po_ensuring := map_set k (Handshaking (po_children p)) (po_ensuring p)\<rparr>)
   | _ \<Rightarrow> p)"

text \<open>The rejections of \<open>close\<close>: every request outstanding at the child.\<close>

definition close_worker :: "nat \<Rightarrow> worker_pool \<Rightarrow> worker_pool" where
  "close_worker c p = p\<lparr>
     po_log := po_log p @ map (\<lambda>x. Call_Rejected (snd x)) (filter (\<lambda>x. fst x = c) (po_calls p)),
     po_calls := filter (\<lambda>x. fst x \<noteq> c) (po_calls p)\<rparr>"

text \<open>Reading the protocol of \<open>null\<close> throws, before anything is done about the child.\<close>

definition handshake_done :: "worker_kind \<Rightarrow> ready_params \<Rightarrow> worker_pool \<Rightarrow> worker_pool" where
  "handshake_done k ready p = (case map_get (po_ensuring p) k of
     Some (Handshaking c) \<Rightarrow>
       let p' = p\<lparr>po_ensuring := map_delete k (po_ensuring p)\<rparr>
       in if ready = Ready_Null then note_pool (Handshake_Threw k c) p'
          else if ready \<noteq> Ready_One then note_pool (Handshake_Invalid k c) (note_pool (Killed c Sigkill) p')
          else touch k c (note_pool (Ready_Worker k c)
            (p'\<lparr>po_workers := map_set k c (po_workers p'), po_stable := po_stable p' @ [(k, c)]\<rparr>))
   | _ \<Rightarrow> p)"

definition handshake_timeout :: "worker_kind \<Rightarrow> worker_pool \<Rightarrow> worker_pool" where
  "handshake_timeout k p = (case map_get (po_ensuring p) k of
     Some (Handshaking c) \<Rightarrow> note_pool (Handshake_Timeout k c) (note_pool (Killed c Sigkill)
         (p\<lparr>po_ensuring := map_delete k (po_ensuring p)\<rparr>))
   | _ \<Rightarrow> p)"

text \<open>The exit is listened to only once the handshake is done, and only while the child is the worker.\<close>

definition child_exit :: "nat \<Rightarrow> worker_pool \<Rightarrow> worker_pool" where
  "child_exit c p =
     (let p' = p\<lparr>po_dead := po_dead p @ [c]\<rparr>
      in if c \<in> set (po_dead p) \<or> c \<ge> po_children p then p
         else (case filter (\<lambda>x. snd x = c) (po_workers p) of
             [] \<Rightarrow> p'
           | (k, _) # _ \<Rightarrow>
               (let q = close_worker c p'
                in note_pool (Crashed k c) (q\<lparr>po_idle := removeAll (k, c) (po_idle q),
                     po_workers := map_delete k (po_workers q),
                     po_restarts := map_set k (restarts_of k q + 1) (po_restarts q)\<rparr>))))"

definition idle_timer :: "worker_kind \<Rightarrow> nat \<Rightarrow> worker_pool \<Rightarrow> worker_pool" where
  "idle_timer k c p =
     (if (k, c) \<notin> set (po_idle p) then p
      else let q = p\<lparr>po_idle := removeAll (k, c) (po_idle p)\<rparr>
           in if map_get (po_workers q) k = Some c
              then note_pool (Killed c Sigterm) (close_worker c (q\<lparr>po_workers := map_delete k (po_workers q)\<rparr>))
              else q)"

definition stability_timer :: "worker_kind \<Rightarrow> nat \<Rightarrow> worker_pool \<Rightarrow> worker_pool" where
  "stability_timer k c p =
     (if (k, c) \<notin> set (po_stable p) then p
      else let q = p\<lparr>po_stable := removeAll (k, c) (po_stable p)\<rparr>
           in if map_get (po_workers q) k = Some c
              then note_pool (Recovered k) (q\<lparr>po_restarts := map_delete k (po_restarts q)\<rparr>)
              else q)"

text \<open>A request on a worker that is there, and its answer.\<close>

definition pool_call :: "worker_kind \<Rightarrow> nat \<Rightarrow> worker_pool \<Rightarrow> worker_pool" where
  "pool_call k r p = (case map_get (po_workers p) k of
     None \<Rightarrow> p
   | Some c \<Rightarrow> touch k c p\<lparr>po_calls := po_calls p @ [(c, r)]\<rparr>)"

definition pool_answer :: "nat \<Rightarrow> worker_pool \<Rightarrow> worker_pool" where
  "pool_answer r p = p\<lparr>po_calls := filter (\<lambda>x. snd x \<noteq> r) (po_calls p)\<rparr>"

definition close_pool :: "worker_pool \<Rightarrow> worker_pool" where
  "close_pool p = (foldl (\<lambda>q c. note_pool (Killed c Sigterm) (close_worker c q)) p (map_values (po_workers p)))
     \<lparr>po_workers := []\<rparr>"

record pool_status =
  ps_available :: bool
  ps_child :: "nat option"
  ps_restarts :: nat

definition pool_status :: "worker_kind \<Rightarrow> worker_pool \<Rightarrow> pool_status" where
  "pool_status k p = \<lparr>ps_available = map_has (po_workers p) k, ps_child = map_get (po_workers p) k,
     ps_restarts = restarts_of k p\<rparr>"

datatype pool_op =
    Ensure_Worker worker_kind
  | Flight_Resolved worker_kind bool
  | Handshake_Done worker_kind ready_params
  | Handshake_Timer worker_kind
  | Child_Exit nat
  | Idle_Timer worker_kind nat
  | Stability_Timer worker_kind nat
  | Pool_Call worker_kind nat
  | Pool_Answer nat
  | Close_Pool

fun pool_step :: "worker_pool \<Rightarrow> pool_op \<Rightarrow> worker_pool" where
  "pool_step p (Ensure_Worker k) = snd (ensure_worker k p)"
| "pool_step p (Flight_Resolved k b) = flight_resolved k b p"
| "pool_step p (Handshake_Done k r) = handshake_done k r p"
| "pool_step p (Handshake_Timer k) = handshake_timeout k p"
| "pool_step p (Child_Exit c) = child_exit c p"
| "pool_step p (Idle_Timer k c) = idle_timer k c p"
| "pool_step p (Stability_Timer k c) = stability_timer k c p"
| "pool_step p (Pool_Call k r) = pool_call k r p"
| "pool_step p (Pool_Answer r) = pool_answer r p"
| "pool_step p Close_Pool = close_pool p"

definition run_pool :: "pool_op list \<Rightarrow> worker_pool" where
  "run_pool ops = foldl pool_step new_pool ops"

end
