(* ===== verification/Worker_Pool_Claims.thy ===== *)
theory Worker_Pool_Claims
  imports Worker_Pool
begin

text \<open>
  What the pool of workers guarantees in every order of calls, timers and exits: one child of a kind, and
  a breaker that opens after three crashes. And what it does not notice.
\<close>

section \<open>At most one child of a kind\<close>

fun spawned :: "worker_kind \<Rightarrow> pool_event list \<Rightarrow> nat list" where
  "spawned k [] = []"
| "spawned k (Spawned k' c # es) = (if k' = k then c # spawned k es else spawned k es)"
| "spawned k (_ # es) = spawned k es"

fun killed :: "pool_event list \<Rightarrow> nat list" where
  "killed [] = []"
| "killed (Killed c s # es) = c # killed es"
| "killed (_ # es) = killed es"

fun abandoned :: "pool_event list \<Rightarrow> nat list" where
  "abandoned [] = []"
| "abandoned (Handshake_Threw k c # es) = c # abandoned es"
| "abandoned (_ # es) = abandoned es"

definition live_children :: "worker_kind \<Rightarrow> worker_pool \<Rightarrow> nat list" where
  "live_children k p = filter (\<lambda>c. c \<notin> set (po_dead p) \<and> c \<notin> set (killed (po_log p)) \<and>
     c \<notin> set (abandoned (po_log p))) (spawned k (po_log p))"

fun crash_step :: "worker_kind \<Rightarrow> nat \<Rightarrow> pool_event \<Rightarrow> nat" where
  "crash_step k n (Crashed k' c) = (if k' = k then n + 1 else n)"
| "crash_step k n (Recovered k') = (if k' = k then 0 else n)"
| "crash_step k n _ = n"

definition crashes_since :: "worker_kind \<Rightarrow> pool_event list \<Rightarrow> nat" where
  "crashes_since k log = foldl (crash_step k) 0 log"

lemma log_simps [simp]:
  "spawned k (log @ es) = spawned k log @ spawned k es" "killed (log @ es) = killed log @ killed es"
  "abandoned (log @ es) = abandoned log @ abandoned es" "crashes_since k (log @ es) = foldl (crash_step k) (crashes_since k log) es" "crashes_since k [] = 0"
proof -
  show "spawned k (log @ es) = spawned k log @ spawned k es" by (induction k log rule: spawned.induct) simp_all
  show "killed (log @ es) = killed log @ killed es" by (induction log rule: killed.induct) simp_all
  show "abandoned (log @ es) = abandoned log @ abandoned es" by (induction log rule: abandoned.induct) simp_all
qed (simp_all add: crashes_since_def)

lemma rejections_simps [simp]:
  "spawned k (map (\<lambda>x. Call_Rejected (f x)) xs) = []" "killed (map (\<lambda>x. Call_Rejected (f x)) xs) = []"
  "abandoned (map (\<lambda>x. Call_Rejected (f x)) xs) = []"
  "foldl (crash_step k) n (map (\<lambda>x. Call_Rejected (f x)) xs) = n"
  by (induction xs) simp_all

text \<open>What a kind holds: its worker and its flight.\<close>

definition slots_inv :: "worker_kind \<Rightarrow> worker_pool \<Rightarrow> bool" where
  "slots_inv k p \<longleftrightarrow> map_wf (po_workers p) \<and> map_wf (po_ensuring p) \<and> map_wf (po_restarts p) \<and>
     (map_get (po_workers p) k = None \<or> map_get (po_ensuring p) k = None)"

definition spawns_inv :: "worker_kind \<Rightarrow> worker_pool \<Rightarrow> bool" where
  "spawns_inv k p \<longleftrightarrow> distinct (spawned k (po_log p)) \<and> (\<forall>c \<in> set (spawned k (po_log p)). c < po_children p) \<and>
     (\<forall>c. c \<in> set (spawned k (po_log p)) \<longrightarrow> c \<in> set (po_dead p) \<or> c \<in> set (killed (po_log p)) \<or>
        c \<in> set (abandoned (po_log p)) \<or> map_get (po_workers p) k = Some c \<or> map_get (po_ensuring p) k = Some (Handshaking c))"

definition breaker_inv :: "worker_kind \<Rightarrow> worker_pool \<Rightarrow> bool" where
  "breaker_inv k p \<longleftrightarrow> restarts_of k p = crashes_since k (po_log p) \<and> restarts_of k p \<le> 3 \<and>
     (map_get (po_workers p) k \<noteq> None \<or> map_get (po_ensuring p) k \<noteq> None \<longrightarrow> restarts_of k p < 3)"

definition pool_inv :: "worker_kind \<Rightarrow> worker_pool \<Rightarrow> bool" where
  "pool_inv k p \<longleftrightarrow> slots_inv k p \<and> spawns_inv k p \<and> breaker_inv k p"

lemma pool_invI: "slots_inv k p \<Longrightarrow> spawns_inv k p \<Longrightarrow> breaker_inv k p \<Longrightarrow> pool_inv k p"
  by (simp add: pool_inv_def)

lemma pool_invD: "pool_inv k p \<Longrightarrow> slots_inv k p" "pool_inv k p \<Longrightarrow> spawns_inv k p" "pool_inv k p \<Longrightarrow> breaker_inv k p"
  "pool_inv k p \<Longrightarrow> map_wf (po_workers p)" "pool_inv k p \<Longrightarrow> map_wf (po_ensuring p)" "pool_inv k p \<Longrightarrow> map_wf (po_restarts p)"
  by (simp_all add: pool_inv_def slots_inv_def)

lemma close_worker_frame [simp]:
  "po_workers (close_worker c p) = po_workers p" "po_ensuring (close_worker c p) = po_ensuring p"
  "po_restarts (close_worker c p) = po_restarts p" "po_idle (close_worker c p) = po_idle p"
  "po_dead (close_worker c p) = po_dead p" "po_children (close_worker c p) = po_children p"
  "spawned k (po_log (close_worker c p)) = spawned k (po_log p)" "killed (po_log (close_worker c p)) = killed (po_log p)"
  "abandoned (po_log (close_worker c p)) = abandoned (po_log p)"
  "crashes_since k (po_log (close_worker c p)) = crashes_since k (po_log p)"
  by (simp_all add: close_worker_def)

lemma pool_new: "pool_inv k new_pool"
  by (simp add: pool_inv_def slots_inv_def spawns_inv_def breaker_inv_def new_pool_def restarts_of_def)

lemmas inv_defs = slots_inv_def spawns_inv_def breaker_inv_def note_pool_def restarts_of_def

lemma touch_inv [simp]: "pool_inv k (touch k' c p) = pool_inv k p"
  by (simp add: touch_def pool_inv_def inv_defs)

lemma ensure_inv:
  assumes "pool_inv k p"
  shows "pool_inv k (snd (ensure_worker k' p))"
proof (cases "map_get (po_workers p) k' = None \<and> map_get (po_ensuring p) k' = None \<and> restarts_of k' p < 3")
  case True
  show ?thesis
  proof (rule pool_invI)
    show "slots_inv k (snd (ensure_worker k' p))" using pool_invD(1) [OF assms] True
      by (auto simp: ensure_worker_def slots_inv_def map_get_set)
    show "spawns_inv k (snd (ensure_worker k' p))" using pool_invD(2) [OF assms] True
      by (auto simp: ensure_worker_def spawns_inv_def map_get_set)
    show "breaker_inv k (snd (ensure_worker k' p))" using pool_invD(3) [OF assms] True
      by (auto simp: ensure_worker_def breaker_inv_def restarts_of_def map_get_set)
  qed
next
  case False
  then show ?thesis using assms by (auto simp: ensure_worker_def split: option.split)
qed

lemma resolved_inv:
  assumes "pool_inv k p"
  shows "pool_inv k (flight_resolved k' b p)"
proof (cases "map_get (po_ensuring p) k' = Some Resolving")
  case True
  note wf = pool_invD(4-6) [OF assms]
  show ?thesis
  proof (rule pool_invI)
    show "slots_inv k (flight_resolved k' b p)" using pool_invD(1) [OF assms] True wf
      by (cases "k = k'") (simp_all add: flight_resolved_def slots_inv_def note_pool_def map_get_set map_get_delete)
    show "spawns_inv k (flight_resolved k' b p)" using pool_invD(2) [OF assms] True wf
      by (cases "k = k'") (auto simp: flight_resolved_def spawns_inv_def note_pool_def map_get_set map_get_delete less_Suc_eq)
    show "breaker_inv k (flight_resolved k' b p)" using pool_invD(3) [OF assms] True wf
      by (cases "k = k'") (auto simp: flight_resolved_def breaker_inv_def note_pool_def restarts_of_def map_get_set map_get_delete)
  qed
next
  case False
  then show ?thesis using assms by (simp add: flight_resolved_def split: option.split flight.split)
qed


lemmas pool_simps = note_pool_def restarts_of_def map_get_set map_get_delete

lemma handshake_inv:
  assumes "pool_inv k p"
  shows "pool_inv k (handshake_done k' v p)"
proof (cases "\<exists>c. map_get (po_ensuring p) k' = Some (Handshaking c)")
  case True
  then obtain c where c: "map_get (po_ensuring p) k' = Some (Handshaking c)" by blast
  note wf = pool_invD(4-6) [OF assms]
  show ?thesis
  proof (cases "v = Ready_One")
    case True
    let ?q = "note_pool (Ready_Worker k' c) (p\<lparr>po_ensuring := map_delete k' (po_ensuring p),
        po_workers := map_set k' c (po_workers p), po_stable := po_stable p @ [(k', c)]\<rparr>)"
    have q: "handshake_done k' v p = touch k' c ?q" using True c by (simp add: handshake_done_def)
    have "pool_inv k ?q"
    proof (rule pool_invI)
      show "slots_inv k ?q" using pool_invD(1) [OF assms] c wf by (cases "k = k'") (auto simp: slots_inv_def pool_simps)
      show "spawns_inv k ?q" using pool_invD(1,2) [OF assms] c wf
        by (cases "k = k'") (auto simp: slots_inv_def spawns_inv_def pool_simps)
      show "breaker_inv k ?q" using pool_invD(3) [OF assms] c wf by (cases "k = k'") (auto simp: breaker_inv_def pool_simps)
    qed
    then show ?thesis by (simp add: q)
  next
    case False
    note other = this
    show ?thesis
    proof (cases "v = Ready_Null")
      case True
      let ?q = "note_pool (Handshake_Threw k' c) (p\<lparr>po_ensuring := map_delete k' (po_ensuring p)\<rparr>)"
      have q: "handshake_done k' v p = ?q" using True c by (simp add: handshake_done_def)
      show ?thesis unfolding q
      proof (rule pool_invI)
        show "slots_inv k ?q" using pool_invD(1) [OF assms] c wf by (cases "k = k'") (auto simp: slots_inv_def pool_simps)
        show "spawns_inv k ?q" using pool_invD(2) [OF assms] c wf
          by (cases "k = k'") (auto simp: spawns_inv_def pool_simps)
        show "breaker_inv k ?q" using pool_invD(3) [OF assms] c wf by (cases "k = k'") (auto simp: breaker_inv_def pool_simps)
      qed
    next
      case False
      let ?q = "note_pool (Handshake_Invalid k' c) (note_pool (Killed c Sigkill) (p\<lparr>po_ensuring := map_delete k' (po_ensuring p)\<rparr>))"
      have q: "handshake_done k' v p = ?q" using False other c by (simp add: handshake_done_def)
      show ?thesis unfolding q
      proof (rule pool_invI)
        show "slots_inv k ?q" using pool_invD(1) [OF assms] c wf by (cases "k = k'") (auto simp: slots_inv_def pool_simps)
        show "spawns_inv k ?q" using pool_invD(2) [OF assms] c wf
          by (cases "k = k'") (auto simp: spawns_inv_def pool_simps)
        show "breaker_inv k ?q" using pool_invD(3) [OF assms] c wf by (cases "k = k'") (auto simp: breaker_inv_def pool_simps)
      qed
    qed
  qed
next
  case False
  then have "handshake_done k' v p = p" by (auto simp: handshake_done_def split: option.split flight.split)
  then show ?thesis using assms by simp
qed

lemma timeout_inv:
  assumes "pool_inv k p"
  shows "pool_inv k (handshake_timeout k' p)"
proof (cases "\<exists>c. map_get (po_ensuring p) k' = Some (Handshaking c)")
  case True
  then obtain c where c: "map_get (po_ensuring p) k' = Some (Handshaking c)" by blast
  note wf = pool_invD(4-6) [OF assms]
  let ?q = "note_pool (Handshake_Timeout k' c) (note_pool (Killed c Sigkill) (p\<lparr>po_ensuring := map_delete k' (po_ensuring p)\<rparr>))"
  have q: "handshake_timeout k' p = ?q" using c by (simp add: handshake_timeout_def)
  show ?thesis unfolding q
  proof (rule pool_invI)
    show "slots_inv k ?q" using pool_invD(1) [OF assms] c wf by (cases "k = k'") (auto simp: slots_inv_def pool_simps)
    show "spawns_inv k ?q" using pool_invD(2) [OF assms] c wf by (cases "k = k'") (auto simp: spawns_inv_def pool_simps)
    show "breaker_inv k ?q" using pool_invD(3) [OF assms] c wf by (cases "k = k'") (auto simp: breaker_inv_def pool_simps)
  qed
next
  case False
  then have "handshake_timeout k' p = p" by (auto simp: handshake_timeout_def split: option.split flight.split)
  then show ?thesis using assms by simp
qed

lemma exit_inv:
  assumes "pool_inv k p"
  shows "pool_inv k (child_exit c p)"
proof (cases "c \<in> set (po_dead p) \<or> c \<ge> po_children p")
  case False
  note wf = pool_invD(4-6) [OF assms]
  show ?thesis
  proof (cases "filter (\<lambda>x. snd x = c) (po_workers p)")
    case Nil
    then have q: "child_exit c p = p\<lparr>po_dead := po_dead p @ [c]\<rparr>" using False by (simp add: child_exit_def)
    show ?thesis unfolding q using assms by (auto simp: pool_inv_def slots_inv_def spawns_inv_def breaker_inv_def pool_simps)
  next
    case (Cons x xs)
    have "x \<in> set (filter (\<lambda>x. snd x = c) (po_workers p))" unfolding Cons by simp
    then have "x = (fst x, c)" "x \<in> set (po_workers p)" by auto
    then obtain k' where x: "x = (k', c)" and "(k', c) \<in> set (po_workers p)" by metis
    then have w: "map_get (po_workers p) k' = Some c" using wf(1) by (simp add: map_wf_def map_keys_def)
    let ?q = "note_pool (Crashed k' c) ((close_worker c (p\<lparr>po_dead := po_dead p @ [c]\<rparr>))
        \<lparr>po_idle := removeAll (k', c) (po_idle p), po_workers := map_delete k' (po_workers p),
         po_restarts := map_set k' (restarts_of k' p + 1) (po_restarts p)\<rparr>)"
    have q: "child_exit c p = ?q" using False Cons x by (simp add: child_exit_def Let_def restarts_of_def)
    have l: "spawned k (po_log ?q) = spawned k (po_log p)" "killed (po_log ?q) = killed (po_log p)" "abandoned (po_log ?q) = abandoned (po_log p)"
      "crashes_since k (po_log ?q) = crashes_since k (po_log p) + (if k' = k then 1 else 0)"
      by (simp_all add: note_pool_def close_worker_def)
    show ?thesis unfolding q
    proof (rule pool_invI)
      show "slots_inv k ?q" using pool_invD(1) [OF assms] w wf by (cases "k = k'") (auto simp: slots_inv_def pool_simps)
      show "spawns_inv k ?q" using pool_invD(2) [OF assms] w wf
        unfolding spawns_inv_def l by (cases "k = k'") (auto simp: pool_simps)
      show "breaker_inv k ?q" using pool_invD(1,3) [OF assms] w wf
        unfolding breaker_inv_def l by (cases "k = k'") (auto simp: slots_inv_def pool_simps)
    qed
  qed
qed (use assms in \<open>simp add: child_exit_def Let_def\<close>)

lemma idle_inv:
  assumes "pool_inv k p"
  shows "pool_inv k (idle_timer k' c p)"
proof (cases "(k', c) \<in> set (po_idle p) \<and> map_get (po_workers p) k' = Some c")
  case True
  note wf = pool_invD(4-6) [OF assms]
  let ?q = "note_pool (Killed c Sigterm) (close_worker c (p\<lparr>po_idle := removeAll (k', c) (po_idle p),
      po_workers := map_delete k' (po_workers p)\<rparr>))"
  have q: "idle_timer k' c p = ?q" using True by (simp add: idle_timer_def)
  have l: "spawned k (po_log ?q) = spawned k (po_log p)" "killed (po_log ?q) = killed (po_log p) @ [c]" "abandoned (po_log ?q) = abandoned (po_log p)"
    "crashes_since k (po_log ?q) = crashes_since k (po_log p)"
    by (simp_all add: note_pool_def close_worker_def)
  show ?thesis unfolding q
  proof (rule pool_invI)
    show "slots_inv k ?q" using pool_invD(1) [OF assms] True wf by (cases "k = k'") (auto simp: slots_inv_def pool_simps)
    show "spawns_inv k ?q" using pool_invD(2) [OF assms] True wf
      unfolding spawns_inv_def l by (cases "k = k'") (auto simp: pool_simps)
    show "breaker_inv k ?q" using pool_invD(3) [OF assms] True wf
      unfolding breaker_inv_def l by (cases "k = k'") (auto simp: pool_simps)
  qed
next
  case False
  then show ?thesis
    using assms by (auto simp: idle_timer_def Let_def pool_inv_def slots_inv_def spawns_inv_def breaker_inv_def restarts_of_def)
qed

lemma stability_inv:
  assumes "pool_inv k p"
  shows "pool_inv k (stability_timer k' c p)"
proof (cases "(k', c) \<in> set (po_stable p) \<and> map_get (po_workers p) k' = Some c")
  case True
  note wf = pool_invD(4-6) [OF assms]
  let ?q = "note_pool (Recovered k') (p\<lparr>po_stable := removeAll (k', c) (po_stable p),
      po_restarts := map_delete k' (po_restarts p)\<rparr>)"
  have q: "stability_timer k' c p = ?q" using True by (simp add: stability_timer_def)
  show ?thesis unfolding q
  proof (rule pool_invI)
    show "slots_inv k ?q" using pool_invD(1) [OF assms] wf by (auto simp: slots_inv_def pool_simps)
    show "spawns_inv k ?q" using pool_invD(2) [OF assms] wf by (auto simp: spawns_inv_def pool_simps)
    show "breaker_inv k ?q" using pool_invD(3) [OF assms] True wf by (cases "k = k'") (auto simp: breaker_inv_def pool_simps)
  qed
next
  case False
  then show ?thesis
    using assms by (auto simp: stability_timer_def Let_def pool_inv_def slots_inv_def spawns_inv_def breaker_inv_def restarts_of_def)
qed

lemma call_inv:
  assumes "pool_inv k p"
  shows "pool_inv k (pool_call k' r p)" "pool_inv k (pool_answer r p)"
  using assms
  by (auto simp: pool_call_def pool_answer_def touch_def pool_inv_def slots_inv_def spawns_inv_def breaker_inv_def
      restarts_of_def split: option.split)

lemma close_all_frame:
  "let q = foldl (\<lambda>q c. note_pool (Killed c Sigterm) (close_worker c q)) p cs
   in po_workers q = po_workers p \<and> po_ensuring q = po_ensuring p \<and> po_restarts q = po_restarts p \<and>
      po_dead q = po_dead p \<and> po_children q = po_children p \<and>
      spawned k (po_log q) = spawned k (po_log p) \<and> killed (po_log q) = killed (po_log p) @ cs \<and>
      abandoned (po_log q) = abandoned (po_log p) \<and>
      crashes_since k (po_log q) = crashes_since k (po_log p)"
  by (induction cs rule: rev_induct) (simp_all add: Let_def note_pool_def)

lemma close_inv:
  assumes "pool_inv k p"
  shows "pool_inv k (close_pool p)"
proof -
  note f = close_all_frame [of p "map_values (po_workers p)" k, unfolded Let_def]
  have w: "map_get (po_workers p) k = Some c \<Longrightarrow> c \<in> set (map_values (po_workers p))" for c
    by (force dest: map_of_SomeD)
  show ?thesis
  proof (rule pool_invI)
    show "slots_inv k (close_pool p)" using pool_invD(1) [OF assms] f by (auto simp: close_pool_def slots_inv_def)
    show "spawns_inv k (close_pool p)" using pool_invD(2) [OF assms] f w unfolding close_pool_def spawns_inv_def by fastforce
    show "breaker_inv k (close_pool p)" using pool_invD(3) [OF assms] f by (auto simp: close_pool_def breaker_inv_def restarts_of_def)
  qed
qed

lemma pool_step_inv: "pool_inv k p \<Longrightarrow> pool_inv k (pool_step p e)"
  by (cases e) (simp_all add: ensure_inv resolved_inv handshake_inv timeout_inv exit_inv idle_inv stability_inv
      call_inv close_inv)

interpretation pool: invariant_machine pool_step "pool_inv k" for k
  by unfold_locales (rule pool_step_inv)

lemma run_pool_inv: "pool_inv k (run_pool ops)"
  unfolding run_pool_def by (rule pool.run_good [OF pool_new])


text \<open>
  Of each kind at most one child is alive that was not told to stop: calls that overlap, timers, crashes
  and a closing in any order never leave a second one behind. The only exception are children whose first
  line has no parameters, on which the handshake throws.
\<close>

theorem one_child_per_kind: "length (live_children k (run_pool ops)) \<le> 1"
proof -
  let ?p = "run_pool ops"
  have inv: "slots_inv k ?p" "spawns_inv k ?p" using run_pool_inv [of k ops] by (auto dest: pool_invD)
  have held: "map_get (po_workers ?p) k = Some c \<or> map_get (po_ensuring ?p) k = Some (Handshaking c)"
    if "c \<in> set (live_children k ?p)" for c
    using inv(2) that unfolding spawns_inv_def live_children_def by simp blast
  have one: "c = d" if "c \<in> set (live_children k ?p)" "d \<in> set (live_children k ?p)" for c d
    using held [OF that(1)] held [OF that(2)] inv(1) by (auto simp: slots_inv_def)
  have "distinct (live_children k ?p)" using inv(2) by (simp add: spawns_inv_def live_children_def)
  then have "length (live_children k ?p) = card (set (live_children k ?p))" by (simp add: distinct_card)
  also have "\<dots> \<le> 1" unfolding One_nat_def by (rule card_le_Suc0_iff_eq [THEN iffD2]) (use one in simp_all)
  finally show ?thesis .
qed

section \<open>The breaker\<close>

lemma broken_step:
  assumes inv: "pool_inv k p" and broken: "restarts_of k p = 3"
  shows "restarts_of k (pool_step p e) = 3 \<and> spawned k (po_log (pool_step p e)) = spawned k (po_log p)"
proof -
  have none: "map_get (po_workers p) k = None" "map_get (po_ensuring p) k = None"
    using pool_invD(3) [OF inv] broken by (auto simp: breaker_inv_def)
  note wf = pool_invD(4-6) [OF inv]
  have w: "x \<in> set (po_workers p) \<Longrightarrow> fst x \<noteq> k" for x
    using none(1) by (auto simp: map_of_eq_None_iff)
  show ?thesis
  proof (cases e)
    case (Ensure_Worker k')
    then show ?thesis using none broken
      by (auto simp: ensure_worker_def touch_def restarts_of_def split: option.split)
  next
    case (Flight_Resolved k' b)
    then show ?thesis using none broken
      by (auto simp: flight_resolved_def note_pool_def restarts_of_def split: option.split flight.split)
  next
    case (Handshake_Done k' v)
    then show ?thesis using none broken
      by (auto simp: handshake_done_def touch_def note_pool_def restarts_of_def Let_def split: option.split flight.split)
  next
    case (Handshake_Timer k')
    then show ?thesis using none broken
      by (auto simp: handshake_timeout_def note_pool_def restarts_of_def split: option.split flight.split)
  next
    case (Child_Exit c)
    show ?thesis
    proof (cases "filter (\<lambda>x. snd x = c) (po_workers p)")
      case Nil
      then show ?thesis using Child_Exit broken by (simp add: child_exit_def Let_def restarts_of_def)
    next
      case (Cons x xs)
      have "x \<in> set (filter (\<lambda>x. snd x = c) (po_workers p))" unfolding Cons by simp
      then have "fst x \<noteq> k" using w by simp
      then show ?thesis using Child_Exit broken Cons
        by (cases x) (simp add: child_exit_def Let_def restarts_of_def note_pool_def map_get_set)
    qed
  next
    case (Idle_Timer k' c)
    then show ?thesis using broken by (simp add: idle_timer_def Let_def restarts_of_def note_pool_def)
  next
    case (Stability_Timer k' c)
    then show ?thesis using none broken wf
      by (cases "k' = k") (simp_all add: stability_timer_def Let_def restarts_of_def note_pool_def map_get_delete)
  next
    case (Pool_Call k' r)
    then show ?thesis using broken by (auto simp: pool_call_def touch_def restarts_of_def split: option.split)
  next
    case (Pool_Answer r)
    then show ?thesis using broken by (simp add: pool_answer_def restarts_of_def)
  next
    case Close_Pool
    then show ?thesis using broken close_all_frame [of p "map_values (po_workers p)" k, unfolded Let_def]
      by (simp add: close_pool_def restarts_of_def)
  qed
qed

text \<open>
  At most three crashes of a kind follow each other without a worker that stays up; after the third the
  kind is off for good: whatever happens later, no child of it is started again.
\<close>

theorem breaker_is_final:
  "crashes_since k (po_log (run_pool ops)) \<le> 3 \<and>
   (crashes_since k (po_log (run_pool ops)) = 3 \<longrightarrow>
     spawned k (po_log (run_pool (ops @ later))) = spawned k (po_log (run_pool ops)))"
proof -
  have inv: "pool_inv k (run_pool ops)" by (rule run_pool_inv)
  have r: "restarts_of k (run_pool ops) = crashes_since k (po_log (run_pool ops))"
    "crashes_since k (po_log (run_pool ops)) \<le> 3"
    using pool_invD(3) [OF inv] by (auto simp: breaker_inv_def)
  have "pool_inv k (foldl pool_step p later) \<and> restarts_of k (foldl pool_step p later) = 3 \<and>
      spawned k (po_log (foldl pool_step p later)) = spawned k (po_log p)"
    if "pool_inv k p" "restarts_of k p = 3" for p
    using that by (induction later rule: rev_induct) (auto simp: pool_step_inv dest: broken_step)
  then show ?thesis using inv r by (simp add: run_pool_def)
qed

definition crash_round :: "nat \<Rightarrow> pool_op list" where
  "crash_round c = [Ensure_Worker Search_Worker, Flight_Resolved Search_Worker True,
     Handshake_Done Search_Worker Ready_One, Child_Exit c]"

lemma breaker_is_final_witness:
  "crashes_since Search_Worker (po_log (run_pool (crash_round 0 @ crash_round 1 @ crash_round 2))) = 3 \<and>
   spawned Search_Worker (po_log (run_pool ((crash_round 0 @ crash_round 1 @ crash_round 2) @ crash_round 3))) = [0, 1, 2]"
proof -
  have "crashes_since Search_Worker (po_log (run_pool (crash_round 0 @ crash_round 1 @ crash_round 2))) = 3"
    "spawned Search_Worker (po_log (run_pool (crash_round 0 @ crash_round 1 @ crash_round 2))) = [0, 1, 2]"
    by code_simp+
  then show ?thesis
    using breaker_is_final [of Search_Worker "crash_round 0 @ crash_round 1 @ crash_round 2" "crash_round 3"] by simp
qed

section \<open>What the pool does not notice\<close>

text \<open>
  A child that ends before its handshake is not a crash to the breaker: every call starts another one and
  waits for the timer, for ever.
\<close>

definition failing_start :: "nat \<Rightarrow> pool_op list" where
  "failing_start c = [Ensure_Worker Fs_Worker, Flight_Resolved Fs_Worker True, Child_Exit c, Handshake_Timer Fs_Worker]"

lemma failing_round:
  assumes "po_workers p = []" "po_ensuring p = []" "po_restarts p = []" "po_children p = n" "n \<notin> set (po_dead p)"
  defines "q \<equiv> foldl pool_step p (failing_start n)"
  shows "po_workers q = [] \<and> po_ensuring q = [] \<and> po_restarts q = [] \<and> po_children q = Suc n \<and>
     po_dead q = po_dead p @ [n] \<and> spawned Fs_Worker (po_log q) = spawned Fs_Worker (po_log p) @ [n]"
  using assms by (simp add: q_def failing_start_def ensure_worker_def flight_resolved_def note_pool_def restarts_of_def
      child_exit_def handshake_timeout_def)

lemma failing_starts:
  "let p = run_pool (concat (map failing_start [0..<n])) in
     po_workers p = [] \<and> po_ensuring p = [] \<and> po_restarts p = [] \<and> po_children p = n \<and>
     po_dead p = [0..<n] \<and> spawned Fs_Worker (po_log p) = [0..<n]"
proof (induction n)
  case 0
  then show ?case by (simp add: run_pool_def new_pool_def)
next
  case (Suc n)
  let ?p = "run_pool (concat (map failing_start [0..<n]))"
  have q: "run_pool (concat (map failing_start [0..<Suc n])) = foldl pool_step ?p (failing_start n)"
    by (simp add: run_pool_def)
  show ?case
    using failing_round [of ?p n] Suc.IH unfolding q by (simp add: Let_def)
qed

text \<open>A request that takes longer than the idle time is rejected, and its worker ended, as idle.\<close>

lemma busy_worker_is_idle:
  "po_log (run_pool [Ensure_Worker Fs_Worker, Flight_Resolved Fs_Worker True, Handshake_Done Fs_Worker Ready_One,
     Pool_Call Fs_Worker 7, Idle_Timer Fs_Worker 0]) =
   [Spawned Fs_Worker 0, Ready_Worker Fs_Worker 0, Call_Rejected 7, Killed 0 Sigterm]"
  by code_simp

text \<open>
  A child whose first line is read after its exit was seen becomes the worker although it is gone; and a
  flight that is under way when the pool is closed still puts its child into it.
\<close>

lemma dead_worker_is_admitted:
  "po_workers (run_pool [Ensure_Worker Fs_Worker, Flight_Resolved Fs_Worker True, Child_Exit 0,
     Handshake_Done Fs_Worker Ready_One]) = [(Fs_Worker, 0)]"
  by code_simp

lemma null_ready_leaves_child:
  "po_log (run_pool [Ensure_Worker Fs_Worker, Flight_Resolved Fs_Worker True, Handshake_Done Fs_Worker Ready_Null,
     Ensure_Worker Fs_Worker, Flight_Resolved Fs_Worker True]) =
   [Spawned Fs_Worker 0, Handshake_Threw Fs_Worker 0, Spawned Fs_Worker 1]"
  by code_simp

lemma worker_after_close:
  "po_workers (run_pool [Ensure_Worker Fs_Worker, Flight_Resolved Fs_Worker True, Close_Pool,
     Handshake_Done Fs_Worker Ready_One]) = [(Fs_Worker, 0)]"
  by code_simp

end
