(* ===== verification/Tool_Registry.thy ===== *)
theory Tool_Registry
  imports Prelude "HOL-Library.Char_ord" "HOL-Library.List_Lexorder"
begin

text \<open>
  The registry of tools, \<open>packages/tool-kit/src/index.ts\<close>, and the services of the kernel that keep the
  tools of plugins and the panels, \<open>packages/kernel/src/index.ts\<close>. A disposer is the name it deletes. An
  entry of the registry carries who registered it (a ghost: the code forgets the source).
\<close>

section \<open>Tools\<close>

datatype tool_source = Builtin_Tool | Mcp_Tool string | Plugin_Tool string

record 'j tool =
  tl_name :: string
  tl_description :: string
  tl_schema :: 'j

type_synonym 'j tool_registry = "(string, 'j tool \<times> tool_source) jsmap"

definition mcp_prefix :: "string \<Rightarrow> string" where
  "mcp_prefix server = ''mcp__'' @ server @ ''__''"

definition plugin_prefix :: "string \<Rightarrow> string" where
  "plugin_prefix plugin = ''plugin:'' @ plugin @ '':''"

fun source_allows :: "tool_source \<Rightarrow> string \<Rightarrow> bool" where
  "source_allows Builtin_Tool n = True"
| "source_allows (Mcp_Tool server) n = starts_with n (mcp_prefix server)"
| "source_allows (Plugin_Tool plugin) n = starts_with n (plugin_prefix plugin)"

definition register_tool :: "'j tool \<Rightarrow> tool_source \<Rightarrow> 'j tool_registry \<Rightarrow> string result \<times> 'j tool_registry" where
  "register_tool t source reg =
     (if \<not> source_allows source (tl_name t)
      then (throw ''toolkit_tool_invalid''
          (case source of Mcp_Tool _ \<Rightarrow> ''MCP tools require mcp__<server>__ prefix''
           | _ \<Rightarrow> ''Plugin tools require plugin:<name>: prefix''), reg)
      else if map_has reg (tl_name t)
      then (throw ''toolkit_tool_conflict'' (''Tool already registered: '' @ tl_name t), reg)
      else (Inr (tl_name t), map_set (tl_name t) (t, source) reg))"

definition dispose_tool :: "string \<Rightarrow> 'j tool_registry \<Rightarrow> 'j tool_registry" where
  "dispose_tool n reg = map_delete n reg"

definition get_tool :: "string \<Rightarrow> 'j tool_registry \<Rightarrow> 'j tool option" where
  "get_tool n reg = map_option fst (map_get reg n)"

definition list_tools :: "'j tool_registry \<Rightarrow> 'j tool list" where
  "list_tools reg = map fst (map_values reg)"

definition tools_for_provider :: "'j tool_registry \<Rightarrow> (string \<times> string \<times> 'j) list" where
  "tools_for_provider reg = map (\<lambda>t. (tl_name t, tl_description t, tl_schema t)) (list_tools reg)"

section \<open>Tools of plugins\<close>

text \<open>
  Per plugin the set of wrapped disposers, in the order they were added. A wrapper takes the disposer
  out of the set, where only the wrapper is: nothing is taken out.
\<close>

record 'j tools_service =
  ts_registry :: "'j tool_registry"
  ts_unregisters :: "(string, string list) jsmap"

definition new_tools_service :: "'j tools_service" where
  "new_tools_service = \<lparr>ts_registry = [], ts_unregisters = []\<rparr>"

definition register_plugin_tool :: "string \<Rightarrow> 'j tool \<Rightarrow> 'j tools_service \<Rightarrow> string result \<times> 'j tools_service" where
  "register_plugin_tool plugin t s = (case register_tool t (Plugin_Tool plugin) (ts_registry s) of
     (Inl e, reg) \<Rightarrow> (Inl e, s)
   | (Inr n, reg) \<Rightarrow> (Inr n, s\<lparr>ts_registry := reg,
       ts_unregisters := map_set plugin (given (map_get (ts_unregisters s) plugin) [] @ [n]) (ts_unregisters s)\<rparr>))"

definition unregister_plugin :: "string \<Rightarrow> 'j tools_service \<Rightarrow> nat \<times> 'j tools_service" where
  "unregister_plugin plugin s = (case map_get (ts_unregisters s) plugin of
     None \<Rightarrow> (0, s)
   | Some ns \<Rightarrow> (length ns, s\<lparr>ts_registry := foldl (\<lambda>reg n. dispose_tool n reg) (ts_registry s) ns,
       ts_unregisters := map_delete plugin (ts_unregisters s)\<rparr>))"

definition unregister_all_plugin_tools :: "'j tools_service \<Rightarrow> 'j tools_service" where
  "unregister_all_plugin_tools s =
     foldl (\<lambda>s plugin. snd (unregister_plugin plugin s)) s (map_keys (ts_unregisters s))"

datatype 'j tools_op =
    Register_Other "'j tool" "string option"
  | Dispose_Tool string
  | Register_Plugin_Tool string "'j tool"
  | Unregister_Plugin string
  | Unregister_All

definition other_source :: "string option \<Rightarrow> tool_source" where
  "other_source server = (case server of None \<Rightarrow> Builtin_Tool | Some s \<Rightarrow> Mcp_Tool s)"

fun tools_step :: "'j tools_service \<Rightarrow> 'j tools_op \<Rightarrow> 'j tools_service" where
  "tools_step s (Register_Other t server) =
     s\<lparr>ts_registry := snd (register_tool t (other_source server) (ts_registry s))\<rparr>"
| "tools_step s (Dispose_Tool n) = s\<lparr>ts_registry := dispose_tool n (ts_registry s)\<rparr>"
| "tools_step s (Register_Plugin_Tool plugin t) = snd (register_plugin_tool plugin t s)"
| "tools_step s (Unregister_Plugin plugin) = snd (unregister_plugin plugin s)"
| "tools_step s Unregister_All = unregister_all_plugin_tools s"

section \<open>Panels\<close>

type_synonym 'c panels = "(string, 'c) jsmap"

definition register_panel :: "string \<Rightarrow> 'c \<Rightarrow> 'c panels \<Rightarrow> 'c panels" where
  "register_panel i c ps = map_set i c ps"

definition dispose_panel :: "string \<Rightarrow> 'c \<Rightarrow> 'c panels \<Rightarrow> 'c panels" where
  "dispose_panel i c ps = (if map_get ps i = Some c then map_delete i ps else ps)"

definition panel :: "string \<Rightarrow> 'c panels \<Rightarrow> 'c result" where
  "panel i ps = (case map_get ps i of
     None \<Rightarrow> throw ''kernel_panel_missing'' (''UI panel not registered: '' @ i) | Some c \<Rightarrow> Inr c)"

definition peek_panel :: "string \<Rightarrow> 'c panels \<Rightarrow> 'c option" where
  "peek_panel i ps = map_get ps i"

definition panel_ids :: "'c panels \<Rightarrow> string list" where
  "panel_ids ps = sort (map_keys ps)"

section \<open>What the registry keeps\<close>

definition registry_ok :: "'j tools_service \<Rightarrow> bool" where
  "registry_ok s \<longleftrightarrow> map_wf (ts_registry s) \<and> map_wf (ts_unregisters s) \<and>
     (\<forall>(n, t, source) \<in> set (ts_registry s). tl_name t = n \<and> source_allows source n \<and>
        (\<forall>p. source = Plugin_Tool p \<longrightarrow> n \<in> set (given (map_get (ts_unregisters s) p) []))) \<and>
     (\<forall>p. \<forall>n \<in> set (given (map_get (ts_unregisters s) p) []). starts_with n (plugin_prefix p))"

lemma map_wf_filter: "map_wf m \<Longrightarrow> map_wf (filter P m)"
  by (simp add: map_wf_def map_keys_def distinct_map_filter)

lemma map_delete_filter: "map_wf m \<Longrightarrow> map_delete k m = filter (\<lambda>e. fst e \<noteq> k) m"
proof (induction m)
  case (Cons e m)
  obtain k' v where e: "e = (k', v)" by fastforce
  have "k' \<notin> fst ` set m" using Cons.prems by (simp add: e map_wf_def map_keys_def)
  then have "filter (\<lambda>e. fst e \<noteq> k') m = m" by (auto simp: filter_id_conv)
  then show ?case using Cons by (cases "k = k'") (simp_all add: e map_wf_def)
qed simp

lemma fold_dispose:
  "map_wf reg \<Longrightarrow> foldl (\<lambda>reg n. dispose_tool n reg) reg ns = filter (\<lambda>e. fst e \<notin> set ns) reg"
proof (induction ns arbitrary: reg)
  case (Cons n ns)
  have "foldl (\<lambda>reg n. dispose_tool n reg) reg (n # ns) = filter (\<lambda>e. fst e \<notin> set ns) (filter (\<lambda>e. fst e \<noteq> n) reg)"
    using Cons.IH [OF map_wf_filter [OF Cons.prems]] by (simp add: dispose_tool_def map_delete_filter [OF Cons.prems])
  also have "\<dots> = filter (\<lambda>e. fst e \<notin> set (n # ns)) reg" by (auto intro: filter_cong)
  finally show ?case .
qed simp

lemma register_ok:
  assumes "map_wf reg"
  obtains (refused) e where "register_tool t source reg = (Inl e, reg)"
    | (registered) "register_tool t source reg = (Inr (tl_name t), reg @ [(tl_name t, t, source)])"
      "source_allows source (tl_name t)" "map_wf (reg @ [(tl_name t, t, source)])"
proof (cases "source_allows source (tl_name t) \<and> \<not> map_has reg (tl_name t)")
  case True
  then have "tl_name t \<notin> set (map_keys reg)" by (auto simp: map_has_def map_get_dom [symmetric])
  then have set: "map_set (tl_name t) (t, source) reg = reg @ [(tl_name t, t, source)]" by (rule map_set_fresh)
  have "map_wf (map_set (tl_name t) (t, source) reg)" using assms by simp
  then show thesis using True registered by (simp add: register_tool_def set)
next
  case False
  then have "\<exists>e. register_tool t source reg = (Inl e, reg)" by (auto simp: register_tool_def)
  then show thesis using refused by blast
qed

lemma unregister_ok:
  assumes "registry_ok s"
  shows "registry_ok (snd (unregister_plugin plugin s))"
proof (cases "map_get (ts_unregisters s) plugin")
  case (Some ns)
  have wf: "map_wf (ts_registry s)" "map_wf (ts_unregisters s)" using assms by (simp_all add: registry_ok_def)
  show ?thesis
    using assms Some by (auto simp: unregister_plugin_def registry_ok_def fold_dispose [OF wf(1)] map_wf_filter
        map_get_delete [OF wf(2)])
qed (use assms in \<open>simp add: unregister_plugin_def\<close>)

lemma registry_step: "registry_ok s \<Longrightarrow> registry_ok (tools_step s e)"
proof (cases e)
  case (Register_Other t server)
  assume ok: "registry_ok s"
  then have wf: "map_wf (ts_registry s)" by (simp add: registry_ok_def)
  show ?thesis
    by (rule register_ok [OF wf, of t "other_source server"])
      (use ok in \<open>auto simp: Register_Other registry_ok_def other_source_def split: option.splits\<close>)
next
  case (Dispose_Tool n)
  assume ok: "registry_ok s"
  then have wf: "map_wf (ts_registry s)" by (simp add: registry_ok_def)
  show ?thesis using ok
    by (auto simp: Dispose_Tool registry_ok_def dispose_tool_def map_delete_filter [OF wf] map_wf_filter)
next
  case (Register_Plugin_Tool plugin t)
  assume ok: "registry_ok s"
  then have wf: "map_wf (ts_registry s)" by (simp add: registry_ok_def)
  show ?thesis
    by (rule register_ok [OF wf, of t "Plugin_Tool plugin"])
      (use ok in \<open>auto simp: Register_Plugin_Tool register_plugin_tool_def registry_ok_def map_get_set
        dest!: in_map_set split: option.splits\<close>)
next
  case (Unregister_Plugin plugin)
  assume "registry_ok s"
  then show ?thesis by (simp add: Unregister_Plugin unregister_ok)
next
  case Unregister_All
  assume ok: "registry_ok s"
  have "registry_ok (foldl (\<lambda>s plugin. snd (unregister_plugin plugin s)) s ps)" for ps
    using ok by (induction ps rule: rev_induct) (simp_all add: unregister_ok)
  then show ?thesis by (simp add: Unregister_All unregister_all_plugin_tools_def)
qed

interpretation tools: invariant_machine tools_step "registry_ok :: 'j tools_service \<Rightarrow> bool"
  by unfold_locales (rule registry_step)

section \<open>Removing a plugin\<close>

text \<open>
  Names that keep plugins apart: no plugin has a colon in its name, and a tool of the program itself is
  not named like one of a plugin.
\<close>

fun op_separated :: "'j tools_op \<Rightarrow> bool" where
  "op_separated (Register_Other t server) = (server = None \<longrightarrow> \<not> starts_with (tl_name t) ''plugin:'')"
| "op_separated (Register_Plugin_Tool plugin t) = (CHR '':'' \<notin> set plugin)"
| "op_separated _ = True"

definition separated :: "'j tools_service \<Rightarrow> bool" where
  "separated s \<longleftrightarrow> registry_ok s \<and>
     (\<forall>(n, t, source) \<in> set (ts_registry s). case source of
        Builtin_Tool \<Rightarrow> \<not> starts_with n ''plugin:'' | Mcp_Tool _ \<Rightarrow> True | Plugin_Tool q \<Rightarrow> CHR '':'' \<notin> set q) \<and>
     (\<forall>p. map_get (ts_unregisters s) p \<noteq> None \<longrightarrow> CHR '':'' \<notin> set p)"

lemma separated_unregister: "separated s \<Longrightarrow> separated (snd (unregister_plugin plugin s))"
proof -
  assume sep: "separated s"
  then have wf: "map_wf (ts_registry s)" "map_wf (ts_unregisters s)" by (simp_all add: separated_def registry_ok_def)
  show ?thesis
    using sep unregister_ok [of s plugin] wf
    by (auto simp: separated_def unregister_plugin_def fold_dispose map_get_delete split: option.splits if_splits)
qed

lemma separated_step:
  assumes "separated s" "op_separated e"
  shows "separated (tools_step s e)"
proof -
  have ok: "registry_ok (tools_step s e)" using assms(1) by (intro registry_step) (simp add: separated_def)
  have wf: "map_wf (ts_registry s)" using assms(1) by (simp add: separated_def registry_ok_def)
  show ?thesis
  proof (cases e)
    case (Register_Other t server)
    show ?thesis
      by (rule register_ok [OF wf, of t "other_source server"])
        (use ok assms in \<open>auto simp: Register_Other separated_def other_source_def split: option.splits\<close>)
  next
    case (Dispose_Tool n)
    then show ?thesis using ok assms by (auto simp: separated_def dispose_tool_def map_delete_filter [OF wf])
  next
    case (Register_Plugin_Tool plugin t)
    show ?thesis
      by (rule register_ok [OF wf, of t "Plugin_Tool plugin"])
        (use ok assms in \<open>auto simp: Register_Plugin_Tool register_plugin_tool_def separated_def map_get_set\<close>)
  next
    case (Unregister_Plugin plugin)
    then show ?thesis using assms(1) by (simp add: separated_unregister)
  next
    case Unregister_All
    have "separated (foldl (\<lambda>s plugin. snd (unregister_plugin plugin s)) s ps)" for ps
      using assms(1) by (induction ps rule: rev_induct) (simp_all add: separated_unregister)
    then show ?thesis by (simp add: Unregister_All unregister_all_plugin_tools_def)
  qed
qed

lemma separated_run: "separated s \<Longrightarrow> list_all op_separated ops \<Longrightarrow> separated (foldl tools_step s ops)"
  by (induction ops arbitrary: s) (simp_all add: separated_step)

lemma colon_prefix:
  assumes "starts_with n (plugin_prefix p)" "starts_with n (plugin_prefix q)" "CHR '':'' \<notin> set p" "CHR '':'' \<notin> set q"
  shows "p = q"
proof -
  obtain x y where "p @ CHR '':'' # x = q @ CHR '':'' # y"
    using assms(1,2) by (auto simp: starts_with_iff plugin_prefix_def)
  then have "split_on CHR '':'' (p @ CHR '':'' # x) = split_on CHR '':'' (q @ CHR '':'' # y)" by simp
  then show ?thesis using assms(3,4) by (simp add: split_on_append_sep)
qed

lemma not_own_prefix:
  assumes "starts_with n (plugin_prefix p)"
  shows "starts_with n ''plugin:''" "\<not> starts_with n (mcp_prefix server)"
  using assms by (auto simp: starts_with_iff plugin_prefix_def mcp_prefix_def)

text \<open>
  Whatever was registered and disposed before, removing a plugin removes exactly the tools it
  contributed, as long as names keep plugins apart.
\<close>

theorem plugin_removal_is_exact:
  assumes "list_all op_separated ops"
  defines "s \<equiv> foldl tools_step new_tools_service ops"
  shows "ts_registry (tools_step s (Unregister_Plugin p)) =
    filter (\<lambda>(n, t, source). source \<noteq> Plugin_Tool p) (ts_registry s)"
proof -
  have "separated new_tools_service" by (simp add: separated_def registry_ok_def new_tools_service_def)
  then have sep: "separated s" unfolding s_def using assms(1) by (rule separated_run)
  then have ok: "registry_ok s" and wf: "map_wf (ts_registry s)" by (simp_all add: separated_def registry_ok_def)
  let ?ns = "given (map_get (ts_unregisters s) p) []"
  have after: "ts_registry (tools_step s (Unregister_Plugin p)) = filter (\<lambda>e. fst e \<notin> set ?ns) (ts_registry s)"
    using wf by (auto simp: unregister_plugin_def fold_dispose split: option.split)
  have "n \<in> set ?ns \<longleftrightarrow> source = Plugin_Tool p" if e: "(n, t, source) \<in> set (ts_registry s)" for n t source
  proof
    assume "source = Plugin_Tool p"
    then show "n \<in> set ?ns" using ok e by (fastforce simp: registry_ok_def)
  next
    assume n: "n \<in> set ?ns"
    then have pre: "starts_with n (plugin_prefix p)" using ok by (simp add: registry_ok_def)
    have "map_get (ts_unregisters s) p \<noteq> None" using n by (cases "map_get (ts_unregisters s) p") auto
    then have p: "CHR '':'' \<notin> set p" using sep by (simp add: separated_def)
    have "source_allows source n" using ok e by (fastforce simp: registry_ok_def)
    then show "source = Plugin_Tool p"
      using sep e not_own_prefix [OF pre] colon_prefix [OF _ pre _ p]
      by (cases source) (fastforce simp: separated_def)+
  qed
  then show ?thesis unfolding after by (auto intro!: filter_cong)
qed

definition demo_tool :: "string \<Rightarrow> unit tool" where
  "demo_tool n = \<lparr>tl_name = n, tl_description = [], tl_schema = ()\<rparr>"

definition demo_ops :: "unit tools_op list" where
  "demo_ops = [Register_Other (demo_tool ''Bash'') None, Register_Plugin_Tool ''a'' (demo_tool ''plugin:a:x''),
     Register_Plugin_Tool ''b'' (demo_tool ''plugin:b:x''), Dispose_Tool ''plugin:a:x'',
     Register_Plugin_Tool ''a'' (demo_tool ''plugin:a:x'')]"

lemma plugin_removal_is_exact_witness:
  "list_all op_separated demo_ops \<and>
   map fst (ts_registry (tools_step (foldl tools_step new_tools_service demo_ops) (Unregister_Plugin ''a''))) =
     [''Bash'', ''plugin:b:x'']"
proof -
  have ops: "list_all op_separated demo_ops" by code_simp
  have reg: "map fst (filter (\<lambda>(n, t, source). source \<noteq> Plugin_Tool ''a'')
      (ts_registry (foldl tools_step new_tools_service demo_ops))) = [''Bash'', ''plugin:b:x'']"
    by code_simp
  show ?thesis using ops reg by (simp only: plugin_removal_is_exact [OF ops])
qed

text \<open>
  A tool that was disposed and registered again is counted twice; and with a colon in its name a plugin
  loses a tool to another one that had disposed of the same name.
\<close>

lemma removal_counts_disposed:
  "fst (unregister_plugin ''a'' (foldl tools_step new_tools_service demo_ops)) = 2"
  by code_simp

lemma colon_plugin_loses_tool:
  "ts_registry (foldl tools_step new_tools_service
     [Register_Plugin_Tool ''a'' (demo_tool ''plugin:a:b:c''), Dispose_Tool ''plugin:a:b:c'',
      Register_Plugin_Tool ''a:b'' (demo_tool ''plugin:a:b:c''), Unregister_Plugin ''a'']) = []"
  by code_simp

end
