(* ===== verification/Background_Shells.thy ===== *)
theory Background_Shells
  imports Utf8
begin

text \<open>
  Shell commands in the background, \<open>packages/tools/src/background-shells.ts\<close>. A run ends in its own step
  (\<open>Shell_Ended\<close>); what it ended with is the step's. Ids are given by the caller, times are in
  milliseconds; \<open>wait\<close> is its answer at the moment it stops waiting. What is announced is a log.
\<close>

section \<open>Shells\<close>

datatype shell_reason = Exit_Reason | Killed_Reason | Session_Ended

record shell =
  sh_id :: string
  sh_command :: string
  sh_cwd :: string
  sh_started :: int
  sh_aborted :: bool
  sh_output :: ustr
  sh_dropped :: nat
  sh_code :: "int option"
  sh_reason :: "shell_reason option"
  sh_done :: bool

datatype shell_event =
    Shell_Started string string string
  | Shell_Exited string int shell_reason nat

record shells =
  bs_shells :: "(string, shell) jsmap"
  bs_log :: "shell_event list"

definition new_shells :: shells where
  "new_shells = \<lparr>bs_shells = [], bs_log = []\<rparr>"

definition max_background_bytes :: nat where
  "max_background_bytes = 10 * 1024 * 1024"

definition new_shell :: "string \<Rightarrow> string \<Rightarrow> string \<Rightarrow> int \<Rightarrow> shell" where
  "new_shell i command cwd now = \<lparr>sh_id = i, sh_command = command, sh_cwd = cwd, sh_started = now,
     sh_aborted = False, sh_output = [], sh_dropped = 0, sh_code = None, sh_reason = None, sh_done = False\<rparr>"

definition spawn_shell :: "string \<Rightarrow> string \<Rightarrow> string \<Rightarrow> int \<Rightarrow> shells \<Rightarrow> shells" where
  "spawn_shell i command cwd now s =
     \<lparr>bs_shells = map_set i (new_shell i command cwd now) (bs_shells s),
      bs_log = bs_log s @ [Shell_Started i command cwd]\<rparr>"

definition cap_buffer :: "nat \<Rightarrow> ustr \<Rightarrow> shell \<Rightarrow> shell" where
  "cap_buffer cap text e =
     (let bytes = utf8 text
      in if length bytes \<le> cap then e\<lparr>sh_output := text\<rparr>
         else e\<lparr>sh_output := decode_utf8 (drop (length bytes - cap) bytes),
                sh_dropped := length bytes - cap\<rparr>)"

text \<open>How a run ends: with its output, or with an error, its message, and whether it is an \<open>AbortError\<close>.\<close>

datatype shell_outcome = Shell_Output ustr | Shell_Error ustr bool

definition settle_shell :: "nat \<Rightarrow> shell_outcome \<Rightarrow> shell \<Rightarrow> shell" where
  "settle_shell cap outcome e = (case outcome of
     Shell_Output out \<Rightarrow> (cap_buffer cap out e)\<lparr>sh_code := Some 0, sh_reason := Some Exit_Reason\<rparr>
   | Shell_Error message abort_error \<Rightarrow>
       let aborted = sh_aborted e \<or> abort_error;
           e' = cap_buffer cap (if aborted then [] else message) e
       in e'\<lparr>sh_code := (if aborted then (if sh_reason e = Some Session_Ended then None else Some 137) else Some 1),
             sh_reason := Some (if aborted then given (sh_reason e) Killed_Reason else Exit_Reason)\<rparr>)"

definition shell_ended :: "nat \<Rightarrow> string \<Rightarrow> shell_outcome \<Rightarrow> shells \<Rightarrow> shells" where
  "shell_ended cap i outcome s = (case map_get (bs_shells s) i of
     None \<Rightarrow> s
   | Some e \<Rightarrow>
       if sh_done e then s
       else let e' = (settle_shell cap outcome e)\<lparr>sh_done := True\<rparr>
            in \<lparr>bs_shells = map_set i e' (bs_shells s),
                bs_log = bs_log s @ [Shell_Exited i (given (sh_code e') 0) (given (sh_reason e') Exit_Reason) (sh_dropped e')]\<rparr>)"

record shell_row =
  row_id :: string
  row_command :: string
  row_running_ms :: int
  row_done :: bool

definition list_shells :: "int \<Rightarrow> shells \<Rightarrow> shell_row list" where
  "list_shells now s = map (\<lambda>e. \<lparr>row_id = sh_id e, row_command = sh_command e,
     row_running_ms = now - sh_started e, row_done = sh_done e\<rparr>) (map_values (bs_shells s))"

text \<open>The answers about one shell; \<open>Finished_View\<close> is printed with its note about dropped bytes.\<close>

datatype shell_view =
    Unknown_Shell string
  | Running_View int
  | Still_Running string
  | Finished_View nat ustr "int option" "shell_reason option"

definition with_exit :: "shell \<Rightarrow> shell_view" where
  "with_exit e = Finished_View (sh_dropped e) (sh_output e) (sh_code e) (sh_reason e)"

definition round_div :: "int \<Rightarrow> int \<Rightarrow> int" where
  "round_div a b = (2 * a + b) div (2 * b)"

definition view_shell :: "string \<Rightarrow> int \<Rightarrow> shells \<Rightarrow> shell_view" where
  "view_shell i now s = (case map_get (bs_shells s) i of
     None \<Rightarrow> Unknown_Shell i
   | Some e \<Rightarrow> if sh_done e then with_exit e else Running_View (round_div (now - sh_started e) 1000))"

definition wait_shell :: "string \<Rightarrow> shells \<Rightarrow> shell_view" where
  "wait_shell i s = (case map_get (bs_shells s) i of
     None \<Rightarrow> Unknown_Shell i | Some e \<Rightarrow> if sh_done e then with_exit e else Still_Running i)"

datatype kill_answer = Kill_Unknown | Kill_Exited | Kill_Sent

definition kill_shell :: "string \<Rightarrow> shells \<Rightarrow> kill_answer \<times> shells" where
  "kill_shell i s = (case map_get (bs_shells s) i of
     None \<Rightarrow> (Kill_Unknown, s)
   | Some e \<Rightarrow>
       if sh_done e then (Kill_Exited, s)
       else (Kill_Sent, s\<lparr>bs_shells :=
           map_set i (e\<lparr>sh_reason := Some Killed_Reason, sh_aborted := True\<rparr>) (bs_shells s)\<rparr>))"

definition kill_all :: "shell_reason \<Rightarrow> shells \<Rightarrow> nat \<times> shells" where
  "kill_all reason s =
     (length (filter (\<lambda>e. \<not> sh_done e) (map_values (bs_shells s))),
      s\<lparr>bs_shells := map (\<lambda>(i, e). (i, if sh_done e then e
          else e\<lparr>sh_reason := Some reason, sh_aborted := True\<rparr>)) (bs_shells s)\<rparr>)"

datatype shell_op =
    Spawn_Shell string string string int
  | Shell_Ended string shell_outcome
  | Kill_Shell string
  | Kill_All shell_reason

fun shells_step :: "nat \<Rightarrow> shells \<Rightarrow> shell_op \<Rightarrow> shells" where
  "shells_step cap s (Spawn_Shell i command cwd now) = spawn_shell i command cwd now s"
| "shells_step cap s (Shell_Ended i outcome) = shell_ended cap i outcome s"
| "shells_step cap s (Kill_Shell i) = snd (kill_shell i s)"
| "shells_step cap s (Kill_All reason) = snd (kill_all reason s)"

end
