(* ===== verification/Background_Shells_Claims.thy ===== *)
theory Background_Shells_Claims
  imports Background_Shells
begin

text \<open>
  What the registry of background shells guarantees: one announced exit per shell, after which it does not
  change. And which reasons its announcements get wrong.
\<close>

section \<open>A shell ends once\<close>

fun spawned_id :: "shell_op \<Rightarrow> string list" where
  "spawned_id (Spawn_Shell i command cwd now) = [i]"
| "spawned_id _ = []"

definition spawned_ids :: "shell_op list \<Rightarrow> string list" where
  "spawned_ids ops = concat (map spawned_id ops)"

fun exit_of :: "string \<Rightarrow> shell_event \<Rightarrow> bool" where
  "exit_of i (Shell_Exited j c r n) = (j = i)"
| "exit_of i _ = False"

definition exits :: "string \<Rightarrow> shells \<Rightarrow> nat" where
  "exits i s = length (filter (exit_of i) (bs_log s))"

definition is_done :: "string \<Rightarrow> shells \<Rightarrow> bool" where
  "is_done i s = (case map_get (bs_shells s) i of None \<Rightarrow> False | Some e \<Rightarrow> sh_done e)"

definition exits_inv :: "shells \<Rightarrow> bool" where
  "exits_inv s \<longleftrightarrow> (\<forall>i. exits i s = (if is_done i s then 1 else 0))"

lemma map_get_kill_all:
  "map_get (bs_shells (snd (kill_all reason s))) i = map_option (\<lambda>e. if sh_done e then e
     else e\<lparr>sh_reason := Some reason, sh_aborted := True\<rparr>) (map_get (bs_shells s) i)"
proof -
  have "map_get (map (\<lambda>(i, e). (i, f e)) m) i = map_option f (map_get m i)" for f :: "shell \<Rightarrow> shell" and m
    by (induction m) auto
  then show ?thesis by (simp add: kill_all_def)
qed

lemma step_exits:
  assumes "exits_inv s" "set (spawned_id e) \<inter> set (map_keys (bs_shells s)) = {}"
  shows "exits_inv (shells_step cap s e)"
proof (cases e)
  case (Spawn_Shell i command cwd now)
  then have "map_get (bs_shells s) i = None" using assms(2) by (metis disjoint_iff list.set_intros(1) map_get_dom spawned_id.simps(1))
  then show ?thesis
    using assms(1) Spawn_Shell
    by (auto simp: exits_inv_def exits_def is_done_def spawn_shell_def map_get_set new_shell_def)
next
  case (Shell_Ended i outcome)
  show ?thesis
  proof (cases "map_get (bs_shells s) i = None \<or> is_done i s")
    case True
    then show ?thesis using assms(1) Shell_Ended
      by (auto simp: shell_ended_def is_done_def split: option.splits)
  next
    case False
    then obtain x where "map_get (bs_shells s) i = Some x" "\<not> sh_done x" by (auto simp: is_done_def split: option.splits)
    then show ?thesis using assms(1) Shell_Ended False
      by (auto simp: exits_inv_def exits_def is_done_def shell_ended_def Let_def map_get_set)
  qed
next
  case (Kill_Shell i)
  have "bs_log (snd (kill_shell i s)) = bs_log s" by (simp add: kill_shell_def split: option.split)
  moreover have "is_done j (snd (kill_shell i s)) = is_done j s" for j
    by (auto simp: kill_shell_def is_done_def map_get_set split: option.split)
  ultimately show ?thesis using assms(1) Kill_Shell by (simp add: exits_inv_def exits_def)
next
  case (Kill_All reason)
  have "bs_log (snd (kill_all reason s)) = bs_log s" by (simp add: kill_all_def)
  moreover have "is_done j (snd (kill_all reason s)) = is_done j s" for j
    by (auto simp: is_done_def map_get_kill_all split: option.split)
  ultimately show ?thesis using assms(1) Kill_All by (simp add: exits_inv_def exits_def)
qed

lemma step_keys:
  "set (map_keys (bs_shells (shells_step cap s e))) \<subseteq> set (map_keys (bs_shells s)) \<union> set (spawned_id e)"
  by (cases e) (auto simp: spawn_shell_def shell_ended_def kill_shell_def Let_def map_keys_set map_get_kill_all
      map_get_dom [symmetric] split: option.splits if_splits)

lemma run_exits:
  "exits_inv s \<Longrightarrow> distinct (spawned_ids ops) \<Longrightarrow> set (spawned_ids ops) \<inter> set (map_keys (bs_shells s)) = {} \<Longrightarrow>
    exits_inv (foldl (shells_step cap) s ops)"
proof (induction ops arbitrary: s)
  case (Cons e ops)
  have "set (spawned_ids ops) \<inter> set (map_keys (bs_shells (shells_step cap s e))) = {}"
    using Cons.prems(2,3) step_keys [of cap s e] by (auto simp: spawned_ids_def)
  moreover have "exits_inv (shells_step cap s e)"
    using Cons.prems(1,3) by (intro step_exits) (auto simp: spawned_ids_def)
  ultimately show ?case using Cons.IH Cons.prems(2) by (simp add: spawned_ids_def)
qed simp

lemma finished_step:
  assumes "map_get (bs_shells s) i = Some x" "sh_done x" "i \<notin> set (spawned_id e)"
  shows "map_get (bs_shells (shells_step cap s e)) i = Some x"
  using assms by (cases e) (auto simp: spawn_shell_def shell_ended_def kill_shell_def map_get_kill_all Let_def map_get_set
      split: option.split)

text \<open>
  The exit of a shell is announced exactly once, when it is done, and from then on nothing changes what
  is shown of it, whatever else is started, ended or killed.
\<close>

theorem shell_ends_once:
  fixes cap :: nat
  assumes "distinct (spawned_ids (ops @ later))"
  defines "s \<equiv> foldl (shells_step cap) new_shells ops"
  shows "exits i s = (if is_done i s then 1 else 0) \<and>
    (is_done i s \<longrightarrow> view_shell i now' (foldl (shells_step cap) s later) = view_shell i now s)"
proof -
  have "exits_inv new_shells" by (simp add: exits_inv_def exits_def is_done_def new_shells_def)
  then have "exits_inv s"
    unfolding s_def by (rule run_exits) (use assms(1) in \<open>auto simp: spawned_ids_def new_shells_def\<close>)
  moreover have "view_shell i now' (foldl (shells_step cap) s later) = view_shell i now s" if d: "is_done i s"
  proof -
    obtain x where x: "map_get (bs_shells s) i = Some x" "sh_done x" using d by (auto simp: is_done_def split: option.splits)
    have keys: "set (map_keys (bs_shells s)) \<subseteq> set (spawned_ids ops)"
      unfolding s_def
    proof (induction ops rule: rev_induct)
      case (snoc e ops)
      then show ?case using step_keys [of cap "foldl (shells_step cap) new_shells ops" e] by (auto simp: spawned_ids_def)
    qed (simp add: new_shells_def)
    have "i \<in> set (map_keys (bs_shells s))" using x(1) by (metis map_get_dom option.discI)
    then have "i \<notin> set (spawned_ids later)" using keys assms(1) by (auto simp: spawned_ids_def)
    then have "map_get (bs_shells (foldl (shells_step cap) s later)) i = Some x"
      using x
    proof (induction later rule: rev_induct)
      case (snoc e later)
      then show ?case using finished_step [of "foldl (shells_step cap) s later" i x e cap] by (auto simp: spawned_ids_def)
    qed simp
    then show ?thesis using x by (simp add: view_shell_def)
  qed
  ultimately show ?thesis by (simp add: exits_inv_def)
qed

lemmas shells_simps = spawn_shell_def shell_ended_def kill_shell_def kill_all_def settle_shell_def cap_buffer_def
  new_shell_def new_shells_def is_done_def view_shell_def with_exit_def utf8_def utf8_point_def is_high_def is_low_def

definition demo_shell_ops :: "shell_op list" where
  "demo_shell_ops = [Spawn_Shell ''s1'' ''ls'' ''/'' 0, Spawn_Shell ''s2'' ''top'' ''/'' 0,
     Shell_Ended ''s1'' (Shell_Output [104, 105])]"

lemma shell_ends_once_witness:
  "exits ''s1'' (foldl (shells_step 100) new_shells demo_shell_ops) = 1 \<and>
   view_shell ''s1'' 9 (foldl (shells_step 100) (foldl (shells_step 100) new_shells demo_shell_ops) [Kill_All Session_Ended]) =
     Finished_View 0 [104, 105] (Some 0) (Some Exit_Reason)"
proof -
  have d: "distinct (spawned_ids (demo_shell_ops @ [Kill_All Session_Ended]))" by code_simp
  have i: "is_done ''s1'' (foldl (shells_step 100) new_shells demo_shell_ops)"
    by (simp add: demo_shell_ops_def shells_simps)
  have v: "view_shell ''s1'' 5 (foldl (shells_step 100) new_shells demo_shell_ops) =
      Finished_View 0 [104, 105] (Some 0) (Some Exit_Reason)"
    by (simp add: demo_shell_ops_def shells_simps)
  show ?thesis using shell_ends_once [OF d, of "''s1''" 100 9 5] i v by simp
qed

section \<open>What the reasons miss\<close>

text \<open>
  A command that was killed but ends well is announced as an ordinary exit; and a kill after the end of the
  session hides that the session ended it.
\<close>

lemma killed_shell_reports_exit:
  "bs_log (foldl (shells_step 100) new_shells
     [Spawn_Shell ''s'' ''c'' ''/'' 0, Kill_Shell ''s'', Shell_Ended ''s'' (Shell_Output [])]) =
   [Shell_Started ''s'' ''c'' ''/'', Shell_Exited ''s'' 0 Exit_Reason 0]"
  by (simp add: shells_simps)

lemma kill_hides_session_end:
  "bs_log (foldl (shells_step 100) new_shells
     [Spawn_Shell ''s'' ''c'' ''/'' 0, Kill_All Session_Ended, Kill_Shell ''s'', Shell_Ended ''s'' (Shell_Error [] True)]) =
   [Shell_Started ''s'' ''c'' ''/'', Shell_Exited ''s'' 137 Killed_Reason 0]"
  by (simp add: shells_simps)

text \<open>What is cut off a long output and what is kept are its bytes.\<close>

lemma capped_output:
  "sh_dropped (cap_buffer cap text (new_shell i command cwd now)) = length (utf8 text) - cap"
  by (simp add: cap_buffer_def new_shell_def Let_def)

end
