(* ===== verification/Prompt_Queue.thy ===== *)
theory Prompt_Queue
  imports Prelude "HOL-Library.Multiset"
begin

text \<open>
  The queues of questions to the user, \<open>PermissionPromptController\<close> and \<open>AskPromptController\<close> of
  \<open>packages/app-runtime/src/contracts.ts\<close>, which the terminal and the web share. Both are one queue of
  requests \<open>'q\<close> answered by \<open>'d\<close>; the queue of questions also remembers which of them timed out. A
  request is numbered by its promise; its signal and its timer fire as steps of their own.
\<close>

section \<open>Queue\<close>

record 'q prompt_entry =
  en_id :: string
  en_request :: 'q
  en_promise :: nat
  en_signal :: bool
  en_timer :: "nat option"

datatype ('q, 'd) prompt_event = Prompt_Resolved nat 'd | Queue_Shown nat "(string \<times> 'q) list"

record ('q, 'd) prompt_queue =
  pq_pending :: "'q prompt_entry list"
  pq_listeners :: "nat list"
  pq_timeout :: nat
  pq_promises :: nat
  pq_timed_out :: "string list"
  pq_log :: "('q, 'd) prompt_event list"

definition default_prompt_timeout_ms :: nat where
  "default_prompt_timeout_ms = 120000"

definition new_prompt_queue :: "nat option \<Rightarrow> ('q, 'd) prompt_queue" where
  "new_prompt_queue timeout = \<lparr>pq_pending = [], pq_listeners = [],
     pq_timeout = given timeout default_prompt_timeout_ms, pq_promises = 0, pq_timed_out = [], pq_log = []\<rparr>"

definition configure_prompts :: "nat option \<Rightarrow> ('q, 'd) prompt_queue \<Rightarrow> ('q, 'd) prompt_queue" where
  "configure_prompts timeout s = s\<lparr>pq_timeout := given timeout (pq_timeout s)\<rparr>"

definition queued_requests :: "('q, 'd) prompt_queue \<Rightarrow> (string \<times> 'q) list" where
  "queued_requests s = map (\<lambda>e. (en_id e, en_request e)) (pq_pending s)"

definition notify_listeners :: "('q, 'd) prompt_queue \<Rightarrow> ('q, 'd) prompt_queue" where
  "notify_listeners s = s\<lparr>pq_log := pq_log s @ map (\<lambda>l. Queue_Shown l (queued_requests s)) (pq_listeners s)\<rparr>"

definition subscribe_prompts :: "nat \<Rightarrow> ('q, 'd) prompt_queue \<Rightarrow> ('q, 'd) prompt_queue" where
  "subscribe_prompts l s = s\<lparr>
     pq_listeners := (if l \<in> set (pq_listeners s) then pq_listeners s else pq_listeners s @ [l]),
     pq_log := pq_log s @ [Queue_Shown l (queued_requests s)]\<rparr>"

definition unsubscribe_prompts :: "nat \<Rightarrow> ('q, 'd) prompt_queue \<Rightarrow> ('q, 'd) prompt_queue" where
  "unsubscribe_prompts l s = s\<lparr>pq_listeners := remove1 l (pq_listeners s)\<rparr>"

text \<open>\<open>settle\<close> of one entry: nothing happens when it is no longer, or not yet, in the queue.\<close>

definition settle_entry :: "nat \<Rightarrow> 'd \<Rightarrow> bool \<Rightarrow> ('q, 'd) prompt_queue \<Rightarrow> ('q, 'd) prompt_queue" where
  "settle_entry n d timed_out s = (case find (\<lambda>e. en_promise e = n) (pq_pending s) of
     None \<Rightarrow> s
   | Some e \<Rightarrow> notify_listeners (s\<lparr>
       pq_pending := filter (\<lambda>e. en_promise e \<noteq> n) (pq_pending s),
       pq_timed_out := (if timed_out then List.insert (en_id e) (pq_timed_out s) else pq_timed_out s),
       pq_log := pq_log s @ [Prompt_Resolved n d]\<rparr>))"

text \<open>
  A signal that is already raised settles the entry before it is in the queue. \<open>deny\<close> is the decision on
  an abort.
\<close>

definition request_prompt ::
  "'d \<Rightarrow> string \<Rightarrow> 'q \<Rightarrow> bool option \<Rightarrow> ('q, 'd) prompt_queue \<Rightarrow> ('q, 'd) prompt_queue" where
  "request_prompt deny i q signal s =
     (let n = pq_promises s; s' = s\<lparr>pq_promises := Suc n\<rparr>
      in if signal = Some True then settle_entry n deny False s'
         else notify_listeners (s'\<lparr>pq_pending := pq_pending s @
           [\<lparr>en_id = i, en_request = q, en_promise = n, en_signal = (signal \<noteq> None),
             en_timer = (if pq_timeout s > 0 then Some (pq_timeout s) else None)\<rparr>]\<rparr>))"

definition prompt_abort :: "'d \<Rightarrow> nat \<Rightarrow> ('q, 'd) prompt_queue \<Rightarrow> ('q, 'd) prompt_queue" where
  "prompt_abort deny n s =
     (if list_ex (\<lambda>e. en_promise e = n \<and> en_signal e) (pq_pending s) then settle_entry n deny False s else s)"

definition prompt_timer :: "'d \<Rightarrow> bool \<Rightarrow> nat \<Rightarrow> ('q, 'd) prompt_queue \<Rightarrow> ('q, 'd) prompt_queue" where
  "prompt_timer deny asks n s =
     (if list_ex (\<lambda>e. en_promise e = n \<and> en_timer e \<noteq> None) (pq_pending s) then settle_entry n deny asks s else s)"

text \<open>\<open>decide\<close> takes out the first entry of the id.\<close>

fun take_first :: "string \<Rightarrow> 'q prompt_entry list \<Rightarrow> ('q prompt_entry \<times> 'q prompt_entry list) option" where
  "take_first i [] = None"
| "take_first i (e # es) = (if en_id e = i then Some (e, es)
     else map_option (\<lambda>(x, xs). (x, e # xs)) (take_first i es))"

definition decide_prompt :: "string \<Rightarrow> 'd \<Rightarrow> bool \<Rightarrow> ('q, 'd) prompt_queue \<Rightarrow> ('q, 'd) prompt_queue" where
  "decide_prompt i d timed_out s = (case take_first i (pq_pending s) of
     None \<Rightarrow> s
   | Some (e, es) \<Rightarrow> notify_listeners (s\<lparr>pq_pending := es,
       pq_timed_out := (if timed_out then List.insert i (pq_timed_out s) else pq_timed_out s),
       pq_log := pq_log s @ [Prompt_Resolved (en_promise e) d]\<rparr>))"

definition consume_timed_out :: "string \<Rightarrow> ('q, 'd) prompt_queue \<Rightarrow> bool \<times> ('q, 'd) prompt_queue" where
  "consume_timed_out i s = (i \<in> set (pq_timed_out s), s\<lparr>pq_timed_out := removeAll i (pq_timed_out s)\<rparr>)"

text \<open>The decision on an abort and on a timeout, and whether timeouts are remembered, are the class's.\<close>

record 'd prompt_kind =
  pk_aborted :: 'd
  pk_expired :: 'd
  pk_asks :: bool

datatype ('q, 'd) prompt_op =
    Request_Prompt string 'q "bool option"
  | Decide_Prompt string 'd bool
  | Prompt_Abort nat
  | Prompt_Timer nat
  | Subscribe_Prompts nat
  | Unsubscribe_Prompts nat
  | Configure_Prompts "nat option"
  | Consume_Timed_Out string

fun prompt_step :: "'d prompt_kind \<Rightarrow> ('q, 'd) prompt_queue \<Rightarrow> ('q, 'd) prompt_op \<Rightarrow> ('q, 'd) prompt_queue" where
  "prompt_step k s (Request_Prompt i q signal) = request_prompt (pk_aborted k) i q signal s"
| "prompt_step k s (Decide_Prompt i d timed_out) = decide_prompt i d (timed_out \<and> pk_asks k) s"
| "prompt_step k s (Prompt_Abort n) = prompt_abort (pk_aborted k) n s"
| "prompt_step k s (Prompt_Timer n) = prompt_timer (pk_expired k) (pk_asks k) n s"
| "prompt_step k s (Subscribe_Prompts l) = subscribe_prompts l s"
| "prompt_step k s (Unsubscribe_Prompts l) = unsubscribe_prompts l s"
| "prompt_step k s (Configure_Prompts t) = configure_prompts t s"
| "prompt_step k s (Consume_Timed_Out i) = snd (consume_timed_out i s)"

section \<open>What becomes of a request\<close>

fun resolved_promise :: "('q, 'd) prompt_event \<Rightarrow> nat list" where
  "resolved_promise (Prompt_Resolved n d) = [n]"
| "resolved_promise (Queue_Shown l qs) = []"

definition answered :: "('q, 'd) prompt_queue \<Rightarrow> nat list" where
  "answered s = concat (map resolved_promise (pq_log s))"

definition asked_promises :: "('q, 'd) prompt_queue \<Rightarrow> nat list" where
  "asked_promises s = map en_promise (pq_pending s)"

text \<open>The numbers of the requests that came with a raised signal.\<close>

fun lost_after :: "nat \<Rightarrow> ('q, 'd) prompt_op list \<Rightarrow> nat list" where
  "lost_after n [] = []"
| "lost_after n (Request_Prompt i q signal # ops) =
     (if signal = Some True then [n] else []) @ lost_after (Suc n) ops"
| "lost_after n (_ # ops) = lost_after n ops"

definition queue_inv :: "('q, 'd) prompt_queue \<Rightarrow> nat list \<Rightarrow> bool" where
  "queue_inv s lost \<longleftrightarrow> mset (answered s) + mset (asked_promises s) + mset lost = mset [0..<pq_promises s] \<and>
     sorted_wrt (<) (asked_promises s)"

lemma notify_frame [simp]:
  "pq_pending (notify_listeners s) = pq_pending s" "pq_promises (notify_listeners s) = pq_promises s"
  "answered (notify_listeners s) = answered s" "asked_promises (notify_listeners s) = asked_promises s"
proof -
  have "concat (map resolved_promise (map (\<lambda>l. Queue_Shown l qs :: ('q, 'd) prompt_event) ls)) = []"
    for qs :: "(string \<times> 'q) list" and ls by (induction ls) simp_all
  then show "answered (notify_listeners s) = answered s"
    by (simp add: notify_listeners_def answered_def del: map_map)
qed (simp_all add: notify_listeners_def asked_promises_def)

lemma queue_inv_bound: "queue_inv s lost \<Longrightarrow> n \<in> set (asked_promises s) \<Longrightarrow> n < pq_promises s"
proof -
  assume "queue_inv s lost" "n \<in> set (asked_promises s)"
  then have "n \<in># mset [0..<pq_promises s]" unfolding queue_inv_def by (metis UnCI set_mset_mset set_mset_union)
  then show "n < pq_promises s" by simp
qed

lemma mset_without: "distinct xs \<Longrightarrow> n \<in> set xs \<Longrightarrow> add_mset n (mset (filter (\<lambda>m. m \<noteq> n) xs)) = mset xs"
proof (induction xs)
  case (Cons x xs)
  then show ?case
  proof (cases "x = n")
    case True
    then have "filter (\<lambda>m. m \<noteq> n) xs = xs" using Cons.prems(1) by (auto simp: filter_id_conv)
    then show ?thesis using True by simp
  qed (simp add: add_mset_commute)
qed simp

lemma answer_inv:
  assumes "queue_inv s lost" "answered s' = answered s @ [n]" "pq_promises s' = pq_promises s"
    "mset (asked_promises s) = add_mset n (mset (asked_promises s'))" "sorted_wrt (<) (asked_promises s')"
  shows "queue_inv s' lost"
  using assms by (simp add: queue_inv_def)

lemma settle_inv:
  assumes "queue_inv s lost"
  shows "queue_inv (settle_entry n d t s) lost"
proof (cases "find (\<lambda>e. en_promise e = n) (pq_pending s)")
  case (Some e)
  then have n: "n \<in> set (asked_promises s)" by (auto simp: find_Some_iff asked_promises_def)
  have d: "distinct (asked_promises s)" using assms by (auto simp: queue_inv_def strict_sorted_iff)
  have f: "map en_promise (filter (\<lambda>e. en_promise e \<noteq> n) es) = filter (\<lambda>m. m \<noteq> n) (map en_promise es)"
    for es :: "'a prompt_entry list" by (induction es) auto
  have "add_mset n (mset (filter (\<lambda>m. m \<noteq> n) (asked_promises s))) = mset (asked_promises s)"
    by (rule mset_without [OF d n])
  then have m: "mset (asked_promises s) = add_mset n (mset (filter (\<lambda>m. m \<noteq> n) (asked_promises s)))" by simp
  have asked: "asked_promises (settle_entry n d t s) = filter (\<lambda>m. m \<noteq> n) (asked_promises s)"
    by (simp only: settle_entry_def Some option.case notify_frame) (simp add: asked_promises_def f)
  show ?thesis
  proof (rule answer_inv [OF assms])
    show "answered (settle_entry n d t s) = answered s @ [n]" by (simp add: settle_entry_def Some) (simp add: answered_def)
    show "pq_promises (settle_entry n d t s) = pq_promises s" by (simp add: settle_entry_def Some)
    show "mset (asked_promises s) = add_mset n (mset (asked_promises (settle_entry n d t s)))" using m by (simp only: asked)
    show "sorted_wrt (<) (asked_promises (settle_entry n d t s))"
      using assms unfolding asked queue_inv_def by (simp add: sorted_wrt_filter)
  qed
qed (use assms in \<open>simp add: settle_entry_def\<close>)


lemma take_first_spec:
  "take_first i es = Some (e, es') \<Longrightarrow> \<exists>xs ys. es = xs @ e # ys \<and> es' = xs @ ys \<and> en_id e = i"
proof (induction es arbitrary: es')
  case (Cons x es)
  show ?case
  proof (cases "en_id x = i")
    case True
    then have "x = e" "es' = es" using Cons.prems by simp_all
    then show ?thesis using True by (intro exI [of _ "[]"] exI [of _ es]) simp
  next
    case False
    then obtain es'' where "take_first i es = Some (e, es'')" "es' = x # es''" using Cons.prems by auto
    then show ?thesis using Cons.IH by (metis append_Cons)
  qed
qed simp

lemma decide_inv:
  assumes "queue_inv s lost"
  shows "queue_inv (decide_prompt i d t s) lost"
proof (cases "take_first i (pq_pending s)")
  case (Some p)
  obtain e es where p: "p = (e, es)" by fastforce
  obtain xs ys where "pq_pending s = xs @ e # ys" "es = xs @ ys" using take_first_spec [of i "pq_pending s" e es] Some p by auto
  note xs = this
  have s': "asked_promises (decide_prompt i d t s) = map en_promise (xs @ ys)"
    by (simp only: decide_prompt_def Some p option.case prod.case notify_frame) (simp add: asked_promises_def xs)
  show ?thesis
  proof (rule answer_inv [OF assms])
    show "answered (decide_prompt i d t s) = answered s @ [en_promise e]"
      by (simp only: decide_prompt_def Some p option.case prod.case notify_frame) (simp add: answered_def)
    show "pq_promises (decide_prompt i d t s) = pq_promises s"
      by (simp only: decide_prompt_def Some p option.case prod.case notify_frame) simp
    show "mset (asked_promises s) = add_mset (en_promise e) (mset (asked_promises (decide_prompt i d t s)))"
      unfolding s' by (simp add: asked_promises_def xs)
    show "sorted_wrt (<) (asked_promises (decide_prompt i d t s))"
      using assms unfolding s' queue_inv_def by (simp add: asked_promises_def xs sorted_wrt_append)
  qed
qed (use assms in \<open>simp add: decide_prompt_def\<close>)

lemma request_inv:
  assumes "queue_inv s lost"
  shows "queue_inv (request_prompt deny i q signal s) (lost @ (if signal = Some True then [pq_promises s] else []))"
proof -
  have below: "en_promise e < pq_promises s" if "e \<in> set (pq_pending s)" for e
    using queue_inv_bound [OF assms, of "en_promise e"] that by (simp add: asked_promises_def)
  have fresh: "find (\<lambda>e. en_promise e = pq_promises s) (pq_pending s) = None"
    by (auto simp: find_None_iff dest: below)
  have all: "\<forall>m \<in> set (asked_promises s). m < pq_promises s" using below by (auto simp: asked_promises_def)
  show ?thesis
  proof (cases "signal = Some True")
    case True
    then show ?thesis using assms fresh
      by (simp add: request_prompt_def settle_entry_def queue_inv_def answered_def asked_promises_def)
  next
    case False
    let ?q = "request_prompt deny i q signal s"
    have "answered ?q = answered s" using False
      by (simp add: request_prompt_def Let_def) (simp add: answered_def)
    moreover have "asked_promises ?q = asked_promises s @ [pq_promises s]" "pq_promises ?q = Suc (pq_promises s)"
      using False by (simp_all add: request_prompt_def Let_def asked_promises_def)
    ultimately show ?thesis using assms all False by (simp add: queue_inv_def sorted_wrt_append)
  qed
qed

lemma other_inv:
  assumes "queue_inv s lost"
  shows "queue_inv (subscribe_prompts l s) lost" "queue_inv (unsubscribe_prompts l s) lost"
    "queue_inv (configure_prompts t s) lost" "queue_inv (snd (consume_timed_out i s)) lost"
  using assms by (simp_all add: queue_inv_def answered_def asked_promises_def subscribe_prompts_def
      unsubscribe_prompts_def configure_prompts_def consume_timed_out_def)

lemma settle_entry_promises [simp]: "pq_promises (settle_entry n d t s) = pq_promises s"
  by (simp add: settle_entry_def split: option.split)

lemma step_promises:
  "pq_promises (prompt_step k s e) = (case e of Request_Prompt i q signal \<Rightarrow> Suc (pq_promises s) | _ \<Rightarrow> pq_promises s)"
  by (cases e) (simp_all add: request_prompt_def Let_def decide_prompt_def prompt_abort_def prompt_timer_def
      subscribe_prompts_def unsubscribe_prompts_def configure_prompts_def consume_timed_out_def split: option.split)

lemma prompts_run_inv:
  "queue_inv s lost \<Longrightarrow> queue_inv (foldl (prompt_step k) s ops) (lost @ lost_after (pq_promises s) ops)"
proof (induction ops arbitrary: s lost)
  case (Cons e ops)
  have "queue_inv (prompt_step k s e) (lost @ (case e of Request_Prompt i q signal \<Rightarrow>
      if signal = Some True then [pq_promises s] else [] | _ \<Rightarrow> []))"
    using Cons.prems by (cases e) (simp_all add: request_inv decide_inv settle_inv other_inv prompt_abort_def prompt_timer_def)
  from Cons.IH [OF this, unfolded step_promises] show ?case
    by (cases e) auto
qed simp

text \<open>
  C32. Whatever is asked, decided, aborted and timed out, each request is answered exactly once or still in
  the queue, and the queue keeps the order of the requests. The only exception are the requests that come
  with a signal that is already raised: they are neither.
\<close>

theorem prompts_are_answered_once:
  fixes k :: "'d prompt_kind" and ops :: "('q, 'd) prompt_op list" and timeout :: "nat option"
  defines "s \<equiv> foldl (prompt_step k) (new_prompt_queue timeout) ops"
  shows "mset (answered s) + mset (asked_promises s) + mset (lost_after 0 ops) = mset [0..<pq_promises s] \<and>
    sorted_wrt (<) (asked_promises s)"
proof -
  have "queue_inv (new_prompt_queue timeout :: ('q, 'd) prompt_queue) []"
    by (simp add: queue_inv_def new_prompt_queue_def answered_def asked_promises_def)
  from prompts_run_inv [OF this, of k ops] show ?thesis
    by (simp add: s_def queue_inv_def new_prompt_queue_def)
qed

text \<open>So a request whose signal was raised before is never answered, and its caller waits for ever.\<close>

lemma raised_signal_is_never_answered:
  fixes k :: "'d prompt_kind" and ops :: "('q, 'd) prompt_op list"
  assumes "n \<in> set (lost_after 0 ops)"
  shows "n \<notin> set (answered (foldl (prompt_step k) (new_prompt_queue timeout) ops))"
proof
  let ?s = "foldl (prompt_step k) (new_prompt_queue timeout) ops"
  assume "n \<in> set (answered ?s)"
  then have "1 \<le> count (mset (answered ?s)) n" "1 \<le> count (mset (lost_after 0 ops)) n"
    using assms by (metis count_greater_eq_one_iff set_mset_mset)+
  moreover have "queue_inv (new_prompt_queue timeout :: ('q, 'd) prompt_queue) []"
    by (simp add: queue_inv_def new_prompt_queue_def answered_def asked_promises_def)
  from prompts_run_inv [OF this, of k ops] have "mset (answered ?s) + mset (asked_promises ?s) + mset (lost_after 0 ops) = mset [0..<pq_promises ?s]"
    by (simp add: queue_inv_def new_prompt_queue_def)
  then have "count (mset (answered ?s)) n + count (mset (asked_promises ?s)) n + count (mset (lost_after 0 ops)) n =
      count (mset [0..<pq_promises ?s]) n"
    by (metis count_union)
  moreover have "count (mset [0..<pq_promises ?s]) n \<le> 1"
    using distinct_count_atmost_1 [of "[0..<pq_promises ?s]"] by (metis distinct_upt le_refl zero_le_one)
  ultimately show False by linarith
qed

end
