(* ===== verification/Permission_Chain.thy ===== *)
theory Permission_Chain
  imports Permission_Claims
begin

text \<open>
  How a permission prompt reaches the user and comes back, \<open>packages/app-runtime/src/permission.ts\<close>: the
  frozen permission snapshots of sessions, the prompt on the line and in the terminal, and the prompt
  handler that \<open>createProductionToolPermissionChain\<close> gives to the permission manager. The kind of a decision
  is a text that clients send (\<open>SessionHub.decide\<close>), so it is kept as one. Preparing what is shown to the user
  is an input: whether it can be approved.
\<close>

section \<open>Permission snapshots\<close>

datatype interaction_mode = No_Interaction | Line_Interaction | Tui_Interaction

record snapshot =
  sn_skip :: bool
  sn_interaction :: interaction_mode
  sn_mode :: session_mode

text \<open>The code shares frozen objects and compares them by identity: an object is a number and its value.\<close>

record session_policy =
  py_skip :: bool
  py_interaction :: interaction_mode
  py_mode :: session_mode
  py_escalations :: "string \<rightharpoonup> session_mode"
  py_snapshots :: "string \<rightharpoonup> nat \<times> snapshot"
  py_objects :: nat

definition new_session_policy :: session_policy where
  "new_session_policy = \<lparr>py_skip = False, py_interaction = No_Interaction, py_mode = Ask_Mode,
     py_escalations = Map.empty, py_snapshots = Map.empty, py_objects = 0\<rparr>"

definition configure_mode :: "session_mode \<Rightarrow> session_policy \<Rightarrow> session_policy" where
  "configure_mode mode p = p\<lparr>py_mode := mode, py_escalations := Map.empty\<rparr>"

definition escalate_session_mode :: "string \<Rightarrow> session_mode \<Rightarrow> session_policy \<Rightarrow> session_policy" where
  "escalate_session_mode i mode p =
     (let p' = p\<lparr>py_escalations := (py_escalations p)(i \<mapsto> mode)\<rparr>
      in case py_snapshots p i of
        None \<Rightarrow> p'
      | Some (a, v) \<Rightarrow> if sn_mode v = mode then p'
          else p'\<lparr>py_snapshots := (py_snapshots p)(i \<mapsto> (py_objects p, v\<lparr>sn_mode := mode\<rparr>)), py_objects := Suc (py_objects p)\<rparr>)"

definition snapshot_for ::
  "string \<Rightarrow> nat \<Rightarrow> string option \<Rightarrow> session_policy \<Rightarrow> (nat \<times> snapshot) result \<times> session_policy" where
  "snapshot_for i depth parent p = (case py_snapshots p i of
     Some ob \<Rightarrow> (Inr ob, p)
   | None \<Rightarrow>
       if depth = 0
       then let ob = (py_objects p, \<lparr>sn_skip = py_skip p, sn_interaction = py_interaction p,
                      sn_mode = given (py_escalations p i) (py_mode p)\<rparr>)
            in (Inr ob, p\<lparr>py_snapshots := (py_snapshots p)(i \<mapsto> ob), py_objects := Suc (py_objects p)\<rparr>)
       else case Option.bind (truthy parent) (py_snapshots p) of
         None \<Rightarrow> (throw ''permission_parent_snapshot_missing'' (given parent ''<missing>''), p)
       | Some ob \<Rightarrow> (Inr ob, p\<lparr>py_snapshots := (py_snapshots p)(i \<mapsto> ob)\<rparr>))"

definition release_lineage :: "string \<Rightarrow> session_policy \<Rightarrow> session_policy" where
  "release_lineage i p = (case py_snapshots p i of
     None \<Rightarrow> p
   | Some (a, v) \<Rightarrow> p\<lparr>py_snapshots := (\<lambda>j. case py_snapshots p j of
       Some (b, w) \<Rightarrow> if b = a then None else Some (b, w) | None \<Rightarrow> None)\<rparr>)"

datatype policy_op =
    Configure_Security bool
  | Configure_Interaction interaction_mode
  | Configure_Mode session_mode
  | Escalate string session_mode
  | Snapshot_For string nat "string option"
  | Release string

fun policy_step :: "session_policy \<Rightarrow> policy_op \<Rightarrow> session_policy" where
  "policy_step p (Configure_Security b) = p\<lparr>py_skip := b\<rparr>"
| "policy_step p (Configure_Interaction m) = p\<lparr>py_interaction := m\<rparr>"
| "policy_step p (Configure_Mode m) = configure_mode m p"
| "policy_step p (Escalate i m) = escalate_session_mode i m p"
| "policy_step p (Snapshot_For i d parent) = snd (snapshot_for i d parent p)"
| "policy_step p (Release i) = release_lineage i p"

section \<open>Prompts\<close>

text \<open>
  The answers to a prompt on the line are looked up in an object, where some words find what every object
  inherits: then the kind is not a text.
\<close>

datatype kind_value = Kind string | Inherited_Value

record raw_decision =
  rd_kind :: kind_value
  rd_reason :: "deny_reason option"

definition raw_kind :: "string \<Rightarrow> raw_decision" where
  "raw_kind k = \<lparr>rd_kind = Kind k, rd_reason = None\<rparr>"

definition by_answer :: "string \<Rightarrow> kind_value option" where
  "by_answer choice =
     (if choice \<in> {''constructor'', ''__proto__''} then Some Inherited_Value
      else map_option Kind (map_of [(''a'', ''allow-once''), (''s'', ''allow-session''), (''g'', ''allow-all-session''),
        (''p'', ''allow-project''), (''e'', ''allow-forever''), (''d'', ''deny''), (''x'', ''deny-forever'')] choice))"

datatype line_outcome = Line_Expired | Line_Answer "string option"

text \<open>\<open>line\<close> is what the question yields, \<open>None\<close> when there is no line prompt.\<close>

definition line_prompt :: "bool \<Rightarrow> bool \<Rightarrow> line_outcome option \<Rightarrow> raw_decision" where
  "line_prompt approvable interactive line =
     (if \<not> interactive then raw_kind ''deny''
      else case line of
        None \<Rightarrow> raw_kind ''deny''
      | Some Line_Expired \<Rightarrow> (raw_kind ''deny'')\<lparr>rd_reason := Some Timed_Out_Card\<rparr>
      | Some (Line_Answer answer) \<Rightarrow>
          if \<not> approvable then raw_kind ''deny''
          else (raw_kind ''deny'')\<lparr>rd_kind := given (by_answer (map lower_char (trim (given answer [])))) (Kind ''deny'')\<rparr>)"

text \<open>\<open>requestPermission\<close>; \<open>card\<close> is the decision on the card, \<open>None\<close> without an interactive prompt.\<close>

record prompt_input =
  pi_mode :: interaction_mode
  pi_approvable :: bool
  pi_interactive :: bool
  pi_line :: "line_outcome option"
  pi_card :: "raw_decision option"

definition request_permission :: "prompt_input \<Rightarrow> raw_decision" where
  "request_permission x = (case pi_mode x of
     No_Interaction \<Rightarrow> raw_kind ''deny''
   | Line_Interaction \<Rightarrow> line_prompt (pi_approvable x) (pi_interactive x) (pi_line x)
   | Tui_Interaction \<Rightarrow> (case pi_card x of
       None \<Rightarrow> raw_kind ''deny''
     | Some d \<Rightarrow> if \<not> pi_approvable x then raw_kind ''deny'' else d))"

definition chain_prompt :: "nat \<Rightarrow> prompt_input \<Rightarrow> raw_decision" where
  "chain_prompt depth x =
     (let d = request_permission x
      in if depth = 0 then d
         else if rd_kind d \<in> {Kind ''allow-once'', Kind ''allow-session'', Kind ''deny''} then d
         else raw_kind ''deny'')"

section \<open>What the manager makes of it\<close>

definition kind_names :: "(string \<times> decision_kind) list" where
  "kind_names = [(''allow-once'', Allow_Once), (''allow-session'', Allow_Session), (''allow-all-session'', Allow_All_Session),
     (''allow-project'', Allow_Project), (''allow-forever'', Allow_Forever), (''deny'', Deny), (''deny-forever'', Deny_Forever),
     (''allow-mcp-server'', Allow_Mcp_Server), (''allow-batch-once'', Allow_Batch_Once), (''deny-batch'', Deny_Batch)]"

definition kind_named :: "kind_value \<Rightarrow> decision_kind option" where
  "kind_named k = (case k of Kind s \<Rightarrow> map_of kind_names s | Inherited_Value \<Rightarrow> None)"

definition name_of_kind :: "decision_kind \<Rightarrow> string" where
  "name_of_kind k = the (map_of (map prod.swap kind_names) k)"

definition raw_of :: "permission_decision \<Rightarrow> raw_decision" where
  "raw_of d = \<lparr>rd_kind = Kind (name_of_kind (dc_kind d)), rd_reason = dc_reason d\<rparr>"

text \<open>\<open>record\<close> returns a decision of any other kind as it is.\<close>

definition record_raw ::
  "perm_env \<Rightarrow> perm_options \<Rightarrow> request \<Rightarrow> raw_decision \<Rightarrow> manager \<Rightarrow> raw_decision result \<times> manager" where
  "record_raw env opts r d m = (case kind_named (rd_kind d) of
     None \<Rightarrow> (Inr d, m)
   | Some k \<Rightarrow> (case record_decision env opts r \<lparr>dc_kind = k, dc_reason = rd_reason d\<rparr> m of
       (res, m') \<Rightarrow> (map_sum id raw_of res, m')))"

text \<open>\<open>requestAndExecute\<close>: a kind that is not a text has no \<open>startsWith\<close>.\<close>

definition execute_raw :: "request \<Rightarrow> raw_decision \<Rightarrow> 'a result \<Rightarrow> 'a result" where
  "execute_raw r d operation = (case rd_kind d of
     Inherited_Value \<Rightarrow> throw ''TypeError'' ''decision.kind.startsWith is not a function''
   | Kind k \<Rightarrow>
       if starts_with k ''deny''
       then (if rd_reason d = Some Timed_Out_Card then throw ''permission_timeout'' (rq_tool r)
             else if rd_reason d = Some Fatigue then throw ''mcp_fatigue_rate_limited'' (rq_tool r)
             else throw ''permission_denied'' (rq_tool r))
       else operation)"

definition prompted_operation ::
  "perm_env \<Rightarrow> perm_options \<Rightarrow> nat \<Rightarrow> request \<Rightarrow> prompt_input \<Rightarrow> manager \<Rightarrow> 'a result \<Rightarrow> 'a result \<times> manager" where
  "prompted_operation env opts depth r x m operation =
     (case record_raw env opts r (chain_prompt depth x) m of
        (Inl e, m') \<Rightarrow> (Inl e, m')
      | (Inr d, m') \<Rightarrow> (execute_raw r d operation, m'))"


section \<open>Sessions keep their snapshot\<close>

text \<open>The last mode a session was raised to, and whether any session was released.\<close>

fun last_escalation :: "string \<Rightarrow> policy_op list \<Rightarrow> session_mode \<Rightarrow> session_mode" where
  "last_escalation i [] m = m"
| "last_escalation i (Escalate j m' # ops) m = last_escalation i ops (if j = i then m' else m)"
| "last_escalation i (_ # ops) m = last_escalation i ops m"

fun releases :: "policy_op \<Rightarrow> bool" where
  "releases (Release i) = True"
| "releases _ = False"

lemma snapshot_step:
  assumes "py_snapshots p i = Some (a, v)" "\<not> releases e"
  shows "\<exists>a'. py_snapshots (policy_step p e) i = Some (a', v\<lparr>sn_mode := last_escalation i [e] (sn_mode v)\<rparr>)"
proof (cases e)
  case (Escalate j m)
  show ?thesis
  proof (cases "j = i")
    case True
    then show ?thesis using assms(1) Escalate by (simp add: escalate_session_mode_def Let_def)
  next
    case False
    then show ?thesis using assms(1) Escalate
      by (cases "py_snapshots p j") (auto simp: escalate_session_mode_def Let_def)
  qed
next
  case (Snapshot_For j d parent)
  then show ?thesis using assms(1)
    by (cases "py_snapshots p j"; cases "Option.bind (truthy parent) (py_snapshots p)")
      (auto simp: snapshot_for_def Let_def)
qed (use assms in \<open>simp_all add: configure_mode_def\<close>)

lemma last_escalation_Cons: "last_escalation i (e # ops) m = last_escalation i ops (last_escalation i [e] m)"
  by (cases e) simp_all

text \<open>Until a release, a session keeps its snapshot, whatever is configured and created, up to its own escalations.\<close>

lemma snapshots_are_frozen:
  assumes "py_snapshots p i = Some (a, v)" "\<forall>e \<in> set ops. \<not> releases e"
  shows "\<exists>a'. fst (snapshot_for i depth parent (foldl policy_step p ops)) =
    Inr (a', v\<lparr>sn_mode := last_escalation i ops (sn_mode v)\<rparr>)"
proof -
  have "\<exists>a'. py_snapshots (foldl policy_step p ops) i = Some (a', v\<lparr>sn_mode := last_escalation i ops (sn_mode v)\<rparr>)"
    using assms
  proof (induction ops arbitrary: p a v)
    case (Cons e ops)
    from snapshot_step [of p i a v e] Cons.prems
    obtain a' where "py_snapshots (policy_step p e) i = Some (a', v\<lparr>sn_mode := last_escalation i [e] (sn_mode v)\<rparr>)" by auto
    from Cons.IH [OF this] Cons.prems(2) show ?case
      by (simp add: last_escalation_Cons [of i e ops])
  qed simp
  then show ?thesis by (auto simp: snapshot_for_def)
qed

text \<open>
  \<open>releaseLineage\<close> means to release the session with its children, and finds them by their common object.
  A child that was created before its parent was raised to full access keeps the old object and stays.
\<close>

lemma release_misses_older_children:
  "let p = foldl policy_step new_session_policy
       [Snapshot_For ''root'' 0 None, Snapshot_For ''child'' 1 (Some ''root''), Escalate ''root'' Full_Mode, Release ''root'']
   in py_snapshots p ''root'' = None \<and> py_snapshots p ''child'' \<noteq> None"
  by (simp add: new_session_policy_def snapshot_for_def escalate_session_mode_def release_lineage_def truthy_def Let_def)

section \<open>What a prompt can grant\<close>

lemma kind_named_raw_of [simp]: "kind_named (rd_kind (raw_of d)) = Some (dc_kind d)"
  by (cases "dc_kind d") (simp_all add: kind_named_def raw_of_def name_of_kind_def kind_names_def)

text \<open>On decisions with a known kind, record and execution are those of the manager.\<close>

lemma record_raw_of: "record_raw env opts r (raw_of d) m =
    (map_sum id raw_of (fst (record_decision env opts r d m)), snd (record_decision env opts r d m))"
  by (cases d) (simp add: record_raw_def case_prod_beta, simp add: raw_of_def)

lemma execute_raw_of: "execute_raw r (raw_of d) operation = execute_permitted r d operation"
  by (cases "dc_kind d") (simp_all add: execute_raw_def execute_permitted_def raw_of_def name_of_kind_def kind_names_def denies_def)

lemma child_kinds:
  assumes "n > 0"
  shows "rd_kind (chain_prompt n x) \<in> {Kind ''allow-once'', Kind ''allow-session'', Kind ''deny''}"
  using assms by (simp add: chain_prompt_def Let_def raw_kind_def)

lemma child_answer:
  assumes "n > 0" "raw_of d = chain_prompt n x"
  shows "dc_kind d \<in> {Allow_Once, Allow_Session, Deny}"
proof -
  have "kind_named (rd_kind (raw_of d)) \<in> {Some Allow_Once, Some Allow_Session, Some Deny}"
    using child_kinds [OF assms(1), of x] unfolding assms(2) by (auto simp: kind_named_def kind_names_def)
  then show ?thesis by simp
qed

text \<open>An answer of these kinds persists nothing and changes neither the mode nor the servers.\<close>

definition modest_manager :: "manager \<Rightarrow> bool" where
  "modest_manager m \<longleftrightarrow> pm_servers m = [] \<and> snd ` set (pm_cache m) \<subseteq> {Allow_Session}"

lemma modest_cache:
  "modest_manager m \<Longrightarrow> modest_manager (m\<lparr>pm_cache := map_set k Allow_Session (pm_cache m)\<rparr>)"
  unfolding modest_manager_def by (auto dest!: in_map_set)

lemma modest_answer:
  assumes "dc_kind d \<in> {Allow_Once, Allow_Session, Deny}"
  shows "record_decision env (opts\<lparr>po_persist := f\<rparr>) r d m = record_decision env opts r d m"
    "pm_mode (snd (record_decision env opts r d m)) = pm_mode m"
    "pm_initial (snd (record_decision env opts r d m)) = pm_initial m"
    "modest_manager m \<Longrightarrow> modest_manager (snd (record_decision env opts r d m))"
  using assms
  by (cases "key_of env r"; auto simp: record_decision_def Let_def remembered_def bind_result_def intro: modest_cache)+

lemma modest_check:
  "check_request env rules (opts\<lparr>po_persist := f\<rparr>) r stopped m = check_request env rules opts r stopped m"
proof -
  have "po_skip (opts\<lparr>po_persist := f\<rparr>) = po_skip opts" "po_prompt (opts\<lparr>po_persist := f\<rparr>) = po_prompt opts" by simp_all
  then show ?thesis unfolding check_request_def by presburger
qed

lemma modest_check_manager:
  assumes "check_request env rules opts r stopped m = Inr (v, m')"
  shows "pm_mode m' = pm_mode m" "pm_initial m' = pm_initial m" "modest_manager m \<Longrightarrow> modest_manager m'"
proof -
  have "m' = m \<or> (\<exists>k. m' = m\<lparr>pm_cache := map_set k Allow_Session (pm_cache m)\<rparr>)"
    using assms by (auto simp: check_request_def permit_def bind_result_def split: if_splits sum.splits option.splits)
  then show "pm_mode m' = pm_mode m" "pm_initial m' = pm_initial m" "modest_manager m \<Longrightarrow> modest_manager m'"
    by (auto intro: modest_cache)
qed

text \<open>The mode as the events set it, whatever is answered.\<close>

fun mode_after :: "session_mode \<Rightarrow> session_mode \<Rightarrow> perm_event list \<Rightarrow> session_mode" where
  "mode_after initial m [] = m"
| "mode_after initial m (Mode m' # es) = mode_after initial m' es"
| "mode_after initial m (Clear_Session # es) = mode_after initial initial es"
| "mode_after initial m (_ # es) = mode_after initial m es"

definition asked_of_child :: "perm_event \<Rightarrow> bool" where
  "asked_of_child e \<longleftrightarrow> (\<forall>d. e = Answer d \<longrightarrow> dc_kind d \<in> {Allow_Once, Allow_Session, Deny})"

definition child_step_ok ::
  "perm_env \<Rightarrow> perm_rules \<Rightarrow> perm_options \<Rightarrow> (persist_scope \<Rightarrow> request \<Rightarrow> bool \<Rightarrow> unit result) option \<Rightarrow>
     perm_system \<Rightarrow> perm_event \<Rightarrow> bool" where
  "child_step_ok env rules opts f sy e \<longleftrightarrow>
     (let sy' = perm_step env rules opts sy e
      in perm_step env rules (opts\<lparr>po_persist := f\<rparr>) sy e = sy' \<and>
         (modest_manager (sy_manager sy) \<longrightarrow> modest_manager (sy_manager sy')) \<and>
         pm_initial (sy_manager sy') = pm_initial (sy_manager sy) \<and>
         pm_mode (sy_manager sy') = mode_after (pm_initial (sy_manager sy)) (pm_mode (sy_manager sy)) [e])"

lemma child_request: "child_step_ok env rules opts f sy (Request r stopped)"
proof (cases "check_request env rules opts r stopped (sy_manager sy)")
  case (Inr p)
  obtain v m where p: "p = (v, m)" by fastforce
  note m = modest_check_manager [OF Inr [unfolded p]]
  show ?thesis using m Inr p
    by (cases v) (simp_all add: child_step_ok_def system_steps modest_check)
qed (simp add: child_step_ok_def system_steps modest_check)

lemma child_answered:
  assumes "dc_kind d \<in> {Allow_Once, Allow_Session, Deny}"
  shows "child_step_ok env rules opts f sy (Answer d)"
proof (cases "\<exists>i r q. sy_queue sy = (i, r, True) # q")
  case True
  then obtain i r q where q: "sy_queue sy = (i, r, True) # q" by blast
  note a = modest_answer [OF assms]
  show ?thesis using a
    by (simp add: child_step_ok_def system_steps q case_prod_beta)
next
  case False
  then have "do_answer env opts' d (sy\<lparr>sy_events := es\<rparr>) = sy\<lparr>sy_events := es\<rparr>" for opts' es
    by (auto simp: do_answer_def split: list.split bool.split)
  then show ?thesis by (simp add: child_step_ok_def perm_step_def)
qed

lemma child_step: "asked_of_child e \<Longrightarrow> child_step_ok env rules opts f sy e"
proof (cases e)
  case (Answer d)
  then show "asked_of_child e \<Longrightarrow> child_step_ok env rules opts f sy e"
    by (simp add: asked_of_child_def child_answered)
next
  case Begin
  then show ?thesis
    by (auto simp: child_step_ok_def system_steps split: list.split bool.split prod.split)
next
  case (Fail x)
  then show ?thesis
    by (auto simp: child_step_ok_def system_steps split: list.split bool.split prod.split)
next
  case (Request r stopped)
  then show ?thesis by (simp add: child_request)
qed (simp_all add: child_step_ok_def system_steps modest_manager_def set_mode_def clear_session_def
    grant_ephemeral_def clear_ephemeral_def)

lemma mode_after_Cons: "mode_after i m (e # es) = mode_after i (mode_after i m [e]) es"
  by (cases e) simp_all

lemma child_run:
  assumes "\<forall>e \<in> set es. asked_of_child e" "modest_manager (sy_manager sy)"
  shows "foldl (perm_step env rules (opts\<lparr>po_persist := f\<rparr>)) sy es = foldl (perm_step env rules opts) sy es \<and>
    modest_manager (sy_manager (foldl (perm_step env rules opts) sy es)) \<and>
    pm_mode (sy_manager (foldl (perm_step env rules opts) sy es)) =
      mode_after (pm_initial (sy_manager sy)) (pm_mode (sy_manager sy)) es"
  using assms
proof (induction es arbitrary: sy)
  case (Cons e es)
  have "child_step_ok env rules opts f sy e" using Cons.prems(1) by (intro child_step) simp
  note s = this [unfolded child_step_ok_def Let_def]
  with Cons.prems(2) have "modest_manager (sy_manager (perm_step env rules opts sy e))" by blast
  from Cons.IH [OF _ this] Cons.prems(1) s show ?case
    by (simp add: mode_after_Cons [of _ _ e es])
qed simp

lemma denial_names: "map_of kind_names s = Some k \<Longrightarrow> starts_with s ''deny'' \<longleftrightarrow> denies k"
  by (auto simp: kind_names_def denies_def split: if_splits)

lemma record_keeps_denials:
  "record_decision env opts r d m = (Inr d', m') \<Longrightarrow> denies (dc_kind d') \<longleftrightarrow> denies (dc_kind d)"
  by (auto simp: record_decision_def Let_def bind_result_def persist_def plain_decision_def denies_def
      split: sum.splits if_splits option.splits)

lemma execute_raw_runs:
  assumes "execute_raw r d (Inr v) = Inr v'"
  shows "v' = v \<and> (\<exists>k. rd_kind d = Kind k \<and> \<not> starts_with k ''deny'')"
  using assms by (auto simp: execute_raw_def split: kind_value.splits if_splits)

lemma prompted_runs:
  assumes "prompted_operation env opts depth r x m (Inr v) = (Inr v', m')"
  shows "v' = v \<and> (\<exists>k. rd_kind (chain_prompt depth x) = Kind k \<and> \<not> starts_with k ''deny'')"
proof -
  let ?d = "chain_prompt depth x"
  obtain e where e: "record_raw env opts r ?d m = (Inr e, m')" "execute_raw r e (Inr v) = Inr v'"
    using assms by (auto simp: prompted_operation_def split: prod.splits sum.splits)
  show ?thesis
  proof (cases "kind_named (rd_kind ?d)")
    case None
    then have "e = ?d" using e(1) by (simp add: record_raw_def)
    then show ?thesis using execute_raw_runs [OF e(2)] by simp
  next
    case (Some k)
    then obtain s where s: "rd_kind ?d = Kind s" "map_of kind_names s = Some k"
      by (auto simp: kind_named_def split: kind_value.splits)
    obtain d' where d': "record_decision env opts r \<lparr>dc_kind = k, dc_reason = rd_reason ?d\<rparr> m = (Inr d', m')" "e = raw_of d'"
      using e(1) Some by (auto simp: record_raw_def split: prod.splits) (metis (no_types, lifting) Inr_Inl_False map_sum.simps(1) sum.exhaust map_sum.simps(2) sum.inject(2))
    have "\<not> denies (dc_kind d')" "v' = v"
      using e(2) unfolding d'(2) execute_raw_of by (auto simp: execute_permitted_def split: if_splits)
    then show ?thesis using record_keeps_denials [OF d'(1)] denial_names [OF s(2)] s(1) by simp
  qed
qed

lemma line_runs:
  assumes "rd_kind (line_prompt approvable interactive line) = Kind k" "\<not> starts_with k ''deny''"
  shows "approvable \<and> interactive \<and> (case line of
    Some (Line_Answer (Some s)) \<Rightarrow> by_answer (map lower_char (trim s)) = Some (Kind k) | _ \<Rightarrow> False)"
proof -
  have d: "k \<noteq> ''deny''" using assms(2) by auto
  have i: "interactive" by (rule ccontr) (use assms(1) d in \<open>simp add: line_prompt_def raw_kind_def\<close>)
  obtain a where a: "line = Some (Line_Answer a)"
    using assms(1) d i by (cases line; cases "the line") (auto simp: line_prompt_def raw_kind_def)
  have p: approvable by (rule ccontr) (use assms(1) d i a in \<open>simp add: line_prompt_def raw_kind_def\<close>)
  have g: "given (by_answer (map lower_char (trim (given a [])))) (Kind ''deny'') = Kind k"
    using assms(1) i a p by (simp add: line_prompt_def raw_kind_def)
  obtain s where s: "a = Some s"
    using g d by (cases a) (simp_all add: trim_def by_answer_def)
  have "by_answer (map lower_char (trim s)) = Some (Kind k)"
    using g d unfolding s by (cases "by_answer (map lower_char (trim s))") simp_all
  with i p show ?thesis by (simp add: a s)
qed

section \<open>Properties\<close>

text \<open>
  Whatever users and clients answer to the prompts of a child session, nothing is persisted (the run
  does not depend on how rules are persisted), its mode is only what its events set, no server is allowed
  as a whole, and only what was allowed for the session is remembered.
\<close>

theorem child_sessions_grant_only_themselves:
  fixes env :: perm_env and rules :: perm_rules and opts :: perm_options
  assumes "\<And>d. Answer d \<in> set es \<Longrightarrow> \<exists>n x. n > 0 \<and> raw_of d = chain_prompt n x"
  defines "sy \<equiv> perm_run env rules opts es"
  shows "perm_run env rules (opts\<lparr>po_persist := f\<rparr>) es = sy \<and>
    pm_mode (sy_manager sy) = mode_after (po_mode opts) (po_mode opts) es \<and>
    pm_servers (sy_manager sy) = [] \<and> snd ` set (pm_cache (sy_manager sy)) \<subseteq> {Allow_Session}"
proof -
  have "\<forall>e \<in> set es. asked_of_child e"
    unfolding asked_of_child_def using assms(1) child_answer by metis
  from child_run [OF this, where sy = "new_system opts" and f = f] show ?thesis
    by (simp add: sy_def perm_run_def new_system_def new_manager_def modest_manager_def)
qed

text \<open>
  C33. An operation runs after a prompt only if the session may prompt, what was shown could be approved, and
  someone answered: on the line with one of the five letters that allow, on a card with a kind that is not
  a denial. A child session needs exactly the kinds allow-once or allow-session.
\<close>

definition allowing_answer :: "prompt_input \<Rightarrow> string \<Rightarrow> bool" where
  "allowing_answer x k \<longleftrightarrow> \<not> starts_with k ''deny'' \<and>
     (case pi_mode x of
        No_Interaction \<Rightarrow> False
      | Line_Interaction \<Rightarrow> pi_interactive x \<and> (case pi_line x of
          Some (Line_Answer (Some s)) \<Rightarrow> by_answer (map lower_char (trim s)) = Some (Kind k) | _ \<Rightarrow> False)
      | Tui_Interaction \<Rightarrow> (case pi_card x of Some d \<Rightarrow> rd_kind d = Kind k | None \<Rightarrow> False))"


text \<open>
  The kind of a decision is not checked anywhere between the client and the manager, and the manager refuses
  only what begins with deny: for a top-level session any other text, the empty one too, runs the operation.
\<close>

lemma unknown_kinds_run:
  assumes "map_of kind_names k = None" "\<not> starts_with k ''deny''"
  shows "prompted_operation env opts 0 r \<lparr>pi_mode = Tui_Interaction, pi_approvable = True, pi_interactive = i,
    pi_line = l, pi_card = Some (raw_kind k)\<rparr> m operation = (operation, m)"
  using assms by (simp add: prompted_operation_def record_raw_def chain_prompt_def request_permission_def raw_kind_def
      kind_named_def execute_raw_def)

section \<open>Concrete prompts\<close>

definition demo_prompt :: prompt_input where
  "demo_prompt = \<lparr>pi_mode = Tui_Interaction, pi_approvable = True, pi_interactive = False, pi_line = None,
     pi_card = Some (raw_kind ''allow-session'')\<rparr>"

lemma demo_prompt_answer: "raw_of (plain_decision Allow_Session) = chain_prompt 1 demo_prompt"
  by (simp add: raw_of_def plain_decision_def name_of_kind_def kind_names_def chain_prompt_def demo_prompt_def
      request_permission_def raw_kind_def)

lemma child_sessions_grant_only_themselves_witness:
  "let es = [Request demo_write False, Begin, Answer (plain_decision Allow_Session)]
   in raw_of (plain_decision Allow_Session) = chain_prompt 1 demo_prompt \<and>
      perm_run demo_env no_rules (demo_opts\<lparr>po_persist := Some (\<lambda>_ _ _. Inr ())\<rparr>) es = perm_run demo_env no_rules demo_opts es"
proof -
  let ?es = "[Request demo_write False, Begin, Answer (plain_decision Allow_Session)]"
  have "\<exists>n x. n > 0 \<and> raw_of d = chain_prompt n x" if "Answer d \<in> set ?es" for d
    using that demo_prompt_answer by auto
  from child_sessions_grant_only_themselves [where es = ?es and env = demo_env and rules = no_rules and opts = demo_opts, OF this]
  show ?thesis using demo_prompt_answer by (simp only: Let_def simp_thms)
qed


end
