(* ===== verification/Session_Resume.thy ===== *)
theory Session_Resume
  imports Recovery
begin

text \<open>
  Resuming a session and showing its conversation: \<open>resume\<close> and the transcript of
  \<open>packages/app-runtime/src/session-controller.ts\<close>, with the chips of attachments
  (\<open>packages/shared/src/attachments.ts\<close>). A session is resumed from the rows of its last twenty turns and the
  earlier choices of a model.
\<close>

section \<open>The window of a resumed session\<close>

definition turn_starts :: "log_row list \<Rightarrow> nat list" where
  "turn_starts rows = filter (\<lambda>i. lr_type (rows ! i) = ''turn.started'' \<and> \<not> is_bubbled (rows ! i)) [0..<length rows]"

definition tail_turns :: nat where
  "tail_turns = 20"

definition resume_start :: "log_row list \<Rightarrow> nat" where
  "resume_start rows = (let ts = turn_starts rows
     in if length ts < tail_turns then 0 else ts ! (length ts - tail_turns))"

definition resume_entries :: "log_row list \<Rightarrow> log_row list" where
  "resume_entries rows = filter (\<lambda>r. lr_type r = ''session.model_changed'') (take (resume_start rows) rows) @
     drop (resume_start rows) rows"

record resumed_session =
  rd_state :: session_state
  rd_tail :: nat
  rd_skipped :: nat

text \<open>\<open>SESSION_ID_PATTERN\<close>: a UUID of version 7, in either case.\<close>

definition hex_digit :: "char \<Rightarrow> bool" where
  "hex_digit c \<longleftrightarrow> c \<in> set ''0123456789abcdefABCDEF''"

definition session_id_at :: "nat \<Rightarrow> char \<Rightarrow> bool" where
  "session_id_at i c \<longleftrightarrow>
     (if i \<in> {8, 13, 18, 23} then c = CHR ''-''
      else if i = 14 then c = CHR ''7''
      else if i = 19 then c \<in> set ''89abAB''
      else hex_digit c)"

definition session_id_valid :: "string \<Rightarrow> bool" where
  "session_id_valid s \<longleftrightarrow> length s = 36 \<and> list_all (\<lambda>(i, c). session_id_at i c) (enumerate 0 s)"

definition resume_session ::
  "int \<Rightarrow> (string \<Rightarrow> int) \<Rightarrow> string \<Rightarrow> log_row list \<Rightarrow> resumed_session result" where
  "resume_session now date sid rows =
     (if \<not> session_id_valid sid then throw ''session_id_invalid'' ''Invalid session id''
      else let entries = resume_entries rows;
               replayed = length (turn_starts entries);
               r = replay_session_state now date sid entries
                     \<lparr>ro_max_tokens = Some 200000, ro_tool_snapshot = Some ''builtin:l1''\<rparr>
           in if \<not> rp_found r then throw ''session_not_found'' sid
              else Inr \<lparr>rd_state = settle_all (rp_state r), rd_tail = replayed,
                     rd_skipped = length (turn_starts rows) - replayed\<rparr>)"

section \<open>The transcript\<close>

definition image_kind :: ustr where
  "image_kind = ascii ''image''"

definition file_kind :: ustr where
  "file_kind = ascii ''file''"

definition in_brackets :: "ustr \<Rightarrow> ustr option \<Rightarrow> ustr" where
  "in_brackets kind label = ascii ''['' @ kind @ (case label of None \<Rightarrow> [] | Some l \<Rightarrow> ascii '': '' @ l) @ ascii '']''"

text \<open>The text up to the last dot and after it, when the last dot is not in front.\<close>

definition split_extension :: "ustr \<Rightarrow> ustr \<times> ustr" where
  "split_extension h =
     (let ext = rev (takeWhile (\<lambda>c. c \<noteq> 46) (rev h)); stem = take (length h - length ext - 1) h
      in if 46 \<in> set h \<and> stem \<noteq> [] then (stem, ext) else (h, []))"

definition handle_chip :: "ustr \<Rightarrow> ustr \<Rightarrow> ustr" where
  "handle_chip kind h = (case split_extension h of (digest, ext) \<Rightarrow>
     in_brackets kind (Some (take 8 digest @ (if ext = [] then [] else 46 # ext))))"

definition path_base :: "ustr \<Rightarrow> ustr option" where
  "path_base p = (case filter (\<lambda>s. s \<noteq> []) (split_on 47 (map (\<lambda>c. if c = 92 then 47 else c) p)) of
     [] \<Rightarrow> None | s # ss \<Rightarrow> Some (List.last (s # ss)))"

fun content_part_chip :: "json content_part \<Rightarrow> ustr option" where
  "content_part_chip (Image (Handle h) mime) = Some (if h \<noteq> [] then handle_chip image_kind h else in_brackets image_kind None)"
| "content_part_chip (Image (Path p) mime) = Some (if p \<noteq> [] then in_brackets image_kind (path_base p) else in_brackets image_kind None)"
| "content_part_chip (Image (Inline bs) mime) = Some (in_brackets image_kind None)"
| "content_part_chip (File (Handle h) mime name) = Some (if h \<noteq> [] then handle_chip file_kind h
     else in_brackets file_kind (if name = [] then None else Some name))"
| "content_part_chip (File (Path p) mime name) = Some (if p \<noteq> [] then in_brackets file_kind (path_base p)
     else in_brackets file_kind (if name = [] then None else Some name))"
| "content_part_chip (File (Inline bs) mime name) = Some (in_brackets file_kind (if name = [] then None else Some name))"
| "content_part_chip _ = None"

fun part_text :: "json content_part \<Rightarrow> ustr" where
  "part_text (Text s) = s"
| "part_text part = (case content_part_chip part of None \<Rightarrow> [] | Some chip \<Rightarrow> chip @ [32])"

definition message_full_text :: "json content_part list \<Rightarrow> ustr" where
  "message_full_text parts = u_trim (concat (map part_text parts))"

record shown_attachment =
  sa_chip :: ustr
  sa_mime :: ustr
  sa_handle :: "ustr option"

fun transcript_attachment :: "json content_part \<Rightarrow> shown_attachment list" where
  "transcript_attachment (Image source mime) = (case content_part_chip (Image source mime :: json content_part) of
     None \<Rightarrow> []
   | Some chip \<Rightarrow> [\<lparr>sa_chip = chip, sa_mime = mime, sa_handle = (case source of Handle h \<Rightarrow> Some h | _ \<Rightarrow> None)\<rparr>])"
| "transcript_attachment _ = []"

datatype tool_status = Tool_Done | Tool_Failed | Tool_Running

datatype transcript_item =
    Text_Entry string role ustr "shown_attachment list"
  | Tool_Entry string string "json option" tool_status

text \<open>The result of a tool call is the last one with its id, over all messages.\<close>

fun tool_outcome :: "json content_part \<Rightarrow> (string \<times> tool_status) list" where
  "tool_outcome (Tool_Result i content failed) = [(i, if failed = Some True then Tool_Failed else Tool_Done)]"
| "tool_outcome _ = []"

definition tool_outcomes :: "json message list \<Rightarrow> (string \<times> tool_status) list" where
  "tool_outcomes ms = concat (map (\<lambda>m. concat (map tool_outcome (msg_content m))) ms)"

text \<open>Where the active turn starts, when there is one and its first message is still there.\<close>

definition live_boundary :: "session_state \<Rightarrow> nat option" where
  "live_boundary s = (case find (\<lambda>t. Some (t_id t) = ss_active_turn s) (ss_turns s) of
     None \<Rightarrow> None
   | Some t \<Rightarrow> if t_start_message t = [] then None
       else map_option fst (find (\<lambda>(i, m). msg_id m = t_start_message t) (enumerate 0 (ss_messages s))))"

definition tool_status_at :: "session_state \<Rightarrow> nat \<Rightarrow> string \<Rightarrow> tool_status" where
  "tool_status_at s n i = (case map_of (rev (tool_outcomes (ss_messages s))) i of
     Some status \<Rightarrow> status
   | None \<Rightarrow> (case live_boundary s of None \<Rightarrow> Tool_Failed | Some b \<Rightarrow> if b \<le> n then Tool_Running else Tool_Failed))"

fun tool_entry :: "session_state \<Rightarrow> nat \<Rightarrow> json content_part \<Rightarrow> transcript_item list" where
  "tool_entry s n (Tool_Use i name inp) =
     [Tool_Entry i name (if inp = J_Null then None else Some inp) (tool_status_at s n i)]"
| "tool_entry s n _ = []"

definition message_items :: "session_state \<Rightarrow> nat \<Rightarrow> json message \<Rightarrow> transcript_item list" where
  "message_items s n m =
     (let full = message_full_text (msg_content m)
      in (if full = [] then [] else [Text_Entry (msg_id m) (msg_role m) full (concat (map transcript_attachment (msg_content m)))]) @
         (if msg_role m = Assistant then concat (map (tool_entry s n) (msg_content m)) else []))"

definition read_transcript :: "session_state \<Rightarrow> transcript_item list" where
  "read_transcript s = concat (map (\<lambda>(n, m). message_items s n m) (enumerate 0 (ss_messages s)))"

section \<open>Tools in the transcript\<close>

fun item_tool :: "transcript_item \<Rightarrow> string option" where
  "item_tool (Tool_Entry i name inp status) = Some i"
| "item_tool (Text_Entry i r full as) = None"

fun part_tool :: "json content_part \<Rightarrow> string option" where
  "part_tool (Tool_Use i name inp) = Some i"
| "part_tool _ = None"

lemma tool_entry_tools: "List.map_filter item_tool (concat (map (tool_entry s n) parts)) = List.map_filter part_tool parts"
proof (induction parts)
  case (Cons p parts)
  have "List.map_filter item_tool (tool_entry s n p) = List.map_filter part_tool [p]"
    by (cases p) (simp_all add: List.map_filter_def)
  with Cons show ?case by (cases p) (simp_all add: List.map_filter_def)
qed (simp add: List.map_filter_def)

lemma transcript_tools:
  "List.map_filter item_tool (read_transcript s) =
     concat (map (\<lambda>m. if msg_role m = Assistant then List.map_filter part_tool (msg_content m) else []) (ss_messages s))"
proof -
  have one: "List.map_filter item_tool (message_items s n m) =
      (if msg_role m = Assistant then List.map_filter part_tool (msg_content m) else [])" for n m
    by (simp add: message_items_def Let_def map_filter_append tool_entry_tools)
  have "List.map_filter item_tool (concat (map (\<lambda>(n, m). message_items s n m) (enumerate k ms))) =
      concat (map (\<lambda>m. if msg_role m = Assistant then List.map_filter part_tool (msg_content m) else []) ms)" for k ms
    by (induction ms arbitrary: k) (simp_all add: map_filter_append one)
  then show ?thesis by (simp add: read_transcript_def)
qed

lemma transcript_entryE:
  assumes "Tool_Entry i name inp status \<in> set (read_transcript s)"
  obtains n where "n < length (ss_messages s)" "status = tool_status_at s n i"
    "\<exists>x. Tool_Use i name x \<in> set (msg_content (ss_messages s ! n))"
proof -
  obtain n m where nm: "(n, m) \<in> set (enumerate 0 (ss_messages s))" "Tool_Entry i name inp status \<in> set (message_items s n m)"
    using assms unfolding read_transcript_def by auto
  then have n: "n < length (ss_messages s)" "ss_messages s ! n = m" by (auto simp: in_set_enumerate_eq)
  obtain p where p: "p \<in> set (msg_content m)" "Tool_Entry i name inp status \<in> set (tool_entry s n p)"
    using nm(2) by (auto simp: message_items_def Let_def split: if_splits)
  have "status = tool_status_at s n i" "\<exists>x. p = Tool_Use i name x" using p(2) by (cases p; auto)+
  with n p(1) that show ?thesis by blast
qed

lemma running_iff:
  "tool_status_at s n i = Tool_Running \<longleftrightarrow> i \<notin> fst ` set (tool_outcomes (ss_messages s)) \<and>
     (\<exists>b. live_boundary s = Some b \<and> b \<le> n)"
proof -
  have "set (tool_outcome p) \<subseteq> UNIV \<times> {Tool_Done, Tool_Failed}" for p by (cases p) simp_all
  then have o: "set (tool_outcomes ms) \<subseteq> UNIV \<times> {Tool_Done, Tool_Failed}" for ms by (auto simp: tool_outcomes_def)
  show ?thesis
  proof (cases "map_of (rev (tool_outcomes (ss_messages s))) i")
    case None
    then have "i \<notin> fst ` set (tool_outcomes (ss_messages s))" by (simp add: map_of_eq_None_iff)
    then show ?thesis by (auto simp: tool_status_at_def None split: option.split)
  next
    case (Some st)
    then have "(i, st) \<in> set (tool_outcomes (ss_messages s))" by (auto dest: map_of_SomeD)
    with o [of "ss_messages s"] Some show ?thesis by (auto simp: tool_status_at_def image_iff)
  qed
qed

section \<open>What a resumed session has\<close>

definition own_turn_start :: "log_row \<Rightarrow> bool" where
  "own_turn_start r \<longleftrightarrow> lr_type r = ''turn.started'' \<and> \<not> is_bubbled r"

lemma length_turn_starts: "length (turn_starts rows) = length (filter own_turn_start rows)"
proof -
  have "filter own_turn_start rows = map ((!) rows) (turn_starts rows)"
  proof -
    have "filter own_turn_start (map ((!) rows) [0..<length rows]) = map ((!) rows) (turn_starts rows)"
      unfolding filter_map turn_starts_def by (simp add: o_def own_turn_start_def)
    then show ?thesis by (simp only: map_nth)
  qed
  then show ?thesis by simp
qed

lemma filter_from_nth:
  "sorted_wrt (<) xs \<Longrightarrow> k < length xs \<Longrightarrow> filter (\<lambda>x. xs ! k \<le> x) xs = drop k xs" for xs :: "nat list"
proof -
  assume s: "sorted_wrt (<) xs" "k < length xs"
  have "filter (\<lambda>x. xs ! k \<le> x) (take k xs) = []"
    using s by (auto simp: filter_empty_conv in_set_conv_nth sorted_wrt_iff_nth_less not_le)
  moreover have "filter (\<lambda>x. xs ! k \<le> x) (drop k xs) = drop k xs"
  proof (unfold filter_id_conv, intro ballI)
    fix x assume "x \<in> set (drop k xs)"
    then obtain i where "i < length xs - k" "x = xs ! (k + i)" by (auto simp: in_set_conv_nth)
    then show "xs ! k \<le> x" using s(1) sorted_nth_mono [of xs k "k + i"] by (simp add: strict_sorted_iff)
  qed
  ultimately have "filter (\<lambda>x. xs ! k \<le> x) (take k xs @ drop k xs) = drop k xs" by (simp only: filter_append append_Nil)
  then show ?thesis by simp
qed

lemma own_starts_from: "length (filter own_turn_start (drop w rows)) = length (filter (\<lambda>i. w \<le> i) (turn_starts rows))"
proof -
  have "length (turn_starts (drop w rows)) = length (filter (\<lambda>i. own_turn_start (rows ! (w + i))) [0..<length rows - w])"
    by (auto simp: turn_starts_def own_turn_start_def intro!: arg_cong [where f = length] filter_cong)
  also have "\<dots> = length (filter own_turn_start (map (\<lambda>i. rows ! (w + i)) [0..<length rows - w]))"
    by (simp add: filter_map o_def)
  finally have 1: "length (turn_starts (drop w rows)) = length (filter own_turn_start (drop w rows))"
    by (simp add: length_turn_starts)
  have "filter (\<lambda>i. w \<le> i) (turn_starts rows) = filter (\<lambda>i. own_turn_start (rows ! i)) (filter (\<lambda>i. w \<le> i) [0..<length rows])"
    by (simp add: turn_starts_def own_turn_start_def conj_commute)
  also have "filter (\<lambda>i. w \<le> i) [0..<length rows] = map (\<lambda>i. w + i) [0..<length rows - w]"
  proof (cases "w \<le> length rows")
    case True
    then have "[0..<length rows] = [0..<w] @ [w..<length rows]" by (metis le_add_diff_inverse upt_add_eq_append zero_le)
    moreover have "[w..<length rows] = map (\<lambda>i. w + i) [0..<length rows - w]"
      using True by (auto intro!: nth_equalityI)
    ultimately show ?thesis by (auto simp: filter_empty_conv filter_id_conv)
  qed (auto simp: filter_empty_conv)
  finally have "length (filter (\<lambda>i. w \<le> i) (turn_starts rows)) =
      length (filter own_turn_start (map (\<lambda>i. rows ! (w + i)) [0..<length rows - w]))"
    by (simp add: filter_map o_def)
  also have "map (\<lambda>i. rows ! (w + i)) [0..<length rows - w] = drop w rows" by (auto intro!: nth_equalityI)
  finally show ?thesis by simp
qed

lemma window_turns: "length (filter own_turn_start (drop (resume_start rows) rows)) = min tail_turns (length (turn_starts rows))"
proof (cases "length (turn_starts rows) < tail_turns")
  case False
  have "sorted_wrt (<) (turn_starts rows)" unfolding turn_starts_def by (simp add: sorted_wrt_filter)
  moreover have "length (turn_starts rows) - tail_turns < length (turn_starts rows)" using False by (simp add: tail_turns_def)
  ultimately have "filter (\<lambda>i. turn_starts rows ! (length (turn_starts rows) - tail_turns) \<le> i) (turn_starts rows) =
      drop (length (turn_starts rows) - tail_turns) (turn_starts rows)" by (rule filter_from_nth)
  then show ?thesis using False by (simp add: own_starts_from resume_start_def Let_def)
qed (simp add: resume_start_def length_turn_starts)

lemma window_tail: "length (turn_starts (resume_entries rows)) = min tail_turns (length (turn_starts rows))"
proof -
  have "filter own_turn_start (filter (\<lambda>r. lr_type r = ''session.model_changed'') xs) = []" for xs
    by (auto simp: filter_empty_conv own_turn_start_def)
  then show ?thesis by (simp add: length_turn_starts resume_entries_def) (simp add: window_turns [unfolded length_turn_starts])
qed

text \<open>The model is the last one chosen, and it is chosen only by rows of its type.\<close>

definition chosen_model :: "string option \<Rightarrow> log_row \<Rightarrow> string option" where
  "chosen_model m r = (case parse_payload r of Some (Model_Changed x) \<Rightarrow> Some x | _ \<Rightarrow> m)"

definition last_model :: "string option \<Rightarrow> log_row list \<Rightarrow> string option" where
  "last_model m rows = foldl chosen_model m rows"

lemma replay_row_model:
  "ss_model (rs_draft (replay_row date b st r)) =
     (if lr_id r \<in> set (rs_seen st) then ss_model (rs_draft st) else chosen_model (ss_model (rs_draft st)) r)"
proof (cases "parse_payload r")
  case None
  then show ?thesis
    by (simp add: replay_row_def Let_def chosen_model_def apply_legacy_def settle_turn_def add_turn_def)
next
  case (Some p)
  then have t: "lr_type r \<in> set event_names" using parse_payload_type event_name_known by metis
  show ?thesis
    using Some t by (cases p) (simp_all add: replay_row_def Let_def chosen_model_def settle_turn_def add_turn_def)
qed

lemma replay_fold_model:
  "ss_model (rs_draft (foldl (replay_row date b) st rows)) =
     last_model (ss_model (rs_draft st)) (fresh_rows (rs_seen st) rows)"
proof (induction rows arbitrary: st)
  case (Cons r rows)
  have "ss_model (rs_draft (foldl (replay_row date b) st (r # rows))) =
      last_model (ss_model (rs_draft (replay_row date b st r))) (fresh_rows (rs_seen (replay_row date b st r)) rows)"
    using Cons by simp
  then show ?case by (simp add: replay_row_model) (simp add: last_model_def)
qed (simp add: last_model_def)

lemma last_model_filter: "last_model m (filter (\<lambda>r. lr_type r = ''session.model_changed'') rows) = last_model m rows"
proof (induction rows arbitrary: m)
  case (Cons r rows)
  have "chosen_model m r = m" if "lr_type r \<noteq> ''session.model_changed''"
    using that by (auto simp: chosen_model_def dest!: parse_payload_type split: option.split payload.split)
  with Cons show ?case by (simp add: last_model_def)
qed simp

lemma last_model_append: "last_model m (xs @ ys) = last_model (last_model m xs) ys"
  by (simp add: last_model_def)

lemma resume_entries_model: "last_model m (resume_entries rows) = last_model m rows"
proof -
  have "last_model m (resume_entries rows) = last_model m (take (resume_start rows) rows @ drop (resume_start rows) rows)"
    unfolding resume_entries_def last_model_append last_model_filter ..
  then show ?thesis by simp
qed

lemma model_rows_messages: "List.map_filter (own_message date) (filter (\<lambda>r. lr_type r = ''session.model_changed'') rows) = []"
proof (induction rows)
  case (Cons r rows)
  have "own_message date r = None" if "lr_type r = ''session.model_changed''"
    using that by (auto simp: own_message_def dest!: parse_payload_type split: option.split payload.split)
  with Cons show ?case by (simp add: List.map_filter_def)
qed (simp add: List.map_filter_def)

lemma entries_distinct: "distinct (map lr_id rows) \<Longrightarrow> distinct (map lr_id (resume_entries rows))"
proof -
  assume "distinct (map lr_id rows)"
  then have "distinct (map lr_id (take k rows @ drop k rows))" for k by simp
  then show ?thesis by (auto simp: resume_entries_def distinct_map_filter simp del: append_take_drop_id)
qed

lemma entries_subset: "set (resume_entries rows) \<subseteq> set rows"
  by (auto simp: resume_entries_def dest: in_set_takeD in_set_dropD)

lemma settle_all_frame [simp]:
  "ss_messages (settle_all s) = ss_messages s" "ss_model (settle_all s) = ss_model s" "ss_cwd (settle_all s) = ss_cwd s"
  by (simp_all add: settle_all_def)

lemma resumed_state:
  assumes "resume_session now date sid rows = Inr rs" "\<forall>r \<in> set rows. lr_type r \<noteq> ''session.snapshot''"
    "distinct (map lr_id rows)"
  shows "ss_messages (rd_state rs) = List.map_filter (own_message date) (drop (resume_start rows) rows)"
    "ss_model (rd_state rs) = last_model None rows"
proof -
  let ?o = "\<lparr>ro_max_tokens = Some 200000, ro_tool_snapshot = Some ''builtin:l1''\<rparr>"
  let ?es = "resume_entries rows"
  have n: "\<forall>r \<in> set ?es. lr_type r \<noteq> ''session.snapshot''" using assms(2) entries_subset by blast
  have f: "fresh_rows [] ?es = ?es" by (rule fresh_rows_distinct) (use assms(3) entries_distinct in auto)
  have rs: "rd_state rs = settle_all (rp_state (replay_session_state now date sid ?es ?o))"
    using assms(1) by (auto simp: resume_session_def Let_def split: if_splits)
  show "ss_messages (rd_state rs) = List.map_filter (own_message date) (drop (resume_start rows) rows)"
    using replay_uses_own_rows [OF n, of now date sid ?o]
    by (simp add: rs f) (simp add: resume_entries_def map_filter_append model_rows_messages)
  show "ss_model (rd_state rs) = last_model None rows"
    using replay_without_snapshot [OF n, of now date sid ?o]
    by (simp add: rs Let_def replay_fold_model initial_replay_def f resume_entries_model replay_start_def create_session_def)
qed

lemma replay_row_cwd:
  "lr_type r \<noteq> ''session.started'' \<Longrightarrow> ss_cwd (rs_draft (replay_row date b st r)) = ss_cwd (rs_draft st)"
proof (cases "parse_payload r")
  case None
  then show ?thesis
    by (simp add: replay_row_def Let_def apply_legacy_def settle_turn_def add_turn_def)
next
  case (Some p)
  assume "lr_type r \<noteq> ''session.started''"
  then have "event_name p \<noteq> ''session.started''" using parse_payload_type [OF Some] by simp
  then show ?thesis
    using Some by (cases p) (simp_all add: replay_row_def Let_def settle_turn_def add_turn_def)
qed

lemma replay_fold_cwd:
  "\<forall>r \<in> set rows. lr_type r \<noteq> ''session.started'' \<Longrightarrow>
     ss_cwd (rs_draft (foldl (replay_row date b) st rows)) = ss_cwd (rs_draft st)"
  by (induction rows arbitrary: st) (simp_all add: replay_row_cwd)

lemma no_start_no_cwd: "\<forall>r \<in> set rows. lr_type r \<noteq> ''session.started'' \<Longrightarrow> cwd_of rows = []"
  by (induction rows) (simp_all add: row_cwd_def)

text \<open>
  The row that names the working directory is the first of a log, and from twenty turns on the window does
  not reach it: the resumed session has no working directory.
\<close>

lemma long_session_loses_directory:
  assumes "resume_session now date sid rows = Inr rs" "\<forall>r \<in> set rows. lr_type r \<noteq> ''session.snapshot''"
    "\<forall>r \<in> set (drop (resume_start rows) rows). lr_type r \<noteq> ''session.started''"
  shows "ss_cwd (rd_state rs) = []"
proof -
  let ?o = "\<lparr>ro_max_tokens = Some 200000, ro_tool_snapshot = Some ''builtin:l1''\<rparr>"
  let ?es = "resume_entries rows"
  have n: "\<forall>r \<in> set ?es. lr_type r \<noteq> ''session.snapshot''" using assms(2) entries_subset by blast
  have s: "\<forall>r \<in> set ?es. lr_type r \<noteq> ''session.started''" using assms(3) by (auto simp: resume_entries_def)
  have "rd_state rs = settle_all (rp_state (replay_session_state now date sid ?es ?o))"
    using assms(1) by (auto simp: resume_session_def Let_def split: if_splits)
  then show ?thesis using replay_without_snapshot [OF n, of now date sid ?o]
    by (simp add: Let_def replay_fold_cwd [OF s] initial_replay_def replay_start_def create_session_def no_start_no_cwd [OF s])
qed

section \<open>Properties\<close>


definition demo_session_id :: string where
  "demo_session_id = ''019f0000-0000-7000-8000-000000000000''"

definition short_log :: "log_row list" where
  "short_log = [demo_row ''1'' None (Turn_Started ''t'' None None), demo_row ''2'' None (Message_Appended ''m1'' User [])]"

lemma short_log_resumes: "\<exists>rs. resume_session 0 (\<lambda>_. 0) demo_session_id short_log = Inr rs"
proof -
  have v: "session_id_valid demo_session_id" by code_simp
  have ts: "turn_starts short_log = [0]"
    by (simp add: turn_starts_def short_log_def demo_row_def is_bubbled_def upt_rec)
  have e: "resume_entries short_log = short_log"
    by (simp add: resume_entries_def resume_start_def ts tail_turns_def)
  have n: "\<forall>r \<in> set short_log. lr_type r \<noteq> ''session.snapshot''" by (simp add: short_log_def demo_row_def)
  have "rp_found (replay_session_state 0 (\<lambda>_. 0) demo_session_id short_log
      \<lparr>ro_max_tokens = Some 200000, ro_tool_snapshot = Some ''builtin:l1''\<rparr>)"
    unfolding replay_without_snapshot [OF n] Let_def
    by (simp add: short_log_def demo_row_def replay_row_def parse_payload_def event_names_def Let_def initial_replay_def
        min1_def is_bubbled_def turn_started_ok_def message_appended_ok_def)
  then show ?thesis by (simp add: resume_session_def v e Let_def)
qed


end
