(* ===== verification/Session_Turns.thy ===== *)
theory Session_Turns
  imports Prelude
begin

text \<open>
  The session controller, \<open>SessionController\<close> of \<open>packages/app-runtime/src/session-controller.ts\<close>, as far as
  it decides which runner is active and when a turn may start. What waits is split: an activation begins,
  and ends when its runner is created; an end begins, and finishes when its events are handled; a turn is a
  flight that settles later. Runners and flights are numbered.
\<close>

section \<open>State and operations\<close>

datatype 'o controller_event =
    Runner_Created nat string "'o option"
  | Runner_Interrupted nat
  | Run_Started nat nat ustr "string option"
  | Turn_Refused code
  | Session_Event string string
  | Shells_Killed

record activation =
  ac_runner :: nat
  ac_session :: string
  ac_model :: "string option"
  ac_resumed :: bool

record 'o controller =
  sc_runner :: "(nat \<times> string) option"
  sc_model :: "string option"
  sc_overrides :: "'o option"
  sc_flight :: "nat option"
  sc_running :: "(nat \<times> nat) list"
  sc_activating :: "activation list"
  sc_ending :: nat
  sc_runners :: nat
  sc_flights :: nat
  sc_log :: "'o controller_event list"

definition new_controller :: "'o controller" where
  "new_controller = \<lparr>sc_runner = None, sc_model = None, sc_overrides = None, sc_flight = None, sc_running = [],
     sc_activating = [], sc_ending = 0, sc_runners = 0, sc_flights = 0, sc_log = []\<rparr>"

definition note_event :: "'o controller_event \<Rightarrow> 'o controller \<Rightarrow> 'o controller" where
  "note_event e s = s\<lparr>sc_log := sc_log s @ [e]\<rparr>"

text \<open>\<open>activate\<close> up to \<open>createRunner\<close>: a turn in flight is interrupted and forgotten.\<close>

definition begin_activation :: "string \<Rightarrow> string option \<Rightarrow> bool \<Rightarrow> 'o controller \<Rightarrow> 'o controller" where
  "begin_activation i model resumed s =
     (let s1 = (case (sc_runner s, sc_flight s) of
                  (Some (r, j), Some f) \<Rightarrow> note_event (Runner_Interrupted r) s\<lparr>sc_flight := None\<rparr>
                | _ \<Rightarrow> s)
      in s1\<lparr>sc_activating := sc_activating s1 @ [\<lparr>ac_runner = sc_runners s1, ac_session = i, ac_model = model, ac_resumed = resumed\<rparr>],
            sc_runners := Suc (sc_runners s1), sc_log := sc_log s1 @ [Runner_Created (sc_runners s1) i (sc_overrides s1)]\<rparr>)"

definition start_interactive :: "string \<Rightarrow> 'o option \<Rightarrow> 'o controller \<Rightarrow> 'o controller" where
  "start_interactive i overrides s =
     begin_activation i None False (case overrides of None \<Rightarrow> s | Some ov \<Rightarrow> s\<lparr>sc_overrides := Some ov\<rparr>)"

text \<open>The rest of \<open>activate\<close>, when the runner of the activation is there, and when creating it failed.\<close>

definition finish_activation :: "nat \<Rightarrow> 'o controller \<Rightarrow> 'o controller" where
  "finish_activation n s = (case find (\<lambda>a. ac_runner a = n) (sc_activating s) of
     None \<Rightarrow> s
   | Some a \<Rightarrow> note_event (Session_Event (if ac_resumed a then ''session.resumed'' else ''session.started'') (ac_session a))
       (s\<lparr>sc_activating := filter (\<lambda>a. ac_runner a \<noteq> n) (sc_activating s), sc_runner := Some (n, ac_session a),
          sc_model := ac_model a\<rparr>))"

definition fail_activation :: "nat \<Rightarrow> 'o controller \<Rightarrow> 'o controller" where
  "fail_activation n s = s\<lparr>sc_activating := filter (\<lambda>a. ac_runner a \<noteq> n) (sc_activating s)\<rparr>"

text \<open>\<open>runTurnExclusive\<close>; the run itself starts before anything that waits goes on.\<close>

definition submit_turn :: "ustr \<Rightarrow> string option \<Rightarrow> 'o controller \<Rightarrow> 'o controller" where
  "submit_turn prompt model s =
     (if sc_flight s \<noteq> None then note_event (Turn_Refused ''session_turn_in_progress'') s
      else case sc_runner s of
        None \<Rightarrow> note_event (Turn_Refused ''TypeError'') s
      | Some (r, i) \<Rightarrow>
          let f = sc_flights s; m = (case model of None \<Rightarrow> sc_model s | Some x \<Rightarrow> Some x)
          in note_event (Run_Started f r prompt (truthy m))
               (s\<lparr>sc_flights := Suc f, sc_flight := Some f, sc_running := sc_running s @ [(f, r)]\<rparr>))"

definition settle_flight :: "nat \<Rightarrow> 'o controller \<Rightarrow> 'o controller" where
  "settle_flight f s = s\<lparr>sc_running := filter (\<lambda>(g, r). g \<noteq> f) (sc_running s),
     sc_flight := (if sc_flight s = Some f then None else sc_flight s)\<rparr>"

definition interrupt_turn :: "'o controller \<Rightarrow> 'o controller" where
  "interrupt_turn s = (case sc_runner s of None \<Rightarrow> s | Some (r, i) \<Rightarrow> note_event (Runner_Interrupted r) s)"

definition set_session_model :: "string \<Rightarrow> 'o controller \<Rightarrow> 'o controller" where
  "set_session_model m s = (case sc_runner s of
     None \<Rightarrow> s
   | Some (r, i) \<Rightarrow> note_event (Session_Event ''session.model_changed'' i) (s\<lparr>sc_model := Some m\<rparr>))"

text \<open>\<open>end\<close> up to its first wait, and what it does at the end.\<close>

definition begin_end :: "'o controller \<Rightarrow> 'o controller" where
  "begin_end s = (case sc_runner s of
     None \<Rightarrow> s
   | Some (r, i) \<Rightarrow> note_event (Session_Event ''session.ended'' i) (note_event Shells_Killed (s\<lparr>sc_ending := Suc (sc_ending s)\<rparr>)))"

definition finish_end :: "'o controller \<Rightarrow> 'o controller" where
  "finish_end s = (if sc_ending s = 0 then s
     else s\<lparr>sc_ending := sc_ending s - 1, sc_runner := None, sc_model := None\<rparr>)"

text \<open>\<open>delete\<close> of the active session, up to the end of the session that comes first.\<close>

definition delete_active :: "string \<Rightarrow> 'o controller \<Rightarrow> 'o controller" where
  "delete_active i s = (case sc_runner s of
     None \<Rightarrow> s
   | Some (r, j) \<Rightarrow> if j \<noteq> i then s
       else if sc_flight s \<noteq> None then note_event (Turn_Refused ''session_turn_in_progress'') s
       else begin_end s)"

datatype 'o controller_op =
    Start_Interactive string "'o option"
  | Resume_Interactive string "string option"
  | Activation_Done nat
  | Activation_Failed nat
  | Submit_Turn ustr "string option"
  | Flight_Settled nat
  | Interrupt_Turn
  | Set_Session_Model string
  | Begin_End
  | Finish_End
  | Delete_Active string

fun controller_step :: "'o controller \<Rightarrow> 'o controller_op \<Rightarrow> 'o controller" where
  "controller_step s (Start_Interactive i ov) = start_interactive i ov s"
| "controller_step s (Resume_Interactive i m) = begin_activation i m True s"
| "controller_step s (Activation_Done n) = finish_activation n s"
| "controller_step s (Activation_Failed n) = fail_activation n s"
| "controller_step s (Submit_Turn p m) = submit_turn p m s"
| "controller_step s (Flight_Settled f) = settle_flight f s"
| "controller_step s Interrupt_Turn = interrupt_turn s"
| "controller_step s (Set_Session_Model m) = set_session_model m s"
| "controller_step s Begin_End = begin_end s"
| "controller_step s Finish_End = finish_end s"
| "controller_step s (Delete_Active i) = delete_active i s"

section \<open>One turn at a time\<close>

definition runs_of :: "nat \<Rightarrow> 'o controller \<Rightarrow> nat list" where
  "runs_of r s = map fst (filter (\<lambda>(f, r'). r' = r) (sc_running s))"

text \<open>
  No turn is submitted between the beginning and the end of an activation, and no activation fails: what the
  code relies on when it forgets the turn in flight at the beginning of an activation.
\<close>

fun orderly :: "'o controller \<Rightarrow> 'o controller_op list \<Rightarrow> bool" where
  "orderly s [] = True"
| "orderly s (e # es) = ((case e of Submit_Turn p m \<Rightarrow> sc_activating s = [] | Activation_Failed n \<Rightarrow> False | _ \<Rightarrow> True) \<and>
     orderly (controller_step s e) es)"

definition turns_inv :: "'o controller \<Rightarrow> bool" where
  "turns_inv s \<longleftrightarrow> (\<forall>r. length (runs_of r s) \<le> 1) \<and>
     (\<forall>(f, r) \<in> set (sc_running s). f < sc_flights s \<and> r < sc_runners s \<and> r \<notin> ac_runner ` set (sc_activating s)) \<and>
     (\<forall>a \<in> set (sc_activating s). ac_runner a < sc_runners s) \<and>
     (\<forall>r i. sc_runner s = Some (r, i) \<longrightarrow> r < sc_runners s \<and> r \<notin> ac_runner ` set (sc_activating s)) \<and>
     (sc_activating s = [] \<longrightarrow> (\<forall>r i. sc_runner s = Some (r, i) \<longrightarrow> (\<forall>f. (f, r) \<in> set (sc_running s) \<longrightarrow> sc_flight s = Some f)))"

lemma turns_invD:
  assumes "turns_inv s"
  shows "length (runs_of r s) \<le> 1"
    "(f, r) \<in> set (sc_running s) \<Longrightarrow> f < sc_flights s \<and> r < sc_runners s \<and> r \<notin> ac_runner ` set (sc_activating s)"
    "a \<in> set (sc_activating s) \<Longrightarrow> ac_runner a < sc_runners s"
    "sc_runner s = Some (r, i) \<Longrightarrow> r < sc_runners s \<and> r \<notin> ac_runner ` set (sc_activating s)"
    "sc_activating s = [] \<Longrightarrow> sc_runner s = Some (r, i) \<Longrightarrow> (f, r) \<in> set (sc_running s) \<Longrightarrow> sc_flight s = Some f"
  using assms unfolding turns_inv_def by fast+

lemma note_frame [simp]:
  "sc_runner (note_event e s) = sc_runner s" "sc_running (note_event e s) = sc_running s"
  "sc_flight (note_event e s) = sc_flight s" "sc_activating (note_event e s) = sc_activating s"
  "sc_runners (note_event e s) = sc_runners s" "sc_flights (note_event e s) = sc_flights s"
  by (simp_all add: note_event_def)

lemma turns_inv_cong:
  assumes "turns_inv s" "sc_running s' = sc_running s" "sc_flight s' = sc_flight s" "sc_activating s' = sc_activating s"
    "sc_runners s' = sc_runners s" "sc_flights s' = sc_flights s" "sc_runner s' = sc_runner s \<or> sc_runner s' = None"
  shows "turns_inv s'"
  using assms(7)
proof
  assume "sc_runner s' = sc_runner s"
  then show ?thesis using assms(1) unfolding turns_inv_def runs_of_def assms(2-6) by simp
next
  assume "sc_runner s' = None"
  then show ?thesis using assms(1) unfolding turns_inv_def runs_of_def assms(2-6) by simp
qed

lemma activation_frame:
  "sc_running (begin_activation i m b s) = sc_running s" "sc_runner (begin_activation i m b s) = sc_runner s"
  "sc_flights (begin_activation i m b s) = sc_flights s" "sc_runners (begin_activation i m b s) = Suc (sc_runners s)"
  "sc_activating (begin_activation i m b s) =
     sc_activating s @ [\<lparr>ac_runner = sc_runners s, ac_session = i, ac_model = m, ac_resumed = b\<rparr>]"
  by (simp_all add: begin_activation_def Let_def split: option.split)

lemma activation_inv: "turns_inv s \<Longrightarrow> turns_inv (begin_activation i m b s)"
  unfolding turns_inv_def runs_of_def activation_frame by (fastforce simp: less_Suc_eq)

lemma flight_settle_inv:
  assumes "turns_inv s"
  shows "turns_inv (settle_flight f s)"
proof -
  have "map fst (filter (\<lambda>(g, r'). r' = r) (filter (\<lambda>(g, r). g \<noteq> f) gs)) =
      filter (\<lambda>g. g \<noteq> f) (map fst (filter (\<lambda>(g, r'). r' = r) gs))" for r and gs :: "(nat \<times> nat) list"
    by (induction gs) auto
  then have "runs_of r (settle_flight f s) = filter (\<lambda>g. g \<noteq> f) (runs_of r s)" for r
    by (simp add: runs_of_def settle_flight_def)
  then have "length (runs_of r (settle_flight f s)) \<le> length (runs_of r s)" for r by simp
  then have "length (runs_of r (settle_flight f s)) \<le> 1" for r using turns_invD(1) [OF assms] le_trans by blast
  moreover have "(g, r) \<in> set (sc_running (settle_flight f s)) \<Longrightarrow> (g, r) \<in> set (sc_running s) \<and> g \<noteq> f" for g r
    by (auto simp: settle_flight_def)
  moreover have "sc_runner (settle_flight f s) = sc_runner s" "sc_activating (settle_flight f s) = sc_activating s"
    "sc_flights (settle_flight f s) = sc_flights s" "sc_runners (settle_flight f s) = sc_runners s"
    "sc_flight (settle_flight f s) = (if sc_flight s = Some f then None else sc_flight s)"
    by (simp_all add: settle_flight_def)
  ultimately show ?thesis using turns_invD [OF assms] unfolding turns_inv_def
    by (smt (verit, best) case_prodI2 option.inject)
qed

lemma submit_inv:
  assumes "turns_inv s" "sc_activating s = []"
  shows "turns_inv (submit_turn p m s)"
proof (cases "sc_flight s")
  case None
  show ?thesis
  proof (cases "sc_runner s")
    case (Some q)
    obtain r i where q: "sc_runner s = Some (r, i)" using Some by (cases q) auto
    have none: "(f, r) \<notin> set (sc_running s)" for f using turns_invD(5) [OF assms q] None by auto
    then have "runs_of r s = []" by (auto simp: runs_of_def filter_empty_conv)
    let ?s = "submit_turn p m s"
    have f: "sc_runner ?s = Some (r, i)" "sc_running ?s = sc_running s @ [(sc_flights s, r)]" "sc_activating ?s = []"
      "sc_flights ?s = Suc (sc_flights s)" "sc_runners ?s = sc_runners s" "sc_flight ?s = Some (sc_flights s)"
      using None q assms(2) by (simp_all add: submit_turn_def Let_def)
    have "length (runs_of r' ?s) \<le> 1" for r'
      using turns_invD(1) [OF assms(1), of r'] \<open>runs_of r s = []\<close>
      by (cases "r' = r") (simp_all add: runs_of_def f)
    moreover have "r < sc_runners s" using turns_invD(4) [OF assms(1) q] by simp
    ultimately show ?thesis using turns_invD(2,3) [OF assms(1)] none
      unfolding turns_inv_def f by (auto intro: less_SucI)
  qed (use assms in \<open>auto simp: submit_turn_def None intro: turns_inv_cong\<close>)
qed (use assms in \<open>auto simp: submit_turn_def intro: turns_inv_cong\<close>)

lemma finish_inv:
  assumes "turns_inv s"
  shows "turns_inv (finish_activation n s)"
proof (cases "find (\<lambda>a. ac_runner a = n) (sc_activating s)")
  case (Some a)
  then have a: "a \<in> set (sc_activating s)" "ac_runner a = n" by (auto simp: find_Some_iff)
  let ?s = "finish_activation n s"
  have f: "sc_runner ?s = Some (n, ac_session a)" "sc_running ?s = sc_running s" "sc_flights ?s = sc_flights s"
    "sc_runners ?s = sc_runners s" "sc_activating ?s = filter (\<lambda>a. ac_runner a \<noteq> n) (sc_activating s)"
    by (simp_all add: finish_activation_def Some)
  have "(f, n) \<notin> set (sc_running s)" for f using turns_invD(2) [OF assms, of f n] a by auto
  then show ?thesis using turns_invD(1-3) [OF assms] a
    unfolding turns_inv_def f runs_of_def by (auto simp: image_iff) blast
qed (use assms in \<open>simp add: finish_activation_def\<close>)

lemma step_turns:
  assumes "turns_inv s" "case e of Submit_Turn p m \<Rightarrow> sc_activating s = [] | Activation_Failed n \<Rightarrow> False | _ \<Rightarrow> True"
  shows "turns_inv (controller_step s e)"
proof (cases e)
  case (Start_Interactive i ov)
  have "turns_inv (case ov of None \<Rightarrow> s | Some x \<Rightarrow> s\<lparr>sc_overrides := Some x\<rparr>)"
    using assms(1) by (auto split: option.split intro: turns_inv_cong)
  then show ?thesis using Start_Interactive by (simp add: start_interactive_def activation_inv)
next
  case (Submit_Turn p m)
  then show ?thesis using assms submit_inv by simp
qed (use assms in \<open>auto simp: activation_inv flight_settle_inv finish_inv interrupt_turn_def set_session_model_def begin_end_def
    finish_end_def delete_active_def split: option.split intro: turns_inv_cong\<close>)


section \<open>Concrete runs\<close>


text \<open>
  Without the condition it fails: an activation forgets the turn of the old runner at its beginning, and the
  old runner is active until the new one is there. A turn submitted meanwhile runs beside the forgotten one.
\<close>

lemma submit_during_activation_doubles:
  "runs_of 0 (foldl controller_step new_controller [Start_Interactive ''a'' (None :: unit option), Activation_Done 0,
     Submit_Turn [1] None, Resume_Interactive ''b'' None, Submit_Turn [2] None]) = [0, 1]"
  by code_simp

text \<open>\<open>end\<close> leaves the turn in flight: the next session refuses every turn until the old one settles.\<close>

lemma ended_turn_locks_next_session:
  "last (sc_log (foldl controller_step new_controller [Start_Interactive ''a'' (None :: unit option), Activation_Done 0,
     Submit_Turn [1] None, Begin_End, Finish_End, Start_Interactive ''b'' None, Activation_Done 1, Submit_Turn [2] None])) =
   Turn_Refused ''session_turn_in_progress''"
  by code_simp

text \<open>The constraints of a task run stay for every later session.\<close>

lemma overrides_stay:
  "Runner_Created 1 ''b'' (Some ''budget'') \<in> set (sc_log (foldl controller_step new_controller
     [Start_Interactive ''a'' (Some ''budget''), Activation_Done 0, Begin_End, Finish_End, Start_Interactive ''b'' None]))"
  by code_simp

end
