(* ===== verification/Backup_Store.thy ===== *)
theory Backup_Store
  imports Prelude "HOL-Library.Multiset"
begin

text \<open>
  The backups behind \<open>/undo\<close>: \<open>BackupStore\<close> of \<open>packages/storage/src/index.ts\<close>, for the records of one
  session. Files and backup objects are maps from paths and hashes to bytes; \<open>hash\<close> is SHA-256. The locks
  are those of \<open>File_Lock\<close>, so every operation here is a whole; what happens outside is a change of the files
  between two operations.
\<close>

section \<open>Records and disk\<close>

type_synonym bytes = "nat list"
type_synonym files = "string \<rightharpoonup> bytes"

text \<open>\<open>bk_before\<close> is the hash of the content before, whose object is the backup, when the file existed.\<close>

record backup_record =
  bk_path :: string
  bk_before :: "string option"
  bk_after :: string
  bk_created :: string
  bk_step :: "string option"
  bk_consumed :: "string option"

record disk =
  dk_files :: files
  dk_objects :: "string \<rightharpoonup> bytes"
  dk_records :: "backup_record list option"

definition session_char :: "char \<Rightarrow> bool" where
  "session_char c \<longleftrightarrow> c \<in> set ''ABCDEFGHIJKLMNOPQRSTUVWXYZabcdefghijklmnopqrstuvwxyz0123456789''"

definition backup_session_ok :: "string \<Rightarrow> bool" where
  "backup_session_ok s = (case s of [] \<Rightarrow> False
     | c # cs \<Rightarrow> session_char c \<and> length cs \<le> 127 \<and> list_all (\<lambda>c. session_char c \<or> c = CHR ''_'' \<or> c = CHR ''-'') cs)"

definition session_check :: "string \<Rightarrow> 'a result \<Rightarrow> 'a result" where
  "session_check sid r = (if backup_session_ok sid then r else throw ''storage_session_id_invalid'' ''Invalid session id'')"

fun js_distinct :: "'a list \<Rightarrow> 'a list" where
  "js_distinct [] = []"
| "js_distinct (x # xs) = x # js_distinct (filter (\<lambda>y. y \<noteq> x) xs)"

section \<open>A transaction\<close>

type_synonym capture = "string \<times> string option"

definition capture_path :: "(bytes \<Rightarrow> string) \<Rightarrow> files \<Rightarrow> string \<Rightarrow> capture" where
  "capture_path hash fs p = (p, map_option hash (fs p))"

text \<open>The content is copied to its object unless the object is there already.\<close>

definition keep_object :: "(bytes \<Rightarrow> string) \<Rightarrow> files \<Rightarrow> string \<Rightarrow> (string \<rightharpoonup> bytes) \<Rightarrow> (string \<rightharpoonup> bytes)" where
  "keep_object hash fs p ob = (case fs p of
     None \<Rightarrow> ob
   | Some c \<Rightarrow> if ob (hash c) = None then ob(hash c \<mapsto> c) else ob)"

definition prepare_backup :: "(bytes \<Rightarrow> string) \<Rightarrow> string \<Rightarrow> string list \<Rightarrow> disk \<Rightarrow> (capture list \<times> disk) result" where
  "prepare_backup hash sid paths d = session_check sid (let ps = js_distinct paths
     in Inr (map (capture_path hash (dk_files d)) ps,
             d\<lparr>dk_objects := fold (keep_object hash (dk_files d)) ps (dk_objects d)\<rparr>))"

definition commit_backup ::
  "(bytes \<Rightarrow> string) \<Rightarrow> string \<Rightarrow> string \<Rightarrow> capture list \<Rightarrow> disk \<Rightarrow> disk result" where
  "commit_backup hash created step captures d =
     (if list_ex (\<lambda>(p, h). dk_files d p = None) captures then throw ''ENOENT'' ''commit''
      else Inr (d\<lparr>dk_records := Some (map (\<lambda>(p, h). \<lparr>bk_path = p, bk_before = h,
             bk_after = hash (the (dk_files d p)), bk_created = created, bk_step = Some step, bk_consumed = None\<rparr>) captures
           @ given (dk_records d) [])\<rparr>))"

text \<open>\<open>rollback\<close> goes backwards and stops where an object is missing.\<close>

fun roll_back :: "(string \<rightharpoonup> bytes) \<Rightarrow> capture list \<Rightarrow> files \<Rightarrow> files" where
  "roll_back ob [] fs = fs"
| "roll_back ob ((p, None) # cs) fs = roll_back ob cs (fs(p := None))"
| "roll_back ob ((p, Some h) # cs) fs = (case ob h of None \<Rightarrow> fs | Some c \<Rightarrow> roll_back ob cs (fs(p \<mapsto> c)))"

definition rollback_backup :: "capture list \<Rightarrow> disk \<Rightarrow> disk" where
  "rollback_backup captures d = d\<lparr>dk_files := roll_back (dk_objects d) (rev captures) (dk_files d)\<rparr>"

section \<open>Undo\<close>

definition record_key :: "backup_record \<Rightarrow> string" where
  "record_key r = given (bk_step r) (bk_created r)"

fun steps_from :: "backup_record list \<Rightarrow> string \<Rightarrow> backup_record list \<Rightarrow> backup_record list list" where
  "steps_from current key [] = (if current = [] then [] else [current])"
| "steps_from current key (r # rs) =
     (if current = [] \<or> record_key r = key then steps_from (current @ [r]) (record_key r) rs
      else current # steps_from [r] (record_key r) rs)"

definition undo_steps_of :: "backup_record list \<Rightarrow> backup_record list list" where
  "undo_steps_of rs = steps_from [] [] rs"

datatype undo_warning = Backup_Missing string | Target_Modified string

definition undo_record_key :: "backup_record \<Rightarrow> string \<times> string \<times> string \<times> string" where
  "undo_record_key r = (bk_path r, bk_created r, given (bk_step r) [], given (bk_before r) [])"

definition modified_warning :: "(bytes \<Rightarrow> string) \<Rightarrow> files \<Rightarrow> backup_record \<Rightarrow> undo_warning list" where
  "modified_warning hash fs r = (case fs (bk_path r) of
     None \<Rightarrow> []
   | Some c \<Rightarrow> if hash c \<noteq> bk_after r \<and> Some (hash c) \<noteq> bk_before r then [Target_Modified (bk_path r)] else [])"

definition undo_record ::
  "(bytes \<Rightarrow> string) \<Rightarrow> backup_record \<Rightarrow> disk \<Rightarrow> undo_warning list \<times> disk" where
  "undo_record hash r d = (case bk_before r of
     None \<Rightarrow> ([], d\<lparr>dk_files := (dk_files d)(bk_path r := None)\<rparr>)
   | Some h \<Rightarrow> (case dk_objects d h of
       None \<Rightarrow> (Backup_Missing (bk_path r) # modified_warning hash (dk_files d) r, d)
     | Some c \<Rightarrow> (modified_warning hash (dk_files d) r, d\<lparr>dk_files := (dk_files d)(bk_path r \<mapsto> c)\<rparr>)))"

fun undo_records ::
  "(bytes \<Rightarrow> string) \<Rightarrow> backup_record list \<Rightarrow> disk \<Rightarrow> undo_warning list \<times> disk" where
  "undo_records hash [] d = ([], d)"
| "undo_records hash (r # rs) d =
     (case undo_record hash r d of (ws, d1) \<Rightarrow> (case undo_records hash rs d1 of (ws', d2) \<Rightarrow> (ws @ ws', d2)))"

definition consume :: "string \<Rightarrow> backup_record list \<Rightarrow> backup_record \<Rightarrow> backup_record" where
  "consume time step r = (if bk_consumed r = None \<and> undo_record_key r \<in> set (map undo_record_key step)
     then r\<lparr>bk_consumed := Some time\<rparr> else r)"

definition mark_consumed :: "string \<Rightarrow> backup_record list \<Rightarrow> disk \<Rightarrow> disk" where
  "mark_consumed time step d = d\<lparr>dk_records := map_option (map (consume time step)) (dk_records d)\<rparr>"

record undo_result =
  ur_undone :: bool
  ur_paths :: "string set"
  ur_warnings :: "undo_warning list"

definition nothing_to_undo :: undo_result where
  "nothing_to_undo = \<lparr>ur_undone = False, ur_paths = {}, ur_warnings = []\<rparr>"

definition consume_undo_step :: "(bytes \<Rightarrow> string) \<Rightarrow> string \<Rightarrow> backup_record list \<Rightarrow> disk \<Rightarrow> undo_result \<times> disk" where
  "consume_undo_step hash time step d = (case undo_records hash step d of (ws, d1) \<Rightarrow>
     (\<lparr>ur_undone = True, ur_paths = set (map bk_path step), ur_warnings = ws\<rparr>, mark_consumed time step d1))"

definition fresh_step :: "backup_record list \<Rightarrow> bool" where
  "fresh_step step \<longleftrightarrow> list_all (\<lambda>r. bk_consumed r = None) step"

definition undo_step :: "(bytes \<Rightarrow> string) \<Rightarrow> string \<Rightarrow> string \<Rightarrow> disk \<Rightarrow> (undo_result \<times> disk) result" where
  "undo_step hash sid time d = session_check sid (Inr
     (case find fresh_step (undo_steps_of (given (dk_records d) [])) of
        None \<Rightarrow> (nothing_to_undo, d)
      | Some step \<Rightarrow> consume_undo_step hash time step d))"

definition undo_path :: "(bytes \<Rightarrow> string) \<Rightarrow> string \<Rightarrow> string \<Rightarrow> string \<Rightarrow> disk \<Rightarrow> (undo_result \<times> disk) result" where
  "undo_path hash sid time p d = session_check sid (Inr
     (case find (list_ex (\<lambda>r. bk_path r = p)) (filter fresh_step (undo_steps_of (given (dk_records d) []))) of
        None \<Rightarrow> (nothing_to_undo, d)
      | Some step \<Rightarrow> consume_undo_step hash time step d))"

section \<open>Preview and restoring a session\<close>

definition preview_record :: "(bytes \<Rightarrow> string) \<Rightarrow> disk \<Rightarrow> backup_record \<Rightarrow> undo_warning list" where
  "preview_record hash d r = (case bk_before r of
     None \<Rightarrow> []
   | Some h \<Rightarrow> if dk_objects d h = None then [Backup_Missing (bk_path r)] else modified_warning hash (dk_files d) r)"

record undo_preview =
  up_undoable :: bool
  up_paths :: "string set"
  up_warnings :: "undo_warning list"
  up_remaining :: nat

definition preview_steps :: "(bytes \<Rightarrow> string) \<Rightarrow> disk \<Rightarrow> (backup_record list \<Rightarrow> bool) \<Rightarrow> undo_preview" where
  "preview_steps hash d wanted =
     (let remaining = filter fresh_step (undo_steps_of (given (dk_records d) []))
      in case find wanted remaining of
        None \<Rightarrow> \<lparr>up_undoable = False, up_paths = {}, up_warnings = [], up_remaining = 0\<rparr>
      | Some step \<Rightarrow> \<lparr>up_undoable = True, up_paths = set (map bk_path step),
          up_warnings = concat (map (preview_record hash d) step), up_remaining = length remaining\<rparr>)"

definition preview_undo_step :: "(bytes \<Rightarrow> string) \<Rightarrow> string \<Rightarrow> disk \<Rightarrow> undo_preview result" where
  "preview_undo_step hash sid d = session_check sid (Inr (preview_steps hash d (\<lambda>step. True)))"

definition preview_undo_path :: "(bytes \<Rightarrow> string) \<Rightarrow> string \<Rightarrow> string \<Rightarrow> disk \<Rightarrow> undo_preview result" where
  "preview_undo_path hash sid p d = session_check sid (Inr (preview_steps hash d (list_ex (\<lambda>r. bk_path r = p))))"

definition purge_session :: "disk \<Rightarrow> disk" where
  "purge_session d = d\<lparr>dk_objects := Map.empty, dk_records := None\<rparr>"

text \<open>\<open>gc\<close> over the directories of all sessions, oldest first; it yields the ones that stay.\<close>

record backup_dir =
  bd_session :: string
  bd_modified :: int
  bd_size :: nat

fun sweep :: "int \<Rightarrow> int \<Rightarrow> nat \<Rightarrow> nat \<Rightarrow> backup_dir list \<Rightarrow> backup_dir list" where
  "sweep now retention cap held [] = []"
| "sweep now retention cap held (b # bs) =
     (if now - bd_modified b \<le> retention \<and> held \<le> cap then b # sweep now retention cap held bs
      else sweep now retention cap (held - bd_size b) bs)"

definition gc_backups :: "int \<Rightarrow> int \<Rightarrow> nat \<Rightarrow> backup_dir list \<Rightarrow> backup_dir list" where
  "gc_backups now retention cap bs = sweep now retention cap (sum_list (map bd_size bs)) (sort_key bd_modified bs)"

lemma sweep_keeps:
  "held = kept + sum_list (map bd_size bs) \<Longrightarrow> kept \<le> cap \<Longrightarrow>
     kept + sum_list (map bd_size (sweep now retention cap held bs)) \<le> cap"
proof (induction bs arbitrary: kept held)
  case (Cons b bs)
  show ?case
  proof (cases "now - bd_modified b \<le> retention \<and> held \<le> cap")
    case True
    have "kept + bd_size b \<le> cap" using Cons.prems True by simp
    from Cons.IH [of held "kept + bd_size b", OF _ this] Cons.prems(1) show ?thesis using True by (simp add: algebra_simps)
  next
    case False
    then show ?thesis using Cons.IH [of "held - bd_size b" kept] Cons.prems by auto
  qed
qed simp

text \<open>After a collection the backups fit the cap, and none is older than the retention.\<close>

lemma gc_bounds:
  "sum_list (map bd_size (gc_backups now retention cap bs)) \<le> cap"
  "b \<in> set (gc_backups now retention cap bs) \<Longrightarrow> b \<in> set bs \<and> now - bd_modified b \<le> retention"
proof -
  have "mset (map bd_size (sort_key bd_modified bs)) = mset (map bd_size bs)" by simp
  then have "sum_list (map bd_size bs) = sum_list (map bd_size (sort_key bd_modified bs))" by (metis sum_mset_sum_list)
  then have "sum_list (map bd_size bs) = 0 + sum_list (map bd_size (sort_key bd_modified bs))" by simp
  from sweep_keeps [OF this, of cap now retention]
  show "sum_list (map bd_size (gc_backups now retention cap bs)) \<le> cap" by (simp add: gc_backups_def)
  have "b \<in> set (sweep now retention cap held cs) \<Longrightarrow> b \<in> set cs \<and> now - bd_modified b \<le> retention" for held cs
    by (induction cs arbitrary: held) (auto split: if_splits)
  then show "b \<in> set (gc_backups now retention cap bs) \<Longrightarrow> b \<in> set bs \<and> now - bd_modified b \<le> retention"
    unfolding gc_backups_def by (metis set_sort)
qed

definition latest_record :: "backup_record list \<Rightarrow> string \<Rightarrow> backup_record option" where
  "latest_record rs p = find (\<lambda>r. bk_path r = p) rs"

definition original_record :: "backup_record list \<Rightarrow> string \<Rightarrow> backup_record option" where
  "original_record rs p = find (\<lambda>r. bk_path r = p) (rev rs)"

definition restore_conflict :: "(bytes \<Rightarrow> string) \<Rightarrow> backup_record list \<Rightarrow> files \<Rightarrow> string \<Rightarrow> bool" where
  "restore_conflict hash rs fs p = (case (latest_record rs p, original_record rs p) of
     (Some l, Some i) \<Rightarrow> (case fs p of
         Some c \<Rightarrow> hash c \<noteq> bk_after l \<and> Some (hash c) \<noteq> bk_before i
       | None \<Rightarrow> bk_before i \<noteq> None)
   | _ \<Rightarrow> False)"

record restore_result =
  rr_restored :: "string list"
  rr_conflicts :: "string list"
  rr_missing :: bool

text \<open>A missing object makes the copy fail, and everything is put back.\<close>

fun restore_originals :: "(string \<rightharpoonup> bytes) \<Rightarrow> backup_record list \<Rightarrow> files \<Rightarrow> files result" where
  "restore_originals ob [] fs = Inr fs"
| "restore_originals ob (r # rs) fs = (case bk_before r of
     None \<Rightarrow> restore_originals ob rs (fs(bk_path r := None))
   | Some h \<Rightarrow> (case ob h of
       None \<Rightarrow> throw ''ENOENT'' (bk_path r)
     | Some c \<Rightarrow> restore_originals ob rs (fs(bk_path r \<mapsto> c))))"

definition restore_session :: "(bytes \<Rightarrow> string) \<Rightarrow> string \<Rightarrow> bool \<Rightarrow> disk \<Rightarrow> restore_result result \<times> disk" where
  "restore_session hash sid dry d =
     (if \<not> backup_session_ok sid then (throw ''storage_session_id_invalid'' ''Invalid session id'', d)
      else case dk_records d of
        None \<Rightarrow> (Inr \<lparr>rr_restored = [], rr_conflicts = [], rr_missing = True\<rparr>, d)
      | Some rs \<Rightarrow>
          let ps = js_distinct (map bk_path rs); conflicts = filter (restore_conflict hash rs (dk_files d)) ps;
              ok = Inr \<lparr>rr_restored = ps, rr_conflicts = [], rr_missing = False\<rparr>
          in if conflicts \<noteq> [] then (Inr \<lparr>rr_restored = [], rr_conflicts = conflicts, rr_missing = False\<rparr>, d)
             else if dry then (ok, d)
             else case restore_originals (dk_objects d) (List.map_filter (original_record rs) (rev ps)) (dk_files d) of
               Inl e \<Rightarrow> (Inl e, d)
             | Inr fs \<Rightarrow> (ok, d\<lparr>dk_files := fs\<rparr>))"

section \<open>Steps\<close>

lemma record_key_consume [simp]: "record_key (consume time step r) = record_key r"
  by (simp add: consume_def record_key_def)

lemma steps_from_same_key:
  "cur \<noteq> [] \<Longrightarrow> \<forall>r \<in> set new. record_key r = k \<Longrightarrow> steps_from cur k (new @ old) = steps_from (cur @ new) k old"
  by (induction new arbitrary: cur) auto

lemma undo_steps_append:
  assumes "new \<noteq> []" "\<forall>r \<in> set new. record_key r = k" "\<forall>r \<in> set old. record_key r \<noteq> k"
  shows "undo_steps_of (new @ old) = new # undo_steps_of old"
proof -
  obtain n ns where new: "new = n # ns" using assms(1) by (cases new) auto
  have "undo_steps_of (new @ old) = steps_from [n] k (ns @ old)" using assms(2) by (simp add: undo_steps_of_def new)
  also have "\<dots> = steps_from new k old" using assms(2) steps_from_same_key [of "[n]" ns k old] by (simp add: new)
  also have "\<dots> = new # undo_steps_of old"
    using assms(1,3) by (cases old) (simp_all add: undo_steps_of_def)
  finally show ?thesis .
qed

lemma steps_from_map:
  assumes "\<And>r. record_key (f r) = record_key r"
  shows "steps_from (map f cur) key (map f rs) = map (map f) (steps_from cur key rs)"
proof (induction rs arbitrary: cur key)
  case (Cons r rs)
  have "steps_from (map f cur @ [f r]) k (map f rs) = map (map f) (steps_from (cur @ [r]) k rs)"
    "steps_from [f r] k (map f rs) = map (map f) (steps_from [r] k rs)" for k
    using Cons [of "cur @ [r]" k] Cons [of "[r]" k] by simp_all
  then show ?case by (simp add: assms)
qed simp

lemma undo_steps_map:
  assumes "\<And>r. record_key (f r) = record_key r"
  shows "undo_steps_of (map f rs) = map (map f) (undo_steps_of rs)"
  using steps_from_map [OF assms, of "[]" "[]" rs] by (simp add: undo_steps_of_def)

lemma steps_from_concat: "concat (steps_from cur key rs) = cur @ rs \<and> [] \<notin> set (steps_from cur key rs)"
proof (induction rs arbitrary: cur key)
  case (Cons r rs)
  show ?case using Cons [of "cur @ [r]" "record_key r"] Cons [of "[r]" "record_key r"] by auto
qed simp

definition one_key :: "backup_record list \<Rightarrow> bool" where
  "one_key s \<longleftrightarrow> (\<exists>k. \<forall>r \<in> set s. record_key r = k)"

lemma steps_from_keys:
  "\<forall>r \<in> set cur. record_key r = key \<Longrightarrow> list_all one_key (steps_from cur key rs)"
proof (induction rs arbitrary: cur key)
  case Nil
  then show ?case by (auto simp: one_key_def)
next
  case (Cons r rs)
  show ?case
  proof (cases "cur = [] \<or> record_key r = key")
    case True
    then have "\<forall>q \<in> set (cur @ [r]). record_key q = record_key r" using Cons.prems by auto
    from Cons.IH [OF this] True show ?thesis by simp
  next
    case False
    have "\<forall>q \<in> set [r]. record_key q = record_key r" by simp
    from Cons.IH [OF this] have "list_all one_key (steps_from [r] (record_key r) rs)" .
    moreover have "one_key cur" using Cons.prems by (auto simp: one_key_def)
    ultimately show ?thesis using False by simp
  qed
qed

lemma undo_steps_parts:
  "concat (undo_steps_of rs) = rs"
  "s \<in> set (undo_steps_of rs) \<Longrightarrow> s \<noteq> []"
  using steps_from_concat [of "[]" "[]" rs] by (auto simp: undo_steps_of_def)

lemma undo_steps_key:
  assumes "s \<in> set (undo_steps_of rs)" "r \<in> set s"
  shows "record_key r = record_key (hd s)"
proof -
  have "one_key s" using steps_from_keys [of "[]" "[]" rs] assms(1) by (simp add: undo_steps_of_def list_all_iff)
  then show ?thesis using assms(2) undo_steps_parts(2) [OF assms(1)] unfolding one_key_def by (metis hd_in_set)
qed

section \<open>What undoing leads back to\<close>

definition undo_file :: "(string \<rightharpoonup> bytes) \<Rightarrow> backup_record \<Rightarrow> files \<Rightarrow> files" where
  "undo_file ob r fs = (case bk_before r of
     None \<Rightarrow> fs(bk_path r := None)
   | Some h \<Rightarrow> (case ob h of None \<Rightarrow> fs | Some c \<Rightarrow> fs(bk_path r \<mapsto> c)))"

definition step_files :: "(string \<rightharpoonup> bytes) \<Rightarrow> backup_record list \<Rightarrow> files \<Rightarrow> files" where
  "step_files ob step fs = fold (undo_file ob) step fs"

fun undo_history :: "(string \<rightharpoonup> bytes) \<Rightarrow> files \<Rightarrow> backup_record list list \<Rightarrow> files list" where
  "undo_history ob fs [] = [fs]"
| "undo_history ob fs (s # ss) = fs # undo_history ob (step_files ob s fs) ss"

definition open_steps :: "disk \<Rightarrow> backup_record list list" where
  "open_steps d = filter fresh_step (undo_steps_of (given (dk_records d) []))"

definition history :: "disk \<Rightarrow> files list" where
  "history d = undo_history (dk_objects d) (dk_files d) (open_steps d)"

lemma undo_record_effect:
  "snd (undo_record hash r d) = d\<lparr>dk_files := undo_file (dk_objects d) r (dk_files d)\<rparr>"
  by (simp add: undo_record_def undo_file_def split: option.split)

lemma undo_records_effect:
  "snd (undo_records hash rs d) = d\<lparr>dk_files := step_files (dk_objects d) rs (dk_files d)\<rparr>"
proof (induction rs arbitrary: d)
  case (Cons r rs)
  then show ?case
    using undo_record_effect [of hash r d] by (simp add: case_prod_beta step_files_def)
qed (simp add: step_files_def)

definition backups_ok :: "(bytes \<Rightarrow> string) \<Rightarrow> disk \<Rightarrow> bool" where
  "backups_ok hash d \<longleftrightarrow> (\<forall>h c. dk_objects d h = Some c \<longrightarrow> hash c = h) \<and>
     (\<forall>r \<in> set (given (dk_records d) []). bk_step r \<noteq> None \<and> (\<forall>h. bk_before r = Some h \<longrightarrow> dk_objects d h \<noteq> None)) \<and>
     distinct (map (\<lambda>s. record_key (hd s)) (undo_steps_of (given (dk_records d) [])))"

lemma objects_kept:
  fixes fs :: files and ps :: "string list"
  assumes "\<forall>h c. ob h = Some c \<longrightarrow> hash c = h"
  defines "ob' \<equiv> fold (keep_object hash fs) ps ob"
  shows "\<forall>h c. ob' h = Some c \<longrightarrow> hash c = h" "ob h = Some c \<Longrightarrow> ob' h = Some c"
    "p \<in> set ps \<Longrightarrow> fs p = Some c \<Longrightarrow> ob' (hash c) \<noteq> None"
proof -
  have mono: "ob h = Some c \<Longrightarrow> fold (keep_object hash fs) ps ob h = Some c" for ob h c ps
  proof (induction ps arbitrary: ob)
    case (Cons p ps)
    have "keep_object hash fs p ob h = Some c" using Cons.prems by (auto simp: keep_object_def split: option.split)
    then show ?case using Cons.IH [of "keep_object hash fs p ob"] by simp
  qed simp
  show "\<forall>h c. ob' h = Some c \<longrightarrow> hash c = h" using assms(1) unfolding ob'_def
  proof (induction ps arbitrary: ob)
    case (Cons p ps)
    have "\<forall>h c. keep_object hash fs p ob h = Some c \<longrightarrow> hash c = h"
      using Cons.prems by (auto simp: keep_object_def split: option.split)
    from Cons.IH [OF this] show ?case by simp
  qed simp
  show "ob h = Some c \<Longrightarrow> ob' h = Some c" unfolding ob'_def by (rule mono)
  show "p \<in> set ps \<Longrightarrow> fs p = Some c \<Longrightarrow> ob' (hash c) \<noteq> None" unfolding ob'_def
  proof (induction ps arbitrary: ob)
    case (Cons q ps)
    show ?case
    proof (cases "p = q")
      case True
      then obtain c' where "keep_object hash fs q ob (hash c) = Some c'" using Cons.prems(2)
        by (cases "ob (hash c)") (auto simp: keep_object_def)
      then show ?thesis using mono by simp
    qed (use Cons in simp)
  qed simp
qed

lemma js_distinct_set [simp]: "set (js_distinct xs) = set xs"
proof (induction "length xs" arbitrary: xs rule: less_induct)
  case less
  show ?case
  proof (cases xs)
    case (Cons x ys)
    have "length (filter (\<lambda>y. y \<noteq> x) ys) < length xs" using Cons by (simp add: le_imp_less_Suc)
    from less [OF this] show ?thesis using Cons by auto
  qed simp
qed

text \<open>Undoing what was captured puts the captured files back.\<close>

lemma step_files_captured:
  assumes "\<forall>p \<in> set ps. \<forall>c. fs p = Some c \<longrightarrow> ob (hash c) = Some c"
    "\<forall>r. bk_path (rec r) = fst r \<and> bk_before (rec r) = snd r"
  shows "step_files ob (map rec (map (capture_path hash fs) ps)) fs2 = (\<lambda>p. if p \<in> set ps then fs p else fs2 p)"
  using assms(1)
proof (induction ps arbitrary: fs2)
  case (Cons p ps)
  have "undo_file ob (rec (capture_path hash fs p)) fs2 = fs2(p := fs p)"
    using Cons.prems assms(2) by (cases "fs p") (auto simp: undo_file_def capture_path_def)
  moreover have "step_files ob (map rec (map (capture_path hash fs) ps)) (fs2(p := fs p)) =
      (\<lambda>q. if q \<in> set ps then fs q else (fs2(p := fs p)) q)" using Cons.prems by (intro Cons.IH) simp
  ultimately show ?case by (simp add: step_files_def) auto
qed (simp add: step_files_def)

lemma undo_history_objects:
  assumes "\<forall>s \<in> set steps. \<forall>r \<in> set s. \<forall>h. bk_before r = Some h \<longrightarrow> ob h \<noteq> None"
    "\<And>h c. ob h = Some c \<Longrightarrow> ob' h = Some c"
  shows "undo_history ob' fs steps = undo_history ob fs steps"
  using assms(1)
proof (induction steps arbitrary: fs)
  case (Cons s steps)
  have "step_files ob' s fs = step_files ob s fs" for fs
  proof -
    have "\<forall>r \<in> set s. \<forall>h. bk_before r = Some h \<longrightarrow> ob h \<noteq> None" using Cons.prems by simp
    then show ?thesis
    proof (induction s arbitrary: fs)
      case (Cons r s)
      have "undo_file ob' r fs = undo_file ob r fs"
        using Cons.prems assms(2) by (cases "bk_before r") (auto simp: undo_file_def)
      then show ?case using Cons by (simp add: step_files_def)
    qed (simp add: step_files_def)
  qed
  then show ?case using Cons by simp
qed simp

lemma open_step_records: "s \<in> set (open_steps d) \<Longrightarrow> r \<in> set s \<Longrightarrow> r \<in> set (given (dk_records d) [])"
proof -
  assume "s \<in> set (open_steps d)" "r \<in> set s"
  then have "r \<in> set (concat (undo_steps_of (given (dk_records d) [])))" by (auto simp: open_steps_def)
  then show "r \<in> set (given (dk_records d) [])" by (simp only: undo_steps_parts(1))
qed

lemma commit_history:
  assumes ok: "backups_ok hash d" and inj: "inj hash"
    and prep: "prepare_backup hash sid paths d = Inr (cs, d1)" "paths \<noteq> []"
    and same: "\<forall>p. p \<notin> set paths \<longrightarrow> dk_files d2 p = dk_files d p" "dk_objects d2 = dk_objects d1" "dk_records d2 = dk_records d1"
    and committed: "commit_backup hash created step cs d2 = Inr d3"
    and fresh: "\<forall>r \<in> set (given (dk_records d) []). record_key r \<noteq> step"
  shows "history d3 = dk_files d3 # history d \<and> backups_ok hash d3 \<and> dk_files d3 = dk_files d2"
proof -
  let ?ps = "js_distinct paths" and ?ob = "dk_objects d1"
  have d1: "cs = map (capture_path hash (dk_files d)) ?ps" "dk_records d1 = dk_records d"
    "?ob = fold (keep_object hash (dk_files d)) ?ps (dk_objects d)"
    using prep(1) by (auto simp: prepare_backup_def session_check_def Let_def split: if_splits)
  define rec where "rec = (\<lambda>(p, h). \<lparr>bk_path = p, bk_before = h, bk_after = hash (the (dk_files d2 p)), bk_created = created,
    bk_step = Some step, bk_consumed = None\<rparr>)"
  have d3: "dk_records d3 = Some (map rec cs @ given (dk_records d) [])" "dk_objects d3 = ?ob" "dk_files d3 = dk_files d2"
    using committed same(2,3) d1(2) by (auto simp: commit_backup_def rec_def split: if_splits)
  have okd: "\<forall>h c. dk_objects d h = Some c \<longrightarrow> hash c = h"
    "\<forall>r \<in> set (given (dk_records d) []). bk_step r \<noteq> None \<and> (\<forall>h. bk_before r = Some h \<longrightarrow> dk_objects d h \<noteq> None)"
    "distinct (map (\<lambda>s. record_key (hd s)) (undo_steps_of (given (dk_records d) [])))"
    using ok by (auto simp: backups_ok_def)
  note kept = objects_kept [OF okd(1), where fs = "dk_files d" and ps = ?ps, folded d1(3)]
  have new: "map rec cs \<noteq> []" "\<forall>r \<in> set (map rec cs). record_key r = step" "\<forall>r. bk_path (rec r) = fst r \<and> bk_before (rec r) = snd r"
    using prep(2) by (cases paths; auto simp: d1(1) rec_def record_key_def capture_path_def)+
  have steps: "undo_steps_of (given (dk_records d3) []) = map rec cs # undo_steps_of (given (dk_records d) [])"
    unfolding d3 given_simps by (rule undo_steps_append [OF new(1,2) fresh])
  have "fresh_step (map rec cs)" by (auto simp: fresh_step_def list_all_iff rec_def)
  then have opened: "open_steps d3 = map rec cs # open_steps d" by (simp add: open_steps_def steps)
  have "?ob (hash c) = Some c" if c: "p \<in> set ?ps" "dk_files d p = Some c" for p c
  proof -
    obtain c' where c': "?ob (hash c) = Some c'" using kept(3) [OF c] by blast
    then have "hash c' = hash c" using kept(1) by blast
    then show ?thesis using inj c' by (simp add: inj_eq)
  qed
  then have "step_files ?ob (map rec cs) (dk_files d3) = (\<lambda>p. if p \<in> set ?ps then dk_files d p else dk_files d3 p)"
    unfolding d1(1) using step_files_captured [OF _ new(3)] by blast
  also have "\<dots> = dk_files d" using same(1) by (auto simp: d3(3) fun_eq_iff)
  finally have put_back: "step_files ?ob (map rec cs) (dk_files d3) = dk_files d" .
  have "undo_history ?ob (dk_files d) (open_steps d) = history d"
    unfolding history_def
  proof (rule undo_history_objects)
    show "\<forall>s \<in> set (open_steps d). \<forall>r \<in> set s. \<forall>h. bk_before r = Some h \<longrightarrow> dk_objects d h \<noteq> None"
      using okd(2) open_step_records by blast
  qed (rule kept(2))
  then have hist: "history d3 = dk_files d3 # history d" by (simp add: history_def d3(2) opened put_back)
  have keys: "record_key (hd (map rec cs)) = step" using new(1,2) by (metis list.set_sel(1))
  have "step \<notin> (\<lambda>s. record_key (hd s)) ` set (undo_steps_of (given (dk_records d) []))"
    using fresh undo_steps_parts [where rs = "given (dk_records d) []"] by (auto simp: image_iff) (metis UN_I hd_in_set set_concat)
  then have "distinct (map (\<lambda>s. record_key (hd s)) (undo_steps_of (given (dk_records d3) [])))"
    using okd(3) keys by (simp add: steps)
  moreover have "bk_step r \<noteq> None \<and> (\<forall>h. bk_before r = Some h \<longrightarrow> ?ob h \<noteq> None)" if "r \<in> set (given (dk_records d3) [])" for r
  proof (cases "r \<in> set (map rec cs)")
    case True
    then obtain p where "p \<in> set ?ps" "r = rec (capture_path hash (dk_files d) p)" by (auto simp: d1(1))
    then show ?thesis using kept(3) by (auto simp: rec_def capture_path_def)
  next
    case False
    then have "r \<in> set (given (dk_records d) [])" using that by (simp add: d3(1))
    then show ?thesis using okd(2) kept(2) by (metis not_None_eq)
  qed
  ultimately have "backups_ok hash d3" using kept(1) by (simp add: backups_ok_def d3(2))
  with hist d3(3) show ?thesis by simp
qed

lemma find_filter: "find P xs = (case filter P xs of [] \<Rightarrow> None | x # ys \<Rightarrow> Some x)"
  by (induction xs) auto

lemma consume_other:
  assumes "backups_ok hash d" "s \<in> set (undo_steps_of (given (dk_records d) []))"
    "t \<in> set (undo_steps_of (given (dk_records d) []))" "t \<noteq> s"
  shows "map (consume time s) t = t"
proof -
  let ?rs = "given (dk_records d) []"
  have some: "r \<in> set u \<Longrightarrow> u \<in> set (undo_steps_of ?rs) \<Longrightarrow> bk_step r \<noteq> None" for r u
    using assms(1) undo_steps_parts(1) [of ?rs] unfolding backups_ok_def by (metis UN_I set_concat)
  have "consume time s r = r" if r: "r \<in> set t" for r
  proof (rule ccontr)
    assume "consume time s r \<noteq> r"
    then obtain q where q: "q \<in> set s" "undo_record_key r = undo_record_key q"
      by (auto simp: consume_def split: if_splits)
    obtain x y where "bk_step r = Some x" "bk_step q = Some y" using some [OF r assms(3)] some [OF q(1) assms(2)] by auto
    then have "record_key r = record_key q" using q(2) by (simp add: undo_record_key_def record_key_def)
    then have "record_key (hd t) = record_key (hd s)"
      using undo_steps_key [OF assms(3) r] undo_steps_key [OF assms(2) q(1)] by simp
    then have "t = s" using assms(1-3) unfolding backups_ok_def distinct_map by (auto dest: inj_onD)
    with assms(4) show False ..
  qed
  then show ?thesis by (simp add: map_idI)
qed

lemma consume_opened:
  assumes "backups_ok hash d" "open_steps d = s # ss"
  shows "open_steps (mark_consumed time s d) = ss"
proof -
  let ?rs = "given (dk_records d) []" and ?f = "consume time s"
  have s: "s \<in> set (undo_steps_of ?rs)" "fresh_step s" using assms(2) by (auto simp: open_steps_def filter_eq_Cons_iff)
  have dist: "distinct (undo_steps_of ?rs)" using assms(1) by (simp add: backups_ok_def distinct_map)
  obtain pre post where st: "undo_steps_of ?rs = pre @ s # post" using s(1) by (meson split_list)
  have "s \<notin> set pre" "s \<notin> set post" using dist by (auto simp: st)
  have "filter fresh_step pre = []"
  proof (rule ccontr)
    assume "filter fresh_step pre \<noteq> []"
    then obtain x xs where "filter fresh_step pre = x # xs" by (cases "filter fresh_step pre") auto
    then have "x \<in> set pre" "x = s" using assms(2) by (auto simp: open_steps_def st filter_eq_Cons_iff)
    with \<open>s \<notin> set pre\<close> show False by simp
  qed
  then have ss: "ss = filter fresh_step post" using assms(2) s(2) by (simp add: open_steps_def st)
  have "map ?f t = t" if "t \<in> set pre \<or> t \<in> set post" for t
    using consume_other [OF assms(1) s(1), of t] that \<open>s \<notin> set pre\<close> \<open>s \<notin> set post\<close> by (auto simp: st)
  then have same: "map (map ?f) pre = pre" "map (map ?f) post = post" by (simp_all add: map_idI)
  obtain r where "r \<in> set s" using undo_steps_parts(2) [OF s(1)] by (cases s) auto
  moreover from this have "bk_consumed (?f r) \<noteq> None" by (simp add: consume_def)
  ultimately have "\<not> fresh_step (map ?f s)" by (auto simp: fresh_step_def list_all_iff)
  moreover have "given (map_option (map ?f) (dk_records d)) [] = map ?f ?rs" by (cases "dk_records d") simp_all
  ultimately show ?thesis
    using \<open>filter fresh_step pre = []\<close>
    by (simp add: open_steps_def mark_consumed_def undo_steps_map st same ss)
qed

lemma undo_history_step:
  assumes ok: "backups_ok hash d" and undo: "undo_step hash sid time d = Inr (res, d')"
  shows "(if tl (history d) = [] then d' = d else history d' = tl (history d)) \<and> backups_ok hash d' \<and>
    (ur_undone res \<longleftrightarrow> tl (history d) \<noteq> [])"
proof (cases "open_steps d")
  case Nil
  then have "d' = d" "\<not> ur_undone res" using undo
    by (auto simp: undo_step_def session_check_def find_filter open_steps_def nothing_to_undo_def split: if_splits)
  then show ?thesis using ok Nil by (simp add: history_def)
next
  case (Cons s ss)
  have "find fresh_step (undo_steps_of (given (dk_records d) [])) = Some s"
    using Cons by (simp add: find_filter open_steps_def)
  then have r: "consume_undo_step hash time s d = (res, d')" using undo
    by (auto simp: undo_step_def session_check_def split: if_splits)
  have d': "d' = mark_consumed time s (snd (undo_records hash s d))" "ur_undone res"
    using r by (auto simp: consume_undo_step_def case_prod_beta)
  then have f: "dk_files d' = step_files (dk_objects d) s (dk_files d)" "dk_objects d' = dk_objects d"
    "dk_records d' = map_option (map (consume time s)) (dk_records d)"
    by (simp_all add: undo_records_effect mark_consumed_def)
  have "open_steps d' = open_steps (mark_consumed time s d)" by (simp add: open_steps_def f(3) mark_consumed_def)
  then have "open_steps d' = ss" using consume_opened [OF ok Cons] by simp
  then have h: "history d' = tl (history d)" by (simp add: history_def Cons f)
  have tl: "tl (history d) \<noteq> []" by (cases ss) (simp_all add: history_def Cons)
  have g: "given (dk_records d') [] = map (consume time s) (given (dk_records d) [])"
    unfolding f(3) by (cases "dk_records d") simp_all
  have hd: "record_key (hd (map (consume time s) t)) = record_key (hd t)" if "t \<in> set (undo_steps_of rs)" for t rs
    using undo_steps_parts(2) [OF that] by (cases t) simp_all
  have "map (\<lambda>t. record_key (hd t)) (undo_steps_of (given (dk_records d') [])) =
      map (\<lambda>t. record_key (hd t)) (undo_steps_of (given (dk_records d) []))"
    unfolding g by (simp add: undo_steps_map hd)
  moreover have "bk_step (consume time s r) = bk_step r" "bk_before (consume time s r) = bk_before r" for r
    by (simp_all add: consume_def)
  ultimately have "backups_ok hash d'" using ok unfolding backups_ok_def f(2) by (simp add: g)
  with h tl d'(2) show ?thesis by simp
qed

text \<open>
  \<open>restore\<close> takes the files as they are after an undo for changed from outside: it knows the hash after the
  latest record and the hash before the first, and undoing one of two steps leads to neither.
\<close>

definition demo_hash :: "bytes \<Rightarrow> string" where
  "demo_hash = map char_of"

definition demo_record :: "string \<Rightarrow> string \<Rightarrow> string \<Rightarrow> backup_record" where
  "demo_record before after step = \<lparr>bk_path = ''f'', bk_before = Some before, bk_after = after, bk_created = step,
     bk_step = Some step, bk_consumed = None\<rparr>"

definition demo_disk :: disk where
  "demo_disk = \<lparr>dk_files = [''f'' \<mapsto> [67]], dk_objects = [''A'' \<mapsto> [65], ''B'' \<mapsto> [66]],
     dk_records = Some [demo_record ''B'' ''C'' ''2'', demo_record ''A'' ''B'' ''1'']\<rparr>"

lemma restore_refuses_after_undo:
  "map_sum id rr_conflicts (fst (restore_session demo_hash ''s'' False demo_disk)) = Inr []"
  "case undo_step demo_hash ''s'' ''now'' demo_disk of Inr (res, d) \<Rightarrow> ur_warnings res = [] \<and> dk_files d ''f'' = Some [66] \<and>
     map_sum id rr_conflicts (fst (restore_session demo_hash ''s'' False d)) = Inr [''f''] | Inl e \<Rightarrow> False"
  by code_simp+

text \<open>A file that a step created is removed without a warning, whatever it holds by now.\<close>

lemma undo_removes_changed_creation:
  "undo_record hash \<lparr>bk_path = p, bk_before = None, bk_after = a, bk_created = t, bk_step = k, bk_consumed = None\<rparr> d =
     ([], d\<lparr>dk_files := (dk_files d)(p := None)\<rparr>)"
  by (simp add: undo_record_def)

end
