(* ===== verification/File_Tools.thy ===== *)
theory File_Tools
  imports Backup_Store Js_Path Utf8 "HOL-Library.List_Lexorder"
begin

text \<open>
  The tools that read and change files: \<open>Read\<close>, \<open>Write\<close>, \<open>Edit\<close> and \<open>MultiEdit\<close> of
  \<open>packages/tools/src/index.ts\<close>, with \<open>mutateFiles\<close>, its two kinds of transaction and the read tracking. The
  record \<open>tool_env\<close> is what the code takes from outside: the hash, the real paths of directories, which paths are
  links, and which writes fail. Files are bytes; a tool works on their UTF-8 text.
\<close>

section \<open>Texts\<close>

function split_scan :: "ustr \<Rightarrow> ustr \<Rightarrow> ustr \<Rightarrow> ustr list" where
  "split_scan sep acc s =
     (if s = [] then [acc]
      else if sep \<noteq> [] \<and> starts_with s sep then acc # split_scan sep [] (drop (length sep) s)
      else split_scan sep (acc @ [hd s]) (tl s))"
  by pat_completeness auto
termination
  by (relation "measure (\<lambda>(sep, acc, s). length s)") (auto simp: length_greater_0_conv)

declare split_scan.simps [simp del]

text \<open>\<open>split\<close> with a text; without one it gives the single units.\<close>

definition js_split :: "ustr \<Rightarrow> ustr \<Rightarrow> ustr list" where
  "js_split sep s = (if sep = [] then map (\<lambda>c. [c]) s else split_scan sep [] s)"

definition match_count :: "ustr \<Rightarrow> ustr \<Rightarrow> int" where
  "match_count old s = int (length (js_split old s)) - 1"

text \<open>\<open>replace\<close> with texts: the first match, and dollar signs in the replacement have a meaning.\<close>

fun expand_template :: "ustr \<Rightarrow> ustr \<Rightarrow> ustr \<Rightarrow> ustr \<Rightarrow> ustr" where
  "expand_template pre old suf [] = []"
| "expand_template pre old suf [c] = [c]"
| "expand_template pre old suf (c # d # r) =
     (if c \<noteq> 36 then c # expand_template pre old suf (d # r)
      else if d = 36 then 36 # expand_template pre old suf r
      else if d = 38 then old @ expand_template pre old suf r
      else if d = 96 then pre @ expand_template pre old suf r
      else if d = 39 then suf @ expand_template pre old suf r
      else 36 # expand_template pre old suf (d # r))"

fun find_at :: "ustr \<Rightarrow> ustr \<Rightarrow> ustr \<Rightarrow> (ustr \<times> ustr) option" where
  "find_at old pre s = (if starts_with s old then Some (pre, drop (length old) s)
     else case s of [] \<Rightarrow> None | c # cs \<Rightarrow> find_at old (pre @ [c]) cs)"

declare find_at.simps [simp del]

definition js_replace :: "ustr \<Rightarrow> ustr \<Rightarrow> ustr \<Rightarrow> ustr" where
  "js_replace old new s = (case find_at old [] s of
     None \<Rightarrow> s | Some (pre, suf) \<Rightarrow> pre @ expand_template pre old suf new @ suf)"

definition edit_content :: "string \<Rightarrow> ustr \<Rightarrow> ustr \<Rightarrow> bool \<Rightarrow> ustr \<Rightarrow> ustr result" where
  "edit_content path old new all s =
     (let n = match_count old s
      in if n = 0 then throw ''tool_edit_not_found'' path
         else if n > 1 \<and> \<not> all then throw ''tool_edit_ambiguous'' path
         else Inr (if all then join new (js_split old s) else js_replace old new s))"

text \<open>\<open>diffLineCounts\<close>.\<close>

definition line_delta :: "int \<Rightarrow> ustr \<Rightarrow> (ustr, int) jsmap \<Rightarrow> (ustr, int) jsmap" where
  "line_delta d l m = map_set l (given (map_get m l) 0 + d) m"

definition line_counts :: "ustr \<Rightarrow> ustr \<Rightarrow> (ustr, int) jsmap" where
  "line_counts before after = fold (line_delta 1) (split_on 10 after) (fold (line_delta (-1)) (split_on 10 before) [])"

definition diff_line_counts :: "ustr \<Rightarrow> ustr \<Rightarrow> int \<times> int" where
  "diff_line_counts before after =
     (if before = after then (0, 0)
      else fold (\<lambda>(l, d) (added, removed). if d > 0 then (added + d, removed) else (added, removed - d))
             (line_counts before after) (0, 0))"

section \<open>What was read\<close>

definition max_tracked_sessions :: nat where
  "max_tracked_sessions = 1024"

type_synonym read_hashes = "(string, (string, string) jsmap) jsmap"

definition record_session_read :: "string \<Rightarrow> string \<Rightarrow> string \<Rightarrow> read_hashes \<Rightarrow> read_hashes" where
  "record_session_read sid path h rd = (case map_get rd sid of
     Some m \<Rightarrow> map_set sid (map_set path h m) rd
   | None \<Rightarrow> (let rd1 = rd @ [(sid, [(path, h)])] in if length rd1 > max_tracked_sessions then tl rd1 else rd1))"

definition session_read_hash :: "string \<Rightarrow> string \<Rightarrow> read_hashes \<Rightarrow> string option" where
  "session_read_hash sid path rd = Option.bind (map_get rd sid) (\<lambda>m. map_get m path)"

section \<open>Paths\<close>

record tool_env =
  te_hash :: "bytes \<Rightarrow> string"
  te_here :: string
  te_real :: "string \<Rightarrow> string option"
  te_link :: "string \<Rightarrow> bool"
  te_fault :: "string \<Rightarrow> bool"

definition path_in_cwd :: "tool_env \<Rightarrow> string \<Rightarrow> string \<Rightarrow> string result" where
  "path_in_cwd env cwd input =
     (let path = resolve_parts (te_here env) cwd input
      in if starts_with (path_relative (resolve_parts (te_here env) [] cwd) path) ''..''
         then throw ''tool_path_escape'' ''Path escapes working directory''
         else Inr (render_path path))"

definition real_path :: "tool_env \<Rightarrow> string \<Rightarrow> string result" where
  "real_path env p = (case te_real env p of None \<Rightarrow> throw ''ENOENT'' p | Some q \<Rightarrow> Inr q)"

definition safe_mutation_path :: "tool_env \<Rightarrow> string \<Rightarrow> string \<Rightarrow> string result" where
  "safe_mutation_path env cwd input =
     bind_result (path_in_cwd env cwd input) (\<lambda>path.
     bind_result (real_path env cwd) (\<lambda>root.
     bind_result (real_path env (path_resolve (te_here env) path ''..'')) (\<lambda>parent.
       if starts_with (path_relative (resolve_parts (te_here env) [] root) (resolve_parts (te_here env) [] parent)) ''..''
       then throw ''tool_path_escape'' ''Path escapes working directory through a symlink''
       else if te_link env path then throw ''tool_symlink_rejected'' ''Refusing to mutate a symbolic link''
       else Inr path)))"

section \<open>Changing files\<close>

record file_update =
  fu_path :: string
  fu_content :: bytes
  fu_expect :: "string option"

record mutation =
  mu_root :: string
  mu_created :: string
  mu_step :: string
  mu_backups :: bool

datatype transaction = Backup_Transaction "capture list" | Snapshots "(string \<times> bytes option) list"

definition prepare_transaction :: "tool_env \<Rightarrow> mutation \<Rightarrow> string list \<Rightarrow> disk \<Rightarrow> (transaction \<times> disk) result" where
  "prepare_transaction env mu paths d =
     (if mu_backups mu
      then bind_result (prepare_backup (te_hash env) (mu_root mu) paths d) (\<lambda>(cs, d1). Inr (Backup_Transaction cs, d1))
      else Inr (Snapshots (map (\<lambda>p. (p, dk_files d p)) paths), d))"

definition roll_back_transaction :: "transaction \<Rightarrow> disk \<Rightarrow> disk" where
  "roll_back_transaction tx d = (case tx of
     Backup_Transaction cs \<Rightarrow> rollback_backup cs d
   | Snapshots ss \<Rightarrow> d\<lparr>dk_files := fold (\<lambda>(p, c) fs. fs(p := c)) (rev ss) (dk_files d)\<rparr>)"

definition commit_transaction :: "tool_env \<Rightarrow> mutation \<Rightarrow> transaction \<Rightarrow> disk \<Rightarrow> disk result" where
  "commit_transaction env mu tx d = (case tx of
     Backup_Transaction cs \<Rightarrow> commit_backup (te_hash env) (mu_created mu) (mu_step mu) cs d
   | Snapshots ss \<Rightarrow> Inr d)"

text \<open>The checks and writes under the locks, once the transaction is prepared.\<close>

fun check_expected :: "tool_env \<Rightarrow> file_update list \<Rightarrow> files \<Rightarrow> unit result" where
  "check_expected env [] fs = Inr ()"
| "check_expected env (u # us) fs = (case fu_expect u of
     None \<Rightarrow> check_expected env us fs
   | Some h \<Rightarrow> (case fs (fu_path u) of
       None \<Rightarrow> throw ''ENOENT'' (fu_path u)
     | Some c \<Rightarrow> if te_hash env c \<noteq> h then throw ''tool_file_changed_since_read'' (fu_path u)
         else check_expected env us fs))"

fun write_updates :: "tool_env \<Rightarrow> file_update list \<Rightarrow> files \<Rightarrow> unit result \<times> files" where
  "write_updates env [] fs = (Inr (), fs)"
| "write_updates env (u # us) fs =
     (if te_fault env (fu_path u) then (throw ''EIO'' (fu_path u), fs)
      else write_updates env us (fs(fu_path u \<mapsto> fu_content u)))"

fun verify_updates :: "tool_env \<Rightarrow> file_update list \<Rightarrow> files \<Rightarrow> unit result" where
  "verify_updates env [] fs = Inr ()"
| "verify_updates env (u # us) fs = (case fs (fu_path u) of
     None \<Rightarrow> throw ''ENOENT'' (fu_path u)
   | Some c \<Rightarrow> if te_hash env c \<noteq> te_hash env (fu_content u) then throw ''tool_file_changed_after_write'' (fu_path u)
       else verify_updates env us fs)"

definition transact :: "tool_env \<Rightarrow> mutation \<Rightarrow> transaction \<Rightarrow> file_update list \<Rightarrow> disk \<Rightarrow> disk result \<times> disk" where
  "transact env mu tx us d = (case check_expected env us (dk_files d) of
     Inl e \<Rightarrow> (Inl e, d)
   | Inr _ \<Rightarrow> (case write_updates env us (dk_files d) of
       (Inl e, fs) \<Rightarrow> (Inl e, d\<lparr>dk_files := fs\<rparr>)
     | (Inr _, fs) \<Rightarrow> (case verify_updates env us fs of
         Inl e \<Rightarrow> (Inl e, d\<lparr>dk_files := fs\<rparr>)
       | Inr _ \<Rightarrow> (commit_transaction env mu tx (d\<lparr>dk_files := fs\<rparr>), d\<lparr>dk_files := fs\<rparr>))))"

definition sorted_paths :: "file_update list \<Rightarrow> string list" where
  "sorted_paths us = sort_key ascii (js_distinct (map fu_path us))"

definition mutate_files ::
  "tool_env \<Rightarrow> mutation \<Rightarrow> (files \<Rightarrow> unit result) \<Rightarrow> file_update list \<Rightarrow> disk \<Rightarrow> unit result \<times> disk" where
  "mutate_files env mu guard us d = (case guard (dk_files d) of
     Inl e \<Rightarrow> (Inl e, d)
   | Inr _ \<Rightarrow> (case prepare_transaction env mu (sorted_paths us) d of
       Inl e \<Rightarrow> (Inl e, d)
     | Inr (tx, d1) \<Rightarrow> (case transact env mu tx us d1 of
         (Inl e, d2) \<Rightarrow> (Inl e, roll_back_transaction tx d2)
       | (Inr d3, d2) \<Rightarrow> (Inr (), d3))))"

section \<open>The tools\<close>

text \<open>\<open>tc_root\<close> is the session at the root of the lineage, under which backups are kept.\<close>

record tool_call =
  tc_session :: string
  tc_root :: "string option"
  tc_cwd :: string
  tc_backups :: bool
  tc_created :: string
  tc_step :: string

record tool_world =
  tw_disk :: disk
  tw_reads :: read_hashes

record tool_report =
  tp_text :: ustr
  tp_touched :: "string list"
  tp_bytes :: nat
  tp_lines :: "int \<times> int"

definition call_mutation :: "tool_call \<Rightarrow> mutation" where
  "call_mutation c = \<lparr>mu_root = given (tc_root c) (tc_session c), mu_created = tc_created c, mu_step = tc_step c,
     mu_backups = tc_backups c\<rparr>"

definition read_file :: "files \<Rightarrow> string \<Rightarrow> bytes result" where
  "read_file fs p = (case fs p of None \<Rightarrow> throw ''ENOENT'' p | Some c \<Rightarrow> Inr c)"

definition default_read_limit :: nat where
  "default_read_limit = 2000"

definition read_tool ::
  "tool_env \<Rightarrow> tool_call \<Rightarrow> string \<Rightarrow> nat option \<Rightarrow> nat option \<Rightarrow> tool_world \<Rightarrow> tool_report result \<times> tool_world" where
  "read_tool env c path offset limit w =
     (case bind_result (path_in_cwd env (tc_cwd c) path) (\<lambda>p.
             bind_result (read_file (dk_files (tw_disk w)) p) (\<lambda>bs. Inr (p, bs))) of
        Inl e \<Rightarrow> (Inl e, w)
      | Inr (p, bs) \<Rightarrow>
          (Inr \<lparr>tp_text = join [10] (take (given limit default_read_limit) (drop (given offset 0) (split_on 10 (decode_utf8 bs)))),
             tp_touched = [], tp_bytes = length bs, tp_lines = (0, 0)\<rparr>,
           w\<lparr>tw_reads := record_session_read (tc_session c) p (te_hash env bs) (tw_reads w)\<rparr>))"

text \<open>The gate of \<open>Write\<close>, which runs under the locks.\<close>

definition write_guard ::
  "tool_env \<Rightarrow> bool \<Rightarrow> string option \<Rightarrow> string option \<Rightarrow> string \<Rightarrow> files \<Rightarrow> unit result" where
  "write_guard env force expect tracked p fs =
     (if force then Inr ()
      else case fs p of
        None \<Rightarrow> Inr ()
      | Some bs \<Rightarrow> (case (case expect of Some h \<Rightarrow> Some h | None \<Rightarrow> tracked) of
          None \<Rightarrow> throw ''tool_file_not_read'' p
        | Some h \<Rightarrow> if te_hash env bs \<noteq> h then throw ''tool_file_changed_since_read'' p else Inr ()))"

definition write_tool ::
  "tool_env \<Rightarrow> tool_call \<Rightarrow> string \<Rightarrow> ustr \<Rightarrow> string option \<Rightarrow> bool \<Rightarrow> tool_world \<Rightarrow> tool_report result \<times> tool_world" where
  "write_tool env c path content expect force w =
     (case safe_mutation_path env (tc_cwd c) path of
        Inl e \<Rightarrow> (Inl e, w)
      | Inr p \<Rightarrow>
          let before = (case dk_files (tw_disk w) p of None \<Rightarrow> [] | Some bs \<Rightarrow> decode_utf8 bs); bs = utf8 content
          in case mutate_files env (call_mutation c)
                    (write_guard env force expect (session_read_hash (tc_session c) p (tw_reads w)) p)
                    [\<lparr>fu_path = p, fu_content = bs, fu_expect = None\<rparr>] (tw_disk w) of
            (Inl e, d) \<Rightarrow> (Inl e, w\<lparr>tw_disk := d\<rparr>)
          | (Inr _, d) \<Rightarrow>
              (Inr \<lparr>tp_text = ascii (if force then ''File written (force: lost-update protection bypassed)'' else ''File written''),
                 tp_touched = [p], tp_bytes = length bs, tp_lines = diff_line_counts before content\<rparr>,
               w\<lparr>tw_disk := d, tw_reads := record_session_read (tc_session c) p (te_hash env bs) (tw_reads w)\<rparr>))"

definition edit_tool ::
  "tool_env \<Rightarrow> tool_call \<Rightarrow> string \<Rightarrow> ustr \<Rightarrow> ustr \<Rightarrow> bool \<Rightarrow> tool_world \<Rightarrow> tool_report result \<times> tool_world" where
  "edit_tool env c path old new all w =
     (if new = old then (throw ''tool_edit_no_op'' path, w)
      else case bind_result (safe_mutation_path env (tc_cwd c) path) (\<lambda>p.
                  bind_result (read_file (dk_files (tw_disk w)) p) (\<lambda>bs.
                  bind_result (edit_content p old new all (decode_utf8 bs)) (\<lambda>s. Inr (p, bs, s)))) of
        Inl e \<Rightarrow> (Inl e, w)
      | Inr (p, bs, s) \<Rightarrow>
          (case mutate_files env (call_mutation c) (\<lambda>_. Inr ())
                  [\<lparr>fu_path = p, fu_content = utf8 s, fu_expect = Some (te_hash env bs)\<rparr>] (tw_disk w) of
             (Inl e, d) \<Rightarrow> (Inl e, w\<lparr>tw_disk := d\<rparr>)
           | (Inr _, d) \<Rightarrow>
               (Inr \<lparr>tp_text = ascii ''File edited'', tp_touched = [p], tp_bytes = length (utf8 s),
                  tp_lines = diff_line_counts (decode_utf8 bs) s\<rparr>,
                w\<lparr>tw_disk := d, tw_reads := record_session_read (tc_session c) p (te_hash env (utf8 s)) (tw_reads w)\<rparr>)))"

text \<open>\<open>MultiEdit\<close>: the edits of a file one after the other, each unambiguous in what the earlier ones left.\<close>

record file_edit =
  fe_path :: string
  fe_old :: ustr
  fe_new :: ustr

fun apply_edits :: "string \<Rightarrow> file_edit list \<Rightarrow> ustr \<Rightarrow> ustr result" where
  "apply_edits p [] s = Inr s"
| "apply_edits p (e # es) s =
     (if fe_new e = fe_old e then throw ''tool_edit_no_op'' p
      else bind_result (edit_content p (fe_old e) (fe_new e) False s) (apply_edits p es))"

fun group_edits :: "tool_env \<Rightarrow> string \<Rightarrow> file_edit list \<Rightarrow> (string, file_edit list) jsmap \<Rightarrow>
  (string, file_edit list) jsmap result" where
  "group_edits env cwd [] g = Inr g"
| "group_edits env cwd (e # es) g =
     bind_result (safe_mutation_path env cwd (fe_path e)) (\<lambda>p.
       group_edits env cwd es (map_set p (given (map_get g p) [] @ [e]) g))"

fun edited_files :: "tool_env \<Rightarrow> files \<Rightarrow> (string, file_edit list) jsmap \<Rightarrow> (string \<times> bytes \<times> ustr) list result" where
  "edited_files env fs [] = Inr []"
| "edited_files env fs ((p, es) # g) =
     bind_result (read_file fs p) (\<lambda>bs.
     bind_result (apply_edits p es (decode_utf8 bs)) (\<lambda>s.
     bind_result (edited_files env fs g) (\<lambda>us. Inr ((p, bs, s) # us))))"

definition multi_edit_tool :: "tool_env \<Rightarrow> tool_call \<Rightarrow> file_edit list \<Rightarrow> tool_world \<Rightarrow> tool_report result \<times> tool_world" where
  "multi_edit_tool env c edits w =
     (case bind_result (group_edits env (tc_cwd c) edits []) (edited_files env (dk_files (tw_disk w))) of
        Inl e \<Rightarrow> (Inl e, w)
      | Inr us \<Rightarrow>
          (case mutate_files env (call_mutation c) (\<lambda>_. Inr ())
                  (map (\<lambda>(p, bs, s). \<lparr>fu_path = p, fu_content = utf8 s, fu_expect = Some (te_hash env bs)\<rparr>) us) (tw_disk w) of
             (Inl e, d) \<Rightarrow> (Inl e, w\<lparr>tw_disk := d\<rparr>)
           | (Inr _, d) \<Rightarrow>
               (Inr \<lparr>tp_text = ascii (''Edited '' @ show_nat (length us) @ '' file(s)''), tp_touched = map fst us,
                  tp_bytes = sum_list (map (\<lambda>(p, bs, s). length (utf8 s)) us),
                  tp_lines = (sum_list (map (\<lambda>(p, bs, s). fst (diff_line_counts (decode_utf8 bs) s)) us),
                              sum_list (map (\<lambda>(p, bs, s). snd (diff_line_counts (decode_utf8 bs) s)) us))\<rparr>,
                w\<lparr>tw_disk := d,
                  tw_reads := fold (\<lambda>(p, bs, s). record_session_read (tc_session c) p (te_hash env (utf8 s))) us (tw_reads w)\<rparr>)))"

end
