(* ===== verification/File_Tools_Claims.thy ===== *)
theory File_Tools_Claims
  imports File_Tools "HOL-Library.Multiset"
begin

text \<open>
  What the file tools guarantee: a failed tool leaves every file as it was, an edit changes exactly one place,
  a file is overwritten only with knowledge of its content, and undo is a stack of file systems.
\<close>

section \<open>Rolling back\<close>

lemma write_updates_frame:
  "write_updates env us fs = (r, fs') \<Longrightarrow> p \<notin> fu_path ` set us \<Longrightarrow> fs' p = fs p"
proof (induction us arbitrary: fs)
  case (Cons u us)
  show ?case
  proof (cases "te_fault env (fu_path u)")
    case False
    then have "write_updates env us (fs(fu_path u \<mapsto> fu_content u)) = (r, fs')" using Cons.prems(1) by simp
    from Cons.IH [OF this] Cons.prems(2) show ?thesis by simp
  qed (use Cons.prems in simp)
qed simp

lemma transact_frame:
  assumes "transact env mu tx us d = (r, d')"
  shows "dk_objects d' = dk_objects d" "dk_records d' = dk_records d"
    "p \<notin> fu_path ` set us \<Longrightarrow> dk_files d' p = dk_files d p"
proof -
  obtain r' fs where w: "write_updates env us (dk_files d) = (r', fs)" by fastforce
  have "d' = d \<or> d' = d\<lparr>dk_files := fs\<rparr>" using assms
    by (auto simp: transact_def w split: sum.splits)
  then show "dk_objects d' = dk_objects d" "dk_records d' = dk_records d"
    "p \<notin> fu_path ` set us \<Longrightarrow> dk_files d' p = dk_files d p"
    using write_updates_frame [OF w] by auto
qed

lemma sorted_paths_set [simp]: "set (sorted_paths us) = fu_path ` set us"
  by (simp add: sorted_paths_def)

lemma roll_back_captured:
  assumes "\<forall>p \<in> set ps. \<forall>c. fs p = Some c \<longrightarrow> ob (hash c) = Some c"
  shows "roll_back ob (map (capture_path hash fs) ps) fs2 = (\<lambda>p. if p \<in> set ps then fs p else fs2 p)"
  using assms
proof (induction ps arbitrary: fs2)
  case (Cons p ps)
  have "roll_back ob (capture_path hash fs p # map (capture_path hash fs) ps) fs2 =
      roll_back ob (map (capture_path hash fs) ps) (fs2(p := fs p))"
    using Cons.prems by (cases "fs p") (simp_all add: capture_path_def)
  also have "\<dots> = (\<lambda>q. if q \<in> set ps then fs q else (fs2(p := fs p)) q)" using Cons.prems by (intro Cons.IH) simp
  finally show ?case by auto
qed simp

lemma restore_snapshots:
  "fold (\<lambda>(p, c) g. g(p := c)) (map (\<lambda>p. (p, fs p)) ps) fs2 = (\<lambda>p. if p \<in> set ps then fs p else fs2 p)"
  for fs :: files
  by (induction ps arbitrary: fs2) auto

definition backed_up :: "tool_env \<Rightarrow> disk \<Rightarrow> bool" where
  "backed_up env d \<longleftrightarrow> backups_ok (te_hash env) d \<and> inj (te_hash env)"

lemma prepared_objects:
  assumes "backed_up env d" "prepare_backup (te_hash env) sid paths d = Inr (cs, d1)"
  shows "cs = map (capture_path (te_hash env) (dk_files d)) (js_distinct paths)" "dk_files d1 = dk_files d"
    "dk_records d1 = dk_records d" "dk_objects d h = Some c \<Longrightarrow> dk_objects d1 h = Some c"
    "p \<in> set paths \<Longrightarrow> dk_files d p = Some c \<Longrightarrow> dk_objects d1 (te_hash env c) = Some c"
    "\<forall>h c. dk_objects d1 h = Some c \<longrightarrow> te_hash env c = h"
proof -
  let ?ps = "js_distinct paths"
  show d1: "cs = map (capture_path (te_hash env) (dk_files d)) ?ps" "dk_files d1 = dk_files d" "dk_records d1 = dk_records d"
    using assms(2) by (auto simp: prepare_backup_def session_check_def Let_def split: if_splits)
  have ob: "dk_objects d1 = fold (keep_object (te_hash env) (dk_files d)) ?ps (dk_objects d)"
    using assms(2) by (auto simp: prepare_backup_def session_check_def Let_def split: if_splits)
  have "\<forall>h c. dk_objects d h = Some c \<longrightarrow> te_hash env c = h" using assms(1) by (auto simp: backed_up_def backups_ok_def)
  note kept = objects_kept [OF this, where fs = "dk_files d" and ps = ?ps, folded ob]
  show "dk_objects d h = Some c \<Longrightarrow> dk_objects d1 h = Some c" by (rule kept(2))
  show "\<forall>h c. dk_objects d1 h = Some c \<longrightarrow> te_hash env c = h" by (rule kept(1))
  show "dk_objects d1 (te_hash env c) = Some c" if c: "p \<in> set paths" "dk_files d p = Some c"
  proof -
    obtain c' where c': "dk_objects d1 (te_hash env c) = Some c'" using kept(3) [of p c] c by auto
    then have "te_hash env c' = te_hash env c" using kept(1) by blast
    then show ?thesis using assms(1) c' by (simp add: backed_up_def inj_eq)
  qed
qed

lemma failed_mutation:
  assumes "mutate_files env mu guard us d = (Inl e, d')" "mu_backups mu \<Longrightarrow> backed_up env d"
  shows "dk_files d' = dk_files d" "dk_records d' = dk_records d" "dk_objects d h = Some c \<Longrightarrow> dk_objects d' h = Some c"
    "\<forall>h c. dk_objects d h = Some c \<longrightarrow> te_hash env c = h \<Longrightarrow> \<forall>h c. dk_objects d' h = Some c \<longrightarrow> te_hash env c = h"
proof -
  consider (same) "d' = d"
    | (rolled) tx d1 d2 where "prepare_transaction env mu (sorted_paths us) d = Inr (tx, d1)"
        "transact env mu tx us d1 = (Inl e, d2)" "d' = roll_back_transaction tx d2"
    using assms(1) by (auto simp: mutate_files_def split: sum.splits prod.splits)
  then have "dk_files d' = dk_files d \<and> dk_records d' = dk_records d \<and> (dk_objects d h = Some c \<longrightarrow> dk_objects d' h = Some c) \<and>
      ((\<forall>h c. dk_objects d h = Some c \<longrightarrow> te_hash env c = h) \<longrightarrow> (\<forall>h c. dk_objects d' h = Some c \<longrightarrow> te_hash env c = h))"
  proof cases
    case rolled
    note fr = transact_frame [OF rolled(2)]
    show ?thesis
    proof (cases "mu_backups mu")
      case True
      obtain cs where cs: "prepare_backup (te_hash env) (mu_root mu) (sorted_paths us) d = Inr (cs, d1)" "tx = Backup_Transaction cs"
        using rolled(1) True by (auto simp: prepare_transaction_def bind_result_def split: sum.splits)
      note po = prepared_objects [OF assms(2) [OF True] cs(1)]
      have "rev cs = map (capture_path (te_hash env) (dk_files d)) (rev (js_distinct (sorted_paths us)))" by (simp add: po(1) rev_map)
      then have "roll_back (dk_objects d2) (rev cs) (dk_files d2) =
          (\<lambda>p. if p \<in> set (rev (js_distinct (sorted_paths us))) then dk_files d p else dk_files d2 p)"
        using roll_back_captured [of "rev (js_distinct (sorted_paths us))" "dk_files d" "dk_objects d2" "te_hash env" "dk_files d2"]
          po(5) fr(1) by simp
      also have "\<dots> = dk_files d" using fr(3) po(2) by (auto simp: fun_eq_iff)
      finally have "dk_files d' = dk_files d" by (simp add: rolled(3) cs(2) roll_back_transaction_def rollback_backup_def)
      then show ?thesis using po(3,4,6) fr(1,2) by (simp add: rolled(3) cs(2) roll_back_transaction_def rollback_backup_def)
    next
      case False
      then have s: "tx = Snapshots (map (\<lambda>p. (p, dk_files d p)) (sorted_paths us))" "d1 = d"
        using rolled(1) by (auto simp: prepare_transaction_def)
      have "fold (\<lambda>(p, c) g. g(p := c)) (rev (map (\<lambda>p. (p, dk_files d p)) (sorted_paths us))) (dk_files d2) =
          (\<lambda>p. if p \<in> set (rev (sorted_paths us)) then dk_files d p else dk_files d2 p)"
        unfolding rev_map by (rule restore_snapshots)
      also have "\<dots> = dk_files d" using fr(3) s(2) by (auto simp: fun_eq_iff)
      finally show ?thesis using fr(1,2) s(2) by (simp add: rolled(3) s(1) roll_back_transaction_def)
    qed
  qed simp
  then show "dk_files d' = dk_files d" "dk_records d' = dk_records d" "dk_objects d h = Some c \<Longrightarrow> dk_objects d' h = Some c"
    "\<forall>h c. dk_objects d h = Some c \<longrightarrow> te_hash env c = h \<Longrightarrow> \<forall>h c. dk_objects d' h = Some c \<longrightarrow> te_hash env c = h"
    by blast+
qed

section \<open>Failed tools\<close>

datatype tool_request =
    Write_Call string ustr "string option" bool
  | Edit_Call string ustr ustr bool
  | Multi_Edit_Call "file_edit list"

fun run_request :: "tool_env \<Rightarrow> tool_call \<Rightarrow> tool_request \<Rightarrow> tool_world \<Rightarrow> tool_report result \<times> tool_world" where
  "run_request env c (Write_Call p s expect force) w = write_tool env c p s expect force w"
| "run_request env c (Edit_Call p old new all) w = edit_tool env c p old new all w"
| "run_request env c (Multi_Edit_Call es) w = multi_edit_tool env c es w"

lemma failed_request:
  assumes "run_request env c rq w = (Inl e, w')"
  shows "w' = w \<or> (\<exists>guard us d. mutate_files env (call_mutation c) guard us (tw_disk w) = (Inl e, d) \<and> w' = w\<lparr>tw_disk := d\<rparr>)"
proof (cases rq)
  case (Write_Call p s expect force)
  then show ?thesis using assms by (auto simp: write_tool_def Let_def split: sum.splits prod.splits)
next
  case (Edit_Call p old new all)
  then show ?thesis using assms by (auto simp: edit_tool_def split: sum.splits prod.splits if_splits)
next
  case (Multi_Edit_Call es)
  then show ?thesis using assms by (auto simp: multi_edit_tool_def split: sum.splits prod.splits)
qed


section \<open>Overwriting\<close>

lemma guard_runs:
  assumes "mutate_files env mu guard us d = (Inr (), d')"
  shows "guard (dk_files d) = Inr ()"
  using assms by (auto simp: mutate_files_def split: sum.splits)

lemma mutation_written:
  assumes "mutate_files env mu guard [u] d = (Inr (), d')"
  shows "dk_files d' = (dk_files d)(fu_path u \<mapsto> fu_content u)"
proof -
  obtain tx d1 d2 d3 where m: "prepare_transaction env mu (sorted_paths [u]) d = Inr (tx, d1)" "transact env mu tx [u] d1 = (Inr d3, d2)" "d' = d3"
    using assms by (auto simp: mutate_files_def split: sum.splits prod.splits)
  have "dk_files d1 = dk_files d" using m(1)
    by (auto simp: prepare_transaction_def bind_result_def prepare_backup_def session_check_def Let_def split: if_splits sum.splits)
  then show ?thesis using m(2,3)
    by (auto simp: transact_def commit_transaction_def commit_backup_def split: sum.splits transaction.splits if_splits option.splits)
qed

text \<open>
  \<open>Write\<close> without force replaces a file only when the hash of its content under the lock is the one the
  call expects or, when it expects none, the one this session last recorded for the path; then the file holds
  the new text, no other file changes, and the session knows the new content.
\<close>

theorem write_needs_current_content:
  assumes "write_tool env c path content expect False w = (Inr rp, w')"
  shows "\<exists>p. safe_mutation_path env (tc_cwd c) path = Inr p \<and>
    (\<forall>bs. dk_files (tw_disk w) p = Some bs \<longrightarrow>
       Some (te_hash env bs) = (case expect of Some h \<Rightarrow> Some h | None \<Rightarrow> session_read_hash (tc_session c) p (tw_reads w))) \<and>
    dk_files (tw_disk w') = (dk_files (tw_disk w))(p \<mapsto> utf8 content) \<and>
    session_read_hash (tc_session c) p (tw_reads w') = Some (te_hash env (utf8 content))"
proof -
  obtain p where p: "safe_mutation_path env (tc_cwd c) path = Inr p"
    using assms by (auto simp: write_tool_def split: sum.splits)
  let ?g = "write_guard env False expect (session_read_hash (tc_session c) p (tw_reads w)) p"
  obtain d where m: "mutate_files env (call_mutation c) ?g [\<lparr>fu_path = p, fu_content = utf8 content, fu_expect = None\<rparr>] (tw_disk w) = (Inr (), d)"
    "w' = w\<lparr>tw_disk := d, tw_reads := record_session_read (tc_session c) p (te_hash env (utf8 content)) (tw_reads w)\<rparr>"
    using assms p by (auto simp: write_tool_def Let_def split: sum.splits prod.splits)
  have "?g (dk_files (tw_disk w)) = Inr ()" by (rule guard_runs [OF m(1)])
  then have "\<forall>bs. dk_files (tw_disk w) p = Some bs \<longrightarrow>
       Some (te_hash env bs) = (case expect of Some h \<Rightarrow> Some h | None \<Rightarrow> session_read_hash (tc_session c) p (tw_reads w))"
    by (auto simp: write_guard_def split: option.splits if_splits)
  moreover have "dk_files d = (dk_files (tw_disk w))(p \<mapsto> utf8 content)" using mutation_written [OF m(1)] by simp
  moreover have "session_read_hash (tc_session c) p (record_session_read (tc_session c) p h rd) = Some h" for h rd
  proof (cases "map_get rd (tc_session c)")
    case None
    then have "map_get (rd @ [(tc_session c, [(p, h)])]) (tc_session c) = Some [(p, h)]"
      "length (rd @ [(tc_session c, [(p, h)])]) > 1024 \<Longrightarrow> map_get (tl (rd @ [(tc_session c, [(p, h)])])) (tc_session c) = Some [(p, h)]"
      by (cases rd; auto simp: map_add_def split: option.splits if_splits)+
    then show ?thesis using None
      by (simp add: record_session_read_def session_read_hash_def Let_def max_tracked_sessions_def)
  next
    case (Some m)
    then show ?thesis by (simp add: record_session_read_def session_read_hash_def map_get_set)
  qed
  ultimately show ?thesis using p m(2) by auto
qed

section \<open>Editing\<close>

lemma find_at_append:
  "find_at old acc s = Some (pre, suf) \<Longrightarrow> \<exists>a. pre = acc @ a \<and> s = a @ old @ suf"
proof (induction s arbitrary: acc)
  case Nil
  then show ?case by (auto simp: find_at.simps [of old acc "[]"] starts_with_iff split: if_splits)
next
  case (Cons c s)
  show ?case
  proof (cases "starts_with (c # s) old")
    case True
    then have "pre = acc" "suf = drop (length old) (c # s)" using Cons.prems by (simp_all add: find_at.simps [of old acc "c # s"])
    then show ?thesis using True by (auto simp: starts_with_iff)
  next
    case False
    then have "find_at old (acc @ [c]) s = Some (pre, suf)" using Cons.prems by (simp add: find_at.simps [of old acc "c # s"])
    from Cons.IH [OF this] show ?thesis by auto
  qed
qed

lemma find_at_None: "find_at old acc s = None \<Longrightarrow> s \<noteq> a @ old @ b"
proof (induction s arbitrary: acc a)
  case Nil
  then show ?case by (auto simp: find_at.simps [of old acc "[]"] split: if_splits)
next
  case (Cons c s)
  have n: "\<not> starts_with (c # s) old" using Cons.prems by (auto simp: find_at.simps [of old acc "c # s"] split: if_splits)
  then have "find_at old (acc @ [c]) s = None" using Cons.prems by (simp add: find_at.simps [of old acc "c # s"])
  note ih = Cons.IH [OF this]
  show ?case
  proof
    assume e: "c # s = a @ old @ b"
    then have "a \<noteq> []" using n by (auto simp: starts_with_iff)
    then obtain x a' where a: "a = x # a'" by (cases a) auto
    have "s = a' @ old @ b" using e by (simp add: a)
    with ih [of a'] show False ..
  qed
qed

lemma split_scan_find:
  "sep \<noteq> [] \<Longrightarrow> split_scan sep acc s = (case find_at sep acc s of None \<Rightarrow> [acc @ s] | Some (pre, suf) \<Rightarrow> pre # split_scan sep [] suf)"
proof (induction s arbitrary: acc)
  case Nil
  then have "\<not> starts_with [] sep" by (cases sep) simp_all
  then show ?case by (simp add: find_at.simps [of sep acc "[]"] split_scan.simps [of sep acc "[]"])
next
  case (Cons c s)
  show ?case
  proof (cases "starts_with (c # s) sep")
    case True
    then show ?thesis using Cons.prems
      by (simp add: find_at.simps [of sep acc "c # s"] split_scan.simps [of sep acc "c # s"])
  next
    case False
    then have "split_scan sep acc (c # s) = split_scan sep (acc @ [c]) s" "find_at sep acc (c # s) = find_at sep (acc @ [c]) s"
      by (simp_all add: find_at.simps [of sep acc "c # s"] split_scan.simps [of sep acc "c # s"])
    then show ?thesis using Cons.IH [OF Cons.prems, of "acc @ [c]"]
      by (cases "find_at sep (acc @ [c]) s") simp_all
  qed
qed

lemma split_scan_join: "sep \<noteq> [] \<Longrightarrow> join sep (split_scan sep acc s) = acc @ s \<and> split_scan sep acc s \<noteq> []"
proof (induction sep acc s rule: split_scan.induct)
  case (1 sep acc s)
  show ?case
  proof (cases "s = []")
    case False
    show ?thesis
    proof (cases "starts_with s sep")
      case True
      obtain r where r: "s = sep @ r" using True by (auto simp: starts_with_iff)
      have "join sep (split_scan sep [] r) = r \<and> split_scan sep [] r \<noteq> []"
        using 1(1) [OF False] True 1(3) r by simp
      moreover have "split_scan sep acc s = acc # split_scan sep [] r"
        using False True 1(3) by (simp add: split_scan.simps [of sep acc s]) (simp add: r)
      ultimately show ?thesis using r by (cases "split_scan sep [] r") simp_all
    next
      case False
      then have "split_scan sep acc s = split_scan sep (acc @ [hd s]) (tl s)" using \<open>s \<noteq> []\<close> by (simp add: split_scan.simps [of sep acc s])
      then show ?thesis using 1(2) [OF \<open>s \<noteq> []\<close>] False 1(3) \<open>s \<noteq> []\<close> by simp
    qed
  qed (simp add: split_scan.simps [of sep acc "[]"])
qed

lemma expand_plain: "36 \<notin> set new \<Longrightarrow> expand_template pre old suf new = new"
  by (induction pre old suf new rule: expand_template.induct) auto

lemma match_count_parts:
  assumes "old \<noteq> []"
  shows "match_count old s = 0 \<longleftrightarrow> (\<forall>a b. s \<noteq> a @ old @ b)"
    "match_count old s = 1 \<longleftrightarrow> (\<exists>a b. find_at old [] s = Some (a, b) \<and> find_at old [] b = None)"
    "match_count old s \<ge> 0"
proof -
  have n: "split_scan old acc t \<noteq> []" for acc t using split_scan_join [OF assms] by blast
  show "match_count old s \<ge> 0" using n [of "[]" s] assms
    by (cases "split_scan old [] s") (auto simp: match_count_def js_split_def)
  show "match_count old s = 0 \<longleftrightarrow> (\<forall>a b. s \<noteq> a @ old @ b)"
  proof (cases "find_at old [] s")
    case None
    then show ?thesis using find_at_None [OF None] assms by (auto simp: match_count_def js_split_def split_scan_find [OF assms])
  next
    case (Some q)
    obtain a b where q: "q = (a, b)" by fastforce
    have "s = a @ old @ b" using find_at_append [OF Some [unfolded q]] by simp
    moreover have "match_count old s \<noteq> 0" using n [of "[]" b] assms Some q
      by (cases "split_scan old [] b") (auto simp: match_count_def js_split_def split_scan_find [OF assms, of "[]" s])
    ultimately show ?thesis by blast
  qed
  show "match_count old s = 1 \<longleftrightarrow> (\<exists>a b. find_at old [] s = Some (a, b) \<and> find_at old [] b = None)"
  proof (cases "find_at old [] s")
    case None
    then show ?thesis using assms by (simp add: match_count_def js_split_def split_scan_find [OF assms])
  next
    case (Some q)
    obtain a b where q: "q = (a, b)" by fastforce
    have "match_count old s = int (length (split_scan old [] b))"
      using assms Some q by (simp add: match_count_def js_split_def split_scan_find [OF assms, of "[]" s])
    moreover have "length (split_scan old [] b) = 1 \<longleftrightarrow> find_at old [] b = None"
      using n by (auto simp: split_scan_find [OF assms, of "[]" b] split: option.split)
    ultimately show ?thesis using Some q by auto
  qed
qed


text \<open>A dollar sign in the new text of a single edit does not stand for itself.\<close>

lemma dollar_is_not_literal:
  "edit_content ''f'' (ascii ''x'') (ascii ''$$a'') False (ascii ''(x)'') = Inr (ascii ''($a)'')"
  "edit_content ''f'' (ascii ''x'') (ascii ''$$a'') True (ascii ''(x)'') = Inr (ascii ''($$a)'')"
  by code_simp+

text \<open>Overlapping matches count once: the edit takes the first without a complaint.\<close>

lemma overlapping_match_is_accepted:
  "edit_content ''f'' (ascii ''aa'') (ascii ''b'') False (ascii ''aaa'') = Inr (ascii ''ba'')"
  by code_simp


section \<open>Lines added and removed\<close>

lemma line_delta_wf: "map_wf m \<Longrightarrow> map_wf (line_delta d l m)"
  by (simp add: line_delta_def)

lemma line_delta_get: "given (map_get (line_delta d l m) x) 0 = given (map_get m x) 0 + (if x = l then d else 0)"
  by (simp add: line_delta_def map_get_set)

lemma fold_delta:
  "map_wf m \<Longrightarrow> map_wf (fold (line_delta d) ls m) \<and>
     (\<forall>x. given (map_get (fold (line_delta d) ls m) x) 0 = given (map_get m x) 0 + d * int (count (mset ls) x))"
proof (induction ls arbitrary: m)
  case (Cons l ls)
  have "map_wf (line_delta d l m)" using Cons.prems by (rule line_delta_wf)
  from Cons.IH [OF this] show ?case by (simp add: line_delta_get algebra_simps)
qed simp

lemma fold_changes:
  "fold (\<lambda>(l, d) (added, removed). if d > 0 then (added + d, removed) else (added, removed - d)) m (a, r) =
     (a + sum_list (map (\<lambda>(l, d). max 0 d) m), r + sum_list (map (\<lambda>(l, d). max 0 (- d)) m))" for m :: "('k \<times> int) list"
proof (induction m arbitrary: a r)
  case (Cons x m)
  obtain l d where "x = (l, d)" by fastforce
  then show ?case using Cons by (cases "d > 0") simp_all
qed simp

lemma wf_sum:
  assumes "map_wf m" "f 0 = (0 :: int)" "finite A" "fst ` set m \<subseteq> A"
  shows "sum_list (map (\<lambda>(l, d). f d) m) = (\<Sum>l \<in> A. f (given (map_get m l) 0))"
proof -
  have "distinct m" "inj_on fst (set m)" using assms(1) by (auto simp: map_wf_def map_keys_def distinct_map)
  have "sum_list (map (\<lambda>(l, d). f d) m) = (\<Sum>x \<in> set m. f (snd x))"
    using \<open>distinct m\<close> by (simp add: sum_list_distinct_conv_sum_set case_prod_beta)
  also have "\<dots> = (\<Sum>l \<in> fst ` set m. f (given (map_get m l) 0))"
  proof (rule sum.reindex_cong [OF \<open>inj_on fst (set m)\<close> refl, symmetric])
    fix x assume "x \<in> set m"
    then have "map_get m (fst x) = Some (snd x)" using assms(1) by (intro map_of_is_SomeI) (simp_all add: map_wf_def map_keys_def)
    then show "f (given (map_get m (fst x)) 0) = f (snd x)" by simp
  qed
  also have "\<dots> = (\<Sum>l \<in> A. f (given (map_get m l) 0))"
  proof (rule sum.mono_neutral_left [OF assms(3,4)])
    show "\<forall>i \<in> A - fst ` set m. f (given (map_get m i) 0) = 0"
    proof
      fix i assume "i \<in> A - fst ` set m"
      then have "map_get m i = None" by (simp add: map_of_eq_None_iff)
      then show "f (given (map_get m i) 0) = 0" using assms(2) by simp
    qed
  qed
  finally show ?thesis .
qed

text \<open>
  The reported lines are those of the multisets of lines: added are the lines of the new text beyond the
  old, removed those of the old beyond the new, so their difference is the change in the number of lines.
\<close>

theorem diff_counts_are_multiset_differences:
  "diff_line_counts before after =
     (int (size (mset (split_on 10 after) - mset (split_on 10 before))),
      int (size (mset (split_on 10 before) - mset (split_on 10 after))))"
proof -
  let ?A = "mset (split_on 10 after)" and ?B = "mset (split_on 10 before)"
  have size: "int (size (X - Y)) = (\<Sum>l \<in> S. max 0 (int (count X l) - int (count Y l)))" if "finite S" "set_mset X \<subseteq> S" for X Y :: "ustr multiset" and S
  proof -
    have "size (X - Y) = (\<Sum>l \<in> S. count (X - Y) l)"
      unfolding size_multiset_overloaded_eq using that
      by (intro sum.mono_neutral_left) (auto simp: not_in_iff dest: in_diffD)
    then show ?thesis by (simp add: of_nat_diff int_minus max_def cong: sum.cong)
  qed
  show ?thesis
  proof (cases "before = after")
    case False
    let ?m = "line_counts before after" and ?S = "set (split_on 10 before) \<union> set (split_on 10 after)"
    let ?base = "fold (line_delta (-1)) (split_on 10 before) []"
    have w0: "map_wf ?base \<and> (\<forall>x. given (map_get ?base x) 0 = - int (count ?B x))"
      using fold_delta [of "[]" "-1" "split_on 10 before"] by (simp add: map_wf_def)
    have w1: "map_wf ?m \<and> (\<forall>x. given (map_get ?m x) 0 = given (map_get ?base x) 0 + 1 * int (count ?A x))"
      unfolding line_counts_def by (rule fold_delta [OF conjunct1 [OF w0]])
    then have w: "map_wf ?m" "given (map_get ?m x) 0 = int (count ?A x) - int (count ?B x)" for x
      using w0 by simp_all
    have sub: "fst ` set ?m \<subseteq> ?S"
    proof -
      have k: "fst ` set (fold (line_delta d) ls m) = fst ` set m \<union> set ls" for d ls and m :: "(ustr, int) jsmap"
      proof (induction ls arbitrary: m)
        case (Cons l ls)
        have "fst ` set (map_set l v m) = insert l (fst ` set m)" for v and m :: "(ustr, int) jsmap"
          by (induction l v m rule: map_set.induct) auto
        then show ?case using Cons by (simp add: line_delta_def)
      qed simp
      show ?thesis by (simp add: line_counts_def k)
    qed
    have a: "sum_list (map (\<lambda>(l, d). max 0 d) ?m) = int (size (?A - ?B))"
      using wf_sum [OF w(1), of "\<lambda>d. max 0 d" ?S] sub size [of ?S ?A ?B] by (simp add: w(2))
    have r: "sum_list (map (\<lambda>(l, d). max 0 (- d)) ?m) = int (size (?B - ?A))"
      using wf_sum [OF w(1), of "\<lambda>d. max 0 (- d)" ?S] sub size [of ?S ?B ?A] by (simp add: w(2))
    show ?thesis unfolding diff_line_counts_def fold_changes a r using False by simp
  qed (simp add: diff_line_counts_def)
qed

section \<open>Undo is a stack\<close>

text \<open>Changes with backups and undos, one after the other; each tells whether it did anything.\<close>

datatype change = Change string string "file_update list" | Undo_Change string

fun change_step :: "tool_env \<Rightarrow> string \<Rightarrow> disk \<Rightarrow> change \<Rightarrow> bool \<times> disk" where
  "change_step env sid d (Change created step us) =
     (case mutate_files env \<lparr>mu_root = sid, mu_created = created, mu_step = step, mu_backups = True\<rparr> (\<lambda>_. Inr ()) us d of
        (r, d') \<Rightarrow> (is_ok r, d'))"
| "change_step env sid d (Undo_Change time) = (case undo_step (te_hash env) sid time d of
     Inl e \<Rightarrow> (False, d) | Inr (res, d') \<Rightarrow> (ur_undone res, d'))"

fun run_changes :: "tool_env \<Rightarrow> string \<Rightarrow> disk \<Rightarrow> change list \<Rightarrow> bool list \<times> disk" where
  "run_changes env sid d [] = ([], d)"
| "run_changes env sid d (c # cs) =
     (case change_step env sid d c of (ok, d1) \<Rightarrow> (case run_changes env sid d1 cs of (oks, d2) \<Rightarrow> (ok # oks, d2)))"

text \<open>The specification: the file systems to which undo leads, the present one first.\<close>

definition apply_updates :: "file_update list \<Rightarrow> files \<Rightarrow> files" where
  "apply_updates us fs = fold (\<lambda>u fs. fs(fu_path u \<mapsto> fu_content u)) us fs"

fun spec_change :: "files list \<Rightarrow> change \<times> bool \<Rightarrow> files list" where
  "spec_change st (Change created step us, ok) = (if ok then apply_updates us (hd st) # st else st)"
| "spec_change st (Undo_Change time, ok) = (if ok then tl st else st)"

definition record_keys :: "disk \<Rightarrow> string set" where
  "record_keys d = record_key ` set (given (dk_records d) [])"

fun change_steps :: "change list \<Rightarrow> string list" where
  "change_steps [] = []"
| "change_steps (Change created step us # cs) = step # change_steps cs"
| "change_steps (Undo_Change time # cs) = change_steps cs"

definition changes_something :: "change \<Rightarrow> bool" where
  "changes_something c \<longleftrightarrow> (\<forall>created step. c \<noteq> Change created step [])"

lemma hd_history [simp]: "hd (history d) = dk_files d"
  by (cases "open_steps d") (simp_all add: history_def)

lemma written: "write_updates env us fs = (Inr u, fs') \<Longrightarrow> fs' = apply_updates us fs"
  by (induction us arbitrary: fs) (auto simp: apply_updates_def split: if_splits)

lemma change_succeeds:
  assumes "backed_up env d" "mutate_files env mu guard us d = (Inr (), d')" "mu_backups mu" "us \<noteq> []" "mu_step mu \<notin> record_keys d"
  shows "history d' = apply_updates us (dk_files d) # history d \<and> backed_up env d' \<and> record_keys d' \<subseteq> insert (mu_step mu) (record_keys d)"
proof -
  obtain cs d1 d2 where p: "prepare_backup (te_hash env) (mu_root mu) (sorted_paths us) d = Inr (cs, d1)"
      "transact env mu (Backup_Transaction cs) us d1 = (Inr d', d2)"
    using assms(2,3) by (auto simp: mutate_files_def prepare_transaction_def bind_result_def split: sum.splits prod.splits)
  note po = prepared_objects [OF assms(1) p(1)] and fr = transact_frame [OF p(2)]
  have c: "commit_backup (te_hash env) (mu_created mu) (mu_step mu) cs d2 = Inr d'" and f: "dk_files d2 = apply_updates us (dk_files d1)"
    using p(2) written by (auto simp: transact_def commit_transaction_def split: sum.splits prod.splits)
  have "sorted_paths us \<noteq> []" using assms(4) sorted_paths_set [of us] by (cases us) force+
  moreover have "\<forall>q. q \<notin> set (sorted_paths us) \<longrightarrow> dk_files d2 q = dk_files d q" using fr(3) po(2) by simp
  moreover have "\<forall>r \<in> set (given (dk_records d) []). record_key r \<noteq> mu_step mu"
    using assms(5) unfolding record_keys_def by (metis imageI)
  ultimately have "history d' = dk_files d' # history d \<and> backups_ok (te_hash env) d' \<and> dk_files d' = dk_files d2"
    using assms(1) by (intro commit_history [OF _ _ p(1) _ _ fr(1,2) c]) (simp_all add: backed_up_def)
  moreover have "record_keys d' \<subseteq> insert (mu_step mu) (record_keys d)"
    using c fr(2) po(3) by (auto simp: commit_backup_def record_keys_def record_key_def split: if_splits)
  ultimately show ?thesis using assms(1) f po(2) by (simp add: backed_up_def)
qed

lemma change_fails:
  assumes "backed_up env d" "mutate_files env mu guard us d = (Inl e, d')"
  shows "history d' = history d \<and> backed_up env d' \<and> record_keys d' = record_keys d"
proof -
  note f = failed_mutation [OF assms(2) assms(1)]
  have ok: "\<forall>h c. dk_objects d h = Some c \<longrightarrow> te_hash env c = h"
    "\<forall>r \<in> set (given (dk_records d) []). bk_step r \<noteq> None \<and> (\<forall>h. bk_before r = Some h \<longrightarrow> dk_objects d h \<noteq> None)"
    using assms(1) by (auto simp: backed_up_def backups_ok_def)
  have kept: "dk_objects d h \<noteq> None \<Longrightarrow> dk_objects d' h \<noteq> None" for h using f(3) by auto
  have "undo_history (dk_objects d') (dk_files d) (open_steps d) = undo_history (dk_objects d) (dk_files d) (open_steps d)"
  proof (rule undo_history_objects)
    show "\<forall>s \<in> set (open_steps d). \<forall>r \<in> set s. \<forall>h. bk_before r = Some h \<longrightarrow> dk_objects d h \<noteq> None"
      using ok(2) open_step_records by blast
  qed (rule f(3))
  then have "history d' = history d" by (simp add: history_def open_steps_def f(1,2))
  moreover have "backed_up env d'"
    using assms(1) f(4) [OF ok(1)] ok(2) kept unfolding backed_up_def backups_ok_def f(2) by blast
  ultimately show ?thesis by (simp add: record_keys_def f(2))
qed

lemma change_refines:
  assumes "backed_up env d" "change_step env sid d c = (ok, d')" "changes_something c" "set (change_steps [c]) \<inter> record_keys d = {}"
  shows "history d' = spec_change (history d) (c, ok) \<and> backed_up env d' \<and> record_keys d' \<subseteq> set (change_steps [c]) \<union> record_keys d"
proof (cases c)
  case (Change created step us)
  let ?mu = "\<lparr>mu_root = sid, mu_created = created, mu_step = step, mu_backups = True\<rparr>"
  obtain r where m: "mutate_files env ?mu (\<lambda>_. Inr ()) us d = (r, d')" "ok = is_ok r"
    using assms(2) Change by (auto split: prod.splits)
  show ?thesis
  proof (cases r)
    case (Inl e)
    then show ?thesis using change_fails [OF assms(1)] m Change by auto
  next
    case (Inr u)
    then show ?thesis using change_succeeds [OF assms(1), of ?mu "\<lambda>_. Inr ()" us d'] m assms(3,4) Change
      by (auto simp: changes_something_def)
  qed
next
  case (Undo_Change time)
  show ?thesis
  proof (cases "undo_step (te_hash env) sid time d")
    case (Inl e)
    then show ?thesis using assms Undo_Change by simp
  next
    case (Inr q)
    then obtain res where u: "undo_step (te_hash env) sid time d = Inr (res, d')" "ok = ur_undone res"
      using assms(2) Undo_Change by (auto split: prod.splits)
    have b: "backups_ok (te_hash env) d" using assms(1) by (simp add: backed_up_def)
    note h = undo_history_step [OF b u(1)]
    have "record_keys d' = record_keys d"
    proof -
      have "given (map_option (map f) rs) [] = map f (given rs [])" for f :: "backup_record \<Rightarrow> backup_record" and rs by (cases rs) simp_all
      then have "record_keys (mark_consumed time s (snd (undo_records (te_hash env) s d))) = record_keys d" for s
        by (simp add: record_keys_def mark_consumed_def undo_records_effect image_image)
      then show ?thesis using u(1)
        by (auto simp: undo_step_def session_check_def consume_undo_step_def case_prod_beta split: if_splits option.splits)
    qed
    then show ?thesis using h u(2) assms(1) Undo_Change by (auto simp: backed_up_def split: if_splits)
  qed
qed


section \<open>Concrete runs\<close>

text \<open>A hash without collisions, and a disk with one file.\<close>

definition unary_hash :: "bytes \<Rightarrow> string" where
  "unary_hash bs = concat (map (\<lambda>n. replicate n CHR ''a'' @ ''b'') bs)"

lemma unary_inj: "inj unary_hash"
proof (rule injI)
  have step: "replicate m CHR ''a'' @ CHR ''b'' # s = replicate n CHR ''a'' @ CHR ''b'' # t \<Longrightarrow> m = n \<and> s = t" for m n s t
  proof (induction m arbitrary: n)
    case 0
    then show ?case by (cases n) simp_all
  next
    case (Suc m)
    then show ?case by (cases n) simp_all
  qed
  fix xs ys :: bytes
  assume "unary_hash xs = unary_hash ys"
  then show "xs = ys"
  proof (induction xs arbitrary: ys)
    case Nil
    then show ?case by (cases ys) (simp_all add: unary_hash_def)
  next
    case (Cons x xs)
    obtain y ys' where ys: "ys = y # ys'" using Cons.prems by (cases ys) (simp_all add: unary_hash_def)
    have "x = y \<and> unary_hash xs = unary_hash ys'"
      using Cons.prems step [of x "unary_hash xs" y "unary_hash ys'"] by (simp add: ys unary_hash_def)
    then show ?case using Cons.IH by (simp add: ys)
  qed
qed

definition demo_tool_env :: tool_env where
  "demo_tool_env = \<lparr>te_hash = unary_hash, te_here = ''/w'', te_real = Some, te_link = (\<lambda>p. False), te_fault = (\<lambda>p. p = ''/w/bad'')\<rparr>"

definition small_disk :: disk where
  "small_disk = \<lparr>dk_files = [''/w/f'' \<mapsto> [1]], dk_objects = Map.empty, dk_records = None\<rparr>"

lemma small_disk_ok: "backed_up demo_tool_env small_disk"
  by (simp add: backed_up_def backups_ok_def small_disk_def demo_tool_env_def unary_inj undo_steps_of_def)

definition two_changes :: "change list" where
  "two_changes = [Change ''t1'' ''s1'' [\<lparr>fu_path = ''/w/f'', fu_content = [2], fu_expect = None\<rparr>],
     Change ''t2'' ''s2'' [\<lparr>fu_path = ''/w/g'', fu_content = [3], fu_expect = None\<rparr>], Undo_Change ''t3'', Undo_Change ''t4'']"


definition demo_call :: tool_call where
  "demo_call = \<lparr>tc_session = ''s'', tc_root = None, tc_cwd = ''/w'', tc_backups = True, tc_created = ''t'', tc_step = ''k''\<rparr>"

definition demo_world :: tool_world where
  "demo_world = \<lparr>tw_disk = small_disk, tw_reads = [(''s'', [(''/w/f'', ''ab'')])]\<rparr>"

lemma demo_utf8: "utf8 [65] = [65]"
  by (simp add: utf8_def is_scalar_def utf8_point_def is_high_def is_low_def)

lemma demo_paths: "safe_mutation_path demo_tool_env ''/w'' ''f'' = Inr ''/w/f''" "safe_mutation_path demo_tool_env ''/w'' ''bad'' = Inr ''/w/bad''"
  by code_simp+


lemma write_needs_current_content_witness:
  "\<exists>rp w'. write_tool demo_tool_env demo_call ''f'' [65] None False demo_world = (Inr rp, w') \<and>
     dk_files (tw_disk w') = [''/w/f'' \<mapsto> utf8 [65]]"
proof -
  have "fst (mutate_files demo_tool_env (call_mutation demo_call) (write_guard demo_tool_env False None (Some ''ab'') ''/w/f'')
      [\<lparr>fu_path = ''/w/f'', fu_content = [65], fu_expect = None\<rparr>] small_disk) = Inr ()"
    by code_simp
  moreover have "session_read_hash ''s'' ''/w/f'' (tw_reads demo_world) = Some ''ab''" by code_simp
  ultimately have "is_ok (fst (write_tool demo_tool_env demo_call ''f'' [65] None False demo_world))"
    by (simp add: write_tool_def demo_paths demo_utf8 Let_def demo_call_def demo_world_def case_prod_beta split: sum.split)
  then obtain rp w' where w: "write_tool demo_tool_env demo_call ''f'' [65] None False demo_world = (Inr rp, w')"
    by (cases "write_tool demo_tool_env demo_call ''f'' [65] None False demo_world") (auto simp: is_ok_def split: sum.splits)
  have p: "safe_mutation_path demo_tool_env (tc_cwd demo_call) ''f'' = Inr ''/w/f''" by (simp add: demo_call_def demo_paths)
  from write_needs_current_content [OF w] p
  have "dk_files (tw_disk w') = (dk_files (tw_disk demo_world))(''/w/f'' \<mapsto> utf8 [65])" by auto
  then have "dk_files (tw_disk w') = [''/w/f'' \<mapsto> utf8 [65]]" by (simp add: demo_world_def small_disk_def)
  with w show ?thesis by blast
qed

text \<open>\<open>Write\<close> makes missing directories, but only after the real path of the directory was asked for, which fails.\<close>

lemma write_needs_the_directory:
  assumes "path_in_cwd env cwd path = Inr p" "te_real env cwd = Some root"
    "te_real env (path_resolve (te_here env) p ''..'') = None"
  shows "safe_mutation_path env cwd path = throw ''ENOENT'' (path_resolve (te_here env) p ''..'')"
  using assms by (simp add: safe_mutation_path_def bind_result_def real_path_def)

end
