(* ===== verification/Tool_Executor.thy ===== *)
theory Tool_Executor
  imports Permission
begin

text \<open>
  The path of a tool call, \<open>ToolExecutor\<close> of \<open>packages/tools/src/index.ts\<close>, with the validation of its input,
  the hooks before and after it and the permission between. Hooks are plugins: what they answer is an
  argument. A permission is what the manager of \<open>Permission\<close> decides on the spec of the input. Times
  (\<open>meta\<close>) are left out.
\<close>

section \<open>Validation\<close>

record input_schema =
  is_required :: "ustr list"
  is_properties :: "ustr list"
  is_closed :: bool

text \<open>\<open>in\<close> also finds what every object inherits.\<close>

definition inherited_properties :: "ustr list" where
  "inherited_properties = map ascii [''constructor'', ''toString'', ''valueOf'', ''hasOwnProperty'', ''isPrototypeOf'',
     ''propertyIsEnumerable'', ''toLocaleString'', ''__proto__'', ''__defineGetter__'', ''__defineSetter__'',
     ''__lookupGetter__'', ''__lookupSetter__'']"

definition validate_input :: "input_schema \<Rightarrow> json \<Rightarrow> ustr option" where
  "validate_input schema v = (case v of
     J_Obj kvs \<Rightarrow>
       (case find (\<lambda>k. k \<notin> set (map fst kvs) \<and> k \<notin> set inherited_properties) (is_required schema) of
          Some k \<Rightarrow> Some (ascii ''missing required property: '' @ k)
        | None \<Rightarrow>
            if is_closed schema
            then map_option (\<lambda>k. ascii ''unknown property: '' @ k) (find (\<lambda>k. k \<notin> set (is_properties schema)) (map fst kvs))
            else None)
   | _ \<Rightarrow> Some (ascii ''input must be an object''))"

section \<open>Execution\<close>

text \<open>The member of an object that counts, the last one of its name. Parts of content are JSON values here, as hooks send them.\<close>

definition member_of :: "json \<Rightarrow> string \<Rightarrow> json option" where
  "member_of v k = (case v of J_Obj kvs \<Rightarrow> map_of (rev kvs) (ascii k) | _ \<Rightarrow> None)"

record tool_output =
  to_content :: "json list"
  to_error :: "json option"

definition text_part :: "ustr \<Rightarrow> json" where
  "text_part s = J_Obj [(ascii ''type'', J_Str (ascii ''text'')), (ascii ''text'', J_Str s)]"

definition failed_output :: "ustr \<Rightarrow> tool_output" where
  "failed_output message = \<lparr>to_content = [text_part message], to_error = Some (J_Bool True)\<rparr>"

definition error_output :: "volund_error \<Rightarrow> tool_output" where
  "error_output e = failed_output (ascii (err_detail e))"

record hook_outcome =
  ho_veto :: bool
  ho_reason :: "ustr option"
  ho_value :: "json option"

definition vetoes :: "hook_outcome option \<Rightarrow> bool" where
  "vetoes outcome = (case outcome of None \<Rightarrow> False | Some h \<Rightarrow> ho_veto h)"

definition blocked_output :: "hook_outcome option \<Rightarrow> tool_output" where
  "blocked_output outcome =
     failed_output (ascii ''blocked by hook: '' @ given (Option.bind outcome ho_reason) (ascii ''unspecified reason''))"

definition adopt_hook_input :: "hook_outcome option \<Rightarrow> json \<Rightarrow> json" where
  "adopt_hook_input outcome fallback =
     given (Option.bind (Option.bind outcome ho_value) (\<lambda>v. member_of v ''input'')) fallback"

definition adopt_hook_result :: "hook_outcome option \<Rightarrow> tool_output option" where
  "adopt_hook_result outcome =
     (case Option.bind (Option.bind outcome ho_value) (\<lambda>v. member_of v ''result'') of
        None \<Rightarrow> None
      | Some res \<Rightarrow> (case member_of res ''content'' of
          Some (J_Arr parts) \<Rightarrow> Some \<lparr>to_content = parts, to_error = member_of res ''isError''\<rparr>
        | _ \<Rightarrow> None))"

record tool_hooks =
  th_before :: "json \<Rightarrow> hook_outcome option result"
  th_after :: "json \<Rightarrow> tool_output \<Rightarrow> hook_outcome option result"

record executable_tool =
  xt_name :: string
  xt_schema :: input_schema
  xt_normalize :: "json \<Rightarrow> json option"
  xt_spec :: "json \<Rightarrow> permission_spec result"
  xt_invoke :: "json \<Rightarrow> tool_output result"

datatype execution_event = Hooks_Before json | Permission_Asked permission_spec json | Tool_Invoked json | Hooks_After json

definition tool_request :: "string \<Rightarrow> executable_tool \<Rightarrow> permission_spec \<Rightarrow> request" where
  "tool_request cwd tool spec = \<lparr>rq_tool = xt_name tool, rq_spec = spec, rq_cwd = cwd\<rparr>"

text \<open>\<open>requestAndExecute\<close> with the decision on the request, and what it logs.\<close>

definition request_and_invoke ::
  "(request \<Rightarrow> json \<Rightarrow> permission_decision result) \<Rightarrow> string \<Rightarrow> executable_tool \<Rightarrow> json \<Rightarrow> tool_output \<times> execution_event list"
where
  "request_and_invoke decide cwd tool inp =
     (case xt_spec tool inp of
        Inl e \<Rightarrow> (error_output e, [])
      | Inr spec \<Rightarrow> (case decide (tool_request cwd tool spec) inp of
          Inl e \<Rightarrow> (error_output e, [Permission_Asked spec inp])
        | Inr d \<Rightarrow> (case execute_permitted (tool_request cwd tool spec) d (Inr ()) of
            Inl e \<Rightarrow> (error_output e, [Permission_Asked spec inp])
          | Inr _ \<Rightarrow> (case xt_invoke tool inp of
              Inl e \<Rightarrow> (error_output e, [Permission_Asked spec inp, Tool_Invoked inp])
            | Inr out \<Rightarrow> (out, [Permission_Asked spec inp, Tool_Invoked inp])))))"

definition after_hooks :: "tool_hooks option \<Rightarrow> json \<Rightarrow> tool_output \<Rightarrow> tool_output \<times> execution_event list" where
  "after_hooks hooks inp out = (case hooks of
     None \<Rightarrow> (out, [])
   | Some h \<Rightarrow> (case th_after h inp out of
       Inl e \<Rightarrow> (error_output e, [Hooks_After inp])
     | Inr outcome \<Rightarrow>
         if vetoes outcome then (blocked_output outcome, [Hooks_After inp])
         else (given (adopt_hook_result outcome) out, [Hooks_After inp])))"

definition run_permitted ::
  "(request \<Rightarrow> json \<Rightarrow> permission_decision result) \<Rightarrow> string \<Rightarrow> tool_hooks option \<Rightarrow> executable_tool \<Rightarrow> json \<Rightarrow>
     tool_output \<times> execution_event list" where
  "run_permitted decide cwd hooks tool inp =
     (let (out, evs1) = request_and_invoke decide cwd tool inp; (out', evs2) = after_hooks hooks inp out
      in (out', evs1 @ evs2))"

definition execute_tool ::
  "(request \<Rightarrow> json \<Rightarrow> permission_decision result) \<Rightarrow> string \<Rightarrow> tool_hooks option \<Rightarrow> executable_tool \<Rightarrow> json \<Rightarrow>
     tool_output \<times> execution_event list" where
  "execute_tool decide cwd hooks tool raw =
     (let inp = given (xt_normalize tool raw) raw
      in case validate_input (xt_schema tool) inp of
        Some why \<Rightarrow> (failed_output (ascii ''Invalid input: '' @ why), [])
      | None \<Rightarrow> (case hooks of
          None \<Rightarrow> run_permitted decide cwd hooks tool inp
        | Some h \<Rightarrow> (case th_before h inp of
            Inl e \<Rightarrow> (error_output e, [Hooks_Before inp])
          | Inr outcome \<Rightarrow>
              if vetoes outcome then (blocked_output outcome, [Hooks_Before inp])
              else let inp' = adopt_hook_input outcome inp
                   in case (if inp' = inp then None else validate_input (xt_schema tool) inp') of
                     Some why \<Rightarrow> (failed_output (ascii ''Invalid input after preToolUse hook: '' @ why), [Hooks_Before inp])
                   | None \<Rightarrow> apsnd ((#) (Hooks_Before inp)) (run_permitted decide cwd hooks tool inp'))))"

section \<open>Long results\<close>

text \<open>\<open>slice(-half)\<close> is the whole text when \<open>half\<close> is 0.\<close>

definition truncated_notice :: "nat \<Rightarrow> ustr" where
  "truncated_notice removed =
     [10] @ ascii (''[... truncated approximately '' @ show_nat ((2 * removed + 6) div 7) @ '' tokens ...]'') @ [10]"

definition truncate_text :: "nat \<Rightarrow> ustr \<Rightarrow> ustr" where
  "truncate_text most t =
     (if length t \<le> most then t
      else let half = most div 2
           in take half t @ truncated_notice (length t - most) @ (if half = 0 then t else drop (length t - half) t))"

definition truncate_tool_result :: "nat \<Rightarrow> 'j content_part list \<Rightarrow> 'j content_part list" where
  "truncate_tool_result most parts = map (\<lambda>p. case p of Text t \<Rightarrow> Text (truncate_text most t) | _ \<Rightarrow> p) parts"

lemma truncated_length:
  assumes "most \<ge> 2"
  shows "length (truncate_text most t) \<le> most + length (truncated_notice (length t - most))"
  using assms by (auto simp: truncate_text_def Let_def)

lemma truncating_to_one_keeps_everything:
  assumes "length t > 1"
  shows "length (truncate_text 1 t) > length t"
  using assms by (simp add: truncate_text_def truncated_notice_def)

section \<open>What runs was permitted\<close>

definition permitted_run ::
  "(request \<Rightarrow> json \<Rightarrow> permission_decision result) \<Rightarrow> string \<Rightarrow> executable_tool \<Rightarrow> json \<Rightarrow> permission_spec \<Rightarrow> bool" where
  "permitted_run decide cwd tool inp spec \<longleftrightarrow>
     xt_spec tool inp = Inr spec \<and> (\<exists>d. decide (tool_request cwd tool spec) inp = Inr d \<and> \<not> denies (dc_kind d))"

lemma invoke_log:
  assumes "request_and_invoke decide cwd tool inp = (out, evs)"
  shows "Tool_Invoked x \<in> set evs \<Longrightarrow>
    x = inp \<and> (\<exists>spec. permitted_run decide cwd tool inp spec \<and> evs = [Permission_Asked spec inp, Tool_Invoked inp])"
  using assms by (auto simp: request_and_invoke_def permitted_run_def execute_permitted_def split: sum.splits if_splits)

lemma after_log: "snd (after_hooks hooks inp out) = (case hooks of None \<Rightarrow> [] | Some h \<Rightarrow> [Hooks_After inp])"
  by (simp add: after_hooks_def split: option.split sum.split)

lemma permitted_log:
  assumes "run_permitted decide cwd hooks tool inp = (out, evs)" "Tool_Invoked x \<in> set evs"
  shows "x = inp \<and> (\<exists>spec. permitted_run decide cwd tool inp spec \<and>
    evs = [Permission_Asked spec inp, Tool_Invoked inp] @ (case hooks of None \<Rightarrow> [] | Some h \<Rightarrow> [Hooks_After inp]))"
proof -
  obtain o1 l1 where i: "request_and_invoke decide cwd tool inp = (o1, l1)" by fastforce
  have l: "evs = l1 @ (case hooks of None \<Rightarrow> [] | Some h \<Rightarrow> [Hooks_After inp])"
    using assms(1) i after_log [of hooks inp o1] by (auto simp: run_permitted_def Let_def case_prod_beta)
  then have "Tool_Invoked x \<in> set l1" using assms(2) by (auto split: option.splits)
  then show ?thesis using invoke_log [OF i] l by blast
qed

text \<open>
  C39. A tool is invoked at most once per call, only with an input that meets its schema and on which the
  permission was asked before and granted, and never after a veto; what is permitted is what runs, also when
  a hook has rewritten the input.
\<close>

theorem invoked_input_was_permitted:
  assumes "execute_tool decide cwd hooks tool raw = (out, evs)" "Tool_Invoked inp \<in> set evs"
  shows "validate_input (xt_schema tool) inp = None \<and> (\<exists>spec. permitted_run decide cwd tool inp spec \<and>
    (let first = given (xt_normalize tool raw) raw in case hooks of
       None \<Rightarrow> inp = first \<and> evs = [Permission_Asked spec inp, Tool_Invoked inp]
     | Some h \<Rightarrow> (\<exists>outcome. th_before h first = Inr outcome \<and> \<not> vetoes outcome \<and> inp = adopt_hook_input outcome first \<and>
         evs = [Hooks_Before first, Permission_Asked spec inp, Tool_Invoked inp, Hooks_After inp])))"
proof -
  let ?first = "given (xt_normalize tool raw) raw"
  have v: "validate_input (xt_schema tool) ?first = None"
    using assms by (auto simp: execute_tool_def Let_def split: option.splits)
  show ?thesis
  proof (cases hooks)
    case None
    then have r: "run_permitted decide cwd None tool ?first = (out, evs)"
      using assms(1) v by (simp add: execute_tool_def Let_def)
    show ?thesis using permitted_log [OF r assms(2)] v None by (auto simp: Let_def)
  next
    case (Some h)
    obtain outcome where b: "th_before h ?first = Inr outcome" "\<not> vetoes outcome"
      using assms v Some by (auto simp: execute_tool_def Let_def split: sum.splits if_splits)
    let ?inp = "adopt_hook_input outcome ?first"
    have c: "(if ?inp = ?first then None else validate_input (xt_schema tool) ?inp) = None"
      using assms v Some b by (auto simp: execute_tool_def Let_def split: option.splits)
    then have w: "validate_input (xt_schema tool) ?inp = None" using v by (auto split: if_splits)
    obtain evs' where l: "run_permitted decide cwd (Some h) tool ?inp = (out, evs')" "evs = Hooks_Before ?first # evs'"
      using assms(1) v Some b c by (auto simp: execute_tool_def Let_def apsnd_def map_prod_def split: prod.splits)
    have "Tool_Invoked inp \<in> set evs'" using assms(2) l(2) by simp
    from permitted_log [OF l(1) this] show ?thesis using Some b w l(2) by (auto simp: Let_def)
  qed
qed

definition demo_tool :: executable_tool where
  "demo_tool = \<lparr>xt_name = ''Echo'', xt_schema = \<lparr>is_required = [ascii ''s''], is_properties = [ascii ''s''], is_closed = True\<rparr>,
     xt_normalize = (\<lambda>v. case v of J_Str t \<Rightarrow> Some (J_Obj [(ascii ''s'', v)]) | _ \<Rightarrow> None),
     xt_spec = (\<lambda>v. Inr \<lparr>ps_fs = None, ps_bash = None, ps_net = None, ps_env = None, ps_custom = None\<rparr>),
     xt_invoke = (\<lambda>v. Inr \<lparr>to_content = [v], to_error = None\<rparr>)\<rparr>"

definition demo_hooks :: tool_hooks where
  "demo_hooks = \<lparr>th_before = (\<lambda>v. Inr (Some \<lparr>ho_veto = False, ho_reason = None,
       ho_value = Some (J_Obj [(ascii ''input'', J_Obj [(ascii ''s'', J_Null)])])\<rparr>)), th_after = (\<lambda>v out. Inr None)\<rparr>"

definition demo_decide :: "request \<Rightarrow> json \<Rightarrow> permission_decision result" where
  "demo_decide r v = Inr (plain_decision (if v = J_Obj [(ascii ''s'', J_Null)] then Allow_Once else Deny))"

lemma demo_execution:
  "execute_tool demo_decide ''/w'' (Some demo_hooks) demo_tool (J_Str (ascii ''x'')) =
     (\<lparr>to_content = [J_Obj [(ascii ''s'', J_Null)]], to_error = None\<rparr>,
      [Hooks_Before (J_Obj [(ascii ''s'', J_Str (ascii ''x''))]),
       Permission_Asked \<lparr>ps_fs = None, ps_bash = None, ps_net = None, ps_env = None, ps_custom = None\<rparr> (J_Obj [(ascii ''s'', J_Null)]),
       Tool_Invoked (J_Obj [(ascii ''s'', J_Null)]), Hooks_After (J_Obj [(ascii ''s'', J_Null)])])"
  by (simp add: execute_tool_def demo_tool_def demo_hooks_def demo_decide_def validate_input_def vetoes_def adopt_hook_input_def
      member_of_def Let_def run_permitted_def request_and_invoke_def plain_decision_def denies_def execute_permitted_def
      after_hooks_def adopt_hook_result_def)

theorem invoked_input_was_permitted_witness:
  "validate_input (xt_schema demo_tool) (J_Obj [(ascii ''s'', J_Null)]) = None \<and>
   permitted_run demo_decide ''/w'' demo_tool (J_Obj [(ascii ''s'', J_Null)])
     \<lparr>ps_fs = None, ps_bash = None, ps_net = None, ps_env = None, ps_custom = None\<rparr>"
  using invoked_input_was_permitted [OF demo_execution, of "J_Obj [(ascii ''s'', J_Null)]"]
  by (auto simp: Let_def permitted_run_def demo_tool_def)

end
