(* ===== verification/Shell_Command.thy ===== *)
theory Shell_Command
  imports Prelude
begin

text \<open>
  The shell, the environment and the quoting of commands, \<open>packages/tools/src/bash-shell.ts\<close>, and the command
  line that the runtime makes of them (\<open>apps/cli/src/runtime.ts\<close>). Names of variables are not those that
  every object inherits. How a shell reads words is written down for the part of its syntax that is used:
  the words of a POSIX shell, and the arguments of a Windows program.
\<close>

section \<open>Shells\<close>

datatype shell_quoting = Posix | Windows

record shell_selection =
  sl_program :: ustr
  sl_args :: "ustr list"
  sl_quoting :: shell_quoting

record shell_options =
  so_windows :: "ustr option"
  so_pwsh :: "ustr option"
  so_processor :: "ustr option"

definition pinned_unix_shell :: ustr where
  "pinned_unix_shell = ascii ''/bin/bash''"

definition base_name :: "ustr \<Rightarrow> ustr" where
  "base_name program = rev (takeWhile (\<lambda>c. c \<noteq> 92 \<and> c \<noteq> 47) (rev program))"

fun mentions_cmd :: "ustr \<Rightarrow> bool" where
  "mentions_cmd (a # b # c # s) =
     (a \<in> {67, 99} \<and> b \<in> {77, 109} \<and> c \<in> {68, 100} \<or> mentions_cmd (b # c # s))"
| "mentions_cmd _ = False"

definition flag_args_for :: "ustr \<Rightarrow> ustr list" where
  "flag_args_for program = (if mentions_cmd (base_name program) then [ascii ''/C''] else [ascii ''-Command''])"

definition trimmed :: "ustr option \<Rightarrow> ustr option" where
  "trimmed x = (case map_option u_trim x of Some s \<Rightarrow> if s = [] then None else Some s | None \<Rightarrow> None)"

definition select_shell :: "string \<Rightarrow> shell_options \<Rightarrow> shell_selection" where
  "select_shell platform opts =
     (if platform \<noteq> ''win32''
      then \<lparr>sl_program = pinned_unix_shell, sl_args = [ascii ''-c''], sl_quoting = Posix\<rparr>
      else (case trimmed (so_windows opts) of
        Some p \<Rightarrow> \<lparr>sl_program = p, sl_args = flag_args_for p, sl_quoting = Windows\<rparr>
      | None \<Rightarrow> (case trimmed (so_pwsh opts) of
          Some p \<Rightarrow> \<lparr>sl_program = p, sl_args = [ascii ''-Command''], sl_quoting = Windows\<rparr>
        | None \<Rightarrow> \<lparr>sl_program = given (trimmed (so_processor opts)) (ascii ''cmd.exe''), sl_args = [ascii ''/C''],
            sl_quoting = Windows\<rparr>)))"

text \<open>The first \<open>pwsh\<close> on the path that can be executed. How \<open>join\<close> puts a name to a directory is an argument.\<close>

definition pwsh_candidates :: "(ustr \<Rightarrow> ustr \<Rightarrow> ustr) \<Rightarrow> ustr \<Rightarrow> ustr list" where
  "pwsh_candidates join_path path =
     concat (map (\<lambda>dir. [join_path dir (ascii ''pwsh.exe''), join_path dir (ascii ''pwsh'')])
       (filter (\<lambda>dir. dir \<noteq> []) (split_on 59 path)))"

definition resolve_pwsh_path ::
  "(ustr \<Rightarrow> ustr \<Rightarrow> ustr) \<Rightarrow> (ustr \<Rightarrow> bool) \<Rightarrow> (string \<Rightarrow> ustr option) \<Rightarrow> ustr option" where
  "resolve_pwsh_path join_path runs src =
     (case (case src ''PATH'' of Some p \<Rightarrow> Some p | None \<Rightarrow> src ''Path'') of
        None \<Rightarrow> None
      | Some path \<Rightarrow> if path = [] then None else find runs (pwsh_candidates join_path path))"

section \<open>Environment\<close>

definition minimal_env_keys :: "string list" where
  "minimal_env_keys = [''PATH'', ''HOME'', ''LANG'', ''TZ'']"

definition minimal_env :: "(string \<Rightarrow> ustr option) \<Rightarrow> string list \<Rightarrow> (string, ustr) jsmap" where
  "minimal_env src pass =
     fold (\<lambda>key inherited. case src key of
         Some v \<Rightarrow> if v \<noteq> [] then map_set key v inherited else inherited
       | None \<Rightarrow> inherited) (minimal_env_keys @ pass) []"

definition filled :: "ustr option \<Rightarrow> ustr option" where
  "filled x = (if x = Some [] then None else x)"

lemma fold_env:
  "map_get (fold (\<lambda>key inherited. case src key of
         Some v \<Rightarrow> if v \<noteq> [] then map_set key v inherited else inherited
       | None \<Rightarrow> inherited) keys m) k =
     (if k \<in> set keys \<and> filled (src k) \<noteq> None then filled (src k) else map_get m k)"
  by (induction keys arbitrary: m) (auto simp: map_get_set filled_def split: option.splits)

text \<open>A command sees the four names and those passed on, with the values of the host, and nothing else.\<close>

lemma environment_is_minimal:
  "map_get (minimal_env src pass) k = (if k \<in> set (minimal_env_keys @ pass) then filled (src k) else None)"
  unfolding minimal_env_def fold_env by simp

section \<open>Quoting\<close>

definition quote_posix :: "ustr \<Rightarrow> ustr" where
  "quote_posix command = [39] @ concat (map (\<lambda>c. if c = 39 then [39, 92, 39, 39] else [c]) command) @ [39]"

definition quote_windows :: "ustr \<Rightarrow> ustr" where
  "quote_windows command = [34] @ concat (map (\<lambda>c. if c = 34 then [92, 34] else [c]) command) @ [34]"

definition quote_shell_argument :: "ustr \<Rightarrow> shell_quoting \<Rightarrow> ustr" where
  "quote_shell_argument command quoting =
     (case quoting of Posix \<Rightarrow> quote_posix command | Windows \<Rightarrow> quote_windows command)"

text \<open>What the Bash tool hands over, and the line the sandbox runs.\<close>

definition shell_arguments :: "shell_selection \<Rightarrow> ustr \<Rightarrow> ustr list" where
  "shell_arguments s command = sl_args s @ [quote_shell_argument command (sl_quoting s)]"

definition command_line :: "shell_selection \<Rightarrow> ustr \<Rightarrow> ustr" where
  "command_line s command = join [32] (sl_program s # shell_arguments s command)"

section \<open>What the shells read\<close>

text \<open>
  The words of a POSIX command line that is made of plain characters, single quotes and backslashes; nothing
  for a line with any other active character outside quotes, or an open quote.
\<close>

definition active_chars :: "nat set" where
  "active_chars = set (map of_char (''|&;<>()$`\"*?[]#~=%!{}'' @ [CHR 10]))"

fun plain_words :: "ustr option \<Rightarrow> ustr \<Rightarrow> ustr list option"
  and quoted_words :: "ustr \<Rightarrow> ustr \<Rightarrow> ustr list option" where
  "plain_words w [] = Some (case w of None \<Rightarrow> [] | Some x \<Rightarrow> [x])"
| "plain_words w (c # s) =
     (if c = 9 \<or> c = 32 then map_option ((@) (case w of None \<Rightarrow> [] | Some x \<Rightarrow> [x])) (plain_words None s)
      else if c = 39 then quoted_words (given w []) s
      else if c = 92 then (case s of d # s' \<Rightarrow> if d = 10 then None else plain_words (Some (given w [] @ [d])) s' | [] \<Rightarrow> None)
      else if c \<in> active_chars then None
      else plain_words (Some (given w [] @ [c])) s)"
| "quoted_words w [] = None"
| "quoted_words w (c # s) = (if c = 39 then plain_words (Some w) s else quoted_words (w @ [c]) s)"

text \<open>The argument of a Windows program after its opening quote, by the rules of its C library.\<close>

fun windows_argument :: "nat \<Rightarrow> ustr \<Rightarrow> ustr \<Rightarrow> (ustr \<times> ustr) option" where
  "windows_argument n w [] = None"
| "windows_argument n w (c # s) =
     (if c = 92 then windows_argument (n + 1) w s
      else if c = 34 then
        (if even n then Some (w @ replicate (n div 2) 92, s)
         else windows_argument 0 (w @ replicate (n div 2) 92 @ [34]) s)
      else windows_argument 0 (w @ replicate n 92 @ [c]) s)"

lemma quoted_command:
  "quoted_words w (concat (map (\<lambda>c. if c = 39 then [39, 92, 39, 39] else [c]) command) @ 39 # rest) =
     plain_words (Some (w @ command)) rest"
  by (induction command arbitrary: w) auto

text \<open>
  C40. A POSIX shell reads the line of a command as three words: the pinned shell, \<open>-c\<close>, and the command of the
  model character by character, whatever quotes and other characters it holds.
\<close>

theorem command_is_one_argument:
  assumes "platform \<noteq> ''win32''"
  shows "plain_words None (command_line (select_shell platform opts) command) =
    Some [ascii ''/bin/bash'', ascii ''-c'', command]"
  using assms
  by (simp add: command_line_def shell_arguments_def select_shell_def pinned_unix_shell_def quote_shell_argument_def
      quote_posix_def active_chars_def quoted_command)

theorem command_is_one_argument_witness:
  "plain_words None (command_line (select_shell ''linux'' \<lparr>so_windows = None, so_pwsh = None, so_processor = None\<rparr>)
     (ascii ''echo 'a; b' && ls'')) = Some [ascii ''/bin/bash'', ascii ''-c'', ascii ''echo 'a; b' && ls'']"
  by (rule command_is_one_argument) simp

text \<open>The quoting for Windows forgets backslashes: after one at the end the argument does not end.\<close>

lemma windows_backslash_opens_line:
  "quote_shell_argument (ascii ''dir C:'' @ [92]) Windows = [34] @ ascii ''dir C:'' @ [92, 34]"
  "windows_argument 0 [] (ascii ''dir C:'' @ [92, 34]) = None"
  by (code_simp, code_simp)

lemma windows_plain_argument:
  assumes "34 \<notin> set command" "92 \<notin> set command"
  shows "windows_argument 0 w (tl (quote_windows command) @ rest) = Some (w @ command, rest)"
  using assms by (induction command arbitrary: w) (auto simp: quote_windows_def)

end
