(* ===== verification/Spec2Isabelle.thy ===== *)
theory Spec2Isabelle
  imports Turn_Queue Diff Provider Router Session Events Replay Context Prompt
    Recovery Permission_Claims Subagent_Claims Web_Socket_Safety Pairing_Claims
    Canonical_Claims File_Lock Task_Store_Claims Task_Daemon_Claims
    Evolution_Engine_Claims Web_Fetch_Claims
    Rpc_Peer_Claims Worker_Pool_Claims Tool_Registry Background_Shells_Claims
    Prompt_Queue Permission_Chain Session_Resume Session_Turns File_Tools_Claims
    Tool_Executor Shell_Command
begin

text \<open>
  Volund Code is a terminal agent: it runs turns of a conversation with a language model, executes
  the tools the model asks for under the control of the user, and keeps what happened in logs. It is
  written in TypeScript. This development models the logic of its packages as functions and step
  relations of HOL and proves what they guarantee. Paths below are relative to \<open>src/packages\<close>
  unless they begin with \<open>apps\<close>.

  The parts and how they interact. A run of the agent loop (\<open>core\<close>) takes a session, asks the
  router for a provider, streams its answer, executes tool calls and appends messages. Everything it
  does is announced on an event bus whose subscribers write the session log; a session is rebuilt by
  replaying its log. Context policies shorten the messages sent, the prompt composer builds the system
  prompt, the permission manager decides about tool calls, and the subagent dispatcher starts runs
  of child sessions. The gateway serves sessions to remote clients: tokens, pairing of devices, one
  turn at a time per session, over its own WebSocket implementation. The task daemon starts runs on
  a schedule, from a store of tasks; the evolution engine tunes parameters of the agent and records
  each change in a journal. Processes share files under lock files.

  The conventions. A class is a record and each method a function from the record to the record, or
  to a result and the record; a result is \<open>error + value\<close>, with the code of the error. Where a method
  waits (an \<open>await\<close>), it is cut there into steps, so that other calls may come in between, unless
  the theory's opening text says that it is taken as one step; runs are lists of steps
  or of calls. JavaScript's \<open>Map\<close> is a list of pairs in insertion order (\<open>map_set\<close>, \<open>map_get\<close> in
  \<open>Prelude\<close>). Random values, the clock, the answers of the user and of services are arguments.
  Hashes, JSON text, glob and URL libraries and time zone data are parameters, each with the
  documented facts that a theorem needs as its premises. Strings of the sources are lists of UTF-16
  code units (\<open>ustr\<close>) where their content matters and HOL strings where only their identity does.

  Theories and sources:
  \<^item> \<open>Prelude\<close>: results, texts, insertion-ordered maps, and two locales: maps that evict their oldest
    entry, and machines whose operations keep an invariant. \<open>Effects\<close>: state-passing actions that
    may throw, with Hoare-style rules. \<open>Js_Path\<close>, \<open>Js_Date\<close>, \<open>Js_Number\<close>, \<open>Utf8\<close>: the parts of the
    language and its runtime that components use.
  \<^item> \<open>Turn_Queue\<close> (\<open>gateway-server/src/queue.ts\<close>): the promise chain as a list of tickets; mutual
    exclusion as long as nobody times out, progress, and that a timeout breaks the exclusion.
  \<^item> \<open>Diff\<close> (\<open>shared/src/diff.ts\<close>): the script is an edit script, it is minimal, and the hunks cover the
    changes at the lines their headers say.
  \<^item> \<open>Provider\<close>, \<open>Router\<close> (\<open>provider-kit\<close>, \<open>router\<close>): which provider is picked, and bounded retries.
  \<^item> \<open>Session\<close>, \<open>Events\<close>, \<open>Replay\<close>, \<open>Session_Store\<close>, \<open>Recovery\<close> (\<open>core/src/session.ts\<close>,
    \<open>shared/src/events\<close>, \<open>core/src/event-bus.ts\<close>, \<open>core/src/replay.ts\<close>, \<open>storage/src/index.ts\<close>): delivery
    once per event, replay under redelivery, and that the log of a run rebuilds its session.
  \<^item> \<open>Context\<close>, \<open>Prompt\<close> (\<open>context/src/index.ts\<close>, \<open>core/src/prompt-composer.ts\<close>,
    \<open>core/src/context-policy-registry.ts\<close>): what compaction keeps and drops; when a memo is stale.
  \<^item> \<open>Runner\<close>, \<open>Runner_Invariants\<close>, \<open>Runner_Turn\<close>, \<open>Runner_History\<close>, \<open>Runner_Safety\<close>, \<open>Runner_Demo\<close>
    (\<open>core/src/runner.ts\<close>): the loop over arbitrary collaborators; one terminal event, bounded model
    requests, every tool call answered in order and executed only after it was announced.
  \<^item> \<open>Permission\<close>, \<open>Permission_Safety\<close>, \<open>Permission_Claims\<close> (\<open>permission/src/index.ts\<close>): deny rules
    win, whatever is allowed has a reason, no request is lost or decided twice.
  \<^item> \<open>Agent_Registry\<close>, \<open>Subagent\<close>, \<open>Subagent_Registry\<close>, \<open>Subagent_Claims\<close> (\<open>subagent\<close>,
    \<open>shared/src/agent-schema.ts\<close>): the registry of runs is rebuilt from the log.
  \<^item> \<open>Web_Socket\<close>, \<open>Web_Socket_Safety\<close>, \<open>Gateway_Auth\<close>, \<open>Pairing\<close>, \<open>Pairing_Claims\<close>
    (\<open>gateway-server/src\<close>: \<open>websocket.ts\<close>, \<open>oauth.ts\<close>, \<open>pairing.ts\<close>): messages survive any cutting of
    the bytes, a connection closes once, codes are redeemed once, tokens follow the registry.
  \<^item> \<open>Canonical_Json\<close>, \<open>Canonical_Parse\<close>, \<open>Canonical_Claims\<close> (\<open>capability-contract/src/canonical.ts\<close>):
    a document is admitted exactly when it is the encoding of a canonical value.
  \<^item> \<open>File_Lock\<close> (\<open>shared/src/file-lock.ts\<close>, \<open>storage/src/memory-file-lock.ts\<close>, \<open>storage/src/task-store.ts\<close>):
    the lock protocols step by step, with crashes.
  \<^item> \<open>Task_Store\<close>, \<open>Scheduler\<close>, \<open>Task_Daemon\<close> and their \<open>_Launches\<close> and \<open>_Claims\<close>
    (\<open>storage/src/task-store.ts\<close>, \<open>app-runtime/src/scheduler-domain.ts\<close>, \<open>apps/cli/src/daemon.ts\<close>):
    crashed saves are atomic, runs are on time, no window runs twice.
  \<^item> \<open>Evolution_Records\<close>, \<open>Evolution_Journal\<close>, \<open>Evolution_Store\<close>, \<open>Evolution_Engine\<close> and their
    \<open>_Claims\<close> (\<open>storage/src/evolution-store.ts\<close>, \<open>core/src/evolution-engine.ts\<close>): crash recovery, values
    within bounds, rollbacks, and what a reported change is worth.
  \<^item> \<open>Web_Fetch\<close>, \<open>Web_Fetch_Claims\<close> (\<open>tools/src/web-fetch.ts\<close>): the refused addresses are exactly the
    reserved ones, whom a call contacts, the limit on requests.
  \<^item> \<open>Rpc_Peer\<close>, \<open>Worker_Pool\<close> and their \<open>_Claims\<close> (\<open>native-bridge/src/ipc.ts\<close>, \<open>worker-pool.ts\<close>): how
    the stream is cut does not matter, promises settle once, one child per kind, the crash breaker.
  \<^item> \<open>Tool_Registry\<close> (\<open>tool-kit/src/index.ts\<close>, \<open>kernel/src/index.ts\<close>), \<open>Background_Shells\<close> and its
    \<open>_Claims\<close> (\<open>tools/src/background-shells.ts\<close>): removing a plugin, the one exit of a shell.
  \<^item> \<open>Prompt_Queue\<close>, \<open>Permission_Chain\<close> (\<open>app-runtime/src/contracts.ts\<close>, \<open>permission.ts\<close>): a question is
    answered once, and what an answer can grant, to a child session in particular.
  \<^item> \<open>Session_Resume\<close>, \<open>Session_Turns\<close> (\<open>app-runtime/src/session-controller.ts\<close>, \<open>shared/src/attachments.ts\<close>):
    what a resumed session has and shows, one turn at a time per runner.
  \<^item> \<open>File_Tools\<close>, \<open>File_Tools_Claims\<close>, \<open>Backup_Store\<close> (\<open>tools/src/index.ts\<close>, \<open>storage/src/index.ts\<close>): failed tools
    change nothing, an edit changes one place, undo is a stack of file systems.
  \<^item> \<open>Tool_Executor\<close>, \<open>Shell_Command\<close> (\<open>tools/src/index.ts\<close>, \<open>tools/src/bash-shell.ts\<close>): what a tool runs on was
    validated and permitted, also after a hook rewrote it; a command reaches the shell as one argument.

  Interfaces are locales (\<open>insertion_map\<close> and \<open>invariant_machine\<close> in \<open>Prelude\<close>, the families of invariants
  of the loop in \<open>Runner_Invariants\<close>), each interpreted on the components that provide them.

  Bounds and fuel. Loops are structural or carry a measure, with these exceptions. The parser of
  canonical JSON runs its member loops on a fuel of one more than the length of the rest, which
  every member shortens (\<open>Canonical_Parse\<close> shows that it is never used up). The search for an
  order of rollback moves runs on the number of parameters, which is enough
  (\<open>rollback_always_finds_order\<close>). The enumeration of schedule windows stops at 1000 in the code.
  A provider stream is a finite list of its pulls, so that a stream that never ends
  is outside the model; the number of streams of a run is bounded by the code.

  Not modelled, with the reasons also in the manifest: user interfaces (React, terminal, web and
  mobile pages), HTTP routing and the assembly of the command line (wiring of modelled parts), the
  SQLite memory index (its logic is in queries), network protocols of model vendors and
  third-party SDKs, archive and market downloads, key chains, configuration text.
\<close>

end
